(* ===== verification/NMS_Prelude.thy ===== *)
theory NMS_Prelude
  imports
    Main
    "HOL-Library.Word"
    "HOL-Library.AList"
    "HOL-Library.Multiset"
    "HOL-Library.Monad_Syntax"
begin

text \<open>
  Shared vocabulary of the development: how the Go run time is represented.

  \<^item> A Go computation that may panic (an index or slice out of range) is a value of
    type \<open>'a option\<close>; \<open>None\<close> is the panic. \<open>rd8\<close>, \<open>rd16\<close>, \<open>rd32\<close> and
    \<open>slice\<close> are the bounds-checked reads of package \<open>encoding/binary\<close> and of slice
    expressions, so "this parser never reads past its input" is a theorem.
  \<^item> A Go map whose length the code uses is an association list with distinct keys;
    the locale \<open>go_map\<close> states what the clients rely on.
  \<^item> \<open>time.Time\<close> is the instant in nanoseconds since the Unix epoch, with the zero
    \<open>Time\<close> (1 January of year 1) as \<open>zero_time\<close>; \<open>time.Duration\<close> is an \<open>int64\<close>
    count of nanoseconds and \<open>Time.Sub\<close> saturates (\<open>t_sub\<close>).
  \<^item> Fixed-width integers are words; \<open>int64\<close> arithmetic on counters is \<open>int\<close> with
    the wrap-around written out (\<open>wrap64\<close>).
  \<^item> \<open>slices.SortFunc\<close> is \<open>sort_cmp\<close>; the locale \<open>comparator\<close> shows that its result
    is the only sorted permutation, whatever algorithm computes it.
\<close>

unbundle bit_operations_syntax

named_theorems go_simps \<open>unfolding rules for the Go run-time operations\<close>
named_theorems inv_intros \<open>preservation lemmas of the component invariants\<close>

type_synonym byte = "8 word"
type_synonym u8 = "8 word"
type_synonym u16 = "16 word"
type_synonym u32 = "32 word"
type_synonym u64 = "64 word"
type_synonym bytes = "byte list"

subsection \<open>Bounds-checked reads\<close>

definition rd8 :: "bytes \<Rightarrow> nat \<Rightarrow> u8 option" where
  "rd8 b i = (if i < length b then Some (b ! i) else None)"

definition be16 :: "byte \<Rightarrow> byte \<Rightarrow> u16" where
  "be16 x y = word_of_nat (256 * unat x + unat y)"

definition be32 :: "byte \<Rightarrow> byte \<Rightarrow> byte \<Rightarrow> byte \<Rightarrow> u32" where
  "be32 x y z w = word_of_nat (16777216 * unat x + 65536 * unat y + 256 * unat z + unat w)"

definition u16_at :: "bytes \<Rightarrow> nat \<Rightarrow> u16" where
  "u16_at b i = be16 (b ! i) (b ! (i + 1))"

definition u32_at :: "bytes \<Rightarrow> nat \<Rightarrow> u32" where
  "u32_at b i = be32 (b ! i) (b ! (i + 1)) (b ! (i + 2)) (b ! (i + 3))"

definition rd16 :: "bytes \<Rightarrow> nat \<Rightarrow> u16 option" where
  "rd16 b i = (if i + 2 \<le> length b then Some (u16_at b i) else None)"

definition rd32 :: "bytes \<Rightarrow> nat \<Rightarrow> u32 option" where
  "rd32 b i = (if i + 4 \<le> length b then Some (u32_at b i) else None)"

text \<open>\<open>slice b i j\<close> is \<open>b[i:j]\<close>: it panics unless \<open>i \<le> j \<le> len(b)\<close>.\<close>

definition slice :: "bytes \<Rightarrow> nat \<Rightarrow> nat \<Rightarrow> bytes option" where
  "slice b i j = (if i \<le> j \<and> j \<le> length b then Some (take (j - i) (drop i b)) else None)"

text \<open>\<open>slice_from b i\<close> is \<open>b[i:]\<close>.\<close>

definition slice_from :: "bytes \<Rightarrow> nat \<Rightarrow> bytes option" where
  "slice_from b i = (if i \<le> length b then Some (drop i b) else None)"

definition put_be16 :: "u16 \<Rightarrow> bytes" where
  "put_be16 v = [ucast (drop_bit 8 v), ucast v]"

definition put_be32 :: "u32 \<Rightarrow> bytes" where
  "put_be32 v = [ucast (drop_bit 24 v), ucast (drop_bit 16 v), ucast (drop_bit 8 v), ucast v]"

declare add_2_eq_Suc [simp del] add_2_eq_Suc' [simp del]

lemma u16_at_append [simp]: "u16_at (pre @ b) (length pre + i) = u16_at b i"
  by (simp add: u16_at_def nth_append add.assoc)

lemma u32_at_append [simp]: "u32_at (pre @ b) (length pre + i) = u32_at b i"
  by (simp add: u32_at_def nth_append add.assoc)

lemma u16_at_drop [simp]: "n + i + 2 \<le> length b \<Longrightarrow> u16_at (drop n b) i = u16_at b (n + i)"
  by (simp add: u16_at_def add.assoc)

lemma u32_at_drop [simp]: "n + i + 4 \<le> length b \<Longrightarrow> u32_at (drop n b) i = u32_at b (n + i)"
  by (simp add: u32_at_def add.assoc)

lemma u16_at_cong: "b ! i = c ! i \<Longrightarrow> b ! (i + 1) = c ! (i + 1) \<Longrightarrow> u16_at b i = u16_at c i"
  by (simp add: u16_at_def)

lemma rd8_Some [simp]: "i < length b \<Longrightarrow> rd8 b i = Some (b ! i)"
  by (simp add: rd8_def)

lemma rd16_Some [simp]: "i + 2 \<le> length b \<Longrightarrow> rd16 b i = Some (u16_at b i)"
  by (simp add: rd16_def)

lemma rd32_Some [simp]:
  "i + 4 \<le> length b \<Longrightarrow> rd32 b i = Some (u32_at b i)"
  by (simp add: rd32_def)

lemma slice_Some [simp]: "i \<le> j \<Longrightarrow> j \<le> length b \<Longrightarrow> slice b i j = Some (take (j - i) (drop i b))"
  by (simp add: slice_def)

lemma slice_from_Some [simp]: "i \<le> length b \<Longrightarrow> slice_from b i = Some (drop i b)"
  by (simp add: slice_from_def)

lemma unat_byte_less: "unat (x :: byte) < 256"
  using unsigned_less [of x] by simp

lemma unat_be16: "unat (be16 x y) = 256 * unat x + unat y"
  using unat_byte_less [of x] unat_byte_less [of y] unfolding be16_def unat_of_nat by simp

lemma unat_be32:
  "unat (be32 x y z w) = 16777216 * unat x + 65536 * unat y + 256 * unat z + unat w"
  using unat_byte_less [of x] unat_byte_less [of y] unat_byte_less [of z] unat_byte_less [of w]
  unfolding be32_def unat_of_nat by simp

lemma unat_be16_less: "unat (be16 x y) < 65536"
  using unsigned_less [of "be16 x y"] by simp

lemma unat_ucast_byte: "unat (ucast (v :: 'a::len word) :: byte) = unat v mod 256"
  by (simp add: unsigned_ucast_eq take_bit_eq_mod)

lemma unat_drop_bit: "unat (drop_bit n (v :: 'a::len word)) = unat v div 2 ^ n"
proof -
  have "unat (drop_bit n v) = drop_bit n (unat v)"
    using unsigned_less [of v, where ?'a = nat]
    by (simp only: unsigned_drop_bit_eq take_bit_nat_eq_self)
  then show ?thesis by (simp only: drop_bit_eq_div)
qed

lemma be16_put [simp]: "be16 (ucast (drop_bit 8 v)) (ucast v) = v"
proof (rule unsigned_word_eqI)
  have "unat v < 65536" using unsigned_less [of v] by simp
  then show "unat (be16 (ucast (drop_bit 8 v)) (ucast v)) = unat v"
    by (simp add: unat_be16 unat_ucast_byte unat_drop_bit)
qed

lemma base256_digits:
  fixes n :: nat
  assumes "n < 4294967296"
  shows "16777216 * (n div 16777216 mod 256) + 65536 * (n div 65536 mod 256)
    + 256 * (n div 256 mod 256) + n mod 256 = n"
proof -
  define a b c where "a = n div 256" and "b = a div 256" and "c = b div 256"
  have "n div 65536 = b" and "n div 16777216 = c"
    by (simp_all add: a_def b_def c_def flip: div_mult2_eq)
  moreover have "c < 256" using assms by (simp add: a_def b_def c_def flip: div_mult2_eq)
  moreover have "n = 256 * a + n mod 256" "a = 256 * b + a mod 256" "b = 256 * c + b mod 256"
    by (simp_all add: a_def b_def c_def)
  ultimately show ?thesis by (simp add: a_def [symmetric])
qed

lemma be32_put [simp]:
  "be32 (ucast (drop_bit 24 v)) (ucast (drop_bit 16 v)) (ucast (drop_bit 8 v)) (ucast v) = v"
proof (rule unsigned_word_eqI)
  have "unat v < 4294967296" using unsigned_less [of v] by simp
  then show "unat (be32 (ucast (drop_bit 24 v)) (ucast (drop_bit 16 v)) (ucast (drop_bit 8 v)) (ucast v)) = unat v"
    using base256_digits [of "unat v"]
    by (simp only: unat_be32 unat_ucast_byte unat_drop_bit) simp
qed

lemma u16_at_put [simp]: "u16_at (put_be16 v @ b) 0 = v" "u16_at (put_be16 v) 0 = v"
  by (simp_all add: u16_at_def put_be16_def)

lemma u32_at_put [simp]: "u32_at (put_be32 v @ b) 0 = v" "u32_at (put_be32 v) 0 = v"
  by (simp_all add: u32_at_def put_be32_def numeral_2_eq_2 numeral_3_eq_3)

lemma put_be16_be16: "put_be16 (be16 x y) = [x, y]"
proof -
  have "unat (ucast (drop_bit 8 (be16 x y)) :: byte) = unat x" "unat (ucast (be16 x y) :: byte) = unat y"
    using unat_byte_less [of x] unat_byte_less [of y]
    by (simp_all add: unat_ucast_byte unat_drop_bit unat_be16)
  then show ?thesis by (simp add: put_be16_def word_unat_eq_iff)
qed

lemma length_put_be16 [simp]: "length (put_be16 v) = 2"
  by (simp add: put_be16_def)

lemma length_put_be32 [simp]: "length (put_be32 v) = 4"
  by (simp add: put_be32_def)


subsection \<open>Absence of panics\<close>

text \<open>
  \<open>safe m Q\<close>: the computation \<open>m\<close> does not panic and its result satisfies \<open>Q\<close>. The rules
  below walk through a monadic definition the way a weakest-precondition calculus does.
\<close>

named_theorems safe_intros \<open>rules that establish \<open>safe\<close>\<close>

definition safe :: "'a option \<Rightarrow> ('a \<Rightarrow> bool) \<Rightarrow> bool" where
  "safe m Q \<longleftrightarrow> (\<exists>x. m = Some x \<and> Q x)"

lemma safe_return [safe_intros]: "Q x \<Longrightarrow> safe (Some x) Q"
  by (simp add: safe_def)

lemma safe_bind [safe_intros]: "safe m (\<lambda>x. safe (f x) Q) \<Longrightarrow> safe (m \<bind> f) Q"
  by (auto simp: safe_def)

lemma safe_if [safe_intros]: "(c \<Longrightarrow> safe a Q) \<Longrightarrow> (\<not> c \<Longrightarrow> safe b Q) \<Longrightarrow> safe (if c then a else b) Q"
  by simp

lemma safe_let [safe_intros]: "(\<And>y. y = x \<Longrightarrow> safe (f y) Q) \<Longrightarrow> safe (let y = x in f y) Q"
  by simp

lemma safe_sum [safe_intros]:
  "(\<And>x. r = Inl x \<Longrightarrow> safe (f x) Q) \<Longrightarrow> (\<And>y. r = Inr y \<Longrightarrow> safe (g y) Q) \<Longrightarrow>
    safe (case r of Inl x \<Rightarrow> f x | Inr y \<Rightarrow> g y) Q"
  by (cases r) auto

lemma safe_option [safe_intros]:
  "(r = None \<Longrightarrow> safe a Q) \<Longrightarrow> (\<And>y. r = Some y \<Longrightarrow> safe (g y) Q) \<Longrightarrow>
    safe (case r of None \<Rightarrow> a | Some y \<Rightarrow> g y) Q"
  by (cases r) auto

lemma safe_prod [safe_intros]:
  "(\<And>x y. r = (x, y) \<Longrightarrow> safe (f x y) Q) \<Longrightarrow> safe (case r of (x, y) \<Rightarrow> f x y) Q"
  by (cases r) auto

lemma safe_rd8 [safe_intros]: "i < length b \<Longrightarrow> Q (b ! i) \<Longrightarrow> safe (rd8 b i) Q"
  by (simp add: safe_def)

lemma safe_rd16 [safe_intros]:
  "i + 2 \<le> length b \<Longrightarrow> Q (u16_at b i) \<Longrightarrow> safe (rd16 b i) Q"
  by (simp add: safe_def)

lemma safe_rd32 [safe_intros]:
  "i + 4 \<le> length b \<Longrightarrow> Q (u32_at b i) \<Longrightarrow> safe (rd32 b i) Q"
  by (simp add: safe_def)

lemma safe_slice [safe_intros]:
  "i \<le> j \<Longrightarrow> j \<le> length b \<Longrightarrow> Q (take (j - i) (drop i b)) \<Longrightarrow> safe (slice b i j) Q"
  by (simp add: safe_def)

lemma safe_slice_from [safe_intros]: "i \<le> length b \<Longrightarrow> Q (drop i b) \<Longrightarrow> safe (slice_from b i) Q"
  by (simp add: safe_def)

lemma safe_mono: "safe m Q \<Longrightarrow> (\<And>x. Q x \<Longrightarrow> R x) \<Longrightarrow> safe m R"
  by (auto simp: safe_def)

lemma safe_not_None: "safe m Q \<Longrightarrow> m \<noteq> None"
  by (auto simp: safe_def)

lemma safeD: "safe m Q \<Longrightarrow> m = Some x \<Longrightarrow> Q x"
  by (simp add: safe_def)

subsection \<open>Go maps\<close>

text \<open>
  What client code relies on when it reads, writes, deletes from and measures a map:
  \<open>size\<close> is \<open>len(m)\<close>, \<open>get\<close> the two-valued lookup, \<open>put\<close> assignment, \<open>del\<close> the
  builtin \<open>delete\<close>.
\<close>

locale go_map =
  fixes empty :: 'm
    and get :: "'m \<Rightarrow> 'k \<Rightarrow> 'v option"
    and put :: "'k \<Rightarrow> 'v \<Rightarrow> 'm \<Rightarrow> 'm"
    and del :: "'k \<Rightarrow> 'm \<Rightarrow> 'm"
    and size :: "'m \<Rightarrow> nat"
    and wf :: "'m \<Rightarrow> bool"
  assumes get_empty: "get empty k = None"
    and get_put: "get (put k v m) k' = (if k' = k then Some v else get m k')"
    and get_del: "get (del k m) k' = (if k' = k then None else get m k')"
    and size_empty: "size empty = 0"
    and size_put: "wf m \<Longrightarrow> size (put k v m) = (if get m k = None then Suc (size m) else size m)"
    and size_del: "wf m \<Longrightarrow> size (del k m) = (if get m k = None then size m else size m - 1)"
    and wf_empty: "wf empty"
    and wf_put: "wf m \<Longrightarrow> wf (put k v m)"
    and wf_del: "wf m \<Longrightarrow> wf (del k m)"
begin

text \<open>The guard \<open>if _, ok := m[k]; !ok && len(m) >= cap { refuse }\<close> keeps \<open>len(m) \<le> cap\<close>.\<close>

lemma size_put_capped:
  assumes "wf m" and "size m \<le> cap" and "get m k \<noteq> None \<or> size m < cap"
  shows "size (put k v m) \<le> cap"
  using assms by (auto simp: size_put)

lemma size_del_le: "wf m \<Longrightarrow> size (del k m) \<le> size m"
  by (simp add: size_del)

lemma size_put_le: "wf m \<Longrightarrow> size (put k v m) \<le> Suc (size m)"
  by (simp add: size_put)

lemma del_put_same: "get (del k (put k v m)) = get (del k m)"
  by (simp add: fun_eq_iff get_put get_del)

end

type_synonym ('k, 'v) gomap = "('k \<times> 'v) list"

definition gm_get :: "('k, 'v) gomap \<Rightarrow> 'k \<Rightarrow> 'v option" where
  "gm_get m k = map_of m k"

definition gm_put :: "'k \<Rightarrow> 'v \<Rightarrow> ('k, 'v) gomap \<Rightarrow> ('k, 'v) gomap" where
  "gm_put k v m = AList.update k v m"

definition gm_del :: "'k \<Rightarrow> ('k, 'v) gomap \<Rightarrow> ('k, 'v) gomap" where
  "gm_del k m = AList.delete k m"

definition gm_len :: "('k, 'v) gomap \<Rightarrow> nat" where
  "gm_len m = length m"

definition gm_has :: "('k, 'v) gomap \<Rightarrow> 'k \<Rightarrow> bool" where
  "gm_has m k = (gm_get m k \<noteq> None)"

definition gm_wf :: "('k, 'v) gomap \<Rightarrow> bool" where
  "gm_wf m = distinct (map fst m)"

lemma length_alist_update:
  "length (AList.update k v m) = (if map_of m k = None then Suc (length m) else length m)"
  by (induction m) auto

lemma alist_delete_absent: "map_of m k = None \<Longrightarrow> AList.delete k m = m"
  by (induction m) (auto split: if_splits)

lemma length_alist_delete:
  "distinct (map fst m) \<Longrightarrow>
    length (AList.delete k m) = (if map_of m k = None then length m else length m - 1)"
proof (induction m)
  case (Cons x m)
  obtain a b where x: "x = (a, b)" by force
  show ?case
  proof (cases "a = k")
    case True
    with Cons.prems x have "map_of m k = None" by (simp add: map_of_eq_None_iff)
    then show ?thesis using True x by (simp add: alist_delete_absent)
  next
    case False
    have "map_of m k \<noteq> None \<Longrightarrow> length m \<noteq> 0" by auto
    then show ?thesis using False x Cons by (cases "length m") auto
  qed
qed simp

interpretation gmap: go_map "[]" gm_get gm_put gm_del gm_len gm_wf
proof
  fix m :: "('k \<times> 'v) list" and k k' :: 'k and v :: 'v
  show "gm_get (gm_put k v m) k' = (if k' = k then Some v else gm_get m k')"
    by (simp add: gm_get_def gm_put_def update_conv')
  show "gm_get (gm_del k m) k' = (if k' = k then None else gm_get m k')"
    by (simp add: gm_get_def gm_del_def delete_conv')
  show "gm_wf m \<Longrightarrow> gm_len (gm_put k v m) = (if gm_get m k = None then Suc (gm_len m) else gm_len m)"
    by (simp add: gm_len_def gm_put_def gm_get_def length_alist_update)
  show "gm_wf m \<Longrightarrow> gm_len (gm_del k m) = (if gm_get m k = None then gm_len m else gm_len m - 1)"
    unfolding gm_len_def gm_del_def gm_get_def gm_wf_def by (rule length_alist_delete)
  show "gm_wf m \<Longrightarrow> gm_wf (gm_put k v m)"
    by (simp add: gm_wf_def gm_put_def distinct_update)
  show "gm_wf m \<Longrightarrow> gm_wf (gm_del k m)"
    by (simp add: gm_wf_def gm_del_def distinct_delete)
qed (simp_all add: gm_get_def gm_len_def gm_wf_def)

lemmas gm_simps [simp] = gmap.get_empty gmap.get_put gmap.get_del gmap.size_empty gmap.wf_empty
lemmas gm_wf_intros [intro, inv_intros] = gmap.wf_put gmap.wf_del

lemma gm_has_simps [simp]:
  "\<not> gm_has [] k"
  "gm_has (gm_put k v m) k' = (k' = k \<or> gm_has m k')"
  "gm_has (gm_del k m) k' = (k' \<noteq> k \<and> gm_has m k')"
  by (auto simp: gm_has_def)

lemma gm_len_Nil_iff: "gm_len m = 0 \<longleftrightarrow> m = []"
  by (simp add: gm_len_def)

lemma gm_get_in_set: "gm_get m k = Some v \<Longrightarrow> (k, v) \<in> set m"
  by (simp add: gm_get_def map_of_SomeD)

lemma gm_get_iff_in_set: "gm_wf m \<Longrightarrow> gm_get m k = Some v \<longleftrightarrow> (k, v) \<in> set m"
  by (simp add: gm_get_def gm_wf_def map_of_eq_Some_iff)

lemma set_gm_put: "snd ` set (gm_put k v m) \<subseteq> insert v (snd ` set m)"
  unfolding gm_put_def by (induction m) auto

lemma set_gm_del: "set (gm_del k m) \<subseteq> set m"
  unfolding gm_del_def by (induction m) auto

text \<open>Every value of the map satisfies the predicate.\<close>

definition gm_all :: "('v \<Rightarrow> bool) \<Rightarrow> ('k, 'v) gomap \<Rightarrow> bool" where
  "gm_all P m \<longleftrightarrow> (\<forall>v \<in> snd ` set m. P v)"

lemma gm_all_Nil [simp]: "gm_all P []"
  by (simp add: gm_all_def)

lemma gm_all_get: "gm_all P m \<Longrightarrow> gm_get m k = Some v \<Longrightarrow> P v"
  unfolding gm_all_def using gm_get_in_set [of m k v] by force

lemma gm_all_put: "gm_all P m \<Longrightarrow> P v \<Longrightarrow> gm_all P (gm_put k v m)"
  unfolding gm_all_def using set_gm_put [of k v m] by blast

lemma gm_all_del: "gm_all P m \<Longrightarrow> gm_all P (gm_del k m)"
  unfolding gm_all_def using set_gm_del [of k m] by blast

lemma gm_wf_filter: "gm_wf m \<Longrightarrow> gm_wf (filter P m)"
  by (simp add: gm_wf_def distinct_map_filter)

text \<open>A table whose rows are stored under the key their own columns give.\<close>

definition keyed :: "('v \<Rightarrow> 'k) \<Rightarrow> ('k, 'v) gomap \<Rightarrow> bool" where
  "keyed idf m \<longleftrightarrow> gm_wf m \<and> (\<forall>k v. (k, v) \<in> set m \<longrightarrow> idf v = k)"

lemma keys_put: "fst ` set (gm_put k v m) = insert k (fst ` set m)"
  by (simp add: gm_put_def AList.dom_update)

lemma entries_put: "gm_wf m \<Longrightarrow> x \<in> set (gm_put k v m) \<Longrightarrow> x = (k, v) \<or> x \<in> set m"
  by (metis gm_get_iff_in_set gmap.get_put gmap.wf_put option.inject prod.collapse)

lemma keyed_put: "keyed idf m \<Longrightarrow> idf v = k \<Longrightarrow> keyed idf (gm_put k v m)"
  unfolding keyed_def using entries_put [of m _ k v] by (simp add: gm_wf_intros) blast

lemma keyed_get: "keyed idf m \<Longrightarrow> gm_get m k = Some v \<Longrightarrow> idf v = k"
  unfolding keyed_def using gm_get_in_set by fast

lemma keyed_filter: "keyed idf m \<Longrightarrow> keyed idf (filter P m)"
  unfolding keyed_def by (simp add: gm_wf_def distinct_map_filter)

lemma keyed_del: "keyed idf m \<Longrightarrow> keyed idf (gm_del k m)"
  unfolding keyed_def using set_gm_del [of k m] by (auto intro: gm_wf_intros)


subsection \<open>Time\<close>

type_synonym time = int     \<comment> \<open>\<open>time.Time\<close>: nanoseconds since the Unix epoch\<close>
type_synonym duration = int \<comment> \<open>\<open>time.Duration\<close>: nanoseconds\<close>

abbreviation (input) nanos_per_sec :: int where "nanos_per_sec \<equiv> 1000000000"
abbreviation (input) nanos_per_ms :: int where "nanos_per_ms \<equiv> 1000000"

definition seconds :: "int \<Rightarrow> duration" where "seconds n = n * nanos_per_sec"
definition millis :: "int \<Rightarrow> duration" where "millis n = n * nanos_per_ms"
definition minutes :: "int \<Rightarrow> duration" where "minutes n = seconds (60 * n)"
definition hours :: "int \<Rightarrow> duration" where "hours n = seconds (3600 * n)"

text \<open>The zero \<open>time.Time\<close>: 0001-01-01 00:00:00 UTC.\<close>

definition zero_time :: time where "zero_time = seconds (- 62135596800)"

definition is_zero :: "time \<Rightarrow> bool" where "is_zero t = (t = zero_time)"

definition time_Unix :: "int \<Rightarrow> int \<Rightarrow> time" where "time_Unix s ns = seconds s + ns"
definition time_UnixMilli :: "int \<Rightarrow> time" where "time_UnixMilli ms = millis ms"
definition unix :: "time \<Rightarrow> int" where "unix t = t div nanos_per_sec"
definition unix_milli :: "time \<Rightarrow> int" where "unix_milli t = t div nanos_per_ms"

definition min_duration :: duration where "min_duration = - 9223372036854775808"
definition max_duration :: duration where "max_duration = 9223372036854775807"

text \<open>\<open>t.Sub(u)\<close> saturates at the ends of the \<open>Duration\<close> range.\<close>

definition t_sub :: "time \<Rightarrow> time \<Rightarrow> duration" where
  "t_sub t u = max min_duration (min max_duration (t - u))"

lemmas time_defs = seconds_def millis_def minutes_def hours_def zero_time_def is_zero_def
  time_Unix_def time_UnixMilli_def unix_def unix_milli_def min_duration_def max_duration_def t_sub_def

lemma t_sub_mono: "u \<le> v \<Longrightarrow> t_sub u t \<le> t_sub v t"
  by (auto simp: t_sub_def)

lemma t_sub_exact: "min_duration \<le> t - u \<Longrightarrow> t - u \<le> max_duration \<Longrightarrow> t_sub t u = t - u"
  by (simp add: t_sub_def)

lemma t_sub_less_iff:
  "min_duration < d \<Longrightarrow> d \<le> max_duration \<Longrightarrow> t_sub t u < d \<longleftrightarrow> t - u < d"
  by (auto simp: t_sub_def)

lemma t_sub_same [simp]: "t_sub t t = 0"
  by (simp add: time_defs)

lemma unix_lower: "seconds (unix t) \<le> t"
  unfolding time_defs by presburger

lemma unix_upper: "t < seconds (unix t + 1)"
  unfolding time_defs by presburger

lemma unix_mono: "t \<le> u \<Longrightarrow> unix t \<le> unix u"
  by (simp add: time_defs zdiv_mono1)

lemma unix_milli_mono: "t \<le> u \<Longrightarrow> unix_milli t \<le> unix_milli u"
  by (simp add: time_defs zdiv_mono1)

lemma unix_of_milli: "unix_milli t div 1000 = unix t"
  by (simp add: time_defs flip: zdiv_zmult2_eq)

subsection \<open>64-bit counters\<close>

text \<open>Two's complement wrap-around of an \<open>int64\<close> result.\<close>

definition wrap64 :: "int \<Rightarrow> int" where
  "wrap64 x = (x + 9223372036854775808) mod 18446744073709551616 - 9223372036854775808"

definition int64 :: "int \<Rightarrow> bool" where
  "int64 x \<longleftrightarrow> - 9223372036854775808 \<le> x \<and> x \<le> 9223372036854775807"

lemma int64_wrap64 [simp]: "int64 (wrap64 x)"
proof -
  have "0 \<le> (x + 9223372036854775808) mod 18446744073709551616"
    and "(x + 9223372036854775808) mod 18446744073709551616 < 18446744073709551616"
    by simp_all
  then show ?thesis unfolding int64_def wrap64_def by linarith
qed

lemma wrap64_id: "int64 x \<Longrightarrow> wrap64 x = x"
  by (simp add: int64_def wrap64_def)

lemma wrap64_over:
  assumes "9223372036854775808 \<le> x" and "x \<le> 18446744073709551615"
  shows "wrap64 x = x - 18446744073709551616"
proof -
  have "(x + 9223372036854775808) mod 18446744073709551616
      = (x + 9223372036854775808 - 18446744073709551616) mod 18446744073709551616"
    by (rule minus_mod_self2 [symmetric])
  also have "\<dots> = x + 9223372036854775808 - 18446744073709551616"
    using assms by (intro mod_pos_pos_trivial) linarith+
  finally show ?thesis unfolding wrap64_def by linarith
qed


text \<open>Go's integer division truncates towards zero; the remainder has the dividend's sign.\<close>

definition go_quot :: "int \<Rightarrow> int \<Rightarrow> int" where
  "go_quot a b = sgn a * sgn b * (\<bar>a\<bar> div \<bar>b\<bar>)"

definition go_rem :: "int \<Rightarrow> int \<Rightarrow> int" where
  "go_rem a b = sgn a * (\<bar>a\<bar> mod \<bar>b\<bar>)"

lemma go_quot_rem: "a = go_quot a b * b + go_rem a b"
proof -
  have "sgn b * b = \<bar>b\<bar>" by (simp add: abs_sgn mult.commute)
  moreover have "go_quot a b * b = sgn a * (\<bar>a\<bar> div \<bar>b\<bar>) * (sgn b * b)"
    by (simp add: go_quot_def)
  ultimately have "go_quot a b * b + go_rem a b = sgn a * (\<bar>a\<bar> div \<bar>b\<bar> * \<bar>b\<bar> + \<bar>a\<bar> mod \<bar>b\<bar>)"
    by (simp only: go_rem_def distrib_left mult.assoc)
  then show ?thesis by (simp add: sgn_mult_abs)
qed

lemma go_quot_nonneg: "0 \<le> a \<Longrightarrow> 0 < b \<Longrightarrow> go_quot a b = a div b"
  by (cases "a = 0") (simp_all add: go_quot_def)

lemma go_rem_nonneg: "0 \<le> a \<Longrightarrow> 0 < b \<Longrightarrow> go_rem a b = a mod b"
  by (cases "a = 0") (simp_all add: go_rem_def)

subsection \<open>Sorting with a comparison function\<close>

fun insert_cmp :: "('a \<Rightarrow> 'a \<Rightarrow> int) \<Rightarrow> 'a \<Rightarrow> 'a list \<Rightarrow> 'a list" where
  "insert_cmp cmp x [] = [x]"
| "insert_cmp cmp x (y # ys) = (if cmp x y \<le> 0 then x # y # ys else y # insert_cmp cmp x ys)"

definition sort_cmp :: "('a \<Rightarrow> 'a \<Rightarrow> int) \<Rightarrow> 'a list \<Rightarrow> 'a list" where
  "sort_cmp cmp xs = foldr (insert_cmp cmp) xs []"

text \<open>\<open>cmp.Compare\<close> on an ordered type.\<close>

definition go_compare :: "'a::linorder \<Rightarrow> 'a \<Rightarrow> int" where
  "go_compare x y = (if x < y then - 1 else if y < x then 1 else 0)"

lemma mset_insert_cmp [simp]: "mset (insert_cmp cmp x ys) = add_mset x (mset ys)"
  by (induction ys) auto

lemma mset_sort_cmp [simp]: "mset (sort_cmp cmp xs) = mset xs"
  by (induction xs) (auto simp: sort_cmp_def)

lemma set_sort_cmp [simp]: "set (sort_cmp cmp xs) = set xs"
  by (metis mset_sort_cmp set_mset_mset)

lemma length_sort_cmp [simp]: "length (sort_cmp cmp xs) = length xs"
  by (metis mset_sort_cmp size_mset)

lemma distinct_sort_cmp [simp]: "distinct (sort_cmp cmp xs) = distinct xs"
  by (metis mset_sort_cmp mset_eq_imp_distinct_iff)

text \<open>
  A comparison function as \<open>slices.SortFunc\<close> needs it: a total preorder, whose ties
  agree on \<open>key\<close>.
\<close>

locale comparator =
  fixes cmp :: "'a \<Rightarrow> 'a \<Rightarrow> int"
    and key :: "'a \<Rightarrow> 'b"
  assumes cmp_flip: "cmp y x = - cmp x y"
    and cmp_trans: "cmp x y \<le> 0 \<Longrightarrow> cmp y z \<le> 0 \<Longrightarrow> cmp x z \<le> 0"
    and cmp_zero: "cmp x y = 0 \<Longrightarrow> key x = key y"
begin

lemma cmp_total: "cmp x y \<le> 0 \<or> cmp y x \<le> 0"
  using cmp_flip [of y x] by linarith

lemma sorted_insert_cmp:
  "sorted_wrt (\<lambda>x y. cmp x y \<le> 0) ys \<Longrightarrow> sorted_wrt (\<lambda>x y. cmp x y \<le> 0) (insert_cmp cmp x ys)"
proof (induction ys)
  case (Cons y ys)
  have "set (insert_cmp cmp x ys) = insert x (set ys)"
    by (metis mset_insert_cmp set_mset_add_mset_insert set_mset_mset)
  with Cons show ?case using cmp_total [of x y] by (auto intro: cmp_trans)
qed simp

theorem sorted_sort_cmp: "sorted_wrt (\<lambda>x y. cmp x y \<le> 0) (sort_cmp cmp xs)"
  by (induction xs) (auto simp: sort_cmp_def sorted_insert_cmp)

text \<open>On elements with distinct keys any sorting algorithm returns the same list.\<close>

theorem sorted_unique:
  assumes "sorted_wrt (\<lambda>x y. cmp x y \<le> 0) xs" and "sorted_wrt (\<lambda>x y. cmp x y \<le> 0) ys"
    and "mset xs = mset ys" and "inj_on key (set xs)"
  shows "xs = ys"
  using assms
proof (induction xs arbitrary: ys)
  case (Cons x xs)
  from Cons.prems(3) obtain y ys' where ys: "ys = y # ys'" by (cases ys) auto
  have xy: "x \<in> set ys" "y \<in> set (x # xs)"
    using Cons.prems(3) ys by (metis list.set_intros(1) set_mset_mset)+
  then have "cmp x y \<le> 0" "cmp y x \<le> 0"
    using Cons.prems(1,2) ys cmp_flip [of x x] by auto
  then have "cmp x y = 0" using cmp_flip [of y x] by linarith
  then have "x = y" using cmp_zero Cons.prems(4) xy(2) by (auto dest: inj_onD)
  with Cons ys show ?case by auto
qed simp

corollary sort_cmp_unique:
  assumes "sorted_wrt (\<lambda>x y. cmp x y \<le> 0) ys" and "mset ys = mset xs" and "inj_on key (set xs)"
  shows "ys = sort_cmp cmp xs"
  using sorted_unique [OF assms(1) sorted_sort_cmp] assms(2,3)
  by (metis mset_sort_cmp set_mset_mset)

end

interpretation ord_cmp: comparator "go_compare :: 'a::linorder \<Rightarrow> 'a \<Rightarrow> int" "\<lambda>x. x"
  by unfold_locales (auto simp: go_compare_def split: if_splits)

text \<open>\<open>if c := compare(a); c != 0 { return c }; return compare(b)\<close>.\<close>

definition cmp_then :: "('a \<Rightarrow> 'a \<Rightarrow> int) \<Rightarrow> ('a \<Rightarrow> 'a \<Rightarrow> int) \<Rightarrow> 'a \<Rightarrow> 'a \<Rightarrow> int" where
  "cmp_then c d x y = (let r = c x y in if r \<noteq> 0 then r else d x y)"

lemma comparator_then:
  assumes "comparator c key" and "comparator d key'"
  shows "comparator (cmp_then c d) (\<lambda>x. (key x, key' x))"
proof
  fix x y z
  show "cmp_then c d y x = - cmp_then c d x y"
    using comparator.cmp_flip [OF assms(1), of y x] comparator.cmp_flip [OF assms(2), of y x]
    by (simp add: cmp_then_def Let_def)
  show "cmp_then c d x y = 0 \<Longrightarrow> (key x, key' x) = (key y, key' y)"
    using comparator.cmp_zero [OF assms(1), of x y] comparator.cmp_zero [OF assms(2), of x y]
    by (auto simp: cmp_then_def Let_def split: if_splits)
next
  fix x y z
  assume xy: "cmp_then c d x y \<le> 0" and yz: "cmp_then c d y z \<le> 0"
  have c: "c x y \<le> 0" "c y z \<le> 0" and d: "c x y = 0 \<Longrightarrow> d x y \<le> 0" "c y z = 0 \<Longrightarrow> d y z \<le> 0"
    using xy yz by (auto simp: cmp_then_def Let_def split: if_splits)
  have xz: "c x z \<le> 0" using c by (rule comparator.cmp_trans [OF assms(1)])
  have "d x z \<le> 0" if eq: "c x z = 0"
  proof -
    have "c z x \<le> 0" using eq comparator.cmp_flip [OF assms(1), of z x] by simp
    then have "c z y \<le> 0" "c y x \<le> 0"
      using c comparator.cmp_trans [OF assms(1)] by blast+
    then have "c x y = 0" "c y z = 0"
      using c comparator.cmp_flip [OF assms(1), of y x] comparator.cmp_flip [OF assms(1), of z y]
      by linarith+
    then show ?thesis using d comparator.cmp_trans [OF assms(2)] by blast
  qed
  with xz show "cmp_then c d x z \<le> 0" by (simp add: cmp_then_def Let_def)
qed

lemma comparator_on: "comparator c key \<Longrightarrow> comparator (\<lambda>x y. c (f x) (f y)) (\<lambda>x. key (f x))"
proof -
  assume c: "comparator c key"
  show ?thesis
  proof
    fix x y z
    show "c (f y) (f x) = - c (f x) (f y)" by (rule comparator.cmp_flip [OF c])
    show "c (f x) (f y) \<le> 0 \<Longrightarrow> c (f y) (f z) \<le> 0 \<Longrightarrow> c (f x) (f z) \<le> 0"
      by (rule comparator.cmp_trans [OF c])
    show "c (f x) (f y) = 0 \<Longrightarrow> key (f x) = key (f y)" by (rule comparator.cmp_zero [OF c])
  qed
qed

lemma comparator_flip: "comparator c key \<Longrightarrow> comparator (\<lambda>x y. c y x) key"
proof -
  assume c: "comparator c key"
  show ?thesis
  proof
    fix x y z
    show "c x y = - c y x" by (rule comparator.cmp_flip [OF c])
    show "c y x \<le> 0 \<Longrightarrow> c z y \<le> 0 \<Longrightarrow> c z x \<le> 0"
      using comparator.cmp_trans [OF c, of z y x] by simp
    show "c y x = 0 \<Longrightarrow> key x = key y" by (rule comparator.cmp_zero [OF c, symmetric])
  qed
qed

end
