(* ===== verification/Flow_Types.thy ===== *)
theory Flow_Types
  imports NMS_Prelude
begin

text \<open>
  The data of package \<open>flow/decode\<close> (\<open>decode/flow.go\<close>): protocol kinds and the
  sniffer, time sources, addresses as package \<open>net/netip\<close> has them, the normalised
  \<open>Flow\<close>, and the two byte-level readers \<open>beUint\<close> and \<open>addrOf\<close>.
\<close>

subsection \<open>Addresses (\<open>net/netip\<close>)\<close>

text \<open>
  \<open>netip.Addr\<close>: the zero \<open>Addr\<close>, an IPv4 address (4 bytes) or an IPv6 address
  (16 bytes). Zones never occur: addresses come from the wire or from the database.
\<close>

datatype addr = NoAddr | Addr4 bytes | Addr6 bytes

fun addr_wf :: "addr \<Rightarrow> bool" where
  "addr_wf NoAddr = True"
| "addr_wf (Addr4 b) = (length b = 4)"
| "addr_wf (Addr6 b) = (length b = 16)"

definition v4_mapped_prefix :: bytes where
  "v4_mapped_prefix = replicate 10 0 @ [255, 255]"

fun Unmap :: "addr \<Rightarrow> addr" where
  "Unmap (Addr6 b) = (if take 12 b = v4_mapped_prefix then Addr4 (drop 12 b) else Addr6 b)"
| "Unmap a = a"

fun IsValid :: "addr \<Rightarrow> bool" where
  "IsValid NoAddr = False"
| "IsValid _ = True"

fun IsUnspecified :: "addr \<Rightarrow> bool" where
  "IsUnspecified NoAddr = False"
| "IsUnspecified (Addr4 b) = (b = replicate 4 0)"
| "IsUnspecified (Addr6 b) = (b = replicate 16 0)"

fun As16 :: "addr \<Rightarrow> bytes" where
  "As16 NoAddr = replicate 16 0"
| "As16 (Addr4 b) = v4_mapped_prefix @ b"
| "As16 (Addr6 b) = b"

definition AddrFrom16 :: "bytes \<Rightarrow> addr" where
  "AddrFrom16 b = Addr6 b"

lemma length_v4_mapped_prefix [simp]: "length v4_mapped_prefix = 12"
  by (simp add: v4_mapped_prefix_def)

lemma Unmap_wf: "addr_wf a \<Longrightarrow> addr_wf (Unmap a)"
  by (cases a) auto

lemma Unmap_idem [simp]: "addr_wf a \<Longrightarrow> Unmap (Unmap a) = Unmap a"
  by (cases a) auto

lemma length_As16: "addr_wf a \<Longrightarrow> length (As16 a) = 16"
  by (cases a) auto

lemma IsValid_Unmap [simp]: "IsValid (Unmap a) = IsValid a"
  by (cases a) auto

text \<open>Storing an unmapped address as 16 bytes and reading it back is lossless.\<close>

lemma Unmap_AddrFrom16_As16:
  "addr_wf a \<Longrightarrow> IsValid a \<Longrightarrow> Unmap (AddrFrom16 (As16 (Unmap a))) = Unmap a"
  by (cases a) (auto simp: AddrFrom16_def)

subsection \<open>Kinds and time sources\<close>

datatype kind = KindUnknown | KindNFv5 | KindNFv9 | KindIPFIX | KindSFlow

fun Kind_String :: "kind \<Rightarrow> string" where
  "Kind_String KindNFv5 = ''netflow5''"
| "Kind_String KindNFv9 = ''netflow9''"
| "Kind_String KindIPFIX = ''ipfix''"
| "Kind_String KindSFlow = ''sflow5''"
| "Kind_String KindUnknown = ''''"

definition Sniff :: "bytes \<Rightarrow> kind option" where
  "Sniff b = (if length b < 2 then Some KindUnknown else do {
     v \<leftarrow> rd16 b 0;
     if v = 5 then Some KindNFv5
     else if v = 9 then Some KindNFv9
     else if v = 10 then Some KindIPFIX
     else if v = 0 then
       (if length b \<ge> 4 then do { w \<leftarrow> rd16 b 2; Some (if w = 5 then KindSFlow else KindUnknown) }
        else Some KindUnknown)
     else Some KindUnknown })"

datatype time_source = TimeExport | TimeSysUptime | TimeAbsolute | TimeUptimeEst

fun TimeSource_String :: "time_source \<Rightarrow> string" where
  "TimeSource_String TimeSysUptime = ''sysuptime''"
| "TimeSource_String TimeAbsolute = ''absolute''"
| "TimeSource_String TimeUptimeEst = ''uptime_est''"
| "TimeSource_String TimeExport = ''export''"

subsection \<open>The normalised flow record\<close>

record flow =
  f_Kind :: kind
  f_ObsDomain :: u32
  f_Proto :: u8
  f_SrcAddr :: addr
  f_DstAddr :: addr
  f_SrcPort :: u16
  f_DstPort :: u16
  f_InIf :: u32
  f_OutIf :: u32
  f_VLAN :: u16
  f_Direction :: u8
  f_TCPFlags :: u8
  f_Bytes :: u64
  f_Packets :: u64
  f_RawBytes :: u64
  f_RawPackets :: u64
  f_SamplingRate :: u32
  f_Start :: time
  f_End :: time
  f_TimeSource :: time_source
  f_RawStart :: u64
  f_RawEnd :: u64
  f_PostNATSrc :: addr
  f_PostNATDst :: addr
  f_PostNATSrcPort :: u16
  f_PostNATDstPort :: u16

text \<open>The zero value of the struct.\<close>

definition zero_flow :: flow where
  "zero_flow = \<lparr>f_Kind = KindUnknown, f_ObsDomain = 0, f_Proto = 0, f_SrcAddr = NoAddr, f_DstAddr = NoAddr,
     f_SrcPort = 0, f_DstPort = 0, f_InIf = 0, f_OutIf = 0, f_VLAN = 0, f_Direction = 0, f_TCPFlags = 0,
     f_Bytes = 0, f_Packets = 0, f_RawBytes = 0, f_RawPackets = 0, f_SamplingRate = 0,
     f_Start = zero_time, f_End = zero_time, f_TimeSource = TimeExport, f_RawStart = 0, f_RawEnd = 0,
     f_PostNATSrc = NoAddr, f_PostNATDst = NoAddr, f_PostNATSrcPort = 0, f_PostNATDstPort = 0\<rparr>"

definition flow_addrs_wf :: "flow \<Rightarrow> bool" where
  "flow_addrs_wf f \<longleftrightarrow> addr_wf (f_SrcAddr f) \<and> addr_wf (f_DstAddr f) \<and>
     addr_wf (f_PostNATSrc f) \<and> addr_wf (f_PostNATDst f)"

subsection \<open>Reading a field\<close>

definition beUint :: "bytes \<Rightarrow> u64 \<times> bool" where
  "beUint b = (if length b = 0 \<or> length b > 8 then (0, False)
     else (foldl (\<lambda>v c. (push_bit 8 v) OR (ucast c)) 0 b, True))"

definition addrOf :: "bytes \<Rightarrow> addr" where
  "addrOf b = (if length b = 4 then Addr4 b
     else if length b = 16 then Unmap (AddrFrom16 b)
     else NoAddr)"

lemma addrOf_wf [simp, intro]: "addr_wf (addrOf b)"
  by (simp add: addrOf_def Unmap_wf AddrFrom16_def)

lemma Unmap_addrOf [simp]: "Unmap (addrOf b) = addrOf b"
  by (simp add: addrOf_def AddrFrom16_def)

lemma Sniff_total: "\<exists>k. Sniff b = Some k"
  by (simp add: Sniff_def)

text \<open>A datagram of a known kind holds at least the two bytes of its version.\<close>

lemma Sniff_known_length: "Sniff b = Some k \<Longrightarrow> k \<noteq> KindUnknown \<Longrightarrow> 2 \<le> length b"
  by (auto simp: Sniff_def split: if_splits)

lemma beUint_snoc_bound:
  "length b \<le> 8 \<Longrightarrow>
    unat (foldl (\<lambda>v c. (push_bit 8 v) OR (ucast (c :: byte))) (0 :: u64) b) < 256 ^ length b \<and>
    unat (foldl (\<lambda>v c. (push_bit 8 v) OR (ucast c)) (0 :: u64) b)
      = foldl (\<lambda>n c. 256 * n + unat c) 0 b"
proof (induction b rule: rev_induct)
  case (snoc c b)
  let ?v = "foldl (\<lambda>v c. (push_bit 8 v) OR (ucast (c :: byte))) (0 :: u64) b"
  have IH: "unat ?v < 256 ^ length b" "unat ?v = foldl (\<lambda>n c. 256 * n + unat c) 0 b"
    using snoc by auto
  have "(256 :: nat) ^ length b \<le> 256 ^ 7" using snoc.prems by (intro power_increasing) auto
  then have v: "unat ?v < 72057594037927936" using IH(1) by simp
  have "push_bit 8 ?v AND (ucast c) = 0"
    by (rule bit_word_eqI) (auto simp: bit_simps dest: bit_imp_le_length)
  then have "push_bit 8 ?v OR ucast c = push_bit 8 ?v + ucast c"
    by (simp add: disjunctive_add_eq_or)
  moreover have "unat (push_bit 8 ?v) = 256 * unat ?v"
    using v by (simp add: push_bit_eq_mult unat_word_ariths)
  moreover have "unat (ucast c :: u64) = unat c"
    using unat_byte_less [of c] by (simp add: unsigned_ucast_eq take_bit_eq_mod)
  ultimately have "unat (push_bit 8 ?v OR ucast c) = 256 * unat ?v + unat c"
    using v unat_byte_less [of c] by (simp add: unat_word_ariths)
  then show ?case using IH unat_byte_less [of c] by simp
qed simp

text \<open>\<open>beUint\<close> is the big-endian value of one to eight bytes.\<close>

lemma beUint_value:
  assumes "1 \<le> length b" and "length b \<le> 8"
  shows "snd (beUint b) \<and> unat (fst (beUint b)) = foldl (\<lambda>n c. 256 * n + unat c) 0 b"
  using assms beUint_snoc_bound [of b] by (auto simp: beUint_def)

end
