(* ===== verification/Frame_Header.thy ===== *)
theory Frame_Header
  imports Flow_Types
begin

text \<open>
  The sampled-frame parser of \<open>decode/header.go\<close>. Every read is bounds-checked, so
  \<open>None\<close> is an index or slice panic; the theorems show that no input reaches it, and
  what an IPv4 frame with at most two VLAN tags yields.
\<close>

subsection \<open>Layer 4\<close>

definition parseL4 :: "bytes \<Rightarrow> flow \<Rightarrow> flow option" where
  "parseL4 b f =
    (if f_Proto f = 6 \<or> f_Proto f = 17 \<or> f_Proto f = 132 \<or> f_Proto f = 136 then do {
       f \<leftarrow> (if length b \<ge> 4 then do {
          sp \<leftarrow> rd16 b 0;
          dp \<leftarrow> rd16 b 2;
          Some (f\<lparr>f_SrcPort := sp, f_DstPort := dp\<rparr>) } else Some f);
       (if f_Proto f = 6 \<and> length b \<ge> 14 then do {
          t \<leftarrow> rd8 b 13;
          Some (f\<lparr>f_TCPFlags := t\<rparr>) } else Some f) }
     else Some f)"

subsection \<open>Layer 3\<close>

definition parseIPv4 :: "bytes \<Rightarrow> flow \<Rightarrow> (bool \<times> flow) option" where
  "parseIPv4 b f =
    (if length b < 20 then Some (False, f) else do {
       b0 \<leftarrow> rd8 b 0;
       if drop_bit 4 b0 \<noteq> 4 then Some (False, f) else do {
         let ihl = unat (b0 AND 0x0f) * 4;
         if ihl < 20 \<or> length b < ihl then Some (False, f) else do {
           pr \<leftarrow> rd8 b 9;
           src \<leftarrow> slice b 12 16;
           dst \<leftarrow> slice b 16 20;
           let f = f\<lparr>f_Proto := pr, f_SrcAddr := addrOf src, f_DstAddr := addrOf dst\<rparr>;
           fr \<leftarrow> rd16 b 6;
           if fr AND 0x1fff \<noteq> 0 then Some (True, f) else do {
             rest \<leftarrow> slice_from b ihl;
             f \<leftarrow> parseL4 rest f;
             Some (True, f) } } } })"

text \<open>
  The bounded extension-header loop: \<open>Inl nh\<close> is a return from inside the loop with
  \<open>Proto = nh\<close>, \<open>Inr (nh, p)\<close> leaves the loop with the upper-layer header at \<open>p\<close>.
\<close>

fun ip6_ext :: "nat \<Rightarrow> u8 \<Rightarrow> bytes \<Rightarrow> (u8 + u8 \<times> bytes) option" where
  "ip6_ext 0 nh p = Some (Inr (nh, p))"
| "ip6_ext (Suc n) nh p =
    (if nh = 0 \<or> nh = 43 \<or> nh = 60 then
       (if length p < 8 then Some (Inl nh) else do {
          p1 \<leftarrow> rd8 p 1;
          let l = (unat p1 + 1) * 8;
          if length p < l then Some (Inl nh) else do {
            nh' \<leftarrow> rd8 p 0;
            p' \<leftarrow> slice_from p l;
            ip6_ext n nh' p' } })
     else if nh = 44 then
       (if length p < 8 then Some (Inl nh) else do {
          w \<leftarrow> rd16 p 2;
          let frag = w AND NOT 0x7;
          nh' \<leftarrow> rd8 p 0;
          p' \<leftarrow> slice_from p 8;
          if frag \<noteq> 0 then Some (Inl nh') else ip6_ext n nh' p' })
     else Some (Inr (nh, p)))"

definition parseIPv6 :: "bytes \<Rightarrow> flow \<Rightarrow> (bool \<times> flow) option" where
  "parseIPv6 b f =
    (if length b < 40 then Some (False, f) else do {
       b0 \<leftarrow> rd8 b 0;
       if drop_bit 4 b0 \<noteq> 6 then Some (False, f) else do {
         nh \<leftarrow> rd8 b 6;
         src \<leftarrow> slice b 8 24;
         dst \<leftarrow> slice b 24 40;
         let f = f\<lparr>f_SrcAddr := addrOf src, f_DstAddr := addrOf dst\<rparr>;
         p \<leftarrow> slice_from b 40;
         r \<leftarrow> ip6_ext 4 nh p;
         case r of
           Inl nh \<Rightarrow> Some (True, f\<lparr>f_Proto := nh\<rparr>)
         | Inr (nh, p) \<Rightarrow> do { f \<leftarrow> parseL4 p (f\<lparr>f_Proto := nh\<rparr>); Some (True, f) } } })"

subsection \<open>Ethernet\<close>

text \<open>The 802.1Q / QinQ loop: \<open>Inl f\<close> is the early \<open>return false\<close>.\<close>

fun eth_tags :: "nat \<Rightarrow> bytes \<Rightarrow> u16 \<Rightarrow> nat \<Rightarrow> flow \<Rightarrow> (flow + u16 \<times> nat \<times> flow) option" where
  "eth_tags 0 b et off f = Some (Inr (et, off, f))"
| "eth_tags (Suc n) b et off f =
    (if et = 0x8100 \<or> et = 0x88a8 then
       (if length b < off + 4 then Some (Inl f) else do {
          tci \<leftarrow> rd16 b off;
          let f = (if f_VLAN f = 0 then f\<lparr>f_VLAN := tci AND 0x0fff\<rparr> else f);
          et' \<leftarrow> rd16 b (off + 2);
          eth_tags n b et' (off + 4) f })
     else Some (Inr (et, off, f)))"

definition parseEthernet :: "bytes \<Rightarrow> flow \<Rightarrow> (bool \<times> flow) option" where
  "parseEthernet b f =
    (if length b < 14 then Some (False, f) else do {
       et \<leftarrow> rd16 b 12;
       r \<leftarrow> eth_tags 2 b et 14 f;
       case r of
         Inl f \<Rightarrow> Some (False, f)
       | Inr (et, off, f) \<Rightarrow>
           (if et = 0x0800 then do { p \<leftarrow> slice_from b off; parseIPv4 p f }
            else if et = 0x86dd then do { p \<leftarrow> slice_from b off; parseIPv6 p f }
            else Some (False, f)) })"

subsection \<open>No read past the end\<close>

text \<open>
  Each parser step returns (no index or slice panic), keeps every address field a
  well-formed address, and leaves the times, the kind and the sampling rate alone.
\<close>

definition flow_meta :: "flow \<Rightarrow> kind \<times> time \<times> time \<times> time_source \<times> u32 \<times> u64" where
  "flow_meta f = (f_Kind f, f_Start f, f_End f, f_TimeSource f, f_SamplingRate f, f_RawPackets f)"

abbreviation keeps_addrs :: "flow \<Rightarrow> flow \<Rightarrow> bool" where
  "keeps_addrs f f' \<equiv> flow_meta f' = flow_meta f \<and> (flow_addrs_wf f \<longrightarrow> flow_addrs_wf f')"

lemma parseL4_safe [safe_intros]:
  "(\<And>f'. keeps_addrs f f' \<Longrightarrow> Q f') \<Longrightarrow> safe (parseL4 b f) Q"
  unfolding parseL4_def by (intro safe_intros) (auto simp: flow_addrs_wf_def flow_meta_def)

lemma parseIPv4_safe [safe_intros]:
  "(\<And>ok f'. keeps_addrs f f' \<Longrightarrow> Q (ok, f')) \<Longrightarrow> safe (parseIPv4 b f) Q"
  unfolding parseIPv4_def by (intro safe_intros) (auto simp: flow_addrs_wf_def flow_meta_def)

lemma ip6_ext_safe [safe_intros]:
  "(\<And>r. Q r) \<Longrightarrow> safe (ip6_ext n nh p) Q"
proof (induction n arbitrary: nh p)
  case (Suc n)
  show ?case
    unfolding ip6_ext.simps by (intro safe_intros Suc.IH Suc.prems) auto
qed (simp add: safe_def)

lemma parseIPv6_safe [safe_intros]:
  "(\<And>ok f'. keeps_addrs f f' \<Longrightarrow> Q (ok, f')) \<Longrightarrow> safe (parseIPv6 b f) Q"
  unfolding parseIPv6_def by (intro safe_intros) (auto simp: flow_addrs_wf_def flow_meta_def)

lemma eth_tags_safe [safe_intros]:
  "off \<le> length b \<Longrightarrow> (\<And>f'. keeps_addrs f f' \<Longrightarrow> Q (Inl f')) \<Longrightarrow>
    (\<And>et' off' f'. off' \<le> length b \<Longrightarrow> keeps_addrs f f' \<Longrightarrow> Q (Inr (et', off', f'))) \<Longrightarrow>
    safe (eth_tags n b et off f) Q"
proof (induction n b et off f rule: eth_tags.induct)
  case (2 n b et off f)
  show ?case
    unfolding eth_tags.simps
    by (intro safe_intros "2.IH") (use "2.prems" in \<open>auto simp: flow_addrs_wf_def flow_meta_def split: if_splits\<close>)
qed (simp add: safe_def)

lemma parseEthernet_safe [safe_intros]:
  "(\<And>ok f'. keeps_addrs f f' \<Longrightarrow> Q (ok, f')) \<Longrightarrow> safe (parseEthernet b f) Q"
  unfolding parseEthernet_def by (intro safe_intros) auto

subsection \<open>What an IPv4 frame yields\<close>

text \<open>
  The frame an exporter samples: destination and source MAC, up to two VLAN tags
  (\<open>(TPID, TCI)\<close>), the EtherType, and the IPv4 packet.
\<close>

definition vlan_tag :: "u16 \<times> u16 \<Rightarrow> bytes" where
  "vlan_tag t = put_be16 (fst t) @ put_be16 (snd t)"

definition eth_frame :: "bytes \<Rightarrow> (u16 \<times> u16) list \<Rightarrow> u16 \<Rightarrow> bytes \<Rightarrow> bytes" where
  "eth_frame macs tags et payload = macs @ concat (map vlan_tag tags) @ put_be16 et @ payload"

definition is_tpid :: "u16 \<Rightarrow> bool" where
  "is_tpid et \<longleftrightarrow> et = 0x8100 \<or> et = 0x88a8"

text \<open>The first tag whose VLAN id is not zero names the VLAN, unless one is already set.\<close>

fun vlan_of_tags :: "u16 \<Rightarrow> (u16 \<times> u16) list \<Rightarrow> u16" where
  "vlan_of_tags v [] = v"
| "vlan_of_tags v (t # ts) = vlan_of_tags (if v = 0 then snd t AND 0x0fff else v) ts"

lemma length_vlan_tag [simp]: "length (vlan_tag t) = 4"
  by (simp add: vlan_tag_def)

lemma rd16_put_be16: "rd16 (pre @ put_be16 v @ post) (length pre) = Some v"
  using u16_at_append [of pre "put_be16 v @ post" 0] by (simp add: rd16_def)

lemma eth_tags_step:
  assumes "rd16 b off = Some tci" and "rd16 b (off + 2) = Some et'" and "off + 4 \<le> length b"
    and "is_tpid et"
  shows "eth_tags (Suc n) b et off f =
    eth_tags n b et' (off + 4) (if f_VLAN f = 0 then f\<lparr>f_VLAN := tci AND 0x0fff\<rparr> else f)"
  using assms by (auto simp: is_tpid_def Let_def simp del: rd16_Some)

lemma eth_tags_walk:
  assumes "length tags \<le> n" and "\<forall>t\<in>set tags. is_tpid (fst t)" and "\<not> is_tpid et"
  shows "eth_tags n (pre @ concat (map vlan_tag tags) @ put_be16 et @ payload)
      (fst (hd (tags @ [(et, 0)]))) (length pre + 2) f
    = Some (Inr (et, length pre + 4 * length tags + 2, f\<lparr>f_VLAN := vlan_of_tags (f_VLAN f) tags\<rparr>))"
  using assms
proof (induction tags arbitrary: n pre f)
  case Nil
  then show ?case by (cases n) (auto simp: is_tpid_def)
next
  case (Cons t tags)
  then obtain n' where n: "n = Suc n'" by (cases n) auto
  define f1 where "f1 = (if f_VLAN f = 0 then f\<lparr>f_VLAN := snd t AND 0x0fff\<rparr> else f)"
  define rest where "rest = concat (map vlan_tag tags) @ put_be16 et @ payload"
  define et1 where "et1 = fst (hd (tags @ [(et, 0)]))"
  obtain tl where rest: "rest = put_be16 et1 @ tl"
    by (cases tags) (auto simp: rest_def et1_def vlan_tag_def)
  let ?b = "pre @ vlan_tag t @ rest"
  have tci: "rd16 ?b (length pre + 2) = Some (snd t)"
    using rd16_put_be16 [of "pre @ put_be16 (fst t)" "snd t" rest]
    by (simp add: vlan_tag_def del: rd16_Some)
  have et1: "rd16 ?b (length pre + 2 + 2) = Some et1"
    using rd16_put_be16 [of "pre @ vlan_tag t" et1 tl]
    by (simp add: rest vlan_tag_def add.commute del: rd16_Some)
  have len: "length pre + 2 + 4 \<le> length ?b" by (simp add: rest vlan_tag_def)
  have "is_tpid (fst t)" using Cons.prems by simp
  from eth_tags_step [OF tci et1 len this]
  have "eth_tags n ?b (fst t) (length pre + 2) f = eth_tags n' ?b et1 (length pre + 2 + 4) f1"
    by (simp add: n f1_def del: eth_tags.simps)
  also have "\<dots> = Some (Inr (et, length pre + 4 * length (t # tags) + 2,
      f1\<lparr>f_VLAN := vlan_of_tags (f_VLAN f1) tags\<rparr>))"
    using Cons.IH [of n' "pre @ vlan_tag t" f1] Cons.prems n
    by (simp add: rest_def et1_def add.commute del: eth_tags.simps)
  finally show ?case by (simp add: f1_def rest_def del: eth_tags.simps)
qed

lemma parseEthernet_frame:
  assumes "length macs = 12" and "length tags \<le> 2" and "\<forall>t\<in>set tags. is_tpid (fst t)"
    and "\<not> is_tpid et" and "et = 0x0800"
  shows "parseEthernet (eth_frame macs tags et p) f =
    parseIPv4 p (f\<lparr>f_VLAN := vlan_of_tags (f_VLAN f) tags\<rparr>)"
proof -
  let ?b = "eth_frame macs tags et p"
  define et1 where "et1 = fst (hd (tags @ [(et, 0)]))"
  obtain tl where tl: "?b = macs @ put_be16 et1 @ tl"
    by (cases tags) (auto simp: eth_frame_def et1_def vlan_tag_def)
  have lc: "length (concat (map vlan_tag ts)) = 4 * length ts" for ts
    by (induction ts) simp_all
  have len: "length ?b = 14 + 4 * length tags + length p"
    using assms(1) by (simp add: eth_frame_def lc)
  have r: "rd16 ?b 12 = Some et1"
    using rd16_put_be16 [of macs et1 tl] assms(1) by (simp add: tl del: rd16_Some)
  have w: "eth_tags 2 ?b et1 14 f =
      Some (Inr (et, 14 + 4 * length tags, f\<lparr>f_VLAN := vlan_of_tags (f_VLAN f) tags\<rparr>))"
    using eth_tags_walk [OF assms(2,3,4), of macs p f] assms(1)
    by (simp add: eth_frame_def et1_def add.commute)
  have d: "drop (14 + 4 * length tags) ?b = p"
    using assms(1) by (simp add: eth_frame_def lc)
  show ?thesis
    unfolding parseEthernet_def r using w len d assms(5) by (simp add: r del: rd16_Some)
qed

text \<open>
  For an Ethernet frame with up to two VLAN tags around an unfragmented IPv4 packet
  with a TCP, UDP, SCTP or UDP-Lite header, \<open>parseEthernet\<close> returns exactly the VLAN id,
  protocol, addresses, ports and TCP flags of the packet.
\<close>

theorem parseEthernet_ipv4:
  assumes "length macs = 12" and "length tags \<le> 2" and "\<forall>t\<in>set tags. is_tpid (fst t)"
    and ver: "drop_bit 4 (p ! 0) = 4" and ihl: "5 \<le> unat (p ! 0 AND 0x0f)"
    and len: "unat (p ! 0 AND 0x0f) * 4 + 14 \<le> length p"
    and first: "u16_at p 6 AND 0x1fff = 0"
    and l4: "p ! 9 \<in> {6, 17, 132, 136}"
  shows "\<exists>f'. parseEthernet (eth_frame macs tags 0x0800 p) f = Some (True, f') \<and>
    f_VLAN f' = vlan_of_tags (f_VLAN f) tags \<and>
    f_Proto f' = p ! 9 \<and>
    f_SrcAddr f' = Addr4 (take 4 (drop 12 p)) \<and> f_DstAddr f' = Addr4 (take 4 (drop 16 p)) \<and>
    (let q = drop (unat (p ! 0 AND 0x0f) * 4) p in
      f_SrcPort f' = u16_at q 0 \<and> f_DstPort f' = u16_at q 2 \<and>
      f_TCPFlags f' = (if p ! 9 = 6 then q ! 13 else f_TCPFlags f))"
proof -
  have "\<not> is_tpid 0x0800" by (simp add: is_tpid_def)
  note eq = parseEthernet_frame [OF assms(1,2,3) this refl, of p f]
  have "34 \<le> length p" and "p \<noteq> []" using ihl len by auto
  then show ?thesis
    unfolding eq using ver ihl len first l4
    by (auto simp: parseIPv4_def parseL4_def Let_def addrOf_def not_less)
qed

text \<open>An IPv4/UDP packet from 10.0.0.1:53 to 10.0.0.2:1024.\<close>

definition ref_ipv4 :: bytes where
  "ref_ipv4 = [0x45, 0, 0, 34, 0, 0, 0, 0, 64, 17, 0, 0, 10, 0, 0, 1, 10, 0, 0, 2,
     0, 53, 4, 0, 0, 14, 0, 0, 0, 0, 0, 0, 0, 0]"

theorem parseEthernet_ipv4_witness:
  "\<exists>f'. parseEthernet (eth_frame (replicate 12 0) [(0x8100, 42)] 0x0800 ref_ipv4) zero_flow = Some (True, f') \<and>
    f_VLAN f' = 42 \<and> f_SrcPort f' = 53"
proof -
  have "\<forall>t\<in>set [(0x8100 :: u16, 42 :: u16)]. is_tpid (fst t)" by (simp add: is_tpid_def)
  from parseEthernet_ipv4 [of "replicate 12 0", OF _ _ this, of ref_ipv4 zero_flow] show ?thesis
    by (simp add: ref_ipv4_def u16_at_def be16_def zero_flow_def) blast
qed

end
