(* ===== verification/Flow_Record.thy ===== *)
theory Flow_Record
  imports Frame_Header
begin

text \<open>
  From decoded protocol records to \<open>Flow\<close>s (\<open>decode/flow.go\<close>): the v9/IPFIX field
  interpreter \<open>parseDataRecord\<close>, the uptime and clock arithmetic, sampling, and the
  NetFlow v5 and sFlow converters. The records themselves are what the goflow2
  decoders return; their Go types are the records and datatypes below, with the
  fields the code reads.
\<close>

subsection \<open>Decoder output types\<close>

text \<open>\<open>netflow.DataField\<close>; \<open>Value\<close> is \<open>None\<close> when the interface value is not a \<open>[]byte\<close>.\<close>

record data_field =
  df_PenProvided :: bool
  df_Type :: u16
  df_Value :: "bytes option"

record v5_record =
  v5_SrcAddr :: u32
  v5_DstAddr :: u32
  v5_Input :: u16
  v5_Output :: u16
  v5_DPkts :: u32
  v5_DOctets :: u32
  v5_First :: u32
  v5_Last :: u32
  v5_SrcPort :: u16
  v5_DstPort :: u16
  v5_TCPFlags :: u8
  v5_Proto :: u8

record v5_packet =
  v5_SysUptime :: u32
  v5_UnixSecs :: u32
  v5_UnixNSecs :: u32
  v5_EngineType :: u8
  v5_EngineId :: u8
  v5_SamplingInterval :: u16
  v5_Records :: "v5_record list"

datatype sflow_data =
    SampledHeader (sh_Protocol: u32) (sh_FrameLength: u32) (sh_OriginalLength: u32) (sh_HeaderData: bytes)
  | SampledIPv4 (s4_Length: u32) (s4_Protocol: u32) (s4_SrcIP: bytes) (s4_DstIP: bytes) (s4_SrcPort: u32) (s4_DstPort: u32)
  | SampledIPv6 (s6_Length: u32) (s6_Protocol: u32) (s6_SrcIP: bytes) (s6_DstIP: bytes) (s6_SrcPort: u32) (s6_DstPort: u32)
  | ExtendedSwitch (sw_SrcVlan: u32)
  | OtherFlowData

datatype sflow_counter = IfCounters u32 u64 u64 | OtherCounter

datatype sflow_sample =
    FlowSample (fs_SourceIdType: u32) (fs_SourceIdValue: u32) (fs_SamplingRate: u32) (fs_Input: u32) (fs_Output: u32)
      (fs_Records: "sflow_data list")
  | ExpandedFlowSample (es_SourceIdType: u32) (es_SourceIdValue: u32) (es_SamplingRate: u32)
      (es_InputIfFormat: u32) (es_InputIfValue: u32) (es_OutputIfFormat: u32) (es_OutputIfValue: u32)
      (es_Records: "sflow_data list")
  | CounterSample (cs_Records: "sflow_counter list")
  | OtherSample

subsection \<open>Record context and raw records\<close>

record recordCtx =
  c_kind :: kind
  c_obs :: u32
  c_exportTime :: time
  c_received :: time
  c_sysUptimeMs :: u32
  c_sampling :: u32

record rawRecord =
  r_f :: flow
  r_upStart :: u64
  r_upEnd :: u64
  r_hasUp :: bool
  r_sysInitMs :: u64
  r_absStart :: time
  r_absEnd :: time
  r_sampInt :: u64
  r_sampSpace :: u64

text \<open>The locals of \<open>parseDataRecord\<close> next to the record being filled.\<close>

record parse_state =
  p_r :: rawRecord
  p_hasStart :: bool
  p_hasEnd :: bool
  p_outBytes :: u64
  p_outPkts :: u64

definition mask62 :: u64 where "mask62 = 0x3fffffffffffffff"

definition upd_f :: "(flow \<Rightarrow> flow) \<Rightarrow> parse_state \<Rightarrow> parse_state" where
  "upd_f g s = s\<lparr>p_r := (p_r s)\<lparr>r_f := g (r_f (p_r s))\<rparr>\<rparr>"

definition upd_r :: "(rawRecord \<Rightarrow> rawRecord) \<Rightarrow> parse_state \<Rightarrow> parse_state" where
  "upd_r g s = s\<lparr>p_r := g (p_r s)\<rparr>"

text \<open>One iteration of the loop over the record's fields.\<close>

definition parse_field :: "data_field \<Rightarrow> parse_state \<Rightarrow> parse_state" where
  "parse_field v s = (if df_PenProvided v then s else
    (case df_Value v of None \<Rightarrow> s | Some b \<Rightarrow>
      (let n = fst (beUint b); isNum = snd (beUint b); t = df_Type v in
       if t = 1 then upd_f (\<lambda>f. f\<lparr>f_RawBytes := n\<rparr>) s
       else if t = 2 then upd_f (\<lambda>f. f\<lparr>f_RawPackets := n\<rparr>) s
       else if t = 23 then s\<lparr>p_outBytes := n\<rparr>
       else if t = 24 then s\<lparr>p_outPkts := n\<rparr>
       else if t = 4 then upd_f (\<lambda>f. f\<lparr>f_Proto := ucast n\<rparr>) s
       else if t = 6 then upd_f (\<lambda>f. f\<lparr>f_TCPFlags := ucast n\<rparr>) s
       else if t = 7 then upd_f (\<lambda>f. f\<lparr>f_SrcPort := ucast n\<rparr>) s
       else if t = 11 then upd_f (\<lambda>f. f\<lparr>f_DstPort := ucast n\<rparr>) s
       else if t = 8 \<or> t = 27 then upd_f (\<lambda>f. f\<lparr>f_SrcAddr := addrOf b\<rparr>) s
       else if t = 12 \<or> t = 28 then upd_f (\<lambda>f. f\<lparr>f_DstAddr := addrOf b\<rparr>) s
       else if t = 10 then upd_f (\<lambda>f. f\<lparr>f_InIf := ucast n\<rparr>) s
       else if t = 14 then upd_f (\<lambda>f. f\<lparr>f_OutIf := ucast n\<rparr>) s
       else if t = 58 then upd_f (\<lambda>f. f\<lparr>f_VLAN := ucast n\<rparr>) s
       else if t = 61 then upd_f (\<lambda>f. f\<lparr>f_Direction := ucast n\<rparr>) s
       else if t = 22 then (upd_r (\<lambda>r. r\<lparr>r_upStart := n\<rparr>) s)\<lparr>p_hasStart := isNum\<rparr>
       else if t = 21 then (upd_r (\<lambda>r. r\<lparr>r_upEnd := n\<rparr>) s)\<lparr>p_hasEnd := isNum\<rparr>
       else if t = 160 then upd_r (\<lambda>r. r\<lparr>r_sysInitMs := n\<rparr>) s
       else if t = 150 then upd_r (\<lambda>r. r\<lparr>r_absStart := time_Unix (uint (n AND 0x7fffffff)) 0\<rparr>) s
       else if t = 151 then upd_r (\<lambda>r. r\<lparr>r_absEnd := time_Unix (uint (n AND 0x7fffffff)) 0\<rparr>) s
       else if t = 152 then upd_r (\<lambda>r. r\<lparr>r_absStart := time_UnixMilli (uint (n AND mask62))\<rparr>) s
       else if t = 153 then upd_r (\<lambda>r. r\<lparr>r_absEnd := time_UnixMilli (uint (n AND mask62))\<rparr>) s
       else if t = 34 then upd_r (\<lambda>r. r\<lparr>r_sampInt := n, r_sampSpace := 0\<rparr>) s
       else if t = 305 then upd_r (\<lambda>r. r\<lparr>r_sampInt := n\<rparr>) s
       else if t = 306 then upd_r (\<lambda>r. r\<lparr>r_sampSpace := n\<rparr>) s
       else if t = 225 \<or> t = 281 then upd_f (\<lambda>f. f\<lparr>f_PostNATSrc := addrOf b\<rparr>) s
       else if t = 226 \<or> t = 282 then upd_f (\<lambda>f. f\<lparr>f_PostNATDst := addrOf b\<rparr>) s
       else if t = 227 then upd_f (\<lambda>f. f\<lparr>f_PostNATSrcPort := ucast n\<rparr>) s
       else if t = 228 then upd_f (\<lambda>f. f\<lparr>f_PostNATDstPort := ucast n\<rparr>) s
       else s)))"

definition zero_rawRecord :: rawRecord where
  "zero_rawRecord = \<lparr>r_f = zero_flow, r_upStart = 0, r_upEnd = 0, r_hasUp = False, r_sysInitMs = 0,
     r_absStart = zero_time, r_absEnd = zero_time, r_sampInt = 0, r_sampSpace = 0\<rparr>"

definition parseDataRecord :: "data_field list \<Rightarrow> recordCtx \<Rightarrow> rawRecord \<times> bool" where
  "parseDataRecord vals c =
    (let r0 = zero_rawRecord\<lparr>r_f := zero_flow\<lparr>f_Kind := c_kind c, f_ObsDomain := c_obs c, f_Direction := 255\<rparr>\<rparr>;
         s = fold parse_field vals \<lparr>p_r = r0, p_hasStart = False, p_hasEnd = False, p_outBytes = 0, p_outPkts = 0\<rparr>;
         r = (p_r s)\<lparr>r_hasUp := p_hasStart s \<and> p_hasEnd s\<rparr>;
         f = r_f r;
         f = (if f_RawBytes f = 0 \<and> p_outBytes s > 0
              then f\<lparr>f_RawBytes := p_outBytes s, f_RawPackets := p_outPkts s\<rparr> else f);
         r = r\<lparr>r_f := f\<rparr>
     in if \<not> IsValid (f_SrcAddr f) \<and> \<not> IsValid (f_DstAddr f) \<and> f_RawBytes f = 0
        then (r, False) else (r, True))"

subsection \<open>Uptime and clock arithmetic\<close>

definition wrap32 :: int where "wrap32 = 4294967296"
definition half32 :: int where "half32 = 2147483648"

definition floorDiv :: "int \<Rightarrow> int \<Rightarrow> int" where
  "floorDiv a b = (let q = go_quot a b in if go_rem a b \<noteq> 0 \<and> a < 0 then wrap64 (q - 1) else q)"

definition unwrapUptime :: "int \<Rightarrow> u64 \<Rightarrow> int \<Rightarrow> int" where
  "unwrapUptime base up ref =
    (let t = wrap64 (base + uint (up AND mask62))
     in if up > 0xffffffff then t
        else wrap64 (t + wrap64 (floorDiv (wrap64 (wrap64 (ref - t) + half32)) wrap32 * wrap32)))"

definition v9Offset :: "u32 \<Rightarrow> u64 \<Rightarrow> duration" where
  "v9Offset hdrUptime up = sint (hdrUptime - (ucast up :: u32)) * nanos_per_ms"

definition sanitizeTimes :: "flow \<Rightarrow> time \<Rightarrow> flow" where
  "sanitizeTimes f export =
    (let lo = export - hours 2; hi = export + minutes 1;
         ok = (\<lambda>t. \<not> is_zero t \<and> \<not> t < lo \<and> \<not> t > hi)
     in if \<not> ok (f_Start f) \<or> \<not> ok (f_End f)
        then f\<lparr>f_Start := export, f_End := export, f_TimeSource := TimeExport\<rparr>
        else if f_End f < f_Start f then f\<lparr>f_Start := f_End f, f_End := f_Start f\<rparr>
        else f)"

definition skewThreshold :: duration where "skewThreshold = seconds 5"

definition applySkew :: "flow \<Rightarrow> duration \<Rightarrow> flow" where
  "applySkew f skew =
    (if skew > skewThreshold \<or> skew < - skewThreshold
     then f\<lparr>f_Start := f_Start f + skew, f_End := f_End f + skew\<rparr> else f)"

definition scale :: "rawRecord \<Rightarrow> u32 \<Rightarrow> rawRecord" where
  "scale r ctxRate =
    (let rate = (if r_sampInt r > 0 \<and> r_sampSpace r > 0 then (r_sampInt r + r_sampSpace r) div r_sampInt r
                 else if r_sampInt r > 0 then r_sampInt r
                 else if ctxRate > 0 then ucast ctxRate
                 else 0);
         rate = (if rate = 0 \<or> rate > 0xffffffff then 1 else rate);
         f = r_f r
     in r\<lparr>r_f := f\<lparr>f_SamplingRate := ucast rate,
                  f_Bytes := f_RawBytes f * rate, f_Packets := f_RawPackets f * rate\<rparr>\<rparr>)"

subsection \<open>NetFlow v5\<close>

definition fromV5_record :: "v5_packet \<Rightarrow> time \<Rightarrow> duration \<Rightarrow> u32 \<Rightarrow> v5_record \<Rightarrow> flow" where
  "fromV5_record p export skew rate r =
    (let f = zero_flow\<lparr>
           f_Kind := KindNFv5, f_ObsDomain := push_bit 8 (ucast (v5_EngineType p)) OR ucast (v5_EngineId p),
           f_Proto := v5_Proto r, f_SrcAddr := Addr4 (put_be32 (v5_SrcAddr r)), f_DstAddr := Addr4 (put_be32 (v5_DstAddr r)),
           f_SrcPort := v5_SrcPort r, f_DstPort := v5_DstPort r,
           f_InIf := ucast (v5_Input r), f_OutIf := ucast (v5_Output r),
           f_TCPFlags := v5_TCPFlags r, f_Direction := 255,
           f_RawBytes := ucast (v5_DOctets r), f_RawPackets := ucast (v5_DPkts r), f_SamplingRate := rate,
           f_Bytes := ucast (v5_DOctets r) * ucast rate, f_Packets := ucast (v5_DPkts r) * ucast rate,
           f_Start := export - v9Offset (v5_SysUptime p) (ucast (v5_First r)),
           f_End := export - v9Offset (v5_SysUptime p) (ucast (v5_Last r)),
           f_TimeSource := TimeSysUptime,
           f_RawStart := ucast (v5_First r), f_RawEnd := ucast (v5_Last r)\<rparr>
     in applySkew (sanitizeTimes f export) skew)"

definition fromV5 :: "v5_packet \<Rightarrow> u32 \<Rightarrow> time \<Rightarrow> flow list" where
  "fromV5 p samplingOverride received =
    (let export = time_Unix (uint (v5_UnixSecs p)) (uint (v5_UnixNSecs p mod 1000000000));
         skew = t_sub received export;
         rate = ucast (v5_SamplingInterval p AND 0x3fff);
         rate = (if rate = 0 then samplingOverride else rate);
         rate = (if rate = 0 then 1 else rate)
     in map (fromV5_record p export skew rate) (v5_Records p))"

subsection \<open>sFlow\<close>

record IfCounter =
  ic_IfIndex :: u32
  ic_InOctets :: u64
  ic_OutOctets :: u64

definition sflowIf :: "u32 \<Rightarrow> u32" where
  "sflowIf v = (if drop_bit 30 v \<noteq> 0 \<or> v = 0x3fffffff then 0 else v)"

definition sflow_record :: "sflow_data \<Rightarrow> flow \<Rightarrow> bool \<Rightarrow> (flow \<times> bool) option" where
  "sflow_record d f got = (case d of
      SampledHeader proto frameLen origLen hd0 \<Rightarrow> do {
        let f = f\<lparr>f_RawBytes := ucast frameLen\<rparr>;
        hd1 \<leftarrow> (if origLen > 0 \<and> unat origLen \<le> length hd0 then slice hd0 0 (unat origLen) else Some hd0);
        (if proto = 1 then do {
           (ok, f) \<leftarrow> parseEthernet hd1 f;
           Some (f, ok \<or> got) }
         else Some (f, got)) }
    | SampledIPv4 len proto sip dip sp dp \<Rightarrow>
        Some (f\<lparr>f_RawBytes := ucast len, f_Proto := ucast proto, f_SrcPort := ucast sp, f_DstPort := ucast dp,
               f_SrcAddr := addrOf sip, f_DstAddr := addrOf dip\<rparr>, True)
    | SampledIPv6 len proto sip dip sp dp \<Rightarrow>
        Some (f\<lparr>f_RawBytes := ucast len, f_Proto := ucast proto, f_SrcPort := ucast sp, f_DstPort := ucast dp,
               f_SrcAddr := addrOf sip, f_DstAddr := addrOf dip\<rparr>, True)
    | ExtendedSwitch vlan \<Rightarrow> Some (if f_VLAN f = 0 then f\<lparr>f_VLAN := ucast vlan\<rparr> else f, got)
    | OtherFlowData \<Rightarrow> Some (f, got))"

fun sflow_records :: "sflow_data list \<Rightarrow> flow \<Rightarrow> bool \<Rightarrow> (flow \<times> bool) option" where
  "sflow_records [] f got = Some (f, got)"
| "sflow_records (d # ds) f got = do { (f, got) \<leftarrow> sflow_record d f got; sflow_records ds f got }"

text \<open>The flow of one flow sample (\<open>None\<close> inside when the sample is skipped).\<close>

definition sflow_flow :: "u32 \<Rightarrow> u32 \<Rightarrow> u32 \<Rightarrow> u32 \<Rightarrow> sflow_data list \<Rightarrow> time \<Rightarrow> flow option option" where
  "sflow_flow rate0 src inif outif recs received = do {
     let rate = (if rate0 = 0 then 1 else rate0);
     let f = zero_flow\<lparr>f_Kind := KindSFlow, f_ObsDomain := src, f_InIf := inif, f_OutIf := outif,
               f_Direction := 255, f_SamplingRate := rate, f_Start := received, f_End := received,
               f_TimeSource := TimeExport, f_RawPackets := 1\<rparr>;
     (f, got) \<leftarrow> sflow_records recs f False;
     if \<not> got \<and> f_RawBytes f = 0 then Some None
     else Some (Some (f\<lparr>f_Bytes := f_RawBytes f * ucast rate, f_Packets := ucast rate\<rparr>)) }"

fun counters_of :: "sflow_counter list \<Rightarrow> IfCounter list" where
  "counters_of [] = []"
| "counters_of (IfCounters i a b # rs) = \<lparr>ic_IfIndex = i, ic_InOctets = a, ic_OutOctets = b\<rparr> # counters_of rs"
| "counters_of (OtherCounter # rs) = counters_of rs"

fun fromSFlow :: "sflow_sample list \<Rightarrow> time \<Rightarrow> (flow list \<times> IfCounter list) option" where
  "fromSFlow [] received = Some ([], [])"
| "fromSFlow (s # ss) received = do {
     (fs, cs) \<leftarrow> (case s of
         FlowSample ty val rate inp outp recs \<Rightarrow> do {
           r \<leftarrow> sflow_flow rate (push_bit 24 ty OR val) (sflowIf inp) (sflowIf outp) recs received;
           Some (case r of None \<Rightarrow> [] | Some f \<Rightarrow> [f], []) }
       | ExpandedFlowSample ty val rate inF inV outF outV recs \<Rightarrow> do {
           r \<leftarrow> sflow_flow rate (push_bit 24 ty OR val) (if inF = 0 then inV else 0) (if outF = 0 then outV else 0)
                 recs received;
           Some (case r of None \<Rightarrow> [] | Some f \<Rightarrow> [f], []) }
       | CounterSample recs \<Rightarrow> Some ([], counters_of recs)
       | OtherSample \<Rightarrow> Some ([], []));
     (fs', cs') \<leftarrow> fromSFlow ss received;
     Some (fs @ fs', cs @ cs') }"

subsection \<open>Facts about the clock arithmetic\<close>

lemma floorDiv_div:
  assumes "0 < b" and "int64 a"
  shows "floorDiv a b = a div b"
proof (cases "0 \<le> a")
  case True
  with assms show ?thesis by (simp add: floorDiv_def go_quot_nonneg go_rem_nonneg Let_def)
next
  case False
  have q: "go_quot a b = - ((- a) div b)" and r: "go_rem a b = - ((- a) mod b)"
    using False assms by (auto simp: go_quot_def go_rem_def)
  have z: "a div b = (if (- a) mod b = 0 then - ((- a) div b) else - ((- a) div b) - 1)"
    using zdiv_zminus1_eq_if [of b "- a"] assms by simp
  have "0 \<le> (- a) div b" using False assms by (simp add: pos_imp_zdiv_nonneg_iff)
  moreover from this have "(- a) div b \<le> b * ((- a) div b)"
    using assms(1) mult_right_mono [of 1 b "(- a) div b"] by linarith
  moreover have "- a = b * ((- a) div b) + (- a) mod b" "0 \<le> (- a) mod b"
    using assms(1) by simp_all
  ultimately have "int64 (- ((- a) div b) - 1) \<or> (- a) mod b = 0"
    using assms(2) unfolding int64_def by linarith
  with False q r z show ?thesis by (auto simp: floorDiv_def Let_def wrap64_id)
qed


text \<open>
  \<open>unwrapUptime\<close> moves \<open>base + up\<close> by a multiple of \<open>2^32\<close> milliseconds to the value
  nearest to \<open>ref\<close>, for all bases and references the decoder passes (their sizes stay
  below \<open>2^62\<close>).
\<close>

lemma and_mask62_small: "up \<le> 0xffffffff \<Longrightarrow> uint (up AND mask62) = uint (up :: u64)"
proof -
  assume "up \<le> 0xffffffff"
  then have "uint up < 2 ^ 62" by (simp add: word_le_def)
  then have "up AND mask 62 = up" by (simp add: mask_eq_iff)
  moreover have "mask62 = mask 62" by (simp add: mask62_def mask_eq_exp_minus_1)
  ultimately show ?thesis by simp
qed

lemma unwrapUptime_eq:
  assumes "\<bar>base\<bar> < 2 ^ 62" and "\<bar>ref\<bar> < 2 ^ 61" and "up \<le> 0xffffffff"
  shows "unwrapUptime base up ref =
    (let t = base + uint up in t + (ref - t + half32) div wrap32 * wrap32)"
proof -
  define u where "u = uint up"
  define t where "t = base + u"
  define q where "q = (ref - t + half32) div wrap32"
  have up: "0 \<le> u" "u \<le> 4294967295" using assms(3) by (simp_all add: word_le_def u_def)
  have i1: "int64 t" "int64 (ref - t)" "int64 (ref - t + half32)"
    using assms(1,2) up by (auto simp: int64_def t_def half32_def abs_less_iff)
  have "q * wrap32 \<le> ref - t + half32" "ref - t + half32 < q * wrap32 + wrap32"
    by (simp_all add: q_def wrap32_def)
  then have i2: "int64 (q * wrap32)" "int64 (t + q * wrap32)"
    using assms(1,2) up by (auto simp: int64_def t_def half32_def wrap32_def abs_less_iff)
  have "\<not> up > 0xffffffff" using assms(3) by simp
  then show ?thesis
    using i1 i2 and_mask62_small [OF assms(3)]
    by (simp add: unwrapUptime_def Let_def u_def [symmetric] t_def [symmetric] wrap64_id floorDiv_div wrap32_def
      q_def [unfolded wrap32_def, symmetric])
qed

text \<open>
  C24: \<open>unwrapUptime\<close> resolves a 32-bit uptime to the instant congruent to \<open>base + up\<close>
  modulo \<open>2\<^sup>3\<^sup>2\<close> ms that is nearest to the reference time (half a wrap at most), with no
  \<open>int64\<close> overflow on the way.
\<close>

theorem unwrapUptime_nearest:
  assumes "\<bar>base\<bar> < 2 ^ 62" and "\<bar>ref\<bar> < 2 ^ 61" and "up \<le> 0xffffffff"
  shows "unwrapUptime base up ref mod wrap32 = (base + uint up) mod wrap32 \<and>
    - half32 < unwrapUptime base up ref - ref \<and> unwrapUptime base up ref - ref \<le> half32"
proof -
  define t where "t = base + uint up"
  have e: "unwrapUptime base up ref = t + (ref - t + half32) div wrap32 * wrap32"
    using unwrapUptime_eq [OF assms] by (simp add: t_def Let_def)
  have "(ref - t + half32) div wrap32 * wrap32 = (ref - t + half32) - (ref - t + half32) mod wrap32"
    by (simp add: minus_mod_eq_div_mult)
  moreover have "0 \<le> (ref - t + half32) mod wrap32" "(ref - t + half32) mod wrap32 < wrap32"
    by (simp_all add: wrap32_def)
  ultimately have "- half32 < t + (ref - t + half32) div wrap32 * wrap32 - ref"
    "t + (ref - t + half32) div wrap32 * wrap32 - ref \<le> half32"
    by (simp_all add: half32_def wrap32_def)
  moreover have "(t + (ref - t + half32) div wrap32 * wrap32) mod wrap32 = t mod wrap32" by simp
  ultimately show ?thesis unfolding e by (simp add: t_def)
qed

theorem unwrapUptime_nearest_witness:
  "unwrapUptime 1000 4294967295 4294960000 mod wrap32 = (1000 + uint (4294967295 :: u64)) mod wrap32 \<and>
    \<bar>unwrapUptime 1000 4294967295 4294960000 - 4294960000\<bar> \<le> half32"
  using unwrapUptime_nearest [of 1000 4294960000 4294967295] by (simp add: half32_def abs_le_iff)

subsection \<open>Times and sampling of every produced flow\<close>

definition times_within :: "time \<Rightarrow> time \<Rightarrow> flow \<Rightarrow> bool" where
  "times_within lo hi f \<longleftrightarrow> lo \<le> f_Start f \<and> f_Start f \<le> f_End f \<and> f_End f \<le> hi"

lemma sanitizeTimes_within: "times_within (export - hours 2) (export + minutes 1) (sanitizeTimes f export)"
  by (auto simp: sanitizeTimes_def times_within_def Let_def time_defs)

lemma sanitizeTimes_keeps:
  assumes "times_within (export - hours 2) (export + minutes 1) f" and "\<not> is_zero (f_Start f)" and "\<not> is_zero (f_End f)"
  shows "sanitizeTimes f export = f"
  using assms by (auto simp: sanitizeTimes_def times_within_def Let_def)

text \<open>The skew that \<open>applySkew\<close> adds.\<close>

definition effective_skew :: "duration \<Rightarrow> duration" where
  "effective_skew skew = (if skew > skewThreshold \<or> skew < - skewThreshold then skew else 0)"

lemma applySkew_within:
  "times_within lo hi f \<Longrightarrow> times_within (lo + effective_skew s) (hi + effective_skew s) (applySkew f s)"
  by (auto simp: times_within_def applySkew_def effective_skew_def)

lemma ucast_u32_u64: "r \<le> 0xffffffff \<Longrightarrow> ucast (ucast (r :: u64) :: u32) = r"
proof -
  assume "r \<le> 0xffffffff"
  then have "unat r < 2 ^ 32" by (simp add: word_le_nat_alt)
  then have "unat (ucast (ucast r :: u32) :: u64) = unat r"
    by (simp add: unsigned_ucast_eq take_bit_eq_mod unat_mod)
  then show ?thesis by (rule unsigned_word_eqI)
qed

lemma scale_rate:
  fixes r ctxRate
  defines "f \<equiv> r_f (scale r ctxRate)"
  shows "1 \<le> f_SamplingRate f" and "f_Bytes f = f_RawBytes f * ucast (f_SamplingRate f)"
    and "f_Packets f = f_RawPackets f * ucast (f_SamplingRate f)"
    and "f_RawBytes f = f_RawBytes (r_f r)" and "f_RawPackets f = f_RawPackets (r_f r)"
proof -
  define rate where "rate = (let rate = (if r_sampInt r > 0 \<and> r_sampSpace r > 0 then (r_sampInt r + r_sampSpace r) div r_sampInt r
                 else if r_sampInt r > 0 then r_sampInt r
                 else if ctxRate > 0 then ucast ctxRate else 0)
     in if rate = 0 \<or> rate > 0xffffffff then 1 else rate)"
  have sc: "r_f (scale r ctxRate) = (r_f r)\<lparr>f_SamplingRate := ucast rate,
      f_Bytes := f_RawBytes (r_f r) * rate, f_Packets := f_RawPackets (r_f r) * rate\<rparr>"
    by (simp add: scale_def rate_def Let_def)
  have rate: "rate \<le> 0xffffffff" "rate \<noteq> 0" by (auto simp: rate_def Let_def not_less)
  note u = ucast_u32_u64 [OF rate(1)]
  have "(ucast rate :: u32) \<noteq> 0" using rate(2) u by auto
  then show "1 \<le> f_SamplingRate f"
    unfolding f_def sc by (simp add: word_le_nat_alt Suc_le_eq unat_gt_0)
  show "f_Bytes f = f_RawBytes f * ucast (f_SamplingRate f)"
    "f_Packets f = f_RawPackets f * ucast (f_SamplingRate f)"
    "f_RawBytes f = f_RawBytes (r_f r)" "f_RawPackets f = f_RawPackets (r_f r)"
    unfolding f_def sc using u by simp_all
qed

lemma scale_keeps [simp]:
  "f_Start (r_f (scale r c)) = f_Start (r_f r)" "f_End (r_f (scale r c)) = f_End (r_f r)"
  "f_SrcAddr (r_f (scale r c)) = f_SrcAddr (r_f r)" "f_DstAddr (r_f (scale r c)) = f_DstAddr (r_f r)"
  "f_PostNATSrc (r_f (scale r c)) = f_PostNATSrc (r_f r)" "f_PostNATDst (r_f (scale r c)) = f_PostNATDst (r_f r)"
  "f_TimeSource (r_f (scale r c)) = f_TimeSource (r_f r)"
  by (simp_all add: scale_def Let_def)

lemma fromV5_within:
  assumes "f \<in> set (fromV5 p ov received)"
  shows "\<exists>export skew. skew = t_sub received export \<and>
    times_within (export - hours 2 + effective_skew skew) (export + minutes 1 + effective_skew skew) f"
  using assms applySkew_within [OF sanitizeTimes_within]
  by (fastforce simp: fromV5_def fromV5_record_def Let_def)

lemma fromV5_length [simp]: "length (fromV5 p ov received) = length (v5_Records p)"
  by (simp add: fromV5_def Let_def)

subsection \<open>The converters never panic and produce well-formed addresses\<close>

lemma parse_field_addrs: "flow_addrs_wf (r_f (p_r s)) \<Longrightarrow> flow_addrs_wf (r_f (p_r (parse_field v s)))"
  by (simp add: parse_field_def upd_f_def upd_r_def Let_def flow_addrs_wf_def split: option.splits)

lemma fold_parse_field_addrs:
  "flow_addrs_wf (r_f (p_r s)) \<Longrightarrow> flow_addrs_wf (r_f (p_r (fold parse_field vs s)))"
  by (induction vs arbitrary: s) (auto simp: parse_field_addrs)

lemma parseDataRecord_addrs: "flow_addrs_wf (r_f (fst (parseDataRecord vals c)))"
proof -
  have "flow_addrs_wf zero_flow" by (simp add: flow_addrs_wf_def zero_flow_def)
  then have "flow_addrs_wf (r_f (p_r (fold parse_field vals
      \<lparr>p_r = zero_rawRecord\<lparr>r_f := zero_flow\<lparr>f_Kind := c_kind c, f_ObsDomain := c_obs c, f_Direction := 255\<rparr>\<rparr>,
       p_hasStart = False, p_hasEnd = False, p_outBytes = 0, p_outPkts = 0\<rparr>)))"
    by (intro fold_parse_field_addrs) (simp add: flow_addrs_wf_def)
  then show ?thesis by (simp add: parseDataRecord_def Let_def flow_addrs_wf_def)
qed

lemma sflow_record_safe [safe_intros]:
  "(\<And>f' got'. keeps_addrs f f' \<Longrightarrow> Q (f', got')) \<Longrightarrow> safe (sflow_record d f got) Q"
  unfolding sflow_record_def
  by (cases d) (auto intro!: safe_intros simp: flow_addrs_wf_def flow_meta_def)

lemma sflow_records_safe [safe_intros]:
  "(\<And>f' got'. keeps_addrs f f' \<Longrightarrow> Q (f', got')) \<Longrightarrow> safe (sflow_records ds f got) Q"
proof (induction ds arbitrary: f got)
  case (Cons d ds)
  show ?case
    unfolding sflow_records.simps
    by (intro safe_intros Cons.IH) (auto intro: Cons.prems)
qed (auto intro: safe_intros)

text \<open>
  What every flow of the collector promises of its counters: a rate of at least one, and
  bytes and packets that are the raw ones times the rate (modulo \<open>2\<^sup>6\<^sup>4\<close>).
\<close>

definition scaled :: "flow \<Rightarrow> bool" where
  "scaled f \<longleftrightarrow> 1 \<le> f_SamplingRate f \<and> f_Bytes f = f_RawBytes f * ucast (f_SamplingRate f) \<and>
    f_Packets f = f_RawPackets f * ucast (f_SamplingRate f)"

definition sflow_ok :: "time \<Rightarrow> flow \<Rightarrow> bool" where
  "sflow_ok received f \<longleftrightarrow> flow_addrs_wf f \<and> scaled f \<and> f_Start f = received \<and> f_End f = received \<and> f_Kind f = KindSFlow"

lemma one_le_u32: "(1 :: u32) \<le> r \<longleftrightarrow> r \<noteq> 0"
  by (simp add: word_le_nat_alt Suc_le_eq unat_gt_0)

lemma sflow_flow_safe [safe_intros]:
  "(\<And>r. pred_option (sflow_ok rcv) r \<Longrightarrow> Q r) \<Longrightarrow> safe (sflow_flow rate src i out recs rcv) Q"
  unfolding sflow_flow_def
  by (intro safe_intros)
     (auto simp: flow_addrs_wf_def flow_meta_def zero_flow_def sflow_ok_def scaled_def one_le_u32 split: if_splits)

theorem fromSFlow_safe [safe_intros]:
  "(\<And>fs cs. \<forall>f\<in>set fs. sflow_ok rcv f \<Longrightarrow> Q (fs, cs)) \<Longrightarrow> safe (fromSFlow ss rcv) Q"
proof (induction ss arbitrary: Q)
  case (Cons s ss)
  show ?case
    unfolding fromSFlow.simps
    by (cases s) (auto intro!: safe_intros Cons.IH Cons.prems split: option.splits)
qed (auto intro: safe_intros)

end
