(* ===== verification/Template_Store.thy ===== *)
theory Template_Store
  imports Flow_Record
begin

text \<open>
  The guarded template store of \<open>decode/guard.go\<close> (\<open>SafeTemplates\<close>) and the persisted
  form of templates of \<open>decode/templates.go\<close>.

  The store wraps goflow2's \<open>NetFlowTemplateSystem\<close>. That interface is a parameter of
  the model (\<open>'s template_system\<close>: a state type and its operations); what the store
  relies on is \<open>template_system_ok\<close>: a template added under a key is the one read back
  until it is replaced or removed, and keys do not interfere.
\<close>

subsection \<open>Errors of package decode\<close>

datatype reject_reason =
    NotSFlowV5 | AgentIPVersion u32 | SampleCount u32 | RecordCount nat | FieldCount u16 nat | UnknownVersion u16

datatype derror =
    ErrDegenerateTemplate | ErrTooManyTemplates | ErrTemplateTooWide | ErrTooManyDomains | ErrMalformedV9
  | ErrBadV5 | ErrSFlowRecordCount | ErrShort
  | Rejectf reject_reason
  | ErrUnknownTemplateType | ErrBadTemplateBlob | ErrTemplateNotFound | ErrDecoder | ErrPanic

text \<open>\<open>errors.Is(err, ErrRejected)\<close>: the errors that are values of type \<open>rejectError\<close>.\<close>

fun IsRejected :: "derror \<Rightarrow> bool" where
  "IsRejected ErrBadV5 = True"
| "IsRejected ErrSFlowRecordCount = True"
| "IsRejected ErrShort = True"
| "IsRejected (Rejectf _) = True"
| "IsRejected _ = False"

definition MaxTemplates :: nat where "MaxTemplates = 64"
definition maxTemplateFields :: nat where "maxTemplateFields = 128"
definition MaxDomains :: nat where "MaxDomains = 16"
definition maxRecordsPerDatagram :: nat where "maxRecordsPerDatagram = 1024"
definition maxReplayRecords :: nat where "maxReplayRecords = 4096"

lemmas limit_defs = MaxTemplates_def maxTemplateFields_def MaxDomains_def maxRecordsPerDatagram_def
  maxReplayRecords_def

subsection \<open>Templates\<close>

record nf_field =
  fd_PenProvided :: bool
  fd_Type :: u16
  fd_Length :: u16
  fd_Pen :: u32

text \<open>
  The template types a \<open>NetFlowTemplateSystem\<close> stores (an \<open>interface{}\<close> in Go); any other
  dynamic type is \<open>OtherTemplate\<close>.
\<close>

datatype tmpl =
    NFTemplate (t_TemplateId: u16) (t_FieldCount: u16) (t_Fields: "nf_field list")
  | IPFIXOptionsTemplate (t_TemplateId: u16) (t_FieldCount: u16) (t_ScopeFieldCount: u16)
      (t_Options: "nf_field list") (t_Scopes: "nf_field list")
  | NFv9OptionsTemplate (t_TemplateId: u16) (t_ScopeLength: u16) (t_OptionLength: u16)
      (t_Scopes: "nf_field list") (t_Options: "nf_field list")
  | OtherTemplate

record TemplateKey =
  k_Version :: u16
  k_ObsDomain :: u32
  k_ID :: u16

definition key_u64 :: "TemplateKey \<Rightarrow> u64" where
  "key_u64 k = push_bit 48 (ucast (k_Version k)) OR push_bit 16 (ucast (k_ObsDomain k)) OR ucast (k_ID k)"

record 's template_system =
  ts_Create :: 's
  ts_Add :: "u16 \<Rightarrow> u32 \<Rightarrow> u16 \<Rightarrow> tmpl \<Rightarrow> 's \<Rightarrow> derror option \<times> 's"
  ts_Get :: "u16 \<Rightarrow> u32 \<Rightarrow> u16 \<Rightarrow> 's \<Rightarrow> tmpl option"
  ts_Remove :: "u16 \<Rightarrow> u32 \<Rightarrow> u16 \<Rightarrow> 's \<Rightarrow> 's"

definition template_system_ok :: "'s template_system \<Rightarrow> bool" where
  "template_system_ok ts \<longleftrightarrow>
    (\<forall>v o' i. ts_Get ts v o' i (ts_Create ts) = None) \<and>
    (\<forall>v o' i t s. fst (ts_Add ts v o' i t s) = None) \<and>
    (\<forall>v o' i t s v2 o2 i2. ts_Get ts v2 o2 i2 (snd (ts_Add ts v o' i t s))
       = (if (v2, o2, i2) = (v, o', i) then Some t else ts_Get ts v2 o2 i2 s)) \<and>
    (\<forall>v o' i s v2 o2 i2. ts_Get ts v2 o2 i2 (ts_Remove ts v o' i s)
       = (if (v2, o2, i2) = (v, o', i) then None else ts_Get ts v2 o2 i2 s))"

definition templateFields :: "tmpl \<Rightarrow> derror + nf_field list \<times> bool" where
  "templateFields t = (case t of
      NFTemplate _ fc fs \<Rightarrow> Inr (fs, fc = 0)
    | IPFIXOptionsTemplate _ fc _ opts scopes \<Rightarrow> Inr (scopes @ opts, fc = 0)
    | NFv9OptionsTemplate _ _ _ scopes opts \<Rightarrow> Inr (scopes @ opts, length (scopes @ opts) = 0)
    | OtherTemplate \<Rightarrow> Inl ErrUnknownTemplateType)"

definition progresses :: "nf_field list \<Rightarrow> bool" where
  "progresses flds = (if list_ex (\<lambda>f. fd_Length f = 0) flds then False else length flds > 0)"

fun minRecordLen_from :: "nat \<Rightarrow> nf_field list \<Rightarrow> nat" where
  "minRecordLen_from n [] = n"
| "minRecordLen_from n (f # fs) =
    (if fd_Length f = 0 then 0
     else if fd_Length f = 0xffff then minRecordLen_from (n + 1) fs
     else minRecordLen_from (n + unat (fd_Length f)) fs)"

definition minRecordLen :: "nf_field list \<Rightarrow> nat" where
  "minRecordLen flds = minRecordLen_from 0 flds"

subsection \<open>The store\<close>

record 's SafeTemplates =
  s_inner :: 's
  s_keys :: "(u64, bool) gomap"
  s_max :: nat
  s_added :: "TemplateKey list"
  s_withdrawn :: "TemplateKey list"

definition NewSafeTemplates :: "'s template_system \<Rightarrow> nat \<Rightarrow> 's SafeTemplates" where
  "NewSafeTemplates ts m = \<lparr>s_inner = ts_Create ts, s_keys = [], s_max = m, s_added = [], s_withdrawn = []\<rparr>"

definition st_add :: "'s template_system \<Rightarrow> u16 \<Rightarrow> u32 \<Rightarrow> u16 \<Rightarrow> tmpl \<Rightarrow> bool \<Rightarrow> 's SafeTemplates \<Rightarrow>
    derror option \<times> 's SafeTemplates" where
  "st_add ts version obs tid t persisted s = (case templateFields t of
      Inl e \<Rightarrow> (Some e, s)
    | Inr (flds, withdrawal) \<Rightarrow>
       (let k = \<lparr>k_Version = version, k_ObsDomain = obs, k_ID = tid\<rparr> in
        if withdrawal then
          (if gm_has (s_keys s) (key_u64 k) then
             (let s = s\<lparr>s_keys := gm_del (key_u64 k) (s_keys s), s_inner := ts_Remove ts version obs tid (s_inner s)\<rparr>
              in (None, if length (s_withdrawn s) < s_max s then s\<lparr>s_withdrawn := s_withdrawn s @ [k]\<rparr> else s))
           else (None, s))
        else if length flds > maxTemplateFields then (Some ErrTemplateTooWide, s)
        else if \<not> progresses flds then (Some ErrDegenerateTemplate, s)
        else if \<not> gm_has (s_keys s) (key_u64 k) \<and> gm_len (s_keys s) \<ge> s_max s then (Some ErrTooManyTemplates, s)
        else
          (let s = s\<lparr>s_keys := gm_put (key_u64 k) persisted (s_keys s)\<rparr>;
               s = (if persisted then s else
                      s\<lparr>s_added := s_added s @ [k], s_withdrawn := filter (\<lambda>w. w \<noteq> k) (s_withdrawn s)\<rparr>)
           in case ts_Add ts version obs tid t (s_inner s) of (e, inner') \<Rightarrow> (e, s\<lparr>s_inner := inner'\<rparr>))))"

definition AddTemplate :: "'s template_system \<Rightarrow> u16 \<Rightarrow> u32 \<Rightarrow> u16 \<Rightarrow> tmpl \<Rightarrow> 's SafeTemplates \<Rightarrow>
    derror option \<times> 's SafeTemplates" where
  "AddTemplate ts version obs tid t s = st_add ts version obs tid t False s"

definition Has :: "'s SafeTemplates \<Rightarrow> TemplateKey \<Rightarrow> bool" where
  "Has s k = gm_has (s_keys s) (key_u64 k)"

definition GetTemplate :: "'s template_system \<Rightarrow> u16 \<Rightarrow> u32 \<Rightarrow> u16 \<Rightarrow> 's SafeTemplates \<Rightarrow> tmpl option" where
  "GetTemplate ts version obs tid s = ts_Get ts version obs tid (s_inner s)"

definition RemoveTemplate :: "'s template_system \<Rightarrow> u16 \<Rightarrow> u32 \<Rightarrow> u16 \<Rightarrow> 's SafeTemplates \<Rightarrow> 's SafeTemplates" where
  "RemoveTemplate ts version obs tid s =
    s\<lparr>s_keys := gm_del (key_u64 \<lparr>k_Version = version, k_ObsDomain = obs, k_ID = tid\<rparr>) (s_keys s),
      s_inner := ts_Remove ts version obs tid (s_inner s)\<rparr>"

definition minRecord :: "'s template_system \<Rightarrow> u16 \<Rightarrow> u32 \<Rightarrow> u16 \<Rightarrow> 's SafeTemplates \<Rightarrow> nat option" where
  "minRecord ts version obs tid s = (case ts_Get ts version obs tid (s_inner s) of
      None \<Rightarrow> None
    | Some t \<Rightarrow> (case templateFields t of Inl _ \<Rightarrow> None | Inr (flds, _) \<Rightarrow> Some (minRecordLen flds)))"

definition ResetTemplates :: "'s template_system \<Rightarrow> 's SafeTemplates \<Rightarrow> 's SafeTemplates" where
  "ResetTemplates ts s = s\<lparr>s_inner := ts_Create ts, s_keys := [], s_added := [], s_withdrawn := []\<rparr>"

definition Len :: "'s SafeTemplates \<Rightarrow> nat" where
  "Len s = gm_len (s_keys s)"

definition PersistedOnly :: "'s SafeTemplates \<Rightarrow> bool" where
  "PersistedOnly s = (if gm_len (s_keys s) = 0 then False else list_all (\<lambda>(_, p). p) (s_keys s))"

definition drainAdded :: "'s SafeTemplates \<Rightarrow> TemplateKey list \<times> 's SafeTemplates" where
  "drainAdded s = (s_added s, s\<lparr>s_added := []\<rparr>)"

definition drainWithdrawn :: "'s SafeTemplates \<Rightarrow> TemplateKey list \<times> 's SafeTemplates" where
  "drainWithdrawn s = (s_withdrawn s, s\<lparr>s_withdrawn := []\<rparr>)"

subsection \<open>Keys\<close>

lemma key_u64_parts:
  "ucast (key_u64 k) = k_ID k"
  "ucast (drop_bit 16 (key_u64 k)) = k_ObsDomain k"
  "ucast (drop_bit 48 (key_u64 k)) = k_Version k"
  unfolding key_u64_def
  by (rule bit_word_eqI; auto simp: bit_simps dest: bit_imp_le_length)+

lemma key_u64_inj: "key_u64 k = key_u64 k' \<longleftrightarrow> k = k'"
  by (metis key_u64_parts TemplateKey.equality unit.exhaust old.unit.exhaust)

lemma key_u64_make_inj:
  "key_u64 \<lparr>k_Version = v, k_ObsDomain = ob, k_ID = i\<rparr> = key_u64 \<lparr>k_Version = v', k_ObsDomain = ob', k_ID = i'\<rparr>
    \<longleftrightarrow> (v, ob, i) = (v', ob', i')"
  by (simp add: key_u64_inj)

subsection \<open>Record lengths\<close>

lemma minRecordLen_from_ge:
  "list_all (\<lambda>f. fd_Length f \<noteq> 0) fs \<Longrightarrow> n + length fs \<le> minRecordLen_from n fs"
proof (induction fs arbitrary: n)
  case (Cons f fs)
  then have "1 \<le> unat (fd_Length f)" by (simp add: Suc_le_eq unat_gt_0)
  with Cons.IH [of "n + 1"] Cons.IH [of "n + unat (fd_Length f)"] Cons.prems show ?case by auto
qed simp

text \<open>
  Every template that passes the \<open>progresses\<close> guard consumes at least one byte per field
  of every record, so a data set of \<open>n\<close> bytes holds at most \<open>n\<close> records.
\<close>

theorem progresses_minRecordLen: "progresses flds \<Longrightarrow> length flds \<le> minRecordLen flds \<and> 0 < minRecordLen flds"
  using minRecordLen_from_ge [of flds 0]
  by (cases flds) (auto simp: progresses_def minRecordLen_def list_ex_iff list_all_iff split: if_splits)

subsection \<open>The invariant\<close>

definition tmpl_ok :: "tmpl \<Rightarrow> bool" where
  "tmpl_ok t \<longleftrightarrow> (case templateFields t of Inl _ \<Rightarrow> False
     | Inr (flds, withdrawal) \<Rightarrow> \<not> withdrawal \<and> length flds \<le> maxTemplateFields \<and> progresses flds)"

definition mk_key :: "u16 \<Rightarrow> u32 \<Rightarrow> u16 \<Rightarrow> TemplateKey" where
  "mk_key v ob i = \<lparr>k_Version = v, k_ObsDomain = ob, k_ID = i\<rparr>"

definition st_inv :: "'s template_system \<Rightarrow> 's SafeTemplates \<Rightarrow> bool" where
  "st_inv ts s \<longleftrightarrow> gm_wf (s_keys s) \<and> gm_len (s_keys s) \<le> s_max s \<and> length (s_withdrawn s) \<le> s_max s \<and>
    (\<forall>v ob i. gm_has (s_keys s) (key_u64 (mk_key v ob i)) \<longleftrightarrow> ts_Get ts v ob i (s_inner s) \<noteq> None) \<and>
    (\<forall>v ob i t. ts_Get ts v ob i (s_inner s) = Some t \<longrightarrow> tmpl_ok t)"

lemma st_inv_New: "template_system_ok ts \<Longrightarrow> st_inv ts (NewSafeTemplates ts m)"
  by (simp add: st_inv_def NewSafeTemplates_def template_system_ok_def)

lemma st_inv_Reset: "template_system_ok ts \<Longrightarrow> st_inv ts (ResetTemplates ts s)"
  by (simp add: st_inv_def ResetTemplates_def template_system_ok_def)

lemma st_inv_Remove:
  "template_system_ok ts \<Longrightarrow> st_inv ts s \<Longrightarrow> st_inv ts (RemoveTemplate ts v ob i s)"
  using gmap.size_del_le [of "s_keys s" "key_u64 (mk_key v ob i)"]
  by (auto simp: st_inv_def RemoveTemplate_def template_system_ok_def key_u64_inj mk_key_def
    intro: gmap.wf_del)

lemma st_add_store_inv:
  assumes ts: "template_system_ok ts" and inv: "st_inv ts s" and t: "tmpl_ok t"
    and room: "gm_has (s_keys s) (key_u64 (mk_key v ob i)) \<or> gm_len (s_keys s) < s_max s"
    and wd: "length wd \<le> s_max s"
  shows "st_inv ts (s\<lparr>s_keys := gm_put (key_u64 (mk_key v ob i)) p (s_keys s), s_added := ad, s_withdrawn := wd,
    s_inner := snd (ts_Add ts v ob i t (s_inner s))\<rparr>)"
proof -
  have "gm_len (gm_put (key_u64 (mk_key v ob i)) p (s_keys s)) \<le> s_max s"
    using inv room by (intro gmap.size_put_capped) (auto simp: st_inv_def gm_has_def)
  then show ?thesis
    using ts inv t wd
    by (auto simp: st_inv_def template_system_ok_def key_u64_inj mk_key_def intro: gmap.wf_put)
qed

theorem st_inv_add:
  assumes ts: "template_system_ok ts" and inv: "st_inv ts s"
  shows "st_inv ts (snd (st_add ts v ob i t p s))"
proof (cases "templateFields t")
  case (Inl e)
  with inv show ?thesis by (simp add: st_add_def)
next
  case (Inr r)
  obtain flds w where r: "r = (flds, w)" by force
  show ?thesis
  proof (cases w)
    case True
    have "st_inv ts (RemoveTemplate ts v ob i s)" using ts inv by (rule st_inv_Remove)
    with inv True Inr r show ?thesis
      by (auto simp: st_add_def st_inv_def RemoveTemplate_def Let_def)
  next
    case False
    show ?thesis
    proof (cases "length flds \<le> maxTemplateFields \<and> progresses flds \<and>
        (gm_has (s_keys s) (key_u64 (mk_key v ob i)) \<or> gm_len (s_keys s) < s_max s)")
      case True
      have t: "tmpl_ok t" using True False Inr r by (simp add: tmpl_ok_def)
      have w: "length (filter (\<lambda>w. w \<noteq> mk_key v ob i) (s_withdrawn s)) \<le> s_max s"
        "length (s_withdrawn s) \<le> s_max s"
        using inv by (auto simp: st_inv_def intro: le_trans [OF length_filter_le])
      have room: "gm_has (s_keys s) (key_u64 (mk_key v ob i)) \<or> gm_len (s_keys s) < s_max s"
        using True by blast
      from st_add_store_inv [OF ts inv t room w(1), where p = False and ad = "s_added s @ [mk_key v ob i]"]
        st_add_store_inv [OF ts inv t room w(2), where p = True and ad = "s_added s"]
      show ?thesis using True False Inr r
        by (cases p) (auto simp: st_add_def Let_def mk_key_def not_less split: prod.splits)
    next
      case F: False
      then show ?thesis using inv False Inr r by (auto simp: st_add_def Let_def mk_key_def)
    qed
  qed
qed

text \<open>What a successful \<open>add\<close> of a real template does: it is the stored one.\<close>

theorem st_add_stores:
  assumes ts: "template_system_ok ts" and ok: "tmpl_ok t"
    and room: "Has s (mk_key v ob i) \<or> Len s < s_max s"
  shows "fst (st_add ts v ob i t p s) = None \<and>
    GetTemplate ts v ob i (snd (st_add ts v ob i t p s)) = Some t \<and>
    Has (snd (st_add ts v ob i t p s)) (mk_key v ob i) \<and>
    ((v', ob', i') \<noteq> (v, ob, i) \<longrightarrow>
      GetTemplate ts v' ob' i' (snd (st_add ts v ob i t p s)) = GetTemplate ts v' ob' i' s)"
proof -
  obtain flds where flds: "templateFields t = Inr (flds, False)" "length flds \<le> maxTemplateFields" "progresses flds"
    using ok by (auto simp: tmpl_ok_def split: sum.splits)
  show ?thesis
    using ts room flds
    by (auto simp: st_add_def Let_def Has_def Len_def mk_key_def GetTemplate_def template_system_ok_def
      split: prod.splits; metis fst_conv snd_conv)
qed

text \<open>A withdrawal removes the template and is reported once.\<close>

theorem st_add_withdraws:
  assumes ts: "template_system_ok ts" and w: "templateFields t = Inr (flds, True)" and inv: "st_inv ts s"
  shows "fst (st_add ts v ob i t p s) = None \<and>
    GetTemplate ts v ob i (snd (st_add ts v ob i t p s)) = None \<and>
    \<not> Has (snd (st_add ts v ob i t p s)) (mk_key v ob i)"
  using assms by (auto simp: st_add_def Let_def Has_def mk_key_def GetTemplate_def template_system_ok_def st_inv_def)

lemma st_inv_drain:
  "st_inv ts s \<Longrightarrow> st_inv ts (snd (drainAdded s))" "st_inv ts s \<Longrightarrow> st_inv ts (snd (drainWithdrawn s))"
  by (auto simp: st_inv_def drainAdded_def drainWithdrawn_def)

subsection \<open>Refinement of a guarded finite map\<close>

text \<open>
  What the store promises: a map from keys to templates that takes a well-formed template
  when there is room or the key is present, and drops one on withdrawal.
\<close>

definition spec_add :: "nat \<Rightarrow> TemplateKey \<Rightarrow> tmpl \<Rightarrow> (TemplateKey \<rightharpoonup> tmpl) \<Rightarrow> derror option \<times> (TemplateKey \<rightharpoonup> tmpl)" where
  "spec_add mx k t m = (case templateFields t of
      Inl e \<Rightarrow> (Some e, m)
    | Inr (flds, withdrawal) \<Rightarrow>
        if withdrawal then (None, m(k := None))
        else if length flds > maxTemplateFields then (Some ErrTemplateTooWide, m)
        else if \<not> progresses flds then (Some ErrDegenerateTemplate, m)
        else if m k = None \<and> card (dom m) \<ge> mx then (Some ErrTooManyTemplates, m)
        else (None, m(k \<mapsto> t)))"

definition store_abs :: "'s template_system \<Rightarrow> 's SafeTemplates \<Rightarrow> (TemplateKey \<rightharpoonup> tmpl)" where
  "store_abs ts s k = GetTemplate ts (k_Version k) (k_ObsDomain k) (k_ID k) s"

lemma key_u64_surj: "\<exists>k. key_u64 k = (w :: u64)"
proof
  show "key_u64 \<lparr>k_Version = ucast (drop_bit 48 w), k_ObsDomain = ucast (drop_bit 16 w), k_ID = ucast w\<rparr> = w"
    unfolding key_u64_def TemplateKey.select_convs
  proof (rule bit_word_eqI)
    fix n assume "n < LENGTH(64)"
    then show "bit (push_bit 48 (ucast (ucast (drop_bit 48 w) :: u16)) OR push_bit 16 (ucast (ucast (drop_bit 16 w) :: u32))
        OR (ucast (ucast w :: u16) :: u64)) n = bit w n"
      by (cases "n < 16"; cases "n < 48") (auto simp: bit_simps not_less)
  qed
qed

lemma store_dom:
  assumes "st_inv ts s"
  shows "key_u64 ` dom (store_abs ts s) = set (map fst (s_keys s))" and "card (dom (store_abs ts s)) = gm_len (s_keys s)"
proof -
  have has: "gm_has (s_keys s) (key_u64 k) \<longleftrightarrow> store_abs ts s k \<noteq> None" for k
    using assms by (cases k) (auto simp: st_inv_def mk_key_def store_abs_def GetTemplate_def)
  have in_keys: "w \<in> set (map fst (s_keys s)) \<longleftrightarrow> gm_has (s_keys s) w" for w
    by (simp add: gm_has_def gm_get_def map_of_eq_None_iff)
  show dom: "key_u64 ` dom (store_abs ts s) = set (map fst (s_keys s))"
  proof (intro set_eqI iffI)
    fix w assume w: "w \<in> set (map fst (s_keys s))"
    obtain k where "key_u64 k = w" using key_u64_surj by blast
    with w show "w \<in> key_u64 ` dom (store_abs ts s)" by (metis domIff has imageI in_keys)
  qed (auto simp: in_keys has simp del: set_map)
  have "inj_on key_u64 (dom (store_abs ts s))" by (simp add: inj_on_def key_u64_inj)
  then have "card (dom (store_abs ts s)) = card (set (map fst (s_keys s)))" by (metis card_image dom)
  then show "card (dom (store_abs ts s)) = gm_len (s_keys s)"
    using assms distinct_card [of "map fst (s_keys s)"] by (simp add: st_inv_def gm_wf_def gm_len_def)
qed

text \<open>
  C8: \<open>SafeTemplates.add\<close> implements the guarded map: it returns the same error and its
  abstraction moves exactly as the specification says, for every template and every key.
\<close>

theorem st_add_refines:
  assumes "template_system_ok ts" and "st_inv ts s"
  shows "(fst (st_add ts v ob i t p s), store_abs ts (snd (st_add ts v ob i t p s)))
    = spec_add (s_max s) (mk_key v ob i) t (store_abs ts s)"
proof -
  have has: "gm_has (s_keys s) (key_u64 (mk_key v ob i)) \<longleftrightarrow> store_abs ts s (mk_key v ob i) \<noteq> None"
    using assms(2) by (auto simp: st_inv_def store_abs_def GetTemplate_def mk_key_def)
  have upd: "store_abs ts (s'\<lparr>s_inner := snd (ts_Add ts v ob i t (s_inner s))\<rparr>) = (store_abs ts s)(mk_key v ob i \<mapsto> t)"
    "store_abs ts (s'\<lparr>s_inner := ts_Remove ts v ob i (s_inner s)\<rparr>) = (store_abs ts s)(mk_key v ob i := None)" for s'
    using assms(1) by (auto simp: store_abs_def GetTemplate_def template_system_ok_def mk_key_def fun_eq_iff)
  have inner: "store_abs ts (s'\<lparr>s_inner := x, s_withdrawn := y\<rparr>) = store_abs ts (s'\<lparr>s_inner := x\<rparr>)" for s' x y
    by (simp add: store_abs_def GetTemplate_def fun_eq_iff)
  have none: "fst (ts_Add ts v ob i t (s_inner s)) = None" using assms(1) by (simp add: template_system_ok_def)
  have k: "\<lparr>k_Version = v, k_ObsDomain = ob, k_ID = i\<rparr> = mk_key v ob i" by (simp add: mk_key_def)
  obtain inner' where add: "ts_Add ts v ob i t (s_inner s) = (None, inner')" using none by (metis prod.collapse)
  show ?thesis
  proof (cases "templateFields t")
    case (Inl e)
    then show ?thesis by (simp add: st_add_def spec_add_def)
  next
    case (Inr r)
    obtain flds w where "r = (flds, w)" by force
    with Inr show ?thesis
      using store_dom(2) [OF assms(2)] upd has
      by (cases w) (auto simp: st_add_def spec_add_def Let_def k inner add fun_upd_idem_iff)
  qed
qed

text \<open>An instance of the parameter: templates in a finite map, and a template of one field.\<close>

definition fin_ts :: "(u16 \<times> u32 \<times> u16 \<Rightarrow> tmpl option) template_system" where
  "fin_ts = \<lparr>ts_Create = (\<lambda>_. None),
     ts_Add = (\<lambda>v ob i t s. (None, s((v, ob, i) := Some t))),
     ts_Get = (\<lambda>v ob i s. s (v, ob, i)),
     ts_Remove = (\<lambda>v ob i s. s((v, ob, i) := None))\<rparr>"

definition fin_tmpl :: tmpl where
  "fin_tmpl = NFTemplate 256 1 [\<lparr>fd_PenProvided = False, fd_Type = 8, fd_Length = 4, fd_Pen = 0\<rparr>]"

lemma fin_ts_ok: "template_system_ok fin_ts"
  by (simp add: template_system_ok_def fin_ts_def)

lemma fin_tmpl_ok: "tmpl_ok fin_tmpl"
  by (simp add: tmpl_ok_def fin_tmpl_def templateFields_def progresses_def maxTemplateFields_def)

theorem st_add_refines_witness:
  "store_abs fin_ts (snd (st_add fin_ts 10 7 256 fin_tmpl False (NewSafeTemplates fin_ts 64))) (mk_key 10 7 256) = Some fin_tmpl"
proof -
  have "templateFields fin_tmpl = Inr (t_Fields fin_tmpl, False)" "length (t_Fields fin_tmpl) = 1" "progresses (t_Fields fin_tmpl)"
    by (simp_all add: fin_tmpl_def templateFields_def progresses_def)
  with st_add_refines [OF fin_ts_ok st_inv_New [OF fin_ts_ok], of 10 7 256 fin_tmpl False 64] show ?thesis
    using store_dom(2) [OF st_inv_New [OF fin_ts_ok], of 64]
    by (simp add: spec_add_def maxTemplateFields_def NewSafeTemplates_def)
qed

end
