(* ===== verification/Template_Blob.thy ===== *)
theory Template_Blob
  imports Template_Store
begin

text \<open>
  The persisted form of templates (\<open>decode/templates.go\<close>): the blob codec, the
  conversions between stored templates and database records, \<open>Export\<close> and \<open>Import\<close>.
  The codec is shown to be a bijection between the field lists it accepts and the
  blobs it accepts, and never to read out of range.
\<close>

definition KindData :: int where "KindData = 0"
definition KindOptions :: int where "KindOptions = 1"

record TemplateRecord =
  tr_Version :: u16
  tr_ObsDomain :: u32
  tr_ID :: u16
  tr_Kind :: int
  tr_Fields :: bytes

definition tr_Key :: "TemplateRecord \<Rightarrow> TemplateKey" where
  "tr_Key r = \<lparr>k_Version = tr_Version r, k_ObsDomain = tr_ObsDomain r, k_ID = tr_ID r\<rparr>"

definition encode_field :: "nf_field \<Rightarrow> bytes" where
  "encode_field f = put_be16 (if fd_PenProvided f then fd_Type f OR 0x8000 else fd_Type f)
     @ put_be16 (fd_Length f) @ put_be32 (fd_Pen f)"

definition encodeTemplateBlob :: "nf_field list \<Rightarrow> nf_field list \<Rightarrow> bytes" where
  "encodeTemplateBlob scopes opts =
    put_be16 (word_of_nat (length scopes)) @ concat (map encode_field scopes) @ concat (map encode_field opts)"

definition blob_field :: "bytes \<Rightarrow> nat \<Rightarrow> nf_field option" where
  "blob_field b i = do {
     p \<leftarrow> slice_from b (2 + 8 * i);
     t \<leftarrow> rd16 p 0;
     l \<leftarrow> rd16 p 2;
     pen \<leftarrow> rd32 p 4;
     Some \<lparr>fd_PenProvided = (t AND 0x8000 \<noteq> 0), fd_Type = t AND NOT 0x8000, fd_Length = l, fd_Pen = pen\<rparr> }"

definition decodeTemplateBlob :: "bytes \<Rightarrow> (derror + nf_field list \<times> nf_field list) option" where
  "decodeTemplateBlob b =
    (if length b < 2 \<or> (length b - 2) mod 8 \<noteq> 0 then Some (Inl ErrBadTemplateBlob) else do {
       let n = (length b - 2) div 8;
       sc \<leftarrow> rd16 b 0;
       if n > maxTemplateFields \<or> unat sc > n then Some (Inl ErrBadTemplateBlob) else do {
         flds \<leftarrow> those (map (blob_field b) [0..<n]);
         Some (Inr (take (unat sc) flds, drop (unat sc) flds)) } })"

definition templateToRecord :: "TemplateKey \<Rightarrow> tmpl \<Rightarrow> TemplateRecord option" where
  "templateToRecord k t =
    (let r = \<lparr>tr_Version = k_Version k, tr_ObsDomain = k_ObsDomain k, tr_ID = k_ID k, tr_Kind = 0, tr_Fields = []\<rparr>
     in case t of
       NFTemplate _ _ fs \<Rightarrow> Some (r\<lparr>tr_Kind := KindData, tr_Fields := encodeTemplateBlob [] fs\<rparr>)
     | IPFIXOptionsTemplate _ _ _ opts scopes \<Rightarrow>
         Some (r\<lparr>tr_Kind := KindOptions, tr_Fields := encodeTemplateBlob scopes opts\<rparr>)
     | NFv9OptionsTemplate _ _ _ scopes opts \<Rightarrow>
         Some (r\<lparr>tr_Kind := KindOptions, tr_Fields := encodeTemplateBlob scopes opts\<rparr>)
     | OtherTemplate \<Rightarrow> None)"

definition recordToTemplate :: "TemplateRecord \<Rightarrow> (derror + tmpl) option" where
  "recordToTemplate r = do {
     d \<leftarrow> decodeTemplateBlob (tr_Fields r);
     case d of
       Inl e \<Rightarrow> Some (Inl e)
     | Inr (scopes, opts) \<Rightarrow>
        (let n = length scopes + length opts in
         Some (if n = 0 then Inl ErrBadTemplateBlob
           else if tr_Kind r = KindData \<and> length scopes = 0
             then Inr (NFTemplate (tr_ID r) (word_of_nat n) opts)
           else if tr_Kind r = KindOptions \<and> tr_Version r = 10
             then Inr (IPFIXOptionsTemplate (tr_ID r) (word_of_nat n) (word_of_nat (length scopes)) opts scopes)
           else if tr_Kind r = KindOptions \<and> tr_Version r = 9
             then Inr (NFv9OptionsTemplate (tr_ID r) (word_of_nat (4 * length scopes)) (word_of_nat (4 * length opts)) scopes opts)
           else Inl ErrBadTemplateBlob)) }"

definition ExportTemplate :: "'s template_system \<Rightarrow> 's SafeTemplates \<Rightarrow> TemplateKey \<Rightarrow> TemplateRecord option" where
  "ExportTemplate ts s k = (case ts_Get ts (k_Version k) (k_ObsDomain k) (k_ID k) (s_inner s) of
      None \<Rightarrow> None | Some t \<Rightarrow> templateToRecord k t)"

definition ImportTemplate :: "'s template_system \<Rightarrow> TemplateRecord \<Rightarrow> 's SafeTemplates \<Rightarrow>
    (derror option \<times> 's SafeTemplates) option" where
  "ImportTemplate ts r s =
    (if tr_Version r \<noteq> 9 \<and> tr_Version r \<noteq> 10 then Some (Some ErrBadTemplateBlob, s) else do {
       t \<leftarrow> recordToTemplate r;
       Some (case t of Inl e \<Rightarrow> (Some e, s)
         | Inr t \<Rightarrow> st_add ts (tr_Version r) (tr_ObsDomain r) (tr_ID r) t True s) })"

subsection \<open>The codec\<close>

lemma safe_those [safe_intros]:
  "(\<And>x. x \<in> set xs \<Longrightarrow> safe (f x) (\<lambda>_. True)) \<Longrightarrow>
    (\<And>ys. length ys = length xs \<Longrightarrow> Q ys) \<Longrightarrow> safe (those (map f xs)) Q"
proof (induction xs arbitrary: Q)
  case (Cons x xs)
  have "safe (those (map f xs)) (\<lambda>ys. length ys = length xs)"
    by (rule Cons.IH) (use Cons.prems in auto)
  moreover have "safe (f x) (\<lambda>_. True)" using Cons.prems(1) by simp
  ultimately show ?case using Cons.prems(2) by (auto simp: safe_def)
qed (simp add: safe_def)

lemma blob_field_safe [safe_intros]:
  "2 + 8 * i + 8 \<le> length b \<Longrightarrow> (\<And>f. Q f) \<Longrightarrow> safe (blob_field b i) Q"
  unfolding blob_field_def by (intro safe_intros) auto

theorem decodeTemplateBlob_safe [safe_intros]:
  "(\<And>e. Q (Inl e)) \<Longrightarrow> (\<And>s opts. length s + length opts \<le> maxTemplateFields \<Longrightarrow> Q (Inr (s, opts))) \<Longrightarrow>
    safe (decodeTemplateBlob b) Q"
  unfolding decodeTemplateBlob_def by (intro safe_intros) auto

text \<open>
  Bit 15 of the stored type carries the enterprise flag. An IPFIX field type has the bit clear; a NetFlow v9 exporter may
  announce a type that uses it, and such a field is read back as an enterprise field.
\<close>

definition field_ok :: "nf_field \<Rightarrow> bool" where
  "field_ok f \<longleftrightarrow> fd_Type f AND 0x8000 = 0"

definition stored_field :: "nf_field \<Rightarrow> nf_field" where
  "stored_field f = f\<lparr>fd_PenProvided := (fd_PenProvided f \<or> fd_Type f AND 0x8000 \<noteq> 0), fd_Type := fd_Type f AND NOT 0x8000\<rparr>"

lemma single_bit:
  fixes t c :: "'a::len word"
  assumes m: "\<And>n. bit c n \<longleftrightarrow> n = k" and k: "k < LENGTH('a)"
  shows "t AND c = 0 \<longleftrightarrow> \<not> bit t k" and "bit (t OR c) k" and "\<not> bit (t AND NOT c) k"
    and "\<not> bit t k \<Longrightarrow> (t OR c) AND NOT c = t" and "\<not> bit t k \<Longrightarrow> t AND NOT c = t"
    and "bit t k \<Longrightarrow> (t AND NOT c) OR c = t"
proof -
  show "t AND c = 0 \<longleftrightarrow> \<not> bit t k"
  proof
    assume "t AND c = 0"
    then have "\<not> bit (t AND c) k" by simp
    then show "\<not> bit t k" by (simp add: bit_and_iff m)
  next
    assume "\<not> bit t k"
    then show "t AND c = 0" by (intro bit_word_eqI) (auto simp: bit_and_iff m)
  qed
qed (auto simp: bit_simps m k intro!: bit_word_eqI)

lemma bit15:
  fixes t :: u16
  shows "t AND 0x8000 = 0 \<Longrightarrow> (t OR 0x8000) AND 0x8000 \<noteq> 0"
    and "t AND 0x8000 = 0 \<Longrightarrow> (t OR 0x8000) AND NOT 0x8000 = t"
    and "t AND 0x8000 = 0 \<Longrightarrow> t AND NOT 0x8000 = t"
    and "t AND 0x8000 \<noteq> 0 \<Longrightarrow> (t AND NOT 0x8000) OR 0x8000 = t"
    and "(t AND NOT 0x8000) AND 0x8000 = 0"
    and "(t OR 0x8000) AND 0x8000 \<noteq> 0" and "(t OR 0x8000) AND NOT 0x8000 = t AND NOT 0x8000"
    and "t AND NOT 0x8000 = t \<longleftrightarrow> t AND 0x8000 = 0"
proof -
  have m: "bit (0x8000 :: u16) n \<longleftrightarrow> n = 15" for n
    using bit_exp_iff [where ?'a = u16, of 15 n] by (auto dest: bit_imp_le_length)
  have k: "15 < LENGTH(16)" by simp
  note sb = single_bit [OF m k]
  show "t AND 0x8000 = 0 \<Longrightarrow> (t OR 0x8000) AND 0x8000 \<noteq> 0" unfolding sb(1) using sb(2) by blast
  show "t AND 0x8000 = 0 \<Longrightarrow> (t OR 0x8000) AND NOT 0x8000 = t" unfolding sb(1) by (rule sb(4))
  show "t AND 0x8000 = 0 \<Longrightarrow> t AND NOT 0x8000 = t" unfolding sb(1) by (rule sb(5))
  show "t AND 0x8000 \<noteq> 0 \<Longrightarrow> (t AND NOT 0x8000) OR 0x8000 = t" unfolding sb(1) using sb(6) by blast
  show "(t AND NOT 0x8000) AND 0x8000 = 0" unfolding sb(1) using sb(3) by blast
  show "(t OR 0x8000) AND 0x8000 \<noteq> 0" unfolding sb(1) using sb(2) by blast
  show "(t OR 0x8000) AND NOT 0x8000 = t AND NOT 0x8000" by (rule bit_word_eqI) (auto simp: bit_simps m)
  show "t AND NOT 0x8000 = t \<longleftrightarrow> t AND 0x8000 = 0" using sb(3,5) [of t] unfolding sb(1) by metis
qed

lemma stored_field_id: "stored_field f = f \<longleftrightarrow> field_ok f"
  using bit15(8) [of "fd_Type f"] by (cases f) (auto simp: stored_field_def field_ok_def)

lemma stored_field_Length [simp]: "fd_Length (stored_field f) = fd_Length f"
  by (simp add: stored_field_def)

lemma length_encode_field [simp]: "length (encode_field f) = 8"
  by (simp add: encode_field_def)

lemma length_encode_fields [simp]: "length (concat (map encode_field fs)) = 8 * length fs"
  by (induction fs) simp_all

lemma rd16_put: "rd16 (put_be16 v @ rest) 0 = Some v"
  by (simp add: rd16_def)

lemma rd32_put: "rd32 (put_be32 v @ rest) 0 = Some v"
  by (simp add: rd32_def)

lemma rd16_skip: "rd16 (pre @ b) (length pre + i) = rd16 b i"
  by (simp add: rd16_def add.assoc)

lemma rd32_skip: "rd32 (pre @ b) (length pre + i) = rd32 b i"
  by (simp add: rd32_def add.assoc)

lemma blob_field_encode:
  assumes "length pre = 2 + 8 * i"
  shows "blob_field (pre @ encode_field f @ rest) i = Some (stored_field f)"
proof -
  define t where "t = (if fd_PenProvided f then fd_Type f OR 0x8000 else fd_Type f)"
  let ?p = "put_be16 t @ put_be16 (fd_Length f) @ put_be32 (fd_Pen f) @ rest"
  have "slice_from (pre @ encode_field f @ rest) (2 + 8 * i) = Some ?p"
    using assms by (simp add: encode_field_def t_def)
  moreover have "rd16 ?p 0 = Some t" by (rule rd16_put)
  moreover have "rd16 ?p 2 = Some (fd_Length f)"
    using rd16_skip [of "put_be16 t" _ 0] rd16_put by simp
  moreover have "rd32 ?p 4 = Some (fd_Pen f)"
    using rd32_skip [of "put_be16 t @ put_be16 (fd_Length f)" _ 0] rd32_put by simp
  moreover have "\<lparr>fd_PenProvided = (t AND 0x8000 \<noteq> 0), fd_Type = t AND NOT 0x8000,
      fd_Length = fd_Length f, fd_Pen = fd_Pen f\<rparr> = stored_field f"
    using bit15(6,7) [of "fd_Type f"] by (cases f) (auto simp: t_def stored_field_def)
  ultimately show ?thesis
    unfolding blob_field_def by (simp only: Option.bind.bind_lunit)
qed

lemma nth_concat_encode:
  "i < length fs \<Longrightarrow> \<exists>pre rest. concat (map encode_field fs) = pre @ encode_field (fs ! i) @ rest \<and> length pre = 8 * i"
proof (induction fs arbitrary: i)
  case (Cons f fs)
  show ?case
  proof (cases i)
    case (Suc j)
    then have "j < length fs" using Cons.prems by simp
    from Cons.IH [OF this] obtain pre rest where
      "concat (map encode_field fs) = pre @ encode_field (fs ! j) @ rest" "length pre = 8 * j" by blast
    with Suc show ?thesis
      by (intro exI [where x = "encode_field f @ pre"] exI [where x = rest]) simp
  qed simp
qed simp

lemma those_map_Some: "(\<And>x. x \<in> set xs \<Longrightarrow> f x = Some (g x)) \<Longrightarrow> those (map f xs) = Some (map g xs)"
  by (induction xs) auto

theorem decode_encodeTemplateBlob:
  assumes "length scopes + length opts \<le> maxTemplateFields"
  shows "decodeTemplateBlob (encodeTemplateBlob scopes opts) = Some (Inr (map stored_field scopes, map stored_field opts))"
proof -
  let ?fs = "scopes @ opts"
  let ?hd = "put_be16 (word_of_nat (length scopes))"
  let ?b = "encodeTemplateBlob scopes opts"
  have b: "?b = ?hd @ concat (map encode_field ?fs)" by (simp add: encodeTemplateBlob_def)
  have n: "(length ?b - 2) div 8 = length ?fs" "2 \<le> length ?b" "(length ?b - 2) mod 8 = 0"
    by (simp_all add: b)
  have sc: "rd16 ?b 0 = Some (word_of_nat (length scopes))" unfolding b by (rule rd16_put)
  have un: "unat (word_of_nat (length scopes) :: u16) = length scopes"
    using assms by (simp add: unat_of_nat maxTemplateFields_def)
  have "blob_field ?b i = Some (stored_field (?fs ! i))" if i: "i < length ?fs" for i
  proof -
    obtain pre rest where pr: "concat (map encode_field ?fs) = pre @ encode_field (?fs ! i) @ rest" "length pre = 8 * i"
      using nth_concat_encode [OF i] by blast
    from blob_field_encode [of "?hd @ pre" i "?fs ! i" rest] show ?thesis using pr by (simp add: b)
  qed
  then have "those (map (blob_field ?b) [0..<length ?fs]) = Some (map (\<lambda>i. stored_field (?fs ! i)) [0..<length ?fs])"
    by (intro those_map_Some) simp
  moreover have "map (\<lambda>i. stored_field (?fs ! i)) [0..<length ?fs] = map stored_field ?fs"
    by (rule nth_equalityI) (auto simp: nth_append)
  ultimately have "those (map (blob_field ?b) [0..<length ?fs]) = Some (map stored_field ?fs)" by (simp only:)
  then show ?thesis
    using n sc un assms unfolding decodeTemplateBlob_def
    by (simp add: Let_def not_less take_map drop_map del: rd16_Some)
qed

lemma digits256:
  fixes a b c d :: nat
  assumes "b < 256" "c < 256" "d < 256"
  shows "(16777216 * a + 65536 * b + 256 * c + d) div 16777216 = a"
    and "(16777216 * a + 65536 * b + 256 * c + d) div 65536 = 256 * a + b"
    and "(16777216 * a + 65536 * b + 256 * c + d) div 256 = 65536 * a + 256 * b + c"
  by (rule div_nat_eqI; use assms in simp)+

lemma mod256: "(b :: nat) < 256 \<Longrightarrow> (256 * a + b) mod 256 = b"
  by simp

lemma put_be32_be32: "put_be32 (be32 x y z w) = [x, y, z, w]"
proof -
  note less = unat_byte_less [of x] unat_byte_less [of y] unat_byte_less [of z] unat_byte_less [of w]
  have "unat (ucast (drop_bit 24 (be32 x y z w)) :: byte) = unat x"
    "unat (ucast (drop_bit 16 (be32 x y z w)) :: byte) = unat y"
    "unat (ucast (drop_bit 8 (be32 x y z w)) :: byte) = unat z"
    "unat (ucast (be32 x y z w) :: byte) = unat w"
    using digits256 [OF less(2-4), of "unat x"] less
      mod256 [of "unat z" "256 * unat x + unat y"] mod256 [of "unat w" "65536 * unat x + 256 * unat y + unat z"]
    by (simp_all add: unat_ucast_byte unat_drop_bit unat_be32)
  then show ?thesis by (simp add: put_be32_def word_unat_eq_iff)
qed

lemma take_nths: "n \<le> length q \<Longrightarrow> take n q = map ((!) q) [0..<n]"
  by (rule nth_equalityI) auto

lemma encode_blob_field:
  assumes "blob_field b i = Some f" and len: "2 + 8 * i + 8 \<le> length b"
  shows "encode_field f = take 8 (drop (2 + 8 * i) b) \<and> field_ok f"
proof -
  define q where "q = drop (2 + 8 * i) b"
  have lq: "8 \<le> length q" using len by (simp add: q_def)
  have sl: "slice_from b (2 + 8 * i) = Some q" using len by (simp add: q_def)
  have f: "f = \<lparr>fd_PenProvided = (u16_at q 0 AND 0x8000 \<noteq> 0), fd_Type = u16_at q 0 AND NOT 0x8000,
      fd_Length = u16_at q 2, fd_Pen = u32_at q 4\<rparr>"
    using assms(1) lq unfolding blob_field_def sl by simp
  have t: "(if u16_at q 0 AND 0x8000 \<noteq> 0 then (u16_at q 0 AND NOT 0x8000) OR 0x8000
      else u16_at q 0 AND NOT 0x8000) = u16_at q 0"
    using bit15 by metis
  have "encode_field f = put_be16 (u16_at q 0) @ put_be16 (u16_at q 2) @ put_be32 (u32_at q 4)"
    unfolding encode_field_def f nf_field.simps t by (rule refl)
  also have "\<dots> = take 8 q"
    unfolding u16_at_def u32_at_def put_be16_be16 put_be32_be32 take_nths [OF lq]
    by (simp add: upt_rec eval_nat_numeral)
  finally show ?thesis using bit15(5) unfolding q_def by (simp add: f field_ok_def)
qed

lemma those_map_nth:
  "those (map f xs) = Some ys \<Longrightarrow> length ys = length xs \<and> (\<forall>i<length xs. f (xs ! i) = Some (ys ! i))"
proof (induction xs arbitrary: ys)
  case (Cons x xs)
  then obtain y ys' where "f x = Some y" "those (map f xs) = Some ys'" "ys = y # ys'"
    by (auto split: option.splits)
  with Cons.IH [of ys'] show ?case by (auto simp: nth_Cons split: nat.splits)
qed simp

lemma concat_chunks:
  "length b = 8 * n \<Longrightarrow> concat (map (\<lambda>i. take 8 (drop (8 * i) b)) [0..<n]) = b"
proof (induction n arbitrary: b)
  case (Suc n)
  have "concat (map (\<lambda>i. take 8 (drop (8 * i) (take (8 * n) b))) [0..<n]) = take (8 * n) b"
    by (rule Suc.IH) (use Suc.prems in simp)
  moreover have "take 8 (drop (8 * i) (take (8 * n) b)) = take 8 (drop (8 * i) b)" if "i < n" for i
    using that by (simp add: drop_take min_def)
  ultimately have "concat (map (\<lambda>i. take 8 (drop (8 * i) b)) [0..<n]) = take (8 * n) b"
    by (metis (mono_tags, lifting) atLeastLessThan_iff map_cong set_upt)
  with Suc.prems show ?case by (simp add: append_take_drop_id)
qed simp

text \<open>
  A template blob that decodes is the encoding of what it decodes to, so distinct
  stored blobs are distinct templates and re-encoding a loaded template gives back the row.
\<close>

theorem encode_decodeTemplateBlob:
  assumes "decodeTemplateBlob b = Some (Inr (scopes, opts))"
  shows "encodeTemplateBlob scopes opts = b \<and> list_all field_ok (scopes @ opts)"
proof -
  define n where "n = (length b - 2) div 8"
  define sc where "sc = u16_at b 0"
  have len: "2 \<le> length b" "(length b - 2) mod 8 = 0"
    using assms by (auto simp: decodeTemplateBlob_def split: if_splits)
  then have lb: "length b = 2 + 8 * n" unfolding n_def by presburger
  obtain flds where flds: "those (map (blob_field b) [0..<n]) = Some flds"
    and sc_le: "unat sc \<le> n" and so: "scopes = take (unat sc) flds" "opts = drop (unat sc) flds"
    using assms len
    by (auto simp: decodeTemplateBlob_def n_def [symmetric] sc_def Let_def not_less bind_eq_Some_conv split: if_splits)
  have nth: "length flds = n" "\<And>i. i < n \<Longrightarrow> blob_field b i = Some (flds ! i)"
    using those_map_nth [OF flds] by auto
  have enc: "encode_field (flds ! i) = take 8 (drop (8 * i) (drop 2 b))" "field_ok (flds ! i)" if "i < n" for i
    using encode_blob_field [OF nth(2) [OF that]] that lb by (auto simp: add.commute)
  have "map encode_field flds = map (\<lambda>i. take 8 (drop (8 * i) (drop 2 b))) [0..<n]"
    by (rule nth_equalityI) (use nth(1) enc in auto)
  then have body: "concat (map encode_field flds) = drop 2 b"
    using concat_chunks [of "drop 2 b" n] lb by simp
  have all: "list_all field_ok flds" using enc(2) nth(1) by (simp add: list_all_length)
  have b2: "take 2 b = [b ! 0, b ! 1]" using take_nths [OF len(1)] by (simp add: upt_rec)
  have "word_of_nat (length scopes) = sc" using so sc_le nth(1) by (simp add: min_def)
  then have "encodeTemplateBlob scopes opts = put_be16 sc @ concat (map encode_field flds)"
    using so by (simp add: encodeTemplateBlob_def flip: concat_append map_append)
  also have "\<dots> = take 2 b @ drop 2 b" unfolding sc_def u16_at_def body b2 by (simp add: put_be16_be16)
  finally show ?thesis using all so by (simp add: list_all_append flip: list_all_append)
qed

theorem encode_decodeTemplateBlob_witness:
  "encodeTemplateBlob [] [\<lparr>fd_PenProvided = False, fd_Type = 8, fd_Length = 4, fd_Pen = 0\<rparr>] = [0, 0, 0, 8, 0, 4, 0, 0, 0, 0]"
proof -
  have "decodeTemplateBlob [0, 0, 0, 8, 0, 4, 0, 0, 0, 0]
    = Some (Inr ([], [\<lparr>fd_PenProvided = False, fd_Type = 8, fd_Length = 4, fd_Pen = 0\<rparr>]))"
    by (simp add: decodeTemplateBlob_def blob_field_def slice_from_def rd16_def rd32_def u16_at_def u32_at_def be16_def
      be32_def maxTemplateFields_def)
  from encode_decodeTemplateBlob [OF this] show ?thesis by simp
qed

subsection \<open>Records\<close>

text \<open>
  The templates goflow2 builds from a well-formed announcement under key \<open>k\<close>: counts
  that match their lists, an id that matches the key, and the options type of the
  key's protocol version.
\<close>

definition tmpl_consistent :: "TemplateKey \<Rightarrow> tmpl \<Rightarrow> bool" where
  "tmpl_consistent k t \<longleftrightarrow> (case t of
      NFTemplate i fc fs \<Rightarrow> i = k_ID k \<and> fc = word_of_nat (length fs)
    | IPFIXOptionsTemplate i fc sc opts scopes \<Rightarrow> i = k_ID k \<and> k_Version k = 10 \<and>
        fc = word_of_nat (length scopes + length opts) \<and> sc = word_of_nat (length scopes)
    | NFv9OptionsTemplate i sl ol scopes opts \<Rightarrow> i = k_ID k \<and> k_Version k = 9 \<and>
        sl = word_of_nat (4 * length scopes) \<and> ol = word_of_nat (4 * length opts)
    | OtherTemplate \<Rightarrow> False)"

fun tmpl_fields :: "tmpl \<Rightarrow> nf_field list" where
  "tmpl_fields (NFTemplate i fc fs) = fs"
| "tmpl_fields (IPFIXOptionsTemplate i fc sc opts scopes) = scopes @ opts"
| "tmpl_fields (NFv9OptionsTemplate i sl ol scopes opts) = scopes @ opts"
| "tmpl_fields OtherTemplate = []"

fun stored_tmpl :: "tmpl \<Rightarrow> tmpl" where
  "stored_tmpl (NFTemplate i fc fs) = NFTemplate i fc (map stored_field fs)"
| "stored_tmpl (IPFIXOptionsTemplate i fc sc opts scopes) = IPFIXOptionsTemplate i fc sc (map stored_field opts) (map stored_field scopes)"
| "stored_tmpl (NFv9OptionsTemplate i sl ol scopes opts) = NFv9OptionsTemplate i sl ol (map stored_field scopes) (map stored_field opts)"
| "stored_tmpl OtherTemplate = OtherTemplate"

lemma map_stored_id: "map stored_field fs = fs \<longleftrightarrow> list_all field_ok fs"
  by (induction fs) (simp_all add: stored_field_id)

lemma stored_tmpl_id: "stored_tmpl t = t \<longleftrightarrow> list_all field_ok (tmpl_fields t)"
  by (cases t) (auto simp: map_stored_id)

lemma stored_fields:
  "tmpl_fields (stored_tmpl t) = map (\<lambda>f. if fd_Type f AND 0x8000 = 0 then f else f\<lparr>fd_PenProvided := True, fd_Type := fd_Type f AND NOT 0x8000\<rparr>) (tmpl_fields t)"
proof -
  have "stored_field f = (if fd_Type f AND 0x8000 = 0 then f else f\<lparr>fd_PenProvided := True, fd_Type := fd_Type f AND NOT 0x8000\<rparr>)" for f
    using stored_field_id [of f] by (auto simp: field_ok_def) (auto simp: stored_field_def)
  then have "stored_field = (\<lambda>f. if fd_Type f AND 0x8000 = 0 then f else f\<lparr>fd_PenProvided := True, fd_Type := fd_Type f AND NOT 0x8000\<rparr>)" by (rule ext)
  then show ?thesis by (cases t) simp_all
qed

lemma stored_tmpl_ok: "tmpl_ok t \<Longrightarrow> tmpl_ok (stored_tmpl t)"
  by (cases t) (auto simp: tmpl_ok_def templateFields_def progresses_def list_ex_iff split: if_splits)

theorem record_roundtrip:
  assumes "tmpl_ok t" and "tmpl_consistent k t"
  shows "\<exists>r. templateToRecord k t = Some r \<and> tr_Key r = k \<and> recordToTemplate r = Some (Inr (stored_tmpl t))"
proof (cases t)
  case (NFTemplate i fc fs)
  then have "length [] + length fs \<le> maxTemplateFields" "fs \<noteq> []"
    using assms by (auto simp: tmpl_ok_def templateFields_def progresses_def split: if_splits)
  from decode_encodeTemplateBlob [OF this(1)] this(2) show ?thesis
    using NFTemplate assms
    by (simp add: templateToRecord_def recordToTemplate_def tr_Key_def tmpl_consistent_def KindData_def Let_def)
next
  case (IPFIXOptionsTemplate i fc sc opts scopes)
  then have "length scopes + length opts \<le> maxTemplateFields" "scopes @ opts \<noteq> []"
    using assms by (auto simp: tmpl_ok_def templateFields_def progresses_def split: if_splits)
  from decode_encodeTemplateBlob [OF this(1)] this(2) show ?thesis
    using IPFIXOptionsTemplate assms
    by (auto simp: templateToRecord_def recordToTemplate_def tr_Key_def tmpl_consistent_def KindData_def KindOptions_def Let_def)
next
  case (NFv9OptionsTemplate i sl ol scopes opts)
  then have "length scopes + length opts \<le> maxTemplateFields" "scopes @ opts \<noteq> []"
    using assms by (auto simp: tmpl_ok_def templateFields_def progresses_def split: if_splits)
  from decode_encodeTemplateBlob [OF this(1)] this(2) show ?thesis
    using NFv9OptionsTemplate assms
    by (auto simp: templateToRecord_def recordToTemplate_def tr_Key_def tmpl_consistent_def KindData_def KindOptions_def Let_def)
next
  case OtherTemplate
  with assms show ?thesis by (simp add: tmpl_consistent_def)
qed


lemma recordToTemplate_safe [safe_intros]:
  "(\<And>r. Q r) \<Longrightarrow> safe (recordToTemplate r) Q"
  unfolding recordToTemplate_def by (intro safe_intros) auto

lemma ImportTemplate_safe [safe_intros]:
  assumes "template_system_ok ts" and "st_inv ts s"
    and "\<And>e s'. st_inv ts s' \<Longrightarrow> s_max s' = s_max s \<Longrightarrow> Q (e, s')"
  shows "safe (ImportTemplate ts r s) Q"
proof -
  have mx: "s_max (snd (st_add ts v ob i t p s)) = s_max s" for v ob i t p
    by (auto simp: st_add_def Let_def split: sum.splits prod.splits)
  have q: "Q (st_add ts v ob i t p s)" for v ob i t p
    using assms(3) [OF st_inv_add [OF assms(1,2)] mx] by (metis prod.collapse)
  show ?thesis
    unfolding ImportTemplate_def using assms q
    by (intro safe_intros) (auto split: sum.splits)
qed


text \<open>The bit is lost: a NetFlow v9 template with a field of type 0x8001 is read back as another template.\<close>

theorem v9_type_bit_lost:
  "\<exists>r. templateToRecord (mk_key 9 7 256) (NFTemplate 256 1 [\<lparr>fd_PenProvided = False, fd_Type = 0x8001, fd_Length = 4, fd_Pen = 0\<rparr>]) = Some r
     \<and> recordToTemplate r = Some (Inr (NFTemplate 256 1 [\<lparr>fd_PenProvided = True, fd_Type = 1, fd_Length = 4, fd_Pen = 0\<rparr>]))"
  (is "\<exists>r. templateToRecord ?k ?t = _ \<and> _")
proof -
  have "tmpl_ok ?t" by (simp add: tmpl_ok_def templateFields_def progresses_def maxTemplateFields_def)
  moreover have "tmpl_consistent ?k ?t" by (simp add: tmpl_consistent_def mk_key_def)
  ultimately obtain r where "templateToRecord ?k ?t = Some r" "recordToTemplate r = Some (Inr (stored_tmpl ?t))" using record_roundtrip by blast
  then show ?thesis by (simp add: stored_field_def)
qed

end
