(* ===== verification/Prechecks.thy ===== *)
theory Prechecks
  imports Template_Blob
begin

text \<open>
  The datagram prechecks of \<open>decode/guard.go\<close>: \<open>PrecheckV5\<close>, \<open>PrecheckSFlow\<close>,
  \<open>precheckTemplated\<close> with \<open>walkTemplateSet\<close>, and \<open>normalizeV9\<close>. They read attacker
  controlled bytes, so every read is bounds-checked: the outer \<open>None\<close> is a panic, and
  \<open>Some None\<close> / \<open>Some (Some e)\<close> are the nil error and an error.
\<close>

subsection \<open>NetFlow v5\<close>

definition PrecheckV5 :: "bytes \<Rightarrow> derror option option" where
  "PrecheckV5 b = (if length b < 24 then Some (Some ErrShort) else do {
     w \<leftarrow> rd16 b 2;
     let n = unat w;
     if n = 0 \<or> n > 30 \<or> length b < 24 + 48 * n then Some (Some ErrBadV5) else Some None })"

subsection \<open>sFlow\<close>

text \<open>The closure \<open>u32\<close>: \<open>None\<close> inside when fewer than four bytes are left.\<close>

definition sf_u32 :: "bytes \<Rightarrow> nat \<Rightarrow> (u32 \<times> nat) option option" where
  "sf_u32 b off = (if length b < off + 4 then Some None else do { v \<leftarrow> rd32 b off; Some (Some (v, off + 4)) })"

fun sf_samples :: "nat \<Rightarrow> bytes \<Rightarrow> nat \<Rightarrow> derror option option" where
  "sf_samples 0 b off = Some None"
| "sf_samples (Suc i) b off =
    (if length b < off + 8 then Some None else do {
       format \<leftarrow> rd32 b off;
       len \<leftarrow> rd32 b (off + 4);
       let off = off + 8;
       if unat len > length b - off then Some None else do {
         body \<leftarrow> slice b off (off + unat len);
         let off = off + unat len;
         c \<leftarrow> (if format = 3 \<and> length body \<ge> 44 then do { v \<leftarrow> rd32 body 40; Some (v > 1000) } else Some False);
         if c then Some (Some ErrSFlowRecordCount) else sf_samples i b off } })"

definition PrecheckSFlow :: "bytes \<Rightarrow> derror option option" where
  "PrecheckSFlow b = do {
     v \<leftarrow> sf_u32 b 0;
     case v of None \<Rightarrow> Some (Some (Rejectf NotSFlowV5)) | Some (v, off) \<Rightarrow>
     if v \<noteq> 5 then Some (Some (Rejectf NotSFlowV5)) else do {
       ipv \<leftarrow> sf_u32 b off;
       case ipv of None \<Rightarrow> Some (Some ErrShort) | Some (ipv, off) \<Rightarrow>
       if ipv \<noteq> 1 \<and> ipv \<noteq> 2 then Some (Some (Rejectf (AgentIPVersion ipv))) else do {
         let off = off + (if ipv = 1 then 4 else 16) + 12;
         n \<leftarrow> sf_u32 b off;
         case n of None \<Rightarrow> Some (Some ErrShort) | Some (n, off) \<Rightarrow>
         if n > 1000 then Some (Some (Rejectf (SampleCount n))) else sf_samples (unat n) b off } } }"

subsection \<open>Template sets\<close>

text \<open>The loop over the fields of one template record; \<open>Some None\<close> is a \<open>return nil\<close> inside it.\<close>

fun wts_fields :: "nat \<Rightarrow> u16 \<Rightarrow> bytes \<Rightarrow> nat \<Rightarrow> bool \<Rightarrow> (bytes \<times> nat \<times> bool) option option" where
  "wts_fields 0 version body minRec degenerate = Some (Some (body, minRec, degenerate))"
| "wts_fields (Suc i) version body minRec degenerate =
    (if length body < 4 then Some None else do {
       typ \<leftarrow> rd16 body 0;
       flen \<leftarrow> rd16 body 2;
       body \<leftarrow> slice_from body 4;
       r \<leftarrow> (if version = 10 \<and> typ AND 0x8000 \<noteq> 0 then
               (if length body < 4 then Some None else do { body \<leftarrow> slice_from body 4; Some (Some body) })
             else Some (Some body));
       case r of None \<Rightarrow> Some None | Some body \<Rightarrow>
         if flen = 0 then wts_fields i version body minRec True
         else if flen = 0xffff then wts_fields i version body (minRec + 1) degenerate
         else wts_fields i version body (minRec + unat flen) degenerate })"

text \<open>The announced counts: \<open>(cnt, scopes, hdr)\<close>, or \<open>Some None\<close> for a truncated options header.\<close>

definition wts_header :: "u16 \<Rightarrow> bool \<Rightarrow> bytes \<Rightarrow> (nat \<times> nat \<times> nat) option option" where
  "wts_header version options body = do {
     c \<leftarrow> rd16 body 2;
     if options then
       (if length body < 6 then Some None else do {
          w \<leftarrow> rd16 body 4;
          if version = 9 then
            (let scopes = unat c div 4 in Some (Some (scopes + unat w div 4, scopes, 6)))
          else Some (Some (unat c, unat w, 6)) })
     else Some (Some (unat c, 0, 4)) }"

lemma wts_fields_safe [safe_intros]:
  "Q None \<Longrightarrow> (\<And>body' m' d'. length body' \<le> length body \<Longrightarrow> Q (Some (body', m', d'))) \<Longrightarrow>
    safe (wts_fields i v body m d) Q"
proof (induction i arbitrary: body m d)
  case (Suc i)
  show ?case
    unfolding wts_fields.simps
    by (intro safe_intros Suc.IH) (use Suc.prems in auto)
qed (simp add: safe_def)

lemma wts_fields_length:
  "wts_fields i v body m d = Some (Some (body', m', d')) \<Longrightarrow> length body' \<le> length body"
  using safeD [OF wts_fields_safe [where Q = "\<lambda>r. \<forall>b m d. r = Some (b, m, d) \<longrightarrow> length b \<le> length body"]]
  by blast

lemma wts_header_hdr: "wts_header v opts body = Some (Some (c, s, h)) \<Longrightarrow> 4 \<le> h \<and> h \<le> 6"
  by (auto simp: wts_header_def bind_eq_Some_conv Let_def split: if_splits)

type_synonym local_map = "(u16, nat) gomap"

function walkTemplateSet :: "bytes \<Rightarrow> u16 \<Rightarrow> bool \<Rightarrow> local_map \<Rightarrow> (derror option \<times> local_map) option" where
  "walkTemplateSet body version options loc =
    (if length body < 4 then Some (None, loc) else do {
       tid \<leftarrow> rd16 body 0;
       h \<leftarrow> wts_header version options body;
       case h of None \<Rightarrow> Some (None, loc) | Some (cnt, scopes, hdr) \<Rightarrow>
       if cnt > maxTemplateFields \<or> scopes > maxTemplateFields
       then Some (Some (Rejectf (FieldCount tid (max cnt scopes))), loc)
       else do {
         body1 \<leftarrow> slice_from body hdr;
         r \<leftarrow> wts_fields cnt version body1 0 (cnt = 0);
         case r of None \<Rightarrow> Some (None, loc) | Some (body2, minRec, degenerate) \<Rightarrow>
           walkTemplateSet body2 version options
             (if degenerate then gm_del tid loc else gm_put tid minRec loc) } })"
  by pat_completeness auto
termination
proof (relation "measure (\<lambda>(body, _, _, _). length body)", goal_cases)
  case (2 body version options loc tid h p cnt q scopes hdr body1 r s body2 t minRec degenerate)
  then have "length body2 \<le> length body1" "4 \<le> hdr" "length body1 = length body - hdr" "hdr \<le> length body"
    by (auto dest!: wts_fields_length wts_header_hdr simp: slice_from_def split: if_splits)
  with 2 show ?case by auto
qed simp

declare walkTemplateSet.simps [simp del]

subsection \<open>NetFlow v9 and IPFIX datagrams\<close>

text \<open>
  The loop over the sets of a datagram. \<open>look\<close> is the minimum record length of a stored
  template (\<open>e.Templates.minRecord\<close>).
\<close>

function pt_loop :: "(u16 \<Rightarrow> nat option) \<Rightarrow> u16 \<Rightarrow> u16 \<Rightarrow> u16 \<Rightarrow> bytes \<Rightarrow> nat \<Rightarrow> local_map \<Rightarrow> nat \<Rightarrow>
    derror option option" where
  "pt_loop look version tmplSet optSet pkt off loc records =
    (if length pkt < off + 4 then Some None else do {
       sid \<leftarrow> rd16 pkt off;
       lw \<leftarrow> rd16 pkt (off + 2);
       let l = unat lw;
       if l < 4 then Some None else do {
         let end' = min (off + l) (length pkt);
         body \<leftarrow> slice pkt (off + 4) end';
         if sid = tmplSet \<or> sid = optSet then do {
           (err, loc') \<leftarrow> walkTemplateSet body version (sid = optSet) loc;
           case err of Some e \<Rightarrow> Some (Some e)
             | None \<Rightarrow> pt_loop look version tmplSet optSet pkt end' loc' records }
         else if sid \<ge> 256 then
           (let n = (case gm_get loc sid of Some n \<Rightarrow> Some n | None \<Rightarrow> look sid);
                records' = (case n of Some n \<Rightarrow> if n > 0 then records + length body div n else records | None \<Rightarrow> records);
                counted = (case n of Some n \<Rightarrow> n > 0 | None \<Rightarrow> False)
            in if counted \<and> records' > maxRecordsPerDatagram then Some (Some (Rejectf (RecordCount records')))
               else pt_loop look version tmplSet optSet pkt end' loc records')
         else pt_loop look version tmplSet optSet pkt end' loc records } })"
  by pat_completeness auto
termination
  by (relation "measure (\<lambda>(_, _, _, _, pkt, off, _, _). length pkt - off)") auto

declare pt_loop.simps [simp del]

definition precheckTemplated :: "(u16 \<Rightarrow> nat option) \<Rightarrow> bytes \<Rightarrow> u16 \<Rightarrow> derror option option" where
  "precheckTemplated look pkt version =
    (if version = 9 then pt_loop look version 0 1 pkt 20 [] 0
     else pt_loop look version 2 3 pkt 16 [] 0)"

subsection \<open>Normalising v9\<close>

text \<open>The walk of \<open>normalizeV9\<close>: the end of the last complete flowset, their number, the error.\<close>

function v9_walk :: "bytes \<Rightarrow> nat \<Rightarrow> nat \<Rightarrow> (nat \<times> nat \<times> derror option) option" where
  "v9_walk pkt off n =
    (if length pkt < off + 4 then Some (off, n, None) else do {
       w \<leftarrow> rd16 pkt (off + 2);
       let l = unat w;
       if l < 4 \<or> l > length pkt - off then Some (off, n, Some ErrMalformedV9)
       else v9_walk pkt (off + l) (n + 1) })"
  by pat_completeness auto
termination
  by (relation "measure (\<lambda>(pkt, off, _). length pkt - off)") auto

declare v9_walk.simps [simp del]

definition normalizeV9 :: "bytes \<Rightarrow> (bytes \<times> derror option) option" where
  "normalizeV9 pkt = do {
     (off, n, err) \<leftarrow> v9_walk pkt 20 0;
     out \<leftarrow> slice pkt 0 off;
     if length out < 4 then None
     else Some (take 2 out @ put_be16 (word_of_nat (min n 0xffff)) @ drop 4 out, err) }"

subsection \<open>No precheck panics\<close>

lemma PrecheckV5_safe [safe_intros]: "(\<And>r. Q r) \<Longrightarrow> safe (PrecheckV5 b) Q"
  unfolding PrecheckV5_def by (intro safe_intros) auto

lemma sf_samples_safe [safe_intros]: "(\<And>r. Q r) \<Longrightarrow> safe (sf_samples n b off) Q"
proof (induction n arbitrary: off)
  case (Suc n)
  show ?case unfolding sf_samples.simps by (intro safe_intros Suc.IH Suc.prems) auto
qed (simp add: safe_def)

lemma sf_u32_safe [safe_intros]:
  "Q None \<Longrightarrow> (\<And>v. off + 4 \<le> length b \<Longrightarrow> Q (Some (v, off + 4))) \<Longrightarrow> safe (sf_u32 b off) Q"
  unfolding sf_u32_def by (intro safe_intros) auto

lemma PrecheckSFlow_safe [safe_intros]: "(\<And>r. Q r) \<Longrightarrow> safe (PrecheckSFlow b) Q"
  unfolding PrecheckSFlow_def by (intro safe_intros) auto

lemma wts_header_safe [safe_intros]:
  "4 \<le> length body \<Longrightarrow> Q None \<Longrightarrow> (\<And>c s h. 4 \<le> h \<Longrightarrow> h \<le> length body \<Longrightarrow> Q (Some (c, s, h))) \<Longrightarrow>
    safe (wts_header v opts body) Q"
  unfolding wts_header_def by (intro safe_intros) (auto simp: Let_def)

lemma walkTemplateSet_safe [safe_intros]:
  "(\<And>r. Q r) \<Longrightarrow> safe (walkTemplateSet body v opts loc) Q"
proof (induction "length body" arbitrary: body loc rule: less_induct)
  case less
  show ?case
    by (subst walkTemplateSet.simps) (intro safe_intros less; simp)
qed

lemma pt_loop_safe [safe_intros]:
  "(\<And>r. Q r) \<Longrightarrow> safe (pt_loop look v ts os pkt off loc n) Q"
proof (induction "length pkt - off" arbitrary: off loc n rule: less_induct)
  case less
  show ?case
    by (subst pt_loop.simps) (intro safe_intros less; auto simp: min_def)
qed

theorem precheckTemplated_safe [safe_intros]: "(\<And>r. Q r) \<Longrightarrow> safe (precheckTemplated look pkt v) Q"
  unfolding precheckTemplated_def by (intro safe_intros) auto

lemma v9_walk_safe [safe_intros]:
  "off \<le> length pkt \<Longrightarrow> (\<And>off' n' e. off \<le> off' \<Longrightarrow> off' \<le> length pkt \<Longrightarrow> Q (off', n', e)) \<Longrightarrow>
    safe (v9_walk pkt off n) Q"
proof (induction "length pkt - off" arbitrary: off n rule: less_induct)
  case less
  show ?case
    by (subst v9_walk.simps) (intro safe_intros less(1); use less(2,3) in \<open>auto\<close>)
qed

subsection \<open>What the prechecks accept\<close>

text \<open>
  \<open>PrecheckV5\<close> accepts exactly the datagrams that hold their 24-byte header and the
  1 to 30 records of 48 bytes the header announces.
\<close>

theorem PrecheckV5_accepts:
  "PrecheckV5 b = Some None \<longleftrightarrow> 24 \<le> length b \<and>
    (let n = unat (u16_at b 2) in 1 \<le> n \<and> n \<le> 30 \<and> 24 + 48 * n \<le> length b)"
  by (auto simp: PrecheckV5_def Let_def not_less Suc_le_eq numeral_3_eq_3)

text \<open>
  The complete samples of an sFlow body, as the decoder walks them: at most \<open>n\<close>, each
  with its format and its \<open>length\<close> bytes; the walk ends at a sample that overruns the
  datagram.
\<close>

fun sflow_samples :: "nat \<Rightarrow> bytes \<Rightarrow> (u32 \<times> bytes) list" where
  "sflow_samples 0 bs = []"
| "sflow_samples (Suc n) bs =
    (if length bs < 8 then []
     else let fmt = u32_at bs 0; len = unat (u32_at bs 4)
       in if len > length bs - 8 then [] else (fmt, take len (drop 8 bs)) # sflow_samples n (drop (8 + len) bs))"

definition oversized_expanded :: "u32 \<times> bytes \<Rightarrow> bool" where
  "oversized_expanded x \<longleftrightarrow> (case x of (fmt, body) \<Rightarrow>
     fmt = 3 \<and> 44 \<le> length body \<and> u32_at body 40 > 1000)"

lemma sf_samples_spec:
  "off \<le> length b \<Longrightarrow> sf_samples n b off =
    Some (if list_ex oversized_expanded (sflow_samples n (drop off b)) then Some ErrSFlowRecordCount else None)"
proof (induction n arbitrary: off)
  case (Suc n)
  define len where "len = unat (u32_at b (off + 4))"
  define body where "body = take len (drop (off + 8) b)"
  show ?case
  proof (cases "off + 8 \<le> length b \<and> len \<le> length b - (off + 8)")
    case True
    then have b8: "off + 8 \<le> length b" "8 \<le> length b - off" "len \<le> length b - (off + 8)" by auto
    have sp: "sflow_samples (Suc n) (drop off b) = (u32_at b off, body) # sflow_samples n (drop (off + 8 + len) b)"
      using b8 by (simp add: len_def body_def Let_def ac_simps)
    have IH: "sf_samples n b (off + 8 + len) = Some (if list_ex oversized_expanded (sflow_samples n (drop (off + 8 + len) b))
        then Some ErrSFlowRecordCount else None)"
      by (rule Suc.IH) (use b8 in linarith)
    have "sf_samples (Suc n) b off = (if oversized_expanded (u32_at b off, body) then Some (Some ErrSFlowRecordCount)
        else sf_samples n b (off + 8 + len))"
      using b8 by (auto simp: oversized_expanded_def body_def len_def Let_def)
    with IH sp show ?thesis by simp
  next
    case False
    then show ?thesis using Suc.prems by (auto simp: len_def Let_def not_less)
  qed
qed simp

text \<open>
  The whole precheck as a function of the datagram: the position of the sample count,
  and the samples after it.
\<close>

definition sflow_count_off :: "bytes \<Rightarrow> nat" where
  "sflow_count_off b = 20 + (if u32_at b 4 = 1 then 4 else 16)"

text \<open>
  \<open>PrecheckSFlow\<close> accepts exactly the version 5 datagrams with an IPv4 or IPv6 agent
  address and at most 1000 samples, none of whose complete expanded flow samples announces
  more than 1000 records (the counts goflow2 would allocate for).
\<close>

theorem PrecheckSFlow_accepts:
  "PrecheckSFlow b = Some None \<longleftrightarrow>
    8 \<le> length b \<and> u32_at b 0 = 5 \<and>
    u32_at b 4 \<in> {1, 2} \<and>
    (let o' = sflow_count_off b; n = u32_at b o' in
      o' + 4 \<le> length b \<and> n \<le> 1000 \<and>
      (\<forall>x \<in> set (sflow_samples (unat n) (drop (o' + 4) b)). \<not> oversized_expanded x))"
proof -
  define o' where "o' = sflow_count_off b"
  show ?thesis
  proof (cases "8 \<le> length b \<and> u32_at b 0 = 5 \<and>
      u32_at b 4 \<in> {1, 2} \<and> o' + 4 \<le> length b")
    case True
    define n where "n = u32_at b o'"
    have 0: "sf_u32 b 0 = Some (Some (5, 4))" "sf_u32 b 4 = Some (Some (u32_at b 4, 8))"
      "sf_u32 b o' = Some (Some (n, o' + 4))"
      using True by (simp_all add: sf_u32_def n_def numeral_2_eq_2 numeral_3_eq_3)
    have "PrecheckSFlow b = (if n > 1000 then Some (Some (Rejectf (SampleCount n))) else sf_samples (unat n) b (o' + 4))"
      using True 0 by (auto simp: PrecheckSFlow_def o'_def sflow_count_off_def Let_def)
    then show ?thesis
      using True sf_samples_spec [of "o' + 4" b "unat n"]
      by (simp add: o'_def [symmetric] n_def [symmetric] Let_def list_ex_iff not_less [symmetric])
  next
    case False
    then show ?thesis
      by (auto simp: PrecheckSFlow_def sf_u32_def o'_def sflow_count_off_def Let_def not_le numeral_2_eq_2 numeral_3_eq_3
        split: if_splits option.splits)
  qed
qed

definition sflow_bare :: bytes where
  "sflow_bare = [0, 0, 0, 5, 0, 0, 0, 1, 10, 0, 0, 1, 0, 0, 0, 0, 0, 0, 0, 1, 0, 0, 0, 9, 0, 0, 0, 0]"

theorem PrecheckSFlow_accepts_witness: "PrecheckSFlow sflow_bare = Some None"
  unfolding PrecheckSFlow_accepts
  by (simp add: sflow_bare_def sflow_count_off_def u32_at_def be32_def Let_def)

subsection \<open>Normalising is idempotent\<close>

lemma v9_walk_prefix:
  assumes "v9_walk pkt off n = Some (off', n', e)" and "off \<le> length pkt"
    and "length pkt' = off'" and "\<And>i. off \<le> i \<Longrightarrow> i < off' \<Longrightarrow> pkt' ! i = pkt ! i"
  shows "off \<le> off' \<and> off' \<le> length pkt \<and> v9_walk pkt' off n = Some (off', n', None)"
  using assms
proof (induction "length pkt - off" arbitrary: off n rule: less_induct)
  case less
  define l where "l = unat (u16_at pkt (off + 2))"
  show ?case
  proof (cases "off + 4 \<le> length pkt \<and> 4 \<le> l \<and> l \<le> length pkt - off")
    case True
    have step: "v9_walk pkt off n = v9_walk pkt (off + l) (n + 1)"
      using True by (subst v9_walk.simps) (auto simp: l_def Let_def)
    then have IH: "off + l \<le> off'" "off' \<le> length pkt" "v9_walk pkt' (off + l) (n + 1) = Some (off', n', None)"
      using less.hyps [of "off + l" "n + 1"] less.prems True by auto
    have "u16_at pkt' (off + 2) = u16_at pkt (off + 2)"
      using less.prems(4) True IH(1) by (intro u16_at_cong) auto
    then have "v9_walk pkt' off n = v9_walk pkt' (off + l) (n + 1)"
      using True IH less.prems(3) by (subst v9_walk.simps) (auto simp: l_def Let_def)
    with IH True show ?thesis by simp
  next
    case False
    then have "off' = off" "n' = n" using less.prems(1)
      by (subst (asm) v9_walk.simps; auto simp: l_def Let_def ac_simps split: if_splits)+
    then show ?thesis using less.prems by (subst v9_walk.simps) simp
  qed
qed

lemma normalizeV9_idem:
  assumes "20 \<le> length pkt" and "normalizeV9 pkt = Some (out, e)"
  shows "20 \<le> length out \<and> length out \<le> length pkt \<and> drop 4 out = drop 4 (take (length out) pkt) \<and>
    take 2 out = take 2 pkt \<and> normalizeV9 out = Some (out, None)"
proof -
  obtain off n where w: "v9_walk pkt 20 0 = Some (off, n, e)"
    using assms(2) by (auto simp: normalizeV9_def bind_eq_Some_conv split: if_splits)
  have off: "20 \<le> off" "off \<le> length pkt"
    using safeD [OF v9_walk_safe [OF assms(1), of "\<lambda>r. 20 \<le> fst r \<and> fst r \<le> length pkt"] w] by auto
  define c where "c = put_be16 (word_of_nat (min n 0xffff))"
  have out: "out = take 2 (take off pkt) @ c @ drop 4 (take off pkt)"
    using assms(2) w off by (simp add: normalizeV9_def c_def)
  have lc: "length c = 2" by (simp add: c_def)
  have lo: "length out = off" using off out lc by simp
  have nth: "out ! i = pkt ! i" if "20 \<le> i" "i < off" for i
  proof -
    have "\<not> i - 2 < 2" using that by simp
    then show ?thesis using that off lc by (simp add: out nth_append)
  qed
  have w2: "v9_walk out 20 0 = Some (off, n, None)"
    using v9_walk_prefix [OF w assms(1) lo] nth by simp
  have "normalizeV9 out = Some (take 2 out @ c @ drop 4 out, None)"
    using w2 lo off by (simp add: normalizeV9_def c_def)
  moreover have "take 2 out @ c @ drop 4 out = out" "drop 4 out = drop 4 (take off pkt)" "take 2 out = take 2 pkt"
    using off lc by (simp_all add: out)
  ultimately show ?thesis using lo off by simp
qed

text \<open>
  \<open>normalizeV9\<close> never panics on a datagram with a full header; it keeps every complete
  flowset and the header except its count field, and normalising again changes nothing and
  reports no error.
\<close>

theorem normalizeV9_normal:
  assumes "20 \<le> length pkt"
  shows "\<exists>out e. normalizeV9 pkt = Some (out, e) \<and> 20 \<le> length out \<and> length out \<le> length pkt \<and>
    drop 4 out = drop 4 (take (length out) pkt) \<and> take 2 out = take 2 pkt \<and> normalizeV9 out = Some (out, None)"
proof -
  have "safe (normalizeV9 pkt) (\<lambda>_. True)"
    unfolding normalizeV9_def using assms by (intro safe_intros) auto
  then obtain out e where "normalizeV9 pkt = Some (out, e)" by (auto simp: safe_def)
  with normalizeV9_idem [OF assms this] show ?thesis by blast
qed

theorem normalizeV9_normal_witness:
  "\<exists>out e. normalizeV9 (replicate 25 0) = Some (out, e) \<and> normalizeV9 out = Some (out, None)"
  using normalizeV9_normal [of "replicate 25 0"] by auto

subsection \<open>The record budget of an accepted datagram\<close>

text \<open>The sets of a datagram from offset \<open>off\<close> on: id and body, as far as goflow2 walks them.\<close>

function sets_of :: "bytes \<Rightarrow> nat \<Rightarrow> (u16 \<times> bytes) list" where
  "sets_of pkt off =
    (if length pkt < off + 4 \<or> unat (u16_at pkt (off + 2)) < 4 then []
     else let end' = min (off + unat (u16_at pkt (off + 2))) (length pkt)
       in (u16_at pkt off, take (end' - (off + 4)) (drop (off + 4) pkt)) # sets_of pkt end')"
  by pat_completeness auto
termination
  by (relation "measure (\<lambda>(pkt, off). length pkt - off)") auto

declare sets_of.simps [simp del]

text \<open>The field lengths of the first \<open>n\<close> field specifiers: four bytes each, eight for an enterprise field of IPFIX.\<close>

fun spec_fields :: "nat \<Rightarrow> bool \<Rightarrow> bytes \<Rightarrow> (u16 list \<times> bytes) option" where
  "spec_fields 0 ipfix b = Some ([], b)"
| "spec_fields (Suc n) ipfix b =
    (let w = (if ipfix \<and> bit (u16_at b 0) 15 then 8 else 4)
     in if length b < 4 \<or> length b < w then None
        else map_option (\<lambda>(ls, rest). (u16_at b 2 # ls, rest)) (spec_fields n ipfix (drop w b)))"

text \<open>
  The complete template records of a set body, as field lengths. A v9 options template gives the bytes of its scope and
  option specifiers, an IPFIX one the total number of fields.
\<close>

definition spec_count :: "u16 \<Rightarrow> bool \<Rightarrow> bytes \<Rightarrow> nat" where
  "spec_count version options b =
    (if options \<and> version = 9 then unat (u16_at b 2) div 4 + unat (u16_at b 4) div 4 else unat (u16_at b 2))"

lemma spec_fields_length: "spec_fields n ip b = Some (ls, r) \<Longrightarrow> length r \<le> length b"
proof (induction n arbitrary: b ls)
  case (Suc n)
  then show ?case by (auto simp: Let_def split: if_splits) (fastforce+)
qed simp

function spec_templates :: "u16 \<Rightarrow> bool \<Rightarrow> bytes \<Rightarrow> (u16 \<times> u16 list) list" where
  "spec_templates version options b =
    (let h = (if options then 6 else 4)
     in if length b < h then []
        else case spec_fields (spec_count version options b) (version = 10) (drop h b) of
          None \<Rightarrow> []
        | Some (ls, rest) \<Rightarrow> (u16_at b 0, ls) # spec_templates version options rest)"
  by pat_completeness auto
termination
  by (relation "measure (\<lambda>(_, _, b). length b)") (auto dest!: spec_fields_length split: if_splits)

declare spec_templates.simps [simp del]

text \<open>
  One record of a template: its values one after the other, a value of length 65535 also with the variable length of IPFIX,
  announced by one byte or by 255 and two bytes.
\<close>

inductive is_record :: "u16 list \<Rightarrow> bytes \<Rightarrow> bool" where
  is_record_end: "is_record [] []"
| is_record_fixed: "length v = unat l \<Longrightarrow> is_record ls r \<Longrightarrow> is_record (l # ls) (v @ r)"
| is_record_short: "length v = unat n \<Longrightarrow> n \<noteq> 255 \<Longrightarrow> is_record ls r \<Longrightarrow> is_record (0xffff # ls) (n # v @ r)"
| is_record_long: "length v = unat (be16 a b) \<Longrightarrow> is_record ls r \<Longrightarrow> is_record (0xffff # ls) (255 # a # b # v @ r)"

definition min_length :: "u16 list \<Rightarrow> nat" where
  "min_length ls = sum_list (map (\<lambda>l. if l = 0xffff then 1 else unat l) ls)"

lemma is_record_min: "is_record ls r \<Longrightarrow> min_length ls \<le> length r"
  by (induction rule: is_record.induct) (auto simp: min_length_def)

text \<open>
  The template in force for a data set: the last one announced before it in the datagram, unless that is a withdrawal or
  has an empty field, and then the stored one, of which \<open>look\<close> gives the length of the shortest record. Without a template,
  or with one of empty records, a set is only buffered and holds no record.
\<close>

definition usable :: "u16 list \<Rightarrow> bool" where
  "usable ls \<longleftrightarrow> ls \<noteq> [] \<and> 0 \<notin> set ls"

definition record_fits :: "(u16 \<Rightarrow> nat option) \<Rightarrow> (u16 \<times> u16 list) list \<Rightarrow> u16 \<Rightarrow> bytes \<Rightarrow> bool" where
  "record_fits look announced sid r \<longleftrightarrow>
    (case map_of (rev announced) sid of
       Some ls \<Rightarrow> if usable ls then is_record ls r else (\<exists>n. look sid = Some n \<and> 0 < n \<and> n \<le> length r)
     | None \<Rightarrow> (\<exists>n. look sid = Some n \<and> 0 < n \<and> n \<le> length r))"

text \<open>
  A reading of the sets of a datagram: for every data set the records found in it, one after the other from its start, each
  a record of the template in force; \<open>announced\<close> collects the templates of the sets before.
\<close>

definition template_sets :: "u16 \<Rightarrow> u16 \<times> u16" where
  "template_sets version = (if version = 9 then (0, 1) else (2, 3))"

definition announced_in :: "u16 \<Rightarrow> u16 \<Rightarrow> bytes \<Rightarrow> (u16 \<times> u16 list) list" where
  "announced_in version sid body =
    (if sid = fst (template_sets version) then spec_templates version False body
     else if sid = snd (template_sets version) then spec_templates version True body else [])"

fun reading :: "(u16 \<Rightarrow> nat option) \<Rightarrow> u16 \<Rightarrow> (u16 \<times> u16 list) list \<Rightarrow> (u16 \<times> bytes) list \<Rightarrow> bytes list list \<Rightarrow> bool" where
  "reading look version announced [] recs \<longleftrightarrow> recs = []"
| "reading look version announced ((sid, body) # sets) recs \<longleftrightarrow>
    (case recs of [] \<Rightarrow> False | rs # recs \<Rightarrow>
       (rs \<noteq> [] \<longrightarrow> sid \<ge> 256 \<and> take (length (concat rs)) body = concat rs \<and> (\<forall>r \<in> set rs. record_fits look announced sid r)) \<and>
       reading look version (announced @ announced_in version sid body) sets recs)"

lemma wts_fields_spec:
  "wts_fields n v body m d = Some (map_option (\<lambda>(ls, rest). (rest, m + min_length ls, d \<or> 0 \<in> set ls)) (spec_fields n (v = 10) body))"
proof (induction n arbitrary: v body m d)
  case (Suc n)
  have b: "u16_at body 0 AND 0x8000 \<noteq> 0 \<longleftrightarrow> bit (u16_at body 0) 15"
    using and_exp_eq_0_iff_not_bit [of "u16_at body 0" 15] by simp
  show ?case
    by (cases "spec_fields n (v = 10) (drop 4 body)"; cases "spec_fields n (v = 10) (drop 8 body)")
       (auto simp: Let_def b Suc.IH min_length_def not_less)
qed (simp add: min_length_def)

definition announce :: "u16 \<times> u16 list \<Rightarrow> local_map \<Rightarrow> local_map" where
  "announce t loc = (if usable (snd t) then gm_put (fst t) (min_length (snd t)) loc else gm_del (fst t) loc)"

lemma spec_fields_count: "spec_fields n ip b = Some (ls, r) \<Longrightarrow> length ls = n"
  by (induction n arbitrary: b ls) (auto simp: Let_def split: if_splits)

lemma walkTemplateSet_spec:
  "walkTemplateSet body v opts loc = Some (None, loc') \<Longrightarrow> loc' = fold announce (spec_templates v opts body) loc"
proof (induction "length body" arbitrary: body loc rule: less_induct)
  case less
  let ?h = "if opts then 6 else 4"
  show ?case
  proof (cases "length body < ?h")
    case True
    then show ?thesis using less.prems
      by (subst (asm) walkTemplateSet.simps, subst spec_templates.simps) (auto simp: wts_header_def bind_eq_Some_conv split: if_splits)
  next
    case False
    define n where "n = spec_count v opts body"
    have h: "\<exists>s. wts_header v opts body = Some (Some (n, s, ?h))"
      using False by (auto simp: wts_header_def n_def spec_count_def Let_def not_less)
    then obtain s where s: "wts_header v opts body = Some (Some (n, s, ?h))" by blast
    show ?thesis
    proof (cases "spec_fields n (v = 10) (drop ?h body)")
      case None
      then show ?thesis using less.prems s False
        by (subst (asm) walkTemplateSet.simps, subst spec_templates.simps)
           (auto simp: n_def [symmetric] wts_fields_spec bind_eq_Some_conv not_less split: if_splits)
    next
      case (Some p)
      then obtain ls rest where p: "spec_fields n (v = 10) (drop ?h body) = Some (ls, rest)" by (cases p) auto
      have u: "(n = 0 \<or> 0 \<in> set ls) \<longleftrightarrow> \<not> usable ls" using spec_fields_count [OF p] by (auto simp: usable_def)
      have l: "length rest < length body" using spec_fields_length [OF p] False by (auto split: if_splits)
      have "walkTemplateSet rest v opts (announce (u16_at body 0, ls) loc) = Some (None, loc')"
        using less.prems s False p u
        by (subst (asm) walkTemplateSet.simps)
           (auto simp: wts_fields_spec announce_def bind_eq_Some_conv not_less split: if_splits)
      from less.hyps [OF l this] show ?thesis
        using False p by (subst spec_templates.simps) (simp add: n_def [symmetric] Let_def)
    qed
  qed
qed

text \<open>The table of lengths the precheck keeps is that of the templates announced so far.\<close>

lemma fold_announce:
  "gm_get (fold announce ts loc) sid =
    (case map_of (rev ts) sid of Some ls \<Rightarrow> if usable ls then Some (min_length ls) else None | None \<Rightarrow> gm_get loc sid)"
  by (induction ts arbitrary: loc) (auto simp: announce_def map_add_def split: option.splits)

lemma usable_min: "usable ls \<Longrightarrow> 0 < min_length ls"
  by (cases ls) (auto simp: usable_def min_length_def unat_gt_0)

lemma records_in_body:
  assumes "\<forall>r \<in> set rs. n \<le> length (r :: bytes)" and "0 < n" and "body = concat rs @ pad"
  shows "length rs \<le> length body div n"
proof -
  have "n * length rs \<le> length (concat rs)"
    using assms(1) by (induction rs) auto
  then show ?thesis using assms(2,3) by (simp add: less_eq_div_iff_mult_less_eq mult.commute)
qed

definition tracks :: "(u16 \<times> u16 list) list \<Rightarrow> local_map \<Rightarrow> bool" where
  "tracks announced loc \<longleftrightarrow> (\<forall>sid. gm_get loc sid =
    (case map_of (rev announced) sid of Some ls \<Rightarrow> if usable ls then Some (min_length ls) else None | None \<Rightarrow> None))"

lemma tracks_walk:
  "tracks announced loc \<Longrightarrow> walkTemplateSet body v opts loc = Some (None, loc') \<Longrightarrow> tracks (announced @ spec_templates v opts body) loc'"
  using walkTemplateSet_spec [of body v opts loc loc'] by (auto simp: tracks_def fold_announce map_add_def split: option.splits)

definition set_length :: "(u16 \<Rightarrow> nat option) \<Rightarrow> local_map \<Rightarrow> u16 \<Rightarrow> nat option" where
  "set_length look loc sid = (case gm_get loc sid of Some n \<Rightarrow> Some n | None \<Rightarrow> look sid)"

lemma record_fits_length:
  assumes "tracks announced loc" and "record_fits look announced sid r"
  shows "\<exists>n. set_length look loc sid = Some n \<and> 0 < n \<and> n \<le> length r"
  using assms usable_min is_record_min
  by (cases "map_of (rev announced) sid") (auto simp: tracks_def record_fits_def set_length_def split: if_splits)

lemma set_bound:
  assumes "tracks announced loc" and "rs \<noteq> []" and "body = concat rs @ pad" and "\<forall>r \<in> set rs. record_fits look announced sid r"
  shows "\<exists>n. set_length look loc sid = Some n \<and> 0 < n \<and> length rs \<le> length body div n"
proof -
  obtain n where n: "set_length look loc sid = Some n" "0 < n"
    using record_fits_length [OF assms(1)] assms(2,4) by (metis list.set_intros(1) neq_Nil_conv)
  then have "\<forall>r \<in> set rs. n \<le> length r" using record_fits_length [OF assms(1)] assms(4) by fastforce
  then show ?thesis using n records_in_body assms(3) by blast
qed

lemma sets_of_step:
  assumes "off + 4 \<le> length pkt" and "4 \<le> unat (u16_at pkt (off + 2))"
  defines "e \<equiv> min (off + unat (u16_at pkt (off + 2))) (length pkt)"
  shows "sets_of pkt off = (u16_at pkt off, take (e - (off + 4)) (drop (off + 4) pkt)) # sets_of pkt e"
  using assms by (subst sets_of.simps) (auto simp: Let_def)

lemma pt_loop_step:
  assumes "off + 4 \<le> length pkt" and "4 \<le> unat (u16_at pkt (off + 2))"
  defines "e \<equiv> min (off + unat (u16_at pkt (off + 2))) (length pkt)" and "sid \<equiv> u16_at pkt off"
  defines "body \<equiv> take (e - (off + 4)) (drop (off + 4) pkt)"
  shows "pt_loop look v ts os pkt off loc n =
      (if sid = ts \<or> sid = os then do {
         (err, loc') \<leftarrow> walkTemplateSet body v (sid = os) loc;
         case err of Some e' \<Rightarrow> Some (Some e') | None \<Rightarrow> pt_loop look v ts os pkt e loc' n }
       else if sid \<ge> 256 then
         (let m = set_length look loc sid;
              n' = (case m of Some k \<Rightarrow> if k > 0 then n + length body div k else n | None \<Rightarrow> n);
              counted = (case m of Some k \<Rightarrow> k > 0 | None \<Rightarrow> False)
          in if counted \<and> n' > maxRecordsPerDatagram then Some (Some (Rejectf (RecordCount n')))
             else pt_loop look v ts os pkt e loc n')
       else pt_loop look v ts os pkt e loc n)"
proof -
  have "slice pkt (off + 4) e = Some body" using assms(1,2) by (simp add: body_def e_def)
  then show ?thesis using assms(1,2)
    by (subst pt_loop.simps) (simp add: e_def [symmetric] sid_def [symmetric] set_length_def Let_def not_less)
qed

lemma pt_loop_bound:
  assumes "pt_loop look v ts os pkt off loc n = Some None" and "n \<le> maxRecordsPerDatagram" and "template_sets v = (ts, os)"
    and "tracks announced loc" and "reading look v announced (sets_of pkt off) recs"
  shows "n + sum_list (map length recs) \<le> maxRecordsPerDatagram"
  using assms
proof (induction "length pkt - off" arbitrary: off loc n announced recs rule: less_induct)
  case less
  define l where "l = unat (u16_at pkt (off + 2))"
  define e where "e = min (off + l) (length pkt)"
  define sid where "sid = u16_at pkt off"
  define body where "body = take (e - (off + 4)) (drop (off + 4) pkt)"
  note defs = l_def [symmetric] e_def [symmetric] sid_def [symmetric] body_def [symmetric]
  show ?case
  proof (cases "off + 4 \<le> length pkt \<and> 4 \<le> l")
    case False
    then have "sets_of pkt off = []" by (subst sets_of.simps) (auto simp: l_def not_le)
    with less.prems show ?thesis by simp
  next
    case True
    then have dec: "length pkt - e < length pkt - off" by (auto simp: e_def)
    have sets: "sets_of pkt off = (sid, body) # sets_of pkt e" using sets_of_step True by (simp add: defs)
    obtain rs recs' where r: "recs = rs # recs'" "reading look v (announced @ announced_in v sid body) (sets_of pkt e) recs'"
      "rs \<noteq> [] \<Longrightarrow> sid \<ge> 256 \<and> take (length (concat rs)) body = concat rs \<and> (\<forall>r \<in> set rs. record_fits look announced sid r)"
      using less.prems(5) unfolding sets by (auto split: list.splits)
    have to: "ts < 256" "os < 256" "ts \<noteq> os" using less.prems(3) by (auto simp: template_sets_def split: if_splits)
    note loop = pt_loop_step [of off pkt look v ts os loc n, unfolded defs]
    show ?thesis
    proof (cases "sid = ts \<or> sid = os")
      case T: True
      then obtain loc' where w: "walkTemplateSet body v (sid = os) loc = Some (None, loc')" "pt_loop look v ts os pkt e loc' n = Some None"
        using less.prems(1) loop True by (auto simp: bind_eq_Some_conv split: option.splits)
      have "announced_in v sid body = spec_templates v (sid = os) body" using T to less.prems(3) by (auto simp: announced_in_def)
      moreover have "rs = []" using r(3) T to by fastforce
      ultimately show ?thesis
        using less.hyps [OF dec w(2) less.prems(2,3) tracks_walk [OF less.prems(4) w(1)]] r(1,2) by simp
    next
      case F: False
      then have ann: "announced_in v sid body = []" using less.prems(3) by (simp add: announced_in_def)
      define m where "m = set_length look loc sid"
      define d where "d = (case m of Some k \<Rightarrow> if k > 0 then length body div k else 0 | None \<Rightarrow> 0)"
      have rs: "length rs \<le> (if sid \<ge> 256 then d else 0)"
      proof (cases "rs = []")
        case False
        have "body = concat rs @ drop (length (concat rs)) body" using r(3) [OF False] append_take_drop_id [of "length (concat rs)" body] by metis
        then show ?thesis using set_bound [OF less.prems(4) False] r(3) [OF False] by (fastforce simp: d_def m_def)
      qed simp
      have "pt_loop look v ts os pkt e loc (n + (if sid \<ge> 256 then d else 0)) = Some None \<and> n + (if sid \<ge> 256 then d else 0) \<le> maxRecordsPerDatagram"
        using less.prems(1,2) loop True F by (auto simp: m_def [symmetric] d_def Let_def split: option.splits if_splits)
      then have "n + (if sid \<ge> 256 then d else 0) + sum_list (map length recs') \<le> maxRecordsPerDatagram"
        using less.hyps [OF dec _ _ less.prems(3,4)] r(2) ann by simp
      then show ?thesis using rs r(1) by simp
    qed
  qed
qed

text \<open>
  C22: However the data sets of a v9 or IPFIX datagram that passes \<open>precheckTemplated\<close> are read as records one after the
  other, each a record of the template announced last before it in the datagram or else at least as long as the shortest
  record of the stored template, there are at most 1024 of them over the whole datagram. Sets without a template are only
  buffered by the decoder and hold no records here.
\<close>

theorem precheckTemplated_bound:
  assumes "precheckTemplated look pkt version = Some None"
    and "reading look version [] (sets_of pkt (if version = 9 then 20 else 16)) recs"
  shows "sum_list (map length recs) \<le> 1024"
proof -
  have "tracks [] []" by (simp add: tracks_def)
  then show ?thesis using pt_loop_bound [OF _ _ _ _ assms(2), of _ _ _ 0] assms(1)
    by (auto simp: precheckTemplated_def template_sets_def maxRecordsPerDatagram_def split: if_splits)
qed

text \<open>
  An IPFIX message that announces template 256 with a two-byte and a variable-length field, and then has two records of it:
  one value of two bytes, announced by one byte, and one empty value.
\<close>

definition ipfix_data :: bytes where
  "ipfix_data = [0, 10, 0, 44, 0, 0, 0, 100, 0, 0, 0, 5, 0, 0, 0, 7,
     0, 2, 0, 16, 1, 0, 0, 2, 0, 7, 0, 2, 0, 82, 255, 255,
     1, 0, 0, 12, 1, 2, 2, 4, 5, 6, 7, 0]"

lemma two_fields: "wts_fields 2 = wts_fields (Suc (Suc 0))" "spec_fields 2 = spec_fields (Suc (Suc 0))"
  by (simp_all only: numeral_2_eq_2)

lemma ipfix_data_walk:
  "walkTemplateSet [1, 0, 0, 2, 0, 7, 0, 2, 0, 82, 255, 255] 10 False [] = Some (None, [(256, 3)])"
  by (simp add: walkTemplateSet.simps wts_header_def rd16_def u16_at_def be16_def slice_from_def maxTemplateFields_def
     two_fields Let_def bit_numeral_rec gm_put_def)

lemma ipfix_data_sets:
  "sets_of ipfix_data 16 = [(2, [1, 0, 0, 2, 0, 7, 0, 2, 0, 82, 255, 255]), (256, [1, 2, 2, 4, 5, 6, 7, 0])]"
  by (simp add: ipfix_data_def sets_of.simps u16_at_def be16_def Let_def)

lemma ipfix_data_accepted: "precheckTemplated (\<lambda>_. None) ipfix_data 10 = Some None"
  by (simp add: precheckTemplated_def ipfix_data_def pt_loop.simps ipfix_data_walk rd16_def u16_at_def be16_def slice_def
      Let_def maxRecordsPerDatagram_def gm_get_def)

lemma ipfix_data_announces: "announced_in 10 2 [1, 0, 0, 2, 0, 7, 0, 2, 0, 82, 255, 255] = [(256, [2, 65535])]"
  by (simp add: announced_in_def template_sets_def spec_templates.simps spec_count_def u16_at_def be16_def Let_def two_fields bit_numeral_rec)

lemma ipfix_data_reading: "reading (\<lambda>_. None) 10 [] (sets_of ipfix_data 16) [[], [[1, 2, 2, 4, 5], [6, 7, 0]]]"
proof -
  have "is_record [2, 65535] ([1, 2] @ 2 # [4, 5] @ [])" "is_record [2, 65535] ([6, 7] @ 0 # [] @ [])"
    by (intro is_record.intros; simp)+
  then show ?thesis by (simp add: ipfix_data_sets ipfix_data_announces record_fits_def usable_def)
qed

theorem precheckTemplated_bound_witness:
  "precheckTemplated (\<lambda>_. None) ipfix_data 10 = Some None
   \<and> reading (\<lambda>_. None) 10 [] (sets_of ipfix_data 16) [[], [[1, 2, 2, 4, 5], [6, 7, 0]]]
   \<and> sum_list (map length [[], [[1, 2, 2, 4, 5], [6, 7, 0 :: 8 word]]]) \<le> 1024"
  using precheckTemplated_bound [OF ipfix_data_accepted] ipfix_data_accepted ipfix_data_reading by simp

subsection \<open>Announced record lengths are positive\<close>

definition local_pos :: "local_map \<Rightarrow> bool" where
  "local_pos loc \<longleftrightarrow> (\<forall>k n. gm_get loc k = Some n \<longrightarrow> 0 < n)"

lemma wts_fields_min:
  "safe (wts_fields i v body m d) (\<lambda>r. case r of None \<Rightarrow> True | Some (_, m', d') \<Rightarrow> d' \<or> (\<not> d \<and> m + i \<le> m'))"
proof (induction i arbitrary: v body m d)
  case (Suc i)
  note wts_fields_safe [safe_intros del]
  show ?case
    unfolding wts_fields.simps
    by (intro safe_intros)
       (auto intro!: safe_mono [OF Suc.IH] simp: unat_gt_0 [symmetric] simp del: unat_gt_0 split: option.splits)
qed (simp add: safe_def)

lemma walkTemplateSet_pos:
  assumes "local_pos loc" and "walkTemplateSet body v opts loc = Some (e, loc')"
  shows "local_pos loc'"
  using assms
proof (induction "length body" arbitrary: body loc rule: less_induct)
  case less
  show ?case
  proof (cases "length body < 4")
    case True
    with less.prems show ?thesis by (subst (asm) walkTemplateSet.simps) simp
  next
    case False
    obtain h where h: "wts_header v opts body = Some h"
      using wts_header_safe [of body "\<lambda>_. True"] False by (auto simp: safe_def)
    show ?thesis
    proof (cases "\<exists>c s hd body1 r. h = Some (c, s, hd) \<and> \<not> (c > maxTemplateFields \<or> s > maxTemplateFields) \<and>
        slice_from body hd = Some body1 \<and> wts_fields c v body1 0 (c = 0) = Some (Some r)")
      case True
      then obtain c s hd body1 body2 m d where
        H: "h = Some (c, s, hd)" "\<not> (c > maxTemplateFields \<or> s > maxTemplateFields)"
        "slice_from body hd = Some body1" "wts_fields c v body1 0 (c = 0) = Some (Some (body2, m, d))" by (metis prod.collapse)
      let ?loc = "if d then gm_del (u16_at body 0) loc else gm_put (u16_at body 0) m loc"
      have rec: "walkTemplateSet body2 v opts ?loc = Some (e, loc')"
        using less.prems(2) False h H by (subst (asm) walkTemplateSet.simps) (auto split: if_splits)
      have "d \<or> (c \<noteq> 0 \<and> 0 + c \<le> m)" using safeD [OF wts_fields_min H(4)] by auto
      then have "local_pos ?loc" using less.prems(1) by (auto simp: local_pos_def)
      moreover have "length body2 < length body"
        using wts_fields_length [OF H(4)] wts_header_hdr [of v opts body c s hd] h H(1,3) False
        by (auto simp: slice_from_def split: if_splits)
      ultimately show ?thesis using less.hyps rec by blast
    next
      case F: False
      have [simp]: "All Not = False" by (auto intro: exI [of _ True])
      have "loc' = loc"
        using less.prems(2) False h F
        by (subst (asm) walkTemplateSet.simps) (auto simp: bind_eq_Some_conv split: option.splits if_splits)
      then show ?thesis using less.prems(1) by simp
    qed
  qed
qed

end
