(* ===== verification/Exporter.thy ===== *)
theory Exporter
  imports Prechecks
begin

text \<open>
  The per-exporter decoding state of \<open>decode/decode.go\<close>: observation domains, sampling,
  sequence accounting, reboot detection, the buffer of data sets that arrived before
  their template, and \<open>Decode\<close> itself.

  The wire decoders of goflow2 are the parameter \<open>decoders\<close>. A decoder may panic, fail or
  succeed with any value; the NetFlow v9 / IPFIX decoder also calls back into the
  template store, and \<open>d_nf\<close> gives the sequence of those calls. Nothing else is assumed
  of them. A panic leaves the exporter in the state it had reached, which is why every
  operation that calls a decoder returns the state next to an optional result.
\<close>

subsection \<open>Limits\<close>

definition MaxPendingSets :: nat where "MaxPendingSets = 64"
definition MaxPendingBytes :: nat where "MaxPendingBytes = 262144"
definition PendingTTL :: duration where "PendingTTL = minutes 2"
definition v9UptimeJump :: duration where "v9UptimeJump = seconds 60"
definition sysInitJump :: u64 where "sysInitJump = 5000"
definition ipfixSeqHigh :: u32 where "ipfixSeqHigh = 1000"
definition ipfixSeqLow :: u32 where "ipfixSeqLow = 100"
definition estWindow :: duration where "estWindow = minutes 10"
definition maxEstBounds :: nat where "maxEstBounds = 256"
definition maxSeqGap :: int where "maxSeqGap = 1048576"
definition maxIPFIXSeqGap :: int where "maxIPFIXSeqGap = 16777216"

lemmas exporter_limits = MaxPendingSets_def MaxPendingBytes_def PendingTTL_def v9UptimeJump_def
  sysInitJump_def ipfixSeqHigh_def ipfixSeqLow_def estWindow_def maxEstBounds_def maxSeqGap_def
  maxIPFIXSeqGap_def

subsection \<open>State\<close>

text \<open>The counters are \<open>uint64\<close> in the code; the model counts in \<open>nat\<close>.\<close>

record stats =
  st_Datagrams :: nat
  st_Flows :: nat
  st_DecodeErrors :: nat
  st_Rejected :: nat
  st_TemplateMisses :: nat
  st_Replayed :: nat
  st_PendingDropped :: nat
  st_SeqLost :: nat
  st_Panics :: nat
  st_Reboots :: nat
  st_TimeSources :: "time_source \<Rightarrow> nat"
  st_LastError :: "derror option"

definition zero_stats :: stats where
  "zero_stats = \<lparr>st_Datagrams = 0, st_Flows = 0, st_DecodeErrors = 0, st_Rejected = 0, st_TemplateMisses = 0,
     st_Replayed = 0, st_PendingDropped = 0, st_SeqLost = 0, st_Panics = 0, st_Reboots = 0,
     st_TimeSources = (\<lambda>_. 0), st_LastError = None\<rparr>"

type_synonym domainKey = "u16 \<times> u32"

record pendingSet =
  ps_key :: TemplateKey
  ps_raw :: bytes
  ps_ctx :: recordCtx

record v9UptimeState =
  vu_uptime :: u32
  vu_received :: time

record ipfixSeqState =
  is_last :: u32
  is_next :: u32
  is_nextKnown :: bool

record estBound =
  eb_at :: time
  eb_bound :: int

record 's Exporter =
  e_SamplingOverride :: u32
  e_SkipV9Seq :: bool
  e_Templates :: "'s SafeTemplates"
  e_Stats :: stats
  e_domains :: "(domainKey, unit) gomap"
  e_sampling :: "(domainKey, u32) gomap"
  e_pending :: "pendingSet list"
  e_pendSize :: nat
  e_v9Up :: "(domainKey, v9UptimeState) gomap"
  e_v9Seq :: "(domainKey, u32) gomap"
  e_ipfixSeq :: "(domainKey, ipfixSeqState) gomap"
  e_sfSeq :: "(domainKey, u32) gomap"
  e_sysInit :: "(domainKey, u64) gomap"
  e_est :: "(domainKey, estBound list) gomap"

definition NewExporter :: "'s template_system \<Rightarrow> 's Exporter" where
  "NewExporter ts = \<lparr>e_SamplingOverride = 0, e_SkipV9Seq = False, e_Templates = NewSafeTemplates ts MaxTemplates,
     e_Stats = zero_stats, e_domains = [], e_sampling = [], e_pending = [], e_pendSize = 0, e_v9Up = [],
     e_v9Seq = [], e_ipfixSeq = [], e_sfSeq = [], e_sysInit = [], e_est = []\<rparr>"

definition PendingSets :: "'s Exporter \<Rightarrow> nat" where
  "PendingSets e = length (e_pending e)"

text \<open>\<open>e.Stats.f += ...\<close>\<close>

definition upd_stats :: "(stats \<Rightarrow> stats) \<Rightarrow> 's Exporter \<Rightarrow> 's Exporter" where
  "upd_stats g e = e\<lparr>e_Stats := g (e_Stats e)\<rparr>"

definition drop_pending_stat :: "nat \<Rightarrow> 's Exporter \<Rightarrow> 's Exporter" where
  "drop_pending_stat n = upd_stats (\<lambda>s. s\<lparr>st_PendingDropped := st_PendingDropped s + n\<rparr>)"

definition missed_stat :: "'s Exporter \<Rightarrow> 's Exporter" where
  "missed_stat = upd_stats (\<lambda>s. s\<lparr>st_TemplateMisses := st_TemplateMisses s + 1\<rparr>)"

definition replayed_stat :: "'s Exporter \<Rightarrow> 's Exporter" where
  "replayed_stat = upd_stats (\<lambda>s. s\<lparr>st_Replayed := st_Replayed s + 1\<rparr>)"

definition datagram_stat :: "'s Exporter \<Rightarrow> 's Exporter" where
  "datagram_stat = upd_stats (\<lambda>s. s\<lparr>st_Datagrams := st_Datagrams s + 1\<rparr>)"

definition panic_stat :: "'s Exporter \<Rightarrow> 's Exporter" where
  "panic_stat = upd_stats (\<lambda>s. s\<lparr>st_Panics := st_Panics s + 1\<rparr>)"

record Result =
  res_Kind :: kind
  res_Flows :: "flow list"
  res_Counters :: "IfCounter list"
  res_ExportTime :: time
  res_ClockSkew :: duration
  res_Rebooted :: bool
  res_Learned :: "TemplateRecord list"
  res_Withdrawn :: "TemplateKey list"

definition zero_Result :: Result where
  "zero_Result = \<lparr>res_Kind = KindUnknown, res_Flows = [], res_Counters = [], res_ExportTime = zero_time,
     res_ClockSkew = 0, res_Rebooted = False, res_Learned = [], res_Withdrawn = []\<rparr>"

subsection \<open>The goflow2 decoders\<close>

datatype 'a dec_out = DecPanic | DecErr derror | DecOk 'a

datatype store_call = CallAdd u16 u32 u16 tmpl | CallRemove u16 u32 u16

datatype flow_set =
    DataFlowSet "data_field list list"
  | OptionsDataFlowSet "data_field list list"
  | RawFlowSet u16 bytes
  | OtherFlowSet

record sflow_packet =
  sp_AgentIP :: bytes
  sp_SubAgentId :: u32
  sp_SequenceNumber :: u32
  sp_Samples :: "sflow_sample list"

text \<open>
  \<open>d_nf\<close>: the calls the decoder makes on the store it is given, then \<open>None\<close> for a panic
  or the flow sets with the error. \<open>d_dataset\<close> and \<open>d_optset\<close> decode a buffered set:
  \<open>None\<close> is a panic, otherwise the records and whether an error came with them.
\<close>

record 's decoders =
  d_v5 :: "bytes \<Rightarrow> v5_packet dec_out"
  d_sflow :: "bytes \<Rightarrow> sflow_packet dec_out"
  d_nf :: "bytes \<Rightarrow> 's SafeTemplates \<Rightarrow> store_call list \<times> (flow_set list \<times> derror option) option"
  d_dataset :: "u16 \<Rightarrow> bytes \<Rightarrow> nf_field list \<Rightarrow> (data_field list list \<times> bool) option"
  d_optset :: "u16 \<Rightarrow> bytes \<Rightarrow> nf_field list \<Rightarrow> nf_field list \<Rightarrow> (data_field list list \<times> bool) option"

definition store_step :: "'s template_system \<Rightarrow> store_call \<Rightarrow> 's SafeTemplates \<Rightarrow> 's SafeTemplates" where
  "store_step ts c s = (case c of
      CallAdd v ob i t \<Rightarrow> snd (AddTemplate ts v ob i t s)
    | CallRemove v ob i \<Rightarrow> RemoveTemplate ts v ob i s)"

subsection \<open>Domains and sequence numbers\<close>

definition agentKey :: "bytes \<Rightarrow> u32 \<Rightarrow> u32" where
  "agentKey ip sub = (foldl (\<lambda>h c. (h XOR ucast c) * 16777619) 2166136261 ip) XOR (sub * 2654435761)"

definition canAdmit :: "'s Exporter \<Rightarrow> domainKey \<Rightarrow> bool" where
  "canAdmit e dk = (if gm_has (e_domains e) dk then True else gm_len (e_domains e) < MaxDomains)"

definition forgetDomain :: "domainKey \<Rightarrow> 's Exporter \<Rightarrow> 's Exporter" where
  "forgetDomain dk e = e\<lparr>e_v9Up := gm_del dk (e_v9Up e), e_v9Seq := gm_del dk (e_v9Seq e),
     e_ipfixSeq := gm_del dk (e_ipfixSeq e), e_sfSeq := gm_del dk (e_sfSeq e),
     e_sampling := gm_del dk (e_sampling e), e_sysInit := gm_del dk (e_sysInit e), e_est := gm_del dk (e_est e)\<rparr>"

definition countGap :: "u32 \<Rightarrow> u32 \<Rightarrow> int \<Rightarrow> 's Exporter \<Rightarrow> 's Exporter" where
  "countGap got want maxGap e =
    (let gap = sint (got - want)
     in if gap > 0 \<and> gap < maxGap then upd_stats (\<lambda>s. s\<lparr>st_SeqLost := st_SeqLost s + nat gap\<rparr>) e else e)"

definition admit :: "domainKey \<Rightarrow> 's Exporter \<Rightarrow> 's Exporter" where
  "admit dk e = e\<lparr>e_domains := gm_put dk () (e_domains e)\<rparr>"

subsection \<open>Reboot\<close>

text \<open>
  Restoring the kept templates after the reset. \<open>recordToTemplate\<close> does not panic
  (lemma \<open>recordToTemplate_safe\<close>), so the \<open>None\<close> branch is not reached.
\<close>

definition restore_record :: "'s template_system \<Rightarrow> TemplateRecord \<Rightarrow> 's SafeTemplates \<times> (domainKey, unit) gomap \<Rightarrow>
    's SafeTemplates \<times> (domainKey, unit) gomap" where
  "restore_record ts r sd = (case recordToTemplate r of
      Some (Inr t) \<Rightarrow> (snd (AddTemplate ts (tr_Version r) (tr_ObsDomain r) (tr_ID r) t (fst sd)),
                      gm_put (tr_Version r, tr_ObsDomain r) () (snd sd))
    | _ \<Rightarrow> sd)"

definition forgetUnlisted :: "(domainKey, unit) gomap \<Rightarrow> (domainKey, unit) gomap \<Rightarrow> 's Exporter \<Rightarrow> 's Exporter" where
  "forgetUnlisted doms ds e = fold (\<lambda>(dk, _) e. if gm_has doms dk then e else forgetDomain dk e) ds e"

definition reboot :: "'s template_system \<Rightarrow> TemplateKey list \<Rightarrow> 's Exporter \<Rightarrow> 's Exporter" where
  "reboot ts keep e =
    (let saved = List.map_filter (ExportTemplate ts (e_Templates e)) keep;
         (s, doms) = fold (restore_record ts) saved (ResetTemplates ts (e_Templates e), []);
         e = e\<lparr>e_Templates := snd (drainAdded s)\<rparr>;
         e = drop_pending_stat (length (e_pending e)) e;
         e = e\<lparr>e_pending := [], e_pendSize := 0\<rparr>;
         e = forgetUnlisted doms (e_domains e) e;
         e = e\<lparr>e_domains := doms, e_sampling := [], e_sysInit := [], e_est := []\<rparr>
     in upd_stats (\<lambda>s. s\<lparr>st_Reboots := st_Reboots s + 1\<rparr>) e)"

subsection \<open>Sampling\<close>

text \<open>The loop over the values of one options record: \<open>(interval, space)\<close>.\<close>

definition sampling_value :: "data_field \<Rightarrow> u64 \<times> u64 \<Rightarrow> u64 \<times> u64" where
  "sampling_value v st =
    (let (n, ok) = beUint (case df_Value v of None \<Rightarrow> [] | Some b \<Rightarrow> b)
     in if \<not> ok \<or> df_PenProvided v then st
        else if df_Type v = 34 \<or> df_Type v = 50 then (n, 0)
        else if df_Type v = 305 then (n, snd st)
        else if df_Type v = 306 then (fst st, n)
        else st)"

definition sampling_rate_of :: "data_field list \<Rightarrow> u32 option" where
  "sampling_rate_of vals =
    (let (interval, space) = fold sampling_value vals (0, 0)
     in if interval = 0 then None
        else (let rate = (if space > 0 then (interval + space) div interval else interval)
              in if rate > 0 \<and> rate \<le> 0x80000000 then Some (ucast rate) else None))"

definition learnSampling :: "domainKey \<Rightarrow> data_field list list \<Rightarrow> 's Exporter \<Rightarrow> 's Exporter" where
  "learnSampling dk recs e = fold (\<lambda>r e. case sampling_rate_of r of
      None \<Rightarrow> e | Some rate \<Rightarrow> e\<lparr>e_sampling := gm_put dk rate (e_sampling e)\<rparr>) recs e"

definition samplingFor :: "'s Exporter \<Rightarrow> domainKey \<Rightarrow> u32" where
  "samplingFor e dk = (case gm_get (e_sampling e) dk of
      Some r \<Rightarrow> if r > 0 then r else e_SamplingOverride e
    | None \<Rightarrow> e_SamplingOverride e)"

definition SamplingRate :: "'s Exporter \<Rightarrow> u16 \<Rightarrow> u32 \<Rightarrow> u32" where
  "SamplingRate e version obs = max (samplingFor e (version, obs)) 1"

subsection \<open>Data sets waiting for their template\<close>

definition pend_bytes :: "pendingSet list \<Rightarrow> nat" where
  "pend_bytes ps = sum_list (map (\<lambda>p. length (ps_raw p)) ps)"

definition expirePending :: "time \<Rightarrow> 's Exporter \<Rightarrow> 's Exporter" where
  "expirePending now e =
    (let fresh = (\<lambda>p. t_sub now (c_received (ps_ctx p)) < PendingTTL);
         kept = filter fresh (e_pending e);
         expired = length (filter (\<lambda>p. \<not> fresh p) (e_pending e))
     in drop_pending_stat expired (e\<lparr>e_pending := kept, e_pendSize := pend_bytes kept\<rparr>))"

definition bufferPending :: "TemplateKey \<Rightarrow> bytes \<Rightarrow> recordCtx \<Rightarrow> 's Exporter \<Rightarrow> 's Exporter" where
  "bufferPending k raw ctx e =
    (let e = expirePending (c_received ctx) e
     in if length (e_pending e) \<ge> MaxPendingSets \<or> e_pendSize e + length raw > MaxPendingBytes
        then drop_pending_stat 1 e
        else e\<lparr>e_pending := e_pending e @ [\<lparr>ps_key = k, ps_raw = raw, ps_ctx = ctx\<rparr>],
               e_pendSize := e_pendSize e + length raw\<rparr>)"

subsection \<open>The uptime estimate\<close>

definition addEstBound :: "domainKey \<Rightarrow> time \<Rightarrow> int \<Rightarrow> 's Exporter \<Rightarrow> 's Exporter" where
  "addEstBound dk at bound e =
    (let bs = (case gm_get (e_est e) dk of None \<Rightarrow> [] | Some bs \<Rightarrow> bs);
         kept = filter (\<lambda>b. t_sub at (eb_at b) < estWindow) bs;
         kept = (if length kept \<ge> maxEstBounds then drop 1 kept else kept)
     in e\<lparr>e_est := gm_put dk (kept @ [\<lparr>eb_at = at, eb_bound = bound\<rparr>]) (e_est e)\<rparr>)"

definition estimate :: "'s Exporter \<Rightarrow> domainKey \<Rightarrow> time \<Rightarrow> int option" where
  "estimate e dk now =
    fold (\<lambda>b best. if t_sub now (eb_at b) \<ge> estWindow then best
                   else (case best of None \<Rightarrow> Some (eb_bound b)
                         | Some x \<Rightarrow> if eb_bound b < x then Some (eb_bound b) else Some x))
      (case gm_get (e_est e) dk of None \<Rightarrow> [] | Some bs \<Rightarrow> bs) None"

definition absDiff :: "u64 \<Rightarrow> u64 \<Rightarrow> u64" where
  "absDiff a b = (if a > b then a - b else b - a)"

subsection \<open>finish\<close>

text \<open>The locals of the first loop of \<open>finish\<close> next to the exporter.\<close>

record 's fin_state =
  fi_e :: "'s Exporter"
  fi_rebooted :: bool
  fi_needEst :: bool
  fi_maxEnd :: u64

definition fin_scan :: "'s template_system \<Rightarrow> domainKey \<Rightarrow> TemplateKey list \<Rightarrow> bool \<Rightarrow> rawRecord \<Rightarrow> 's fin_state \<Rightarrow> 's fin_state" where
  "fin_scan ts dk learned live r st =
    (if r_sysInitMs r > 0 then
       (if \<not> live then st
        else
          (let jump = (case gm_get (e_sysInit (fi_e st)) dk of None \<Rightarrow> False
                       | Some l \<Rightarrow> \<not> fi_rebooted st \<and> absDiff l (r_sysInitMs r) > sysInitJump);
               st = (if jump then st\<lparr>fi_e := reboot ts learned (fi_e st), fi_rebooted := True\<rparr> else st)
           in st\<lparr>fi_e := (fi_e st)\<lparr>e_sysInit := gm_put dk (r_sysInitMs r) (e_sysInit (fi_e st))\<rparr>\<rparr>))
     else if r_hasUp r then st\<lparr>fi_needEst := True, fi_maxEnd := max (fi_maxEnd st) (r_upEnd r AND mask62)\<rparr>
     else st)"

text \<open>The times of one record: the \<open>switch\<close> of the second loop.\<close>

definition record_times :: "recordCtx \<Rightarrow> int \<Rightarrow> int option \<Rightarrow> rawRecord \<Rightarrow> time \<times> time \<times> time_source" where
  "record_times ctx exportMs est r =
    (if \<not> is_zero (r_absStart r) \<and> \<not> is_zero (r_absEnd r) then (r_absStart r, r_absEnd r, TimeAbsolute)
     else if \<not> is_zero (r_absStart r) \<or> \<not> is_zero (r_absEnd r) then
       (let t = (if is_zero (r_absEnd r) then r_absStart r else r_absEnd r) in (t, t, TimeAbsolute))
     else if c_kind ctx = KindNFv9 \<and> r_hasUp r then
       (c_exportTime ctx - v9Offset (c_sysUptimeMs ctx) (r_upStart r),
        c_exportTime ctx - v9Offset (c_sysUptimeMs ctx) (r_upEnd r), TimeSysUptime)
     else if c_kind ctx = KindIPFIX \<and> r_hasUp r \<and> r_sysInitMs r > 0 then
       (let base = uint (r_sysInitMs r AND mask62) in
        (time_UnixMilli (unwrapUptime base (r_upStart r) exportMs),
         time_UnixMilli (unwrapUptime base (r_upEnd r) exportMs), TimeSysUptime))
     else (case est of
         Some b \<Rightarrow>
           (if c_kind ctx = KindIPFIX \<and> r_hasUp r then
              (time_UnixMilli (unwrapUptime b (r_upStart r) exportMs),
               time_UnixMilli (unwrapUptime b (r_upEnd r) exportMs), TimeUptimeEst)
            else (c_exportTime ctx, c_exportTime ctx, TimeExport))
       | None \<Rightarrow> (c_exportTime ctx, c_exportTime ctx, TimeExport)))"

definition finish_record :: "recordCtx \<Rightarrow> int \<Rightarrow> int option \<Rightarrow> rawRecord \<Rightarrow> flow" where
  "finish_record ctx exportMs est r =
    (let skew = t_sub (c_received ctx) (c_exportTime ctx);
         f = r_f r;
         f = (if r_hasUp r then f\<lparr>f_RawStart := r_upStart r, f_RawEnd := r_upEnd r\<rparr> else f);
         (st, en, src) = record_times ctx exportMs est r;
         f = f\<lparr>f_Start := st, f_End := en, f_TimeSource := src\<rparr>;
         f = applySkew (sanitizeTimes f (c_exportTime ctx)) skew
     in r_f (scale (r\<lparr>r_f := f\<rparr>) (c_sampling ctx)))"

definition finish :: "'s template_system \<Rightarrow> rawRecord list \<Rightarrow> recordCtx \<Rightarrow> TemplateKey list \<Rightarrow> bool \<Rightarrow> 's Exporter \<Rightarrow>
    's Exporter \<times> flow list \<times> bool" where
  "finish ts recs ctx learned live e =
    (if recs = [] then (e, [], False)
     else
       (let dk = (10, c_obs ctx);
            exportMs = unix_milli (c_exportTime ctx);
            (e, est, rebooted) =
              (if c_kind ctx = KindIPFIX then
                 (let st = fold (fin_scan ts dk learned live) recs
                             \<lparr>fi_e = e, fi_rebooted = False, fi_needEst = False, fi_maxEnd = 0\<rparr>;
                      e = fi_e st
                  in if fi_needEst st then
                       (let bound = wrap64 (exportMs + 999 - uint (fi_maxEnd st));
                            e = (if live then addEstBound dk (c_received ctx) bound e else e);
                            est = (case estimate e dk (c_received ctx) of None \<Rightarrow> bound
                                   | Some x \<Rightarrow> if bound < x then bound else x)
                        in (e, Some est, fi_rebooted st))
                     else (e, None, fi_rebooted st))
               else (e, None, False))
        in (e, map (finish_record ctx exportMs est) recs, rebooted)))"

subsection \<open>Replaying buffered sets\<close>

text \<open>\<open>rr\<close>: the records of a set that \<open>parseDataRecord\<close> accepts.\<close>

definition parse_records :: "recordCtx \<Rightarrow> data_field list list \<Rightarrow> rawRecord list" where
  "parse_records ctx recs = map fst (filter snd (map (\<lambda>vals. parseDataRecord vals ctx) recs))"

text \<open>One buffered set under its template, after the budget check; \<open>None\<close> is a decoder panic.\<close>

definition replay_set :: "'s template_system \<Rightarrow> 's decoders \<Rightarrow> pendingSet \<Rightarrow> tmpl \<Rightarrow> 's Exporter \<Rightarrow>
    's Exporter \<times> flow list option" where
  "replay_set ts d p t e =
    (let ver = k_Version (ps_key p); dk = (ver, k_ObsDomain (ps_key p)) in
     case t of
       NFTemplate _ _ flds \<Rightarrow> (case d_dataset d ver (ps_raw p) flds of
           None \<Rightarrow> (e, None)
         | Some (recs, err) \<Rightarrow>
             if err \<and> length recs = 0 then (drop_pending_stat 1 e, Some [])
             else (let ctx = (ps_ctx p)\<lparr>c_sampling := samplingFor e dk\<rparr>;
                       (e, flows, _) = finish ts (parse_records ctx recs) ctx [] False e
                   in (replayed_stat e, Some flows)))
     | IPFIXOptionsTemplate _ _ _ opts scopes \<Rightarrow> (case d_optset d ver (ps_raw p) scopes opts of
           None \<Rightarrow> (e, None)
         | Some (recs, _) \<Rightarrow> (replayed_stat (learnSampling dk recs e), Some []))
     | NFv9OptionsTemplate _ _ _ scopes opts \<Rightarrow> (case d_optset d ver (ps_raw p) scopes opts of
           None \<Rightarrow> (e, None)
         | Some (recs, _) \<Rightarrow> (replayed_stat (learnSampling dk recs e), Some []))
     | OtherTemplate \<Rightarrow> (replayed_stat e, Some []))"

text \<open>The budget check: \<open>Inl ()\<close> drops the set, \<open>Inr\<close> is the remaining budget.\<close>

definition replay_budget :: "pendingSet \<Rightarrow> tmpl \<Rightarrow> nat \<Rightarrow> unit + nat" where
  "replay_budget p t budget = (case templateFields t of
      Inl _ \<Rightarrow> Inr budget
    | Inr (flds, _) \<Rightarrow>
       (let n = minRecordLen flds
        in if n = 0 \<or> length (ps_raw p) div n > budget then Inl ()
           else Inr (budget - length (ps_raw p) div n)))"

fun replay_loop :: "'s template_system \<Rightarrow> 's decoders \<Rightarrow> pendingSet list \<Rightarrow> nat \<Rightarrow> flow list \<Rightarrow> 's Exporter \<Rightarrow>
    's Exporter \<times> flow list option" where
  "replay_loop ts d [] budget out e = (e, Some out)"
| "replay_loop ts d (p # ps) budget out e =
    (case GetTemplate ts (k_Version (ps_key p)) (k_ObsDomain (ps_key p)) (k_ID (ps_key p)) (e_Templates e) of
       None \<Rightarrow> replay_loop ts d ps budget out (drop_pending_stat 1 e)
     | Some t \<Rightarrow> (case replay_budget p t budget of
           Inl _ \<Rightarrow> replay_loop ts d ps budget out (drop_pending_stat 1 e)
         | Inr budget' \<Rightarrow> (case replay_set ts d p t e of
               (e, None) \<Rightarrow> (e, None)
             | (e, Some flows) \<Rightarrow> replay_loop ts d ps budget' (out @ flows) e)))"

definition replay :: "'s template_system \<Rightarrow> 's decoders \<Rightarrow> TemplateKey list \<Rightarrow> time \<Rightarrow> 's Exporter \<Rightarrow>
    's Exporter \<times> flow list option" where
  "replay ts d added now e =
    (let e = expirePending now e;
         kept = filter (\<lambda>p. ps_key p \<notin> set added) (e_pending e);
         replayed = filter (\<lambda>p. ps_key p \<in> set added) (e_pending e);
         e = e\<lparr>e_pending := kept, e_pendSize := pend_bytes kept\<rparr>
     in replay_loop ts d replayed maxReplayRecords [] e)"

subsection \<open>decodeTemplated\<close>

text \<open>The v9 header up to the precheck: uptime, time, sequence, domain and the normalised datagram.\<close>

definition v9_header :: "'s template_system \<Rightarrow> bytes \<Rightarrow> 's Exporter \<Rightarrow>
    (derror + u32 \<times> u32 \<times> u32 \<times> u32 \<times> bytes \<times> derror option) option" where
  "v9_header ts pkt e = (if length pkt < 20 then Some (Inl ErrShort) else do {
     uptime \<leftarrow> rd32 pkt 4;
     secs \<leftarrow> rd32 pkt 8;
     sq \<leftarrow> rd32 pkt 12;
     obs \<leftarrow> rd32 pkt 16;
     if \<not> canAdmit e (9, obs) then Some (Inl ErrTooManyDomains) else do {
       (pkt, v9Err) \<leftarrow> normalizeV9 pkt;
       err \<leftarrow> precheckTemplated (\<lambda>i. minRecord ts 9 obs i (e_Templates e)) pkt 9;
       case err of Some x \<Rightarrow> Some (Inl x)
         | None \<Rightarrow> Some (Inr (uptime, secs, sq, obs, pkt, v9Err)) } })"

definition v9_rebooted :: "u32 \<Rightarrow> time \<Rightarrow> v9UptimeState \<Rightarrow> bool" where
  "v9_rebooted uptime now st =
    (let drift = wrap64 (sint (uptime - vu_uptime st) * nanos_per_ms - t_sub now (vu_received st))
     in drift < - v9UptimeJump \<or> drift > v9UptimeJump)"

definition v9_track :: "'s template_system \<Rightarrow> u32 \<Rightarrow> u32 \<Rightarrow> domainKey \<Rightarrow> time \<Rightarrow> 's Exporter \<Rightarrow> 's Exporter \<times> bool" where
  "v9_track ts uptime sq dk now e =
    (let rebooted = (case gm_get (e_v9Up e) dk of None \<Rightarrow> False | Some st \<Rightarrow> v9_rebooted uptime now st);
         e = (if rebooted then reboot ts [] e else e);
         e = e\<lparr>e_v9Up := gm_put dk \<lparr>vu_uptime = uptime, vu_received = now\<rparr> (e_v9Up e)\<rparr>;
         e = (if e_SkipV9Seq e then e
              else (let e = (case gm_get (e_v9Seq e) dk of
                        Some l \<Rightarrow> if \<not> rebooted then countGap sq (l + 1) maxSeqGap e else e
                      | None \<Rightarrow> e)
                    in e\<lparr>e_v9Seq := gm_put dk sq (e_v9Seq e)\<rparr>))
     in (e, rebooted))"

definition ipfix_header :: "'s template_system \<Rightarrow> bytes \<Rightarrow> 's Exporter \<Rightarrow> (derror + u32 \<times> u32 \<times> u32) option" where
  "ipfix_header ts pkt e = (if length pkt < 16 then Some (Inl ErrShort) else do {
     secs \<leftarrow> rd32 pkt 4;
     sq \<leftarrow> rd32 pkt 8;
     obs \<leftarrow> rd32 pkt 12;
     if \<not> canAdmit e (10, obs) then Some (Inl ErrTooManyDomains) else do {
       err \<leftarrow> precheckTemplated (\<lambda>i. minRecord ts 10 obs i (e_Templates e)) pkt 10;
       case err of Some x \<Rightarrow> Some (Inl x) | None \<Rightarrow> Some (Inr (secs, sq, obs)) } })"

definition ipfix_rebooted :: "u32 \<Rightarrow> ipfixSeqState \<Rightarrow> bool" where
  "ipfix_rebooted sq st \<longleftrightarrow>
    is_last st > ipfixSeqHigh \<and> sq < ipfixSeqLow \<and> uint (sq - is_last st) \<ge> maxIPFIXSeqGap"

definition ipfix_track :: "'s template_system \<Rightarrow> u32 \<Rightarrow> domainKey \<Rightarrow> 's Exporter \<Rightarrow> 's Exporter \<times> bool" where
  "ipfix_track ts sq dk e =
    (let rebooted = (case gm_get (e_ipfixSeq e) dk of None \<Rightarrow> False | Some st \<Rightarrow> ipfix_rebooted sq st)
     in (if rebooted then reboot ts [] e else e, rebooted))"

text \<open>Passes 1 and 2 over the flow sets; pass 2 carries the records, their number and \<open>rawSets\<close>.\<close>

definition pass1 :: "domainKey \<Rightarrow> flow_set \<Rightarrow> 's Exporter \<times> nat \<Rightarrow> 's Exporter \<times> nat" where
  "pass1 dk s st = (case s of
      OptionsDataFlowSet recs \<Rightarrow> (learnSampling dk recs (fst st), snd st + length recs)
    | _ \<Rightarrow> st)"

definition pass2 :: "u16 \<Rightarrow> recordCtx \<Rightarrow> flow_set \<Rightarrow> 's Exporter \<times> rawRecord list \<times> nat \<times> bool \<Rightarrow>
    's Exporter \<times> rawRecord list \<times> nat \<times> bool" where
  "pass2 version ctx s st = (case st of (e, recs, n, raw) \<Rightarrow> (case s of
      DataFlowSet rs \<Rightarrow> (e, recs @ parse_records ctx rs, n + length rs, raw)
    | RawFlowSet i b \<Rightarrow>
        if i \<ge> 256 then
          (bufferPending \<lparr>k_Version = version, k_ObsDomain = c_obs ctx, k_ID = i\<rparr> b ctx (missed_stat e), recs, n, True)
        else st
    | _ \<Rightarrow> st))"

definition ipfix_seq_update :: "domainKey \<Rightarrow> u32 \<Rightarrow> nat \<Rightarrow> bool \<Rightarrow> bool \<Rightarrow> 's Exporter \<Rightarrow> 's Exporter" where
  "ipfix_seq_update dk sq dataRecords rawSets rebooted e =
    (let e = (case gm_get (e_ipfixSeq e) dk of
           Some st \<Rightarrow> if is_nextKnown st \<and> \<not> rebooted then countGap sq (is_next st) maxIPFIXSeqGap e else e
         | None \<Rightarrow> e)
     in e\<lparr>e_ipfixSeq := gm_put dk \<lparr>is_last = sq, is_next = sq + word_of_nat dataRecords, is_nextKnown = \<not> rawSets\<rparr>
           (e_ipfixSeq e)\<rparr>)"

definition dedupKeys :: "TemplateKey list \<Rightarrow> TemplateKey list" where
  "dedupKeys ks = rev (foldl (\<lambda>out k. if k \<in> set out then out else k # out) [] ks)"

text \<open>
  From the decoded flow sets to the flows of this datagram: passes 1 and 2, the IPFIX
  sequence state, the drained template lists and \<open>finish\<close>. The result carries
  \<open>learned\<close> and \<open>dataRecords\<close> on to the last stage.
\<close>

definition templated_passes :: "'s template_system \<Rightarrow> u16 \<Rightarrow> u32 \<Rightarrow> recordCtx \<Rightarrow> flow_set list \<Rightarrow> Result \<Rightarrow>
    's Exporter \<Rightarrow> 's Exporter \<times> Result \<times> TemplateKey list \<times> nat" where
  "templated_passes ts version ipfixSeq ctx sets res e =
    (let dk = (version, c_obs ctx);
         (e, n) = fold (pass1 dk) sets (e, 0);
         ctx = ctx\<lparr>c_sampling := samplingFor e dk\<rparr>;
         (e, recs, dataRecords, rawSets) = fold (pass2 version ctx) sets (e, [], n, False);
         e = (if version = 10 then ipfix_seq_update dk ipfixSeq dataRecords rawSets (res_Rebooted res) e else e);
         (learned, s) = drainAdded (e_Templates e);
         (withdrawn, s) = drainWithdrawn s;
         res = res\<lparr>res_Withdrawn := withdrawn\<rparr>;
         (e, flows, rebooted) = finish ts recs ctx learned True (e\<lparr>e_Templates := s\<rparr>);
         res = res\<lparr>res_Rebooted := res_Rebooted res \<or> rebooted, res_Flows := flows\<rparr>
     in (e, res, learned, dataRecords))"

text \<open>Pass 3 and the admission of the domain. \<open>None\<close> is a decoder panic during the replay.\<close>

definition templated_end :: "'s template_system \<Rightarrow> 's decoders \<Rightarrow> domainKey \<Rightarrow> time \<Rightarrow> Result \<Rightarrow> TemplateKey list \<Rightarrow> nat \<Rightarrow>
    's Exporter \<Rightarrow> 's Exporter \<times> Result option" where
  "templated_end ts d dk now res learned dataRecords e =
    (let (e, replayed) = (if learned \<noteq> [] then replay ts d learned now e else (e, Some []))
     in case replayed of None \<Rightarrow> (e, None) | Some rflows \<Rightarrow>
       (let res = res\<lparr>res_Flows := res_Flows res @ rflows,
              res_Learned := res_Learned res @ List.map_filter (ExportTemplate ts (e_Templates e)) (dedupKeys learned)\<rparr>;
            e = (if learned \<noteq> [] \<or> dataRecords > 0 \<or> res_Flows res \<noteq> [] then admit dk e else e);
            e = (if gm_has (e_domains e) dk then e else forgetDomain dk e)
        in (e, Some res)))"

text \<open>Everything from the call of the decoder on. \<open>None\<close> is a decoder panic.\<close>

definition templated_sets :: "'s template_system \<Rightarrow> 's decoders \<Rightarrow> u16 \<Rightarrow> u32 \<Rightarrow> recordCtx \<Rightarrow> derror option \<Rightarrow> bytes \<Rightarrow>
    time \<Rightarrow> Result \<Rightarrow> 's Exporter \<Rightarrow> 's Exporter \<times> (Result \<times> derror option) option" where
  "templated_sets ts d version ipfixSeq ctx v9Err pkt now res e =
    (case d_nf d pkt (e_Templates e) of (calls, out) \<Rightarrow>
      (let e = e\<lparr>e_Templates := fold (store_step ts) calls (e_Templates e)\<rparr>
       in case out of None \<Rightarrow> (e, None) | Some (sets, derr) \<Rightarrow>
         (case templated_passes ts version ipfixSeq ctx sets res e of (e, res, learned, dataRecords) \<Rightarrow>
           (case templated_end ts d (version, c_obs ctx) now res learned dataRecords e of
              (e, None) \<Rightarrow> (e, None)
            | (e, Some res) \<Rightarrow> (e, Some (res, case derr of
                  Some x \<Rightarrow> if x \<noteq> ErrTemplateNotFound then Some x else v9Err
                | None \<Rightarrow> v9Err))))))"

definition decodeTemplated :: "'s template_system \<Rightarrow> 's decoders \<Rightarrow> bytes \<Rightarrow> time \<Rightarrow> Result \<Rightarrow> 's Exporter \<Rightarrow>
    's Exporter \<times> (Result \<times> derror option) option" where
  "decodeTemplated ts d pkt now res e =
    (if res_Kind res = KindNFv9 then
       (case v9_header ts pkt e of
          None \<Rightarrow> (e, None)
        | Some (Inl err) \<Rightarrow> (e, Some (res, Some err))
        | Some (Inr (uptime, secs, sq, obs, pkt, v9Err)) \<Rightarrow>
           (let (e, rebooted) = v9_track ts uptime sq (9, obs) now e;
                export = time_Unix (uint secs) 0;
                ctx = \<lparr>c_kind = KindNFv9, c_obs = obs, c_exportTime = export, c_received = now,
                       c_sysUptimeMs = uptime, c_sampling = 0\<rparr>;
                res = res\<lparr>res_Rebooted := rebooted, res_ExportTime := export, res_ClockSkew := t_sub now export\<rparr>
            in templated_sets ts d 9 0 ctx v9Err pkt now res e))
     else
       (case ipfix_header ts pkt e of
          None \<Rightarrow> (e, None)
        | Some (Inl err) \<Rightarrow> (e, Some (res, Some err))
        | Some (Inr (secs, sq, obs)) \<Rightarrow>
           (let (e, rebooted) = ipfix_track ts sq (10, obs) e;
                export = time_Unix (uint secs) 0;
                ctx = \<lparr>c_kind = KindIPFIX, c_obs = obs, c_exportTime = export, c_received = now,
                       c_sysUptimeMs = 0, c_sampling = 0\<rparr>;
                res = res\<lparr>res_Rebooted := rebooted, res_ExportTime := export, res_ClockSkew := t_sub now export\<rparr>
            in templated_sets ts d 10 sq ctx None pkt now res e)))"

subsection \<open>Decode\<close>

definition decode_v5 :: "'s decoders \<Rightarrow> bytes \<Rightarrow> time \<Rightarrow> Result \<Rightarrow> 's Exporter \<Rightarrow>
    's Exporter \<times> (Result \<times> derror option) option" where
  "decode_v5 d pkt now res e = (case PrecheckV5 pkt of
      None \<Rightarrow> (e, None)
    | Some (Some err) \<Rightarrow> (e, Some (res, Some err))
    | Some None \<Rightarrow> (case d_v5 d pkt of
          DecPanic \<Rightarrow> (e, None)
        | DecErr err \<Rightarrow> (e, Some (res, Some err))
        | DecOk p \<Rightarrow>
           (let export = time_Unix (uint (v5_UnixSecs p)) (uint (v5_UnixNSecs p mod 1000000000))
            in (e, Some (res\<lparr>res_ExportTime := export, res_ClockSkew := t_sub now export,
                             res_Flows := fromV5 p (e_SamplingOverride e) now\<rparr>, None)))))"

definition decode_sflow :: "'s decoders \<Rightarrow> bytes \<Rightarrow> time \<Rightarrow> Result \<Rightarrow> 's Exporter \<Rightarrow>
    's Exporter \<times> (Result \<times> derror option) option" where
  "decode_sflow d pkt now res e = (case PrecheckSFlow pkt of
      None \<Rightarrow> (e, None)
    | Some (Some err) \<Rightarrow> (e, Some (res, Some err))
    | Some None \<Rightarrow> (case d_sflow d pkt of
          DecPanic \<Rightarrow> (e, None)
        | DecErr err \<Rightarrow> (e, Some (res, Some err))
        | DecOk p \<Rightarrow>
           (let dk = (5, agentKey (sp_AgentIP p) (sp_SubAgentId p)) in
            if \<not> canAdmit e dk then (e, Some (res, Some ErrTooManyDomains))
            else (case fromSFlow (sp_Samples p) now of
                None \<Rightarrow> (e, None)
              | Some (flows, counters) \<Rightarrow>
                 (let res = res\<lparr>res_Flows := flows, res_Counters := counters\<rparr>;
                      e = (if flows \<noteq> [] \<or> counters \<noteq> [] then admit dk e else e);
                      e = (if gm_has (e_domains e) dk then
                             (let e = (case gm_get (e_sfSeq e) dk of
                                   Some l \<Rightarrow> countGap (sp_SequenceNumber p) (l + 1) maxSeqGap e
                                 | None \<Rightarrow> e)
                              in e\<lparr>e_sfSeq := gm_put dk (sp_SequenceNumber p) (e_sfSeq e)\<rparr>)
                           else e)
                  in (e, Some (res, None)))))))"

definition decode_body :: "'s template_system \<Rightarrow> 's decoders \<Rightarrow> bytes \<Rightarrow> time \<Rightarrow> 's Exporter \<Rightarrow>
    's Exporter \<times> (Result \<times> derror option) option" where
  "decode_body ts d pkt now e =
    (if length pkt < 4 then (e, Some (zero_Result, Some ErrShort))
     else (case Sniff pkt of
         None \<Rightarrow> (e, None)
       | Some k \<Rightarrow>
          (let res = zero_Result\<lparr>res_Kind := k\<rparr> in
           case k of
             KindNFv5 \<Rightarrow> decode_v5 d pkt now res e
           | KindNFv9 \<Rightarrow> decodeTemplated ts d pkt now res e
           | KindIPFIX \<Rightarrow> decodeTemplated ts d pkt now res e
           | KindSFlow \<Rightarrow> decode_sflow d pkt now res e
           | KindUnknown \<Rightarrow> (case rd16 pkt 0 of
                 None \<Rightarrow> (e, None)
               | Some v \<Rightarrow> (e, Some (res, Some (Rejectf (UnknownVersion v))))))))"

text \<open>
  The deferred function of \<open>Decode\<close>: a recovered panic becomes an error without flows,
  and every datagram is accounted for.
\<close>

definition account_error :: "derror option \<Rightarrow> 's Exporter \<Rightarrow> 's Exporter" where
  "account_error err e = (case err of None \<Rightarrow> e
     | Some x \<Rightarrow> upd_stats (\<lambda>s. (if IsRejected x then s\<lparr>st_Rejected := st_Rejected s + 1\<rparr>
                                else s\<lparr>st_DecodeErrors := st_DecodeErrors s + 1\<rparr>)\<lparr>st_LastError := Some x\<rparr>) e)"

definition account_flows :: "flow list \<Rightarrow> 's Exporter \<Rightarrow> 's Exporter" where
  "account_flows flows e = upd_stats (\<lambda>s. s\<lparr>st_Flows := st_Flows s + length flows,
     st_TimeSources := fold (\<lambda>f c. c(f_TimeSource f := c (f_TimeSource f) + 1)) flows (st_TimeSources s)\<rparr>) e"

definition Decode :: "'s template_system \<Rightarrow> 's decoders \<Rightarrow> bytes \<Rightarrow> time \<Rightarrow> 's Exporter \<Rightarrow>
    's Exporter \<times> Result \<times> derror option" where
  "Decode ts d pkt now e =
    (let e = datagram_stat e;
         (e, r) = decode_body ts d pkt now e;
         (e, res, err) = (case r of
             None \<Rightarrow> (panic_stat e,
                      zero_Result\<lparr>res_Kind := (case Sniff pkt of None \<Rightarrow> KindUnknown | Some k \<Rightarrow> k)\<rparr>, Some ErrPanic)
           | Some (res, err) \<Rightarrow> (e, res, err))
     in (account_flows (res_Flows res) (account_error err e), res, err))"

definition load_template :: "'s template_system \<Rightarrow> TemplateRecord \<Rightarrow> 's Exporter \<times> nat \<times> derror list \<Rightarrow>
    's Exporter \<times> nat \<times> derror list" where
  "load_template ts r st = (case st of (e, loaded, errs) \<Rightarrow>
    (let dk = (tr_Version r, tr_ObsDomain r) in
     if \<not> canAdmit e dk then (e, loaded, errs @ [ErrTooManyDomains])
     else (case ImportTemplate ts r (e_Templates e) of
         Some (Some err, s) \<Rightarrow> (e\<lparr>e_Templates := s\<rparr>, loaded, errs @ [err])
       | Some (None, s) \<Rightarrow> (admit dk (e\<lparr>e_Templates := s\<rparr>), loaded + 1, errs)
       | None \<Rightarrow> st)))"

text \<open>\<open>ImportTemplate\<close> does not panic (lemma \<open>ImportTemplate_safe\<close>); the last branch is not reached.\<close>

definition LoadTemplates :: "'s template_system \<Rightarrow> TemplateRecord list \<Rightarrow> 's Exporter \<Rightarrow> 's Exporter \<times> nat \<times> derror list" where
  "LoadTemplates ts recs e = fold (load_template ts) recs (e, 0, [])"

subsection \<open>Stages of a datagram\<close>

text \<open>The intermediate states of \<open>templated_passes\<close> and \<open>templated_end\<close>.\<close>

lemma templated_passes_run:
  assumes "templated_passes ts v sq ctx sets res e = (e', res', learned, n)"
  obtains e1 n1 ctx' e2 recs raw e3 fl rb where
    "fold (pass1 (v, c_obs ctx)) sets (e, 0) = (e1, n1)"
    "ctx' = ctx\<lparr>c_sampling := samplingFor e1 (v, c_obs ctx)\<rparr>"
    "fold (pass2 v ctx') sets (e1, [], n1, False) = (e2, recs, n, raw)"
    "e3 = (if v = 10 then ipfix_seq_update (v, c_obs ctx) sq n raw (res_Rebooted res) e2 else e2)"
    "learned = s_added (e_Templates e3)"
    "finish ts recs ctx' learned True (e3\<lparr>e_Templates := snd (drainWithdrawn (snd (drainAdded (e_Templates e3))))\<rparr>)
      = (e', fl, rb)"
    "res' = res\<lparr>res_Withdrawn := s_withdrawn (e_Templates e3), res_Rebooted := res_Rebooted res \<or> rb, res_Flows := fl\<rparr>"
  using assms unfolding templated_passes_def Let_def
  by (auto simp: drainAdded_def drainWithdrawn_def split: prod.splits)

lemma templated_end_run:
  assumes "templated_end ts d dk now res learned n e = (e', r)"
  obtains e1 replayed where
    "(if learned \<noteq> [] then replay ts d learned now e else (e, Some [])) = (e1, replayed)"
    "replayed = None \<Longrightarrow> e' = e1 \<and> r = None"
    "\<And>fs. replayed = Some fs \<Longrightarrow> \<exists>res' e2. r = Some res' \<and> res_Flows res' = res_Flows res @ fs \<and>
       e2 = (if learned \<noteq> [] \<or> n > 0 \<or> res_Flows res' \<noteq> [] then admit dk e1 else e1) \<and>
       e' = (if gm_has (e_domains e2) dk then e2 else forgetDomain dk e2)"
proof -
  obtain e1 replayed where r: "(if learned \<noteq> [] then replay ts d learned now e else (e, Some [])) = (e1, replayed)"
    by force
  show ?thesis
    by (rule that [OF r]) (use assms in \<open>auto simp: templated_end_def r Let_def\<close>)
qed

lemma templated_sets_run:
  assumes "templated_sets ts d v sq ctx v9Err pkt now res e = (e', r)"
  obtains calls out e1 where "d_nf d pkt (e_Templates e) = (calls, out)"
    "e1 = e\<lparr>e_Templates := fold (store_step ts) calls (e_Templates e)\<rparr>"
    "out = None \<Longrightarrow> e' = e1 \<and> r = None"
    "\<And>sets derr. out = Some (sets, derr) \<Longrightarrow> \<exists>e2 res2 learned n r2.
       templated_passes ts v sq ctx sets res e1 = (e2, res2, learned, n) \<and>
       templated_end ts d (v, c_obs ctx) now res2 learned n e2 = (e', r2) \<and>
       map_option fst r = r2"
proof -
  obtain calls out where nf: "d_nf d pkt (e_Templates e) = (calls, out)" by force
  show ?thesis
    by (rule that [OF nf refl])
       (use assms in \<open>auto simp: templated_sets_def nf Let_def split: prod.splits option.splits\<close>)
qed

text \<open>The state \<open>Decode\<close> leaves: that of \<open>decode_body\<close> up to statistics.\<close>

lemma upd_stats_same [simp]: "upd_stats (\<lambda>s. s) e = e"
  by (simp add: upd_stats_def)

lemma Decode_state:
  obtains h fs err where "fst (Decode ts d pkt now e)
    = account_flows fs (account_error err (upd_stats h (fst (decode_body ts d pkt now (datagram_stat e)))))"
proof -
  obtain e' r where b: "decode_body ts d pkt now (datagram_stat e) = (e', r)" by force
  show ?thesis
  proof (cases r)
    case None
    show ?thesis
      by (rule that [where h = "\<lambda>s. s\<lparr>st_Panics := st_Panics s + 1\<rparr>"])
         (simp add: Decode_def b None Let_def panic_stat_def)
  next
    case (Some p)
    obtain res err where "p = (res, err)" by force
    with Some b show ?thesis
      by (intro that [where h = "\<lambda>s. s" and err = err]) (simp add: Decode_def Let_def)
  qed
qed

end
