(* ===== verification/Exporter_Inv.thy ===== *)
theory Exporter_Inv
  imports Exporter
begin

text \<open>
  Invariants of an exporter under any behaviour of the goflow2 decoders.

  The locale \<open>exporter_invariant\<close> lists the elementary updates \<open>decode.go\<close> makes to an
  exporter; a predicate they preserve is preserved by \<open>decode_body\<close>, whatever the
  decoders return and wherever they panic. \<open>C\<close> is what the predicate needs to know of
  the record contexts that get buffered. The locale is interpreted on the memory bounds
  (\<open>mem_inv\<close>), on the frame of the counters only \<open>Decode\<close> itself writes, and (theory
  \<open>Exporter_Props\<close>) on the age of the buffered sets.
\<close>

subsection \<open>Predicates the elementary updates preserve\<close>

locale exporter_invariant =
  fixes ts :: "'s template_system" and C :: "recordCtx \<Rightarrow> bool" and I :: "'s Exporter \<Rightarrow> bool"
  assumes stat_ops: "I e \<Longrightarrow> I (drop_pending_stat n e)" "I e \<Longrightarrow> I (replayed_stat e)"
      "I e \<Longrightarrow> I (countGap got want mx e)"
      "I e \<Longrightarrow> I (missed_stat e)"
    and maps: "I e \<Longrightarrow> I (e\<lparr>e_sampling := sm\<rparr>)" "I e \<Longrightarrow> I (e\<lparr>e_v9Up := vu\<rparr>)" "I e \<Longrightarrow> I (e\<lparr>e_v9Seq := vs\<rparr>)"
      "I e \<Longrightarrow> I (e\<lparr>e_ipfixSeq := iq\<rparr>)" "I e \<Longrightarrow> I (e\<lparr>e_sfSeq := sq\<rparr>)" "I e \<Longrightarrow> I (e\<lparr>e_sysInit := si\<rparr>)"
    and admits: "I e \<Longrightarrow> I (admit dk e)"
    and forgets: "I e \<Longrightarrow> I (forgetDomain dk e)"
    and bounds: "I e \<Longrightarrow> I (addEstBound dk at bound e)"
    and pending: "I e \<Longrightarrow> I (e\<lparr>e_pending := filter P (e_pending e), e_pendSize := pend_bytes (filter P (e_pending e))\<rparr>)"
    and sampled: "C ctx \<Longrightarrow> C (ctx\<lparr>c_sampling := r\<rparr>)"
    and buffers: "I e \<Longrightarrow> C ctx \<Longrightarrow> I (bufferPending k raw ctx e)"
    and calls: "I e \<Longrightarrow> I (e\<lparr>e_Templates := fold (store_step ts) cs (e_Templates e)\<rparr>)"
    and drains: "I e \<Longrightarrow> I (e\<lparr>e_Templates := snd (drainWithdrawn (snd (drainAdded (e_Templates e))))\<rparr>)"
    and reboots: "I e \<Longrightarrow> I (reboot ts keep e)"
begin

lemma learnSampling: "I e \<Longrightarrow> I (learnSampling dk recs e)"
  unfolding learnSampling_def by (induction recs arbitrary: e) (auto simp: maps split: option.splits)

lemma expire: "I e \<Longrightarrow> I (expirePending now e)"
  by (simp add: expirePending_def Let_def stat_ops pending)

lemma fin_scans: "I (fi_e st) \<Longrightarrow> I (fi_e (fold (fin_scan ts dk learned live) recs st))"
proof (induction recs arbitrary: st)
  case (Cons r recs)
  have "I (fi_e (fin_scan ts dk learned live r st))"
    using Cons.prems by (simp add: fin_scan_def Let_def reboots maps)
  then show ?case by (simp add: Cons.IH)
qed simp

lemma finish: "I e \<Longrightarrow> I (fst (finish ts recs ctx learned live e))"
  using fin_scans [of "\<lparr>fi_e = e, fi_rebooted = False, fi_needEst = False, fi_maxEnd = 0\<rparr>"]
  by (simp add: finish_def Let_def split_beta bounds)

lemma replay_set: "I e \<Longrightarrow> I (fst (replay_set ts d p t e))"
  using finish
  by (auto simp: replay_set_def Let_def split_beta stat_ops learnSampling split: tmpl.splits option.splits)

lemma replay_loop: "I e \<Longrightarrow> I (fst (replay_loop ts d ps budget out e))"
proof (induction ps arbitrary: budget out e)
  case (Cons p ps)
  have "I e'" if "Exporter.replay_set ts d p t e = (e', r)" for t e' r
    using replay_set [OF Cons.prems, of d p t] that by simp
  with Cons show ?case
    by (auto simp: stat_ops split: option.splits sum.splits prod.splits)
qed simp

lemma replay: "I e \<Longrightarrow> I (fst (replay ts d added now e))"
  unfolding replay_def Let_def by (intro replay_loop pending expire)

lemma v9_track: "I e \<Longrightarrow> I (fst (v9_track ts uptime sq dk now e))"
  by (simp add: v9_track_def Let_def reboots maps stat_ops split: option.splits)

lemma ipfix_track: "I e \<Longrightarrow> I (fst (ipfix_track ts sq dk e))"
  by (simp add: ipfix_track_def Let_def reboots split: option.splits)

lemma pass1: "I (fst st) \<Longrightarrow> I (fst (fold (pass1 dk) sets st))"
proof (induction sets arbitrary: st)
  case (Cons s sets)
  have "I (fst (Exporter.pass1 dk s st))" using Cons.prems by (cases s) (simp_all add: pass1_def learnSampling)
  with Cons.IH show ?case by simp
qed simp

lemma pass2: "I (fst st) \<Longrightarrow> C ctx \<Longrightarrow> I (fst (fold (pass2 v ctx) sets st))"
proof (induction sets arbitrary: st)
  case (Cons s sets)
  have "I (fst (Exporter.pass2 v ctx s st))"
    using Cons.prems by (cases s) (auto simp: pass2_def Let_def buffers stat_ops split: prod.splits)
  with Cons show ?case by simp
qed simp

lemma seq_update: "I e \<Longrightarrow> I (ipfix_seq_update dk sq n rw rb e)"
  by (simp add: ipfix_seq_update_def Let_def maps stat_ops split: option.splits)

lemma passes:
  assumes e: "I e" and ctx: "C ctx" and run: "templated_passes ts v sq ctx sets res e = (e', res', learned, n)"
  shows "I e'"
  using run
proof (rule templated_passes_run)
  fix e1 n1 ctx' e2 recs rw e3 fl rb
  assume p1: "fold (Exporter.pass1 (v, c_obs ctx)) sets (e, 0) = (e1, n1)"
    and ctx': "ctx' = ctx\<lparr>c_sampling := samplingFor e1 (v, c_obs ctx)\<rparr>"
    and p2: "fold (Exporter.pass2 v ctx') sets (e1, [], n1, False) = (e2, recs, n, rw)"
    and e3: "e3 = (if v = 10 then ipfix_seq_update (v, c_obs ctx) sq n rw (res_Rebooted res) e2 else e2)"
    and fin: "Exporter.finish ts recs ctx' learned True (e3\<lparr>e_Templates := snd (drainWithdrawn (snd (drainAdded (e_Templates e3))))\<rparr>)
      = (e', fl, rb)"
  have "I e1" using pass1 [of "(e, 0)"] e p1 by (metis fst_conv)
  then have "I e2" using pass2 [OF _ sampled [OF ctx], of "(e1, [], n1, False)"] p2 ctx' by (metis fst_conv)
  then have "I e3" by (simp add: e3 seq_update)
  with finish [OF drains] fin show ?thesis by (metis fst_conv)
qed

lemma ending:
  assumes e: "I e" and run: "templated_end ts d dk now res learned n e = (e', r)"
  shows "I e'"
  using run
proof (rule templated_end_run)
  fix e1 replayed
  assume r: "(if learned \<noteq> [] then Exporter.replay ts d learned now e else (e, Some [])) = (e1, replayed)"
    and out: "replayed = None \<Longrightarrow> e' = e1 \<and> r = None"
      "\<And>fs. replayed = Some fs \<Longrightarrow> \<exists>res' e2. r = Some res' \<and> res_Flows res' = res_Flows res @ fs \<and>
       e2 = (if learned \<noteq> [] \<or> n > 0 \<or> res_Flows res' \<noteq> [] then admit dk e1 else e1) \<and>
       e' = (if gm_has (e_domains e2) dk then e2 else forgetDomain dk e2)"
  have "I e1" using replay [OF e, of d learned now] r e by (auto split: if_splits)
  then show ?thesis using out by (cases replayed) (auto intro!: forgets admits)
qed

lemma templated_sets: "I e \<Longrightarrow> C ctx \<Longrightarrow> I (fst (templated_sets ts d v sq ctx v9Err pkt now res e))"
proof -
  assume e: "I e" and ctx: "C ctx"
  obtain e' r where run: "Exporter.templated_sets ts d v sq ctx v9Err pkt now res e = (e', r)" by force
  from run have "I e'"
  proof (rule templated_sets_run)
    fix cs out e1
    assume "e1 = e\<lparr>e_Templates := fold (store_step ts) cs (e_Templates e)\<rparr>"
      and out: "out = None \<Longrightarrow> e' = e1 \<and> r = None"
        "\<And>sets derr. out = Some (sets, derr) \<Longrightarrow> \<exists>e2 res2 learned n r2.
           templated_passes ts v sq ctx sets res e1 = (e2, res2, learned, n) \<and>
           templated_end ts d (v, c_obs ctx) now res2 learned n e2 = (e', r2) \<and> map_option fst r = r2"
    then have e1: "I e1" using calls [OF e] by simp
    show ?thesis
    proof (cases out)
      case (Some p)
      obtain sets derr where "p = (sets, derr)" by force
      from out(2) [OF Some [unfolded this]] obtain e2 res2 learned n r2 where
        "templated_passes ts v sq ctx sets res e1 = (e2, res2, learned, n)"
        "templated_end ts d (v, c_obs ctx) now res2 learned n e2 = (e', r2)" by blast
      with e1 passes [OF e1 ctx] ending show ?thesis by blast
    qed (use out e1 in simp)
  qed
  with run show ?thesis by simp
qed

text \<open>The contexts \<open>decodeTemplated\<close> builds for a datagram received at \<open>now\<close>.\<close>

lemma decodeTemplated:
  "I e \<Longrightarrow> (\<And>k ob secs up. C \<lparr>c_kind = k, c_obs = ob, c_exportTime = time_Unix (uint (secs :: u32)) 0,
     c_received = now, c_sysUptimeMs = up, c_sampling = 0\<rparr>) \<Longrightarrow> I (fst (decodeTemplated ts d pkt now res e))"
  unfolding decodeTemplated_def Let_def split_beta
  by (auto split: option.splits sum.splits intro!: templated_sets v9_track ipfix_track)

lemma v5: "I e \<Longrightarrow> I (fst (decode_v5 d pkt now res e))"
  by (auto simp: decode_v5_def Let_def split: option.splits dec_out.splits)

lemma sflow: "I e \<Longrightarrow> I (fst (decode_sflow d pkt now res e))"
  by (auto simp: decode_sflow_def Let_def split: option.splits dec_out.splits intro!: maps stat_ops admits)

theorem decode_body:
  "I e \<Longrightarrow> (\<And>k ob secs up. C \<lparr>c_kind = k, c_obs = ob, c_exportTime = time_Unix (uint (secs :: u32)) 0,
     c_received = now, c_sysUptimeMs = up, c_sampling = 0\<rparr>) \<Longrightarrow> I (fst (decode_body ts d pkt now e))"
  using decodeTemplated v5 sflow
  by (auto simp: decode_body_def Let_def split: option.splits kind.splits)

end

subsection \<open>Memory bounds\<close>

text \<open>
  What one exporter may hold: at most \<open>MaxTemplates\<close> stored templates (each one within the
  field cap and making progress), at most \<open>MaxPendingSets\<close> buffered sets of together at
  most \<open>MaxPendingBytes\<close> bytes with \<open>pendSize\<close> their exact size, and at most
  \<open>maxEstBounds\<close> uptime bounds per domain.
\<close>

definition mem_inv :: "'s template_system \<Rightarrow> 's Exporter \<Rightarrow> bool" where
  "mem_inv ts e \<longleftrightarrow> st_inv ts (e_Templates e) \<and> s_max (e_Templates e) = MaxTemplates \<and>
    length (e_pending e) \<le> MaxPendingSets \<and> e_pendSize e = pend_bytes (e_pending e) \<and>
    e_pendSize e \<le> MaxPendingBytes \<and>
    (\<forall>dk bs. gm_get (e_est e) dk = Some bs \<longrightarrow> length bs \<le> maxEstBounds)"

lemma s_max_ops [simp]:
  "s_max (snd (st_add ts v ob i t p s)) = s_max s"
  "s_max (snd (AddTemplate ts v ob i t s)) = s_max s"
  "s_max (RemoveTemplate ts v ob i s) = s_max s"
  "s_max (ResetTemplates ts s) = s_max s"
  "s_max (snd (drainAdded s)) = s_max s"
  "s_max (snd (drainWithdrawn s)) = s_max s"
  by (auto simp: st_add_def AddTemplate_def RemoveTemplate_def ResetTemplates_def drainAdded_def
    drainWithdrawn_def Let_def split: sum.splits prod.splits)

lemma store_step_inv:
  assumes "template_system_ok ts" and "st_inv ts s"
  shows "st_inv ts (store_step ts c s) \<and> s_max (store_step ts c s) = s_max s"
  using assms by (cases c) (auto simp: store_step_def AddTemplate_def st_inv_add st_inv_Remove)

lemma store_steps_inv:
  assumes "template_system_ok ts" and "st_inv ts s"
  shows "st_inv ts (fold (store_step ts) cs s) \<and> s_max (fold (store_step ts) cs s) = s_max s"
  using assms(2) by (induction cs arbitrary: s) (auto simp: store_step_inv [OF assms(1)])

lemma pend_bytes_filter_le: "pend_bytes (filter P ps) \<le> pend_bytes ps"
  unfolding pend_bytes_def by (induction ps) auto

lemma pend_bytes_append [simp]: "pend_bytes (ps @ qs) = pend_bytes ps + pend_bytes qs"
  by (simp add: pend_bytes_def)

lemma pend_bytes_simps [simp]: "pend_bytes [] = 0" "pend_bytes (p # ps) = length (ps_raw p) + pend_bytes ps"
  by (simp_all add: pend_bytes_def)

lemma mem_inv_New: "template_system_ok ts \<Longrightarrow> mem_inv ts (NewExporter ts)"
  using st_inv_New [of ts MaxTemplates]
  by (simp add: mem_inv_def NewExporter_def) (simp add: NewSafeTemplates_def)

lemma mem_inv_stats [simp]: "mem_inv ts (upd_stats g e) = mem_inv ts e"
  by (simp add: mem_inv_def upd_stats_def)

lemma mem_inv_stat_ops [simp]:
  "mem_inv ts (drop_pending_stat n e) = mem_inv ts e"
  "mem_inv ts (replayed_stat e) = mem_inv ts e"
  "mem_inv ts (missed_stat e) = mem_inv ts e"
  "mem_inv ts (countGap got want mx e) = mem_inv ts e"
  by (simp_all add: drop_pending_stat_def replayed_stat_def missed_stat_def countGap_def Let_def)

lemma mem_inv_maps [simp]:
  "mem_inv ts (e\<lparr>e_domains := dm\<rparr>) = mem_inv ts e"
  "mem_inv ts (e\<lparr>e_sampling := sm\<rparr>) = mem_inv ts e"
  "mem_inv ts (e\<lparr>e_v9Up := vu\<rparr>) = mem_inv ts e"
  "mem_inv ts (e\<lparr>e_v9Seq := vs\<rparr>) = mem_inv ts e"
  "mem_inv ts (e\<lparr>e_ipfixSeq := iq\<rparr>) = mem_inv ts e"
  "mem_inv ts (e\<lparr>e_sfSeq := sq\<rparr>) = mem_inv ts e"
  "mem_inv ts (e\<lparr>e_sysInit := si\<rparr>) = mem_inv ts e"
  by (simp_all add: mem_inv_def)

lemma mem_inv_admit [simp]: "mem_inv ts (admit dk e) = mem_inv ts e"
  by (simp add: admit_def)

lemma mem_inv_forget: "mem_inv ts e \<Longrightarrow> mem_inv ts (forgetDomain dk e)"
  by (auto simp: mem_inv_def forgetDomain_def split: if_splits)

lemma mem_inv_learnSampling [simp]: "mem_inv ts (learnSampling dk recs e) = mem_inv ts e"
  unfolding learnSampling_def by (induction recs arbitrary: e) (simp_all split: option.splits)

lemma mem_inv_pending:
  assumes "mem_inv ts e"
  shows "mem_inv ts (e\<lparr>e_pending := filter P (e_pending e), e_pendSize := pend_bytes (filter P (e_pending e))\<rparr>)"
  using assms pend_bytes_filter_le [of P "e_pending e"] le_trans [OF length_filter_le [of P "e_pending e"]]
  by (simp add: mem_inv_def)

lemma mem_inv_expire: "mem_inv ts e \<Longrightarrow> mem_inv ts (expirePending now e)"
  by (simp add: expirePending_def Let_def mem_inv_pending)

lemma mem_inv_buffer:
  assumes "mem_inv ts e" shows "mem_inv ts (bufferPending k raw ctx e)"
proof -
  have "mem_inv ts (expirePending (c_received ctx) e)" using assms by (rule mem_inv_expire)
  then show ?thesis
    by (simp add: bufferPending_def Let_def) (auto simp: mem_inv_def)
qed

lemma mem_inv_addEst:
  assumes "mem_inv ts e" shows "mem_inv ts (addEstBound dk at bound e)"
proof -
  have est: "length bs \<le> maxEstBounds" if "gm_get (e_est e) dk' = Some bs" for dk' bs
    using assms that unfolding mem_inv_def by blast
  have "length (filter P bs) - Suc 0 \<le> 255" if "gm_get (e_est e) dk' = Some bs" for P dk' bs
    using le_trans [OF length_filter_le est [OF that], of P] by (simp add: maxEstBounds_def)
  then show ?thesis using assms
    by (auto simp: mem_inv_def addEstBound_def Let_def maxEstBounds_def split: option.splits if_splits)
qed

lemma restore_record_inv:
  assumes "template_system_ok ts" and "st_inv ts (fst sd)"
  shows "st_inv ts (fst (restore_record ts r sd)) \<and> s_max (fst (restore_record ts r sd)) = s_max (fst sd)"
  using assms by (auto simp: restore_record_def AddTemplate_def st_inv_add split: option.splits sum.splits)

lemma restore_records_inv:
  assumes "template_system_ok ts" and "st_inv ts (fst sd)"
  shows "st_inv ts (fst (fold (restore_record ts) rs sd)) \<and> s_max (fst (fold (restore_record ts) rs sd)) = s_max (fst sd)"
  using assms(2) by (induction rs arbitrary: sd) (auto simp: restore_record_inv [OF assms(1)])

lemma forgetUnlisted_keeps [simp]:
  "e_Templates (forgetUnlisted doms ds e) = e_Templates e"
  "e_pending (forgetUnlisted doms ds e) = e_pending e"
  "e_pendSize (forgetUnlisted doms ds e) = e_pendSize e"
  "e_domains (forgetUnlisted doms ds e) = e_domains e"
  "e_Stats (forgetUnlisted doms ds e) = e_Stats e"
  unfolding forgetUnlisted_def by (induction ds arbitrary: e) (auto simp: forgetDomain_def split: if_splits)

lemma mem_inv_reboot:
  assumes "template_system_ok ts" and "mem_inv ts e"
  shows "mem_inv ts (reboot ts keep e)"
proof -
  define sd where "sd = fold (restore_record ts) (List.map_filter (ExportTemplate ts (e_Templates e)) keep)
    (ResetTemplates ts (e_Templates e), [])"
  have "st_inv ts (fst sd) \<and> s_max (fst sd) = MaxTemplates"
    using restore_records_inv [OF assms(1), of "(ResetTemplates ts (e_Templates e), [])"] assms
    by (simp add: sd_def st_inv_Reset mem_inv_def)
  then show ?thesis
    by (simp add: reboot_def Let_def split_beta mem_inv_def st_inv_drain drop_pending_stat_def upd_stats_def
      flip: sd_def)
qed

lemma mem_inv_templates:
  assumes "mem_inv ts e" and "st_inv ts s" and "s_max s = MaxTemplates"
  shows "mem_inv ts (e\<lparr>e_Templates := s\<rparr>)"
  using assms by (simp add: mem_inv_def)

lemma mem_invD: "mem_inv ts e \<Longrightarrow> st_inv ts (e_Templates e)" "mem_inv ts e \<Longrightarrow> s_max (e_Templates e) = MaxTemplates"
  by (simp_all add: mem_inv_def)

lemma mem_inv_store_steps:
  assumes "template_system_ok ts" and "mem_inv ts e"
  shows "mem_inv ts (e\<lparr>e_Templates := fold (store_step ts) calls (e_Templates e)\<rparr>)"
  using assms store_steps_inv [OF assms(1) mem_invD(1) [OF assms(2)], of calls]
  by (intro mem_inv_templates) (auto dest: mem_invD)

lemma mem_inv_drained:
  assumes "mem_inv ts e"
  shows "mem_inv ts (e\<lparr>e_Templates := snd (drainWithdrawn (snd (drainAdded (e_Templates e))))\<rparr>)"
  using assms by (intro mem_inv_templates) (auto dest: mem_invD intro: st_inv_drain)

interpretation mem: exporter_invariant ts "\<lambda>_. True" "\<lambda>e. template_system_ok ts \<longrightarrow> mem_inv ts e" for ts :: "'s template_system"
  by unfold_locales
     (simp_all add: mem_inv_forget mem_inv_addEst mem_inv_pending mem_inv_buffer mem_inv_store_steps
       mem_inv_drained mem_inv_reboot)

lemma mem_inv_account [simp]:
  "mem_inv ts (account_error err e) = mem_inv ts e" "mem_inv ts (account_flows fs e) = mem_inv ts e"
  by (simp_all add: account_error_def account_flows_def split: option.splits)

lemma mem_inv_Decode:
  assumes ts: "template_system_ok ts" and e: "mem_inv ts e"
  shows "mem_inv ts (fst (Decode ts d pkt now e))"
proof (rule Decode_state [of ts d pkt now e])
  fix h fs err
  assume eq: "fst (Decode ts d pkt now e)
    = account_flows fs (account_error err (upd_stats h (fst (decode_body ts d pkt now (datagram_stat e)))))"
  have "mem_inv ts (fst (decode_body ts d pkt now (datagram_stat e)))"
    using mem.decode_body [of ts "datagram_stat e"] ts e by (simp add: datagram_stat_def)
  then show ?thesis unfolding eq by simp
qed

lemma mem_inv_LoadTemplates:
  assumes ts: "template_system_ok ts" and e: "mem_inv ts e"
  shows "mem_inv ts (fst (LoadTemplates ts recs e))"
proof -
  have step: "mem_inv ts (fst (load_template ts r st))" if "mem_inv ts (fst st)" for r and st :: "'a Exporter \<times> nat \<times> derror list"
  proof -
    obtain e l errs where st: "st = (e, l, errs)" by (metis prod_cases3)
    have "mem_inv ts (e\<lparr>e_Templates := s\<rparr>)" if "ImportTemplate ts r (e_Templates e) = Some (x, s)" for x s
      using safeD [OF ImportTemplate_safe [OF ts, where Q = "\<lambda>(_, s). st_inv ts s \<and> s_max s = MaxTemplates"] that]
        \<open>mem_inv ts (fst st)\<close> by (intro mem_inv_templates) (auto simp: st dest: mem_invD)
    then show ?thesis using that
      by (auto simp: load_template_def st Let_def split: option.splits)
  qed
  have "mem_inv ts (fst st) \<Longrightarrow> mem_inv ts (fst (fold (load_template ts) recs st))" for st
    by (induction recs arbitrary: st) (simp_all add: step)
  with e show ?thesis by (simp add: LoadTemplates_def)
qed

subsection \<open>The accounting of a datagram\<close>

text \<open>The counters that \<open>decode_body\<close> leaves to the deferred function of \<open>Decode\<close>.\<close>

definition core_stats :: "'s Exporter \<Rightarrow> nat \<times> nat \<times> nat \<times> nat \<times> nat \<times> (time_source \<Rightarrow> nat) \<times> derror option" where
  "core_stats e = (let s = e_Stats e in (st_Datagrams s, st_Flows s, st_DecodeErrors s, st_Rejected s, st_Panics s,
     st_TimeSources s, st_LastError s))"

lemma core_stats_ops [simp]:
  "core_stats (drop_pending_stat n e) = core_stats e"
  "core_stats (replayed_stat e) = core_stats e"
  "core_stats (missed_stat e) = core_stats e"
  "core_stats (countGap got want mx e) = core_stats e"
  "core_stats (expirePending now e) = core_stats e"
  "core_stats (bufferPending k rw ctx e) = core_stats e"
  "core_stats (reboot ts keep e) = core_stats e"
  by (simp_all add: core_stats_def drop_pending_stat_def replayed_stat_def missed_stat_def countGap_def upd_stats_def
    expirePending_def bufferPending_def reboot_def Let_def split_beta)

interpretation core: exporter_invariant ts "\<lambda>_. True" "\<lambda>e. core_stats e = c" for ts :: "'s template_system" and c
  by unfold_locales
     (simp_all, simp_all add: core_stats_def upd_stats_def admit_def forgetDomain_def addEstBound_def Let_def)

lemma core_decode_body: "core_stats (fst (decode_body ts d pkt now e)) = core_stats e"
  using core.decode_body [of e "core_stats e" ts d pkt now] by simp

lemma fold_count_sources:
  "fold (\<lambda>f c. c(f_TimeSource f := c (f_TimeSource f) + 1)) fs c s = c s + length (filter (\<lambda>f. f_TimeSource f = s) fs)"
  by (induction fs arbitrary: c) auto

end
