(* ===== verification/Exporter_Domains.thy ===== *)
theory Exporter_Domains
  imports Exporter_Inv
begin

text \<open>
  Observation domains of an exporter: at most \<open>MaxDomains\<close> of them are admitted, and every
  per-domain map (\<open>v9Up\<close>, \<open>v9Seq\<close>, \<open>ipfixSeq\<close>, \<open>sfSeq\<close>, \<open>sampling\<close>, \<open>sysInit\<close>, \<open>est\<close>)
  has entries of admitted domains only, after every datagram. This needs what goflow2 documents of
  its decoders, stated here as \<open>decoders_scoped\<close> and \<open>decoders_total\<close>.
\<close>

subsection \<open>Observation domains\<close>

text \<open>
  What goflow2 documents of its NetFlow v9 / IPFIX decoder: the templates of a message are
  added and removed under the version and the observation domain of the message header,
  and the decoders do not panic.
\<close>

definition nf_domain :: "bytes \<Rightarrow> domainKey" where
  "nf_domain pkt = (if u16_at pkt 0 = 9 then (9, u32_at pkt 16) else (10, u32_at pkt 12))"

fun call_domain :: "store_call \<Rightarrow> domainKey" where
  "call_domain (CallAdd v ob i t) = (v, ob)"
| "call_domain (CallRemove v ob i) = (v, ob)"

definition decoders_scoped :: "'s decoders \<Rightarrow> bool" where
  "decoders_scoped d \<longleftrightarrow> (\<forall>pkt s. \<forall>c\<in>set (fst (d_nf d pkt s)). call_domain c = nf_domain pkt)"

definition decoders_total :: "'s decoders \<Rightarrow> bool" where
  "decoders_total d \<longleftrightarrow> (\<forall>pkt s. snd (d_nf d pkt s) \<noteq> None) \<and>
    (\<forall>v b flds. d_dataset d v b flds \<noteq> None) \<and> (\<forall>v b sc op. d_optset d v b sc op \<noteq> None)"

declare split_paired_All [simp del] split_paired_Ex [simp del]

text \<open>The domains some per-domain map of the exporter has an entry for.\<close>

definition tracked :: "'s Exporter \<Rightarrow> domainKey \<Rightarrow> bool" where
  "tracked e dk \<longleftrightarrow> gm_has (e_v9Up e) dk \<or> gm_has (e_v9Seq e) dk \<or> gm_has (e_ipfixSeq e) dk \<or>
    gm_has (e_sfSeq e) dk \<or> gm_has (e_sampling e) dk \<or> gm_has (e_sysInit e) dk \<or> gm_has (e_est e) dk"

text \<open>
  Between two datagrams: at most \<open>MaxDomains\<close> domains are admitted, and state is kept for
  admitted domains only.
\<close>

definition dom_inv :: "'s Exporter \<Rightarrow> bool" where
  "dom_inv e \<longleftrightarrow> gm_wf (e_domains e) \<and> gm_len (e_domains e) \<le> MaxDomains \<and>
    s_added (e_Templates e) = [] \<and> (\<forall>dk. tracked e dk \<longrightarrow> gm_has (e_domains e) dk)"

text \<open>While a datagram of domain \<open>dk\<close> is being decoded.\<close>

definition dom_mid :: "domainKey \<Rightarrow> 's Exporter \<Rightarrow> bool" where
  "dom_mid dk e \<longleftrightarrow> gm_wf (e_domains e) \<and> gm_len (e_domains e) \<le> MaxDomains \<and> canAdmit e dk \<and>
    (\<forall>dk'. tracked e dk' \<longrightarrow> dk' = dk \<or> gm_has (e_domains e) dk')"

definition key_domain :: "TemplateKey \<Rightarrow> domainKey" where
  "key_domain k = (k_Version k, k_ObsDomain k)"

definition keys_in :: "domainKey \<Rightarrow> TemplateKey list \<Rightarrow> bool" where
  "keys_in dk ks \<longleftrightarrow> (\<forall>k\<in>set ks. key_domain k = dk)"

lemma dom_mid_cong:
  assumes "e_domains e' = e_domains e" and "\<And>dk'. tracked e' dk' \<Longrightarrow> tracked e dk' \<or> dk' = dk"
  shows "dom_mid dk e \<Longrightarrow> dom_mid dk e'"
  using assms by (auto simp: dom_mid_def canAdmit_def)

lemma tracked_stats [simp]: "tracked (upd_stats g e) = tracked e" "e_domains (upd_stats g e) = e_domains e"
  by (simp_all add: fun_eq_iff tracked_def upd_stats_def)

lemma tracked_stat_ops [simp]:
  "tracked (drop_pending_stat n e) = tracked e" "e_domains (drop_pending_stat n e) = e_domains e"
  "tracked (replayed_stat e) = tracked e" "e_domains (replayed_stat e) = e_domains e"
  "tracked (missed_stat e) = tracked e" "e_domains (missed_stat e) = e_domains e"
  "tracked (countGap got want mx e) = tracked e" "e_domains (countGap got want mx e) = e_domains e"
  by (simp_all add: drop_pending_stat_def replayed_stat_def missed_stat_def countGap_def Let_def)

lemma tracked_upds [simp]:
  "tracked (e\<lparr>e_Templates := s\<rparr>) = tracked e"
  "tracked (e\<lparr>e_domains := dm\<rparr>) = tracked e"
  "tracked (e\<lparr>e_pending := ps, e_pendSize := pz\<rparr>) = tracked e"
  by (simp_all add: fun_eq_iff tracked_def)

lemma tracked_pending_ops [simp]:
  "tracked (expirePending now e) = tracked e" "e_domains (expirePending now e) = e_domains e"
  "tracked (bufferPending k raw ctx e) = tracked e" "e_domains (bufferPending k raw ctx e) = e_domains e"
  by (simp_all add: expirePending_def bufferPending_def Let_def)

text \<open>Writing the entry of \<open>dk\<close> in one of the maps.\<close>

lemma tracked_puts [simp]:
  "tracked (e\<lparr>e_v9Up := gm_put dk vu (e_v9Up e)\<rparr>) dk' \<longleftrightarrow> tracked e dk' \<or> dk' = dk"
  "tracked (e\<lparr>e_v9Seq := gm_put dk vs (e_v9Seq e)\<rparr>) dk' \<longleftrightarrow> tracked e dk' \<or> dk' = dk"
  "tracked (e\<lparr>e_ipfixSeq := gm_put dk iq (e_ipfixSeq e)\<rparr>) dk' \<longleftrightarrow> tracked e dk' \<or> dk' = dk"
  "tracked (e\<lparr>e_sfSeq := gm_put dk sq (e_sfSeq e)\<rparr>) dk' \<longleftrightarrow> tracked e dk' \<or> dk' = dk"
  "tracked (e\<lparr>e_sampling := gm_put dk sm (e_sampling e)\<rparr>) dk' \<longleftrightarrow> tracked e dk' \<or> dk' = dk"
  "tracked (e\<lparr>e_sysInit := gm_put dk si (e_sysInit e)\<rparr>) dk' \<longleftrightarrow> tracked e dk' \<or> dk' = dk"
  "tracked (e\<lparr>e_est := gm_put dk bs (e_est e)\<rparr>) dk' \<longleftrightarrow> tracked e dk' \<or> dk' = dk"
  by (auto simp: tracked_def)

lemma tracked_learnSampling:
  "tracked (learnSampling dk recs e) dk' \<Longrightarrow> tracked e dk' \<or> dk' = dk"
  unfolding learnSampling_def
proof (induction recs arbitrary: e)
  case (Cons r recs)
  then show ?case by (cases "sampling_rate_of r") fastforce+
qed simp

lemma domains_learnSampling [simp]: "e_domains (learnSampling dk recs e) = e_domains e"
  unfolding learnSampling_def by (induction recs arbitrary: e) (auto split: option.splits)

lemma templates_learnSampling [simp]: "e_Templates (learnSampling dk recs e) = e_Templates e"
  unfolding learnSampling_def by (induction recs arbitrary: e) (auto split: option.splits)

lemma tracked_forget [simp]: "tracked (forgetDomain dk e) dk' \<longleftrightarrow> tracked e dk' \<and> dk' \<noteq> dk"
  by (auto simp: tracked_def forgetDomain_def)

lemma domains_forget [simp]: "e_domains (forgetDomain dk e) = e_domains e"
  by (simp add: forgetDomain_def)

lemma tracked_forgetUnlisted [simp]:
  "tracked (forgetUnlisted doms ds e) dk \<longleftrightarrow> tracked e dk \<and> (gm_has doms dk \<or> \<not> gm_has ds dk)"
  unfolding forgetUnlisted_def gm_has_def gm_get_def
proof (induction ds arbitrary: e)
  case (Cons x ds)
  then show ?case by (cases x) (auto simp: gm_get_def split: if_splits)
qed simp

lemma restore_records_domains:
  assumes "gm_wf (snd sd)" and "\<forall>dk'. gm_has (snd sd) dk' \<longrightarrow> dk' = dk"
    and "\<forall>r\<in>set rs. (tr_Version r, tr_ObsDomain r) = dk"
  shows "gm_wf (snd (fold (restore_record ts) rs sd)) \<and>
    (\<forall>dk'. gm_has (snd (fold (restore_record ts) rs sd)) dk' \<longrightarrow> dk' = dk)"
  using assms
proof (induction rs arbitrary: sd)
  case (Cons r rs)
  have "gm_wf (snd (restore_record ts r sd)) \<and> (\<forall>dk'. gm_has (snd (restore_record ts r sd)) dk' \<longrightarrow> dk' = dk)"
    using Cons.prems by (auto simp: restore_record_def intro: gmap.wf_put split: option.splits sum.splits)
  with Cons.IH [of "restore_record ts r sd"] Cons.prems(3) show ?case by auto
qed auto

lemma gm_len_singleton:
  assumes "gm_wf m" and "\<forall>k'. gm_has m k' \<longrightarrow> k' = k"
  shows "gm_len m \<le> 1"
proof -
  have "set (map fst m) \<subseteq> {k}"
    using assms(2) by (auto simp: gm_has_def gm_get_def map_of_eq_None_iff)
  then have "card (set (map fst m)) \<le> 1" by (metis card_mono card.empty card.insert empty_iff finite.intros One_nat_def)
  then show ?thesis using assms(1) distinct_card [of "map fst m"] by (simp add: gm_wf_def gm_len_def)
qed

lemma map_filter_in: "y \<in> set (List.map_filter f xs) \<longleftrightarrow> (\<exists>x\<in>set xs. f x = Some y)"
  by (induction xs) (auto simp: map_filter_simps split: option.splits)

lemma ExportTemplate_key: "ExportTemplate ts s k = Some r \<Longrightarrow> tr_Key r = k"
  by (auto simp: ExportTemplate_def templateToRecord_def tr_Key_def Let_def split: option.splits tmpl.splits)

lemma dom_mid_reboot:
  assumes e: "dom_mid dk e" and keep: "keys_in dk keep"
  shows "dom_mid dk (reboot ts keep e) \<and> s_added (e_Templates (reboot ts keep e)) = []"
proof -
  define rs where "rs = List.map_filter (ExportTemplate ts (e_Templates e)) keep"
  define sd where "sd = fold (restore_record ts) rs (ResetTemplates ts (e_Templates e), [])"
  have rs: "\<forall>r\<in>set rs. (tr_Version r, tr_ObsDomain r) = dk"
    using keep by (fastforce simp: rs_def map_filter_in keys_in_def key_domain_def tr_Key_def dest!: ExportTemplate_key)
  have sd: "gm_wf (snd sd)" "\<forall>dk'. gm_has (snd sd) dk' \<longrightarrow> dk' = dk"
    using restore_records_domains [OF _ _ rs, of "(ResetTemplates ts (e_Templates e), [])" ts]
    by (simp_all add: sd_def)
  have len: "gm_len (snd sd) \<le> 1" using gm_len_singleton [OF sd] .
  have r: "reboot ts keep e = upd_stats (\<lambda>s. s\<lparr>st_Reboots := st_Reboots s + 1\<rparr>)
      (forgetUnlisted (snd sd) (e_domains e) (drop_pending_stat (length (e_pending e))
          (e\<lparr>e_Templates := snd (drainAdded (fst sd))\<rparr>)\<lparr>e_pending := [], e_pendSize := 0\<rparr>)
        \<lparr>e_domains := snd sd, e_sampling := [], e_sysInit := [], e_est := []\<rparr>)"
    by (simp add: reboot_def Let_def split_beta drop_pending_stat_def upd_stats_def flip: rs_def sd_def)
  have tr: "tracked (e'\<lparr>e_domains := dm, e_sampling := [], e_sysInit := [], e_est := []\<rparr>) dk' \<Longrightarrow> tracked e' dk'"
    for e' :: "'a Exporter" and dm dk' by (auto simp: tracked_def)
  have "dk' = dk" if "tracked (reboot ts keep e) dk'" for dk'
    using that e sd(2) unfolding r tracked_stats by (auto dest!: tr simp: dom_mid_def)
  moreover have "e_domains (reboot ts keep e) = snd sd" by (simp add: r)
  moreover have "s_added (e_Templates (reboot ts keep e)) = []"
    by (simp add: r upd_stats_def drop_pending_stat_def drainAdded_def)
  ultimately show ?thesis
    using len sd by (auto simp: dom_mid_def canAdmit_def MaxDomains_def)
qed

definition mid_ok :: "domainKey \<Rightarrow> 's Exporter \<Rightarrow> bool" where
  "mid_ok dk e \<longleftrightarrow> dom_mid dk e \<and> s_added (e_Templates e) = []"

lemma dom_mid_simps [simp]:
  "dom_mid dk (upd_stats g e) = dom_mid dk e"
  "dom_mid dk (drop_pending_stat n e) = dom_mid dk e"
  "dom_mid dk (replayed_stat e) = dom_mid dk e"
  "dom_mid dk (missed_stat e) = dom_mid dk e"
  "dom_mid dk (countGap got want mx e) = dom_mid dk e"
  "dom_mid dk (expirePending now e) = dom_mid dk e"
  "dom_mid dk (bufferPending k raw ctx e) = dom_mid dk e"
  "dom_mid dk (e\<lparr>e_Templates := s\<rparr>) = dom_mid dk e"
  "dom_mid dk (e\<lparr>e_pending := ps, e_pendSize := pz\<rparr>) = dom_mid dk e"
  by (simp_all add: dom_mid_def canAdmit_def)

lemma templates_simps [simp]:
  "e_Templates (upd_stats g e) = e_Templates e"
  "e_Templates (drop_pending_stat n e) = e_Templates e"
  "e_Templates (replayed_stat e) = e_Templates e"
  "e_Templates (missed_stat e) = e_Templates e"
  "e_Templates (countGap got want mx e) = e_Templates e"
  "e_Templates (expirePending now e) = e_Templates e"
  "e_Templates (bufferPending k raw ctx e) = e_Templates e"
  "e_Templates (addEstBound dk at b e) = e_Templates e"
  "e_Templates (admit dk e) = e_Templates e"
  "e_Templates (forgetDomain dk e) = e_Templates e"
  "e_Templates (ipfix_seq_update dk sq n rw rb e) = e_Templates e"
  by (simp_all add: upd_stats_def drop_pending_stat_def replayed_stat_def missed_stat_def countGap_def expirePending_def
    bufferPending_def addEstBound_def admit_def forgetDomain_def ipfix_seq_update_def Let_def split: option.splits)

lemma dom_mid_puts [simp]:
  "dom_mid dk (e\<lparr>e_v9Up := gm_put dk vu (e_v9Up e)\<rparr>) = dom_mid dk e"
  "dom_mid dk (e\<lparr>e_v9Seq := gm_put dk vs (e_v9Seq e)\<rparr>) = dom_mid dk e"
  "dom_mid dk (e\<lparr>e_ipfixSeq := gm_put dk iq (e_ipfixSeq e)\<rparr>) = dom_mid dk e"
  "dom_mid dk (e\<lparr>e_sfSeq := gm_put dk sq (e_sfSeq e)\<rparr>) = dom_mid dk e"
  "dom_mid dk (e\<lparr>e_sysInit := gm_put dk si (e_sysInit e)\<rparr>) = dom_mid dk e"
  "dom_mid dk (e\<lparr>e_est := gm_put dk bs (e_est e)\<rparr>) = dom_mid dk e"
  by (auto simp: dom_mid_def canAdmit_def)

lemma dom_mid_learnSampling: "dom_mid dk e \<Longrightarrow> dom_mid dk (learnSampling dk recs e)"
  by (rule dom_mid_cong) (auto dest: tracked_learnSampling)

lemma dom_mid_addEst [simp]: "dom_mid dk (addEstBound dk at b e) = dom_mid dk e"
  by (simp add: addEstBound_def Let_def)

lemma dom_mid_seq_update [simp]: "dom_mid dk (ipfix_seq_update dk sq n rw rb e) = dom_mid dk e"
  by (simp add: ipfix_seq_update_def Let_def split: option.splits)

lemma mid_ok_reboot: "dom_mid dk e \<Longrightarrow> keys_in dk keep \<Longrightarrow> mid_ok dk (reboot ts keep e)"
  by (simp add: mid_ok_def dom_mid_reboot)

lemma mid_ok_fin_scans:
  assumes "keys_in dk learned" and "mid_ok dk (fi_e st)"
  shows "mid_ok dk (fi_e (fold (fin_scan ts dk learned live) recs st))"
  using assms(2)
proof (induction recs arbitrary: st)
  case (Cons r recs)
  have "mid_ok dk (reboot ts learned (fi_e st))"
    using Cons.prems assms(1) by (intro mid_ok_reboot) (auto simp: mid_ok_def)
  then have "mid_ok dk (fi_e (fin_scan ts dk learned live r st))"
    using Cons.prems by (auto simp: fin_scan_def Let_def mid_ok_def)
  then show ?case by (simp add: Cons.IH)
qed simp

lemma mid_ok_finish:
  assumes "keys_in dk learned" and "mid_ok dk e" and "c_kind ctx = KindIPFIX \<Longrightarrow> dk = (10, c_obs ctx)"
  shows "mid_ok dk (fst (finish ts recs ctx learned live e))"
  using assms(2,3) mid_ok_fin_scans [OF assms(1), of
    "\<lparr>fi_e = e, fi_rebooted = False, fi_needEst = False, fi_maxEnd = 0\<rparr>"]
  by (auto simp: finish_def Let_def split_beta mid_ok_def)

text \<open>A replayed set neither detects reboots nor feeds the \<open>sysInit\<close> state.\<close>

lemma fin_scan_replayed: "fi_e (fold (fin_scan ts dk learned False) recs st) = fi_e st"
  by (induction recs arbitrary: st) (auto simp: fin_scan_def)

lemma finish_replayed [simp]: "fst (finish ts recs ctx learned False e) = e"
  by (simp add: finish_def Let_def split_beta fin_scan_replayed)

lemma mid_ok_learnSampling: "mid_ok dk e \<Longrightarrow> mid_ok dk (learnSampling dk recs e)"
  by (simp add: mid_ok_def dom_mid_learnSampling)

lemma mid_ok_replay_set:
  assumes "mid_ok dk e" and "key_domain (ps_key p) = dk"
  shows "mid_ok dk (fst (replay_set ts d p t e))"
  using assms mid_ok_learnSampling [OF assms(1)]
  by (auto simp: replay_set_def Let_def split_beta key_domain_def mid_ok_def split: tmpl.splits option.splits)

lemma mid_ok_replay_loop:
  assumes "mid_ok dk e" and "\<forall>p\<in>set ps. key_domain (ps_key p) = dk"
  shows "mid_ok dk (fst (replay_loop ts d ps budget out e))"
  using assms
proof (induction ps arbitrary: budget out e)
  case (Cons p ps)
  have "mid_ok dk e'" if "replay_set ts d p t e = (e', r)" for t e' r
    using mid_ok_replay_set [OF Cons.prems(1), of p ts d t] Cons.prems(2) that by simp
  with Cons show ?case
    by (auto simp: mid_ok_def split: option.splits sum.splits prod.splits)
qed simp

lemma mid_ok_replay:
  assumes "mid_ok dk e" and "keys_in dk added"
  shows "mid_ok dk (fst (replay ts d added now e))"
  unfolding replay_def Let_def
  using assms by (intro mid_ok_replay_loop) (auto simp: mid_ok_def keys_in_def)

lemma replay_set_total: "decoders_total d \<Longrightarrow> snd (replay_set ts d p t e) \<noteq> None"
  unfolding replay_set_def decoders_total_def
  by (auto simp: Let_def split_beta split: tmpl.splits option.splits; metis option.distinct(1))

lemma replay_total:
  assumes "decoders_total d" shows "snd (replay ts d added now e) \<noteq> None"
proof -
  have "snd (replay_loop ts d ps budget out e) \<noteq> None" for ps budget out e
  proof (induction ps arbitrary: budget out e)
    case (Cons p ps)
    have "replay_set ts d p t e \<noteq> (e', None)" for t e'
      using replay_set_total [OF assms, of ts p t e] by auto
    with Cons show ?case by (auto split: option.splits sum.splits prod.splits)
  qed simp
  then show ?thesis by (simp add: replay_def Let_def)
qed

lemma domains_ops [simp]: "e_domains (ipfix_seq_update dk sq n rw rb e) = e_domains e"
  by (simp add: ipfix_seq_update_def Let_def split: option.splits)

lemma dom_mid_pass1: "dom_mid dk (fst st) \<Longrightarrow>
    dom_mid dk (fst (fold (pass1 dk) sets st)) \<and> e_Templates (fst (fold (pass1 dk) sets st)) = e_Templates (fst st)"
proof (induction sets arbitrary: st)
  case (Cons s sets)
  have "dom_mid dk (fst (pass1 dk s st)) \<and> e_Templates (fst (pass1 dk s st)) = e_Templates (fst st)"
    using Cons.prems by (cases s) (simp_all add: pass1_def dom_mid_learnSampling)
  with Cons.IH show ?case by simp
qed simp

lemma dom_mid_pass2: "dom_mid dk (fst st) \<Longrightarrow>
    dom_mid dk (fst (fold (pass2 v ctx) sets st)) \<and> e_Templates (fst (fold (pass2 v ctx) sets st)) = e_Templates (fst st)"
proof (induction sets arbitrary: st)
  case (Cons s sets)
  have "dom_mid dk (fst (pass2 v ctx s st)) \<and> e_Templates (fst (pass2 v ctx s st)) = e_Templates (fst st)"
    using Cons.prems by (cases s) (auto simp: pass2_def Let_def split: prod.splits)
  with Cons.IH show ?case by simp
qed simp

subsection \<open>A datagram keeps the domain invariant\<close>

lemma store_step_added:
  "keys_in dk (s_added s) \<Longrightarrow> call_domain c = dk \<Longrightarrow> keys_in dk (s_added (store_step ts c s))"
  by (cases c) (auto simp: store_step_def AddTemplate_def RemoveTemplate_def st_add_def Let_def keys_in_def
    key_domain_def split: sum.splits prod.splits if_splits)

lemma store_steps_added:
  "keys_in dk (s_added s) \<Longrightarrow> \<forall>c\<in>set cs. call_domain c = dk \<Longrightarrow> keys_in dk (s_added (fold (store_step ts) cs s))"
  by (induction cs arbitrary: s) (auto intro: store_step_added)

lemma mid_ok_passes:
  assumes dk: "dk = (v, c_obs ctx)" and e: "dom_mid dk e" and added: "keys_in dk (s_added (e_Templates e))"
    and kind: "c_kind ctx = KindIPFIX \<Longrightarrow> v = 10"
    and run: "templated_passes ts v sq ctx sets res e = (e', res', learned, n)"
  shows "mid_ok dk e' \<and> keys_in dk learned"
  using run
proof (rule templated_passes_run)
  fix e1 n1 ctx' e2 recs raw e3 fl rb
  assume p1: "fold (pass1 (v, c_obs ctx)) sets (e, 0) = (e1, n1)"
    and ctx': "ctx' = ctx\<lparr>c_sampling := samplingFor e1 (v, c_obs ctx)\<rparr>"
    and p2: "fold (pass2 v ctx') sets (e1, [], n1, False) = (e2, recs, n, raw)"
    and e3: "e3 = (if v = 10 then ipfix_seq_update (v, c_obs ctx) sq n raw (res_Rebooted res) e2 else e2)"
    and learned: "learned = s_added (e_Templates e3)"
    and fin: "finish ts recs ctx' learned True (e3\<lparr>e_Templates := snd (drainWithdrawn (snd (drainAdded (e_Templates e3))))\<rparr>)
      = (e', fl, rb)"
  have e1: "dom_mid dk e1" "e_Templates e1 = e_Templates e"
    using dom_mid_pass1 [of dk "(e, 0)" sets] e p1 by (simp_all add: dk)
  then have e2: "dom_mid dk e2" "e_Templates e2 = e_Templates e"
    using dom_mid_pass2 [of dk "(e1, [], n1, False)" v ctx' sets] p2 by simp_all
  have e3': "dom_mid dk e3" "e_Templates e3 = e_Templates e"
    using e2 by (auto simp: e3 dk)
  have l: "keys_in dk learned" using added by (simp add: learned e3')
  have "mid_ok dk (e3\<lparr>e_Templates := snd (drainWithdrawn (snd (drainAdded (e_Templates e3))))\<rparr>)"
    using e3' by (simp add: mid_ok_def drainAdded_def drainWithdrawn_def)
  from mid_ok_finish [OF l this, of ctx' ts recs True] fin kind dk ctx' l show ?thesis by auto
qed

lemma dom_inv_end:
  assumes e: "mid_ok dk e" and l: "keys_in dk learned" and d: "decoders_total d"
    and run: "templated_end ts d dk now res learned n e = (e', r)"
  shows "dom_inv e'"
  using run
proof (rule templated_end_run)
  fix e1 replayed
  assume r: "(if learned \<noteq> [] then replay ts d learned now e else (e, Some [])) = (e1, replayed)"
    and out: "replayed = None \<Longrightarrow> e' = e1 \<and> r = None"
      "\<And>fs. replayed = Some fs \<Longrightarrow> \<exists>res' e2. r = Some res' \<and> res_Flows res' = res_Flows res @ fs \<and>
       e2 = (if learned \<noteq> [] \<or> n > 0 \<or> res_Flows res' \<noteq> [] then admit dk e1 else e1) \<and>
       e' = (if gm_has (e_domains e2) dk then e2 else forgetDomain dk e2)"
  have e1: "mid_ok dk e1" using mid_ok_replay [OF e l, of ts d now] r e by (auto split: if_splits)
  have "snd (if learned \<noteq> [] then replay ts d learned now e else (e, Some [])) \<noteq> None"
    using replay_total [OF d] by auto
  then obtain fs where "replayed = Some fs" using r by auto
  from out(2) [OF this] obtain e2 adm where e2: "e2 = (if adm then admit dk e1 else e1)"
      "e' = (if gm_has (e_domains e2) dk then e2 else forgetDomain dk e2)"
    by blast
  have adm: "gm_wf (gm_put dk () (e_domains e1))" "gm_len (gm_put dk () (e_domains e1)) \<le> MaxDomains"
    using e1 by (auto simp: mid_ok_def dom_mid_def canAdmit_def gm_has_def intro!: gmap.size_put_capped split: if_splits)
  have "dom_inv (admit dk e1)" using e1 adm by (auto simp: dom_inv_def mid_ok_def dom_mid_def admit_def)
  moreover have "gm_has (e_domains (admit dk e1)) dk" by (simp add: admit_def)
  moreover have "dom_inv (if gm_has (e_domains e1) dk then e1 else forgetDomain dk e1)"
    using e1 by (auto simp: dom_inv_def mid_ok_def dom_mid_def)
  ultimately show ?thesis using e2 by (auto split: if_splits)
qed

lemma dom_inv_templated_sets:
  assumes dk: "dk = (v, c_obs ctx)" and e: "mid_ok dk e" and kind: "c_kind ctx = KindIPFIX \<Longrightarrow> v = 10"
    and d: "decoders_total d" "decoders_scoped d" and pkt: "nf_domain pkt = dk"
  shows "dom_inv (fst (templated_sets ts d v sq ctx v9Err pkt now res e))"
proof -
  obtain e' r where run: "templated_sets ts d v sq ctx v9Err pkt now res e = (e', r)" by force
  from run have "dom_inv e'"
  proof (rule templated_sets_run)
    fix calls out e1
    assume nf: "d_nf d pkt (e_Templates e) = (calls, out)"
      and e1: "e1 = e\<lparr>e_Templates := fold (store_step ts) calls (e_Templates e)\<rparr>"
      and res: "\<And>sets derr. out = Some (sets, derr) \<Longrightarrow> \<exists>e2 res2 learned n r2.
           templated_passes ts v sq ctx sets res e1 = (e2, res2, learned, n) \<and>
           templated_end ts d (v, c_obs ctx) now res2 learned n e2 = (e', r2) \<and> map_option fst r = r2"
    have "\<forall>c\<in>set calls. call_domain c = dk"
      using d(2) pkt nf unfolding decoders_scoped_def by (metis fst_conv)
    then have added: "keys_in dk (s_added (e_Templates e1))"
      using e store_steps_added [of dk "e_Templates e" calls ts] by (simp add: e1 mid_ok_def keys_in_def)
    have mid: "dom_mid dk e1" using e by (simp add: e1 mid_ok_def)
    obtain sets derr where out: "out = Some (sets, derr)"
      using d(1) nf unfolding decoders_total_def by (metis option.exhaust snd_conv surj_pair)
    from res [OF out] obtain e2 res2 learned n r2 where p:
      "templated_passes ts v sq ctx sets res e1 = (e2, res2, learned, n)"
      "templated_end ts d dk now res2 learned n e2 = (e', r2)" by (auto simp: dk)
    from mid_ok_passes [OF dk mid added kind p(1)] have "mid_ok dk e2" "keys_in dk learned" by blast+
    from dom_inv_end [OF this d(1) p(2)] show ?thesis .
  qed
  with run show ?thesis by simp
qed

lemma dom_inv_mid: "dom_inv e \<Longrightarrow> canAdmit e dk \<Longrightarrow> mid_ok dk e"
  by (auto simp: dom_inv_def mid_ok_def dom_mid_def)

lemma mid_ok_v9_track:
  assumes "mid_ok dk e" shows "mid_ok dk (fst (v9_track ts uptime sq dk now e))"
proof -
  have "mid_ok dk (reboot ts [] e)" using assms by (intro mid_ok_reboot) (auto simp: mid_ok_def keys_in_def)
  then show ?thesis using assms by (auto simp: v9_track_def Let_def mid_ok_def split: option.splits)
qed

lemma mid_ok_ipfix_track:
  assumes "mid_ok dk e" shows "mid_ok dk (fst (ipfix_track ts sq dk e))"
proof -
  have "mid_ok dk (reboot ts [] e)" using assms by (intro mid_ok_reboot) (auto simp: mid_ok_def keys_in_def)
  then show ?thesis using assms by (auto simp: ipfix_track_def Let_def split: option.splits)
qed

lemma v9_header_ok:
  assumes "v9_header ts pkt e = Some (Inr (uptime, secs, sq, obs, pkt', err))" and "u16_at pkt 0 = 9"
  shows "canAdmit e (9, obs)" and "nf_domain pkt' = (9, obs)"
proof -
  have len: "20 \<le> length pkt" and obs: "obs = u32_at pkt 16" and adm: "canAdmit e (9, obs)"
    and norm: "normalizeV9 pkt = Some (pkt', err)"
    using assms(1) by (auto simp: v9_header_def bind_eq_Some_conv split: if_splits option.splits)
  note n = normalizeV9_idem [OF len norm]
  have "pkt' ! i = pkt ! i" if "16 \<le> i" "i < 20" for i
  proof -
    have "pkt' ! i = drop 4 pkt' ! (i - 4)" using conjunct1 [OF n] that by simp
    also have "\<dots> = drop 4 (take (length pkt') pkt) ! (i - 4)" using n by (simp only:)
    also have "\<dots> = pkt ! i" using n that by simp
    finally show ?thesis .
  qed
  then have "u32_at pkt' 16 = u32_at pkt 16" by (simp add: u32_at_def)
  moreover have "pkt' ! i = pkt ! i" if "i < 2" for i
    using n that by (metis nth_take)
  then have "u16_at pkt' 0 = u16_at pkt 0" by (simp add: u16_at_def)
  ultimately show "nf_domain pkt' = (9, obs)" using obs assms(2) by (simp add: nf_domain_def)
  show "canAdmit e (9, obs)" by (rule adm)
qed

lemma ipfix_header_ok:
  assumes "ipfix_header ts pkt e = Some (Inr (secs, sq, obs))" and "u16_at pkt 0 = 10"
  shows "canAdmit e (10, obs)" and "nf_domain pkt = (10, obs)"
  using assms by (auto simp: ipfix_header_def nf_domain_def bind_eq_Some_conv split: if_splits option.splits)

lemma headers_safe:
  "v9_header ts pkt e \<noteq> None" "ipfix_header ts pkt e \<noteq> None"
proof -
  have "safe (v9_header ts pkt e) (\<lambda>_. True)" "safe (ipfix_header ts pkt e) (\<lambda>_. True)"
    unfolding v9_header_def ipfix_header_def normalizeV9_def
    by (intro safe_intros; auto)+
  then show "v9_header ts pkt e \<noteq> None" "ipfix_header ts pkt e \<noteq> None" by (auto dest: safe_not_None)
qed

text \<open>
  C21: no parser of attacker-controlled bytes in the collector can panic: on every input, every index and slice
  expression of the protocol sniffer, the sampled-header parser, the sFlow converter, the prechecks, the template walk and
  the template decoder is in range, and so is every one of the v9 and IPFIX header code up to the decoder call.
  \<open>normalizeV9\<close> alone would slice past a datagram of less than 20 bytes; its only caller, the v9 header code, has
  answered \<open>ErrShort\<close> by then.
\<close>

theorem parsers_never_panic:
  "Sniff b \<noteq> None \<and> parseEthernet b f \<noteq> None \<and> fromSFlow ss now \<noteq> None \<and> PrecheckV5 b \<noteq> None \<and> PrecheckSFlow b \<noteq> None \<and>
   precheckTemplated look b v \<noteq> None \<and> walkTemplateSet b v opts loc \<noteq> None \<and>
   v9_header ts b e \<noteq> None \<and> ipfix_header ts b e \<noteq> None \<and>
   decodeTemplateBlob b \<noteq> None \<and> recordToTemplate r \<noteq> None"
proof -
  have "safe (parseEthernet b f) (\<lambda>_. True)" "safe (fromSFlow ss now) (\<lambda>_. True)" "safe (PrecheckV5 b) (\<lambda>_. True)"
    "safe (PrecheckSFlow b) (\<lambda>_. True)" "safe (precheckTemplated look b v) (\<lambda>_. True)"
    "safe (walkTemplateSet b v opts loc) (\<lambda>_. True)" "safe (decodeTemplateBlob b) (\<lambda>_. True)"
    "safe (recordToTemplate r) (\<lambda>_. True)"
    by (intro safe_intros TrueI)+
  then show ?thesis using headers_safe [of ts b e] Sniff_total [of b] by (auto simp: safe_def)
qed

lemma Sniff_version:
  "Sniff pkt = Some KindNFv9 \<Longrightarrow> u16_at pkt 0 = 9" "Sniff pkt = Some KindIPFIX \<Longrightarrow> u16_at pkt 0 = 10"
  by (auto simp: Sniff_def split: if_splits)

lemma dom_inv_decodeTemplated:
  assumes e: "dom_inv e" and d: "decoders_total d" "decoders_scoped d"
    and k: "Sniff pkt = Some (res_Kind res)" "res_Kind res = KindNFv9 \<or> res_Kind res = KindIPFIX"
  shows "dom_inv (fst (decodeTemplated ts d pkt now res e))"
proof (cases "res_Kind res = KindNFv9")
  case True
  then have v: "u16_at pkt 0 = 9" using k Sniff_version by simp
  show ?thesis
  proof (cases "\<exists>x. v9_header ts pkt e = Some (Inr x)")
    case hdr: True
    then obtain uptime secs sq obs pkt' err where h: "v9_header ts pkt e = Some (Inr (uptime, secs, sq, obs, pkt', err))"
      by (metis prod_cases6)
    note ok = v9_header_ok [OF h v]
    have "mid_ok (9, obs) (fst (v9_track ts uptime sq (9, obs) now e))"
      using e ok(1) by (intro mid_ok_v9_track dom_inv_mid)
    then show ?thesis
      unfolding decodeTemplated_def using True h ok(2) d
      by (auto simp: Let_def split_beta intro!: dom_inv_templated_sets)
  qed (use True e in \<open>auto simp: decodeTemplated_def split: option.splits sum.splits\<close>)
next
  case False
  then have v: "u16_at pkt 0 = 10" using k Sniff_version by auto
  show ?thesis
  proof (cases "\<exists>x. ipfix_header ts pkt e = Some (Inr x)")
    case hdr: True
    then obtain secs sq obs where h: "ipfix_header ts pkt e = Some (Inr (secs, sq, obs))"
      by (metis prod_cases3)
    note ok = ipfix_header_ok [OF h v]
    have "mid_ok (10, obs) (fst (ipfix_track ts sq (10, obs) e))"
      using e ok(1) by (intro mid_ok_ipfix_track dom_inv_mid)
    then show ?thesis
      unfolding decodeTemplated_def using False h ok(2) d
      by (auto simp: Let_def split_beta intro!: dom_inv_templated_sets)
  qed (use False e in \<open>auto simp: decodeTemplated_def split: option.splits sum.splits\<close>)
qed

lemma dom_inv_stats [simp]: "dom_inv (upd_stats g e) = dom_inv e"
  by (simp add: dom_inv_def)

lemma dom_inv_sflow:
  assumes e: "dom_inv e" shows "dom_inv (fst (decode_sflow d pkt now res e))"
proof -
  have put: "dom_inv ((countGap a b mx e')\<lparr>e_sfSeq := gm_put dk s (e_sfSeq e'')\<rparr>)"
    "dom_inv (e'\<lparr>e_sfSeq := gm_put dk s (e_sfSeq e')\<rparr>)"
    if "dom_inv e'" "gm_has (e_domains e') dk" "e_sfSeq e'' = e_sfSeq (countGap a b mx e')"
    for e' e'' :: "'a Exporter" and a b mx dk s
    using that by (auto simp: dom_inv_def)
  have "dom_inv (admit dk e)" if "canAdmit e dk" for dk
    using that e gmap.size_put_capped [of "e_domains e" MaxDomains dk "()"]
    by (auto simp: dom_inv_def admit_def canAdmit_def gm_has_def split: if_splits)
  moreover have "gm_has (e_domains (admit dk e)) dk" for dk by (simp add: admit_def)
  ultimately show ?thesis using e put
    by (auto simp: decode_sflow_def Let_def split: option.splits dec_out.splits)
qed

lemma dom_inv_Decode:
  assumes e: "dom_inv e" and d: "decoders_total d" "decoders_scoped d"
  shows "dom_inv (fst (Decode ts d pkt now e))"
proof -
  have "dom_inv (fst (decode_body ts d pkt now e))" if e: "dom_inv e" for e :: "'a Exporter"
  proof -
    have "dom_inv (fst (decode_v5 d pkt now res e))" for res
      using e by (auto simp: decode_v5_def Let_def split: option.splits dec_out.splits)
    moreover have "dom_inv (fst (decodeTemplated ts d pkt now (zero_Result\<lparr>res_Kind := k\<rparr>) e))"
      if "Sniff pkt = Some k" "k = KindNFv9 \<or> k = KindIPFIX" for k
      using that e d by (intro dom_inv_decodeTemplated) auto
    ultimately show ?thesis using e dom_inv_sflow [OF e]
      by (auto simp: decode_body_def Let_def split: option.splits kind.splits)
  qed
  then have b: "dom_inv (fst (decode_body ts d pkt now (datagram_stat e)))" using e by (simp add: datagram_stat_def)
  have acc: "dom_inv (account_flows fs (account_error err e)) = dom_inv e" for fs err and e :: "'a Exporter"
    by (simp add: account_error_def account_flows_def split: option.splits)
  show ?thesis
    by (rule Decode_state [of ts d pkt now e]) (simp add: acc b)
qed

lemma dom_inv_New: "dom_inv (NewExporter ts)"
  by (simp add: dom_inv_def NewExporter_def tracked_def NewSafeTemplates_def)

lemma ImportTemplate_added:
  assumes "ImportTemplate ts r s = Some (x, s')" shows "s_added s' = s_added s"
proof -
  have "s_added (snd (st_add ts v ob i t True s)) = s_added s" for v ob i t
    by (auto simp: st_add_def Let_def split: sum.splits prod.splits)
  moreover have "s' = s \<or> (\<exists>v ob i t. st_add ts v ob i t True s = (x, s'))"
    using assms by (cases "the (recordToTemplate r)") (auto simp: ImportTemplate_def bind_eq_Some_conv split: if_splits)
  ultimately show ?thesis by (metis snd_conv)
qed

lemma dom_inv_LoadTemplates:
  assumes e: "dom_inv e"
  shows "dom_inv (fst (LoadTemplates ts recs e))"
proof -
  have step: "dom_inv (fst (load_template ts r st))" if "dom_inv (fst st)" for r and st :: "'a Exporter \<times> nat \<times> derror list"
  proof -
    obtain e l errs where st: "st = (e, l, errs)" by (metis prod_cases3)
    have "dom_inv (e\<lparr>e_Templates := s\<rparr>)" if "ImportTemplate ts r (e_Templates e) = Some (x, s)" for x s
      using that \<open>dom_inv (fst st)\<close> by (auto simp: st dom_inv_def dest: ImportTemplate_added)
    moreover have "dom_inv (admit dk e)" if "canAdmit e dk" "dom_inv e" for dk and e :: "'a Exporter"
      using that gmap.size_put_capped [of "e_domains e" MaxDomains dk "()"]
      by (auto simp: dom_inv_def admit_def canAdmit_def gm_has_def split: if_splits)
    ultimately show ?thesis using that
      by (auto simp: load_template_def st Let_def canAdmit_def split: option.splits)
  qed
  have "dom_inv (fst st) \<Longrightarrow> dom_inv (fst (fold (load_template ts) recs st))" for st
    by (induction recs arbitrary: st) (simp_all add: step)
  with e show ?thesis by (simp add: LoadTemplates_def)
qed

end
