(* ===== verification/Exporter_Props.thy ===== *)
theory Exporter_Props
  imports Exporter_Domains
begin

text \<open>
  What \<open>Decode\<close> returns: the times, rates and addresses of its flows, the bound on replayed
  records, the uptime estimate, and the accounting of every datagram.
\<close>

subsection \<open>Times of the produced flows\<close>

lemma finish_record_within:
  fixes ctx defines "skew \<equiv> effective_skew (t_sub (c_received ctx) (c_exportTime ctx))"
  shows "times_within (c_exportTime ctx - hours 2 + skew) (c_exportTime ctx + minutes 1 + skew)
    (finish_record ctx exportMs est r)"
  using applySkew_within [OF sanitizeTimes_within]
  by (auto simp: finish_record_def Let_def split_beta skew_def times_within_def)

lemma finish_flows:
  "fst (snd (finish ts recs ctx learned live e)) = [] \<or>
    (\<exists>est. fst (snd (finish ts recs ctx learned live e)) = map (finish_record ctx (unix_milli (c_exportTime ctx)) est) recs)"
  by (auto simp: finish_def Let_def split_beta)

lemma finish_length: "length (fst (snd (finish ts recs ctx learned live e))) = length recs"
  by (simp add: finish_def Let_def split_beta)

text \<open>The rate, bytes and packets of a finished flow.\<close>

lemma finish_record_scaled:
  fixes ctx exportMs est r defines "f \<equiv> finish_record ctx exportMs est r"
  shows "1 \<le> f_SamplingRate f" and "f_Bytes f = f_RawBytes f * ucast (f_SamplingRate f)"
    and "f_Packets f = f_RawPackets f * ucast (f_SamplingRate f)"
    and "f_RawBytes f = f_RawBytes (r_f r)" and "f_RawPackets f = f_RawPackets (r_f r)"
proof -
  define r' where "r' = (let skew = t_sub (c_received ctx) (c_exportTime ctx);
         f = r_f r;
         f = (if r_hasUp r then f\<lparr>f_RawStart := r_upStart r, f_RawEnd := r_upEnd r\<rparr> else f);
         (st, en, src) = record_times ctx exportMs est r;
         f = f\<lparr>f_Start := st, f_End := en, f_TimeSource := src\<rparr>
     in r\<lparr>r_f := applySkew (sanitizeTimes f (c_exportTime ctx)) skew\<rparr>)"
  have f: "f = r_f (scale r' (c_sampling ctx))"
    by (simp add: f_def finish_record_def r'_def Let_def split_beta)
  have raw: "f_RawBytes (r_f r') = f_RawBytes (r_f r)" "f_RawPackets (r_f r') = f_RawPackets (r_f r)"
    by (simp_all add: r'_def Let_def split_beta applySkew_def sanitizeTimes_def)
  from scale_rate [of r' "c_sampling ctx"] raw show
    "1 \<le> f_SamplingRate f" "f_Bytes f = f_RawBytes f * ucast (f_SamplingRate f)"
    "f_Packets f = f_RawPackets f * ucast (f_SamplingRate f)"
    "f_RawBytes f = f_RawBytes (r_f r)" "f_RawPackets f = f_RawPackets (r_f r)"
    by (simp_all add: f)
qed

subsection \<open>Deduplicated keys\<close>

lemma dedupKeys_spec: "distinct (dedupKeys ks) \<and> set (dedupKeys ks) = set ks"
proof -
  have "distinct out \<Longrightarrow> distinct (foldl (\<lambda>out k. if k \<in> set out then out else k # out) out ks) \<and>
    set (foldl (\<lambda>out k. if k \<in> set out then out else k # out) out ks) = set out \<union> set ks" for out :: "TemplateKey list"
    by (induction ks arbitrary: out) auto
  then show ?thesis by (simp add: dedupKeys_def)
qed

subsection \<open>The uptime estimate\<close>

text \<open>\<open>estimate\<close> is the minimum of the bounds younger than the window.\<close>

definition recent_bounds :: "'s Exporter \<Rightarrow> domainKey \<Rightarrow> time \<Rightarrow> int list" where
  "recent_bounds e dk now = map eb_bound (filter (\<lambda>b. t_sub now (eb_at b) < estWindow)
     (case gm_get (e_est e) dk of None \<Rightarrow> [] | Some bs \<Rightarrow> bs))"

lemma Min_insert_insert: "finite S \<Longrightarrow> Min (insert x (insert y S)) = Min (insert (min x y) (S :: int set))"
  by (cases "S = {}") (simp_all add: min.assoc)

lemma estimate_fold:
  "fold (\<lambda>b best. if t_sub now (eb_at b) \<ge> estWindow then best
       else (case best of None \<Rightarrow> Some (eb_bound b)
             | Some x \<Rightarrow> if eb_bound b < x then Some (eb_bound b) else Some x)) bs (Some x)
    = Some (Min (insert x (set (map eb_bound (filter (\<lambda>b. t_sub now (eb_at b) < estWindow) bs)))))"
proof (induction bs arbitrary: x)
  case (Cons b bs)
  define S where "S = set (map eb_bound (filter (\<lambda>b. t_sub now (eb_at b) < estWindow) bs))"
  have "Min (insert x (insert (eb_bound b) S)) = Min (insert (min x (eb_bound b)) S)"
    by (rule Min_insert_insert) (simp add: S_def)
  then show ?case
    using Cons.IH by (simp add: not_le min_def not_less S_def del: Min_insert)
qed simp

lemma estimate_min:
  "estimate e dk now = (if recent_bounds e dk now = [] then None else Some (Min (set (recent_bounds e dk now))))"
proof -
  define bs where "bs = (case gm_get (e_est e) dk of None \<Rightarrow> [] | Some bs \<Rightarrow> bs)"
  have "fold (\<lambda>b best. if t_sub now (eb_at b) \<ge> estWindow then best
       else (case best of None \<Rightarrow> Some (eb_bound b)
             | Some x \<Rightarrow> if eb_bound b < x then Some (eb_bound b) else Some x)) bs None
    = (let rs = map eb_bound (filter (\<lambda>b. t_sub now (eb_at b) < estWindow) bs)
       in if rs = [] then None else Some (Min (set rs)))"
  proof (induction bs)
    case (Cons b bs)
    then show ?case by (simp add: estimate_fold not_le Let_def del: Min_insert)
  qed simp
  then show ?thesis unfolding estimate_def recent_bounds_def bs_def [symmetric] by (simp add: Let_def)
qed

subsection \<open>The replay budget\<close>

text \<open>
  What goflow2 documents of \<open>DecodeDataSet\<close>: every record it returns consumed at least the
  minimum record length of the template.
\<close>

definition decoders_consume :: "'s decoders \<Rightarrow> bool" where
  "decoders_consume d \<longleftrightarrow> (\<forall>v b flds recs err. d_dataset d v b flds = Some (recs, err) \<longrightarrow>
     0 < minRecordLen flds \<longrightarrow> length recs \<le> length b div minRecordLen flds)"

lemma length_parse_records: "length (parse_records ctx recs) \<le> length recs"
  unfolding parse_records_def by (metis length_filter_le length_map)

lemma replay_set_budget:
  assumes "decoders_consume d" and "replay_budget p t budget = Inr budget'"
    and "replay_set ts d p t e = (e', Some flows)"
  shows "length flows + budget' \<le> budget"
proof (cases t)
  case (NFTemplate i fc flds)
  define n where "n = length (ps_raw p) div minRecordLen flds"
  have b: "0 < minRecordLen flds" "n \<le> budget" "budget' = budget - n"
    using assms(2) NFTemplate
    by (auto simp: replay_budget_def templateFields_def Let_def n_def split: if_splits)
  obtain recs err where r: "d_dataset d (k_Version (ps_key p)) (ps_raw p) flds = Some (recs, err)"
    using assms(3) NFTemplate by (auto simp: replay_set_def Let_def split: option.splits)
  have "length recs \<le> n" using assms(1) r b(1) unfolding decoders_consume_def n_def by blast
  moreover have "length flows \<le> length recs"
    using assms(3) NFTemplate r length_parse_records
    by (auto simp: replay_set_def Let_def finish_length split_beta split: if_splits)
  ultimately show ?thesis using b by linarith
qed (use assms in \<open>auto simp: replay_set_def replay_budget_def Let_def split: option.splits if_splits sum.splits prod.splits\<close>)

text \<open>One buffered set is dropped, or it is replayed under its template within the budget.\<close>

lemma replay_loop_step:
  assumes "replay_loop ts d (p # ps) budget out e = (e', Some out')"
  obtains (dropped) e2 where "replay_loop ts d ps budget out e2 = (e', Some out')"
  | (replayed) t b2 e2 flows where "replay_budget p t budget = Inr b2" "replay_set ts d p t e = (e2, Some flows)"
      "replay_loop ts d ps b2 (out @ flows) e2 = (e', Some out')"
  using assms by (simp split: option.splits sum.splits prod.splits)

lemma replay_loop_bounded:
  assumes "decoders_consume d" and "replay_loop ts d ps budget out e = (e', Some out')"
  shows "length out' \<le> length out + budget"
  using assms(2)
proof (induction ps arbitrary: budget out e)
  case (Cons p ps)
  from Cons.prems show ?case
  proof (cases rule: replay_loop_step)
    case (replayed t b2 e2 flows)
    with replay_set_budget [OF assms(1) replayed(1,2)] Cons.IH [OF replayed(3)] show ?thesis by simp
  qed (rule Cons.IH)
qed simp

lemma replay_bounded:
  "decoders_consume d \<Longrightarrow> replay ts d added now e = (e', Some flows) \<Longrightarrow> length flows \<le> maxReplayRecords"
  unfolding replay_def Let_def by (drule replay_loop_bounded) (auto simp del: replay_loop.simps)

subsection \<open>The window of the flow times\<close>

definition clock_ok :: "time \<Rightarrow> bool" where
  "clock_ok t \<longleftrightarrow> 0 \<le> t \<and> t \<le> seconds 4294967296"

definition ctx_ok :: "time \<Rightarrow> recordCtx \<Rightarrow> bool" where
  "ctx_ok now ctx \<longleftrightarrow> clock_ok (c_received ctx) \<and> c_received ctx \<le> now \<and> clock_ok (c_exportTime ctx)"

definition recent :: "time \<Rightarrow> flow \<Rightarrow> bool" where
  "recent now f \<longleftrightarrow> times_within (now - hours 2 - minutes 2 - seconds 5) (now + minutes 1 + seconds 5) f"

definition good_flow :: "time \<Rightarrow> flow \<Rightarrow> bool" where
  "good_flow now f \<longleftrightarrow> recent now f \<and> scaled f \<and> flow_addrs_wf f"

lemma skew_exact: "clock_ok t \<Longrightarrow> clock_ok u \<Longrightarrow> t_sub t u = t - u"
  by (rule t_sub_exact) (simp_all add: clock_ok_def time_defs)

lemma window_shift:
  assumes "clock_ok received" and "clock_ok export"
    and "times_within (export - hours 2 + effective_skew (t_sub received export))
      (export + minutes 1 + effective_skew (t_sub received export)) f"
  shows "times_within (received - hours 2 - seconds 5) (received + minutes 1 + seconds 5) f"
  using assms(3) unfolding skew_exact [OF assms(1,2)]
  by (auto simp: times_within_def effective_skew_def skewThreshold_def seconds_def split: if_splits)

lemma times_within_mono: "times_within lo hi f \<Longrightarrow> lo' \<le> lo \<Longrightarrow> hi \<le> hi' \<Longrightarrow> times_within lo' hi' f"
  by (auto simp: times_within_def)

lemma finish_record_addrs: "flow_addrs_wf (r_f r) \<Longrightarrow> flow_addrs_wf (finish_record ctx ms est r)"
  by (simp add: finish_record_def Let_def split_beta flow_addrs_wf_def applySkew_def sanitizeTimes_def)

lemma finish_record_good:
  assumes "clock_ok now" and ctx: "ctx_ok now ctx" and "t_sub now (c_received ctx) < PendingTTL" and "flow_addrs_wf (r_f r)"
  shows "good_flow now (finish_record ctx ms est r)"
proof -
  have age: "now - c_received ctx < minutes 2"
    using assms(1-3) skew_exact [of now "c_received ctx"] by (simp add: ctx_ok_def PendingTTL_def)
  have "times_within (c_received ctx - hours 2 - seconds 5) (c_received ctx + minutes 1 + seconds 5) (finish_record ctx ms est r)"
    using ctx by (intro window_shift [where export = "c_exportTime ctx"] finish_record_within) (simp_all add: ctx_ok_def)
  then have "recent now (finish_record ctx ms est r)"
    unfolding recent_def using age ctx by (elim times_within_mono) (auto simp: ctx_ok_def)
  then show ?thesis
    using finish_record_scaled finish_record_addrs [OF assms(4)] by (simp add: good_flow_def scaled_def)
qed

lemma parse_records_addrs: "r \<in> set (parse_records ctx recs) \<Longrightarrow> flow_addrs_wf (r_f r)"
  using parseDataRecord_addrs by (auto simp: parse_records_def)

lemma finish_good:
  assumes "\<And>ms est r. r \<in> set recs \<Longrightarrow> good_flow now (finish_record ctx ms est r)"
    and "finish ts recs ctx learned live e = (e', flows, rb)"
  shows "\<forall>f\<in>set flows. good_flow now f"
  using finish_flows [of ts recs ctx learned live e] assms by fastforce

definition pend_clock :: "time \<Rightarrow> 's Exporter \<Rightarrow> bool" where
  "pend_clock now e \<longleftrightarrow> (\<forall>p\<in>set (e_pending e). ctx_ok now (ps_ctx p))"

lemma pend_clock_cong: "e_pending e' = e_pending e \<Longrightarrow> pend_clock now e' = pend_clock now e"
  by (simp add: pend_clock_def)

lemma pending_ops [simp]:
  "e_pending (upd_stats g e) = e_pending e" "e_pending (drop_pending_stat n e) = e_pending e"
  "e_pending (replayed_stat e) = e_pending e" "e_pending (missed_stat e) = e_pending e"
  "e_pending (countGap got want mx e) = e_pending e" "e_pending (admit dk e) = e_pending e"
  "e_pending (forgetDomain dk e) = e_pending e" "e_pending (addEstBound dk at b e) = e_pending e"
  "e_pending (reboot ts keep e) = []"
  by (simp_all add: upd_stats_def drop_pending_stat_def replayed_stat_def missed_stat_def countGap_def admit_def
    forgetDomain_def addEstBound_def reboot_def Let_def split_beta)

interpretation age: exporter_invariant ts "ctx_ok now" "pend_clock now" for ts :: "'s template_system" and now
proof (unfold_locales)
  show "ctx_ok now ctx \<Longrightarrow> ctx_ok now (ctx\<lparr>c_sampling := r\<rparr>)" for ctx r by (simp add: ctx_ok_def)
  show "pend_clock now (bufferPending k rw ctx e)" if "pend_clock now e" "ctx_ok now ctx" for k rw ctx and e :: "'s Exporter"
    using that by (auto simp: pend_clock_def bufferPending_def expirePending_def Let_def)
qed (auto simp: pend_clock_def)

lemma pend_clock_Decode:
  assumes "clock_ok now" and "pend_clock now e"
  shows "pend_clock now (fst (Decode ts d pkt now e))"
proof -
  have ctx: "ctx_ok now \<lparr>c_kind = k, c_obs = ob, c_exportTime = time_Unix (uint (secs :: u32)) 0, c_received = now,
      c_sysUptimeMs = up, c_sampling = 0\<rparr>" for k ob secs up
    using assms(1) uint_lt2p [of secs] by (simp add: ctx_ok_def clock_ok_def time_defs)
  have b: "pend_clock now (fst (decode_body ts d pkt now (datagram_stat e)))"
    using assms(2) by (intro age.decode_body ctx) (simp add: pend_clock_def datagram_stat_def)
  have a: "pend_clock now (account_flows fs (account_error err e)) = pend_clock now e" for fs err and e :: "'a Exporter"
    by (rule pend_clock_cong) (simp add: account_flows_def account_error_def split: option.splits)
  have s: "pend_clock now (upd_stats g e) = pend_clock now e" for g and e :: "'a Exporter"
    by (rule pend_clock_cong) simp
  show ?thesis by (rule Decode_state [of ts d pkt now e]) (simp add: a s b)
qed

subsection \<open>Every flow of a datagram\<close>

lemma pass2_records:
  "\<forall>r\<in>set (fst (snd st)). flow_addrs_wf (r_f r) \<Longrightarrow>
    \<forall>r\<in>set (fst (snd (fold (pass2 v ctx) sets st))). flow_addrs_wf (r_f r)"
proof (induction sets arbitrary: st)
  case (Cons s sets)
  have "\<forall>r\<in>set (fst (snd (pass2 v ctx s st))). flow_addrs_wf (r_f r)"
    using Cons.prems parse_records_addrs by (cases s) (auto simp: pass2_def Let_def split: prod.splits)
  with Cons.IH show ?case by simp
qed simp

lemma passes_good:
  assumes "clock_ok now" and "ctx_ok now ctx" and "c_received ctx = now"
    and "templated_passes ts v sq ctx sets res e = (e', res', learned, n)"
  shows "\<forall>f\<in>set (res_Flows res'). good_flow now f"
  using assms(4)
proof (rule templated_passes_run)
  fix e1 n1 ctx' e2 recs rw e3 fl rb
  assume ctx': "ctx' = ctx\<lparr>c_sampling := samplingFor e1 (v, c_obs ctx)\<rparr>"
    and p2: "fold (pass2 v ctx') sets (e1, [], n1, False) = (e2, recs, n, rw)"
    and fin: "finish ts recs ctx' learned True (e3\<lparr>e_Templates := snd (drainWithdrawn (snd (drainAdded (e_Templates e3))))\<rparr>)
      = (e', fl, rb)"
    and res': "res' = res\<lparr>res_Withdrawn := s_withdrawn (e_Templates e3), res_Rebooted := res_Rebooted res \<or> rb, res_Flows := fl\<rparr>"
  have "\<forall>r\<in>set recs. flow_addrs_wf (r_f r)"
    using pass2_records [of "(e1, [], n1, False)" v ctx' sets] p2 by simp
  then have "good_flow now (finish_record ctx' ms est r)" if "r \<in> set recs" for ms est r
    using assms(1-3) that ctx' by (intro finish_record_good) (auto simp: ctx_ok_def PendingTTL_def minutes_def seconds_def)
  from finish_good [OF this fin] show ?thesis by (simp add: res')
qed

lemma replay_set_good:
  assumes "clock_ok now" and "ctx_ok now (ps_ctx p)" and "t_sub now (c_received (ps_ctx p)) < PendingTTL"
    and "replay_set ts d p t e = (e', Some flows)"
  shows "\<forall>f\<in>set flows. good_flow now f"
proof (cases t)
  case (NFTemplate i fc flds)
  have g: "good_flow now (finish_record ((ps_ctx p)\<lparr>c_sampling := s\<rparr>) ms est r)"
    if "r \<in> set (parse_records c recs)" for s ms est r c recs
    using assms(1-3) that by (intro finish_record_good) (auto simp: ctx_ok_def intro: parse_records_addrs)
  show ?thesis
    using assms(4) NFTemplate
    by (auto simp: replay_set_def Let_def split: option.splits if_splits prod.splits
      dest!: finish_good [OF g, rotated] )
qed (use assms(4) in \<open>auto simp: replay_set_def Let_def split: option.splits\<close>)

lemma replay_loop_good:
  assumes "clock_ok now" and "\<forall>p\<in>set ps. ctx_ok now (ps_ctx p) \<and> t_sub now (c_received (ps_ctx p)) < PendingTTL"
    and "\<forall>f\<in>set out. good_flow now f" and "replay_loop ts d ps budget out e = (e', Some out')"
  shows "\<forall>f\<in>set out'. good_flow now f"
  using assms(2-4)
proof (induction ps arbitrary: budget out e)
  case (Cons p ps)
  from Cons.prems(3) show ?case
  proof (cases rule: replay_loop_step)
    case (dropped e2)
    with Cons.IH [of out budget e2] Cons.prems show ?thesis by simp
  next
    case (replayed t b2 e2 flows)
    with replay_set_good [OF assms(1), of p ts d t e e2 flows] Cons.prems
    have "\<forall>f\<in>set flows. good_flow now f" by simp
    with Cons.IH [of "out @ flows" b2 e2] Cons.prems replayed show ?thesis by auto
  qed
qed simp

lemma replay_good:
  assumes "clock_ok now" and "pend_clock now e" and "replay ts d added now e = (e', Some flows)"
  shows "\<forall>f\<in>set flows. good_flow now f"
proof -
  define ps where "ps = filter (\<lambda>p. ps_key p \<in> set added) (e_pending (expirePending now e))"
  have "\<forall>p\<in>set ps. ctx_ok now (ps_ctx p) \<and> t_sub now (c_received (ps_ctx p)) < PendingTTL"
    using assms(2) by (auto simp: ps_def pend_clock_def expirePending_def Let_def)
  moreover obtain e2 where "replay_loop ts d ps maxReplayRecords [] e2 = (e', Some flows)"
    using assms(3) unfolding replay_def Let_def ps_def by blast
  ultimately show ?thesis using replay_loop_good [OF assms(1), of ps "[]"] by simp
qed

lemma templated_sets_good:
  assumes now: "clock_ok now" and ctx: "ctx_ok now ctx" "c_received ctx = now" and e: "pend_clock now e"
    and run: "templated_sets ts d v sq ctx v9Err pkt now res e = (e', Some (res', err))"
  shows "\<forall>f\<in>set (res_Flows res'). good_flow now f"
  using run
proof (rule templated_sets_run)
  fix calls out e1
  assume e1: "e1 = e\<lparr>e_Templates := fold (store_step ts) calls (e_Templates e)\<rparr>"
    and none: "out = None \<Longrightarrow> e' = e1 \<and> Some (res', err) = None"
    and some: "\<And>sets derr. out = Some (sets, derr) \<Longrightarrow> \<exists>e2 res2 learned n r2.
       templated_passes ts v sq ctx sets res e1 = (e2, res2, learned, n) \<and>
       templated_end ts d (v, c_obs ctx) now res2 learned n e2 = (e', r2) \<and> map_option fst (Some (res', err)) = r2"
  obtain sets derr where "out = Some (sets, derr)" using none by (cases out) auto
  from some [OF this] obtain e2 res2 learned n where p: "templated_passes ts v sq ctx sets res e1 = (e2, res2, learned, n)"
    and f: "templated_end ts d (v, c_obs ctx) now res2 learned n e2 = (e', Some res')" by auto
  note g = passes_good [OF now ctx p]
  have "pend_clock now e1" using e by (simp add: e1 pend_clock_def)
  then have e2: "pend_clock now e2" using ctx(1) p by (rule age.passes)
  from f show ?thesis
  proof (rule templated_end_run)
    fix e3 replayed
    assume r: "(if learned \<noteq> [] then replay ts d learned now e2 else (e2, Some [])) = (e3, replayed)"
      and none: "replayed = None \<Longrightarrow> e' = e3 \<and> Some res' = None"
      and some: "\<And>fs. replayed = Some fs \<Longrightarrow> \<exists>res2' e4. Some res' = Some res2' \<and> res_Flows res2' = res_Flows res2 @ fs \<and>
       e4 = (if learned \<noteq> [] \<or> n > 0 \<or> res_Flows res2' \<noteq> [] then admit (v, c_obs ctx) e3 else e3) \<and>
       e' = (if gm_has (e_domains e4) (v, c_obs ctx) then e4 else forgetDomain (v, c_obs ctx) e4)"
    obtain fs where fs: "replayed = Some fs" using none by (cases replayed) auto
    then have "\<forall>f\<in>set fs. good_flow now f"
      using r replay_good [OF now e2] by (auto split: if_splits)
    with g some [OF fs] show ?thesis by auto
  qed
qed

lemma new_ctx_ok:
  "clock_ok now \<Longrightarrow> ctx_ok now \<lparr>c_kind = k, c_obs = ob, c_exportTime = time_Unix (uint (secs :: u32)) 0, c_received = now,
      c_sysUptimeMs = up, c_sampling = 0\<rparr>"
  using uint_lt2p [of secs] by (simp add: ctx_ok_def clock_ok_def time_defs)

lemma decodeTemplated_good:
  assumes now: "clock_ok now" and e: "pend_clock now e" and res: "res_Flows res = []"
    and run: "decodeTemplated ts d pkt now res e = (e', Some (res', err))"
  shows "\<forall>f\<in>set (res_Flows res'). good_flow now f"
proof -
  have g: "\<forall>f\<in>set (res_Flows res'). good_flow now f"
    if "templated_sets ts d v sq \<lparr>c_kind = k, c_obs = ob, c_exportTime = time_Unix (uint (secs :: u32)) 0, c_received = now,
      c_sysUptimeMs = up, c_sampling = 0\<rparr> v9Err pkt' now res0 e2 = (e', Some (res', err))" "pend_clock now e2"
    for v sq k ob secs up v9Err pkt' res0 e2
    using templated_sets_good [OF now new_ctx_ok [OF now] _ that(2) that(1)] by simp
  show ?thesis
    using run res e g age.v9_track [OF e] age.ipfix_track [OF e]
    unfolding decodeTemplated_def
    by (auto simp: Let_def split_beta split: if_splits option.splits sum.splits prod.splits)
qed

lemma fromV5_good:
  assumes "clock_ok now" and "f \<in> set (fromV5 p ov now)"
  shows "good_flow now f"
proof -
  define export where "export = time_Unix (uint (v5_UnixSecs p)) (uint (v5_UnixNSecs p mod 1000000000))"
  obtain rate r where f: "f = fromV5_record p export (t_sub now export) rate r" and rate: "rate \<noteq> 0"
    using assms(2) by (auto simp: fromV5_def Let_def export_def)
  have "uint (v5_UnixNSecs p mod 1000000000) < 1000000000" by (simp add: uint_mod)
  then have export: "clock_ok export"
    using uint_lt2p [of "v5_UnixSecs p"] by (simp add: clock_ok_def export_def time_defs)
  have "times_within (now - hours 2 - seconds 5) (now + minutes 1 + seconds 5) f"
    by (intro window_shift [OF assms(1) export])
       (simp add: f fromV5_record_def Let_def applySkew_within sanitizeTimes_within)
  then have "recent now f"
    unfolding recent_def by (rule times_within_mono) (simp_all add: time_defs)
  moreover have "scaled f" "flow_addrs_wf f"
    using rate by (simp_all add: f fromV5_record_def Let_def scaled_def one_le_u32 flow_addrs_wf_def applySkew_def
      sanitizeTimes_def zero_flow_def)
  ultimately show ?thesis by (simp add: good_flow_def)
qed

lemma sflow_good: "sflow_ok now f \<Longrightarrow> good_flow now f"
  by (simp add: sflow_ok_def good_flow_def recent_def times_within_def time_defs)

lemma decode_body_good:
  assumes now: "clock_ok now" and e: "pend_clock now e"
    and run: "decode_body ts d pkt now e = (e', Some (res, err))"
  shows "\<forall>f\<in>set (res_Flows res). good_flow now f"
proof -
  have z: "res_Flows (zero_Result\<lparr>res_Kind := k\<rparr>) = []" for k by (simp add: zero_Result_def)
  have v5: "\<forall>f\<in>set (res_Flows res). good_flow now f"
    if "decode_v5 d pkt now (zero_Result\<lparr>res_Kind := k\<rparr>) e = (e', Some (res, err))" for k
    using that z [of k] fromV5_good [OF now] by (auto simp: decode_v5_def Let_def split: option.splits dec_out.splits)
  have sf: "\<forall>f\<in>set (res_Flows res). good_flow now f"
    if "decode_sflow d pkt now (zero_Result\<lparr>res_Kind := k\<rparr>) e = (e', Some (res, err))" for k
  proof -
    have "\<forall>f\<in>set fs. good_flow now f" if "fromSFlow ss now = Some (fs, cs)" for ss fs cs
      using safeD [OF fromSFlow_safe [where Q = "\<lambda>(fs, cs). \<forall>f\<in>set fs. sflow_ok now f"] that] sflow_good by auto
    then show ?thesis
      using that z [of k] by (auto simp: decode_sflow_def Let_def split: option.splits dec_out.splits if_splits)
  qed
  show ?thesis
    using run z v5 sf decodeTemplated_good [OF now e z]
    by (auto simp: decode_body_def Let_def zero_Result_def split: if_splits option.splits kind.splits)
qed

subsection \<open>Runs of an exporter\<close>

text \<open>
  The life of an exporter as the collector's worker drives it: built, its settings and
  persisted templates loaded, datagrams decoded and the buffer expired at times that do
  not go back. \<open>exp_run ts d now e\<close>: \<open>e\<close> is a state reached by time \<open>now\<close>.
\<close>

inductive exp_run :: "'s template_system \<Rightarrow> 's decoders \<Rightarrow> time \<Rightarrow> 's Exporter \<Rightarrow> bool" for ts d where
  run_new: "0 \<le> now \<Longrightarrow> exp_run ts d now (NewExporter ts)"
| run_settings: "exp_run ts d now e \<Longrightarrow> exp_run ts d now (e\<lparr>e_SamplingOverride := ov, e_SkipV9Seq := sk\<rparr>)"
| run_load: "exp_run ts d now e \<Longrightarrow> exp_run ts d now (fst (LoadTemplates ts recs e))"
| run_decode: "exp_run ts d t e \<Longrightarrow> t \<le> now \<Longrightarrow> exp_run ts d now (fst (Decode ts d pkt now e))"
| run_expire: "exp_run ts d t e \<Longrightarrow> exp_run ts d t (expirePending now e)"

lemma exp_run_nonneg: "exp_run ts d now e \<Longrightarrow> 0 \<le> now"
  by (induction rule: exp_run.induct) auto

lemma exp_run_mem: "exp_run ts d now e \<Longrightarrow> template_system_ok ts \<Longrightarrow> mem_inv ts e"
proof (induction rule: exp_run.induct)
  case (run_settings now e ov sk)
  then show ?case by (simp add: mem_inv_def)
qed (auto intro: mem_inv_New mem_inv_LoadTemplates mem_inv_Decode mem_inv_expire)

lemma exp_run_dom: "exp_run ts d now e \<Longrightarrow> decoders_total d \<Longrightarrow> decoders_scoped d \<Longrightarrow> dom_inv e"
proof (induction rule: exp_run.induct)
  case (run_settings now e ov sk)
  then show ?case by (simp add: dom_inv_def tracked_def)
next
  case (run_expire t e now)
  then show ?case by (simp add: dom_inv_def)
qed (auto intro: dom_inv_New dom_inv_LoadTemplates dom_inv_Decode)

lemma pend_clock_mono: "pend_clock t e \<Longrightarrow> t \<le> now \<Longrightarrow> pend_clock now e"
  by (auto simp: pend_clock_def ctx_ok_def)

lemma pend_clock_sub: "pend_clock now e \<Longrightarrow> set (e_pending e') \<subseteq> set (e_pending e) \<Longrightarrow> pend_clock now e'"
  by (auto simp: pend_clock_def)

lemma pending_LoadTemplates: "e_pending (fst (LoadTemplates ts recs e)) = e_pending e"
proof -
  have "e_pending (fst (load_template ts r st)) = e_pending (fst st)" for r st
    by (auto simp: load_template_def Let_def split: prod.splits option.splits)
  then have "e_pending (fst (fold (load_template ts) recs st)) = e_pending (fst st)" for st
    by (induction recs arbitrary: st) simp_all
  then show ?thesis by (simp add: LoadTemplates_def)
qed

lemma exp_run_clock: "exp_run ts d now e \<Longrightarrow> now \<le> seconds 4294967296 \<Longrightarrow> pend_clock now e"
proof (induction rule: exp_run.induct)
  case (run_new now)
  then show ?case by (simp add: pend_clock_def NewExporter_def)
next
  case (run_load now e recs)
  then show ?case by (simp add: pend_clock_def pending_LoadTemplates)
next
  case (run_decode t e now pkt)
  then have "clock_ok now" using exp_run_nonneg [OF run_decode.hyps(1)] by (simp add: clock_ok_def)
  with run_decode show ?case by (intro pend_clock_Decode) (auto intro: pend_clock_mono)
next
  case (run_expire t e now)
  then have "pend_clock t e" by blast
  then show ?case by (rule pend_clock_sub) (auto simp: expirePending_def Let_def)
qed (simp add: pend_clock_def)

subsection \<open>Counters\<close>

definition counters_ok :: "stats \<Rightarrow> bool" where
  "counters_ok s \<longleftrightarrow> st_Flows s = sum (st_TimeSources s) {TimeExport, TimeSysUptime, TimeAbsolute, TimeUptimeEst} \<and>
    st_Rejected s + st_DecodeErrors s \<le> st_Datagrams s \<and> st_Panics s \<le> st_DecodeErrors s"

lemma sum_sources_filter:
  "sum (\<lambda>s. length (filter (\<lambda>f. f_TimeSource f = s) fs)) {TimeExport, TimeSysUptime, TimeAbsolute, TimeUptimeEst} = length fs"
proof (induction fs)
  case (Cons f fs)
  then show ?case by (cases "f_TimeSource f") auto
qed simp

text \<open>What one datagram adds to the counters, in terms of its result.\<close>

lemma Decode_counters:
  assumes run: "Decode ts d pkt now e = (e', res, err)"
  shows "st_Datagrams (e_Stats e') = st_Datagrams (e_Stats e) + 1 \<and>
    st_Flows (e_Stats e') = st_Flows (e_Stats e) + length (res_Flows res) \<and>
    st_Rejected (e_Stats e') = st_Rejected (e_Stats e) + (if (\<exists>x. err = Some x \<and> IsRejected x) then 1 else 0) \<and>
    st_DecodeErrors (e_Stats e') = st_DecodeErrors (e_Stats e) + (if (\<exists>x. err = Some x \<and> \<not> IsRejected x) then 1 else 0) \<and>
    (st_Panics (e_Stats e') = st_Panics (e_Stats e) \<or>
      st_Panics (e_Stats e') = st_Panics (e_Stats e) + 1 \<and> err = Some ErrPanic \<and> res_Flows res = []) \<and>
    (\<forall>s. st_TimeSources (e_Stats e') s
      = st_TimeSources (e_Stats e) s + length (filter (\<lambda>f. f_TimeSource f = s) (res_Flows res)))"
proof -
  obtain e1 r where b: "decode_body ts d pkt now (datagram_stat e) = (e1, r)" by force
  have "core_stats e1 = core_stats (datagram_stat e)" using core_decode_body [of ts d pkt now "datagram_stat e"] b by simp
  then have c: "st_Datagrams (e_Stats e1) = st_Datagrams (e_Stats e) + 1" "st_Flows (e_Stats e1) = st_Flows (e_Stats e)"
    "st_DecodeErrors (e_Stats e1) = st_DecodeErrors (e_Stats e)" "st_Rejected (e_Stats e1) = st_Rejected (e_Stats e)"
    "st_Panics (e_Stats e1) = st_Panics (e_Stats e)" "st_TimeSources (e_Stats e1) = st_TimeSources (e_Stats e)"
    by (simp_all add: core_stats_def Let_def datagram_stat_def upd_stats_def)
  show ?thesis
  proof (cases r)
    case None
    then have "e' = account_flows [] (account_error (Some ErrPanic) (panic_stat e1))" "err = Some ErrPanic" "res_Flows res = []"
      using run b by (auto simp: Decode_def zero_Result_def)
    then show ?thesis using c by (simp add: account_flows_def account_error_def panic_stat_def upd_stats_def)
  next
    case (Some p)
    then have "e' = account_flows (res_Flows res) (account_error err e1)" using run b by (cases p) (auto simp: Decode_def)
    then show ?thesis using c
      by (cases err) (auto simp: account_flows_def account_error_def upd_stats_def fold_count_sources [unfolded Suc_eq_plus1 [symmetric]])
  qed
qed

lemma stats_keep [simp]:
  "core_stats (fst (LoadTemplates ts recs e)) = core_stats e"
proof -
  have "e_Stats (fst (load_template ts r st)) = e_Stats (fst st)" for r st
    by (auto simp: load_template_def Let_def admit_def split: prod.splits option.splits)
  then have "e_Stats (fst (fold (load_template ts) recs st)) = e_Stats (fst st)" for st
    by (induction recs arbitrary: st) simp_all
  then show ?thesis by (simp add: LoadTemplates_def core_stats_def)
qed

lemma counters_ok_core: "core_stats e = core_stats e' \<Longrightarrow> counters_ok (e_Stats e) = counters_ok (e_Stats e')"
  by (simp add: core_stats_def counters_ok_def Let_def)

lemma counters_ok_Decode:
  assumes "counters_ok (e_Stats e)" shows "counters_ok (e_Stats (fst (Decode ts d pkt now e)))"
proof -
  obtain e' res err where r: "Decode ts d pkt now e = (e', res, err)" by (metis prod_cases3)
  note c = Decode_counters [OF r]
  have "sum (st_TimeSources (e_Stats e')) {TimeExport, TimeSysUptime, TimeAbsolute, TimeUptimeEst}
    = sum (st_TimeSources (e_Stats e)) {TimeExport, TimeSysUptime, TimeAbsolute, TimeUptimeEst}
      + length (res_Flows res)"
    using c sum_sources_filter [of "res_Flows res"] by (simp add: sum.distrib)
  then show ?thesis using c assms r by (auto simp: counters_ok_def)
qed

lemma exp_run_counters: "exp_run ts d now e \<Longrightarrow> counters_ok (e_Stats e)"
proof (induction rule: exp_run.induct)
  case (run_new now)
  then show ?case by (simp add: NewExporter_def counters_ok_def zero_stats_def)
next
  case (run_load now e recs)
  then show ?case using counters_ok_core [OF stats_keep [of ts recs e]] by simp
next
  case (run_decode t e now pkt)
  then show ?case by (intro counters_ok_Decode)
next
  case (run_expire t e now)
  then show ?case using counters_ok_core [of "expirePending now e" e] by simp
qed simp

subsection \<open>A concrete decoder\<close>

text \<open>
  An instance of the decoders, for the concrete runs below: one template (IE 8, four
  bytes) announced in the domain of the message and one record of it. The template system
  is the finite map \<open>fin_ts\<close>.
\<close>

definition ref_record :: "data_field list" where
  "ref_record = [\<lparr>df_PenProvided = False, df_Type = 8, df_Value = Some [10, 0, 0, 1]\<rparr>]"

definition ref_decoders :: "'s decoders" where
  "ref_decoders = \<lparr>d_v5 = (\<lambda>_. DecErr ErrDecoder), d_sflow = (\<lambda>_. DecPanic),
     d_nf = (\<lambda>pkt _. ([CallAdd (fst (nf_domain pkt)) (snd (nf_domain pkt)) 256 fin_tmpl],
                      Some ([DataFlowSet [ref_record]], None))),
     d_dataset = (\<lambda>v b flds. Some ([], False)), d_optset = (\<lambda>v b sc op. Some ([], True))\<rparr>"

text \<open>An IPFIX message header of domain 7, exported 100 s after the epoch, sequence number 5.\<close>

definition ref_packet :: bytes where
  "ref_packet = [0, 10, 0, 16, 0, 0, 0, 100, 0, 0, 0, 5, 0, 0, 0, 7]"

lemma ref_decoders_ok: "decoders_total ref_decoders" "decoders_scoped ref_decoders" "decoders_consume ref_decoders"
  by (simp_all add: ref_decoders_def decoders_total_def decoders_scoped_def decoders_consume_def)

definition ref_exporter :: "(u16 \<times> u32 \<times> u16 \<Rightarrow> tmpl option) Exporter" where
  "ref_exporter = fst (Decode fin_ts ref_decoders ref_packet (seconds 101) (NewExporter fin_ts))"

lemma ref_run: "exp_run fin_ts ref_decoders (seconds 101) ref_exporter"
  unfolding ref_exporter_def
  by (rule run_decode [OF run_new [of 0]]) (simp_all add: seconds_def)

subsection \<open>Properties of the exporter state\<close>

text \<open>
  C7: whatever datagrams arrive, and however the goflow2 decoders behave (panics
  included), an exporter holds at most 64 templates, each of at most 128 fields and
  consuming at least one byte per record, at most 64 buffered data sets of at most
  256 KiB in total with \<open>pendSize\<close> exact, and at most 256 uptime bounds per domain.
\<close>

theorem exporter_memory_bounded:
  assumes "template_system_ok ts" and "exp_run ts d now e"
  shows "Len (e_Templates e) \<le> MaxTemplates \<and> PendingSets e \<le> MaxPendingSets \<and>
    e_pendSize e = pend_bytes (e_pending e) \<and> e_pendSize e \<le> MaxPendingBytes \<and>
    (\<forall>v ob i t flds w. GetTemplate ts v ob i (e_Templates e) = Some t \<longrightarrow> templateFields t = Inr (flds, w) \<longrightarrow>
      length flds \<le> maxTemplateFields \<and> 0 < minRecordLen flds) \<and>
    (\<forall>dk bs. gm_get (e_est e) dk = Some bs \<longrightarrow> length bs \<le> maxEstBounds)"
proof -
  have m: "mem_inv ts e" using exp_run_mem assms by blast
  have "length flds \<le> maxTemplateFields \<and> 0 < minRecordLen flds"
    if "GetTemplate ts v ob i (e_Templates e) = Some t" "templateFields t = Inr (flds, w)" for v ob i t flds w
    using mem_invD(1) [OF m] that progresses_minRecordLen [of flds]
    by (force simp: st_inv_def GetTemplate_def tmpl_ok_def)
  with m show ?thesis by (auto simp: mem_inv_def st_inv_def Len_def PendingSets_def split_paired_All)
qed

theorem exporter_memory_bounded_witness:
  "Len (e_Templates ref_exporter) \<le> MaxTemplates \<and> PendingSets ref_exporter \<le> MaxPendingSets \<and>
    e_pendSize ref_exporter \<le> MaxPendingBytes"
  using exporter_memory_bounded [OF fin_ts_ok ref_run] by simp

text \<open>
  With decoders that do not panic and that file templates under the message's own
  observation domain, at most 16 domains are admitted after every datagram, and no
  per-domain map (uptime, sequence numbers, sampling, sysInit, estimates) has an entry
  for a domain that is not admitted.
\<close>

theorem exporter_domains_bounded:
  assumes "decoders_total d" and "decoders_scoped d" and "exp_run ts d now e"
  shows "gm_len (e_domains e) \<le> MaxDomains \<and> (\<forall>dk. tracked e dk \<longrightarrow> gm_has (e_domains e) dk)"
  using exp_run_dom [OF assms(3,1,2)] by (simp add: dom_inv_def)

theorem exporter_domains_bounded_witness:
  "gm_len (e_domains ref_exporter) \<le> MaxDomains"
  using exporter_domains_bounded [OF ref_decoders_ok(1,2) ref_run] by simp

lemma Decode_flows_good:
  assumes "exp_run ts d t e" and "t \<le> now" and "now \<le> seconds 4294967296"
    and "Decode ts d pkt now e = (e', res, err)"
  shows "\<forall>f\<in>set (res_Flows res). good_flow now f"
proof -
  have now: "clock_ok now" using exp_run_nonneg [OF assms(1)] assms(2,3) by (simp add: clock_ok_def)
  have "pend_clock now e" using exp_run_clock [OF assms(1)] assms(2,3) pend_clock_mono by fastforce
  then have e: "pend_clock now (datagram_stat e)" by (simp add: pend_clock_def datagram_stat_def)
  obtain e1 r where b: "decode_body ts d pkt now (datagram_stat e) = (e1, r)" by force
  show ?thesis
  proof (cases r)
    case None
    with assms(4) b show ?thesis by (auto simp: Decode_def zero_Result_def)
  next
    case (Some p)
    then have "r = Some (res, err)" using assms(4) b by (cases p) (auto simp: Decode_def)
    with decode_body_good [OF now e, of ts d pkt e1 res err] b show ?thesis by simp
  qed
qed

text \<open>
  C19: every flow \<open>Decode\<close> returns, of any protocol and also when it was replayed from the
  buffer, starts no later than it ends, lies between 2 h 2 min 5 s before and 1 min 5 s after the
  time the datagram was received, has well-formed addresses and a sampling rate of at
  least one, and its byte and packet counts are the raw ones times that rate.
\<close>

theorem exporter_flows_good:
  assumes "exp_run ts d t e" and "t \<le> now" and "now \<le> seconds 4294967296"
    and "Decode ts d pkt now e = (e', res, err)"
  shows "\<forall>f\<in>set (res_Flows res). good_flow now f"
  using assms by (rule Decode_flows_good)

theorem exporter_flows_good_witness:
  "list_all (good_flow (seconds 160))
     (res_Flows (fst (snd (Decode fin_ts ref_decoders ref_packet (seconds 160) ref_exporter))))"
proof -
  obtain e' res err where r: "Decode fin_ts ref_decoders ref_packet (seconds 160) ref_exporter = (e', res, err)"
    by (metis prod_cases3)
  have "seconds 101 \<le> seconds 160" "seconds 160 \<le> seconds 4294967296" by (simp_all add: seconds_def)
  from exporter_flows_good [OF ref_run this r] show ?thesis by (simp add: r list_all_iff)
qed

text \<open>
  C20: the counters of an exporter add up after any sequence of datagrams: the flows are
  the sum of the four time sources, every datagram counts at most one of rejected and
  decode error, and every recovered panic is a decode error.
\<close>

theorem exporter_counters:
  assumes "exp_run ts d now e"
  shows "st_Flows (e_Stats e) = sum (st_TimeSources (e_Stats e)) {TimeExport, TimeSysUptime, TimeAbsolute, TimeUptimeEst} \<and>
    st_Rejected (e_Stats e) + st_DecodeErrors (e_Stats e) \<le> st_Datagrams (e_Stats e) \<and>
    st_Panics (e_Stats e) \<le> st_DecodeErrors (e_Stats e)"
  using exp_run_counters [OF assms] by (simp add: counters_ok_def)

theorem exporter_counters_witness:
  "st_Panics (e_Stats ref_exporter) \<le> st_DecodeErrors (e_Stats ref_exporter)"
  using exporter_counters [OF ref_run] by simp

text \<open>
  One replay produces at most \<open>maxReplayRecords\<close> flows, whatever sets are buffered,
  as long as the decoder consumes the minimum record length per record.
\<close>

theorem replay_within_budget:
  assumes "decoders_consume d" and "replay ts d added now e = (e', Some flows)"
  shows "length flows \<le> maxReplayRecords"
  using assms by (rule replay_bounded)

theorem replay_within_budget_witness:
  "length (the (snd (replay fin_ts ref_decoders [mk_key 10 7 256] 0 (NewExporter fin_ts)))) \<le> maxReplayRecords"
proof -
  have "\<exists>e' fl. replay fin_ts ref_decoders [mk_key 10 7 256] 0 (NewExporter fin_ts) = (e', Some fl)"
    using replay_total [OF ref_decoders_ok(1)] by (metis option.exhaust prod.collapse)
  then show ?thesis using replay_within_budget [OF ref_decoders_ok(3)] by fastforce
qed

text \<open>
  C25: a panic inside the v9 decoder leaves the uptime entry of a domain that is not
  admitted: \<open>forgetDomain\<close> is only reached on the normal return of \<open>decodeTemplated\<close>, so each
  such datagram of a new domain makes \<open>v9Up\<close> one entry longer.
\<close>

theorem panic_leaves_domain_state:
  assumes panics: "d_nf d pkt' (e_Templates e) = ([], None)" and v9: "Sniff pkt = Some KindNFv9" "4 \<le> length pkt"
    and hdr: "v9_header ts pkt e = Some (Inr (uptime, secs, sq, obs, pkt', err))"
    and new: "gm_wf (e_v9Up e)" "\<not> gm_has (e_v9Up e) (9, obs)" "\<not> gm_has (e_domains e) (9, obs)"
  shows "let e' = fst (Decode ts d pkt now e) in
    gm_len (e_v9Up e') = gm_len (e_v9Up e) + 1 \<and> tracked e' (9, obs) \<and> \<not> gm_has (e_domains e') (9, obs)"
proof -
  let ?e = "datagram_stat e"
  have h: "v9_header ts pkt ?e = Some (Inr (uptime, secs, sq, obs, pkt', err))"
    unfolding hdr [symmetric] v9_header_def canAdmit_def datagram_stat_def upd_stats_def by simp
  define e1 where "e1 = fst (v9_track ts uptime sq (9, obs) now ?e)"
  have none: "gm_get (e_v9Up e) (9, obs) = None" using new(2) by (simp add: gm_has_def)
  have e1: "e_v9Up e1 = gm_put (9, obs) \<lparr>vu_uptime = uptime, vu_received = now\<rparr> (e_v9Up e)"
    "e_domains e1 = e_domains e" "e_Templates e1 = e_Templates e"
    using none unfolding e1_def
    by (auto simp: v9_track_def Let_def datagram_stat_def upd_stats_def countGap_def split: option.splits)
  have b: "decode_body ts d pkt now ?e = (e1, None)"
    using v9 h e1(3) panics
    by (simp add: decode_body_def decodeTemplated_def Let_def templated_sets_def e1_def split_beta zero_Result_def)
  have "e_v9Up (fst (Decode ts d pkt now e)) = e_v9Up e1" "e_domains (fst (Decode ts d pkt now e)) = e_domains e1"
    using b by (simp_all add: Decode_def account_flows_def account_error_def panic_stat_def upd_stats_def zero_Result_def)
  then show ?thesis
    using new none e1 by (simp add: Let_def tracked_def gmap.size_put)
qed

text \<open>A decoder that panics on everything, and a bare v9 header.\<close>

definition panic_decoders :: "'s decoders" where
  "panic_decoders = \<lparr>d_v5 = (\<lambda>_. DecPanic), d_sflow = (\<lambda>_. DecPanic), d_nf = (\<lambda>pkt _. ([], None)),
     d_dataset = (\<lambda>v b flds. None), d_optset = (\<lambda>v b sc op. None)\<rparr>"

definition v9_bare :: bytes where
  "v9_bare = [0, 9, 0, 0, 0, 0, 0, 1, 0, 0, 0, 100, 0, 0, 0, 0, 0, 0, 0, 7]"

lemma v9_bare_header: "v9_header fin_ts v9_bare (NewExporter fin_ts) = Some (Inr (1, 100, 0, 7, v9_bare, None))"
  by (simp add: v9_header_def v9_bare_def rd32_def u32_at_def be32_def canAdmit_def NewExporter_def MaxDomains_def
    normalizeV9_def v9_walk.simps slice_def precheckTemplated_def pt_loop.simps put_be16_def)

theorem panic_leaves_domain_state_witness:
  "gm_len (e_v9Up (fst (Decode fin_ts panic_decoders v9_bare 0 (NewExporter fin_ts)))) = 1"
proof -
  have s: "Sniff v9_bare = Some KindNFv9" "4 \<le> length v9_bare"
    by (simp_all add: Sniff_def v9_bare_def rd16_def u16_at_def be16_def)
  have "d_nf panic_decoders v9_bare (e_Templates (NewExporter fin_ts)) = ([], None)" by (simp add: panic_decoders_def)
  from panic_leaves_domain_state [OF this s v9_bare_header, of 0] show ?thesis
    by (simp add: Let_def NewExporter_def)
qed

end
