(* ===== verification/Aggregate.thy ===== *)
theory Aggregate
  imports Flow_Types
begin

text \<open>
  The per-exporter minute aggregation of \<open>flow/aggregate.go\<close>: splitting a flow over the open
  minutes, the key caps with the per-pair \<open>other\<close> rows, and the flush to database rows.

  \<open>int64\<close> counters are \<open>int\<close> with Go's wrap-around inside \<open>satAdd\<close>. Maps are association
  lists; where the code ranges over a map the model takes the list order, and
  \<open>flush_order_irrelevant\<close> shows that the order makes no difference. \<open>mulDiv\<close> panics when
  \<open>bits.Div64\<close> does, so \<open>agg_add\<close> has an option result; it is never \<open>None\<close>.
\<close>

subsection \<open>Keys and values\<close>

definition maxKeysPerMinute :: nat where "maxKeysPerMinute = 20000"
definition maxOpenMinutes :: int where "maxOpenMinutes = 3"
definition flushDelay :: int where "flushDelay = 180"
definition maxFlowValue :: int where "maxFlowValue = 281474976710656"
definition maxInt64 :: int where "maxInt64 = 9223372036854775807"

record aggKey =
  ak_inIf :: u32
  ak_outIf :: u32
  ak_proto :: u8
  ak_port :: u16
  ak_src :: bytes
  ak_dst :: bytes

type_synonym pairKey = "u32 \<times> u32"

definition pair_of :: "aggKey \<Rightarrow> pairKey" where
  "pair_of k = (ak_inIf k, ak_outIf k)"

record aggVal =
  av_bytes :: int
  av_packets :: int
  av_flows :: int

definition zero_val :: aggVal where
  "zero_val = \<lparr>av_bytes = 0, av_packets = 0, av_flows = 0\<rparr>"

definition satAdd :: "int \<Rightarrow> int \<Rightarrow> int" where
  "satAdd a b = (let s = wrap64 (a + b) in if s \<ge> a then s else maxInt64)"

definition av_add :: "int \<Rightarrow> int \<Rightarrow> int \<Rightarrow> aggVal \<Rightarrow> aggVal" where
  "av_add b p f v = \<lparr>av_bytes = satAdd (av_bytes v) b, av_packets = satAdd (av_packets v) p, av_flows = satAdd (av_flows v) f\<rparr>"

record minuteAgg =
  mm_start :: int
  mm_keys :: "(aggKey, aggVal) gomap"
  mm_other :: "(pairKey, aggVal) gomap"
  mm_alive :: bool
  mm_dgrams :: int
  mm_records :: int
  mm_bytes :: int
  mm_sampling :: int
  mm_overflow :: int
  mm_late :: int

definition newMinuteAgg :: "int \<Rightarrow> minuteAgg" where
  "newMinuteAgg start = \<lparr>mm_start = start, mm_keys = [], mm_other = [], mm_alive = False, mm_dgrams = 0,
     mm_records = 0, mm_bytes = 0, mm_sampling = 0, mm_overflow = 0, mm_late = 0\<rparr>"

text \<open>
  \<open>otherFor\<close> returns a pointer to the value of a pair; its callers add to it at once.
  \<open>other_key\<close> is the entry it selects, \<open>other_add\<close> is \<open>mm.otherFor(p).add(b, pk, f)\<close>.
\<close>

definition other_key :: "pairKey \<Rightarrow> minuteAgg \<Rightarrow> pairKey" where
  "other_key p mm = (if gm_has (mm_other mm) p then p
     else if gm_len (mm_other mm) \<ge> maxKeysPerMinute then (0, 0) else p)"

definition other_add :: "pairKey \<Rightarrow> int \<Rightarrow> int \<Rightarrow> int \<Rightarrow> minuteAgg \<Rightarrow> minuteAgg" where
  "other_add p b pk f mm =
    (let q = other_key p mm;
         v = (case gm_get (mm_other mm) q of Some v \<Rightarrow> v | None \<Rightarrow> zero_val)
     in mm\<lparr>mm_other := gm_put q (av_add b pk f v) (mm_other mm)\<rparr>)"

subsection \<open>Open minutes\<close>

type_synonym aggregator = "(int, minuteAgg) gomap"

definition minute :: "aggregator \<Rightarrow> int \<Rightarrow> minuteAgg" where
  "minute a start = (case gm_get a start of Some m \<Rightarrow> m | None \<Rightarrow> newMinuteAgg start)"

text \<open>An update through the pointer \<open>a.minute(start)\<close>.\<close>

definition upd_minute :: "int \<Rightarrow> (minuteAgg \<Rightarrow> minuteAgg) \<Rightarrow> aggregator \<Rightarrow> aggregator" where
  "upd_minute start g a = gm_put start (g (minute a start)) a"

definition floorMinute :: "int \<Rightarrow> int" where
  "floorMinute u = u - go_rem (go_rem u 60 + 60) 60"

definition window :: "time \<Rightarrow> int \<Rightarrow> int \<times> int" where
  "window now nextFlush =
    (let hi = floorMinute (unix now)
     in if hi < nextFlush then (nextFlush, nextFlush)
        else (max (hi - (maxOpenMinutes - 1) * 60) nextFlush, hi))"

text \<open>The minutes of a loop \<open>for m := lo; m <= hi; m += 60\<close>.\<close>

function minutes_upto :: "int \<Rightarrow> int \<Rightarrow> int list" where
  "minutes_upto m hi = (if m \<le> hi then m # minutes_upto (m + 60) hi else [])"
  by pat_completeness auto
termination
  by (relation "measure (\<lambda>(m, hi). nat (hi + 1 - m))") auto

declare minutes_upto.simps [simp del]

definition markAlive :: "time \<Rightarrow> int \<Rightarrow> aggregator \<Rightarrow> aggregator" where
  "markAlive now nextFlush a =
    (let (lo, hi) = window now nextFlush;
         a = fold (\<lambda>m. upd_minute m (\<lambda>mm. mm\<lparr>mm_alive := True\<rparr>)) (minutes_upto lo hi) a
     in upd_minute hi (\<lambda>mm. mm\<lparr>mm_dgrams := wrap64 (mm_dgrams mm + 1)\<rparr>) a)"

subsection \<open>Adding a flow\<close>

record normFlow =
  nf_key :: aggKey
  nf_endpoints :: bool
  nf_bytes :: int
  nf_packets :: int
  nf_sampling :: int
  nf_start :: time
  nf_end :: time

text \<open>\<open>bits.Mul64\<close> then \<open>bits.Div64\<close>, which panics unless the quotient fits.\<close>

definition mulDiv :: "int \<Rightarrow> int \<Rightarrow> int \<Rightarrow> int option" where
  "mulDiv x num den =
    (let hi = x * num div 18446744073709551616
     in if den = 0 \<or> den \<le> hi then None else Some (x * num div den))"

text \<open>\<open>put\<close> after the minute is chosen: the minute's own counters, then the conversation.\<close>

definition put_head :: "normFlow \<Rightarrow> int \<Rightarrow> int \<Rightarrow> minuteAgg \<Rightarrow> minuteAgg" where
  "put_head f sb sf mm =
    (let mm = mm\<lparr>mm_bytes := satAdd (mm_bytes mm) sb, mm_sampling := max (mm_sampling mm) (nf_sampling f)\<rparr>
     in if sf > 0 then mm\<lparr>mm_records := wrap64 (mm_records mm + 1)\<rparr> else mm)"

definition put_value :: "normFlow \<Rightarrow> int \<Rightarrow> int \<Rightarrow> int \<Rightarrow> minuteAgg \<Rightarrow> minuteAgg" where
  "put_value f sb sp sf mm =
    (let k = nf_key f
     in if \<not> nf_endpoints f then other_add (pair_of k) sb sp sf mm
        else (case gm_get (mm_keys mm) k of
            Some v \<Rightarrow> mm\<lparr>mm_keys := gm_put k (av_add sb sp sf v) (mm_keys mm)\<rparr>
          | None \<Rightarrow>
              if gm_len (mm_keys mm) \<ge> maxKeysPerMinute then
                (let mm = (if sf > 0 then mm\<lparr>mm_overflow := wrap64 (mm_overflow mm + 1)\<rparr> else mm)
                 in other_add (pair_of k) sb sp sf mm)
              else mm\<lparr>mm_keys := gm_put k (av_add sb sp sf zero_val) (mm_keys mm)\<rparr>))"

definition put_minute :: "normFlow \<Rightarrow> int \<Rightarrow> int \<Rightarrow> int \<Rightarrow> minuteAgg \<Rightarrow> minuteAgg" where
  "put_minute f sb sp sf mm = put_value f sb sp sf (put_head f sb sf mm)"

definition put :: "normFlow \<Rightarrow> int \<Rightarrow> int \<Rightarrow> int \<Rightarrow> int \<Rightarrow> int \<Rightarrow> int \<Rightarrow> aggregator \<Rightarrow> aggregator" where
  "put f lo hi m sb sp sf a = upd_minute (min (max m lo) hi) (put_minute f sb sp sf) a"

text \<open>The variables the closure \<open>share\<close> works on, with the aggregator.\<close>

record share_state =
  sh_agg :: aggregator
  sh_cum :: int
  sh_doneB :: int
  sh_doneP :: int

definition share :: "normFlow \<Rightarrow> int \<Rightarrow> int \<Rightarrow> int \<Rightarrow> int \<Rightarrow> int \<Rightarrow> int \<Rightarrow> int \<Rightarrow> share_state \<Rightarrow> share_state option" where
  "share f lo hi b p dur m ov st = do {
     let cum = min ((sh_cum st + ov) mod 18446744073709551616) dur;
     nb \<leftarrow> mulDiv b cum dur;
     np \<leftarrow> mulDiv p cum dur;
     Some \<lparr>sh_agg = (if nb > sh_doneB st \<or> np > sh_doneP st
                     then put f lo hi m (nb - sh_doneB st) (np - sh_doneP st) 0 (sh_agg st) else sh_agg st),
           sh_cum = cum, sh_doneB = nb, sh_doneP = np\<rparr> }"

function share_loop :: "normFlow \<Rightarrow> int \<Rightarrow> int \<Rightarrow> int \<Rightarrow> int \<Rightarrow> int \<Rightarrow> int \<Rightarrow> int \<Rightarrow> int \<Rightarrow> int \<Rightarrow> share_state \<Rightarrow> share_state option" where
  "share_loop f lo hi b p dur startMs endMs endMin m st =
    (if m \<le> endMin \<and> sh_cum st < dur then
       (let ov = min endMs ((m + 60) * 1000) - max startMs (m * 1000)
        in if ov > 0 then do {
             st \<leftarrow> share f lo hi b p dur m ov st;
             share_loop f lo hi b p dur startMs endMs endMin (m + 60) st }
           else share_loop f lo hi b p dur startMs endMs endMin (m + 60) st)
     else Some st)"
  by pat_completeness auto
termination
  by (relation "measure (\<lambda>(_, _, _, _, _, _, _, _, endMin, m, _). nat (endMin + 1 - m))") auto

declare share_loop.simps [simp del]

definition clamp_value :: "int \<Rightarrow> int" where
  "clamp_value v = min (max v 0) maxFlowValue"

text \<open>The branch for a flow with a duration.\<close>

definition add_spread :: "normFlow \<Rightarrow> int \<Rightarrow> int \<Rightarrow> int \<Rightarrow> int \<Rightarrow> time \<Rightarrow> time \<Rightarrow> aggregator \<Rightarrow> aggregator option" where
  "add_spread f lo hi b p start en a = do {
     let startMs = unix_milli start;
     let endMs = unix_milli en;
     let endMin = floorMinute (unix en);
     let dur = endMs - startMs;
     let first = floorMinute (unix start);
     st \<leftarrow> (if first < lo
            then share f lo hi b p dur lo (min endMs (lo * 1000) - startMs)
                   \<lparr>sh_agg = a, sh_cum = 0, sh_doneB = 0, sh_doneP = 0\<rparr>
            else Some \<lparr>sh_agg = a, sh_cum = 0, sh_doneB = 0, sh_doneP = 0\<rparr>);
     st \<leftarrow> share_loop f lo hi b p dur startMs endMs endMin (if first < lo then lo else first) st;
     let rb = b - sh_doneB st;
     let rp = p - sh_doneP st;
     let a = (if rb > 0 \<or> rp > 0 then put f lo hi endMin rb rp 0 (sh_agg st) else sh_agg st);
     Some (put f lo hi endMin 0 0 1 a) }"

definition agg_add :: "normFlow \<Rightarrow> time \<Rightarrow> int \<Rightarrow> aggregator \<Rightarrow> (aggregator \<times> bool) option" where
  "agg_add f now nextFlush a = do {
     let (lo, hi) = window now nextFlush;
     let en = (if nf_end f > now + minutes 1 then now else nf_end f);
     let start = (if nf_start f > en then en else nf_start f);
     let b = clamp_value (nf_bytes f);
     let p = clamp_value (nf_packets f);
     let endMin = floorMinute (unix en);
     let late = (endMin < lo \<or> floorMinute (unix start) < lo);
     a \<leftarrow> (if unix_milli en \<le> unix_milli start then Some (put f lo hi endMin b p 1 a)
           else add_spread f lo hi b p start en a);
     Some (if late then upd_minute lo (\<lambda>mm. mm\<lparr>mm_late := wrap64 (mm_late mm + 1)\<rparr>) a else a, late) }"

definition oldest :: "aggregator \<Rightarrow> int option" where
  "oldest a = fold (\<lambda>(m, _) best. case best of None \<Rightarrow> Some m | Some b \<Rightarrow> if m < b then Some m else Some b) a None"

subsection \<open>Flushing a minute\<close>

record FlowRow =
  fr_ExporterID :: int
  fr_Bucket :: time
  fr_InIf :: u32
  fr_OutIf :: u32
  fr_Src :: addr
  fr_Dst :: addr
  fr_Proto :: u8
  fr_Port :: u16
  fr_Bytes :: int
  fr_Packets :: int
  fr_Flows :: int

record FlowMeta =
  fm_ExporterID :: int
  fm_Bucket :: time
  fm_Datagrams :: int
  fm_Records :: int
  fm_Bytes :: int
  fm_Sampling :: int
  fm_Overflow :: int
  fm_Late :: int

record flushed =
  fl_rows :: "FlowRow list"
  fl_meta :: "FlowMeta option"
  fl_ifaces :: "(u32, bool) gomap"

definition keyAddr :: "bytes \<Rightarrow> addr" where
  "keyAddr b = Unmap (AddrFrom16 b)"

text \<open>\<open>bytes.Compare\<close>: lexicographic on the bytes, a proper prefix first.\<close>

fun bytes_Compare :: "bytes \<Rightarrow> bytes \<Rightarrow> int" where
  "bytes_Compare [] [] = 0"
| "bytes_Compare [] (y # ys) = - 1"
| "bytes_Compare (x # xs) [] = 1"
| "bytes_Compare (x # xs) (y # ys) = (if x < y then - 1 else if y < x then 1 else bytes_Compare xs ys)"

definition compareAggKeys :: "aggKey \<Rightarrow> aggKey \<Rightarrow> int" where
  "compareAggKeys a b =
    (let c = go_compare (ak_inIf a) (ak_inIf b) in if c \<noteq> 0 then c else
     let c = go_compare (ak_outIf a) (ak_outIf b) in if c \<noteq> 0 then c else
     let c = go_compare (ak_proto a) (ak_proto b) in if c \<noteq> 0 then c else
     let c = go_compare (ak_port a) (ak_port b) in if c \<noteq> 0 then c else
     let c = bytes_Compare (ak_src a) (ak_src b) in if c \<noteq> 0 then c else
     bytes_Compare (ak_dst a) (ak_dst b))"

type_synonym keyed = "aggKey \<times> aggVal"

definition byBytesThenKey :: "keyed \<Rightarrow> keyed \<Rightarrow> int" where
  "byBytesThenKey x y =
    (let c = go_compare (av_bytes (snd y)) (av_bytes (snd x)) in if c \<noteq> 0 then c else compareAggKeys (fst x) (fst y))"

definition comparePairs :: "pairKey \<Rightarrow> pairKey \<Rightarrow> int" where
  "comparePairs x y = (let c = go_compare (fst x) (fst y) in if c \<noteq> 0 then c else go_compare (snd x) (snd y))"

text \<open>\<open>mm.otherFor(pair of k).add(...)\<close> for a conversation that is not kept.\<close>

definition fold_keyed :: "keyed \<Rightarrow> minuteAgg \<Rightarrow> minuteAgg" where
  "fold_keyed kv mm = other_add (pair_of (fst kv)) (av_bytes (snd kv)) (av_packets (snd kv)) (av_flows (snd kv)) mm"

text \<open>The conversations of one pair, largest first (\<open>byPair[p]\<close> after the sort).\<close>

definition pair_list :: "minuteAgg \<Rightarrow> pairKey \<Rightarrow> keyed list" where
  "pair_list mm p = sort_cmp byBytesThenKey (filter (\<lambda>kv. pair_of (fst kv) = p) (mm_keys mm))"

definition flush_pair :: "nat \<Rightarrow> pairKey \<Rightarrow> keyed list \<times> minuteAgg \<Rightarrow> keyed list \<times> minuteAgg" where
  "flush_pair topN p st =
    (let l = pair_list (snd st) p
     in (fst st @ take topN l, fold fold_keyed (drop topN l) (snd st)))"

text \<open>The kept conversations of a minute and the minute with the rest folded into \<open>other\<close>.\<close>

definition flush_select :: "nat \<Rightarrow> nat \<Rightarrow> minuteAgg \<Rightarrow> keyed list \<times> minuteAgg" where
  "flush_select topN maxRows mm =
    (let (kept, mm) = fold (flush_pair topN) (remdups (map (\<lambda>kv. pair_of (fst kv)) (mm_keys mm))) ([], mm);
         kept = sort_cmp byBytesThenKey kept
     in if length kept > maxRows then (take maxRows kept, fold fold_keyed (drop maxRows kept) mm) else (kept, mm))"

definition note_ifaces :: "u32 \<Rightarrow> u32 \<Rightarrow> int \<Rightarrow> (u32, bool) gomap \<Rightarrow> (u32, bool) gomap" where
  "note_ifaces inIf outIf b s =
    (if b \<le> 0 then s
     else (let s = (if inIf \<noteq> 0 then gm_put inIf True s else s)
           in if outIf \<noteq> 0 then gm_put outIf True s else s))"

definition key_row :: "int \<Rightarrow> time \<Rightarrow> keyed \<Rightarrow> FlowRow" where
  "key_row ex bucket kv = \<lparr>fr_ExporterID = ex, fr_Bucket = bucket, fr_InIf = ak_inIf (fst kv), fr_OutIf = ak_outIf (fst kv),
     fr_Src = keyAddr (ak_src (fst kv)), fr_Dst = keyAddr (ak_dst (fst kv)), fr_Proto = ak_proto (fst kv),
     fr_Port = ak_port (fst kv), fr_Bytes = av_bytes (snd kv), fr_Packets = av_packets (snd kv), fr_Flows = av_flows (snd kv)\<rparr>"

definition other_row :: "int \<Rightarrow> time \<Rightarrow> pairKey \<times> aggVal \<Rightarrow> FlowRow" where
  "other_row ex bucket pv = \<lparr>fr_ExporterID = ex, fr_Bucket = bucket, fr_InIf = fst (fst pv), fr_OutIf = snd (fst pv),
     fr_Src = NoAddr, fr_Dst = NoAddr, fr_Proto = 0, fr_Port = 0, fr_Bytes = av_bytes (snd pv),
     fr_Packets = av_packets (snd pv), fr_Flows = av_flows (snd pv)\<rparr>"

definition val_zero :: "aggVal \<Rightarrow> bool" where
  "val_zero v \<longleftrightarrow> av_bytes v = 0 \<and> av_packets v = 0 \<and> av_flows v = 0"

definition flush_rows :: "int \<Rightarrow> int \<Rightarrow> nat \<Rightarrow> nat \<Rightarrow> minuteAgg \<Rightarrow> FlowRow list" where
  "flush_rows ex m topN maxRows mm =
    (let (kept, mm) = flush_select topN maxRows mm;
         others = sort_cmp (\<lambda>x y. comparePairs (fst x) (fst y)) (mm_other mm)
     in map (key_row ex (time_Unix m 0)) kept
        @ map (other_row ex (time_Unix m 0)) (filter (\<lambda>pv. \<not> val_zero (snd pv)) others))"

definition flush :: "int \<Rightarrow> int \<Rightarrow> nat \<Rightarrow> nat \<Rightarrow> aggregator \<Rightarrow> flushed \<times> aggregator" where
  "flush ex m topN maxRows a =
    (case gm_get a m of
       None \<Rightarrow> (\<lparr>fl_rows = [], fl_meta = None, fl_ifaces = []\<rparr>, gm_del m a)
     | Some mm \<Rightarrow>
        (let rows = flush_rows ex m topN maxRows mm;
             meta = (if mm_alive mm \<or> length rows > 0
                     then Some \<lparr>fm_ExporterID = ex, fm_Bucket = time_Unix m 0, fm_Datagrams = mm_dgrams mm,
                                fm_Records = mm_records mm, fm_Bytes = mm_bytes mm, fm_Sampling = max (mm_sampling mm) 1,
                                fm_Overflow = mm_overflow mm, fm_Late = mm_late mm\<rparr>
                     else None);
             ifs = fold (\<lambda>r. note_ifaces (fr_InIf r) (fr_OutIf r) (fr_Bytes r)) rows []
         in (\<lparr>fl_rows = rows, fl_meta = meta, fl_ifaces = ifs\<rparr>, gm_del m a)))"

subsection \<open>Sums over maps\<close>

definition gm_sum :: "('v \<Rightarrow> int) \<Rightarrow> ('k, 'v) gomap \<Rightarrow> int" where
  "gm_sum g m = sum_list (map (\<lambda>(_, v). g v) m)"

lemma gm_sum_simps [simp]: "gm_sum g [] = 0" "gm_sum g ((k, v) # m) = g v + gm_sum g m"
  by (simp_all add: gm_sum_def)

lemma gm_sum_put:
  "gm_sum g (gm_put k v m) = gm_sum g m + g v - (case gm_get m k of None \<Rightarrow> 0 | Some w \<Rightarrow> g w)"
  unfolding gm_put_def gm_get_def by (induction m) (auto split: option.splits)

lemma gm_sum_del:
  assumes "gm_wf m" shows "gm_sum g (gm_del k m) = gm_sum g m - (case gm_get m k of None \<Rightarrow> 0 | Some w \<Rightarrow> g w)"
  using assms unfolding gm_wf_def gm_del_def gm_get_def
proof (induction m)
  case (Cons x m)
  obtain a b where x: "x = (a, b)" by force
  show ?case
  proof (cases "a = k")
    case True
    with Cons.prems x have "map_of m k = None" by (simp add: map_of_eq_None_iff)
    then show ?thesis using True x by (simp add: alist_delete_absent)
  qed (use Cons x in auto)
qed simp

lemma gm_sum_nonneg: "(\<And>v. v \<in> snd ` set m \<Longrightarrow> 0 \<le> g v) \<Longrightarrow> 0 \<le> gm_sum g m"
  by (induction m) auto

lemma gm_sum_get_le:
  assumes "\<And>v. v \<in> snd ` set m \<Longrightarrow> 0 \<le> g v" and "gm_get m k = Some v"
  shows "g v \<le> gm_sum g m"
  using assms(1) gm_get_in_set [OF assms(2)]
proof (induction m)
  case (Cons x m)
  then show ?case using gm_sum_nonneg [of m g] by (cases x) (fastforce simp: image_iff)
qed simp

subsection \<open>Saturating addition\<close>

lemma satAdd_exact: "0 \<le> a \<Longrightarrow> 0 \<le> b \<Longrightarrow> a + b \<le> maxInt64 \<Longrightarrow> satAdd a b = a + b"
  by (simp add: satAdd_def maxInt64_def wrap64_id int64_def)

lemma satAdd_nonneg: "0 \<le> a \<Longrightarrow> 0 \<le> satAdd a b"
  by (simp add: satAdd_def Let_def maxInt64_def)

text \<open>
  \<open>satAdd\<close> of two non-negative \<open>int64\<close> values is their sum capped at \<open>MaxInt64\<close>; it
  never wraps to a negative counter.
\<close>

theorem satAdd_saturates:
  assumes "0 \<le> a" and "a \<le> maxInt64" and "0 \<le> b" and "b \<le> maxInt64"
  shows "satAdd a b = min (a + b) maxInt64"
proof (cases "a + b \<le> maxInt64")
  case True
  with assms show ?thesis by (simp add: satAdd_exact)
next
  case False
  then have "wrap64 (a + b) = a + b - 18446744073709551616"
    using assms by (intro wrap64_over) (simp_all add: maxInt64_def)
  with False assms show ?thesis by (simp add: satAdd_def Let_def maxInt64_def)
qed

theorem satAdd_saturates_witness: "satAdd maxInt64 5 = maxInt64"
  using satAdd_saturates [of maxInt64 5] by (simp add: maxInt64_def)

subsection \<open>The invariant of a minute\<close>

definition val_ok :: "aggVal \<Rightarrow> bool" where
  "val_ok v \<longleftrightarrow> 0 \<le> av_bytes v \<and> 0 \<le> av_packets v \<and> 0 \<le> av_flows v"

definition vals_ok :: "('k, aggVal) gomap \<Rightarrow> bool" where
  "vals_ok m \<longleftrightarrow> gm_wf m \<and> (\<forall>v \<in> snd ` set m. val_ok v)"

definition mm_ok :: "minuteAgg \<Rightarrow> bool" where
  "mm_ok mm \<longleftrightarrow> vals_ok (mm_keys mm) \<and> vals_ok (mm_other mm) \<and>
    gm_len (mm_keys mm) \<le> maxKeysPerMinute \<and>
    (gm_len (mm_other mm) \<le> maxKeysPerMinute \<or> gm_len (mm_other mm) = maxKeysPerMinute + 1 \<and> gm_has (mm_other mm) (0, 0))"

lemma val_ok_zero [simp]: "val_ok zero_val"
  by (simp add: val_ok_def zero_val_def)

lemma val_ok_add [simp]: "val_ok v \<Longrightarrow> val_ok (av_add b p f v)"
  by (simp add: val_ok_def av_add_def satAdd_nonneg)

lemma vals_ok_put: "vals_ok m \<Longrightarrow> val_ok v \<Longrightarrow> vals_ok (gm_put k v m)"
  using set_gm_put [of k v m] unfolding vals_ok_def by blast

lemma vals_ok_get: "vals_ok m \<Longrightarrow> gm_get m k = Some v \<Longrightarrow> val_ok v"
  unfolding vals_ok_def using gm_get_in_set by fastforce

lemma mm_ok_new [simp]: "mm_ok (newMinuteAgg s)"
  by (simp add: mm_ok_def newMinuteAgg_def vals_ok_def)

lemma mm_ok_meta [simp]:
  "mm_ok (mm\<lparr>mm_overflow := x\<rparr>) = mm_ok mm" "mm_ok (mm\<lparr>mm_late := x\<rparr>) = mm_ok mm"
  "mm_ok (mm\<lparr>mm_alive := z\<rparr>) = mm_ok mm" "mm_ok (mm\<lparr>mm_dgrams := x\<rparr>) = mm_ok mm"
  "mm_ok (put_head f sb sf mm) = mm_ok mm"
  by (simp_all add: mm_ok_def put_head_def Let_def)

lemma put_head_maps [simp]: "mm_keys (put_head f sb sf mm) = mm_keys mm" "mm_other (put_head f sb sf mm) = mm_other mm"
  by (simp_all add: put_head_def Let_def)

lemma other_add_maps [simp]: "mm_keys (other_add p b pk f mm) = mm_keys mm"
  by (simp add: other_add_def Let_def)

lemma mm_ok_other_add:
  assumes ok: "mm_ok mm" shows "mm_ok (other_add p b pk f mm)"
proof -
  have "vals_ok (gm_put q (av_add b pk f (case gm_get (mm_other mm) q of Some v \<Rightarrow> v | None \<Rightarrow> zero_val)) (mm_other mm))" for q
    using ok by (intro vals_ok_put val_ok_add) (auto simp: mm_ok_def dest: vals_ok_get split: option.splits)
  then show ?thesis
    using ok by (auto simp: mm_ok_def vals_ok_def other_add_def other_key_def Let_def gmap.size_put gm_has_def)
qed

lemma mm_ok_key_put:
  assumes ok: "mm_ok mm" and v: "val_ok v" and room: "gm_has (mm_keys mm) k \<or> gm_len (mm_keys mm) < maxKeysPerMinute"
  shows "mm_ok (mm\<lparr>mm_keys := gm_put k v (mm_keys mm)\<rparr>)"
proof -
  have "gm_len (gm_put k v (mm_keys mm)) \<le> maxKeysPerMinute"
    using ok room by (intro gmap.size_put_capped) (auto simp: mm_ok_def vals_ok_def gm_has_def)
  then show ?thesis using ok v by (simp add: mm_ok_def vals_ok_put)
qed

lemma mm_ok_put_value: "mm_ok mm \<Longrightarrow> mm_ok (put_value f sb sp sf mm)"
  using vals_ok_get [of "mm_keys mm" "nf_key f"]
  by (auto simp: put_value_def Let_def mm_ok_other_add gm_has_def mm_ok_def [of mm] intro!: mm_ok_key_put split: option.splits)

lemma mm_ok_put_minute: "mm_ok mm \<Longrightarrow> mm_ok (put_minute f sb sp sf mm)"
  by (simp add: put_minute_def mm_ok_put_value)

subsection \<open>Nothing is lost: one component of the totals\<close>

text \<open>
  Bytes, packets and flows go through the same code, so their conservation is proved once:
  \<open>sel\<close> reads the component of a value and \<open>pick\<close> the amount an \<open>aggVal.add\<close> adds to it.
  \<open>E\<close> is a further fact of a minute that every \<open>put\<close> keeps as long as the component does not saturate.
\<close>

definition agg_ok :: "aggregator \<Rightarrow> bool" where
  "agg_ok a \<longleftrightarrow> gm_wf a \<and> gm_all mm_ok a"

lemma mm_ok_minute: "agg_ok a \<Longrightarrow> mm_ok (minute a m)"
  by (auto simp: agg_ok_def minute_def dest: gm_all_get split: option.splits)

lemma agg_ok_upd: "agg_ok a \<Longrightarrow> mm_ok (g (minute a m)) \<Longrightarrow> agg_ok (upd_minute m g a)"
  by (simp add: agg_ok_def upd_minute_def gm_all_put gmap.wf_put)

lemma agg_ok_put: "agg_ok a \<Longrightarrow> agg_ok (put f lo hi m sb sp sf a)"
  by (simp add: put_def agg_ok_upd mm_ok_put_minute mm_ok_minute)

definition minute_sum :: "(aggVal \<Rightarrow> int) \<Rightarrow> minuteAgg \<Rightarrow> int" where
  "minute_sum sel mm = gm_sum sel (mm_keys mm) + gm_sum sel (mm_other mm)"

definition agg_sum :: "(aggVal \<Rightarrow> int) \<Rightarrow> aggregator \<Rightarrow> int" where
  "agg_sum sel a = gm_sum (minute_sum sel) a"

locale component =
  fixes sel :: "aggVal \<Rightarrow> int" and pick :: "int \<Rightarrow> int \<Rightarrow> int \<Rightarrow> int" and E :: "minuteAgg \<Rightarrow> bool"
  assumes sel_add: "sel (av_add b p f v) = satAdd (sel v) (pick b p f)"
    and sel_zero: "sel zero_val = 0"
    and sel_nonneg: "val_ok v \<Longrightarrow> 0 \<le> sel v"
    and pick_nonneg: "0 \<le> b \<Longrightarrow> 0 \<le> p \<Longrightarrow> 0 \<le> f \<Longrightarrow> 0 \<le> pick b p f"
    and pick_self: "pick (av_bytes v) (av_packets v) (av_flows v) = sel v"
    and pick_plus: "pick b p f + pick b' p' f' = pick (b + b') (p + p') (f + f')"
    and E_new: "E (newMinuteAgg m)"
    and E_put: "mm_ok mm \<Longrightarrow> E mm \<Longrightarrow> 0 \<le> sb \<Longrightarrow> 0 \<le> sp \<Longrightarrow> 0 \<le> sf \<Longrightarrow>
      minute_sum sel mm + pick sb sp sf \<le> maxInt64 \<Longrightarrow> E (put_minute fl sb sp sf mm)"
    and E_late: "E mm \<Longrightarrow> E (mm\<lparr>mm_late := x\<rparr>)"
begin

abbreviation msum :: "minuteAgg \<Rightarrow> int" where "msum \<equiv> minute_sum sel"
abbreviation asum :: "aggregator \<Rightarrow> int" where "asum \<equiv> agg_sum sel"
abbreviation all_E :: "aggregator \<Rightarrow> bool" where "all_E \<equiv> gm_all E"

lemma vals_nonneg: "vals_ok m \<Longrightarrow> v \<in> snd ` set m \<Longrightarrow> 0 \<le> sel v"
  unfolding vals_ok_def using sel_nonneg by blast

lemma vals_sum_nonneg: "vals_ok m \<Longrightarrow> 0 \<le> gm_sum sel m"
  by (rule gm_sum_nonneg) (rule vals_nonneg)

lemma sums_nonneg: "mm_ok mm \<Longrightarrow> 0 \<le> gm_sum sel (mm_keys mm) \<and> 0 \<le> gm_sum sel (mm_other mm)"
  by (simp add: mm_ok_def vals_sum_nonneg)

lemma msum_new [simp]: "msum (newMinuteAgg m) = 0"
  by (simp add: minute_sum_def newMinuteAgg_def)

lemma msum_nonneg: "mm_ok mm \<Longrightarrow> 0 \<le> msum mm"
  using sums_nonneg by (simp add: minute_sum_def)

lemma gm_sum_bump:
  assumes ok: "vals_ok m" and nn: "0 \<le> pick b p f" and room: "gm_sum sel m + pick b p f \<le> maxInt64"
  shows "gm_sum sel (gm_put k (av_add b p f (case gm_get m k of Some v \<Rightarrow> v | None \<Rightarrow> zero_val)) m) = gm_sum sel m + pick b p f"
proof (cases "gm_get m k")
  case None
  then show ?thesis
    using gm_sum_nonneg [of m sel] vals_nonneg [OF ok] nn room
    by (simp add: gm_sum_put sel_add sel_zero satAdd_exact)
next
  case (Some v)
  have "0 \<le> sel v" "sel v \<le> gm_sum sel m"
    using sel_nonneg [OF vals_ok_get [OF ok Some]] gm_sum_get_le [of m sel, OF vals_nonneg [OF ok] Some] by simp_all
  then have "satAdd (sel v) (pick b p f) = sel v + pick b p f" using nn room by (intro satAdd_exact) linarith+
  then show ?thesis using Some by (simp add: gm_sum_put sel_add)
qed

lemma other_add_sum:
  assumes ok: "mm_ok mm" and nn: "0 \<le> pick b p f" and room: "msum mm + pick b p f \<le> maxInt64"
  shows "msum (other_add q b p f mm) = msum mm + pick b p f"
  using gm_sum_bump [of "mm_other mm" b p f "other_key q mm"] ok nn room sums_nonneg [OF ok]
  by (simp add: minute_sum_def other_add_def Let_def mm_ok_def)

lemma put_minute_sum:
  assumes ok: "mm_ok mm" and nn: "0 \<le> sb" "0 \<le> sp" "0 \<le> sf" and room: "msum mm + pick sb sp sf \<le> maxInt64"
  shows "msum (put_minute f sb sp sf mm) = msum mm + pick sb sp sf"
proof -
  have p: "0 \<le> pick sb sp sf" using nn by (rule pick_nonneg)
  have h: "msum (put_head f sb sf mm) = msum mm" "msum (mm'\<lparr>mm_overflow := x\<rparr>) = msum mm'" for mm' x
    by (simp_all add: minute_sum_def)
  have "msum (put_value f sb sp sf mm') = msum mm' + pick sb sp sf"
    if ok: "mm_ok mm'" and room: "msum mm' + pick sb sp sf \<le> maxInt64" for mm'
  proof -
    have "gm_sum sel (mm_keys mm') + pick sb sp sf \<le> maxInt64"
      using room sums_nonneg [OF ok] by (simp add: minute_sum_def)
    from gm_sum_bump [OF _ p this, of "nf_key f"] ok
    have "gm_sum sel (gm_put (nf_key f) (av_add sb sp sf (case gm_get (mm_keys mm') (nf_key f) of Some v \<Rightarrow> v | None \<Rightarrow> zero_val)) (mm_keys mm'))
      = gm_sum sel (mm_keys mm') + pick sb sp sf" by (simp add: mm_ok_def)
    then show ?thesis
      using other_add_sum [OF _ p] ok room h(2)
      by (auto simp: put_value_def Let_def minute_sum_def [of sel "_\<lparr>mm_keys := _\<rparr>"] minute_sum_def [of sel mm'] split: option.splits)
  qed
  with ok room show ?thesis by (simp add: put_minute_def h)
qed

lemma minute_sum_le:
  assumes "agg_ok a" shows "0 \<le> msum (minute a m) \<and> msum (minute a m) \<le> asum a"
proof -
  have nn: "0 \<le> msum mm" if "mm \<in> snd ` set a" for mm using assms that msum_nonneg unfolding agg_ok_def gm_all_def by blast
  show ?thesis
  proof (cases "gm_get a m")
    case None
    then show ?thesis using gm_sum_nonneg [of a msum] nn
      by (simp add: minute_def agg_sum_def)
  next
    case (Some mm)
    then show ?thesis using gm_sum_get_le [OF nn Some] msum_nonneg [OF mm_ok_minute [OF assms, of m]]
      by (simp add: minute_def agg_sum_def)
  qed
qed

lemma upd_sum: "asum (upd_minute m g a) = asum a + msum (g (minute a m)) - msum (minute a m)"
  by (auto simp: agg_sum_def upd_minute_def gm_sum_put minute_def
    split: option.splits)

lemma all_E_upd:
  assumes "all_E a" and "E (g (minute a m))" shows "all_E (upd_minute m g a)"
  using assms by (simp add: upd_minute_def gm_all_put)

lemma E_minute: "all_E a \<Longrightarrow> E (minute a m)"
  by (auto simp: minute_def E_new dest: gm_all_get split: option.splits)

definition J :: "int \<Rightarrow> aggregator \<Rightarrow> bool" where
  "J T0 a \<longleftrightarrow> agg_ok a \<and> all_E a \<and> asum a = T0"

lemma put_J:
  assumes "J T0 a" and "0 \<le> sb" "0 \<le> sp" "0 \<le> sf" and "T0 + pick sb sp sf \<le> maxInt64"
  shows "J (T0 + pick sb sp sf) (put f lo hi m sb sp sf a)"
proof -
  let ?m = "min (max m lo) hi"
  have a: "agg_ok a" "all_E a" "asum a = T0" using assms(1) by (auto simp: J_def)
  have room: "msum (minute a ?m) + pick sb sp sf \<le> maxInt64" using minute_sum_le [OF a(1), of ?m] a(3) assms(5) by linarith
  note s = put_minute_sum [OF mm_ok_minute [OF a(1)] assms(2-4) room, of f]
  have "E (put_minute f sb sp sf (minute a ?m))"
    using E_put [OF mm_ok_minute [OF a(1)] E_minute [OF a(2)] assms(2-4)] room by (simp add: minute_sum_def)
  then show ?thesis using a s by (simp add: J_def put_def upd_sum all_E_upd agg_ok_put [unfolded put_def])
qed

end

subsection \<open>Splitting a flow\<close>

lemma go_rem_bound: assumes "0 < b" shows "- b < go_rem a b \<and> go_rem a b < b"
proof -
  obtain r where "r = \<bar>a\<bar> mod \<bar>b\<bar>" and "0 \<le> r" and "r < b" using assms by simp
  then show ?thesis by (cases a "0 :: int" rule: linorder_cases) (simp_all add: go_rem_def flip: \<open>r = _\<close>)
qed

lemma floorMinute_eq: "floorMinute u = u - u mod 60"
proof -
  have "go_rem (go_rem u 60 + 60) 60 = (go_rem u 60 + 60) mod 60"
    using go_rem_bound [of 60 u] by (intro go_rem_nonneg) simp_all
  also have "\<dots> = (go_quot u 60 * 60 + go_rem u 60) mod 60" by (metis mod_add_self2 mod_mult_self3)
  finally show ?thesis by (simp only: floorMinute_def flip: go_quot_rem)
qed

lemma floorMinute_div: "floorMinute u = 60 * (u div 60)"
  by (simp add: floorMinute_eq minus_mod_eq_mult_div)

lemma floorMinute_dvd [simp]: "60 dvd floorMinute u"
  by (simp add: floorMinute_div)

lemma floorMinute_bounds: "floorMinute u \<le> u" "u < floorMinute u + 60"
  by (simp_all add: floorMinute_eq)

lemma floorMinute_less: "60 dvd lo \<Longrightarrow> floorMinute u < lo \<longleftrightarrow> u < lo"
  using floorMinute_bounds [of u] by (auto simp: floorMinute_div elim!: dvdE)

lemma mulDiv_share:
  assumes "0 \<le> x" and "x \<le> maxFlowValue" and "0 \<le> n" and "n \<le> d" and "0 < d"
  shows "mulDiv x n d = Some (x * n div d)"
proof -
  have "x * n \<le> maxFlowValue * d" using assms by (intro mult_mono) simp_all
  also have "\<dots> < d * 18446744073709551616" using assms by (simp add: maxFlowValue_def)
  finally have "x * n div 18446744073709551616 < d" using div_mult_mod_eq [of "x * n" 18446744073709551616] pos_mod_sign [of 18446744073709551616 "x * n"]
    by linarith
  with assms show ?thesis by (simp add: mulDiv_def Let_def)
qed

lemma share_mono:
  fixes x n n' d :: int
  assumes "0 \<le> x" and "n \<le> n'" and "0 < d" shows "x * n div d \<le> x * n' div d"
  using assms by (intro zdiv_mono1 mult_left_mono)

lemma share_le:
  fixes x n d :: int
  assumes "0 \<le> x" and "n \<le> d" and "0 < d" shows "x * n div d \<le> x"
  using share_mono [OF assms] assms by simp

lemma share_eq:
  "cum = min ((sh_cum st + ov) mod 18446744073709551616) dur \<Longrightarrow> mulDiv b cum dur = Some nb \<Longrightarrow> mulDiv p cum dur = Some np \<Longrightarrow>
   share f lo hi b p dur m ov st =
     Some \<lparr>sh_agg = (if nb > sh_doneB st \<or> np > sh_doneP st
                     then put f lo hi m (nb - sh_doneB st) (np - sh_doneP st) 0 (sh_agg st) else sh_agg st),
           sh_cum = cum, sh_doneB = nb, sh_doneP = np\<rparr>"
  by (simp add: share_def)

lemma share_loop_step:
  "m \<le> endMin \<and> sh_cum st < dur \<Longrightarrow> ov = min endMs ((m + 60) * 1000) - max startMs (m * 1000) \<Longrightarrow>
   share_loop f lo hi b p dur startMs endMs endMin m st =
     (if ov > 0 then do { st \<leftarrow> share f lo hi b p dur m ov st; share_loop f lo hi b p dur startMs endMs endMin (m + 60) st }
      else share_loop f lo hi b p dur startMs endMs endMin (m + 60) st)"
  by (simp only: share_loop.simps [of f lo hi b p dur startMs endMs endMin m st] Let_def simp_thms if_True)

definition spread_ok :: "int \<Rightarrow> int \<Rightarrow> int \<Rightarrow> bool" where
  "spread_ok b p dur \<longleftrightarrow> 0 \<le> b \<and> b \<le> maxFlowValue \<and> 0 \<le> p \<and> p \<le> maxFlowValue \<and> 0 < dur \<and> dur \<le> 9223372036854775807"

context component
begin

lemma pick_zero: "pick 0 0 0 = 0"
  using pick_plus [of 0 0 0 0 0 0] by simp

lemma pick_mono: "b \<le> b' \<Longrightarrow> p \<le> p' \<Longrightarrow> f \<le> f' \<Longrightarrow> pick b p f \<le> pick b' p' f'"
  using pick_plus [of b p f "b' - b" "p' - p" "f' - f"] pick_nonneg [of "b' - b" "p' - p" "f' - f"] by simp

definition K :: "int \<Rightarrow> int \<Rightarrow> int \<Rightarrow> int \<Rightarrow> share_state \<Rightarrow> bool" where
  "K T0 b p dur st \<longleftrightarrow> 0 \<le> sh_cum st \<and> sh_cum st \<le> dur \<and>
     sh_doneB st = b * sh_cum st div dur \<and> sh_doneP st = p * sh_cum st div dur \<and>
     J (T0 + pick (sh_doneB st) (sh_doneP st) 0) (sh_agg st)"

lemma share_K:
  assumes k: "K T0 b p dur st" and s: "spread_ok b p dur" and ov: "0 \<le> ov" "ov \<le> dur"
    and room: "T0 + pick b p 1 \<le> maxInt64"
  shows "\<exists>st'. share f lo hi b p dur m ov st = Some st' \<and> K T0 b p dur st'"
proof -
  define cum where "cum = min ((sh_cum st + ov) mod 18446744073709551616) dur"
  have c: "0 \<le> sh_cum st" "sh_cum st \<le> dur" and dn: "sh_doneB st = b * sh_cum st div dur" "sh_doneP st = p * sh_cum st div dur"
    and j: "J (T0 + pick (sh_doneB st) (sh_doneP st) 0) (sh_agg st)" using k unfolding K_def by blast+
  have sp: "0 \<le> b" "b \<le> maxFlowValue" "0 \<le> p" "p \<le> maxFlowValue" "0 < dur" "dur \<le> 9223372036854775807"
    using s by (simp_all add: spread_ok_def)
  have "(sh_cum st + ov) mod 18446744073709551616 = sh_cum st + ov" using c ov sp by (intro mod_pos_pos_trivial) linarith+
  then have cum: "sh_cum st \<le> cum" "cum \<le> dur" "0 \<le> cum" using c ov unfolding cum_def by linarith+
  define nb np where "nb = b * cum div dur" and "np = p * cum div dur"
  have md: "mulDiv b cum dur = Some nb" "mulDiv p cum dur = Some np"
    using sp cum by (simp_all add: mulDiv_share nb_def np_def)
  have up: "sh_doneB st \<le> nb" "sh_doneP st \<le> np" and le: "nb \<le> b" "np \<le> p"
    unfolding nb_def np_def dn
    by (rule share_mono share_le; use sp cum in linarith)+
  have plus: "pick (sh_doneB st) (sh_doneP st) 0 + pick (nb - sh_doneB st) (np - sh_doneP st) 0 = pick nb np 0"
    using pick_plus [of "sh_doneB st" "sh_doneP st" 0 "nb - sh_doneB st" "np - sh_doneP st" 0] by simp
  have "T0 + pick (sh_doneB st) (sh_doneP st) 0 + pick (nb - sh_doneB st) (np - sh_doneP st) 0 \<le> maxInt64"
    using plus room pick_mono [OF le, of 0 1] by linarith
  from put_J [OF j _ _ _ this] up
  have "J (T0 + pick nb np 0) (put f lo hi m (nb - sh_doneB st) (np - sh_doneP st) 0 (sh_agg st))"
    by (simp add: plus add.assoc)
  moreover have "J (T0 + pick nb np 0) (sh_agg st)" if "\<not> (nb > sh_doneB st \<or> np > sh_doneP st)"
  proof -
    have "sh_doneB st = nb" "sh_doneP st = np" using that up by linarith+
    then show ?thesis using j by simp
  qed
  ultimately have "K T0 b p dur \<lparr>sh_agg = (if nb > sh_doneB st \<or> np > sh_doneP st
      then put f lo hi m (nb - sh_doneB st) (np - sh_doneP st) 0 (sh_agg st) else sh_agg st),
      sh_cum = cum, sh_doneB = nb, sh_doneP = np\<rparr>"
    using cum by (simp add: K_def flip: nb_def np_def)
  then show ?thesis using share_eq [OF cum_def md] by blast
qed

lemma share_loop_K:
  assumes "K T0 b p dur st" and "spread_ok b p dur" and "T0 + pick b p 1 \<le> maxInt64" and "dur = endMs - startMs"
  shows "\<exists>st'. share_loop f lo hi b p dur startMs endMs endMin m st = Some st' \<and> K T0 b p dur st'"
  using assms
proof (induction f lo hi b p dur startMs endMs endMin m st rule: share_loop.induct)
  case (1 f lo hi b p dur startMs endMs endMin m st)
  define ov where "ov = min endMs ((m + 60) * 1000) - max startMs (m * 1000)"
  consider "\<not> (m \<le> endMin \<and> sh_cum st < dur)" | "m \<le> endMin \<and> sh_cum st < dur" "ov > 0" | "m \<le> endMin \<and> sh_cum st < dur" "\<not> ov > 0"
    by blast
  then show ?case
  proof cases
    case 1
    then have "share_loop f lo hi b p dur startMs endMs endMin m st = Some st"
      by (subst share_loop.simps) (simp only: if_False)
    then show ?thesis using "1.prems" by blast
  next
    case 2
    have "0 \<le> ov" "ov \<le> dur" using 2 "1.prems"(4) by (simp_all add: ov_def)
    then obtain st' where st': "share f lo hi b p dur m ov st = Some st'" "K T0 b p dur st'"
      using share_K "1.prems" by blast
    have "share_loop f lo hi b p dur startMs endMs endMin m st = share_loop f lo hi b p dur startMs endMs endMin (m + 60) st'"
      using 2(2) st' by (simp add: share_loop_step [OF 2(1) ov_def])
    then show ?thesis using "1.IH"(1) [OF 2(1) ov_def 2(2) st'] "1.prems" by simp
  next
    case 3
    have "share_loop f lo hi b p dur startMs endMs endMin m st = share_loop f lo hi b p dur startMs endMs endMin (m + 60) st"
      using 3(2) by (simp add: share_loop_step [OF 3(1) ov_def])
    then show ?thesis using "1.IH"(2) [OF 3(1) ov_def 3(2)] "1.prems" by simp
  qed
qed

end

lemma window_lo: "60 dvd nextFlush \<Longrightarrow> window now nextFlush = (lo, hi) \<Longrightarrow> 60 dvd lo"
  by (auto simp: window_def Let_def maxOpenMinutes_def max_def split: if_splits)

lemma window_bounds:
  assumes "window now nextFlush = (lo, hi)"
  shows "nextFlush \<le> lo" "lo \<le> hi" "hi \<le> lo + 120" "hi = max nextFlush (floorMinute (unix now))"
  using assms by (auto simp: window_def Let_def maxOpenMinutes_def max_def split: if_splits)

lemma before_minute:
  assumes "60 dvd lo" and "floorMinute (unix t) < lo" shows "unix_milli t < lo * 1000"
proof -
  have "unix_milli t div 1000 < lo" using assms by (simp add: floorMinute_less unix_of_milli)
  then show ?thesis using div_mult_mod_eq [of "unix_milli t" 1000] pos_mod_bound [of 1000 "unix_milli t"] by linarith
qed

text \<open>Instants of the range the collector deals with: from the zero \<open>Time\<close> to some 200 million years from now.\<close>

definition time_range :: "time \<Rightarrow> bool" where
  "time_range t \<longleftrightarrow> zero_time \<le> t \<and> unix_milli t \<le> 4611686018427387904"

lemma clamp_value_bounds [simp]: "0 \<le> clamp_value v" "clamp_value v \<le> maxFlowValue"
  by (simp_all add: clamp_value_def maxFlowValue_def)

context component
begin

lemma add_spread_J:
  assumes j: "J T0 a" and b: "0 \<le> b" "b \<le> maxFlowValue" and p: "0 \<le> p" "p \<le> maxFlowValue" and lo: "60 dvd lo"
    and t: "zero_time \<le> start" "unix_milli start < unix_milli en" "unix_milli en \<le> 4611686018427447904"
    and room: "T0 + pick b p 1 \<le> maxInt64"
  shows "\<exists>a'. add_spread f lo hi b p start en a = Some a' \<and> J (T0 + pick b p 1) a'"
proof -
  define dur where "dur = unix_milli en - unix_milli start"
  define first where "first = floorMinute (unix start)"
  have "unix_milli zero_time \<le> unix_milli start" using t(1) by (rule unix_milli_mono)
  then have sp: "spread_ok b p dur" using b p t by (simp add: spread_ok_def dur_def time_defs)
  define st0 where "st0 = \<lparr>sh_agg = a, sh_cum = 0, sh_doneB = 0, sh_doneP = 0\<rparr>"
  have k0: "K T0 b p dur st0" using j sp by (simp add: K_def pick_zero st0_def spread_ok_def)
  have "\<exists>st1. (if first < lo then share f lo hi b p dur lo (min (unix_milli en) (lo * 1000) - unix_milli start) st0
      else Some st0) = Some st1 \<and> K T0 b p dur st1"
  proof (cases "first < lo")
    case True
    have "unix_milli start < lo * 1000" using True lo unfolding first_def by (intro before_minute)
    then show ?thesis using True t share_K [OF k0 sp _ _ room, of "min (unix_milli en) (lo * 1000) - unix_milli start"]
      by (simp add: dur_def)
  qed (simp add: k0)
  then obtain st1 where st1: "(if first < lo then share f lo hi b p dur lo (min (unix_milli en) (lo * 1000) - unix_milli start) st0
      else Some st0) = Some st1" and k1: "K T0 b p dur st1" by blast
  obtain st2 where st2: "share_loop f lo hi b p dur (unix_milli start) (unix_milli en) (floorMinute (unix en))
      (if first < lo then lo else first) st1 = Some st2" and k2: "K T0 b p dur st2"
    using share_loop_K [OF k1 sp room dur_def] by blast
  let ?em = "floorMinute (unix en)"
  define rb rp where "rb = b - sh_doneB st2" and "rp = p - sh_doneP st2"
  have r: "0 \<le> rb" "0 \<le> rp" using k2 sp share_le by (auto simp: K_def rb_def rp_def spread_ok_def)
  have tot: "pick (sh_doneB st2) (sh_doneP st2) 0 + pick rb rp 0 = pick b p 0" by (simp add: pick_plus rb_def rp_def)
  have le: "T0 + pick b p 0 \<le> maxInt64" using room pick_mono [of b b p p 0 1] by simp
  define a2 where "a2 = (if rb > 0 \<or> rp > 0 then put f lo hi ?em rb rp 0 (sh_agg st2) else sh_agg st2)"
  have j2: "J (T0 + pick (sh_doneB st2) (sh_doneP st2) 0) (sh_agg st2)" using k2 unfolding K_def by blast
  have "J (T0 + pick b p 0) a2"
  proof (cases "rb > 0 \<or> rp > 0")
    case True
    from put_J [OF j2, of rb rp 0] r le tot have "J (T0 + pick b p 0) (put f lo hi ?em rb rp 0 (sh_agg st2))"
      by (simp add: add.assoc)
    then show ?thesis using True by (simp add: a2_def)
  next
    case False
    then have "rb = 0" "rp = 0" using r by linarith+
    then show ?thesis using j2 tot by (simp add: a2_def pick_zero)
  qed
  from put_J [OF this, of 0 0 1] room pick_plus [of b p 0 0 0 1]
  have "J (T0 + pick b p 1) (put f lo hi ?em 0 0 1 a2)" by (simp add: add.assoc)
  moreover have "add_spread f lo hi b p start en a = Some (put f lo hi ?em 0 0 1 a2)"
    using st1 st2 unfolding st0_def dur_def first_def a2_def rb_def rp_def by (simp add: add_spread_def Let_def)
  ultimately show ?thesis by blast
qed

lemma late_J: "J T a \<Longrightarrow> J T (upd_minute lo (\<lambda>mm. mm\<lparr>mm_late := g mm\<rparr>) a)"
  by (auto simp: J_def upd_sum minute_sum_def E_late E_minute mm_ok_minute intro!: all_E_upd agg_ok_upd)

theorem agg_add_J:
  assumes j: "J T0 a" and nf: "60 dvd nextFlush" and t: "zero_time \<le> nf_start f" "zero_time \<le> nf_end f" "time_range now"
    and room: "T0 + pick (clamp_value (nf_bytes f)) (clamp_value (nf_packets f)) 1 \<le> maxInt64"
  shows "\<exists>a' late. agg_add f now nextFlush a = Some (a', late) \<and>
    J (T0 + pick (clamp_value (nf_bytes f)) (clamp_value (nf_packets f)) 1) a'"
proof -
  obtain lo hi where w: "window now nextFlush = (lo, hi)" by force
  define en where "en = (if nf_end f > now + minutes 1 then now else nf_end f)"
  define start where "start = (if nf_start f > en then en else nf_start f)"
  define b p where "b = clamp_value (nf_bytes f)" and "p = clamp_value (nf_packets f)"
  have ts: "zero_time \<le> start" using t by (auto simp: start_def en_def time_range_def)
  have te: "unix_milli en \<le> 4611686018427387904 + 60000"
  proof -
    have "en \<le> now + minutes 1" by (simp add: en_def time_defs)
    then have "unix_milli en \<le> unix_milli (now + minutes 1)" by (rule unix_milli_mono)
    also have "\<dots> = unix_milli now + 60000" by (simp add: time_defs)
    finally show ?thesis using t(3) by (simp add: time_range_def)
  qed
  have "\<exists>a1. (if unix_milli en \<le> unix_milli start then Some (put f lo hi (floorMinute (unix en)) b p 1 a)
      else add_spread f lo hi b p start en a) = Some a1 \<and> J (T0 + pick b p 1) a1"
    using put_J [OF j, of b p 1] room
      add_spread_J [OF j _ _ _ _ window_lo [OF nf w] ts _ _ room, of en f hi, folded b_def p_def] te
    by (simp add: b_def p_def)
  then obtain a1 where a1: "(if unix_milli en \<le> unix_milli start then Some (put f lo hi (floorMinute (unix en)) b p 1 a)
      else add_spread f lo hi b p start en a) = Some a1" "J (T0 + pick b p 1) a1" by blast
  have "agg_add f now nextFlush a = (let late = (floorMinute (unix en) < lo \<or> floorMinute (unix start) < lo)
     in Some (if late then upd_minute lo (\<lambda>mm. mm\<lparr>mm_late := wrap64 (mm_late mm + 1)\<rparr>) a1 else a1, late))"
    using a1(1) unfolding b_def p_def start_def en_def by (simp add: agg_add_def w Let_def)
  then show ?thesis using late_J [OF a1(2)] a1(2) by (auto simp: Let_def simp flip: b_def p_def)
qed

end

interpretation byt0: component av_bytes "\<lambda>b p f. b" "\<lambda>_. True"
  by unfold_locales (simp_all add: av_add_def zero_val_def val_ok_def)

interpretation pkt: component av_packets "\<lambda>b p f. p" "\<lambda>_. True"
  by unfold_locales (simp_all add: av_add_def zero_val_def val_ok_def)

interpretation flo: component av_flows "\<lambda>b p f. f" "\<lambda>_. True"
  by unfold_locales (simp_all add: av_add_def zero_val_def val_ok_def)

text \<open>For bytes the minute also keeps a total of its own, \<open>minuteAgg.bytes\<close>; it is exact.\<close>

definition bytes_exact :: "minuteAgg \<Rightarrow> bool" where
  "bytes_exact mm \<longleftrightarrow> mm_bytes mm = minute_sum av_bytes mm"

lemma other_add_bytes: "mm_bytes (other_add q b p f mm) = mm_bytes mm"
  by (simp add: other_add_def Let_def)

lemma put_value_bytes: "mm_bytes (put_value f sb sp sf mm) = mm_bytes mm"
  by (simp add: put_value_def Let_def other_add_bytes split: option.splits)

lemma put_head_bytes: "mm_bytes (put_head f sb sf mm) = satAdd (mm_bytes mm) sb"
  by (simp add: put_head_def Let_def)

lemma put_minute_bytes: "mm_bytes (put_minute f sb sp sf mm) = satAdd (mm_bytes mm) sb"
  by (simp add: put_minute_def put_value_bytes put_head_bytes)

interpretation byt: component av_bytes "\<lambda>b p f. b" bytes_exact
proof
  fix mm :: minuteAgg and f :: normFlow and sb sp sf :: int
  assume mm: "mm_ok mm" "bytes_exact mm" "0 \<le> sb" "0 \<le> sp" "0 \<le> sf" "minute_sum av_bytes mm + sb \<le> maxInt64"
  then show "bytes_exact (put_minute f sb sp sf mm)"
    using byt0.put_minute_sum [of mm sb sp sf f] byt0.msum_nonneg [of mm]
    by (simp add: bytes_exact_def put_minute_bytes satAdd_exact)
qed (simp_all add: byt0.sel_add byt0.sel_zero byt0.sel_nonneg bytes_exact_def minute_sum_def newMinuteAgg_def)

text \<open>
  C5: adding a flow loses nothing and invents nothing. From an aggregator within its caps, with
  every minute's byte total exact, \<open>add\<close> never panics in \<open>bits.Div64\<close>; the bytes, packets and
  flows over all open minutes grow by exactly the flow's clamped bytes, its clamped packets and
  one, however the flow is split over the minutes, and caps and exact totals are kept. The
  hypotheses ask for an aligned \<open>nextFlush\<close>, instants of the supported range and sums that do
  not reach the saturation bound.
\<close>

theorem agg_add_conserves:
  assumes "agg_ok a" and "gm_all bytes_exact a" and "60 dvd nextFlush"
    and "zero_time \<le> nf_start f" and "zero_time \<le> nf_end f" and "time_range now"
    and "agg_sum av_bytes a + clamp_value (nf_bytes f) \<le> maxInt64"
    and "agg_sum av_packets a + clamp_value (nf_packets f) \<le> maxInt64"
    and "agg_sum av_flows a + 1 \<le> maxInt64"
  shows "\<exists>a' late. agg_add f now nextFlush a = Some (a', late) \<and> agg_ok a' \<and> gm_all bytes_exact a' \<and>
    agg_sum av_bytes a' = agg_sum av_bytes a + clamp_value (nf_bytes f) \<and>
    agg_sum av_packets a' = agg_sum av_packets a + clamp_value (nf_packets f) \<and>
    agg_sum av_flows a' = agg_sum av_flows a + 1"
proof -
  have T: "gm_all (\<lambda>_. True) x" for x :: aggregator by (simp add: gm_all_def)
  show ?thesis
    using byt.agg_add_J [of _ a, OF _ assms(3-6)] pkt.agg_add_J [of _ a, OF _ assms(3-6)]
      flo.agg_add_J [of _ a, OF _ assms(3-6)] assms
    by (fastforce simp: byt.J_def pkt.J_def flo.J_def T)
qed

definition demo_key :: aggKey where
  "demo_key = \<lparr>ak_inIf = 1, ak_outIf = 2, ak_proto = 6, ak_port = 443, ak_src = replicate 16 1, ak_dst = replicate 16 2\<rparr>"

definition demo_flow :: normFlow where
  "demo_flow = \<lparr>nf_key = demo_key, nf_endpoints = True, nf_bytes = 1000, nf_packets = 10, nf_sampling = 1,
     nf_start = seconds 600, nf_end = seconds 690\<rparr>"

theorem agg_add_conserves_witness:
  "\<exists>a' late. agg_add demo_flow (seconds 700) 540 [] = Some (a', late) \<and> agg_ok a' \<and> gm_all bytes_exact a' \<and>
    agg_sum av_bytes a' = 1000 \<and> agg_sum av_packets a' = 10 \<and> agg_sum av_flows a' = 1"
  using agg_add_conserves [of "[]" 540 demo_flow "seconds 700"]
  by (simp add: agg_ok_def demo_flow_def time_defs time_range_def agg_sum_def maxInt64_def clamp_value_def maxFlowValue_def)

end
