(* ===== verification/Aggregate_Flush.thy ===== *)
theory Aggregate_Flush
  imports Aggregate
begin

text \<open>
  What a flush of \<open>flow/aggregate.go\<close> returns: rows whose sums are the minute's totals, at most
  \<open>maxRows\<close> conversations, the largest of every interface pair, in an order and a selection that do
  not depend on the order in which Go ranges over its maps.
\<close>

subsection \<open>Grouping\<close>

lemma mset_group:
  assumes "distinct ps" and "g ` set xs \<subseteq> set ps"
  shows "(\<Sum>p\<leftarrow>ps. mset (filter (\<lambda>x. g x = p) xs)) = mset xs"
  using assms
proof (induction ps arbitrary: xs)
  case (Cons p ps)
  let ?ys = "filter (\<lambda>x. g x \<noteq> p) xs"
  have "filter (\<lambda>x. g x = q) ?ys = filter (\<lambda>x. g x = q) xs" if "q \<in> set ps" for q
    using that Cons.prems by (auto simp: filter_filter intro!: filter_cong)
  then have "(\<Sum>q\<leftarrow>ps. mset (filter (\<lambda>x. g x = q) xs)) = (\<Sum>q\<leftarrow>ps. mset (filter (\<lambda>x. g x = q) ?ys))"
    by (intro arg_cong [where f = sum_list] map_cong) simp_all
  also have "\<dots> = mset ?ys" using Cons.prems by (intro Cons.IH) auto
  finally show ?case by (simp add: mset_filter flip: multiset_partition)
qed simp

definition key_pairs :: "minuteAgg \<Rightarrow> pairKey list" where
  "key_pairs mm = remdups (map (\<lambda>kv. pair_of (fst kv)) (mm_keys mm))"

lemma key_pairs_mset: "(\<Sum>p\<leftarrow>key_pairs mm. mset (pair_list mm p)) = mset (mm_keys mm)"
  using mset_group [of "key_pairs mm" "\<lambda>kv. pair_of (fst kv)" "mm_keys mm"]
  by (simp add: key_pairs_def pair_list_def)

subsection \<open>The parts of a flush\<close>

lemma fold_keyed_keys [simp]: "mm_keys (fold fold_keyed l mm) = mm_keys mm"
  by (induction l arbitrary: mm) (simp_all add: fold_keyed_def)

lemma mm_ok_fold_keyed: "mm_ok mm \<Longrightarrow> mm_ok (fold fold_keyed l mm)"
  by (induction l arbitrary: mm) (simp_all add: fold_keyed_def mm_ok_other_add)

lemma pair_list_fold [simp]: "pair_list (fold fold_keyed l mm) = pair_list mm"
  by (simp add: pair_list_def fun_eq_iff)

lemma flush_pairs_eq:
  "fold (flush_pair topN) ps (k0, mm) =
    (k0 @ concat (map (\<lambda>p. take topN (pair_list mm p)) ps),
     fold fold_keyed (concat (map (\<lambda>p. drop topN (pair_list mm p)) ps)) mm)"
  by (induction ps arbitrary: k0 mm) (simp_all add: flush_pair_def Let_def)

text \<open>The conversations within their pair's top \<open>topN\<close>, largest first, and all the others.\<close>

definition top_list :: "nat \<Rightarrow> minuteAgg \<Rightarrow> keyed list" where
  "top_list topN mm = sort_cmp byBytesThenKey (concat (map (\<lambda>p. take topN (pair_list mm p)) (key_pairs mm)))"

definition rest_list :: "nat \<Rightarrow> nat \<Rightarrow> minuteAgg \<Rightarrow> keyed list" where
  "rest_list topN maxRows mm =
    concat (map (\<lambda>p. drop topN (pair_list mm p)) (key_pairs mm)) @ drop maxRows (top_list topN mm)"

lemma flush_select_eq:
  "flush_select topN maxRows mm = (take maxRows (top_list topN mm), fold fold_keyed (rest_list topN maxRows mm) mm)"
  by (simp add: flush_select_def flush_pairs_eq top_list_def rest_list_def Let_def flip: key_pairs_def)

lemma mset_take_drop: "mset (take n xs) + mset (drop n xs) = mset xs"
  by (metis append_take_drop_id mset_append)

lemma mset_concat_take_drop:
  "mset (concat (map (\<lambda>p. take n (h p)) ps)) + mset (concat (map (\<lambda>p. drop n (h p)) ps)) = (\<Sum>p\<leftarrow>ps. mset (h p))"
proof (induction ps)
  case (Cons p ps)
  have "mset (take n (h p)) + mset (drop n (h p)) = mset (h p)" by (rule mset_take_drop)
  with Cons show ?case by (simp add: ac_simps)
qed simp

lemma flush_select_mset:
  "mset (take maxRows (top_list topN mm)) + mset (rest_list topN maxRows mm) = mset (mm_keys mm)"
proof -
  let ?d = "mset (concat (map (\<lambda>p. drop topN (pair_list mm p)) (key_pairs mm)))"
  have "mset (take maxRows (top_list topN mm)) + mset (rest_list topN maxRows mm)
      = mset (take maxRows (top_list topN mm)) + mset (drop maxRows (top_list topN mm)) + ?d"
    by (simp only: rest_list_def mset_append ac_simps)
  also have "\<dots> = mset (concat (map (\<lambda>p. take topN (pair_list mm p)) (key_pairs mm))) + ?d"
    by (simp only: mset_take_drop top_list_def mset_sort_cmp)
  also have "\<dots> = mset (mm_keys mm)" by (simp only: mset_concat_take_drop key_pairs_mset)
  finally show ?thesis .
qed

subsection \<open>The order of the rows\<close>

context comparator
begin

lemma sort_cmp_perm:
  assumes "mset xs = mset ys" and "inj_on key (set xs)" shows "sort_cmp cmp xs = sort_cmp cmp ys"
  using assms mset_eq_setD [OF assms(1)] by (intro sort_cmp_unique sorted_sort_cmp) simp_all

end

lemma bytes_Compare_flip: "bytes_Compare y x = - bytes_Compare x y"
  by (induction x y rule: bytes_Compare.induct) auto

lemma bytes_Compare_zero: "bytes_Compare x y = 0 \<Longrightarrow> x = y"
  by (induction x y rule: bytes_Compare.induct) (auto split: if_splits)

lemma bytes_Compare_trans: "bytes_Compare x y \<le> 0 \<Longrightarrow> bytes_Compare y z \<le> 0 \<Longrightarrow> bytes_Compare x z \<le> 0"
proof (induction x z arbitrary: y rule: bytes_Compare.induct)
  case (3 x xs)
  then show ?case by (cases y) simp_all
next
  case (4 x xs z zs)
  then show ?case by (cases y) (auto split: if_splits)
qed simp_all

interpretation bytes_cmp: comparator bytes_Compare "\<lambda>x. x"
  by unfold_locales (rule bytes_Compare_flip, erule (1) bytes_Compare_trans, erule bytes_Compare_zero)

lemma compareAggKeys_then:
  "compareAggKeys = cmp_then (\<lambda>x y. go_compare (ak_inIf x) (ak_inIf y)) (cmp_then (\<lambda>x y. go_compare (ak_outIf x) (ak_outIf y))
    (cmp_then (\<lambda>x y. go_compare (ak_proto x) (ak_proto y)) (cmp_then (\<lambda>x y. go_compare (ak_port x) (ak_port y))
    (cmp_then (\<lambda>x y. bytes_Compare (ak_src x) (ak_src y)) (\<lambda>x y. bytes_Compare (ak_dst x) (ak_dst y))))))"
  by (simp add: fun_eq_iff compareAggKeys_def cmp_then_def Let_def)

lemmas comparator_intros = comparator_then comparator_on [OF ord_cmp.comparator_axioms] comparator_on [OF bytes_cmp.comparator_axioms]

interpretation agg_keys: comparator compareAggKeys "\<lambda>k. k :: aggKey"
proof -
  have c: "comparator compareAggKeys (\<lambda>k. (ak_inIf k, ak_outIf k, ak_proto k, ak_port k, ak_src k, ak_dst k))"
    unfolding compareAggKeys_then by (intro comparator_intros)
  show "comparator compareAggKeys (\<lambda>k. k)"
  proof
    fix x y z :: aggKey
    show "compareAggKeys y x = - compareAggKeys x y" by (rule comparator.cmp_flip [OF c])
    show "compareAggKeys x y \<le> 0 \<Longrightarrow> compareAggKeys y z \<le> 0 \<Longrightarrow> compareAggKeys x z \<le> 0"
      by (rule comparator.cmp_trans [OF c])
    show "compareAggKeys x y = 0 \<Longrightarrow> x = y" using comparator.cmp_zero [OF c, of x y] by simp
  qed
qed

interpretation by_bytes: comparator byBytesThenKey "\<lambda>kv. (av_bytes (snd kv), fst kv)"
proof -
  have "byBytesThenKey = cmp_then (\<lambda>x y. go_compare (av_bytes (snd y)) (av_bytes (snd x))) (\<lambda>x y. compareAggKeys (fst x) (fst y))"
    by (simp add: fun_eq_iff byBytesThenKey_def cmp_then_def Let_def)
  then show "comparator byBytesThenKey (\<lambda>kv. (av_bytes (snd kv), fst kv))"
    using comparator_then [OF comparator_flip [OF comparator_on [OF ord_cmp.comparator_axioms]]
        comparator_on [OF agg_keys.comparator_axioms], of "\<lambda>kv :: keyed. av_bytes (snd kv)" fst] by simp
qed

lemma by_bytes_le: "byBytesThenKey x y \<le> 0 \<Longrightarrow> av_bytes (snd y) \<le> av_bytes (snd x)"
  by (auto simp: byBytesThenKey_def go_compare_def Let_def split: if_splits)

lemma keys_inj: "gm_wf m \<Longrightarrow> inj_on (\<lambda>kv. (g kv, fst kv)) (set m)"
  by (auto simp: gm_wf_def inj_on_def distinct_map)

lemma pair_list_perm:
  assumes "mset (mm_keys mm) = mset (mm_keys mm')" and "gm_wf (mm_keys mm)"
  shows "pair_list mm = pair_list mm'"
proof
  fix p
  let ?f = "filter (\<lambda>kv. pair_of (fst kv) = p)"
  have "mset (?f (mm_keys mm)) = mset (?f (mm_keys mm'))" using assms(1) by (simp add: mset_filter)
  moreover have "inj_on (\<lambda>kv. (av_bytes (snd kv), fst kv)) (set (?f (mm_keys mm)))"
    using keys_inj [OF assms(2)] by (rule inj_on_subset) auto
  ultimately show "pair_list mm p = pair_list mm' p"
    unfolding pair_list_def by (rule by_bytes.sort_cmp_perm)
qed

text \<open>
  Which conversations a flush keeps, and in which order, does not depend on the order in which
  Go ranges over the minute's map of conversations: two minutes that hold the same conversations
  in any order give the same list.
\<close>

theorem flush_order_irrelevant:
  assumes "mset (mm_keys mm) = mset (mm_keys mm')" and "gm_wf (mm_keys mm)"
  shows "fst (flush_select topN maxRows mm) = fst (flush_select topN maxRows mm')"
proof -
  let ?c = "\<lambda>mm. concat (map (\<lambda>p. take topN (pair_list mm p)) (key_pairs mm))"
  have "set (key_pairs mm) = set (key_pairs mm')" using mset_eq_setD [OF assms(1)] by (simp add: key_pairs_def)
  then have "mset (key_pairs mm) = mset (key_pairs mm')"
    by (intro set_eq_iff_mset_eq_distinct [THEN iffD1]) (simp_all add: key_pairs_def)
  then have "mset (?c mm) = mset (?c mm')"
    using pair_list_perm [OF assms]
    by (simp add: mset_concat flip: sum_mset_sum_list)
  moreover have "inj_on (\<lambda>kv. (av_bytes (snd kv), fst kv)) (set (?c mm))"
    using keys_inj [OF assms(2)] by (rule inj_on_subset) (auto simp: pair_list_def dest!: in_set_takeD)
  ultimately have "top_list topN mm = top_list topN mm'"
    unfolding top_list_def by (rule by_bytes.sort_cmp_perm)
  then show ?thesis by (simp add: flush_select_eq)
qed

definition demo_val :: "int \<Rightarrow> aggVal" where
  "demo_val b = \<lparr>av_bytes = b, av_packets = 1, av_flows = 1\<rparr>"

definition demo_minute :: "keyed list \<Rightarrow> minuteAgg" where
  "demo_minute ks = (newMinuteAgg 600)\<lparr>mm_keys := ks, mm_bytes := 120, mm_alive := True\<rparr>"

definition demo_key2 :: aggKey where "demo_key2 = demo_key\<lparr>ak_port := 80\<rparr>"

theorem flush_order_irrelevant_witness:
  "fst (flush_select 1 10 (demo_minute [(demo_key, demo_val 50), (demo_key2, demo_val 70)]))
    = fst (flush_select 1 10 (demo_minute [(demo_key2, demo_val 70), (demo_key, demo_val 50)]))"
  using flush_order_irrelevant [of "demo_minute [(demo_key, demo_val 50), (demo_key2, demo_val 70)]"
      "demo_minute [(demo_key2, demo_val 70), (demo_key, demo_val 50)]" 1 10]
  by (simp add: demo_minute_def gm_wf_def demo_key2_def demo_key_def)

subsection \<open>What is kept\<close>

lemma sorted_take_drop:
  "sorted_wrt R xs \<Longrightarrow> x \<in> set (take n xs) \<Longrightarrow> y \<in> set (drop n xs) \<Longrightarrow> R x y"
  by (metis append_take_drop_id sorted_wrt_append)

lemma top_list_sorted: "sorted_wrt (\<lambda>x y. byBytesThenKey x y \<le> 0) (top_list topN mm)"
  unfolding top_list_def by (rule by_bytes.sorted_sort_cmp)

lemma pair_list_sorted: "sorted_wrt (\<lambda>x y. byBytesThenKey x y \<le> 0) (pair_list mm p)"
  unfolding pair_list_def by (rule by_bytes.sorted_sort_cmp)

lemma set_pair_list: "kv \<in> set (pair_list mm p) \<longleftrightarrow> kv \<in> set (mm_keys mm) \<and> pair_of (fst kv) = p"
  by (auto simp: pair_list_def)

lemma set_top_list: "kv \<in> set (top_list topN mm) \<longleftrightarrow> kv \<in> set (take topN (pair_list mm (pair_of (fst kv))))"
proof
  assume "kv \<in> set (top_list topN mm)"
  then obtain p where "kv \<in> set (take topN (pair_list mm p))" by (auto simp: top_list_def)
  then show "kv \<in> set (take topN (pair_list mm (pair_of (fst kv))))"
    using set_pair_list [of kv mm p] by (auto dest: in_set_takeD)
next
  assume a: "kv \<in> set (take topN (pair_list mm (pair_of (fst kv))))"
  then have "kv \<in> set (mm_keys mm)" using set_pair_list by (blast dest: in_set_takeD)
  then have "pair_of (fst kv) \<in> set (key_pairs mm)" by (simp add: key_pairs_def)
  with a show "kv \<in> set (top_list topN mm)" by (auto simp: top_list_def)
qed

lemma kept_of_pair_length:
  assumes "gm_wf (mm_keys mm)" shows "length (filter (\<lambda>kv. pair_of (fst kv) = p) (fst (flush_select topN maxRows mm))) \<le> topN"
proof -
  let ?l = "filter (\<lambda>kv. pair_of (fst kv) = p) (fst (flush_select topN maxRows mm))"
  have dk: "distinct (mm_keys mm)" using assms by (simp add: gm_wf_def distinct_map)
  have "mset (take maxRows (top_list topN mm) @ rest_list topN maxRows mm) = mset (mm_keys mm)"
    by (simp add: flush_select_mset)
  from mset_eq_imp_distinct_iff [OF this] have "distinct (fst (flush_select topN maxRows mm))"
    using dk by (simp add: flush_select_eq)
  then have "distinct ?l" by simp
  moreover have "set ?l \<subseteq> set (take topN (pair_list mm p))"
    using set_top_list by (auto simp: flush_select_eq dest!: in_set_takeD)
  ultimately have "length ?l \<le> card (set (take topN (pair_list mm p)))"
    by (metis card_mono distinct_card finite_set)
  also have "\<dots> \<le> topN" by (rule order_trans [OF card_length]) simp
  finally show ?thesis .
qed

text \<open>
  C27: a flush keeps the largest conversations. At most \<open>maxRows\<close> are kept, at most \<open>topN\<close> of them
  for one interface pair, they come largest first, and no conversation of the minute that was
  folded into the pair's \<open>other\<close> row has more bytes than a kept one of the same pair.
\<close>

theorem flush_keeps_largest:
  assumes "gm_wf (mm_keys mm)"
  shows "length (fst (flush_select topN maxRows mm)) \<le> maxRows
    \<and> length (filter (\<lambda>kv. pair_of (fst kv) = p) (fst (flush_select topN maxRows mm))) \<le> topN
    \<and> sorted_wrt (\<lambda>x y. av_bytes (snd y) \<le> av_bytes (snd x)) (fst (flush_select topN maxRows mm))
    \<and> (kv \<in> set (mm_keys mm) \<longrightarrow> kv \<notin> set (fst (flush_select topN maxRows mm)) \<longrightarrow>
       kept \<in> set (fst (flush_select topN maxRows mm)) \<longrightarrow> pair_of (fst kept) = pair_of (fst kv) \<longrightarrow>
       av_bytes (snd kv) \<le> av_bytes (snd kept))"
proof (intro conjI impI)
  let ?k = "fst (flush_select topN maxRows mm)"
  show "length ?k \<le> maxRows" by (simp add: flush_select_eq)
  show "length (filter (\<lambda>kv. pair_of (fst kv) = p) ?k) \<le> topN" using assms by (rule kept_of_pair_length)
  have "sorted_wrt (\<lambda>x y. byBytesThenKey x y \<le> 0) ?k" by (simp add: flush_select_eq top_list_sorted sorted_wrt_take)
  then show "sorted_wrt (\<lambda>x y. av_bytes (snd y) \<le> av_bytes (snd x)) ?k"
    by (rule sorted_wrt_mono_rel [rotated]) (rule by_bytes_le)
  assume kv: "kv \<in> set (mm_keys mm)" "kv \<notin> set ?k" and kept: "kept \<in> set ?k" "pair_of (fst kept) = pair_of (fst kv)"
  let ?l = "pair_list mm (pair_of (fst kv))"
  have "byBytesThenKey kept kv \<le> 0"
  proof (cases "kv \<in> set (top_list topN mm)")
    case True
    then have "kv \<in> set (drop maxRows (top_list topN mm))"
      using kv(2) by (metis Un_iff append_take_drop_id flush_select_eq fst_conv set_append)
    then show ?thesis using sorted_take_drop [OF top_list_sorted] kept(1) by (simp add: flush_select_eq)
  next
    case False
    have "kept \<in> set (take topN ?l)" using kept set_top_list [of kept] by (auto simp: flush_select_eq dest: in_set_takeD)
    moreover have "kv \<in> set (drop topN ?l)"
      using False kv(1) set_top_list [of kv] set_pair_list by (metis Un_iff append_take_drop_id set_append)
    ultimately show ?thesis using sorted_take_drop [OF pair_list_sorted] by blast
  qed
  then show "av_bytes (snd kv) \<le> av_bytes (snd kept)" by (rule by_bytes_le)
qed

theorem flush_keeps_largest_witness:
  "length (fst (flush_select 1 10 (demo_minute [(demo_key, demo_val 50), (demo_key2, demo_val 70)]))) \<le> 10"
  using flush_keeps_largest [of "demo_minute [(demo_key, demo_val 50), (demo_key2, demo_val 70)]" 1 10]
  by (simp add: demo_minute_def gm_wf_def demo_key2_def demo_key_def)

subsection \<open>The totals of a flush\<close>

locale row_component = component +
  fixes rsel :: "FlowRow \<Rightarrow> int"
  assumes rsel_key: "rsel (key_row ex t kv) = sel (snd kv)"
    and rsel_other: "rsel (other_row ex t pv) = sel (snd pv)"
begin

definition lsum :: "('k \<times> aggVal) list \<Rightarrow> int" where
  "lsum l = sum_list (map (\<lambda>kv. sel (snd kv)) l)"

lemma lsum_simps [simp]: "lsum [] = 0" "lsum (kv # l) = sel (snd kv) + lsum l" "lsum (l @ l') = lsum l + lsum l'"
  by (simp_all add: lsum_def)

lemma gm_sum_lsum: "gm_sum sel m = lsum m"
  by (induction m) auto

lemma lsum_mset: "mset l = mset l' \<Longrightarrow> lsum l = lsum l'"
  unfolding lsum_def by (simp flip: sum_mset_sum_list)

lemma lsum_nonneg: "(\<And>kv. kv \<in> set l \<Longrightarrow> val_ok (snd kv)) \<Longrightarrow> 0 \<le> lsum l"
  by (induction l) (auto intro!: add_nonneg_nonneg sel_nonneg)

lemma fold_keyed_sum:
  assumes "mm_ok mm" and "\<And>kv. kv \<in> set l \<Longrightarrow> val_ok (snd kv)" and "lsum (mm_other mm) + lsum l \<le> maxInt64"
  shows "lsum (mm_other (fold fold_keyed l mm)) = lsum (mm_other mm) + lsum l"
  using assms
proof (induction l arbitrary: mm)
  case (Cons kv l)
  have v: "val_ok (snd kv)" and r: "0 \<le> lsum l" using Cons.prems(2) lsum_nonneg [of l] by auto
  have "lsum (mm_other (fold_keyed kv mm)) = lsum (mm_other mm) + sel (snd kv)"
    using gm_sum_bump [of "mm_other mm" "av_bytes (snd kv)" "av_packets (snd kv)" "av_flows (snd kv)"] Cons.prems(1,3) v r sel_nonneg [OF v]
    by (simp add: fold_keyed_def other_add_def Let_def gm_sum_lsum pick_self mm_ok_def)
  moreover have "mm_ok (fold_keyed kv mm)" using mm_ok_fold_keyed [OF Cons.prems(1), of "[kv]"] by simp
  ultimately show ?case using Cons.IH [of "fold_keyed kv mm"] Cons.prems(2,3) by simp
qed simp

lemma sel_val_zero: "val_zero v \<Longrightarrow> sel v = 0"
  using pick_self [of v] pick_zero by (simp add: val_zero_def)

lemma lsum_nonzero: "lsum (filter (\<lambda>pv. \<not> val_zero (snd pv)) l) = lsum l"
  by (induction l) (simp_all add: sel_val_zero)

lemma rows_sum:
  assumes ok: "mm_ok mm" and room: "msum mm \<le> maxInt64"
  shows "sum_list (map rsel (flush_rows ex m topN maxRows mm)) = msum mm"
proof -
  let ?r = "rest_list topN maxRows mm" and ?k = "take maxRows (top_list topN mm)"
  have m: "mset (?k @ ?r) = mset (mm_keys mm)" by (simp add: flush_select_mset)
  have vk: "val_ok (snd kv)" if "kv \<in> set (mm_keys mm)" for kv
    using ok that unfolding mm_ok_def vals_ok_def by blast
  have vr: "val_ok (snd kv)" if "kv \<in> set ?k \<union> set ?r" for kv
    using that mset_eq_setD [OF m] by (intro vk) auto
  have s: "msum mm = lsum ?k + lsum ?r + lsum (mm_other mm)"
    using lsum_mset [OF m] by (simp add: minute_sum_def gm_sum_lsum)
  have "0 \<le> lsum ?k" using vr by (intro lsum_nonneg) blast
  then have f: "lsum (mm_other (fold fold_keyed ?r mm)) = lsum (mm_other mm) + lsum ?r"
    using s room vr by (intro fold_keyed_sum [OF ok]) auto
  let ?o = "mm_other (fold fold_keyed ?r mm)"
  have "sum_list (map rsel (map (other_row ex (time_Unix m 0)) l)) = lsum l" for l by (simp add: lsum_def rsel_other o_def)
  moreover have "sum_list (map rsel (map (key_row ex (time_Unix m 0)) l)) = lsum l" for l by (simp add: lsum_def rsel_key o_def)
  moreover have "lsum (sort_cmp c ?o) = lsum ?o" for c by (rule lsum_mset) simp
  ultimately show ?thesis using s f by (simp add: flush_rows_def flush_select_eq lsum_nonzero del: map_map)
qed

end

interpretation byt_rows: row_component av_bytes "\<lambda>b p f. b" bytes_exact fr_Bytes
  by unfold_locales (simp_all add: key_row_def other_row_def)

interpretation pkt_rows: row_component av_packets "\<lambda>b p f. p" "\<lambda>_. True" fr_Packets
  by unfold_locales (simp_all add: key_row_def other_row_def)

interpretation flo_rows: row_component av_flows "\<lambda>b p f. f" "\<lambda>_. True" fr_Flows
  by unfold_locales (simp_all add: key_row_def other_row_def)

lemma flush_rows_length:
  assumes "mm_ok mm" shows "length (flush_rows ex m topN maxRows mm) \<le> maxRows + Suc maxKeysPerMinute"
proof -
  have "mm_ok (fold fold_keyed (rest_list topN maxRows mm) mm)" using assms by (rule mm_ok_fold_keyed)
  then have "length (mm_other (fold fold_keyed (rest_list topN maxRows mm) mm)) \<le> Suc maxKeysPerMinute"
    by (auto simp: mm_ok_def gm_len_def)
  then show ?thesis
    using length_filter_le [of "\<lambda>pv. \<not> val_zero (snd pv)"
        "sort_cmp (\<lambda>x y. comparePairs (fst x) (fst y)) (mm_other (fold fold_keyed (rest_list topN maxRows mm) mm))"]
    by (simp add: flush_rows_def flush_select_eq)
qed

text \<open>
  C26: flushing a minute writes all of it. The rows of an open minute sum to the minute's bytes,
  packets and flows whatever \<open>topN\<close> and \<open>maxRows\<close> fold away, the meta row carries the same byte
  total, there are at most \<open>maxRows\<close> conversation rows and 20001 \<open>other\<close> rows, and the minute is
  gone from the aggregator while every other minute stays as it was.
\<close>

theorem flush_totals:
  assumes "agg_ok a" and "gm_all bytes_exact a" and "gm_get a m = Some mm"
    and "minute_sum av_bytes mm \<le> maxInt64" and "minute_sum av_packets mm \<le> maxInt64" and "minute_sum av_flows mm \<le> maxInt64"
    and "flush ex m topN maxRows a = (out, a')"
  shows "sum_list (map fr_Bytes (fl_rows out)) = minute_sum av_bytes mm
    \<and> sum_list (map fr_Packets (fl_rows out)) = minute_sum av_packets mm
    \<and> sum_list (map fr_Flows (fl_rows out)) = minute_sum av_flows mm
    \<and> (case fl_meta out of None \<Rightarrow> fl_rows out = [] | Some meta \<Rightarrow> fm_Bytes meta = sum_list (map fr_Bytes (fl_rows out)))
    \<and> length (fl_rows out) \<le> maxRows + Suc maxKeysPerMinute
    \<and> gm_get a' m' = (if m' = m then None else gm_get a m')"
proof -
  have ok: "mm_ok mm" "bytes_exact mm" using assms(1-3) by (auto simp: agg_ok_def dest: gm_all_get)
  have rows: "fl_rows out = flush_rows ex m topN maxRows mm" and a': "a' = gm_del m a"
    and meta: "fl_meta out = (if mm_alive mm \<or> length (fl_rows out) > 0
       then Some \<lparr>fm_ExporterID = ex, fm_Bucket = time_Unix m 0, fm_Datagrams = mm_dgrams mm,
                  fm_Records = mm_records mm, fm_Bytes = mm_bytes mm, fm_Sampling = max (mm_sampling mm) 1,
                  fm_Overflow = mm_overflow mm, fm_Late = mm_late mm\<rparr> else None)"
    using assms(3,7) by (auto simp: flush_def Let_def)
  note s = byt_rows.rows_sum [OF ok(1) assms(4)] pkt_rows.rows_sum [OF ok(1) assms(5)] flo_rows.rows_sum [OF ok(1) assms(6)]
  show ?thesis using s ok(2) a' flush_rows_length [OF ok(1)] by (simp add: meta rows bytes_exact_def)
qed

definition demo_agg :: aggregator where
  "demo_agg = [(600, demo_minute [(demo_key, demo_val 50), (demo_key2, demo_val 70)])]"

theorem flush_totals_witness:
  "sum_list (map fr_Bytes (fl_rows (fst (flush 1 600 1 10 demo_agg)))) = 120"
proof -
  let ?mm = "demo_minute [(demo_key, demo_val 50), (demo_key2, demo_val 70)]"
  have d: "demo_key \<noteq> demo_key2" by (simp add: demo_key2_def demo_key_def)
  have "agg_ok demo_agg" using d
    by (simp add: agg_ok_def gm_all_def gm_wf_def gm_len_def mm_ok_def vals_ok_def val_ok_def demo_agg_def demo_minute_def
        demo_val_def newMinuteAgg_def maxKeysPerMinute_def)
  moreover have "gm_all bytes_exact demo_agg"
    by (simp add: gm_all_def bytes_exact_def minute_sum_def demo_agg_def demo_minute_def demo_val_def newMinuteAgg_def)
  moreover have "gm_get demo_agg 600 = Some ?mm" by (simp add: demo_agg_def gm_get_def)
  moreover have "minute_sum av_bytes ?mm = 120" "minute_sum av_packets ?mm = 2" "minute_sum av_flows ?mm = 2"
    by (simp_all add: minute_sum_def demo_minute_def demo_val_def newMinuteAgg_def)
  ultimately show ?thesis
    using flush_totals [of demo_agg 600 ?mm 1 1 10 "fst (flush 1 600 1 10 demo_agg)" "snd (flush 1 600 1 10 demo_agg)"]
    by (simp add: maxInt64_def)
qed

subsection \<open>The other operations\<close>

lemma agg_ok_markAlive: "agg_ok a \<Longrightarrow> agg_ok (markAlive now nextFlush a)"
proof -
  have "agg_ok a \<Longrightarrow> agg_ok (fold (\<lambda>m. upd_minute m (\<lambda>mm. mm\<lparr>mm_alive := True\<rparr>)) ms a)" for ms
    by (induction ms arbitrary: a) (simp_all add: agg_ok_upd mm_ok_minute)
  then show "agg_ok a \<Longrightarrow> agg_ok (markAlive now nextFlush a)"
    by (auto simp: markAlive_def Let_def agg_ok_upd mm_ok_minute split: prod.splits)
qed

lemma agg_ok_flush: "agg_ok a \<Longrightarrow> agg_ok (snd (flush ex m topN maxRows a))"
  by (auto simp: agg_ok_def flush_def Let_def gm_all_del split: option.splits)

end
