(* ===== verification/Svcport.thy ===== *)
theory Svcport
  imports NMS_Prelude
begin

text \<open>
  Package \<open>flow/svcport\<close> (\<open>svcport/svcport.go\<close>): which port of a flow is its service and how a
  (protocol, port) is labelled. \<open>strconv.Itoa\<close> is the decimal printer below.
\<close>

subsection \<open>Decimal numbers\<close>

definition digit_char :: "nat \<Rightarrow> char" where
  "digit_char d = char_of (48 + d)"

fun nat_string :: "nat \<Rightarrow> string" where
  "nat_string n = (if n < 10 then [digit_char n] else nat_string (n div 10) @ [digit_char (n mod 10)])"

declare nat_string.simps [simp del]

definition itoa :: "int \<Rightarrow> string" where
  "itoa n = (if n < 0 then ''-'' @ nat_string (nat (- n)) else nat_string (nat n))"

definition dec_value :: "string \<Rightarrow> nat" where
  "dec_value s = foldl (\<lambda>n c. 10 * n + (of_char c - 48)) 0 s"

lemma of_char_digit: "d < 10 \<Longrightarrow> of_char (digit_char d) - 48 = (d :: nat)"
  by (simp add: digit_char_def)

text \<open>Printing loses nothing: the digits read back to the number.\<close>

lemma dec_value_nat_string [simp]: "dec_value (nat_string n) = n"
proof (induction n rule: nat_string.induct)
  case (1 n)
  then show ?case
    by (subst nat_string.simps) (auto simp: dec_value_def of_char_digit)
qed

lemma nat_string_inj: "nat_string m = nat_string n \<Longrightarrow> m = n"
  by (metis dec_value_nat_string)

subsection \<open>The tables\<close>

definition Names :: "(u16 \<times> string) list" where
  "Names =
    [(20, ''FTP-data''), (21, ''FTP''), (22, ''SSH''), (23, ''Telnet''), (25, ''SMTP''), (53, ''DNS''),
     (67, ''DHCP''), (68, ''DHCP''), (80, ''HTTP''), (110, ''POP3''), (123, ''NTP''), (143, ''IMAP''),
     (161, ''SNMP''), (162, ''SNMP trap''), (389, ''LDAP''), (443, ''HTTPS''), (445, ''SMB''),
     (465, ''SMTPS''), (514, ''Syslog''), (587, ''SMTP submission''), (636, ''LDAPS''),
     (853, ''DNS over TLS''), (993, ''IMAPS''), (995, ''POP3S''), (1194, ''OpenVPN''), (1883, ''MQTT''),
     (2055, ''NetFlow''), (3389, ''RDP''), (4739, ''IPFIX''), (5060, ''SIP''), (5061, ''SIP-TLS''),
     (5246, ''CAPWAP''), (5247, ''CAPWAP data''), (5353, ''mDNS''), (6343, ''sFlow''),
     (8080, ''HTTP-alt''), (8291, ''WinBox''), (8443, ''HTTPS-alt''), (8728, ''RouterOS API''),
     (8729, ''RouterOS API-SSL''), (51820, ''WireGuard'')]"

definition protoNames :: "(u8 \<times> string) list" where
  "protoNames =
    [(1, ''icmp''), (6, ''tcp''), (17, ''udp''), (47, ''gre''), (50, ''esp''), (51, ''ah''),
     (58, ''icmpv6''), (89, ''ospf''), (112, ''vrrp''), (132, ''sctp'')]"

definition known_port :: "u16 \<Rightarrow> bool" where
  "known_port p = (map_of Names p \<noteq> None)"

subsection \<open>Operations\<close>

definition hasPorts :: "u8 \<Rightarrow> bool" where
  "hasPorts proto \<longleftrightarrow> proto = 6 \<or> proto = 17 \<or> proto = 132"

definition Select :: "u8 \<Rightarrow> u16 \<Rightarrow> u16 \<Rightarrow> u16" where
  "Select proto sport dport =
    (if \<not> hasPorts proto then 0
     else let sk = known_port sport; dk = known_port dport
       in if sk \<and> \<not> dk then sport
          else if dk \<and> \<not> sk then dport
          else if sk \<and> dk then min sport dport
          else if sport = 0 then dport
          else if dport = 0 then sport
          else min sport dport)"

definition Label :: "u8 \<Rightarrow> u16 \<Rightarrow> string \<times> string" where
  "Label proto port =
    (let protoName = (case map_of protoNames proto of Some n \<Rightarrow> n | None \<Rightarrow> ''ip-'' @ itoa (uint proto))
     in if port = 0 \<or> \<not> hasPorts proto then ('''', protoName)
        else if proto = 17 \<and> port = 443 then (''QUIC'', protoName)
        else if proto = 17 \<and> port = 853 then (''DNS over QUIC'', protoName)
        else (case map_of Names port of Some n \<Rightarrow> (n, protoName) | None \<Rightarrow> ('''', protoName)))"

subsection \<open>What they guarantee\<close>

lemma known_port_not_0 [simp]: "\<not> known_port 0"
  by (simp add: known_port_def Names_def)

text \<open>
  The two directions of a conversation get the same service port. \<open>Select\<close> does not depend on
  which port is the source: it is one of the two, 0 only when the protocol has no ports or both
  are 0; a well-known port wins over an unknown one, and between two ports of the same standing
  the lower non-zero one is taken.
\<close>

theorem Select_direction_free:
  "Select proto sport dport = Select proto dport sport
   \<and> Select proto sport dport =
      (if \<not> hasPorts proto then 0
       else let c = filter (\<lambda>p. p \<noteq> 0) [sport, dport]; k = filter known_port c
         in if k \<noteq> [] then Min (set k) else if c \<noteq> [] then Min (set c) else 0)"
proof -
  have k: "known_port p \<Longrightarrow> p \<noteq> 0" for p by (rule notI) simp
  show ?thesis
    using k [of sport] k [of dport]
    by (cases "known_port sport"; cases "known_port dport"; cases "sport = 0"; cases "dport = 0")
      (simp_all add: Select_def min.commute)
qed

lemma Label_proto: "snd (Label p port) = (case map_of protoNames p of Some n \<Rightarrow> n | None \<Rightarrow> ''ip-'' @ itoa (uint p))"
  by (auto simp: Label_def Let_def split: option.splits)

text \<open>The printed protocol determines nothing more than its inputs: unknown protocols keep their number.\<close>

lemma Label_unknown_proto:
  assumes "map_of protoNames p = None" and "map_of protoNames q = None" and "snd (Label p port) = snd (Label q port')"
  shows "p = q"
proof -
  have "nat_string (nat (uint p)) = nat_string (nat (uint q))" using assms by (simp add: Label_proto itoa_def)
  then have "unat p = unat q" using nat_string_inj by fastforce
  then show ?thesis by (rule unsigned_word_eqI)
qed

text \<open>
  A protocol name identifies its protocol: no two protocol numbers render the same, whether they
  are in the table or printed as \<open>ip-n\<close>.
\<close>

theorem Label_proto_injective:
  assumes "snd (Label p port) = snd (Label q port')" shows "p = q"
proof -
  have known: "map_of protoNames p = Some n \<Longrightarrow> take 3 n \<noteq> ''ip-''" for p n
    by (auto simp: protoNames_def split: if_splits)
  have same: "map_of protoNames p = Some n \<Longrightarrow> map_of protoNames q = Some n \<Longrightarrow> p = q" for n
    by (auto simp: protoNames_def split: if_splits)
  show ?thesis
  proof (cases "map_of protoNames p")
    case p: None
    show ?thesis
    proof (cases "map_of protoNames q")
      case None
      with p assms show ?thesis by (intro Label_unknown_proto)
    next
      case (Some n)
      with p assms known [OF Some] show ?thesis by (auto simp: Label_proto)
    qed
  next
    case p: (Some n)
    show ?thesis
    proof (cases "map_of protoNames q")
      case None
      then show ?thesis using p assms known [OF p] by (auto simp: Label_proto)
    next
      case (Some n')
      with p assms same [of n] show ?thesis by (auto simp: Label_proto)
    qed
  qed
qed

theorem Label_proto_injective_witness: "snd (Label 6 80) = ''tcp'' \<and> (6 :: u8) = 6"
  using Label_proto_injective [of 6 80 6 443] by (simp add: Label_def protoNames_def hasPorts_def Names_def)

end
