(* ===== verification/Netip.thy ===== *)
theory Netip
  imports Flow_Types Svcport
begin

text \<open>
  What the program uses of package \<open>net/netip\<close> beyond \<open>Flow_Types\<close>: classification, prefixes and
  the textual form of addresses and prefixes.
\<close>

fun Is4 :: "addr \<Rightarrow> bool" where
  "Is4 (Addr4 _) = True"
| "Is4 _ = False"

fun Is6 :: "addr \<Rightarrow> bool" where
  "Is6 (Addr6 _) = True"
| "Is6 _ = False"

fun Is4In6 :: "addr \<Rightarrow> bool" where
  "Is4In6 (Addr6 b) = (take 12 b = v4_mapped_prefix)"
| "Is4In6 _ = False"

fun BitLen :: "addr \<Rightarrow> nat" where
  "BitLen NoAddr = 0"
| "BitLen (Addr4 _) = 32"
| "BitLen (Addr6 _) = 128"

text \<open>
  The predicates treat an IPv4-mapped IPv6 address as the IPv4 address
  (\<open>if ip.Is4In6() { ip = ip.Unmap() }\<close>).
\<close>

definition IsLoopback :: "addr \<Rightarrow> bool" where
  "IsLoopback a = (case Unmap a of NoAddr \<Rightarrow> False | Addr4 b \<Rightarrow> b ! 0 = 127 | Addr6 b \<Rightarrow> b = replicate 15 0 @ [1])"

definition IsMulticast :: "addr \<Rightarrow> bool" where
  "IsMulticast a = (case Unmap a of NoAddr \<Rightarrow> False | Addr4 b \<Rightarrow> (b ! 0) AND 240 = 224 | Addr6 b \<Rightarrow> b ! 0 = 255)"

definition IsLinkLocalUnicast :: "addr \<Rightarrow> bool" where
  "IsLinkLocalUnicast a = (case Unmap a of NoAddr \<Rightarrow> False
     | Addr4 b \<Rightarrow> b ! 0 = 169 \<and> b ! 1 = 254
     | Addr6 b \<Rightarrow> b ! 0 = 254 \<and> (b ! 1) AND 192 = 128)"

subsection \<open>Prefixes\<close>

record prefix =
  p_addr :: addr
  p_bits :: nat

text \<open>Byte \<open>i\<close> under a mask of \<open>n\<close> leading one bits.\<close>

definition mask_byte :: "nat \<Rightarrow> nat \<Rightarrow> byte \<Rightarrow> byte" where
  "mask_byte n i x = (if 8 * (i + 1) \<le> n then x else if n \<le> 8 * i then 0 else x AND NOT (mask (8 - (n - 8 * i))))"

definition mask_bytes :: "nat \<Rightarrow> bytes \<Rightarrow> bytes" where
  "mask_bytes n b = map (\<lambda>(i, x). mask_byte n i x) (enumerate 0 b)"

fun mask_addr :: "nat \<Rightarrow> addr \<Rightarrow> addr" where
  "mask_addr n NoAddr = NoAddr"
| "mask_addr n (Addr4 b) = Addr4 (mask_bytes n b)"
| "mask_addr n (Addr6 b) = Addr6 (mask_bytes n b)"

text \<open>\<open>a.Prefix(bits)\<close>: an error (\<open>None\<close>) when there are more bits than the address has.\<close>

definition addr_Prefix :: "addr \<Rightarrow> nat \<Rightarrow> prefix option" where
  "addr_Prefix a n = (if a = NoAddr then Some \<lparr>p_addr = NoAddr, p_bits = 0\<rparr>
     else if n \<le> BitLen a then Some \<lparr>p_addr = mask_addr n a, p_bits = n\<rparr> else None)"

definition prefix_Masked :: "prefix \<Rightarrow> prefix" where
  "prefix_Masked p = p\<lparr>p_addr := mask_addr (p_bits p) (p_addr p)\<rparr>"

definition prefix_Contains :: "prefix \<Rightarrow> addr \<Rightarrow> bool" where
  "prefix_Contains p a = (case (p_addr p, a) of
     (Addr4 b, Addr4 c) \<Rightarrow> mask_bytes (p_bits p) b = mask_bytes (p_bits p) c
   | (Addr6 b, Addr6 c) \<Rightarrow> mask_bytes (p_bits p) b = mask_bytes (p_bits p) c
   | _ \<Rightarrow> False)"

subsection \<open>Text\<close>

definition hex_char :: "nat \<Rightarrow> char" where
  "hex_char d = (if d < 10 then char_of (48 + d) else char_of (87 + d))"

fun hex_string :: "nat \<Rightarrow> string" where
  "hex_string n = (if n < 16 then [hex_char n] else hex_string (n div 16) @ [hex_char (n mod 16)])"

declare hex_string.simps [simp del]

fun join :: "string \<Rightarrow> string list \<Rightarrow> string" where
  "join sep [] = ''''"
| "join sep [s] = s"
| "join sep (s # t # ss) = s @ sep @ join sep (t # ss)"

definition string4 :: "bytes \<Rightarrow> string" where
  "string4 b = join ''.'' (map (\<lambda>x. nat_string (unat x)) b)"

definition groups6 :: "bytes \<Rightarrow> nat list" where
  "groups6 b = map (\<lambda>i. unat (u16_at b (2 * i))) [0..<8]"

text \<open>
  The longest run of at least two zero groups, the first of equal length: \<open>(start, end)\<close>,
  \<open>(255, 255)\<close> when there is none.
\<close>

definition zero_run :: "nat list \<Rightarrow> nat \<times> nat" where
  "zero_run g = fold (\<lambda>i (zs, ze). let l = length (takeWhile (\<lambda>x. x = 0) (drop i g))
     in if l \<ge> 2 \<and> l > ze - zs then (i, i + l) else (zs, ze)) [0..<8] (255, 255)"

definition string6 :: "bytes \<Rightarrow> string" where
  "string6 b =
    (let g = groups6 b; (zs, ze) = zero_run g
     in if zs = 255 then join '':'' (map hex_string g)
        else join '':'' (map hex_string (take zs g)) @ ''::'' @ join '':'' (map hex_string (drop ze g)))"

fun addr_String :: "addr \<Rightarrow> string" where
  "addr_String NoAddr = ''invalid IP''"
| "addr_String (Addr4 b) = string4 b"
| "addr_String (Addr6 b) = (if take 12 b = v4_mapped_prefix then ''::ffff:'' @ string4 (drop 12 b) else string6 b)"

definition prefix_String :: "prefix \<Rightarrow> string" where
  "prefix_String p = (if p_addr p = NoAddr then ''invalid Prefix'' else addr_String (p_addr p) @ ''/'' @ nat_string (p_bits p))"

lemma length_mask_bytes [simp]: "length (mask_bytes n b) = length b"
  by (simp add: mask_bytes_def)

lemma mask_byte_idem: "mask_byte n i (mask_byte n i x) = mask_byte n i x"
  by (simp add: mask_byte_def and.assoc)

lemma mask_bytes_nth: "i < length b \<Longrightarrow> mask_bytes n b ! i = mask_byte n i (b ! i)"
  by (simp add: mask_bytes_def nth_enumerate_eq)

lemma mask_bytes_idem [simp]: "mask_bytes n (mask_bytes n b) = mask_bytes n b"
  by (rule nth_equalityI) (simp_all add: mask_bytes_nth mask_byte_idem)

lemma mask_addr_idem [simp]: "mask_addr n (mask_addr n a) = mask_addr n a"
  by (cases a) simp_all

lemma mask_addr_wf: "addr_wf a \<Longrightarrow> addr_wf (mask_addr n a)"
  by (cases a) simp_all

text \<open>A prefix formed from an address contains it.\<close>

lemma addr_Prefix_contains: "addr_Prefix a n = Some p \<Longrightarrow> IsValid a \<Longrightarrow> prefix_Contains p a"
  by (cases a) (auto simp: addr_Prefix_def prefix_Contains_def split: if_splits)

end
