(* ===== verification/Normalize.thy ===== *)
theory Normalize
  imports Netip Aggregate
begin

text \<open>
  Normalisation of a decoded flow (\<open>flow/normalize.go\<close>): the self-export drop, the duplicate filter
  for OPNsense exporters with its FNV-64a hash, the NAT inside view, the service port, and the tracker
  of source prefixes that names interfaces of exporters without a device.

  \<open>dup_refines\<close> shows that the ring and the map of the duplicate filter implement a plain log of the
  last 32768 recordings.
\<close>

subsection \<open>The hash of a flow\<close>

definition put_be64 :: "u64 \<Rightarrow> bytes" where
  "put_be64 v = map (\<lambda>i. ucast (drop_bit (56 - 8 * i) v)) [0..<8]"

text \<open>\<open>fnv.New64a\<close>: offset basis, then for every byte xor and multiply.\<close>

definition fnv64a :: "bytes \<Rightarrow> u64" where
  "fnv64a b = foldl (\<lambda>h x. (h XOR ucast x) * 1099511628211) 14695981039346656037 b"

text \<open>What \<open>dupHash\<close> writes into the hash, in order.\<close>

definition dup_input :: "flow \<Rightarrow> bytes" where
  "dup_input f =
    (let (start, en) = (if f_RawStart f \<noteq> 0 \<or> f_RawEnd f \<noteq> 0 then (f_RawStart f, f_RawEnd f)
                        else (word_of_int (unix_milli (f_Start f)), word_of_int (unix_milli (f_End f))))
     in As16 (f_SrcAddr f) @ As16 (f_DstAddr f)
        @ put_be16 (f_SrcPort f) @ put_be16 (f_DstPort f) @ [f_Proto f]
        @ put_be32 (f_InIf f) @ put_be32 (f_OutIf f)
        @ concat (map put_be64 [start, en, f_RawBytes f, f_RawPackets f]))"

definition dupHash :: "flow \<Rightarrow> u64" where
  "dupHash f = fnv64a (dup_input f)"

subsection \<open>The duplicate filter\<close>

definition dupFilterCap :: nat where "dupFilterCap = 32768"
definition dupFilterTTL_ms :: int where "dupFilterTTL_ms = 180000"

record dupEntry =
  de_at :: int
  de_idx :: nat

record dupFilter =
  d_seenAt :: "(u64, dupEntry) gomap"
  d_ring :: "u64 list"
  d_pos :: nat
  d_full :: bool

definition newDupFilter :: dupFilter where
  "newDupFilter = \<lparr>d_seenAt = [], d_ring = replicate dupFilterCap 0, d_pos = 0, d_full = False\<rparr>"

definition dup_fresh :: "u64 \<Rightarrow> int \<Rightarrow> dupFilter \<Rightarrow> bool" where
  "dup_fresh h ms d = (case gm_get (d_seenAt d) h of Some e \<Rightarrow> ms - de_at e < dupFilterTTL_ms | None \<Rightarrow> False)"

definition dup_evict :: "dupFilter \<Rightarrow> dupFilter" where
  "dup_evict d =
    (if d_full d then
       (let old = d_ring d ! d_pos d
        in case gm_get (d_seenAt d) old of
             Some e \<Rightarrow> if de_idx e = d_pos d then d\<lparr>d_seenAt := gm_del old (d_seenAt d)\<rparr> else d
           | None \<Rightarrow> d)
     else d)"

definition dup_record :: "u64 \<Rightarrow> int \<Rightarrow> dupFilter \<Rightarrow> dupFilter" where
  "dup_record h ms d =
    (let d = d\<lparr>d_ring := (d_ring d)[d_pos d := h],
               d_seenAt := gm_put h \<lparr>de_at = ms, de_idx = d_pos d\<rparr> (d_seenAt d),
               d_pos := d_pos d + 1\<rparr>
     in if d_pos d = length (d_ring d) then d\<lparr>d_pos := 0, d_full := True\<rparr> else d)"

definition seen :: "u64 \<Rightarrow> time \<Rightarrow> dupFilter \<Rightarrow> bool \<times> dupFilter" where
  "seen h now d =
    (let ms = unix_milli now
     in if dup_fresh h ms d then (True, d) else (False, dup_record h ms (dup_evict d)))"

subsection \<open>Normalising a flow\<close>

record normCounters =
  nc_selfExport :: int
  nc_dup :: int
  nc_natDst :: int

definition clampInt64 :: "u64 \<Rightarrow> int" where
  "clampInt64 v = (if uint v > maxFlowValue then maxFlowValue else uint v)"

text \<open>Step 3: the inside view of a translated destination.\<close>

definition nat_inside :: "flow \<Rightarrow> bool" where
  "nat_inside f \<longleftrightarrow> IsValid (f_PostNATDst f) \<and> \<not> IsUnspecified (f_PostNATDst f) \<and> f_PostNATDst f \<noteq> f_DstAddr f"

definition nat_dst :: "flow \<Rightarrow> addr \<times> u16" where
  "nat_dst f =
    (if nat_inside f then (f_PostNATDst f, if f_PostNATDstPort f \<noteq> 0 then f_PostNATDstPort f else f_DstPort f)
     else (f_DstAddr f, f_DstPort f))"

text \<open>Steps 3 and 4 and the record.\<close>

definition norm_flow :: "flow \<Rightarrow> normFlow" where
  "norm_flow f =
    (let (dst, dport) = nat_dst f;
         port = Select (f_Proto f) (f_SrcPort f) dport;
         nf = \<lparr>nf_key = \<lparr>ak_inIf = f_InIf f, ak_outIf = f_OutIf f, ak_proto = f_Proto f, ak_port = port,
                         ak_src = replicate 16 0, ak_dst = replicate 16 0\<rparr>,
               nf_endpoints = False, nf_bytes = clampInt64 (f_Bytes f), nf_packets = clampInt64 (f_Packets f),
               nf_sampling = uint (max (f_SamplingRate f) 1), nf_start = f_Start f, nf_end = f_End f\<rparr>;
         src = Unmap (f_SrcAddr f);
         dst = Unmap dst
     in if IsValid src \<and> IsValid dst
        then nf\<lparr>nf_endpoints := True, nf_key := (nf_key nf)\<lparr>ak_src := As16 src, ak_dst := As16 dst\<rparr>\<rparr>
        else nf\<lparr>nf_key := (nf_key nf)\<lparr>ak_proto := 0, ak_port := 0\<rparr>\<rparr>)"

text \<open>
  \<open>normalize\<close>: \<open>st.addr\<close>, the configured listen ports and \<open>st.dup\<close> are arguments; the result is the
  flow (\<open>None\<close>: dropped), the filter and the counters.
\<close>

definition normalize :: "addr \<Rightarrow> (u16, bool) gomap \<Rightarrow> dupFilter option \<Rightarrow> flow \<Rightarrow> time \<Rightarrow> normCounters \<Rightarrow>
    normFlow option \<times> dupFilter option \<times> normCounters" where
  "normalize st_addr listenPorts dup f now n =
    (if f_Proto f = 17 \<and> f_SrcAddr f = st_addr \<and> gm_get listenPorts (f_DstPort f) = Some True
     then (None, dup, n\<lparr>nc_selfExport := nc_selfExport n + 1\<rparr>)
     else let (is_dup, dup) = (case dup of None \<Rightarrow> (False, None)
                               | Some d \<Rightarrow> (case seen (dupHash f) now d of (s, d) \<Rightarrow> (s, Some d)))
       in if is_dup then (None, dup, n\<lparr>nc_dup := nc_dup n + 1\<rparr>)
          else (Some (norm_flow f), dup, if nat_inside f then n\<lparr>nc_natDst := nc_natDst n + 1\<rparr> else n))"

subsection \<open>Source-prefix hints\<close>

definition hintPrefixCap :: nat where "hintPrefixCap = 64"
definition hintIfaceCap :: nat where "hintIfaceCap = 256"
definition hintTopK :: nat where "hintTopK = 3"
definition hintGenerationLn :: duration where "hintGenerationLn = hours 1"

type_synonym hint_gen = "(u32, (prefix, int) gomap) gomap"

record hintTracker =
  h_cur :: hint_gen
  h_prev :: hint_gen
  h_genStart :: time

definition newHintTracker :: "time \<Rightarrow> hintTracker" where
  "newHintTracker now = \<lparr>h_cur = [], h_prev = [], h_genStart = now\<rparr>"

definition hintPrefix :: "addr \<Rightarrow> prefix option" where
  "hintPrefix a =
    (let a = Unmap a
     in if \<not> IsValid a \<or> IsUnspecified a \<or> IsMulticast a \<or> IsLoopback a \<or> IsLinkLocalUnicast a then None
        else addr_Prefix a (if Is6 a then 64 else 24))"

definition hint_rotate :: "time \<Rightarrow> hintTracker \<Rightarrow> hintTracker" where
  "hint_rotate now h =
    (if t_sub now (h_genStart h) \<ge> hintGenerationLn then h\<lparr>h_prev := h_cur h, h_cur := [], h_genStart := now\<rparr> else h)"

definition hint_put :: "u32 \<Rightarrow> prefix \<Rightarrow> int \<Rightarrow> hintTracker \<Rightarrow> hintTracker" where
  "hint_put inIf p b h =
    (case gm_get (h_cur h) inIf of
       None \<Rightarrow> if gm_len (h_cur h) \<ge> hintIfaceCap then h
               else h\<lparr>h_cur := gm_put inIf (gm_put p (satAdd 0 b) []) (h_cur h)\<rparr>
     | Some m \<Rightarrow>
         if \<not> gm_has m p \<and> gm_len m \<ge> hintPrefixCap then h
         else h\<lparr>h_cur := gm_put inIf (gm_put p (satAdd (case gm_get m p of Some v \<Rightarrow> v | None \<Rightarrow> 0) b) m) (h_cur h)\<rparr>)"

definition hint_add :: "u32 \<Rightarrow> addr \<Rightarrow> int \<Rightarrow> time \<Rightarrow> hintTracker \<Rightarrow> hintTracker" where
  "hint_add inIf src b now h =
    (if inIf = 0 \<or> b \<le> 0 then h
     else let h = hint_rotate now h
       in case hintPrefix src of None \<Rightarrow> h | Some p \<Rightarrow> hint_put inIf p b h)"

definition gen_of :: "u32 \<Rightarrow> hint_gen \<Rightarrow> (prefix, int) gomap" where
  "gen_of inIf g = (case gm_get g inIf of Some m \<Rightarrow> m | None \<Rightarrow> [])"

definition hint_sums :: "u32 \<Rightarrow> hintTracker \<Rightarrow> (prefix, int) gomap" where
  "hint_sums inIf h =
    fold (\<lambda>(p, b) s. gm_put p (satAdd (case gm_get s p of Some v \<Rightarrow> v | None \<Rightarrow> 0) b) s)
      (gen_of inIf (h_prev h) @ gen_of inIf (h_cur h)) []"

text \<open>\<open>cmp.Compare\<close> on strings: byte-wise, a proper prefix first.\<close>

fun string_Compare :: "string \<Rightarrow> string \<Rightarrow> int" where
  "string_Compare [] [] = 0"
| "string_Compare [] (y # ys) = - 1"
| "string_Compare (x # xs) [] = 1"
| "string_Compare (x # xs) (y # ys) = (let a = (of_char x :: nat); b = of_char y in if a < b then - 1 else if b < a then 1 else string_Compare xs ys)"

definition compare_hints :: "prefix \<times> int \<Rightarrow> prefix \<times> int \<Rightarrow> int" where
  "compare_hints x y = (let c = go_compare (snd y) (snd x) in if c \<noteq> 0 then c
     else string_Compare (prefix_String (fst x)) (prefix_String (fst y)))"

definition hint :: "u32 \<Rightarrow> hintTracker \<Rightarrow> string" where
  "hint inIf h =
    (let s = hint_sums inIf h
     in if gm_len s = 0 then ''''
        else join '','' (map (\<lambda>p. prefix_String (fst p)) (take hintTopK (sort_cmp compare_hints s))))"

definition hint_ifaces :: "hintTracker \<Rightarrow> u32 list" where
  "hint_ifaces h = sort (remdups (map fst (h_prev h) @ map fst (h_cur h)))"

subsection \<open>The duplicate filter implements a bounded log\<close>

text \<open>
  The abstract filter: the recordings \<open>(hash, ms)\<close>, newest first, cut at \<open>dupFilterCap\<close>; a hash is a
  duplicate when its latest recording is younger than the TTL.
\<close>

type_synonym dup_log = "(u64 \<times> int) list"

definition log_seen :: "u64 \<Rightarrow> int \<Rightarrow> dup_log \<Rightarrow> bool \<times> dup_log" where
  "log_seen h ms l =
    (if (case map_of l h of Some t \<Rightarrow> ms - t < dupFilterTTL_ms | None \<Rightarrow> False) then (True, l)
     else (False, (h, ms) # take (dupFilterCap - 1) l))"

text \<open>
  The abstraction: \<open>g\<close> lists the recordings still in the ring, newest first, with the ring slot each one
  has; the map holds for every hash its newest recording.
\<close>

definition dup_entries :: "dupFilter \<Rightarrow> (u64 \<times> dupEntry) list \<Rightarrow> bool" where
  "dup_entries d g \<longleftrightarrow> length (d_ring d) = dupFilterCap \<and> d_pos d < dupFilterCap \<and>
     length g = (if d_full d then dupFilterCap else d_pos d) \<and>
     (\<forall>i < length g. de_idx (snd (g ! i)) = (d_pos d + dupFilterCap - 1 - i) mod dupFilterCap \<and>
                     d_ring d ! de_idx (snd (g ! i)) = fst (g ! i)) \<and>
     gm_wf (d_seenAt d) \<and> (\<forall>h. gm_get (d_seenAt d) h = map_of g h)"

definition log_of :: "(u64 \<times> dupEntry) list \<Rightarrow> dup_log" where
  "log_of g = map (\<lambda>(h, e). (h, de_at e)) g"

definition dup_abs :: "dupFilter \<Rightarrow> dup_log \<Rightarrow> bool" where
  "dup_abs d l \<longleftrightarrow> (\<exists>g. dup_entries d g \<and> l = log_of g)"

lemma map_of_log_of: "map_of (log_of g) h = map_option de_at (map_of g h)"
  by (induction g) (auto simp: log_of_def)

lemma cap_pos: "0 < dupFilterCap"
  by (simp add: dupFilterCap_def)

lemma slot_inj:
  assumes "i < c" and "j < c" and "p < c" and "(p + c - 1 - i) mod c = (p + c - 1 - j) mod (c :: nat)"
  shows "i = j"
proof -
  have slot: "(p + c - 1 - k) mod c = (if k < p then p - 1 - k else p + c - 1 - k)" if "k < c" for k
  proof (cases "k < p")
    case True
    then have "p + c - 1 - k = (p - 1 - k) + c" by simp
    then have "(p + c - 1 - k) mod c = (p - 1 - k) mod c" by (metis mod_add_self2)
    then show ?thesis using True assms(3) by simp
  qed (use that assms(3) in simp)
  show ?thesis using assms slot [of i] slot [of j] by (auto split: if_splits)
qed

lemma dup_evict_entries:
  assumes e: "dup_entries d g"
  shows "gm_wf (d_seenAt (dup_evict d)) \<and> (\<forall>h. gm_get (d_seenAt (dup_evict d)) h = map_of (take (dupFilterCap - 1) g) h)
    \<and> d_ring (dup_evict d) = d_ring d \<and> d_pos (dup_evict d) = d_pos d \<and> d_full (dup_evict d) = d_full d"
proof (cases "d_full d")
  case False
  then have "take (dupFilterCap - 1) g = g" using e by (auto simp: dup_entries_def)
  then show ?thesis using False e by (simp add: dup_evict_def dup_entries_def)
next
  case True
  have len: "length g = dupFilterCap" and pos: "d_pos d < dupFilterCap" using e True by (simp_all add: dup_entries_def)
  have slots: "de_idx (snd (g ! i)) = (d_pos d + dupFilterCap - 1 - i) mod dupFilterCap" "d_ring d ! de_idx (snd (g ! i)) = fst (g ! i)"
    if "i < dupFilterCap" for i using e that unfolding dup_entries_def len by blast+
  have get: "gm_get (d_seenAt d) h = map_of g h" for h using e by (simp add: dup_entries_def)
  let ?n = "dupFilterCap - 1"
  obtain old en where last: "g ! ?n = (old, en)" by force
  have n: "?n < dupFilterCap" using cap_pos by simp
  have idx: "de_idx en = d_pos d" and ring: "d_ring d ! d_pos d = old"
    using slots [OF n] last pos cap_pos by simp_all
  have g: "g = take ?n g @ [(old, en)]"
    using len last n take_Suc_conv_app_nth [of ?n g] by simp
  let ?xs = "take ?n g"
  have G: "map_of g k = (case map_of ?xs k of Some x \<Rightarrow> Some x | None \<Rightarrow> if k = old then Some en else None)" for k
    by (subst g) (simp add: map_add_def split: option.splits)
  show ?thesis
  proof (cases "map_of ?xs old")
    case None
    then have "dup_evict d = d\<lparr>d_seenAt := gm_del old (d_seenAt d)\<rparr>"
      using True idx by (simp add: dup_evict_def ring get G)
    then show ?thesis using None e by (auto simp: get G dup_entries_def split: option.splits)
  next
    case (Some x)
    from Some have "(old, x) \<in> set ?xs" by (rule map_of_SomeD)
    then obtain i where i: "i < ?n" "g ! i = (old, x)" by (auto simp: in_set_conv_nth)
    have "de_idx x \<noteq> d_pos d"
    proof
      assume "de_idx x = d_pos d"
      then have "(d_pos d + dupFilterCap - 1 - i) mod dupFilterCap = (d_pos d + dupFilterCap - 1 - ?n) mod dupFilterCap"
        using slots(1) [of i] i slots(1) [OF n] last idx by simp
      then show False using slot_inj [of i dupFilterCap ?n "d_pos d"] i(1) n pos by simp
    qed
    then have "dup_evict d = d" using True Some by (simp add: dup_evict_def ring get G)
    then show ?thesis using Some e by (auto simp: get G dup_entries_def split: option.splits)
  qed
qed

lemma dup_record_entries:
  assumes e: "dup_entries d g"
  shows "dup_entries (dup_record h ms (dup_evict d)) ((h, \<lparr>de_at = ms, de_idx = d_pos d\<rparr>) # take (dupFilterCap - 1) g)"
    (is "dup_entries ?d' (?new # ?xs)")
proof -
  let ?c = dupFilterCap
  have ev: "gm_wf (d_seenAt (dup_evict d))" "gm_get (d_seenAt (dup_evict d)) k = map_of ?xs k"
    "d_ring (dup_evict d) = d_ring d" "d_pos (dup_evict d) = d_pos d" "d_full (dup_evict d) = d_full d" for k
    using dup_evict_entries [OF e] by simp_all
  have ring: "length (d_ring d) = ?c" and pos: "d_pos d < ?c" and len: "length g = (if d_full d then ?c else d_pos d)"
    using e by (simp_all add: dup_entries_def)
  have slots: "de_idx (snd (g ! i)) = (d_pos d + ?c - 1 - i) mod ?c" "d_ring d ! de_idx (snd (g ! i)) = fst (g ! i)"
    if "i < length g" for i using e that unfolding dup_entries_def by blast+
  have seenAt: "d_seenAt ?d' = gm_put h \<lparr>de_at = ms, de_idx = d_pos d\<rparr> (d_seenAt (dup_evict d))"
    and ring': "d_ring ?d' = (d_ring d)[d_pos d := h]"
    and pos': "d_pos ?d' = (if d_pos d + 1 = ?c then 0 else d_pos d + 1)"
    and full': "d_full ?d' = (d_full d \<or> d_pos d + 1 = ?c)"
    by (simp_all add: dup_record_def Let_def ev ring)
  have posm: "d_pos ?d' = (d_pos d + 1) mod ?c" using pos by (simp add: pos')
  have bk: "(d_pos ?d' + ?c - 1 - j) mod ?c = (d_pos d + ?c - j) mod ?c" if "j < ?c" for j
  proof (cases "d_pos d + 1 = ?c")
    case True
    then have "d_pos d + ?c - j = (?c - 1 - j) + ?c" using that by simp
    then have "(d_pos d + ?c - j) mod ?c = (?c - 1 - j) mod ?c" by (metis mod_add_self2)
    then show ?thesis using True by (simp add: pos')
  qed (simp add: pos')
  have "length (?new # ?xs) = (if d_full ?d' then ?c else d_pos ?d')"
    using len pos by (auto simp: full' pos' min_def)
  moreover have "de_idx (snd ((?new # ?xs) ! i)) = (d_pos ?d' + ?c - 1 - i) mod ?c \<and>
      d_ring ?d' ! de_idx (snd ((?new # ?xs) ! i)) = fst ((?new # ?xs) ! i)" if i: "i < length (?new # ?xs)" for i
  proof (cases i)
    case 0
    then show ?thesis using bk [of 0] pos ring cap_pos by (simp add: ring')
  next
    case (Suc j)
    then have j: "j < length g" "j < ?c - 1" using i by simp_all
    have "d_pos d + ?c - Suc j = d_pos d + ?c - 1 - j" by simp
    moreover have "(d_pos d + ?c - 1 - j) mod ?c \<noteq> d_pos d"
      using slot_inj [of j ?c "?c - 1" "d_pos d"] j(2) pos by auto
    ultimately show ?thesis using Suc j slots [OF j(1)] bk [of i] by (simp add: ring')
  qed
  moreover have "length (d_ring ?d') = ?c" "d_pos ?d' < ?c" using ring cap_pos by (simp_all add: ring' posm)
  moreover have "gm_wf (d_seenAt ?d')" "gm_get (d_seenAt ?d') k = map_of (?new # ?xs) k" for k
    using ev(1) by (simp_all add: seenAt gm_wf_intros ev(2))
  ultimately show ?thesis unfolding dup_entries_def by blast
qed

lemma dup_entries_new: "dup_entries newDupFilter []"
  by (simp add: dup_entries_def newDupFilter_def cap_pos)

lemma dup_entries_len:
  assumes "dup_entries d g" shows "gm_len (d_seenAt d) \<le> dupFilterCap"
proof -
  have g: "length g \<le> dupFilterCap" "distinct (map fst (d_seenAt d))" "map_of (d_seenAt d) = map_of g"
    using assms by (auto simp: dup_entries_def gm_wf_def gm_get_def fun_eq_iff)
  have "gm_len (d_seenAt d) = card (fst ` set (d_seenAt d))"
    using g(2) distinct_card [of "map fst (d_seenAt d)"] by (simp add: gm_len_def)
  also have "\<dots> = card (fst ` set g)" using g(3) by (metis dom_map_of_conv_image_fst)
  also have "\<dots> \<le> length g" using card_length [of "map fst g"] by simp
  finally show ?thesis using g(1) by simp
qed

lemma seen_refines:
  assumes "dup_abs d l" and "seen h now d = (r, d')"
  shows "\<exists>l'. log_seen h (unix_milli now) l = (r, l') \<and> dup_abs d' l' \<and> gm_len (d_seenAt d') \<le> dupFilterCap"
proof -
  obtain g where g: "dup_entries d g" "l = log_of g" using assms(1) by (auto simp: dup_abs_def)
  have fresh: "dup_fresh h ms d = (case map_of l h of Some t \<Rightarrow> ms - t < dupFilterTTL_ms | None \<Rightarrow> False)" for ms
    using g by (auto simp: dup_fresh_def map_of_log_of dup_entries_def split: option.splits)
  show ?thesis
  proof (cases "dup_fresh h (unix_milli now) d")
    case True
    then have "r \<and> d' = d" using assms(2) by (simp add: seen_def Let_def)
    then show ?thesis using assms(1) True dup_entries_len [OF g(1)] by (auto simp: log_seen_def simp flip: fresh)
  next
    case False
    let ?g = "(h, \<lparr>de_at = unix_milli now, de_idx = d_pos d\<rparr>) # take (dupFilterCap - 1) g"
    from False have d': "\<not> r" "d' = dup_record h (unix_milli now) (dup_evict d)"
      using assms(2) by (auto simp: seen_def Let_def)
    have e: "dup_entries d' ?g" unfolding d' using g(1) by (rule dup_record_entries)
    have "log_of ?g = (h, unix_milli now) # take (dupFilterCap - 1) l" by (simp add: g(2) log_of_def take_map)
    then have "log_seen h (unix_milli now) l = (r, log_of ?g)"
      using False d'(1) by (simp add: log_seen_def flip: fresh)
    then show ?thesis using e dup_entries_len [OF e] by (auto simp: dup_abs_def)
  qed
qed

text \<open>
  C9: the duplicate filter, a ring of hashes and a map of their slots, implements the plain log of the
  last 32768 recordings: from a filter that represents a log, \<open>seen\<close> gives the answer of the log and
  the new filter represents the new log. A hash re-recorded after its TTL is not lost when its old ring
  slot is overwritten, and the map never holds more than 32768 hashes.
\<close>

theorem dup_refines:
  assumes "dup_abs d l" and "seen h now d = (r, d')"
  shows "\<exists>l'. log_seen h (unix_milli now) l = (r, l') \<and> dup_abs d' l' \<and> gm_len (d_seenAt d') \<le> dupFilterCap"
  using assms by (rule seen_refines)

theorem dup_refines_witness:
  "\<exists>l'. log_seen 7 5000 [] = (False, l') \<and> dup_abs (snd (seen 7 (millis 5000) newDupFilter)) l'
     \<and> gm_len (d_seenAt (snd (seen 7 (millis 5000) newDupFilter))) \<le> dupFilterCap"
proof -
  have "dup_abs newDupFilter []" unfolding dup_abs_def using dup_entries_new by (force simp: log_of_def)
  moreover have "seen 7 (millis 5000) newDupFilter = (False, snd (seen 7 (millis 5000) newDupFilter))"
    by (simp add: seen_def dup_fresh_def newDupFilter_def)
  ultimately show ?thesis using dup_refines [of newDupFilter "[]" 7 "millis 5000"] by (simp add: time_defs)
qed

subsection \<open>The hash input\<close>

lemma length_put_be64 [simp]: "length (put_be64 v) = 8"
  by (simp add: put_be64_def)

lemma put_be64_inj: assumes "put_be64 v = put_be64 w" shows "v = w"
proof (rule bit_word_eqI)
  fix n assume n: "n < LENGTH(64)"
  have lt: "7 - n div 8 < 8" and sh: "56 - 8 * (7 - n div 8) = 8 * (n div 8)" using n by simp_all
  have "put_be64 v ! (7 - n div 8) = put_be64 w ! (7 - n div 8)" using assms by simp
  then have "(ucast (drop_bit (8 * (n div 8)) v) :: byte) = ucast (drop_bit (8 * (n div 8)) w)"
    using lt by (simp add: put_be64_def sh del: upt_rec_numeral upt_conv_Cons)
  then have "bit (ucast (drop_bit (8 * (n div 8)) v) :: byte) (n mod 8) = bit (ucast (drop_bit (8 * (n div 8)) w) :: byte) (n mod 8)"
    by simp
  then show "bit v n = bit w n" by (simp add: bit_simps mult.commute)
qed

definition dup_times :: "flow \<Rightarrow> u64 \<times> u64" where
  "dup_times f = (if f_RawStart f \<noteq> 0 \<or> f_RawEnd f \<noteq> 0 then (f_RawStart f, f_RawEnd f)
     else (word_of_int (unix_milli (f_Start f)), word_of_int (unix_milli (f_End f))))"

lemma put_be16_inj: "put_be16 v = put_be16 w \<Longrightarrow> v = w"
  by (metis u16_at_put(2))

lemma put_be32_inj: "put_be32 v = put_be32 w \<Longrightarrow> v = w"
  by (metis u32_at_put(2))

text \<open>
  The bytes \<open>dupHash\<close> feeds to FNV-64a encode the flow's identity without ambiguity: two flows give
  the same input exactly when their addresses (in 16-byte form), ports, protocol, interfaces, times
  (raw uptimes when the record has them) and unscaled counters agree, so only a collision of the
  64-bit hash itself can drop a flow that is not a copy.
\<close>

theorem dup_input_unambiguous:
  assumes "flow_addrs_wf f" and "flow_addrs_wf g"
  shows "dup_input f = dup_input g \<longleftrightarrow>
    As16 (f_SrcAddr f) = As16 (f_SrcAddr g) \<and> As16 (f_DstAddr f) = As16 (f_DstAddr g) \<and>
    f_SrcPort f = f_SrcPort g \<and> f_DstPort f = f_DstPort g \<and> f_Proto f = f_Proto g \<and>
    f_InIf f = f_InIf g \<and> f_OutIf f = f_OutIf g \<and> dup_times f = dup_times g \<and>
    f_RawBytes f = f_RawBytes g \<and> f_RawPackets f = f_RawPackets g"
proof -
  have i: "dup_input f = As16 (f_SrcAddr f) @ As16 (f_DstAddr f) @ put_be16 (f_SrcPort f) @ put_be16 (f_DstPort f) @ [f_Proto f]
      @ put_be32 (f_InIf f) @ put_be32 (f_OutIf f) @ put_be64 (fst (dup_times f)) @ put_be64 (snd (dup_times f))
      @ put_be64 (f_RawBytes f) @ put_be64 (f_RawPackets f)" for f
    by (simp add: dup_input_def dup_times_def)
  have l: "length (As16 (f_SrcAddr f)) = length (As16 (f_SrcAddr g))" "length (As16 (f_DstAddr f)) = length (As16 (f_DstAddr g))"
    using assms by (simp_all add: flow_addrs_wf_def length_As16)
  show ?thesis
    unfolding i by (auto simp: l prod_eq_iff dest!: put_be16_inj put_be32_inj put_be64_inj)
qed

theorem dup_input_unambiguous_witness:
  "dup_input (zero_flow\<lparr>f_DstPort := 1\<rparr>) \<noteq> dup_input (zero_flow\<lparr>f_SrcPort := 1\<rparr>)"
  using dup_input_unambiguous [of "zero_flow\<lparr>f_DstPort := 1\<rparr>" "zero_flow\<lparr>f_SrcPort := 1\<rparr>"]
  by (simp add: flow_addrs_wf_def zero_flow_def)

subsection \<open>Normalised flows\<close>

lemma clampInt64_eq: "clampInt64 v = min (uint v) maxFlowValue"
  by (simp add: clampInt64_def)

lemma uint_ge_1: "(1 :: u32) \<le> w \<Longrightarrow> 1 \<le> uint w"
  by (simp add: word_le_def)

text \<open>
  A flow whose destination was not translated: the exporter leaves the post-NAT address out, sends an unspecified one or
  repeats the destination.
\<close>

definition untranslated :: "flow \<Rightarrow> bool" where
  "untranslated f \<longleftrightarrow> f_PostNATDst f \<in> {NoAddr, Addr4 (replicate 4 0), Addr6 (replicate 16 0), f_DstAddr f}"

text \<open>
  A flow that reached \<open>(a, p)\<close>: addressed to it as it is, or addressed to another one and translated to it, with the
  translated port, or the port of the packet where the exporter reports no translated one.
\<close>

definition delivered_to :: "addr \<Rightarrow> u16 \<Rightarrow> flow \<Rightarrow> bool" where
  "delivered_to a p f \<longleftrightarrow>
    (untranslated f \<and> f_DstAddr f = a \<and> f_DstPort f = p)
    \<or> (\<not> untranslated f \<and> f_PostNATDst f = a \<and> (if f_PostNATDstPort f = 0 then f_DstPort f = p else f_PostNATDstPort f = p))"

lemma delivered_to_nat_dst: "delivered_to a p f \<Longrightarrow> nat_dst f = (a, p)"
  by (cases "f_PostNATDst f") (auto simp: delivered_to_def untranslated_def nat_dst_def nat_inside_def split: if_splits)

lemma normalize_passes: "normalize a ports dup f now n = (Some nf, dup', n') \<Longrightarrow> nf = norm_flow f"
  by (auto simp: normalize_def Let_def split: if_splits option.splits prod.splits)

text \<open>
  C28: both directions of a conversation get mirrored keys, through address translation. Let a flow go from a client to a
  server and another one back, each delivered as it is or after its destination was translated (so the reply may be
  addressed to the router's public address), and let both pass \<open>normalize\<close>, of whatever exporter. Then both keys carry the
  endpoints, which read back (\<open>keyAddr\<close>, as the flush does) to the unmapped client and server; the reply's key is the other
  one with interfaces and endpoints exchanged, so both have the same protocol and the same service port: the well-known one of
  the two ports, the lower one when both or none are, 0 when the protocol has none. The volumes are those of the flow,
  capped at \<open>2^48\<close>.
\<close>

theorem nat_directions_agree:
  assumes "flow_addrs_wf f" and "flow_addrs_wf g"
    and "IsValid client" and "IsValid server"
    and out: "f_SrcAddr f = client" "f_SrcPort f = cport" "delivered_to server sport f"
    and reply: "f_SrcAddr g = server" "f_SrcPort g = sport" "delivered_to client cport g"
    and same: "f_Proto g = f_Proto f" "f_InIf g = f_OutIf f" "f_OutIf g = f_InIf f"
    and nf: "normalize a ports dup f now n = (Some nf, dup', n')"
    and ng: "normalize b ports' dup2 g now' m = (Some ng, dup2', m')"
  shows "nf_endpoints nf \<and> nf_endpoints ng
    \<and> keyAddr (ak_src (nf_key nf)) = Unmap client \<and> keyAddr (ak_dst (nf_key nf)) = Unmap server
    \<and> nf_key ng = (nf_key nf)\<lparr>ak_inIf := f_OutIf f, ak_outIf := f_InIf f, ak_src := ak_dst (nf_key nf), ak_dst := ak_src (nf_key nf)\<rparr>
    \<and> (ak_inIf (nf_key nf), ak_outIf (nf_key nf), ak_proto (nf_key nf)) = (f_InIf f, f_OutIf f, f_Proto f)
    \<and> ak_port (nf_key nf) =
        (if f_Proto f \<notin> {6, 17, 132} then 0
         else let ports = {cport, sport} - {0}; wellknown = ports \<inter> fst ` set Names
           in if wellknown \<noteq> {} then Min wellknown else if ports \<noteq> {} then Min ports else 0)
    \<and> nf_bytes nf = min (uint (f_Bytes f)) (2 ^ 48) \<and> nf_packets nf = min (uint (f_Packets f)) (2 ^ 48)
    \<and> nf_bytes ng = min (uint (f_Bytes g)) (2 ^ 48) \<and> nf_packets ng = min (uint (f_Packets g)) (2 ^ 48)"
proof -
  have d: "nat_dst f = (server, sport)" "nat_dst g = (client, cport)" using out(3) reply(3) by (simp_all add: delivered_to_nat_dst)
  have wf: "addr_wf client" "addr_wf server" using assms(1,2) out(1) reply(1) by (auto simp: flow_addrs_wf_def)
  have sel: "Select p s t = (if p \<notin> {6, 17, 132} then 0
         else let ports = {s, t} - {0}; wellknown = ports \<inter> fst ` set Names
           in if wellknown \<noteq> {} then Min wellknown else if ports \<noteq> {} then Min ports else 0)" for p s t
  proof -
    have "known_port q \<longleftrightarrow> q \<in> fst ` set Names" for q by (simp add: known_port_def map_of_eq_None_iff)
    then have k: "{q \<in> {s, t}. q \<noteq> 0 \<and> known_port q} = ({s, t} - {0}) \<inter> fst ` set Names" by auto
    have "set (filter known_port (filter (\<lambda>p. p \<noteq> 0) [s, t])) = {q \<in> {s, t}. q \<noteq> 0 \<and> known_port q}"
      "set (filter (\<lambda>p. p \<noteq> 0) [s, t]) = {s, t} - {0}" by (auto simp del: filter.simps)
    then show ?thesis
      unfolding Select_direction_free [THEN conjunct2, of p s t] hasPorts_def Let_def k [symmetric]
      by (simp only: set_empty [symmetric]) simp
  qed
  have "Select p s t = Select p t s" for p s t by (rule Select_direction_free [THEN conjunct1])
  then have "Select (f_Proto f) sport cport = Select (f_Proto f) cport sport" .
  then show ?thesis
    unfolding normalize_passes [OF nf] normalize_passes [OF ng] sel [symmetric]
    using assms(3,4) d wf out(1,2) reply(1,2) same
    by (simp add: norm_flow_def clampInt64_eq maxFlowValue_def keyAddr_def Unmap_AddrFrom16_As16)
qed

text \<open>A client behind a router's public address \<open>203.0.113.5\<close> that talks HTTPS to \<open>1.1.1.1\<close>.\<close>

definition nat_out :: flow where
  "nat_out = zero_flow\<lparr>f_SrcAddr := Addr4 [192,168,1,10], f_SrcPort := 50000, f_DstAddr := Addr4 [1,1,1,1], f_DstPort := 443, f_Proto := 6,
     f_InIf := 2, f_OutIf := 1, f_Bytes := 900\<rparr>"

definition nat_back :: flow where
  "nat_back = zero_flow\<lparr>f_SrcAddr := Addr4 [1,1,1,1], f_SrcPort := 443, f_DstAddr := Addr4 [203,0,113,5], f_DstPort := 61000, f_Proto := 6,
     f_PostNATDst := Addr4 [192,168,1,10], f_PostNATDstPort := 50000, f_InIf := 1, f_OutIf := 2, f_Bytes := 70000\<rparr>"

definition no_norm :: normCounters where
  "no_norm = \<lparr>nc_selfExport = 0, nc_dup = 0, nc_natDst = 0\<rparr>"

theorem nat_directions_agree_witness:
  "nf_key (norm_flow nat_back) = (nf_key (norm_flow nat_out))\<lparr>ak_inIf := 1, ak_outIf := 2,
      ak_src := ak_dst (nf_key (norm_flow nat_out)), ak_dst := ak_src (nf_key (norm_flow nat_out))\<rparr>
   \<and> keyAddr (ak_dst (nf_key (norm_flow nat_back))) = Addr4 [192,168,1,10] \<and> ak_port (nf_key (norm_flow nat_back)) = 443
   \<and> nf_bytes (norm_flow nat_back) = 70000"
proof -
  have z: "replicate 4 0 = [0, 0, 0, 0 :: byte]" by (simp add: numeral_eq_Suc)
  have p: "normalize NoAddr [] None nat_out 0 no_norm = (Some (norm_flow nat_out), None, no_norm)"
    "normalize NoAddr [] None nat_back 0 no_norm = (Some (norm_flow nat_back), None, no_norm\<lparr>nc_natDst := 1\<rparr>)"
    by (simp_all add: normalize_def nat_inside_def nat_out_def nat_back_def zero_flow_def no_norm_def z)
  have w: "flow_addrs_wf nat_out" "flow_addrs_wf nat_back" by (simp_all add: flow_addrs_wf_def nat_out_def nat_back_def zero_flow_def)
  have d: "delivered_to (Addr4 [1,1,1,1]) 443 nat_out" "delivered_to (Addr4 [192,168,1,10]) 50000 nat_back"
    by (simp_all add: delivered_to_def untranslated_def nat_out_def nat_back_def zero_flow_def z)
  have f: "f_SrcAddr nat_out = Addr4 [192,168,1,10]" "f_SrcPort nat_out = 50000" "f_SrcAddr nat_back = Addr4 [1,1,1,1]" "f_SrcPort nat_back = 443"
    "f_Proto nat_back = f_Proto nat_out" "f_InIf nat_back = f_OutIf nat_out" "f_OutIf nat_back = f_InIf nat_out"
    by (simp_all add: nat_out_def nat_back_def)
  have k: "{50000, 443} \<inter> fst ` set Names = {443 :: u16}" "443 \<in> fst ` set Names" by (auto simp: Names_def)
  have x: "f_InIf nat_out = 2" "f_OutIf nat_out = 1" "f_Proto nat_out = 6" "f_Bytes nat_back = 70000" by (simp_all add: nat_out_def nat_back_def)
  show ?thesis
    using nat_directions_agree [OF w _ _ f(1,2) d(1) f(3,4) d(2) f(5-7) p]
    by (simp add: x k Let_def)
qed

text \<open>
  Normalisation accounts for every flow exactly once: it is passed on, or counted as a self-export,
  or counted as a duplicate. Self-exports never enter the duplicate filter; without a filter nothing is
  a duplicate; a translated destination is counted only for a flow that is passed on.
\<close>

theorem normalize_accounts:
  "case normalize a ports dup f now n of (r, dup', n') \<Rightarrow>
    (case r of Some nf \<Rightarrow> nf = norm_flow f \<and> nc_selfExport n' = nc_selfExport n \<and> nc_dup n' = nc_dup n
                 \<and> nc_natDst n' = nc_natDst n + (if nat_inside f then 1 else 0)
     | None \<Rightarrow> nc_selfExport n' + nc_dup n' = nc_selfExport n + nc_dup n + 1 \<and> nc_natDst n' = nc_natDst n)
    \<and> (if f_Proto f = 17 \<and> f_SrcAddr f = a \<and> gm_get ports (f_DstPort f) = Some True
       then r = None \<and> dup' = dup \<and> nc_dup n' = nc_dup n
       else case dup of None \<Rightarrow> r = Some (norm_flow f) \<and> dup' = None
         | Some d \<Rightarrow> (r = None \<longleftrightarrow> fst (seen (dupHash f) now d)) \<and> dup' = Some (snd (seen (dupHash f) now d)))"
  by (auto simp: normalize_def Let_def split: option.splits prod.splits if_splits)

theorem normalize_accounts_witness:
  "fst (normalize NoAddr [] None zero_flow 0 \<lparr>nc_selfExport = 0, nc_dup = 0, nc_natDst = 0\<rparr>) = Some (norm_flow zero_flow)"
  using normalize_accounts [where a = NoAddr and ports = "[]" and dup = None and f = zero_flow and now = 0
      and n = "\<lparr>nc_selfExport = 0, nc_dup = 0, nc_natDst = 0\<rparr>"]
  by (simp add: zero_flow_def split: prod.splits)

subsection \<open>The hint tracker is bounded\<close>

definition hint_gen_ok :: "hint_gen \<Rightarrow> bool" where
  "hint_gen_ok g \<longleftrightarrow> gm_wf g \<and> gm_len g \<le> hintIfaceCap \<and> gm_all (\<lambda>m. gm_wf m \<and> gm_len m \<le> hintPrefixCap \<and> gm_all (\<lambda>b. 0 \<le> b) m) g"

definition hints_ok :: "hintTracker \<Rightarrow> bool" where
  "hints_ok h \<longleftrightarrow> hint_gen_ok (h_cur h) \<and> hint_gen_ok (h_prev h)"

lemma hint_gen_ok_Nil [simp]: "hint_gen_ok []"
  by (simp add: hint_gen_ok_def)

lemma hint_gen_ok_put:
  assumes g: "hint_gen_ok g" and room: "gm_has g i \<or> gm_len g < hintIfaceCap"
    and m: "gm_wf m" "gm_len m \<le> hintPrefixCap" "gm_all (\<lambda>b. 0 \<le> b) m"
  shows "hint_gen_ok (gm_put i m g)"
  using g m gmap.size_put_capped [of g hintIfaceCap i m] room
  by (auto simp: hint_gen_ok_def gm_has_def gmap.wf_put intro!: gm_all_put)

lemma hint_gen_ok_get: "hint_gen_ok g \<Longrightarrow> gm_get g i = Some m \<Longrightarrow> gm_wf m \<and> gm_len m \<le> hintPrefixCap \<and> gm_all (\<lambda>b. 0 \<le> b) m"
  by (auto simp: hint_gen_ok_def dest: gm_all_get)

lemma hints_ok_put:
  assumes h: "hints_ok h" and b: "0 \<le> b" shows "hints_ok (hint_put i p b h)"
proof (cases "gm_get (h_cur h) i")
  case None
  have "hint_gen_ok (gm_put i (gm_put p (satAdd 0 b) []) (h_cur h))" if "gm_len (h_cur h) < hintIfaceCap"
    using h that by (intro hint_gen_ok_put)
      (simp_all add: hints_ok_def gmap.wf_put gmap.size_put gm_all_put satAdd_nonneg hintPrefixCap_def)
  then show ?thesis using None h by (simp add: hint_put_def hints_ok_def)
next
  case (Some m)
  then have m: "gm_wf m" "gm_len m \<le> hintPrefixCap" "gm_all (\<lambda>b. 0 \<le> b) m"
    using h hint_gen_ok_get by (auto simp: hints_ok_def)
  have "hint_gen_ok (gm_put i (gm_put p (satAdd (case gm_get m p of Some v \<Rightarrow> v | None \<Rightarrow> 0) b) m) (h_cur h))"
    if "gm_has m p \<or> gm_len m < hintPrefixCap"
    using h that m Some gmap.size_put_capped [OF m(1,2), of p]
    by (intro hint_gen_ok_put) (auto simp: hints_ok_def gm_has_def gmap.wf_put satAdd_nonneg intro!: gm_all_put
      dest: gm_all_get split: option.splits)
  then show ?thesis using Some h by (simp add: hint_put_def hints_ok_def not_le)
qed

lemma hints_ok_add:
  assumes "hints_ok h" shows "hints_ok (hint_add i src b now h)"
proof -
  have "hints_ok (hint_rotate now h)" using assms by (simp add: hint_rotate_def hints_ok_def)
  then show ?thesis using assms by (simp add: hint_add_def Let_def hints_ok_put split: option.splits)
qed

text \<open>
  Whatever sources a sender forges, the hint tracker of an exporter holds at most 256 interfaces with
  at most 64 prefixes each, in both of its generations.
\<close>

theorem hints_bounded:
  assumes "hints_ok h" shows "hints_ok (hint_add i src b now h)"
  using assms by (rule hints_ok_add)

theorem hints_bounded_witness:
  "hints_ok (hint_add 3 (Addr4 [192, 168, 78, 5]) 1000 0 (newHintTracker 0))"
  by (rule hints_bounded) (simp add: hints_ok_def newHintTracker_def)

text \<open>
  The tracker learns only prefixes of unicast sources: the /24 (IPv4) or /64 (IPv6) that contains
  the unmapped source address, never a multicast, loopback or link-local one.
\<close>

theorem hint_add_learns:
  assumes "hintPrefix src = Some p"
  shows "prefix_Contains p (Unmap src) \<and> IsValid src \<and> \<not> IsMulticast (Unmap src) \<and> \<not> IsLoopback (Unmap src)
    \<and> p_bits p = (if Is6 (Unmap src) then 64 else 24)"
proof -
  have "IsValid (Unmap src)" "addr_Prefix (Unmap src) (if Is6 (Unmap src) then 64 else 24) = Some p"
    and no: "\<not> IsMulticast (Unmap src)" "\<not> IsLoopback (Unmap src)"
    using assms by (simp_all add: hintPrefix_def Let_def split: if_splits)
  moreover from this have "p_bits p = (if Is6 (Unmap src) then 64 else 24)"
    by (cases "Unmap src") (auto simp: addr_Prefix_def split: if_splits)
  ultimately show ?thesis using addr_Prefix_contains by auto
qed

theorem hint_add_learns_witness: "prefix_Contains \<lparr>p_addr = Addr4 [192, 168, 78, 0], p_bits = 24\<rparr> (Addr4 [192, 168, 78, 5])"
proof -
  have "hintPrefix (Addr4 [192, 168, 78, 5]) = Some \<lparr>p_addr = Addr4 [192, 168, 78, 0], p_bits = 24\<rparr>"
    by code_simp
  from hint_add_learns [OF this] show ?thesis by simp
qed

end
