(* ===== verification/Flow_Settings.thy ===== *)
theory Flow_Settings
  imports Svcport
begin

text \<open>
  The settings of the collector (\<open>flow/settings.go\<close>) and its log throttle (\<open>flow/logthrottle.go\<close>).
  The setting table is the argument \<open>get\<close>: the stored text of a key, \<open>None\<close> when there is no database,
  no such row or the query fails. Texts are ASCII. \<open>strconv.Atoi\<close>, \<open>strconv.ParseBool\<close> and
  \<open>strings.TrimSpace\<close> are written out.
\<close>

subsection \<open>Parsing\<close>

definition is_space :: "char \<Rightarrow> bool" where
  "is_space c \<longleftrightarrow> (of_char c :: nat) \<in> {9, 10, 11, 12, 13, 32}"

definition TrimSpace :: "string \<Rightarrow> string" where
  "TrimSpace s = rev (dropWhile is_space (rev (dropWhile is_space s)))"

definition is_digit :: "char \<Rightarrow> bool" where
  "is_digit c \<longleftrightarrow> 48 \<le> (of_char c :: nat) \<and> (of_char c :: nat) \<le> 57"

text \<open>\<open>strconv.Atoi\<close>: an optional sign, at least one digit, only digits, within \<open>int64\<close>.\<close>

definition atoi_digits :: "string \<Rightarrow> int option" where
  "atoi_digits s = (if s \<noteq> [] \<and> list_all is_digit s then Some (int (dec_value s)) else None)"

definition Atoi :: "string \<Rightarrow> int option" where
  "Atoi s =
    (let v = (case s of
         c # r \<Rightarrow> if c = CHR ''-'' then map_option uminus (atoi_digits r)
                  else if c = CHR ''+'' then atoi_digits r else atoi_digits s
       | [] \<Rightarrow> None)
     in case v of Some n \<Rightarrow> if int64 n then Some n else None | None \<Rightarrow> None)"

definition ParseBool :: "string \<Rightarrow> bool option" where
  "ParseBool s = (if s \<in> {''1'', ''t'', ''T'', ''TRUE'', ''true'', ''True''} then Some True
     else if s \<in> {''0'', ''f'', ''F'', ''FALSE'', ''false'', ''False''} then Some False else None)"

subsection \<open>Settings\<close>

type_synonym settings = "string \<Rightarrow> string option"

definition settingInt :: "settings \<Rightarrow> string \<Rightarrow> int \<Rightarrow> int \<Rightarrow> int \<Rightarrow> int" where
  "settingInt get key def lo hi =
    (case get key of None \<Rightarrow> def
     | Some v \<Rightarrow> (case Atoi (TrimSpace v) of None \<Rightarrow> def | Some n \<Rightarrow> min (max n lo) hi))"

definition settingBool :: "settings \<Rightarrow> string \<Rightarrow> bool \<Rightarrow> bool" where
  "settingBool get key def =
    (case get key of None \<Rightarrow> def
     | Some v \<Rightarrow> (case ParseBool (TrimSpace v) of None \<Rightarrow> def | Some b \<Rightarrow> b))"

definition TopN :: "settings \<Rightarrow> int" where "TopN get = settingInt get ''flow_top_n'' 50 10 500"
definition TopNHourly :: "settings \<Rightarrow> int" where "TopNHourly get = settingInt get ''flow_top_n_hourly'' 100 20 2000"
definition MaxRowsPerMinute :: "settings \<Rightarrow> int" where
  "MaxRowsPerMinute get = settingInt get ''flow_max_rows_per_minute'' 1500 200 10000"
definition Retention1mDays :: "settings \<Rightarrow> int" where "Retention1mDays get = settingInt get ''flow_1m_days'' 3 1 14"
definition Retention1hDays :: "settings \<Rightarrow> int" where "Retention1hDays get = settingInt get ''flow_1h_days'' 90 7 730"
definition RateLimitPPS :: "settings \<Rightarrow> int" where "RateLimitPPS get = settingInt get ''flow_rate_limit_pps'' 2000 100 50000"
definition AutoAcceptDevices :: "settings \<Rightarrow> bool" where
  "AutoAcceptDevices get = settingBool get ''flow_auto_accept_devices'' True"

subsection \<open>The log throttle\<close>

definition wireLogEvery :: duration where "wireLogEvery = minutes 10"

record logThrottle =
  lt_last :: time
  lt_suppressed :: int

definition zero_throttle :: logThrottle where
  "zero_throttle = \<lparr>lt_last = zero_time, lt_suppressed = 0\<rparr>"

definition allow :: "time \<Rightarrow> duration \<Rightarrow> logThrottle \<Rightarrow> (bool \<times> int) \<times> logThrottle" where
  "allow now every t =
    (if \<not> is_zero (lt_last t) \<and> t_sub now (lt_last t) < every
     then ((False, 0), t\<lparr>lt_suppressed := lt_suppressed t + 1\<rparr>)
     else ((True, lt_suppressed t), \<lparr>lt_last = now, lt_suppressed = 0\<rparr>))"

definition heldNote :: "int \<Rightarrow> string" where
  "heldNote n = (if n = 0 then '''' else '' ('' @ itoa n @ '' similar line(s) suppressed)'')"

subsection \<open>Settings are in range\<close>

lemma settingInt_range: "lo \<le> def \<Longrightarrow> def \<le> hi \<Longrightarrow> lo \<le> settingInt get key def lo hi \<and> settingInt get key def lo hi \<le> hi"
  by (auto simp: settingInt_def split: option.splits)

text \<open>
  Whatever text the settings table holds (garbage, overflowing or negative numbers, nothing at all),
  every integer setting the collector reads lies in its documented range.
\<close>

theorem settings_in_range:
  "TopN get \<in> {10..500} \<and> TopNHourly get \<in> {20..2000} \<and> MaxRowsPerMinute get \<in> {200..10000} \<and>
   Retention1mDays get \<in> {1..14} \<and> Retention1hDays get \<in> {7..730} \<and> RateLimitPPS get \<in> {100..50000}"
  unfolding TopN_def TopNHourly_def MaxRowsPerMinute_def Retention1mDays_def Retention1hDays_def RateLimitPPS_def
    atLeastAtMost_iff
  by (intro conjI settingInt_range [THEN conjunct1] settingInt_range [THEN conjunct2]) simp_all

lemma nat_string_digits: "list_all is_digit (nat_string n) \<and> nat_string n \<noteq> []"
proof (induction n rule: nat_string.induct)
  case (1 n)
  have "is_digit (digit_char d)" if "d < 10" for d using that by (simp add: is_digit_def digit_char_def)
  then show ?case using 1 by (subst (1 2) nat_string.simps) auto
qed

lemma digit_not_sign: "is_digit c \<Longrightarrow> c \<noteq> CHR ''-'' \<and> c \<noteq> CHR ''+'' \<and> \<not> is_space c"
  by (auto simp: is_digit_def is_space_def)

lemma Atoi_itoa: assumes "int64 n" shows "Atoi (itoa n) = Some n"
proof (cases "n < 0")
  case True
  then show ?thesis using assms nat_string_digits [of "nat (- n)"] by (simp add: Atoi_def itoa_def atoi_digits_def)
next
  case False
  obtain c r where s: "nat_string (nat n) = c # r" using nat_string_digits [of "nat n"] by (cases "nat_string (nat n)") auto
  have d: "list_all is_digit (c # r)" using nat_string_digits [of "nat n"] by (simp add: s)
  have "dec_value (c # r) = nat n" using dec_value_nat_string [of "nat n"] by (simp add: s)
  then show ?thesis using False assms d digit_not_sign [of c]
    by (simp add: Atoi_def itoa_def s atoi_digits_def)
qed

lemma dropWhile_none: "(\<And>x. x \<in> set xs \<Longrightarrow> \<not> P x) \<Longrightarrow> dropWhile P xs = xs"
  by (cases xs) auto

lemma TrimSpace_itoa: "TrimSpace (itoa n) = itoa n"
proof -
  have d: "\<not> is_space c" if "c \<in> set (nat_string m)" for c m
    using that nat_string_digits [of m] digit_not_sign by (auto simp: list_all_iff)
  then have "\<not> is_space c" if "c \<in> set (itoa n)" for c
    using that by (auto simp: itoa_def is_space_def split: if_splits)
  then have "dropWhile is_space (itoa n) = itoa n" "dropWhile is_space (rev (itoa n)) = rev (itoa n)"
    by (auto intro!: dropWhile_none)
  then show ?thesis by (simp add: TrimSpace_def)
qed

text \<open>
  A setting written as a decimal number is read back as that number, clamped to the range; the
  default is never used for it.
\<close>

theorem settingInt_roundtrip:
  assumes "get key = Some (itoa n)" and "int64 n"
  shows "settingInt get key def lo hi = min (max n lo) hi"
  using assms by (simp add: settingInt_def TrimSpace_itoa Atoi_itoa)

theorem settingInt_roundtrip_witness: "TopN (\<lambda>_. Some (itoa 700)) = 500"
  using settingInt_roundtrip [of "\<lambda>_. Some (itoa 700)" "''flow_top_n''" 700 50 10 500]
  by (simp add: TopN_def int64_def)

subsection \<open>The throttle\<close>

text \<open>A sequence of log attempts: what every call returned, and the throttle after them.\<close>

fun allow_run :: "duration \<Rightarrow> time list \<Rightarrow> logThrottle \<Rightarrow> (time \<times> bool \<times> int) list \<times> logThrottle" where
  "allow_run every [] t = ([], t)"
| "allow_run every (now # ts) t =
    (let ((ok, held), t) = allow now every t; (rs, t) = allow_run every ts t in ((now, ok, held) # rs, t))"

definition lines :: "(time \<times> bool \<times> int) list \<Rightarrow> time list" where
  "lines rs = map fst (filter (\<lambda>(_, ok, _). ok) rs)"

lemma allow_run_counts:
  "allow_run every ts t = (rs, t') \<Longrightarrow>
    int (length (lines rs)) + sum_list (map (\<lambda>(_, _, held). held) rs) + lt_suppressed t' = int (length ts) + lt_suppressed t"
  by (induction ts arbitrary: t rs t')
    (fastforce simp: lines_def allow_def Let_def split: prod.splits if_splits)+

lemma allow_run_spaced:
  "allow_run every ts t = (rs, t') \<Longrightarrow> list_all (\<lambda>x. x \<noteq> zero_time) ts \<Longrightarrow>
    (lt_last t \<noteq> zero_time \<longrightarrow> (case lines rs of [] \<Rightarrow> True | x # _ \<Rightarrow> every \<le> t_sub x (lt_last t))) \<and>
    successively (\<lambda>x y. every \<le> t_sub y x) (lines rs)"
proof (induction ts arbitrary: t rs t')
  case (Cons now ts)
  obtain ok held t1 where a: "allow now every t = ((ok, held), t1)" by (metis prod.exhaust_sel)
  obtain rs1 t2 where r: "allow_run every ts t1 = (rs1, t2)" by force
  have rs: "rs = (now, ok, held) # rs1" using Cons.prems(1) a r by simp
  note IH = Cons.IH [OF r]
  show ?case
  proof (cases ok)
    case True
    then have "lt_last t1 = now" "lt_last t \<noteq> zero_time \<longrightarrow> every \<le> t_sub now (lt_last t)"
      using a by (auto simp: allow_def is_zero_def split: if_splits)
    then show ?thesis using IH Cons.prems(2) True
      by (cases "lines rs1") (auto simp: rs lines_def)
  next
    case False
    then have l: "lt_last t1 = lt_last t" using a by (auto simp: allow_def split: if_splits)
    have "lines rs = lines rs1" using False by (simp add: rs lines_def)
    then show ?thesis using IH Cons.prems(2) unfolding l by simp
  qed
qed (simp add: lines_def)

text \<open>
  Over any sequence of attempts a throttle lets consecutive lines through only \<open>every\<close> apart, and
  no line is forgotten: lines written, lines reported as held back and lines still counted add up to
  the attempts.
\<close>

theorem throttle_spec:
  assumes "allow_run every ts zero_throttle = (rs, t')" and "list_all (\<lambda>x. x \<noteq> zero_time) ts"
  shows "successively (\<lambda>x y. every \<le> t_sub y x) (lines rs)
    \<and> int (length (lines rs)) + sum_list (map (\<lambda>(_, _, held). held) rs) + lt_suppressed t' = int (length ts)"
  using allow_run_spaced [OF assms] allow_run_counts [OF assms(1)] by (simp add: zero_throttle_def)

theorem throttle_spec_witness:
  "lines (fst (allow_run wireLogEvery [seconds 10, seconds 20, seconds 700] zero_throttle)) = [seconds 10, seconds 700]
   \<and> successively (\<lambda>x y. wireLogEvery \<le> t_sub y x)
       (lines (fst (allow_run wireLogEvery [seconds 10, seconds 20, seconds 700] zero_throttle)))"
  using throttle_spec [of wireLogEvery "[seconds 10, seconds 20, seconds 700]"
      "fst (allow_run wireLogEvery [seconds 10, seconds 20, seconds 700] zero_throttle)"
      "snd (allow_run wireLogEvery [seconds 10, seconds 20, seconds 700] zero_throttle)"]
  by (simp add: lines_def allow_def zero_throttle_def wireLogEvery_def time_defs)

end
