(* ===== verification/Float64.thy ===== *)
theory Float64
  imports Complex_Main "HOL-Library.Log_Nat" NMS_Prelude
begin

text \<open>
  The \<open>float64\<close> arithmetic of the token buckets and of the rates in the status, on rationals: every operation
  is the exact one rounded to 53 significant bits, ties to even (IEEE 754 binary64 away from overflow
  and underflow; the values are counts and rates far inside the exponent range).
\<close>

definition log2_floor :: "rat \<Rightarrow> int" where
  "log2_floor q =
    (let (n, d) = quotient_of q; k = bitlen n - bitlen d
     in if 2 powi k \<le> q then k else k - 1)"

definition round_even :: "rat \<Rightarrow> int" where
  "round_even x =
    (let f = \<lfloor>x\<rfloor>; r = x - of_int f
     in if r < 1 / 2 then f else if 1 / 2 < r then f + 1 else if even f then f else f + 1)"

definition ulp :: "rat \<Rightarrow> rat" where
  "ulp q = 2 powi (log2_floor \<bar>q\<bar> - 52)"

definition fl64 :: "rat \<Rightarrow> rat" where
  "fl64 q = (if q = 0 then 0 else of_int (round_even (q / ulp q)) * ulp q)"

definition f_add :: "rat \<Rightarrow> rat \<Rightarrow> rat" where "f_add x y = fl64 (x + y)"
definition f_sub :: "rat \<Rightarrow> rat \<Rightarrow> rat" where "f_sub x y = fl64 (x - y)"
definition f_mul :: "rat \<Rightarrow> rat \<Rightarrow> rat" where "f_mul x y = fl64 (x * y)"
definition f_div :: "rat \<Rightarrow> rat \<Rightarrow> rat" where "f_div x y = fl64 (x / y)"
definition f_of_int :: "int \<Rightarrow> rat" where "f_of_int n = fl64 (of_int n)"

text \<open>\<open>Duration.Seconds\<close>.\<close>

definition f_seconds :: "duration \<Rightarrow> rat" where
  "f_seconds d = f_add (f_of_int (go_quot d nanos_per_sec)) (f_div (f_of_int (go_rem d nanos_per_sec)) 1000000000)"

lemma log2_floor_le:
  assumes "0 < q" shows "2 powi log2_floor q \<le> q"
proof -
  obtain n d where nd: "quotient_of q = (n, d)" by force
  have d: "0 < d" and q: "q = of_int n / of_int d" using nd by (auto simp: quotient_of_denom_pos quotient_of_div)
  have n: "0 < n" using assms d q by (simp add: zero_less_divide_iff)
  let ?k = "bitlen n - bitlen d"
  have "2 powi (?k - 1) \<le> q"
  proof -
    have bn: "2 ^ nat (bitlen n - 1) \<le> n" and bd: "d < 2 ^ nat (bitlen d)"
      using bitlen_bounds [OF n] bitlen_bounds [OF d] by auto
    have "bitlen n \<noteq> 0" using n by (simp add: bitlen_eq_zero_iff)
    then have pos: "1 \<le> bitlen n" "0 \<le> bitlen d" using bitlen_nonneg [of n] bitlen_nonneg [of d] by linarith+
    have "(2 :: rat) powi (?k - 1) = 2 powi (bitlen n - 1) / 2 powi bitlen d"
      by (simp add: power_int_diff algebra_simps flip: power_int_diff)
    also have "\<dots> = of_int (2 ^ nat (bitlen n - 1)) / of_int (2 ^ nat (bitlen d))"
      using pos by (simp add: power_int_def)
    also have "\<dots> \<le> of_int n / of_int d"
      using bn bd d n by (intro frac_le) (simp_all only: of_int_le_iff of_int_0_less_iff of_int_0_le_iff less_imp_le)
    finally show ?thesis using q by simp
  qed
  then show ?thesis by (simp add: log2_floor_def nd Let_def)
qed

lemma ulp_pos [simp]: "0 < ulp q"
  by (simp add: ulp_def)

lemma ulp_nonneg [simp]: "0 \<le> ulp q" "ulp q \<noteq> 0"
  using ulp_pos [of q] by linarith+

lemma ulp_le: assumes "q \<noteq> 0" shows "ulp q \<le> \<bar>q\<bar> / 2 ^ 52"
proof -
  have "2 powi log2_floor \<bar>q\<bar> \<le> \<bar>q\<bar>" using assms by (intro log2_floor_le) simp
  then show ?thesis by (simp add: ulp_def power_int_diff divide_right_mono)
qed

lemma round_even_error: "\<bar>of_int (round_even x) - x\<bar> \<le> 1 / 2"
proof -
  have "of_int \<lfloor>x\<rfloor> \<le> x" "x < of_int \<lfloor>x\<rfloor> + 1" by linarith+
  then show ?thesis unfolding round_even_def Let_def by (auto simp: abs_le_iff)
qed

lemma round_even_nonneg: "0 \<le> x \<Longrightarrow> 0 \<le> round_even x"
  by (auto simp: round_even_def Let_def)

lemma fl64_nonneg: "0 \<le> q \<Longrightarrow> 0 \<le> fl64 q"
  by (auto simp: fl64_def intro!: mult_nonneg_nonneg round_even_nonneg divide_nonneg_nonneg)

text \<open>The relative error of a rounding is at most \<open>2 ^ -53\<close>.\<close>

lemma fl64_error: "\<bar>fl64 q - q\<bar> \<le> \<bar>q\<bar> / 2 ^ 53"
proof (cases "q = 0")
  case False
  have "fl64 q - q = (of_int (round_even (q / ulp q)) - q / ulp q) * ulp q"
    using False by (simp add: fl64_def left_diff_distrib)
  then have "\<bar>fl64 q - q\<bar> = \<bar>of_int (round_even (q / ulp q)) - q / ulp q\<bar> * ulp q"
    by (simp add: abs_mult)
  also have "\<dots> \<le> 1 / 2 * ulp q"
    by (intro mult_right_mono round_even_error) simp
  also have "\<dots> \<le> 1 / 2 * (\<bar>q\<bar> / 2 ^ 52)" using ulp_le [OF False] by (intro mult_left_mono) simp_all
  finally show ?thesis by simp
qed (simp add: fl64_def)

end
