(* ===== verification/Listener.thy ===== *)
theory Listener
  imports Netip Float64 Flow_Settings
begin

text \<open>
  The reader side of the collector (\<open>flow/listener.go\<close>): token buckets, the allow-list, the path of a
  datagram up to the worker's queue, the ring of unknown senders, the kernel's drop counters.

  Gates are shared by pointer between the allow-list and the worker's exporter states; the model keys
  them by exporter id (\<open>ls_gates\<close>) and the allow-list maps an address to the id. A queued datagram
  carries its own copy of the bytes. Each operation is one atomic step: the code protects it by a mutex
  or by atomics.
\<close>

subsection \<open>Token buckets\<close>

record tokenBucket =
  tb_rate :: rat
  tb_burst :: rat
  tb_tokens :: rat
  tb_last :: time

definition newTokenBucket :: "rat \<Rightarrow> tokenBucket" where
  "newTokenBucket rate = \<lparr>tb_rate = rate, tb_burst = f_mul 2 rate, tb_tokens = f_mul 2 rate, tb_last = zero_time\<rparr>"

definition setRate :: "rat \<Rightarrow> tokenBucket \<Rightarrow> tokenBucket" where
  "setRate rate b = b\<lparr>tb_rate := rate, tb_burst := f_mul 2 rate, tb_tokens := min (tb_tokens b) (f_mul 2 rate)\<rparr>"

definition refill :: "time \<Rightarrow> tokenBucket \<Rightarrow> tokenBucket" where
  "refill now b =
    (if is_zero (tb_last b) then b
     else let dt = f_seconds (t_sub now (tb_last b))
       in if dt > 0 then b\<lparr>tb_tokens := min (tb_burst b) (f_add (tb_tokens b) (f_mul dt (tb_rate b)))\<rparr> else b)"

definition bucket_take :: "time \<Rightarrow> tokenBucket \<Rightarrow> bool \<times> tokenBucket" where
  "bucket_take now b =
    (let b = (refill now b)\<lparr>tb_last := now\<rparr>
     in if tb_tokens b < 1 then (False, b) else (True, b\<lparr>tb_tokens := f_sub (tb_tokens b) 1\<rparr>))"

subsection \<open>State\<close>

definition queueCap :: nat where "queueCap = 1024"
definition maxDatagram :: nat where "maxDatagram = 9216"
definition unknownRingCap :: nat where "unknownRingCap = 16"
definition unknownLogEvery :: duration where "unknownLogEvery = minutes 10"
definition unknownLogBudget :: int where "unknownLogBudget = 10"
definition globalRateFactor :: int where "globalRateFactor = 5"

record exporterGate =
  g_id :: int
  g_enabled :: bool
  g_bucket :: tokenBucket
  g_rateLimited :: int
  g_oversized :: int

record deviceInfo =
  dv_id :: string
  dv_name :: string

record candidateGate =
  cg_deviceID :: string
  cg_name :: string
  cg_bucket :: tokenBucket

record allowList =
  al_exporters :: "(addr, int) gomap"
  al_candidates :: "(addr, candidateGate) gomap"
  al_devices :: "(addr, deviceInfo) gomap"

record datagram =
  dg_addr :: addr
  dg_exporterID :: int
  dg_candidate :: "(string \<times> string) option"
  dg_bytes :: bytes
  dg_received :: time

record globalCounters =
  gc_datagrams :: int
  gc_unknownDatagrams :: int
  gc_rejected :: int
  gc_rateLimited :: int
  gc_queueDropped :: int
  gc_kernelDropped :: int
  gc_writerDropped :: int
  gc_lateRecords :: int
  gc_overflowRecords :: int
  gc_selfExportDropped :: int
  gc_dupDropped :: int
  gc_panics :: int

definition zero_global :: globalCounters where
  "zero_global = \<lparr>gc_datagrams = 0, gc_unknownDatagrams = 0, gc_rejected = 0, gc_rateLimited = 0, gc_queueDropped = 0,
     gc_kernelDropped = 0, gc_writerDropped = 0, gc_lateRecords = 0, gc_overflowRecords = 0, gc_selfExportDropped = 0,
     gc_dupDropped = 0, gc_panics = 0\<rparr>"

record unknownSender =
  us_addr :: addr
  us_firstSeen :: time
  us_lastSeen :: time
  us_datagrams :: int
  us_protocol :: string
  us_device :: deviceInfo
  us_isDevice :: bool
  us_lastLog :: time

record unknownRing =
  ur_entries :: "unknownSender list"
  ur_logWindow :: time
  ur_logCount :: int

record listener =
  ls_allow :: allowList
  ls_gates :: "(int, exporterGate) gomap"
  ls_globalBucket :: tokenBucket
  ls_queue :: "datagram list"
  ls_global :: globalCounters
  ls_unknown :: unknownRing

definition empty_allow :: allowList where
  "empty_allow = \<lparr>al_exporters = [], al_candidates = [], al_devices = []\<rparr>"

text \<open>The reader-side fields as \<open>New\<close> builds them; \<open>newTokenBucket(5 * 2000)\<close> for all exporters together.\<close>

definition newListener :: listener where
  "newListener = \<lparr>ls_allow = empty_allow, ls_gates = [], ls_globalBucket = newTokenBucket (f_of_int (globalRateFactor * 2000)),
     ls_queue = [], ls_global = zero_global, ls_unknown = \<lparr>ur_entries = [], ur_logWindow = zero_time, ur_logCount = 0\<rparr>\<rparr>"

subsection \<open>Unknown senders\<close>

definition no_device :: deviceInfo where "no_device = \<lparr>dv_id = '''', dv_name = ''''\<rparr>"

definition ring_find :: "addr \<Rightarrow> unknownRing \<Rightarrow> unknownSender option" where
  "ring_find a r = find (\<lambda>x. us_addr x = a) (ur_entries r)"

text \<open>The entries without the first one of the address: \<open>slices.Delete(r.entries, i, i+1)\<close> after the search.\<close>

fun ring_delete :: "addr \<Rightarrow> unknownSender list \<Rightarrow> unknownSender list" where
  "ring_delete a [] = []"
| "ring_delete a (x # xs) = (if us_addr x = a then xs else x # ring_delete a xs)"

definition ring_place :: "addr \<Rightarrow> kind \<Rightarrow> time \<Rightarrow> deviceInfo \<Rightarrow> bool \<Rightarrow> unknownRing \<Rightarrow> unknownSender \<times> unknownSender list" where
  "ring_place a k now dev isDev r =
    (let (e, es) = (case ring_find a r of
           Some e \<Rightarrow> (e, ring_delete a (ur_entries r))
         | None \<Rightarrow> (\<lparr>us_addr = a, us_firstSeen = now, us_lastSeen = zero_time, us_datagrams = 0, us_protocol = '''',
                     us_device = no_device, us_isDevice = False, us_lastLog = zero_time\<rparr>,
                    if length (ur_entries r) \<ge> unknownRingCap then take (unknownRingCap - 1) (ur_entries r) else ur_entries r));
         e = e\<lparr>us_lastSeen := now, us_datagrams := us_datagrams e + 1,
               us_protocol := (if Kind_String k \<noteq> '''' then Kind_String k else us_protocol e),
               us_device := dev, us_isDevice := isDev\<rparr>
     in (e, es))"

text \<open>\<open>record\<close>: the new ring and whether a log line was written.\<close>

definition ring_record :: "addr \<Rightarrow> kind \<Rightarrow> time \<Rightarrow> deviceInfo \<Rightarrow> bool \<Rightarrow> unknownRing \<Rightarrow> unknownRing \<times> bool" where
  "ring_record a k now dev isDev r =
    (let (e, es) = ring_place a k now dev isDev r
     in if t_sub now (us_lastLog e) < unknownLogEvery then (r\<lparr>ur_entries := e # es\<rparr>, False)
        else let r = (if t_sub now (ur_logWindow r) \<ge> minutes 1 then r\<lparr>ur_logWindow := now, ur_logCount := 0\<rparr> else r)
          in if ur_logCount r \<ge> unknownLogBudget then (r\<lparr>ur_entries := e # es\<rparr>, False)
             else (r\<lparr>ur_logCount := ur_logCount r + 1, ur_entries := e\<lparr>us_lastLog := now\<rparr> # es\<rparr>, True))"

definition ring_forget :: "addr \<Rightarrow> unknownRing \<Rightarrow> unknownRing" where
  "ring_forget a r = r\<lparr>ur_entries := filter (\<lambda>e. us_addr e \<noteq> a) (ur_entries r)\<rparr>"

record UnknownSender =
  uo_Address :: string
  uo_FirstSeen :: time
  uo_LastSeen :: time
  uo_Datagrams :: int
  uo_Protocol :: string
  uo_DeviceID :: "string option"
  uo_DeviceName :: string

definition ring_snapshot :: "unknownRing \<Rightarrow> UnknownSender list" where
  "ring_snapshot r = map (\<lambda>e. \<lparr>uo_Address = addr_String (us_addr e), uo_FirstSeen = us_firstSeen e, uo_LastSeen = us_lastSeen e,
      uo_Datagrams = us_datagrams e, uo_Protocol = us_protocol e,
      uo_DeviceID = (if us_isDevice e then Some (dv_id (us_device e)) else None),
      uo_DeviceName = (if us_isDevice e then dv_name (us_device e) else '''')\<rparr>) (ur_entries r)"

subsection \<open>The path of a datagram\<close>

definition bump_rejected :: "listener \<Rightarrow> listener" where
  "bump_rejected s = s\<lparr>ls_global := (ls_global s)\<lparr>gc_rejected := gc_rejected (ls_global s) + 1\<rparr>\<rparr>"

definition bump_rateLimited :: "listener \<Rightarrow> listener" where
  "bump_rateLimited s = s\<lparr>ls_global := (ls_global s)\<lparr>gc_rateLimited := gc_rateLimited (ls_global s) + 1\<rparr>\<rparr>"

text \<open>\<open>!bucket.take(now) || !c.globalBucket.take(now)\<close>: the second bucket is asked only after the first gave.\<close>

definition take_both :: "time \<Rightarrow> tokenBucket \<Rightarrow> tokenBucket \<Rightarrow> bool \<times> tokenBucket \<times> tokenBucket" where
  "take_both now b g =
    (let (ok, b) = bucket_take now b
     in if ok then (let (ok2, g) = bucket_take now g in (ok2, b, g)) else (False, b, g))"

definition enqueue :: "datagram \<Rightarrow> listener \<Rightarrow> listener" where
  "enqueue d s =
    (if length (ls_queue s) < queueCap then s\<lparr>ls_queue := ls_queue s @ [d]\<rparr>
     else s\<lparr>ls_global := (ls_global s)\<lparr>gc_queueDropped := gc_queueDropped (ls_global s) + 1\<rparr>\<rparr>)"

definition from_exporter :: "bytes \<Rightarrow> addr \<Rightarrow> time \<Rightarrow> kind \<Rightarrow> int \<Rightarrow> exporterGate \<Rightarrow> listener \<Rightarrow> listener" where
  "from_exporter b a now k i g s =
    (if \<not> g_enabled g \<or> k = KindUnknown \<or> length b < 4 then bump_rejected s
     else if length b > maxDatagram
       then bump_rejected (s\<lparr>ls_gates := gm_put i (g\<lparr>g_oversized := g_oversized g + 1\<rparr>) (ls_gates s)\<rparr>)
     else let (ok, eb, gb) = take_both now (g_bucket g) (ls_globalBucket s);
              s = s\<lparr>ls_globalBucket := gb\<rparr>;
              g = g\<lparr>g_bucket := eb\<rparr>
       in if \<not> ok then bump_rateLimited (s\<lparr>ls_gates := gm_put i (g\<lparr>g_rateLimited := g_rateLimited g + 1\<rparr>) (ls_gates s)\<rparr>)
          else enqueue \<lparr>dg_addr = a, dg_exporterID = g_id g, dg_candidate = None, dg_bytes = b, dg_received = now\<rparr>
                 (s\<lparr>ls_gates := gm_put i g (ls_gates s)\<rparr>))"

definition from_candidate :: "bytes \<Rightarrow> addr \<Rightarrow> time \<Rightarrow> candidateGate \<Rightarrow> listener \<Rightarrow> listener" where
  "from_candidate b a now cg s =
    (if length b > maxDatagram then bump_rejected s
     else let (ok, cb, gb) = take_both now (cg_bucket cg) (ls_globalBucket s);
              al = (ls_allow s)\<lparr>al_candidates := gm_put a (cg\<lparr>cg_bucket := cb\<rparr>) (al_candidates (ls_allow s))\<rparr>;
              s = s\<lparr>ls_globalBucket := gb, ls_allow := al\<rparr>
       in if \<not> ok then bump_rateLimited s
          else enqueue \<lparr>dg_addr = a, dg_exporterID = 0, dg_candidate = Some (cg_deviceID cg, cg_name cg), dg_bytes = b,
                        dg_received = now\<rparr> s)"

definition from_unknown :: "addr \<Rightarrow> time \<Rightarrow> kind \<Rightarrow> listener \<Rightarrow> listener" where
  "from_unknown a now k s =
    (let dev = gm_get (al_devices (ls_allow s)) a;
         (r, _) = ring_record a k now (case dev of Some d \<Rightarrow> d | None \<Rightarrow> no_device) (dev \<noteq> None) (ls_unknown s)
     in s\<lparr>ls_global := (ls_global s)\<lparr>gc_unknownDatagrams := gc_unknownDatagrams (ls_global s) + 1\<rparr>, ls_unknown := r\<rparr>)"

text \<open>The gate of an address: the allow-list's pointer.\<close>

definition gate_of :: "addr \<Rightarrow> listener \<Rightarrow> (int \<times> exporterGate) option" where
  "gate_of a s = (case gm_get (al_exporters (ls_allow s)) a of None \<Rightarrow> None
     | Some i \<Rightarrow> map_option (\<lambda>g. (i, g)) (gm_get (ls_gates s) i))"

definition handlePacket :: "bytes \<Rightarrow> addr \<Rightarrow> time \<Rightarrow> listener \<Rightarrow> listener option" where
  "handlePacket b a now s = do {
     let s = s\<lparr>ls_global := (ls_global s)\<lparr>gc_datagrams := gc_datagrams (ls_global s) + 1\<rparr>\<rparr>;
     k \<leftarrow> Sniff b;
     case gate_of a s of
       Some (i, g) \<Rightarrow> Some (from_exporter b a now k i g s)
     | None \<Rightarrow> (case gm_get (al_candidates (ls_allow s)) a of
         Some cg \<Rightarrow> if k \<noteq> KindUnknown \<and> length b \<ge> 4 then Some (from_candidate b a now cg s)
                    else Some (from_unknown a now k s)
       | None \<Rightarrow> Some (from_unknown a now k s)) }"

subsection \<open>Kernel drops\<close>

text \<open>\<open>strings.Fields\<close> on ASCII text.\<close>

fun fields_acc :: "string \<Rightarrow> string \<Rightarrow> string list" where
  "fields_acc cur [] = (if cur = [] then [] else [cur])"
| "fields_acc cur (c # cs) =
    (if is_space c then (if cur = [] then fields_acc [] cs else cur # fields_acc [] cs) else fields_acc (cur @ [c]) cs)"

definition Fields :: "string \<Rightarrow> string list" where
  "Fields s = fields_acc [] s"

text \<open>\<open>strings.Cut(s, sep)\<close> for a one-character separator: the text after it.\<close>

definition cut_after :: "char \<Rightarrow> string \<Rightarrow> string option" where
  "cut_after sep s = (case dropWhile (\<lambda>c. c \<noteq> sep) s of [] \<Rightarrow> None | _ # r \<Rightarrow> Some r)"

definition hex_digit :: "char \<Rightarrow> nat option" where
  "hex_digit c =
    (let n = of_char c
     in if 48 \<le> n \<and> n \<le> 57 then Some (n - 48)
        else if 97 \<le> n \<and> n \<le> 102 then Some (n - 87)
        else if 65 \<le> n \<and> n \<le> 70 then Some (n - 55) else None)"

text \<open>\<open>strconv.ParseUint(s, 16, 16)\<close>.\<close>

definition parse_hex16 :: "string \<Rightarrow> u16 option" where
  "parse_hex16 s =
    (if s = [] then None
     else case fold (\<lambda>c acc. do { n \<leftarrow> acc; d \<leftarrow> hex_digit c; Some (16 * n + d) }) s (Some 0) of
       Some n \<Rightarrow> if n < 65536 then Some (word_of_nat n) else None
     | None \<Rightarrow> None)"

definition udp_line :: "(u16, bool) gomap \<Rightarrow> string \<Rightarrow> int option" where
  "udp_line ports line =
    (let fs = Fields line
     in if length fs < 13 then None
        else do { hexPort \<leftarrow> cut_after (CHR '':'') (fs ! 1);
                  port \<leftarrow> parse_hex16 hexPort;
                  if gm_get ports port = Some True then Atoi (last fs) else None })"

definition parseProcUDP :: "string list \<Rightarrow> (u16, bool) gomap \<Rightarrow> int \<times> bool" where
  "parseProcUDP lns ports =
    fold (\<lambda>line (tot, found). case udp_line ports line of None \<Rightarrow> (tot, found) | Some d \<Rightarrow> (wrap64 (tot + d), True))
      (drop 1 lns) (0, False)"

text \<open>\<open>kernelDrops\<close>; the lines of a file, \<open>None\<close> when it cannot be opened, are the argument \<open>read\<close>.\<close>

definition procUDPDrops :: "(string \<Rightarrow> string list option) \<Rightarrow> string \<Rightarrow> (u16, bool) gomap \<Rightarrow> int \<times> bool" where
  "procUDPDrops read path ports = (case read path of None \<Rightarrow> (0, False) | Some lns \<Rightarrow> parseProcUDP lns ports)"

definition kernelDrops :: "(string \<Rightarrow> string list option) \<Rightarrow> (u16, bool) gomap \<Rightarrow> int \<times> bool" where
  "kernelDrops read ports =
    (if gm_len ports = 0 then (0, False)
     else fold (\<lambda>path (tot, found). case procUDPDrops read path ports of (n, ok) \<Rightarrow> (wrap64 (tot + n), found \<or> ok))
       [''/proc/self/net/udp'', ''/proc/self/net/udp6''] (0, False))"

subsection \<open>Buckets stay within their burst\<close>

definition bucket_ok :: "tokenBucket \<Rightarrow> bool" where
  "bucket_ok b \<longleftrightarrow> 0 \<le> tb_rate b \<and> 0 \<le> tb_tokens b \<and> tb_tokens b \<le> tb_burst b \<and> tb_burst b \<le> 4503599627370496"

lemma fl64_upper: assumes "0 \<le> y" and "y \<le> 9007199254740992" shows "fl64 y \<le> y + 1"
proof -
  have "fl64 y - y \<le> \<bar>y\<bar> / 2 ^ 53" using fl64_error [of y] by (rule order_trans [OF abs_ge_self])
  moreover have "\<bar>y\<bar> / 2 ^ 53 \<le> 1" using assms by simp
  ultimately show ?thesis by linarith
qed

lemma f_sub_one:
  assumes "1 \<le> x" and "x \<le> 4503599627370496" shows "0 \<le> f_sub x 1 \<and> f_sub x 1 \<le> x"
  using assms fl64_upper [of "x - 1"] fl64_nonneg [of "x - 1"] by (simp add: f_sub_def)

lemma f_mul_nonneg: "0 \<le> x \<Longrightarrow> 0 \<le> y \<Longrightarrow> 0 \<le> f_mul x y"
  by (simp add: f_mul_def fl64_nonneg)

lemma f_add_nonneg: "0 \<le> x \<Longrightarrow> 0 \<le> y \<Longrightarrow> 0 \<le> f_add x y"
  by (simp add: f_add_def fl64_nonneg)

lemma f_double_le: "0 \<le> rate \<Longrightarrow> rate \<le> 1125899906842624 \<Longrightarrow> f_mul 2 rate \<le> 4503599627370496"
  using fl64_upper [of "2 * rate"] by (simp add: f_mul_def)

lemma bucket_ok_refill: "bucket_ok b \<Longrightarrow> bucket_ok (refill now b)"
  by (auto simp: refill_def Let_def bucket_ok_def intro!: f_add_nonneg f_mul_nonneg)

lemma bucket_ok_take:
  assumes "bucket_ok b" and "bucket_take now b = (ok, b')" shows "bucket_ok b'"
proof -
  have r: "bucket_ok (refill now b)" using assms(1) by (rule bucket_ok_refill)
  have "0 \<le> f_sub (tb_tokens (refill now b)) 1 \<and> f_sub (tb_tokens (refill now b)) 1 \<le> tb_tokens (refill now b)"
    if "1 \<le> tb_tokens (refill now b)"
    using r that by (intro f_sub_one) (auto simp: bucket_ok_def)
  then show ?thesis using r assms(2) by (auto simp: bucket_take_def Let_def bucket_ok_def split: if_splits)
qed

lemma bucket_ok_new: "0 \<le> rate \<Longrightarrow> rate \<le> 1125899906842624 \<Longrightarrow> bucket_ok (newTokenBucket rate)"
  by (simp add: newTokenBucket_def bucket_ok_def f_mul_nonneg f_double_le)

lemma bucket_ok_setRate: "bucket_ok b \<Longrightarrow> 0 \<le> rate \<Longrightarrow> rate \<le> 1125899906842624 \<Longrightarrow> bucket_ok (setRate rate b)"
  by (simp add: setRate_def bucket_ok_def f_mul_nonneg f_double_le)

text \<open>
  A token bucket never holds a negative number of tokens or more than its burst, whatever the
  clock does (an instant before the last one refills nothing) and whatever \<open>float64\<close> rounds; it
  grants a token exactly when at least one is there after the refill.
\<close>

theorem bucket_take_ok:
  assumes "bucket_ok b"
  shows "bucket_ok (snd (bucket_take now b)) \<and> (fst (bucket_take now b) \<longleftrightarrow> 1 \<le> tb_tokens (refill now b))
    \<and> tb_burst (snd (bucket_take now b)) = tb_burst b"
  using bucket_ok_take [OF assms, of now "fst (bucket_take now b)" "snd (bucket_take now b)"]
  by (auto simp: bucket_take_def Let_def refill_def)

theorem bucket_take_ok_witness: "bucket_ok (snd (bucket_take (seconds 5) (newTokenBucket 2000)))"
  using bucket_take_ok [of "newTokenBucket 2000" "seconds 5"] bucket_ok_new [of 2000] by simp

lemma take_both_ok:
  assumes "bucket_ok b" and "bucket_ok g" and "take_both now b g = (ok, b', g')"
  shows "bucket_ok b' \<and> bucket_ok g'"
  using assms bucket_ok_take by (auto simp: take_both_def split: if_splits prod.splits)

subsection \<open>The ring of unknown senders\<close>

definition ring_ok :: "unknownRing \<Rightarrow> bool" where
  "ring_ok r \<longleftrightarrow> length (ur_entries r) \<le> unknownRingCap \<and> distinct (map us_addr (ur_entries r)) \<and> ur_logCount r \<le> unknownLogBudget"

lemma map_ring_delete: "map us_addr (ring_delete a es) = remove1 a (map us_addr es)"
  by (induction es) auto

lemma ring_find_Some: "ring_find a r = Some e \<Longrightarrow> us_addr e = a \<and> a \<in> set (map us_addr (ur_entries r))"
  unfolding ring_find_def by (auto simp: find_Some_iff)

lemma ring_find_None: "ring_find a r = None \<Longrightarrow> a \<notin> set (map us_addr (ur_entries r))"
  by (auto simp: ring_find_def find_None_iff)

lemma ring_place_addrs:
  assumes "ring_ok r" and "ring_place a k now dev isDev r = (e, es)"
  shows "map us_addr (e # es) = take unknownRingCap (a # removeAll a (map us_addr (ur_entries r)))"
proof (cases "ring_find a r")
  case None
  have "removeAll a (map us_addr (ur_entries r)) = map us_addr (ur_entries r)"
    using ring_find_None [OF None] by (simp add: removeAll_id)
  then show ?thesis using None assms(2)
    by (auto simp: ring_place_def Let_def take_map unknownRingCap_def take_Cons')
next
  case (Some x)
  have len: "length (remove1 a (map us_addr (ur_entries r))) < unknownRingCap"
    using ring_find_Some [OF Some] assms(1) by (auto simp: ring_ok_def length_remove1 unknownRingCap_def)
  have "removeAll a (map us_addr (ur_entries r)) = remove1 a (map us_addr (ur_entries r))"
    using assms(1) by (simp add: ring_ok_def distinct_remove1_removeAll)
  then show ?thesis using Some assms(2) ring_find_Some [OF Some] len
    by (auto simp: ring_place_def Let_def map_ring_delete take_Cons')
qed

lemma ring_record_addrs:
  assumes "ring_ok r"
  shows "map us_addr (ur_entries (fst (ring_record a k now dev isDev r)))
    = take unknownRingCap (a # removeAll a (map us_addr (ur_entries r)))"
proof -
  obtain e es where p: "ring_place a k now dev isDev r = (e, es)" by force
  define r' where "r' = (if t_sub now (ur_logWindow r) \<ge> minutes 1 then r\<lparr>ur_logWindow := now, ur_logCount := 0\<rparr> else r)"
  have "map us_addr (ur_entries (fst (ring_record a k now dev isDev r))) = map us_addr (e # es)"
    unfolding ring_record_def p prod.case Let_def r'_def [symmetric]
    by (cases "t_sub now (us_lastLog e) < unknownLogEvery"; cases "ur_logCount r' \<ge> unknownLogBudget") simp_all
  then show ?thesis using ring_place_addrs [OF assms p] by (simp only:)
qed

lemma ring_ok_record: assumes "ring_ok r" shows "ring_ok (fst (ring_record a k now dev isDev r))"
proof -
  have d: "distinct (take unknownRingCap (a # removeAll a (map us_addr (ur_entries r))))"
    using assms by (intro distinct_take) (simp add: ring_ok_def distinct_removeAll)
  have "length (ur_entries (fst (ring_record a k now dev isDev r))) \<le> unknownRingCap"
    using arg_cong [OF ring_record_addrs [OF assms], of length a k now dev isDev] by simp
  moreover have "ur_logCount (fst (ring_record a k now dev isDev r)) \<le> unknownLogBudget"
    using assms by (auto simp: ring_record_def Let_def ring_ok_def unknownLogBudget_def split: prod.splits)
  ultimately show ?thesis using ring_record_addrs [OF assms] d by (simp add: ring_ok_def)
qed

text \<open>
  The ring of unknown senders is a least-recently-seen cache of 16 addresses: recording a sender puts
  it in front, keeps the order of the others and drops the oldest when a new one does not fit; no
  address appears twice.
\<close>

theorem unknown_ring_lru:
  assumes "ring_ok r"
  shows "ring_ok (fst (ring_record a k now dev isDev r))
    \<and> map us_addr (ur_entries (fst (ring_record a k now dev isDev r)))
        = take unknownRingCap (a # removeAll a (map us_addr (ur_entries r)))"
  using ring_ok_record [OF assms] ring_record_addrs [OF assms] by blast

theorem unknown_ring_lru_witness:
  "map us_addr (ur_entries (fst (ring_record (Addr4 [10, 0, 0, 1]) KindNFv9 (seconds 5) no_device False (ls_unknown newListener))))
    = [Addr4 [10, 0, 0, 1]]"
  using unknown_ring_lru [of "ls_unknown newListener" "Addr4 [10, 0, 0, 1]" KindNFv9 "seconds 5" no_device False]
  by (simp add: ring_ok_def newListener_def unknownRingCap_def unknownLogBudget_def)

subsection \<open>The invariant of the reader side\<close>

definition dg_ok :: "datagram \<Rightarrow> bool" where
  "dg_ok d \<longleftrightarrow> 4 \<le> length (dg_bytes d) \<and> length (dg_bytes d) \<le> maxDatagram \<and> Sniff (dg_bytes d) \<noteq> Some KindUnknown"

definition listener_ok :: "listener \<Rightarrow> bool" where
  "listener_ok s \<longleftrightarrow> length (ls_queue s) \<le> queueCap \<and> list_all dg_ok (ls_queue s) \<and> ring_ok (ls_unknown s) \<and>
     bucket_ok (ls_globalBucket s) \<and> gm_all (\<lambda>g. bucket_ok (g_bucket g)) (ls_gates s) \<and>
     gm_all (\<lambda>c. bucket_ok (cg_bucket c)) (al_candidates (ls_allow s))"

definition dropped :: "listener \<Rightarrow> int" where
  "dropped s = gc_rejected (ls_global s) + gc_rateLimited (ls_global s) + gc_queueDropped (ls_global s)
     + gc_unknownDatagrams (ls_global s)"

text \<open>What one datagram may do to the queue and the counters.\<close>

definition accounted :: "listener \<Rightarrow> listener \<Rightarrow> bool" where
  "accounted s s' \<longleftrightarrow> dropped s' + int (length (ls_queue s')) = dropped s + int (length (ls_queue s)) + 1
     \<and> dropped s \<le> dropped s' \<and> gc_datagrams (ls_global s') = gc_datagrams (ls_global s)"

lemma accounted_bump: "accounted s (bump_rejected s)" "accounted s (bump_rateLimited s)"
  by (simp_all add: accounted_def dropped_def bump_rejected_def bump_rateLimited_def)

lemma accounted_enqueue: "accounted s (enqueue d s)"
  by (simp add: accounted_def dropped_def enqueue_def)

lemma accounted_upd:
  "accounted (s\<lparr>ls_gates := g\<rparr>) s' = accounted s s'" "accounted (s\<lparr>ls_globalBucket := b\<rparr>) s' = accounted s s'"
  "accounted (s\<lparr>ls_allow := al\<rparr>) s' = accounted s s'"
  by (simp_all add: accounted_def dropped_def)

lemma accounted_from:
  "accounted s (from_exporter b a now k i g s)" "accounted s (from_candidate b a now cg s)" "accounted s (from_unknown a now k s)"
proof -
  show "accounted s (from_exporter b a now k i g s)"
    using accounted_bump accounted_enqueue
    by (simp add: from_exporter_def Let_def split: prod.splits) (metis accounted_upd accounted_bump accounted_enqueue)
  show "accounted s (from_candidate b a now cg s)"
    by (simp add: from_candidate_def Let_def accounted_bump split: prod.splits) (metis accounted_upd accounted_bump accounted_enqueue)
  show "accounted s (from_unknown a now k s)"
    by (simp add: from_unknown_def accounted_def dropped_def Let_def split_beta)
qed

lemma listener_ok_simps:
  "listener_ok (bump_rejected s) = listener_ok s" "listener_ok (bump_rateLimited s) = listener_ok s"
  by (simp_all add: listener_ok_def bump_rejected_def bump_rateLimited_def)

lemma listener_ok_enqueue: "listener_ok s \<Longrightarrow> dg_ok d \<Longrightarrow> listener_ok (enqueue d s)"
  by (simp add: listener_ok_def enqueue_def)

lemma listener_ok_gate:
  "listener_ok s \<Longrightarrow> bucket_ok (g_bucket g) \<Longrightarrow> listener_ok (s\<lparr>ls_gates := gm_put i g (ls_gates s)\<rparr>)"
  by (simp add: listener_ok_def gm_all_put)

lemma listener_ok_global: "listener_ok s \<Longrightarrow> bucket_ok b \<Longrightarrow> listener_ok (s\<lparr>ls_globalBucket := b\<rparr>)"
  by (simp add: listener_ok_def)

lemma listener_ok_candidate:
  "listener_ok s \<Longrightarrow> bucket_ok (cg_bucket cg) \<Longrightarrow>
    listener_ok (s\<lparr>ls_allow := (ls_allow s)\<lparr>al_candidates := gm_put a cg (al_candidates (ls_allow s))\<rparr>\<rparr>)"
  by (simp add: listener_ok_def gm_all_put)

lemma listener_ok_from_exporter:
  assumes s: "listener_ok s" and g: "bucket_ok (g_bucket g)" and k: "Sniff b = Some k"
  shows "listener_ok (from_exporter b a now k i g s)"
proof -
  obtain ok eb gb where t: "take_both now (g_bucket g) (ls_globalBucket s) = (ok, eb, gb)" by (metis prod.exhaust_sel)
  have e: "bucket_ok eb" "bucket_ok gb" using take_both_ok [OF g _ t] s by (auto simp: listener_ok_def)
  have s1: "listener_ok (s\<lparr>ls_globalBucket := gb\<rparr>)" using s e(2) by (rule listener_ok_global)
  have "listener_ok ((s\<lparr>ls_globalBucket := gb\<rparr>)\<lparr>ls_gates := gm_put i (g\<lparr>g_bucket := eb, g_rateLimited := x\<rparr>) (ls_gates s)\<rparr>)" for x
    using listener_ok_gate [OF s1, of "g\<lparr>g_bucket := eb, g_rateLimited := x\<rparr>"] e by simp
  moreover have "listener_ok ((s\<lparr>ls_globalBucket := gb\<rparr>)\<lparr>ls_gates := gm_put i (g\<lparr>g_bucket := eb\<rparr>) (ls_gates s)\<rparr>)"
    using listener_ok_gate [OF s1, of "g\<lparr>g_bucket := eb\<rparr>"] e by simp
  moreover have "listener_ok (s\<lparr>ls_gates := gm_put i (g\<lparr>g_oversized := x\<rparr>) (ls_gates s)\<rparr>)" for x
    using listener_ok_gate [OF s, of "g\<lparr>g_oversized := x\<rparr>"] g by simp
  ultimately show ?thesis using s k
    by (auto simp: from_exporter_def t Let_def listener_ok_simps dg_ok_def intro!: listener_ok_enqueue)
qed

lemma listener_ok_from_candidate:
  assumes s: "listener_ok s" and g: "bucket_ok (cg_bucket cg)" and k: "Sniff b = Some k" "k \<noteq> KindUnknown" "4 \<le> length b"
  shows "listener_ok (from_candidate b a now cg s)"
proof -
  obtain ok cb gb where t: "take_both now (cg_bucket cg) (ls_globalBucket s) = (ok, cb, gb)" by (metis prod.exhaust_sel)
  have e: "bucket_ok cb" "bucket_ok gb" using take_both_ok [OF g _ t] s by (auto simp: listener_ok_def)
  have s1: "listener_ok (s\<lparr>ls_globalBucket := gb\<rparr>)" using s e(2) by (rule listener_ok_global)
  have "listener_ok (s\<lparr>ls_globalBucket := gb,
      ls_allow := (ls_allow s)\<lparr>al_candidates := gm_put a (cg\<lparr>cg_bucket := cb\<rparr>) (al_candidates (ls_allow s))\<rparr>\<rparr>)"
    using listener_ok_candidate [OF s1, of "cg\<lparr>cg_bucket := cb\<rparr>" a] e by simp
  then show ?thesis using s k
    by (auto simp: from_candidate_def t Let_def listener_ok_simps dg_ok_def intro!: listener_ok_enqueue)
qed

lemma listener_ok_from_unknown: "listener_ok s \<Longrightarrow> listener_ok (from_unknown a now k s)"
  by (simp add: from_unknown_def Let_def split_beta listener_ok_def ring_ok_record)

lemma handlePacket_ok:
  assumes "listener_ok s"
  shows "\<exists>s'. handlePacket b a now s = Some s' \<and> listener_ok s'
    \<and> gc_datagrams (ls_global s') = gc_datagrams (ls_global s) + 1
    \<and> dropped s' + int (length (ls_queue s')) = dropped s + int (length (ls_queue s)) + 1
    \<and> dropped s \<le> dropped s'"
proof -
  let ?s = "s\<lparr>ls_global := (ls_global s)\<lparr>gc_datagrams := gc_datagrams (ls_global s) + 1\<rparr>\<rparr>"
  obtain k where k: "Sniff b = Some k" using Sniff_total by blast
  have ok: "listener_ok ?s" using assms by (simp add: listener_ok_def)
  have gate: "bucket_ok (g_bucket g)" if "gate_of a ?s = Some (i, g)" for i g
    using ok that by (auto simp: gate_of_def listener_ok_def dest: gm_all_get split: option.splits)
  have cand: "bucket_ok (cg_bucket cg)" if "gm_get (al_candidates (ls_allow ?s)) a = Some cg" for cg
    using ok that unfolding listener_ok_def by (blast dest: gm_all_get)
  have "\<exists>s'. handlePacket b a now s = Some s' \<and> listener_ok s' \<and> accounted ?s s'"
    using ok gate cand k accounted_from
      listener_ok_from_exporter [OF ok _ k] listener_ok_from_candidate [OF ok _ k] listener_ok_from_unknown [OF ok]
    by (simp add: handlePacket_def Let_def split: option.splits prod.splits)
  then show ?thesis by (auto simp: accounted_def dropped_def)
qed

text \<open>
  C17: the reader stays within its bounds on every datagram. \<open>handlePacket\<close> never panics; the queue
  holds at most 1024 datagrams, each of 4 to 9216 bytes and of a recognised protocol (about 9 MB in
  all), the ring of unknown senders at most 16 entries, and every bucket between zero and its burst.
  The datagram is counted once, and exactly one of these happens: it is queued, rejected, rate
  limited, dropped on a full queue, or recorded as unknown.
\<close>

theorem handlePacket_safe:
  assumes "listener_ok s"
  shows "\<exists>s'. handlePacket b a now s = Some s' \<and> listener_ok s'
    \<and> gc_datagrams (ls_global s') = gc_datagrams (ls_global s) + 1
    \<and> dropped s' + int (length (ls_queue s')) = dropped s + int (length (ls_queue s)) + 1
    \<and> dropped s \<le> dropped s'"
  using assms by (rule handlePacket_ok)

lemma listener_ok_new: "listener_ok newListener"
proof -
  have "f_of_int (globalRateFactor * 2000) = fl64 10000" by (simp add: f_of_int_def globalRateFactor_def)
  then have "bucket_ok (newTokenBucket (f_of_int (globalRateFactor * 2000)))"
    using fl64_upper [of 10000] fl64_nonneg [of 10000] by (intro bucket_ok_new) simp_all
  then show ?thesis by (simp add: listener_ok_def newListener_def empty_allow_def ring_ok_def unknownLogBudget_def)
qed

theorem handlePacket_safe_witness:
  "\<exists>s'. handlePacket [0, 9, 0, 1] (Addr4 [10, 0, 0, 1]) (seconds 5) newListener = Some s' \<and> listener_ok s'
    \<and> dropped s' + int (length (ls_queue s')) = 1"
  using handlePacket_safe [OF listener_ok_new, of "[0, 9, 0, 1]" "Addr4 [10, 0, 0, 1]" "seconds 5"]
  by (auto simp: dropped_def newListener_def zero_global_def)

lemma queue_bump [simp]: "ls_queue (bump_rejected s) = ls_queue s" "ls_queue (bump_rateLimited s) = ls_queue s"
  by (simp_all add: bump_rejected_def bump_rateLimited_def)

lemma queue_enqueue: "length (ls_queue s) < length (ls_queue (enqueue d s)) \<Longrightarrow> ls_queue (enqueue d s) = ls_queue s @ [d]"
  by (simp add: enqueue_def split: if_splits)

lemma queue_from_exporter:
  assumes "length (ls_queue s) < length (ls_queue (from_exporter b a now k i g s))"
  shows "g_enabled g \<and> ls_queue (from_exporter b a now k i g s) =
    ls_queue s @ [\<lparr>dg_addr = a, dg_exporterID = g_id g, dg_candidate = None, dg_bytes = b, dg_received = now\<rparr>]"
  using assms by (auto simp: from_exporter_def Let_def enqueue_def split: if_splits prod.splits)

lemma queue_from_candidate:
  assumes "length (ls_queue s) < length (ls_queue (from_candidate b a now cg s))"
  shows "ls_queue (from_candidate b a now cg s) =
    ls_queue s @ [\<lparr>dg_addr = a, dg_exporterID = 0, dg_candidate = Some (cg_deviceID cg, cg_name cg), dg_bytes = b, dg_received = now\<rparr>]"
  using assms by (auto simp: from_candidate_def Let_def enqueue_def split: if_splits prod.splits)

lemma queue_from_unknown [simp]: "ls_queue (from_unknown a now k s) = ls_queue s"
  by (simp add: from_unknown_def Let_def split_beta)

text \<open>
  C13: nothing reaches the decoder uninvited. When a datagram is queued, it is queued unchanged at the
  end, and its sender is either the address of an enabled exporter (and the entry carries that
  exporter's id) or a managed device that is a candidate; datagrams of every other sender leave the
  queue as it was.
\<close>

theorem handlePacket_admission:
  assumes "handlePacket b a now s = Some s'" and "length (ls_queue s) < length (ls_queue s')"
  shows "(\<exists>i g. gate_of a s = Some (i, g) \<and> g_enabled g \<and>
      ls_queue s' = ls_queue s @ [\<lparr>dg_addr = a, dg_exporterID = g_id g, dg_candidate = None, dg_bytes = b, dg_received = now\<rparr>])
    \<or> (\<exists>cg. gate_of a s = None \<and> gm_get (al_candidates (ls_allow s)) a = Some cg \<and>
      ls_queue s' = ls_queue s @ [\<lparr>dg_addr = a, dg_exporterID = 0, dg_candidate = Some (cg_deviceID cg, cg_name cg),
                                    dg_bytes = b, dg_received = now\<rparr>])"
proof -
  let ?s = "s\<lparr>ls_global := (ls_global s)\<lparr>gc_datagrams := gc_datagrams (ls_global s) + 1\<rparr>\<rparr>"
  obtain k where k: "Sniff b = Some k" using Sniff_total by blast
  have g: "gate_of a ?s = gate_of a s" by (simp add: gate_of_def split: option.splits)
  consider (exp) i x where "gate_of a s = Some (i, x)" "s' = from_exporter b a now k i x ?s"
    | (cand) cg where "gate_of a s = None" "gm_get (al_candidates (ls_allow s)) a = Some cg" "s' = from_candidate b a now cg ?s"
    | (unk) "s' = from_unknown a now k ?s"
    using assms(1) k by (auto simp: handlePacket_def Let_def g split: option.splits if_splits)
  then show ?thesis
  proof cases
    case exp
    then show ?thesis using queue_from_exporter [of ?s b a now k i x] assms(2) by auto
  next
    case cand
    then show ?thesis using queue_from_candidate [of ?s b a now cg] assms(2) by auto
  next
    case unk
    then show ?thesis using assms(2) by simp
  qed
qed

definition demo_bucket :: tokenBucket where
  "demo_bucket = \<lparr>tb_rate = 2, tb_burst = 4, tb_tokens = 4, tb_last = zero_time\<rparr>"

definition demo_listener :: listener where
  "demo_listener = newListener\<lparr>ls_allow := \<lparr>al_exporters = [(Addr4 [10, 0, 0, 1], 7)], al_candidates = [], al_devices = []\<rparr>,
     ls_gates := [(7, \<lparr>g_id = 7, g_enabled = True, g_bucket = demo_bucket, g_rateLimited = 0, g_oversized = 0\<rparr>)],
     ls_globalBucket := demo_bucket\<rparr>"

theorem handlePacket_admission_witness:
  "map dg_exporterID (ls_queue (the (handlePacket [0, 9, 0, 1] (Addr4 [10, 0, 0, 1]) (seconds 5) demo_listener))) = [7]"
proof -
  have t: "take_both (seconds 5) demo_bucket demo_bucket
      = (True, demo_bucket\<lparr>tb_last := seconds 5, tb_tokens := f_sub 4 1\<rparr>, demo_bucket\<lparr>tb_last := seconds 5, tb_tokens := f_sub 4 1\<rparr>)"
    by (simp add: take_both_def bucket_take_def refill_def demo_bucket_def is_zero_def)
  have k: "Sniff [0, 9, 0, 1] = Some KindNFv9" by (simp add: Sniff_def u16_at_def be16_def)
  have g: "gate_of (Addr4 [10, 0, 0, 1]) demo_listener
      = Some (7, \<lparr>g_id = 7, g_enabled = True, g_bucket = demo_bucket, g_rateLimited = 0, g_oversized = 0\<rparr>)"
    by (simp add: gate_of_def demo_listener_def gm_get_def)
  obtain s' where s': "handlePacket [0, 9, 0, 1] (Addr4 [10, 0, 0, 1]) (seconds 5) demo_listener = Some s'" "length (ls_queue s') = 1"
    by (simp add: handlePacket_def k gate_of_def demo_listener_def gm_get_def from_exporter_def maxDatagram_def t enqueue_def
        queueCap_def newListener_def)
  then show ?thesis using handlePacket_admission [OF s'(1)] g by (auto simp: demo_listener_def newListener_def)
qed

end
