(* ===== verification/Worker_State.thy ===== *)
theory Worker_State
  imports Listener Normalize Exporter
begin

text \<open>
  The state of the collector's worker (\<open>flow/worker.go\<close>, \<open>flow/collector.go\<close>, \<open>flow/writer.go\<close>): settings,
  the state of one exporter, the writer's channel, and the operations that configure them (\<open>configure\<close>,
  \<open>newExpState\<close>, \<open>rebuildIfKnown\<close>, \<open>admitIface\<close>, \<open>absorbDecodeStats\<close>, \<open>reconcile\<close>).

  What a reconcile reads from the database is the argument \<open>db\<close>: the rows of each query, \<open>None\<close> when the
  query fails. An address column carries its parse (\<open>None\<close> for text that is not an address) beside its text where the text is used.
  An error text is a string or the error it
  renders. Event counters are unbounded integers. Log lines are not part of the state, their throttles are.
\<close>

subsection \<open>Rows of the database\<close>

record FlowExporter =
  fe_ID :: int
  fe_Name :: string
  fe_AddressText :: string
  fe_Address :: "addr option"
  fe_Kind :: string
  fe_DeviceID :: string
  fe_Enabled :: bool
  fe_Auto :: bool
  fe_SamplingOverride :: int
  fe_NATAddresses :: "addr list"
  fe_LastSeen :: time
  fe_Protocol :: string
  fe_SamplingRate :: int
  fe_Datagrams :: int
  fe_Flows :: int
  fe_Bytes :: int
  fe_DecodeErrors :: int
  fe_TemplateMisses :: int
  fe_SeqLost :: int
  fe_ClockSkewMs :: int
  fe_LastError :: "string + derror"
  fe_LastErrorAt :: time
  fe_CreatedAt :: time

record FlowIface =
  fi_ExporterID :: int
  fi_IfIndex :: u32
  fi_Name :: string
  fi_Type :: string
  fi_VLANID :: int
  fi_Parent :: string
  fi_Role :: string
  fi_Source :: string
  fi_Hint :: string
  fi_FirstSeen :: time
  fi_LastSeen :: time

record FlowPoint =
  fp_ID :: int
  fp_ExporterID :: int
  fp_Name :: string
  fp_Kind :: string
  fp_IfIndexes :: "u32 list"
  fp_Facing :: string
  fp_PortSide :: string
  fp_DeviceID :: string
  fp_Iface :: string
  fp_LocalInternal :: bool
  fp_ExcludeAttach :: "(string \<times> string) list"
  fp_Note :: string
  fp_Auto :: bool
  fp_Enabled :: bool
  fp_CreatedAt :: time

record Device =
  dev_ID :: string
  dev_Address :: "addr option"
  dev_AddressText :: string
  dev_Identity :: string
  dev_Status :: string
  dev_PollingPausedUntil :: "time option"

record db_view =
  db_settings :: settings
  db_exporters :: "FlowExporter list option"
  db_devices :: "Device list option"
  db_points :: "FlowPoint list option"
  db_ifaces :: "FlowIface list option"
  db_templates :: "int \<Rightarrow> time \<Rightarrow> nat \<Rightarrow> TemplateRecord list"

subsection \<open>The writer's channel\<close>

type_synonym pointKey = "int \<times> u32"

record flushBatch =
  fb_minute :: time
  fb_final :: bool
  fb_rows :: "FlowRow list"
  fb_meta :: "FlowMeta list"
  fb_exporterIDs :: "int list"
  fb_touches :: "(int, (u32 \<times> string) list) gomap"
  fb_points :: "pointKey list"
  fb_rollupHour :: time

record statusDelta =
  sd_id :: int
  sd_LastSeen :: time
  sd_Protocol :: string
  sd_SamplingRate :: int
  sd_Datagrams :: int
  sd_Flows :: int
  sd_Bytes :: int
  sd_DecodeErrors :: int
  sd_TemplateMisses :: int
  sd_SeqLost :: int
  sd_ClockSkewMs :: int
  sd_LastError :: "string + derror"
  sd_LastErrorAt :: time

record FlowTemplate =
  ft_ExporterID :: int
  ft_record :: TemplateRecord
  ft_UpdatedAt :: time

datatype writeOp =
    WFlush flushBatch
  | WTemplate FlowTemplate
  | WDeleteTemplates int
  | WWithdraw int "TemplateKey list"
  | WStatus "statusDelta list"
  | WStartupRollup time

definition writerCap :: nat where "writerCap = 8"

subsection \<open>The state of an exporter\<close>

record runtimeSettings =
  rs_topN :: int
  rs_maxRows :: int
  rs_pps :: int
  rs_autoAccept :: bool

record minuteRate =
  mr_minute :: int
  mr_datagrams :: int
  mr_flows :: int
  mr_bytes :: int

record counterSet =
  cs_datagrams :: int
  cs_flows :: int
  cs_bytes :: int
  cs_decodeErrors :: int
  cs_templateMisses :: int
  cs_seqLost :: int

definition zero_counters :: counterSet where
  "zero_counters = \<lparr>cs_datagrams = 0, cs_flows = 0, cs_bytes = 0, cs_decodeErrors = 0, cs_templateMisses = 0, cs_seqLost = 0\<rparr>"

definition cs_sub :: "counterSet \<Rightarrow> counterSet \<Rightarrow> counterSet" where
  "cs_sub a b = \<lparr>cs_datagrams = cs_datagrams a - cs_datagrams b, cs_flows = cs_flows a - cs_flows b,
     cs_bytes = cs_bytes a - cs_bytes b, cs_decodeErrors = cs_decodeErrors a - cs_decodeErrors b,
     cs_templateMisses = cs_templateMisses a - cs_templateMisses b, cs_seqLost = cs_seqLost a - cs_seqLost b\<rparr>"

text \<open>The fields of \<open>expState\<close>, the live-only counters and the persisted health as records of their own.\<close>

record expLive =
  xl_replayed :: int
  xl_pendingDropped :: int
  xl_dupDropped :: int
  xl_selfExport :: int
  xl_natDst :: int
  xl_reboots :: int
  xl_ifaceOverflow :: int
  xl_timeSource :: "time_source \<Rightarrow> int"

record expHealth =
  xh_lastSeen :: time
  xh_lastSeenPersisted :: time
  xh_protocol :: string
  xh_sampling :: int
  xh_skewMs :: int
  xh_lastError :: "string + derror"
  xh_lastErrorAt :: time
  xh_errDirty :: bool

record expTemplates =
  xt_tmplSaved :: "(TemplateKey, time) gomap"
  xt_tmplDeletePending :: bool
  xt_lastTmplDelete :: time

record expIfaces =
  xi_ifKnown :: "(u32, bool) gomap"
  xi_ifLearned :: nat

record 's expState =
  x_row :: FlowExporter
  x_addr :: addr
  x_dec :: "'s Exporter"
  x_prev :: stats
  x_agg :: aggregator
  x_dup :: "dupFilter option"
  x_hints :: "hintTracker option"
  x_base :: counterSet
  x_live :: counterSet
  x_persisted :: counterSet
  x_cnt :: expLive
  x_health :: expHealth
  x_perMin :: "minuteRate list"
  x_tmpl :: expTemplates
  x_firstLogged :: bool
  x_captured :: nat
  x_lastHint :: time
  x_lastIfsyncReq :: time
  x_if :: expIfaces
  x_rebootLog :: logThrottle
  x_overflowLog :: logThrottle

record 's collector =
  c_ls :: listener
  c_listenPorts :: "(u16, bool) gomap"
  c_captureDir :: bool
  c_exps :: "(int, 's expState) gomap"
  c_rows :: "FlowExporter list"
  c_devices :: "(addr, deviceInfo) gomap"
  c_natives :: "(pointKey, bool) gomap"
  c_ifaces :: "(int, (u32, FlowIface) gomap) gomap"
  c_settings :: runtimeSettings
  c_nextFlush :: int
  c_acceptLog :: "(addr, logThrottle) gomap"
  c_writeCh :: "writeOp list"
  c_taken :: "writeOp list"
  c_drain :: "bool option"
  c_ifsyncReq :: "int list"

definition upd_global :: "(globalCounters \<Rightarrow> globalCounters) \<Rightarrow> 's collector \<Rightarrow> 's collector" where
  "upd_global g c = c\<lparr>c_ls := (c_ls c)\<lparr>ls_global := g (ls_global (c_ls c))\<rparr>\<rparr>"

definition put_exp :: "int \<Rightarrow> 's expState \<Rightarrow> 's collector \<Rightarrow> 's collector" where
  "put_exp i st c = c\<lparr>c_exps := gm_put i st (c_exps c)\<rparr>"

definition readSettings :: "settings \<Rightarrow> runtimeSettings" where
  "readSettings get = \<lparr>rs_topN = TopN get, rs_maxRows = MaxRowsPerMinute get, rs_pps = RateLimitPPS get,
     rs_autoAccept = AutoAcceptDevices get\<rparr>"

subsection \<open>Rates\<close>

definition perMinuteWindow :: int where "perMinuteWindow = 5"
definition perMinuteSlots :: int where "perMinuteSlots = 6"

text \<open>The slot of a minute; the clock is after 1970 (a negative index would panic).\<close>

definition rate_slot :: "int \<Rightarrow> nat" where
  "rate_slot m = nat (go_rem (go_quot m 60) perMinuteSlots)"

definition addRate :: "time \<Rightarrow> int \<Rightarrow> int \<Rightarrow> int \<Rightarrow> 's expState \<Rightarrow> 's expState" where
  "addRate now dg flows bs st =
    (let m = floorMinute (unix now);
         i = rate_slot m;
         s = x_perMin st ! i;
         s = (if mr_minute s \<noteq> m then \<lparr>mr_minute = m, mr_datagrams = 0, mr_flows = 0, mr_bytes = 0\<rparr> else s)
     in st\<lparr>x_perMin := (x_perMin st)[i := s\<lparr>mr_datagrams := wrap64 (mr_datagrams s + dg), mr_flows := wrap64 (mr_flows s + flows),
                                             mr_bytes := wrap64 (mr_bytes s + bs)\<rparr>]\<rparr>)"

record Rates =
  r_Datagrams :: rat
  r_Flows :: rat
  r_Bytes :: rat

definition rates :: "time \<Rightarrow> 's expState \<Rightarrow> Rates" where
  "rates now st =
    (let cur = floorMinute (unix now);
         r = fold (\<lambda>s r. if mr_minute s \<ge> cur - perMinuteWindow * 60 \<and> mr_minute s < cur
               then \<lparr>r_Datagrams = f_add (r_Datagrams r) (f_of_int (mr_datagrams s)), r_Flows = f_add (r_Flows r) (f_of_int (mr_flows s)),
                     r_Bytes = f_add (r_Bytes r) (f_of_int (mr_bytes s))\<rparr> else r)
             (x_perMin st) \<lparr>r_Datagrams = 0, r_Flows = 0, r_Bytes = 0\<rparr>
     in \<lparr>r_Datagrams = f_div (r_Datagrams r) 5, r_Flows = f_div (r_Flows r) 5, r_Bytes = f_div (r_Bytes r) 5\<rparr>)"

subsection \<open>Configuration\<close>

text \<open>\<open>configure\<close>; the gate's \<open>enabled\<close> flag is set with it, in \<open>reconcile_row\<close>.\<close>

definition configure :: "FlowExporter \<Rightarrow> time \<Rightarrow> 's expState \<Rightarrow> 's expState" where
  "configure r now st =
    (let opn = (fe_Kind r = ''opnsense'')
     in st\<lparr>x_row := r,
           x_dec := (x_dec st)\<lparr>e_SamplingOverride := word_of_int (max (fe_SamplingOverride r) 0), e_SkipV9Seq := opn\<rparr>,
           x_dup := (if opn \<and> x_dup st = None then Some newDupFilter else if \<not> opn then None else x_dup st),
           x_hints := (if fe_DeviceID r = '''' \<and> x_hints st = None then Some (newHintTracker now)
                       else if fe_DeviceID r \<noteq> '''' then None else x_hints st)\<rparr>)"

definition zero_live :: expLive where
  "zero_live = \<lparr>xl_replayed = 0, xl_pendingDropped = 0, xl_dupDropped = 0, xl_selfExport = 0, xl_natDst = 0, xl_reboots = 0,
     xl_ifaceOverflow = 0, xl_timeSource = (\<lambda>_. 0)\<rparr>"

definition fresh_state :: "'s template_system \<Rightarrow> FlowExporter \<Rightarrow> addr \<Rightarrow> 's expState" where
  "fresh_state ts r a = \<lparr>x_row = r, x_addr = a, x_dec = NewExporter ts, x_prev = zero_stats, x_agg = [], x_dup = None, x_hints = None,
     x_base = \<lparr>cs_datagrams = fe_Datagrams r, cs_flows = fe_Flows r, cs_bytes = fe_Bytes r, cs_decodeErrors = fe_DecodeErrors r,
               cs_templateMisses = fe_TemplateMisses r, cs_seqLost = fe_SeqLost r\<rparr>,
     x_live = zero_counters, x_persisted = zero_counters, x_cnt = zero_live,
     x_health = \<lparr>xh_lastSeen = fe_LastSeen r, xh_lastSeenPersisted = fe_LastSeen r, xh_protocol = fe_Protocol r,
                 xh_sampling = fe_SamplingRate r, xh_skewMs = fe_ClockSkewMs r, xh_lastError = fe_LastError r,
                 xh_lastErrorAt = fe_LastErrorAt r, xh_errDirty = False\<rparr>,
     x_perMin = replicate 6 \<lparr>mr_minute = 0, mr_datagrams = 0, mr_flows = 0, mr_bytes = 0\<rparr>,
     x_tmpl = \<lparr>xt_tmplSaved = [], xt_tmplDeletePending = False, xt_lastTmplDelete = zero_time\<rparr>,
     x_firstLogged = False, x_captured = 0, x_lastHint = zero_time, x_lastIfsyncReq = zero_time,
     x_if = \<lparr>xi_ifKnown = [], xi_ifLearned = 0\<rparr>, x_rebootLog = zero_throttle, x_overflowLog = zero_throttle\<rparr>"

definition templateLoadMaxAge :: duration where "templateLoadMaxAge = hours 24"

text \<open>\<open>newExpState\<close>: the protocol is guessed from the first loaded record when the row has none.\<close>

definition newExpState :: "'s template_system \<Rightarrow> db_view \<Rightarrow> FlowExporter \<Rightarrow> addr \<Rightarrow> time \<Rightarrow> 's expState" where
  "newExpState ts db r a now =
    (let st = configure r now (fresh_state ts r a);
         recs = db_templates db (fe_ID r) (now - templateLoadMaxAge) MaxTemplates;
         (dec, loaded, _) = LoadTemplates ts recs (x_dec st);
         h = x_health st;
         h = (if loaded > 0 \<and> xh_protocol h = ''''
              then h\<lparr>xh_protocol := (if tr_Version (hd recs) = 9 then ''netflow9'' else if tr_Version (hd recs) = 10 then ''ipfix'' else '''')\<rparr>
              else h)
     in st\<lparr>x_dec := dec, x_health := h, x_prev := e_Stats dec\<rparr>)"

definition maxIfacesPerExporter :: nat where "maxIfacesPerExporter = hintIfaceCap"

definition rebuildIfKnown :: "'s collector \<Rightarrow> int \<Rightarrow> 's expState \<Rightarrow> 's expState" where
  "rebuildIfKnown c i st =
    (let ifs = (case gm_get (c_ifaces c) i of Some m \<Rightarrow> m | None \<Rightarrow> []);
         x = fold (\<lambda>(idx, f) x. \<lparr>xi_ifKnown = gm_put idx True (xi_ifKnown x),
                  xi_ifLearned = (if fi_Source f = ''learned'' then xi_ifLearned x + 1 else xi_ifLearned x)\<rparr>) ifs
               \<lparr>xi_ifKnown = [], xi_ifLearned = 0\<rparr>;
         x = fold (\<lambda>((e, idx), _) x. if e = i \<and> \<not> gm_has (xi_ifKnown x) idx
               then \<lparr>xi_ifKnown = gm_put idx True (xi_ifKnown x), xi_ifLearned = xi_ifLearned x + 1\<rparr> else x) (c_natives c) x
     in st\<lparr>x_if := x\<rparr>)"

definition admitIface :: "u32 \<Rightarrow> expIfaces \<Rightarrow> bool \<times> expIfaces" where
  "admitIface idx x =
    (if gm_has (xi_ifKnown x) idx then (True, x)
     else if xi_ifLearned x \<ge> maxIfacesPerExporter then (False, x)
     else (True, \<lparr>xi_ifKnown = gm_put idx True (xi_ifKnown x), xi_ifLearned = xi_ifLearned x + 1\<rparr>))"

text \<open>\<open>absorbDecodeStats\<close> on the exporter and on the global counters.\<close>

definition absorb_exp :: "'s expState \<Rightarrow> 's expState" where
  "absorb_exp st =
    (let s = e_Stats (x_dec st); p = x_prev st; l = x_live st; n = x_cnt st
     in st\<lparr>x_live := l\<lparr>cs_decodeErrors := cs_decodeErrors l + (int (st_DecodeErrors s) - int (st_DecodeErrors p)),
                        cs_templateMisses := cs_templateMisses l + (int (st_TemplateMisses s) - int (st_TemplateMisses p)),
                        cs_seqLost := cs_seqLost l + (int (st_SeqLost s) - int (st_SeqLost p))\<rparr>,
           x_cnt := n\<lparr>xl_replayed := xl_replayed n + (int (st_Replayed s) - int (st_Replayed p)),
                       xl_pendingDropped := xl_pendingDropped n + (int (st_PendingDropped s) - int (st_PendingDropped p)),
                       xl_reboots := xl_reboots n + (int (st_Reboots s) - int (st_Reboots p))\<rparr>,
           x_prev := s\<rparr>)"

definition absorb_global :: "'s expState \<Rightarrow> globalCounters \<Rightarrow> globalCounters" where
  "absorb_global st g =
    (let s = e_Stats (x_dec st); p = x_prev st
     in g\<lparr>gc_rejected := gc_rejected g + (int (st_Rejected s) - int (st_Rejected p)),
          gc_panics := gc_panics g + (int (st_Panics s) - int (st_Panics p))\<rparr>)"

end
