(* ===== verification/Worker.thy ===== *)
theory Worker
  imports Worker_State
begin

text \<open>
  The operations of the collector's worker (\<open>flow/worker.go\<close>, \<open>flow/writer.go\<close>): handing work to the writer,
  flushing minutes, persisting templates and status, reconciling with the database, accepting a managed
  device and processing a datagram.

  \<open>env\<close> is the world of one step: the template system and decoders of goflow2, what the database
  answers, the outcome of creating an exporter row, and the kernel's drop counters. A shutdown is
  \<open>c_drain = Some room\<close>, where \<open>room\<close> says whether the writer takes an operation before the deadline;
  \<open>c_taken\<close> lists what the writer has taken.
\<close>

datatype create_result = CreateOk | CreateExists | CreateFails

record 's env =
  en_ts :: "'s template_system"
  en_dec :: "'s decoders"
  en_db :: db_view
  en_create :: create_result
  en_kernelDrops :: "int \<times> bool"

subsection \<open>The writer's channel\<close>

definition submit :: "writeOp \<Rightarrow> 's collector \<Rightarrow> bool \<times> 's collector" where
  "submit op c =
    (if length (c_writeCh c) < writerCap then (True, c\<lparr>c_writeCh := c_writeCh c @ [op]\<rparr>)
     else if c_drain c = Some True
       then (True, c\<lparr>c_taken := c_taken c @ [hd (c_writeCh c)], c_writeCh := tl (c_writeCh c) @ [op]\<rparr>)
     else (False, case op of WFlush _ \<Rightarrow> upd_global (\<lambda>g. g\<lparr>gc_writerDropped := gc_writerDropped g + 1\<rparr>) c | _ \<Rightarrow> c))"

definition submitMaint :: "writeOp \<Rightarrow> 's collector \<Rightarrow> bool \<times> 's collector" where
  "submitMaint op c =
    (if c_drain c = None \<and> length (c_writeCh c) \<ge> writerCap div 2 then (False, c) else submit op c)"

text \<open>One receive of \<open>writerLoop\<close>.\<close>

definition writer_take :: "'s collector \<Rightarrow> 's collector" where
  "writer_take c = (case c_writeCh c of [] \<Rightarrow> c | op # ops \<Rightarrow> c\<lparr>c_writeCh := ops, c_taken := c_taken c @ [op]\<rparr>)"

subsection \<open>Flushing\<close>

definition hintWriteEvery :: duration where "hintWriteEvery = minutes 5"
definition ifsyncOnDemandGap :: duration where "ifsyncOnDemandGap = minutes 1"
definition flushCatchUpLimit :: int where "flushCatchUpLimit = 900"
definition ifsyncCap :: nat where "ifsyncCap = 16"

text \<open>The variables of the loop over the interfaces of a flushed minute.\<close>

record iface_acc =
  ia_if :: expIfaces
  ia_natives :: "(pointKey, bool) gomap"
  ia_touches :: "(u32 \<times> string) list"
  ia_points :: "pointKey list"
  ia_unknown :: bool
  ia_overflow :: int

definition flush_iface :: "hintTracker option \<Rightarrow> (u32, FlowIface) gomap \<Rightarrow> int \<Rightarrow> u32 \<Rightarrow> iface_acc \<Rightarrow> iface_acc" where
  "flush_iface hints ifs i idx acc =
    (case admitIface idx (ia_if acc) of
       (False, _) \<Rightarrow> acc\<lparr>ia_overflow := ia_overflow acc + 1\<rparr>
     | (True, x) \<Rightarrow>
        (let isNew = \<not> gm_has (ia_natives acc) (i, idx)
         in acc\<lparr>ia_if := x,
                ia_touches := ia_touches acc @ [(idx, case hints of Some h \<Rightarrow> hint idx h | None \<Rightarrow> '''')],
                ia_natives := (if isNew then gm_put (i, idx) True (ia_natives acc) else ia_natives acc),
                ia_points := (if isNew then ia_points acc @ [(i, idx)] else ia_points acc),
                ia_unknown := (ia_unknown acc \<or> (case gm_get ifs idx of None \<Rightarrow> True | Some f \<Rightarrow> fi_Name f = ''''))\<rparr>))"

text \<open>After the loop: the overflow count and log, and whether an interface sync is requested.\<close>

definition iface_finish :: "time \<Rightarrow> bool \<Rightarrow> iface_acc \<Rightarrow> 's expState \<Rightarrow> 's expState \<times> bool" where
  "iface_finish now writeHints acc st =
    (let st = st\<lparr>x_if := ia_if acc, x_lastHint := (if writeHints then now else x_lastHint st)\<rparr>;
         st = (if ia_overflow acc > 0
               then st\<lparr>x_cnt := (x_cnt st)\<lparr>xl_ifaceOverflow := xl_ifaceOverflow (x_cnt st) + ia_overflow acc\<rparr>,
                        x_overflowLog := snd (allow now wireLogEvery (x_overflowLog st))\<rparr>
               else st);
         req = (ia_unknown acc \<and> fe_DeviceID (x_row st) \<noteq> '''' \<and> t_sub now (x_lastIfsyncReq st) \<ge> ifsyncOnDemandGap)
     in (if req then st\<lparr>x_lastIfsyncReq := now\<rparr> else st, req))"

text \<open>The interfaces of one exporter's flushed minute, in ascending order.\<close>

definition flush_ifaces :: "int \<Rightarrow> time \<Rightarrow> u32 list \<Rightarrow> 's expState \<Rightarrow> 's collector \<times> flushBatch \<Rightarrow> 's collector \<times> flushBatch" where
  "flush_ifaces i now idxs st cb =
    (let (c, b) = cb;
         writeHints = (x_hints st \<noteq> None \<and> t_sub now (x_lastHint st) \<ge> hintWriteEvery);
         ifs = (case gm_get (c_ifaces c) i of Some m \<Rightarrow> m | None \<Rightarrow> []);
         acc = fold (flush_iface (if writeHints then x_hints st else None) ifs i) idxs
           \<lparr>ia_if = x_if st, ia_natives = c_natives c, ia_touches = [], ia_points = fb_points b, ia_unknown = False, ia_overflow = 0\<rparr>;
         (st, req) = iface_finish now writeHints acc st
     in ((put_exp i st c)\<lparr>c_natives := ia_natives acc,
            c_ifsyncReq := (if req \<and> length (c_ifsyncReq c) < ifsyncCap then c_ifsyncReq c @ [i] else c_ifsyncReq c)\<rparr>,
         b\<lparr>fb_points := ia_points acc,
           fb_touches := (if ia_touches acc = [] then fb_touches b else gm_put i (ia_touches acc) (fb_touches b))\<rparr>))"

definition flush_exporter :: "int \<Rightarrow> time \<Rightarrow> int \<Rightarrow> 's collector \<times> flushBatch \<Rightarrow> 's collector \<times> flushBatch" where
  "flush_exporter m now i cb =
    (let (c, b) = cb
     in case gm_get (c_exps c) i of None \<Rightarrow> cb
      | Some st \<Rightarrow>
        (let topN = nat (max (rs_topN (c_settings c)) 1);
             maxRows = nat (max (rs_maxRows (c_settings c)) 1);
             (out, agg) = flush i m topN maxRows (x_agg st);
             st = st\<lparr>x_agg := agg\<rparr>;
             c = put_exp i st c
         in if fl_meta out = None \<and> fl_rows out = [] then (c, b)
            else let b = b\<lparr>fb_rows := fb_rows b @ fl_rows out,
                           fb_meta := fb_meta b @ (case fl_meta out of Some x \<Rightarrow> [x] | None \<Rightarrow> []),
                           fb_exporterIDs := fb_exporterIDs b @ [i]\<rparr>;
                     c = (case fl_meta out of None \<Rightarrow> c
                          | Some x \<Rightarrow> upd_global (\<lambda>g. g\<lparr>gc_overflowRecords := gc_overflowRecords g + fm_Overflow x\<rparr>) c)
              in if fl_ifaces out = [] then (c, b) else flush_ifaces i now (sort (map fst (fl_ifaces out))) st (c, b)))"

definition flush_batch :: "int \<Rightarrow> time \<Rightarrow> bool \<Rightarrow> 's collector \<Rightarrow> 's collector \<times> flushBatch" where
  "flush_batch m now final c =
    (let (c, b) = fold (flush_exporter m now) (sort (map fst (c_exps c)))
           (c, \<lparr>fb_minute = time_Unix m 0, fb_final = final, fb_rows = [], fb_meta = [], fb_exporterIDs = [], fb_touches = [],
                fb_points = [], fb_rollupHour = zero_time\<rparr>)
     in (c, if \<not> final \<and> go_rem (m + 60) 3600 = 0 then b\<lparr>fb_rollupHour := time_Unix (m + 60) 0\<rparr> else b))"

definition flushMinute :: "int \<Rightarrow> time \<Rightarrow> bool \<Rightarrow> 's collector \<Rightarrow> 's collector" where
  "flushMinute m now final c = (let (c, b) = flush_batch m now final c in snd (submit (WFlush b) c))"

definition oldest_of :: "'s collector \<Rightarrow> int list" where
  "oldest_of c = List.map_filter (\<lambda>(_, st). oldest (x_agg st)) (c_exps c)"

text \<open>
  \<open>flushDue\<close>: where to start, then the loop. \<open>flushMinute\<close> does not touch \<open>nextFlush\<close>
  (\<open>flushMinute_nextFlush\<close>), so the minutes of the loop are known when it starts.
\<close>

definition flush_start :: "int \<Rightarrow> 's collector \<Rightarrow> int" where
  "flush_start nowU c =
    (let n = (if c_nextFlush c = 0 then floorMinute nowU - (maxOpenMinutes - 1) * 60 else c_nextFlush c)
     in if nowU - n > flushCatchUpLimit
        then max n (fold min (oldest_of c) (floorMinute nowU - flushDelay))
        else n)"

definition flushDue :: "time \<Rightarrow> 's collector \<Rightarrow> 's collector" where
  "flushDue now c =
    (let nowU = unix now;
         c = c\<lparr>c_nextFlush := flush_start nowU c\<rparr>
     in fold (\<lambda>m c. (flushMinute m now False c)\<lparr>c_nextFlush := m + 60\<rparr>) (minutes_upto (c_nextFlush c) (nowU - flushDelay)) c)"

definition flushAll :: "time \<Rightarrow> 's collector \<Rightarrow> 's collector" where
  "flushAll now c =
    (let lst = fold max (concat (map (\<lambda>(_, st). map fst (x_agg st)) (c_exps c))) (floorMinute (unix now));
         first = fold min (oldest_of c) (c_nextFlush c)
     in fold (\<lambda>m. flushMinute m now True) (minutes_upto first lst) c)"

subsection \<open>Templates\<close>

definition templateSaveGap :: duration where "templateSaveGap = minutes 1"
definition templateDeleteGap :: duration where "templateDeleteGap = minutes 1"

definition persist_reboot :: "Result \<Rightarrow> time \<Rightarrow> 's expState \<times> 's collector \<Rightarrow> 's expState \<times> 's collector" where
  "persist_reboot res now sc =
    (let (st, c) = sc;
         st = (if res_Rebooted res
               then st\<lparr>x_rebootLog := snd (allow now wireLogEvery (x_rebootLog st)), x_tmpl := (x_tmpl st)\<lparr>xt_tmplDeletePending := True\<rparr>\<rparr>
               else st);
         t = x_tmpl st
     in if xt_tmplDeletePending t \<and> (is_zero (xt_lastTmplDelete t) \<or> t_sub now (xt_lastTmplDelete t) \<ge> templateDeleteGap)
        then (case submitMaint (WDeleteTemplates (fe_ID (x_row st))) c of
            (True, c) \<Rightarrow> (st\<lparr>x_tmpl := \<lparr>xt_tmplSaved = [], xt_tmplDeletePending = False, xt_lastTmplDelete = now\<rparr>\<rparr>, c)
          | (False, c) \<Rightarrow> (st, c))
        else (st, c))"

definition persist_withdrawn :: "Result \<Rightarrow> 's expState \<times> 's collector \<Rightarrow> 's expState \<times> 's collector" where
  "persist_withdrawn res sc =
    (let (st, c) = sc
     in if res_Withdrawn res = [] then (st, c)
        else (st\<lparr>x_tmpl := (x_tmpl st)\<lparr>xt_tmplSaved := fold gm_del (res_Withdrawn res) (xt_tmplSaved (x_tmpl st))\<rparr>\<rparr>,
              snd (submitMaint (WWithdraw (fe_ID (x_row st)) (res_Withdrawn res)) c)))"

definition persist_learned :: "time \<Rightarrow> TemplateRecord \<Rightarrow> 's expState \<times> 's collector \<Rightarrow> 's expState \<times> 's collector" where
  "persist_learned now t sc =
    (let (st, c) = sc;
         k = tr_Key t;
         saved = xt_tmplSaved (x_tmpl st)
     in if t_sub now (case gm_get saved k of Some x \<Rightarrow> x | None \<Rightarrow> zero_time) < templateSaveGap then (st, c)
        else (case submitMaint (WTemplate \<lparr>ft_ExporterID = fe_ID (x_row st), ft_record = t, ft_UpdatedAt = now\<rparr>) c of
            (True, c) \<Rightarrow> (st\<lparr>x_tmpl := (x_tmpl st)\<lparr>xt_tmplSaved := gm_put k now saved\<rparr>\<rparr>, c)
          | (False, c) \<Rightarrow> (st, c)))"

definition persistTemplates :: "Result \<Rightarrow> time \<Rightarrow> 's expState \<times> 's collector \<Rightarrow> 's expState \<times> 's collector" where
  "persistTemplates res now sc =
    (let sc = persist_reboot res now sc;
         sc = persist_withdrawn res sc;
         (st, c) = fold (persist_learned now) (res_Learned res) sc
     in if res_Learned res \<noteq> [] \<or> res_Withdrawn res \<noteq> []
        then (st\<lparr>x_tmpl := (x_tmpl st)\<lparr>xt_tmplSaved := filter (\<lambda>(k, _). Has (e_Templates (x_dec st)) k) (xt_tmplSaved (x_tmpl st))\<rparr>\<rparr>, c)
        else (st, c))"

subsection \<open>Reconciling\<close>

definition device_name :: "Device \<Rightarrow> string" where
  "device_name d = (if dev_Identity d = '''' then dev_AddressText d else dev_Identity d)"

definition device_map :: "Device list \<Rightarrow> (addr, deviceInfo) gomap" where
  "device_map ds = fold (\<lambda>d m. case dev_Address d of None \<Rightarrow> m
     | Some a \<Rightarrow> gm_put (Unmap a) \<lparr>dv_id = dev_ID d, dv_name = device_name d\<rparr> m) ds []"

definition native_map :: "FlowPoint list \<Rightarrow> (pointKey, bool) gomap" where
  "native_map ps = fold (\<lambda>p m. if fp_Kind p = ''native'' \<and> length (fp_IfIndexes p) = 1
     then gm_put (fp_ExporterID p, hd (fp_IfIndexes p)) True m else m) ps []"

definition iface_map :: "FlowIface list \<Rightarrow> (int, (u32, FlowIface) gomap) gomap" where
  "iface_map fs = fold (\<lambda>f m. gm_put (fi_ExporterID f)
     (gm_put (fi_IfIndex f) f (case gm_get m (fi_ExporterID f) of Some x \<Rightarrow> x | None \<Rightarrow> [])) m) fs []"

definition pps_rate :: "'s collector \<Rightarrow> rat" where
  "pps_rate c = f_of_int (rs_pps (c_settings c))"

text \<open>One row of the exporter table: the state (kept while its address is unchanged), the gate, the allow-list.\<close>

definition reconcile_row :: "'s template_system \<Rightarrow> db_view \<Rightarrow> time \<Rightarrow> FlowExporter \<Rightarrow>
    's collector \<times> (addr, int) gomap \<times> int list \<Rightarrow> 's collector \<times> (addr, int) gomap \<times> int list" where
  "reconcile_row ts db now r cas =
    (let (c, al, ids) = cas
     in case fe_Address r of None \<Rightarrow> cas
      | Some a0 \<Rightarrow>
        (let a = Unmap a0; i = fe_ID r;
             keep = (case gm_get (c_exps c) i of Some st \<Rightarrow> x_addr st = a | None \<Rightarrow> False);
             st = (if keep then configure r now (the (gm_get (c_exps c) i)) else newExpState ts db r a now);
             g = (case gm_get (ls_gates (c_ls c)) i of
                    Some g \<Rightarrow> if keep then g\<lparr>g_enabled := fe_Enabled r\<rparr>
                       else \<lparr>g_id = i, g_enabled = fe_Enabled r, g_bucket = newTokenBucket (pps_rate c), g_rateLimited = 0, g_oversized = 0\<rparr>
                  | None \<Rightarrow> \<lparr>g_id = i, g_enabled = fe_Enabled r, g_bucket = newTokenBucket (pps_rate c), g_rateLimited = 0, g_oversized = 0\<rparr>);
             g = g\<lparr>g_bucket := setRate (pps_rate c) (g_bucket g)\<rparr>;
             ls = (c_ls c)\<lparr>ls_gates := gm_put i g (ls_gates (c_ls c)), ls_unknown := ring_forget a (ls_unknown (c_ls c))\<rparr>
         in ((put_exp i st c)\<lparr>c_ls := ls\<rparr>, gm_put a i al, ids @ [i])))"

definition reconcile_candidate :: "(addr, candidateGate) gomap \<Rightarrow> (addr, int) gomap \<Rightarrow> rat \<Rightarrow> addr \<times> deviceInfo \<Rightarrow>
    (addr, candidateGate) gomap \<Rightarrow> (addr, candidateGate) gomap" where
  "reconcile_candidate old al rate ad m =
    (let (a, d) = ad
     in if gm_has al a then m
        else case gm_get old a of
            Some cg \<Rightarrow> if cg_deviceID cg = dv_id d then gm_put a (cg\<lparr>cg_bucket := setRate rate (cg_bucket cg)\<rparr>) m
                       else gm_put a \<lparr>cg_deviceID = dv_id d, cg_name = dv_name d, cg_bucket = newTokenBucket rate\<rparr> m
          | None \<Rightarrow> gm_put a \<lparr>cg_deviceID = dv_id d, cg_name = dv_name d, cg_bucket = newTokenBucket rate\<rparr> m)"

text \<open>\<open>st.dec.ExpirePending(now)\<close> and \<open>absorbDecodeStats\<close> for every exporter.\<close>

definition expire_one :: "time \<Rightarrow> int \<Rightarrow> 's collector \<Rightarrow> 's collector" where
  "expire_one now i c = (case gm_get (c_exps c) i of None \<Rightarrow> c
     | Some st \<Rightarrow> (let st = st\<lparr>x_dec := expirePending now (x_dec st)\<rparr>
                   in put_exp i (absorb_exp st) (upd_global (absorb_global st) c)))"

definition expire_all :: "time \<Rightarrow> 's collector \<Rightarrow> 's collector" where
  "expire_all now c = fold (expire_one now) (map fst (c_exps c)) c"

text \<open>The rows of the points and interfaces, kept from before when their query fails.\<close>

definition reconcile_ifaces :: "db_view \<Rightarrow> 's collector \<Rightarrow> 's collector" where
  "reconcile_ifaces db c =
    (let c = (case db_points db of Some ps \<Rightarrow> c\<lparr>c_natives := native_map ps\<rparr> | None \<Rightarrow> c)
     in case db_ifaces db of Some fs \<Rightarrow> c\<lparr>c_ifaces := iface_map fs\<rparr> | None \<Rightarrow> c)"

text \<open>States of deleted exporters go; the known interfaces of the others are rebuilt.\<close>

definition reconcile_exps :: "int list \<Rightarrow> 's collector \<Rightarrow> 's collector" where
  "reconcile_exps ids c =
    (let c = c\<lparr>c_exps := filter (\<lambda>(i, _). i \<in> set ids) (c_exps c)\<rparr>
     in c\<lparr>c_exps := map (\<lambda>(i, st). (i, rebuildIfKnown c i st)) (c_exps c)\<rparr>)"

text \<open>The new allow-list with its candidates, the buckets' rate.\<close>

definition reconcile_allow :: "(addr, candidateGate) gomap \<Rightarrow> (addr, deviceInfo) gomap \<Rightarrow> (addr, int) gomap \<Rightarrow> int list \<Rightarrow>
    's collector \<Rightarrow> 's collector" where
  "reconcile_allow old devices al ids c =
    (let cands = (if rs_autoAccept (c_settings c) then fold (reconcile_candidate old al (pps_rate c)) devices [] else []);
         ls = c_ls c
     in c\<lparr>c_ls := ls\<lparr>ls_globalBucket := setRate (f_of_int (globalRateFactor * rs_pps (c_settings c))) (ls_globalBucket ls),
                     ls_gates := filter (\<lambda>(i, _). i \<in> set ids) (ls_gates ls),
                     ls_allow := \<lparr>al_exporters = al, al_candidates = cands, al_devices = devices\<rparr>\<rparr>\<rparr>)"

definition reconcile :: "'s env \<Rightarrow> time \<Rightarrow> 's collector \<Rightarrow> 's collector" where
  "reconcile en now c =
    (let db = en_db en;
         c = c\<lparr>c_settings := readSettings (db_settings db)\<rparr>
     in case db_exporters db of None \<Rightarrow> c
      | Some rows \<Rightarrow>
        (let devices = (case db_devices db of Some ds \<Rightarrow> device_map ds | None \<Rightarrow> []);
             c = reconcile_ifaces db c;
             old = al_candidates (ls_allow (c_ls c));
             (c, al, ids) = fold (reconcile_row (en_ts en) db now) rows (c, [], []);
             c = reconcile_allow old devices al ids (reconcile_exps ids c);
             c = c\<lparr>c_rows := rows, c_devices := devices\<rparr>;
             c = (if snd (en_kernelDrops en) then upd_global (\<lambda>g. g\<lparr>gc_kernelDropped := fst (en_kernelDrops en)\<rparr>) c else c)
         in expire_all now c))"

subsection \<open>Datagrams\<close>

definition stateByAddr :: "'s collector \<Rightarrow> addr \<Rightarrow> int option" where
  "stateByAddr c a = map_option fst (find (\<lambda>(_, st). x_addr st = a) (c_exps c))"

definition accept_failed :: "addr \<Rightarrow> time \<Rightarrow> 's collector \<Rightarrow> 's collector" where
  "accept_failed a now c =
    (let m = (if gm_len (c_acceptLog c) > unknownRingCap * 4 then [] else c_acceptLog c);
         lt = (case gm_get m a of Some t \<Rightarrow> t | None \<Rightarrow> zero_throttle)
     in c\<lparr>c_acceptLog := gm_put a (snd (allow now wireLogEvery lt)) m\<rparr>)"

definition acceptCandidate :: "'s env \<Rightarrow> datagram \<Rightarrow> time \<Rightarrow> 's collector \<Rightarrow> int option \<times> 's collector" where
  "acceptCandidate en d now c =
    (case stateByAddr c (dg_addr d) of Some i \<Rightarrow> (Some i, c)
     | None \<Rightarrow>
       if \<not> rs_autoAccept (c_settings c) then
         (let dev = (case gm_get (c_devices c) (dg_addr d) of Some x \<Rightarrow> x | None \<Rightarrow> no_device);
              k = (case Sniff (dg_bytes d) of Some k \<Rightarrow> k | None \<Rightarrow> KindUnknown);
              c = upd_global (\<lambda>g. g\<lparr>gc_unknownDatagrams := gc_unknownDatagrams g + 1\<rparr>) c
          in (None, c\<lparr>c_ls := (c_ls c)\<lparr>ls_unknown := fst (ring_record (dg_addr d) k now dev (dv_id dev \<noteq> '''') (ls_unknown (c_ls c)))\<rparr>\<rparr>))
       else if en_create en = CreateFails then (None, accept_failed (dg_addr d) now c)
       else (let c = reconcile en now c in (stateByAddr c (dg_addr d), c)))"

definition captureMax :: nat where "captureMax = 20"

definition capture :: "'s collector \<Rightarrow> 's expState \<Rightarrow> 's expState" where
  "capture c st = (if \<not> c_captureDir c \<or> x_captured st \<ge> captureMax then st else st\<lparr>x_captured := x_captured st + 1\<rparr>)"

text \<open>The variables of the loop over the decoded flows; \<open>fa_ok\<close> is false once a step panicked.\<close>

record 's flow_acc =
  fa_st :: "'s expState"
  fa_nc :: normCounters
  fa_accepted :: int
  fa_bytes :: int
  fa_late :: int
  fa_ok :: bool

definition flow_step :: "(u16, bool) gomap \<Rightarrow> int \<Rightarrow> time \<Rightarrow> flow \<Rightarrow> 's flow_acc \<Rightarrow> 's flow_acc" where
  "flow_step ports nextFlush now f acc =
    (if \<not> fa_ok acc then acc
     else let st = fa_st acc;
              n = x_cnt st;
              st = st\<lparr>x_cnt := n\<lparr>xl_timeSource := (xl_timeSource n)(f_TimeSource f := xl_timeSource n (f_TimeSource f) + 1)\<rparr>\<rparr>;
              (r, dup, nc) = normalize (x_addr st) ports (x_dup st) f now (fa_nc acc);
              st = st\<lparr>x_dup := dup\<rparr>;
              acc = acc\<lparr>fa_st := st, fa_nc := nc\<rparr>
       in case r of None \<Rightarrow> acc
        | Some nf \<Rightarrow>
          (case agg_add nf now nextFlush (x_agg st) of
             None \<Rightarrow> acc\<lparr>fa_ok := False\<rparr>
           | Some (agg, late) \<Rightarrow>
             (let st = st\<lparr>x_agg := agg,
                           x_health := (x_health st)\<lparr>xh_sampling := uint (max (f_SamplingRate f) 1)\<rparr>,
                           x_hints := (case x_hints st of
                               Some h \<Rightarrow> if nf_endpoints nf then Some (hint_add (f_InIf f) (f_SrcAddr f) (nf_bytes nf) now h) else Some h
                             | None \<Rightarrow> None)\<rparr>
              in acc\<lparr>fa_st := st, fa_accepted := fa_accepted acc + 1, fa_bytes := satAdd (fa_bytes acc) (nf_bytes nf),
                     fa_late := (if late then fa_late acc + 1 else fa_late acc)\<rparr>)))"

text \<open>The health fields a decoded datagram sets.\<close>

definition note_result :: "Result \<Rightarrow> derror option \<Rightarrow> time \<Rightarrow> 's expState \<Rightarrow> 's expState" where
  "note_result res err now st =
    (let h = x_health st;
         h = (case err of Some e \<Rightarrow> h\<lparr>xh_lastError := Inr e, xh_lastErrorAt := now, xh_errDirty := True\<rparr> | None \<Rightarrow> h);
         known = (res_Kind res \<noteq> KindUnknown);
         h = (if known then h\<lparr>xh_protocol := Kind_String (res_Kind res)\<rparr> else h);
         h = (if \<not> is_zero (res_ExportTime res) then h\<lparr>xh_skewMs := go_quot (res_ClockSkew res) nanos_per_ms\<rparr> else h)
     in st\<lparr>x_health := h, x_firstLogged := (x_firstLogged st \<or> known)\<rparr>)"

text \<open>\<open>processDatagram\<close> after the exporter is known and enabled: up to the decoder, then the flows.\<close>

definition dg_decode :: "'s env \<Rightarrow> datagram \<Rightarrow> int \<Rightarrow> 's expState \<Rightarrow> 's collector \<Rightarrow> 's expState \<times> 's collector \<times> Result" where
  "dg_decode en d i st c =
    (let now = dg_received d;
         st = capture c st;
         st = st\<lparr>x_live := (x_live st)\<lparr>cs_datagrams := cs_datagrams (x_live st) + 1\<rparr>,
                  x_health := (x_health st)\<lparr>xh_lastSeen := now\<rparr>,
                  x_agg := markAlive now (c_nextFlush c) (x_agg st)\<rparr>;
         st = addRate now 1 0 0 st;
         (dec, res, err) = Decode (en_ts en) (en_dec en) (dg_bytes d) now (x_dec st);
         st = st\<lparr>x_dec := dec\<rparr>;
         c = upd_global (absorb_global st) c;
         st = note_result res err now (absorb_exp st);
         (st, c) = persistTemplates res now (st, c)
     in (st, c, res))"

definition dg_finish :: "time \<Rightarrow> 's flow_acc \<Rightarrow> 's expState" where
  "dg_finish now acc =
    (let st = fa_st acc; l = x_live st; n = x_cnt st; nc = fa_nc acc;
         st = st\<lparr>x_live := l\<lparr>cs_flows := cs_flows l + fa_accepted acc, cs_bytes := satAdd (cs_bytes l) (fa_bytes acc)\<rparr>\<rparr>;
         st = addRate now 0 (fa_accepted acc) (fa_bytes acc) st
     in st\<lparr>x_cnt := n\<lparr>xl_selfExport := xl_selfExport n + nc_selfExport nc, xl_dupDropped := xl_dupDropped n + nc_dup nc,
                       xl_natDst := xl_natDst n + nc_natDst nc\<rparr>\<rparr>)"

definition dg_flows :: "datagram \<Rightarrow> int \<Rightarrow> 's expState \<times> 's collector \<times> Result \<Rightarrow> 's collector" where
  "dg_flows d i scr =
    (let (st, c, res) = scr;
         now = dg_received d;
         acc = fold (flow_step (c_listenPorts c) (c_nextFlush c) now) (res_Flows res)
           \<lparr>fa_st = st, fa_nc = \<lparr>nc_selfExport = 0, nc_dup = 0, nc_natDst = 0\<rparr>, fa_accepted = 0, fa_bytes = 0, fa_late = 0, fa_ok = True\<rparr>;
         c = upd_global (\<lambda>g. g\<lparr>gc_lateRecords := gc_lateRecords g + fa_late acc\<rparr>) c
     in if \<not> fa_ok acc then upd_global (\<lambda>g. g\<lparr>gc_panics := gc_panics g + 1\<rparr>) (put_exp i (fa_st acc) c)
        else upd_global (\<lambda>g. g\<lparr>gc_selfExportDropped := gc_selfExportDropped g + nc_selfExport (fa_nc acc),
                               gc_dupDropped := gc_dupDropped g + nc_dup (fa_nc acc)\<rparr>) (put_exp i (dg_finish now acc) c))"

definition gate_enabled :: "int \<Rightarrow> 's collector \<Rightarrow> bool" where
  "gate_enabled i c = (case gm_get (ls_gates (c_ls c)) i of Some g \<Rightarrow> g_enabled g | None \<Rightarrow> False)"

definition processDatagram :: "'s env \<Rightarrow> datagram \<Rightarrow> 's collector \<Rightarrow> 's collector" where
  "processDatagram en d c =
    (let now = dg_received d;
         c = flushDue now c;
         (i, c) = (case dg_candidate d of Some _ \<Rightarrow> acceptCandidate en d now c | None \<Rightarrow> (Some (dg_exporterID d), c))
     in case i of None \<Rightarrow> c
      | Some i \<Rightarrow> (case gm_get (c_exps c) i of None \<Rightarrow> c
        | Some st \<Rightarrow>
            if \<not> gate_enabled i c then upd_global (\<lambda>g. g\<lparr>gc_rejected := gc_rejected g + 1\<rparr>) c
            else dg_flows d i (dg_decode en d i st c)))"

subsection \<open>Status\<close>

definition status_due :: "'s expState \<Rightarrow> bool" where
  "status_due st \<longleftrightarrow> \<not> (cs_sub (x_live st) (x_persisted st) = zero_counters \<and> \<not> xh_errDirty (x_health st)
     \<and> xh_lastSeen (x_health st) = xh_lastSeenPersisted (x_health st))"

definition status_delta :: "'s expState \<Rightarrow> statusDelta" where
  "status_delta st =
    (let d = cs_sub (x_live st) (x_persisted st); h = x_health st
     in \<lparr>sd_id = fe_ID (x_row st), sd_LastSeen = xh_lastSeen h, sd_Protocol = xh_protocol h, sd_SamplingRate = xh_sampling h,
         sd_Datagrams = cs_datagrams d, sd_Flows = cs_flows d, sd_Bytes = cs_bytes d, sd_DecodeErrors = cs_decodeErrors d,
         sd_TemplateMisses = cs_templateMisses d, sd_SeqLost = cs_seqLost d, sd_ClockSkewMs = xh_skewMs h,
         sd_LastError = (if xh_errDirty h then xh_lastError h else Inl ''''),
         sd_LastErrorAt = (if xh_errDirty h then xh_lastErrorAt h else zero_time)\<rparr>)"

definition mark_persisted :: "'s expState \<Rightarrow> 's expState" where
  "mark_persisted st = st\<lparr>x_persisted := x_live st,
     x_health := (x_health st)\<lparr>xh_errDirty := False, xh_lastSeenPersisted := xh_lastSeen (x_health st)\<rparr>\<rparr>"

definition persistStatus :: "'s collector \<Rightarrow> 's collector" where
  "persistStatus c =
    (let due = filter (\<lambda>(_, st). status_due st) (c_exps c)
     in if due = [] then c
        else case submit (WStatus (map (\<lambda>(_, st). status_delta st) due)) c of
            (True, c) \<Rightarrow> c\<lparr>c_exps := map (\<lambda>(i, st). (i, if status_due st then mark_persisted st else st)) (c_exps c)\<rparr>
          | (False, c) \<Rightarrow> c)"

end
