(* ===== verification/Worker_Flush.thy ===== *)
theory Worker_Flush
  imports Worker Aggregate_Flush Exporter_Props
begin

text \<open>
  The flush loop of the worker: what a flushed minute takes out of every exporter, that no minute is left
  behind, how many minutes stay open, and that every batch reaches the writer's channel or is counted as
  dropped.
\<close>

subsection \<open>What a flush changes\<close>

text \<open>The parts of an exporter's state that a flush leaves alone.\<close>

definition same_core :: "'s expState \<Rightarrow> 's expState \<Rightarrow> bool" where
  "same_core st st' \<longleftrightarrow> x_row st' = x_row st \<and> x_addr st' = x_addr st \<and> x_dec st' = x_dec st \<and> x_prev st' = x_prev st \<and>
     x_dup st' = x_dup st \<and> x_hints st' = x_hints st \<and> x_live st' = x_live st \<and> x_persisted st' = x_persisted st \<and>
     x_health st' = x_health st \<and> x_perMin st' = x_perMin st \<and> x_tmpl st' = x_tmpl st"

definition flushed_of :: "int \<Rightarrow> 's expState \<Rightarrow> 's expState \<Rightarrow> bool" where
  "flushed_of m st st' \<longleftrightarrow> x_agg st' = gm_del m (x_agg st) \<and> same_core st st'"

lemma gm_put_twice [simp]: "gm_put k v (gm_put k w m) = gm_put k v m"
  by (simp add: gm_put_def)

lemma snd_flush [simp]: "snd (flush i m topN maxRows a) = gm_del m a"
  by (simp add: flush_def Let_def split: option.splits)

lemma iface_finish_core:
  "x_agg (fst (iface_finish now w acc st)) = x_agg st \<and> same_core st (fst (iface_finish now w acc st))"
  by (simp add: iface_finish_def Let_def same_core_def)

lemma flush_ifaces_eq:
  "\<exists>st' w acc nat ifs. st' = fst (iface_finish now w acc st) \<and>
     c_exps (fst (flush_ifaces i now idxs st (c, b))) = gm_put i st' (c_exps c)"
  by (simp add: flush_ifaces_def Let_def put_exp_def split_beta) blast

lemma flush_ifaces_exps:
  assumes "flush_ifaces i now idxs st (c, b) = (c', b')"
  shows "\<exists>st'. x_agg st' = x_agg st \<and> same_core st st' \<and> c_exps c' = gm_put i st' (c_exps c)"
  using flush_ifaces_eq [of now st i idxs c b] iface_finish_core assms by fastforce

lemma flush_ifaces_rest:
  assumes "flush_ifaces i now idxs st (c, b) = (c', b')"
  shows "c_nextFlush c' = c_nextFlush c \<and> c_writeCh c' = c_writeCh c \<and> c_ls c' = c_ls c \<and> c_settings c' = c_settings c \<and>
    fb_rows b' = fb_rows b"
  using assms by (auto simp: flush_ifaces_def Let_def put_exp_def split_beta)

lemma flush_exporter_exps:
  assumes "gm_get (c_exps c) i = Some st"
  shows "\<exists>st'. flushed_of m st st' \<and> c_exps (fst (flush_exporter m now i (c, b))) = gm_put i st' (c_exps c)"
proof -
  obtain out agg where fl: "flush i m (nat (max (rs_topN (c_settings c)) 1)) (nat (max (rs_maxRows (c_settings c)) 1)) (x_agg st) = (out, agg)"
    by force
  have agg: "agg = gm_del m (x_agg st)" using snd_flush [of i m _ _ "x_agg st"] fl by (metis snd_conv)
  have s: "flushed_of m st (st\<lparr>x_agg := agg\<rparr>)" by (simp add: flushed_of_def same_core_def agg)
  have F: "\<exists>st'. flushed_of m st st' \<and> c_exps (fst (flush_ifaces i now idxs (st\<lparr>x_agg := agg\<rparr>) (c', b'))) = gm_put i st' (c_exps c)"
    if "c_exps c' = gm_put i w (c_exps c)" for idxs c' b' w
  proof -
    obtain c2 b2 where r: "flush_ifaces i now idxs (st\<lparr>x_agg := agg\<rparr>) (c', b') = (c2, b2)" by force
    from flush_ifaces_exps [OF r] show ?thesis using s that r by (auto simp: flushed_of_def same_core_def)
  qed
  show ?thesis
    using s F assms fl
    by (simp add: flush_exporter_def put_exp_def upd_global_def Let_def split: option.splits) blast
qed

lemma fst_set_gm_put: "fst ` set (gm_put k v m) = insert k (fst ` set m)"
  by (simp add: gm_put_def AList.dom_update)

lemma flush_exporter_none: "gm_get (c_exps c) i = None \<Longrightarrow> flush_exporter m now i (c, b) = (c, b)"
  by (simp add: flush_exporter_def)

lemma flush_exporter_step:
  assumes "flush_exporter m now i (c, b) = (c', b')"
  shows "gm_get (c_exps c') j = (if j = i then gm_get (c_exps c') i else gm_get (c_exps c) j)
    \<and> (case gm_get (c_exps c) i of None \<Rightarrow> gm_get (c_exps c') i = None
       | Some st \<Rightarrow> \<exists>st'. gm_get (c_exps c') i = Some st' \<and> flushed_of m st st')
    \<and> (gm_wf (c_exps c) \<longrightarrow> gm_wf (c_exps c')) \<and> fst ` set (c_exps c') = fst ` set (c_exps c)"
proof (cases "gm_get (c_exps c) i")
  case None
  then show ?thesis using flush_exporter_none [OF None] assms by simp
next
  case (Some st)
  from flush_exporter_exps [OF Some, of m now b] assms obtain st' where
    st': "flushed_of m st st'" "c_exps c' = gm_put i st' (c_exps c)" by auto
  have "i \<in> fst ` set (c_exps c)" using Some gm_get_in_set by force
  then show ?thesis using Some st' by (auto simp: fst_set_gm_put gm_wf_intros)
qed

lemma flush_exporters:
  assumes "fold (flush_exporter m now) is (c, b) = (c', b')" and "distinct is"
  shows "(case gm_get (c_exps c) j of None \<Rightarrow> gm_get (c_exps c') j = None
       | Some st \<Rightarrow> if j \<in> set is then \<exists>st'. gm_get (c_exps c') j = Some st' \<and> flushed_of m st st' else gm_get (c_exps c') j = Some st)
    \<and> (gm_wf (c_exps c) \<longrightarrow> gm_wf (c_exps c')) \<and> fst ` set (c_exps c') = fst ` set (c_exps c)"
  using assms
proof (induction "is" arbitrary: c b)
  case Nil
  then show ?case by (simp split: option.splits)
next
  case (Cons i "is")
  obtain c1 b1 where s: "flush_exporter m now i (c, b) = (c1, b1)" by force
  note F = flush_exporter_step [OF s]
  from Cons.IH [of c1 b1] Cons.prems s have
    I: "(case gm_get (c_exps c1) j of None \<Rightarrow> gm_get (c_exps c') j = None
       | Some st \<Rightarrow> if j \<in> set is then \<exists>st'. gm_get (c_exps c') j = Some st' \<and> flushed_of m st st' else gm_get (c_exps c') j = Some st)"
    "gm_wf (c_exps c1) \<longrightarrow> gm_wf (c_exps c')" "fst ` set (c_exps c') = fst ` set (c_exps c1)" by auto
  show ?case
  proof (cases "j = i")
    case True
    then show ?thesis using F [of j] I Cons.prems(2) by (auto split: option.splits)
  next
    case False
    then show ?thesis using F [of j] I by (auto split: option.splits)
  qed
qed

lemma flush_batch_exps:
  assumes "flush_batch m now final c = (c', b)" and "gm_wf (c_exps c)"
  shows "(case gm_get (c_exps c) j of None \<Rightarrow> gm_get (c_exps c') j = None
       | Some st \<Rightarrow> \<exists>st'. gm_get (c_exps c') j = Some st' \<and> flushed_of m st st')
    \<and> gm_wf (c_exps c') \<and> fst ` set (c_exps c') = fst ` set (c_exps c)"
proof -
  obtain c1 b1 b0 where f: "fold (flush_exporter m now) (sort (map fst (c_exps c))) (c, b0) = (c1, b1)" "c' = c1"
    using assms(1) by (auto simp: flush_batch_def Let_def split: prod.splits)
  have d: "distinct (sort (map fst (c_exps c)))" using assms(2) by (simp add: gm_wf_def)
  have "j \<in> set (map fst (c_exps c))" if "gm_get (c_exps c) j = Some st" for st
    using gm_get_in_set [OF that] by force
  then show ?thesis using flush_exporters [OF f(1) d, of j] f(2) assms(2) by (auto split: option.splits)
qed

lemma submit_exps [simp]:
  "c_exps (snd (submit op c)) = c_exps c" "c_nextFlush (snd (submit op c)) = c_nextFlush c" "c_settings (snd (submit op c)) = c_settings c"
  "c_listenPorts (snd (submit op c)) = c_listenPorts c"
  by (auto simp: submit_def upd_global_def split: writeOp.splits)

lemma flushMinute_exps:
  assumes "gm_wf (c_exps c)"
  shows "case gm_get (c_exps c) j of None \<Rightarrow> gm_get (c_exps (flushMinute m now final c)) j = None
       | Some st \<Rightarrow> \<exists>st'. gm_get (c_exps (flushMinute m now final c)) j = Some st' \<and> flushed_of m st st'"
    and "gm_wf (c_exps (flushMinute m now final c))"
    and "fst ` set (c_exps (flushMinute m now final c)) = fst ` set (c_exps c)"
proof -
  obtain c1 b where b: "flush_batch m now final c = (c1, b)" by force
  have e: "c_exps (flushMinute m now final c) = c_exps c1" by (simp add: flushMinute_def b)
  from flush_batch_exps [OF b assms] show
    "case gm_get (c_exps c) j of None \<Rightarrow> gm_get (c_exps (flushMinute m now final c)) j = None
       | Some st \<Rightarrow> \<exists>st'. gm_get (c_exps (flushMinute m now final c)) j = Some st' \<and> flushed_of m st st'"
    "gm_wf (c_exps (flushMinute m now final c))" "fst ` set (c_exps (flushMinute m now final c)) = fst ` set (c_exps c)"
    unfolding e by blast+
qed

subsection \<open>No minute is left behind\<close>

text \<open>The open minutes of an exporter are whole minutes, none before \<open>nf\<close>.\<close>

definition agg_from :: "int \<Rightarrow> aggregator \<Rightarrow> bool" where
  "agg_from nf a \<longleftrightarrow> list_all (\<lambda>(m, _). nf \<le> m \<and> 60 dvd m) a"

lemma agg_from_iff: "agg_from nf a \<longleftrightarrow> (\<forall>m \<in> fst ` set a. nf \<le> m \<and> 60 dvd m)"
  by (auto simp: agg_from_def list_all_iff)

definition exps_ok :: "int \<Rightarrow> ('s expState \<Rightarrow> bool) \<Rightarrow> 's collector \<Rightarrow> bool" where
  "exps_ok nf P c \<longleftrightarrow> gm_wf (c_exps c) \<and> gm_all (\<lambda>st. agg_ok (x_agg st) \<and> agg_from nf (x_agg st) \<and> P st) (c_exps c)"

lemma gm_all_iff: "gm_wf m \<Longrightarrow> gm_all P m \<longleftrightarrow> (\<forall>k v. gm_get m k = Some v \<longrightarrow> P v)"
  unfolding gm_all_def using gm_get_iff_in_set [of m] by force

lemma set_gm_del_fst: "fst ` set (gm_del k m) = fst ` set m - {k}"
  using arg_cong [OF AList.delete_keys [of k m], of set] by (simp add: gm_del_def)

lemma agg_from_del:
  assumes "agg_from nf a" and "gm_wf a" and "60 dvd nf" shows "agg_from (nf + 60) (gm_del nf a)"
proof -
  have "nf + 60 \<le> m" if m: "nf \<le> m" "60 dvd m" "m \<noteq> nf" for m
    using that assms(3) by (auto elim!: dvdE)
  then show ?thesis using assms unfolding agg_from_iff set_gm_del_fst by blast
qed

text \<open>\<open>P\<close> is any further property of the exporter states that only looks at what a flush leaves alone.\<close>

definition core_pred :: "('s expState \<Rightarrow> bool) \<Rightarrow> bool" where
  "core_pred P \<longleftrightarrow> (\<forall>st st'. same_core st st' \<longrightarrow> P st \<longrightarrow> P st')"

lemma flushMinute_ok:
  assumes "exps_ok nf P c" and "60 dvd nf" and "core_pred P"
  shows "exps_ok (nf + 60) P (flushMinute nf now final c)"
proof -
  have wf: "gm_wf (c_exps c)" using assms(1) by (simp add: exps_ok_def)
  note F = flushMinute_exps [OF wf, where m = nf and now = now and final = final]
  have "agg_ok (x_agg st') \<and> agg_from (nf + 60) (x_agg st') \<and> P st'"
    if get: "gm_get (c_exps (flushMinute nf now final c)) j = Some st'" for j st'
  proof -
    obtain st where st: "gm_get (c_exps c) j = Some st" "flushed_of nf st st'"
      using F(1) [of j] get by (auto split: option.splits)
    have o: "agg_ok (x_agg st)" "agg_from nf (x_agg st)" "P st"
      using assms(1) st(1) wf by (auto simp: exps_ok_def gm_all_iff)
    then show ?thesis using st(2) assms(2,3) agg_from_del agg_ok_flush [of "x_agg st" 0 nf 0 0]
      by (auto simp: flushed_of_def core_pred_def agg_ok_def)
  qed
  then show ?thesis using F(2) by (simp add: exps_ok_def gm_all_iff)
qed

lemma flush_minutes_ok:
  assumes "exps_ok n P c" and "c_nextFlush c = n" and "60 dvd n" and "core_pred P"
    and "c' = fold (\<lambda>m c. (flushMinute m now final c)\<lparr>c_nextFlush := m + 60\<rparr>) (minutes_upto n hi) c"
  shows "exps_ok (c_nextFlush c') P c' \<and> 60 dvd c_nextFlush c' \<and> hi < c_nextFlush c' \<and> c_nextFlush c' \<le> max n (hi + 60)"
  using assms
proof (induction n hi arbitrary: c rule: minutes_upto.induct)
  case (1 n hi)
  show ?case
  proof (cases "n \<le> hi")
    case False
    then show ?thesis using "1.prems" by (simp add: minutes_upto.simps [of n hi])
  next
    case True
    let ?c = "(flushMinute n now final c)\<lparr>c_nextFlush := n + 60\<rparr>"
    have ok: "exps_ok (n + 60) P ?c"
      using flushMinute_ok [OF "1.prems"(1,3,4), of now final] by (simp add: exps_ok_def)
    have d: "60 dvd n + 60" using "1.prems"(3) by simp
    from "1.IH" [OF True ok _ d "1.prems"(4)] "1.prems"(5) True show ?thesis
      by (simp add: minutes_upto.simps [of n hi])
  qed
qed

lemma oldest_fold:
  fixes b0 :: int
  shows "fold (\<lambda>(m, _) best. case best of None \<Rightarrow> Some m | Some b \<Rightarrow> if m < b then Some m else Some b) a (Some b0)
    = Some (fold min (map fst a) b0)"
proof (induction a arbitrary: b0)
  case (Cons mv a)
  have "(if m < b0 then Some m else Some b0) = Some (min m b0)" for m by auto
  with Cons show ?case by (cases mv) simp
qed simp

lemma fold_min_le: "fold min ms (b0 :: int) \<le> b0 \<and> (\<forall>m \<in> set ms. fold min ms b0 \<le> m) \<and> fold min ms b0 \<in> insert b0 (set ms)"
proof (induction ms arbitrary: b0)
  case (Cons m ms)
  from Cons.IH [of "min m b0"] show ?case by (auto simp: min_def split: if_splits)
qed simp

lemma oldest_Some:
  "(a = [] \<longleftrightarrow> oldest a = None) \<and> (oldest a = Some x \<longrightarrow> x \<in> fst ` set a \<and> (\<forall>m \<in> fst ` set a. x \<le> m))"
proof (cases a)
  case (Cons mv ms)
  obtain m v where mv: "mv = (m, v)" by force
  have "oldest a = Some (fold min (map fst ms) m)" using oldest_fold [of ms m] by (simp add: oldest_def Cons mv)
  then show ?thesis using fold_min_le [of "map fst ms" m] Cons mv by auto
qed (simp add: oldest_def)

lemma flush_start_ok:
  assumes ok: "exps_ok (c_nextFlush c) P c" and d: "60 dvd c_nextFlush c"
    and zero: "c_nextFlush c = 0 \<longrightarrow> gm_all (\<lambda>st. x_agg st = []) (c_exps c)"
  shows "exps_ok (flush_start nowU c) P c \<and> 60 dvd flush_start nowU c"
proof -
  define n where "n = (if c_nextFlush c = 0 then floorMinute nowU - (maxOpenMinutes - 1) * 60 else c_nextFlush c)"
  define t where "t = fold min (oldest_of c) (floorMinute nowU - flushDelay)"
  have wf: "gm_wf (c_exps c)" using ok by (simp add: exps_ok_def)
  have st: "agg_ok (x_agg st) \<and> agg_from (c_nextFlush c) (x_agg st) \<and> P st" if "gm_get (c_exps c) j = Some st" for j st
    using ok that wf by (auto simp: exps_ok_def gm_all_iff)
  have n: "60 dvd n" "agg_from n (x_agg st)" if "gm_get (c_exps c) j = Some st" for j st
    using st [OF that] d zero that wf by (auto simp: n_def maxOpenMinutes_def agg_from_def gm_all_iff)
  have mem: "o' \<in> set (oldest_of c)" if "gm_get (c_exps c) j = Some st" "oldest (x_agg st) = Some o'" for j st o'
    using gm_get_in_set [OF that(1)] that(2) by (force simp: oldest_of_def List.map_filter_def)
  have dn: "60 dvd n" using d by (simp add: n_def maxOpenMinutes_def)
  have "t \<in> insert (floorMinute nowU - flushDelay) (set (oldest_of c))" unfolding t_def using fold_min_le by blast
  moreover have "60 dvd o'" if "o' \<in> set (oldest_of c)" for o'
  proof -
    obtain j st where j: "(j, st) \<in> set (c_exps c)" "oldest (x_agg st) = Some o'"
      using \<open>o' \<in> _\<close> by (auto simp: oldest_of_def List.map_filter_def)
    then have "agg_from (c_nextFlush c) (x_agg st)" using st gm_get_iff_in_set [OF wf] by blast
    then show ?thesis using oldest_Some [of "x_agg st" o'] j(2) by (auto simp: agg_from_iff)
  qed
  ultimately have dt: "60 dvd t" by (auto simp: flushDelay_def)
  have ft: "agg_from (max n t) (x_agg st)" if j: "gm_get (c_exps c) j = Some st" for j st
  proof -
    have "t \<le> m" if mm: "m \<in> fst ` set (x_agg st)" for m
    proof -
      obtain o' where o': "oldest (x_agg st) = Some o'" using oldest_Some [of "x_agg st"] mm
        by (cases "oldest (x_agg st)") auto
      have "t \<le> o'" using fold_min_le mem [OF j o'] unfolding t_def by blast
      then show ?thesis using oldest_Some [of "x_agg st" o'] o' that by force
    qed
    then show ?thesis using n(2) [OF j] by (auto simp: agg_from_iff)
  qed
  have "flush_start nowU c = (if nowU - n > flushCatchUpLimit then max n t else n)"
    by (simp add: flush_start_def Let_def flip: n_def t_def)
  then show ?thesis using st ft n(2) dn dt wf by (auto simp: exps_ok_def gm_all_iff max_def)
qed

lemma flushDue_ok:
  assumes "exps_ok (c_nextFlush c) P c" and "60 dvd c_nextFlush c"
    and "c_nextFlush c = 0 \<longrightarrow> gm_all (\<lambda>st. x_agg st = []) (c_exps c)" and "core_pred P"
  shows "exps_ok (c_nextFlush (flushDue now c)) P (flushDue now c) \<and> 60 dvd c_nextFlush (flushDue now c)
    \<and> unix now < c_nextFlush (flushDue now c) + flushDelay"
proof -
  let ?s = "flush_start (unix now) c"
  let ?c = "c\<lparr>c_nextFlush := ?s\<rparr>"
  have s: "exps_ok ?s P ?c" "60 dvd ?s" using flush_start_ok [OF assms(1-3), of "unix now"] by (simp_all add: exps_ok_def)
  have "flushDue now c = fold (\<lambda>m c. (flushMinute m now False c)\<lparr>c_nextFlush := m + 60\<rparr>) (minutes_upto ?s (unix now - flushDelay)) ?c"
    by (simp add: flushDue_def Let_def)
  from flush_minutes_ok [OF s(1) _ s(2) assms(4) this] show ?thesis by simp
qed

text \<open>
  C18: no minute is left behind. While the open minutes of every exporter are whole minutes not before
  \<open>nextFlush\<close>, \<open>flushDue\<close> keeps it so, through catch-up jumps after a stall and clock steps back; after it
  no open minute is due any more (\<open>m + 180 s\<close> lies after \<open>now\<close>), and when the clock has not run backwards an
  exporter has at most three open minutes.
\<close>

theorem flushDue_complete:
  assumes "exps_ok (c_nextFlush c) (\<lambda>_. True) c" and "60 dvd c_nextFlush c"
    and "c_nextFlush c = 0 \<longrightarrow> gm_all (\<lambda>st. x_agg st = []) (c_exps c)"
    and "gm_get (c_exps (flushDue now c)) i = Some st"
  shows "agg_from (c_nextFlush (flushDue now c)) (x_agg st) \<and> agg_ok (x_agg st)
    \<and> list_all (\<lambda>(m, _). unix now < m + flushDelay) (x_agg st)
    \<and> (list_all (\<lambda>(m, _). m \<le> floorMinute (unix now)) (x_agg st) \<longrightarrow> gm_len (x_agg st) \<le> 3)"
proof -
  have P: "core_pred (\<lambda>_ :: 's expState. True)" by (simp add: core_pred_def)
  let ?c = "flushDue now c"
  have ok: "exps_ok (c_nextFlush ?c) (\<lambda>_. True) ?c" and d: "60 dvd c_nextFlush ?c" and late: "unix now < c_nextFlush ?c + flushDelay"
    using flushDue_ok [OF assms(1-3) P, of now] by blast+
  have a: "agg_ok (x_agg st)" "agg_from (c_nextFlush ?c) (x_agg st)"
    using ok assms(4) unfolding exps_ok_def by (auto dest: gm_all_get)
  have due: "list_all (\<lambda>(m, _). unix now < m + flushDelay) (x_agg st)"
    using a(2) late by (fastforce simp: agg_from_def list_all_iff)
  have "gm_len (x_agg st) \<le> 3" if up: "list_all (\<lambda>(m, _). m \<le> floorMinute (unix now)) (x_agg st)"
  proof -
    let ?h = "floorMinute (unix now)"
    have "m \<in> {?h, ?h - 60, ?h - 120}" if m: "m \<in> fst ` set (x_agg st)" for m
    proof -
      have "60 dvd m" "m \<le> ?h" "?h - 180 < m"
        using a(2) up due m floorMinute_bounds(1) [of "unix now"] by (force simp: agg_from_def list_all_iff flushDelay_def)+
      then obtain k q where k: "m = 60 * k" and q: "?h = 60 * q" and "k \<le> q" "q < k + 3"
        by (auto simp: floorMinute_div elim!: dvdE)
      then have "k = q \<or> k = q - 1 \<or> k = q - 2" by arith
      then show ?thesis using k q by auto
    qed
    then have "card (fst ` set (x_agg st)) \<le> card {?h, ?h - 60, ?h - 120}" by (intro card_mono) auto
    also have "\<dots> \<le> 3" by (simp add: card_insert_if)
    finally show ?thesis using a(1) distinct_card [of "map fst (x_agg st)"] by (simp add: agg_ok_def gm_wf_def gm_len_def)
  qed
  with a due show ?thesis by blast
qed

subsection \<open>Adding flows keeps the open minutes in place\<close>

text \<open>The trivial component: what \<open>add\<close> guarantees with no bound on the totals.\<close>

interpretation nil: component "\<lambda>_. 0" "\<lambda>_ _ _. 0" "\<lambda>_. True"
  by unfold_locales (simp_all add: satAdd_def Let_def wrap64_def maxInt64_def)

lemma gm_all_True [simp]: "gm_all (\<lambda>_. True) m"
  by (simp add: gm_all_def)

lemma agg_sum_zero [simp]: "agg_sum (\<lambda>_. 0) a = 0"
proof -
  have z: "gm_sum (\<lambda>_. 0) m = 0" for m :: "('k, 'v) gomap" by (induction m) auto
  have "minute_sum (\<lambda>_. 0) = (\<lambda>_. 0)" by (simp add: fun_eq_iff minute_sum_def z)
  then show ?thesis by (simp add: agg_sum_def z)
qed

lemma agg_add_safe:
  assumes "agg_ok a" and "60 dvd nextFlush" and "zero_time \<le> nf_start f" and "zero_time \<le> nf_end f" and "time_range now"
  shows "\<exists>a' late. agg_add f now nextFlush a = Some (a', late) \<and> agg_ok a'"
  using nil.agg_add_J [of 0 a nextFlush f now] assms by (auto simp: nil.J_def maxInt64_def)

lemma agg_from_upd: "agg_from nf a \<Longrightarrow> nf \<le> m \<Longrightarrow> 60 dvd m \<Longrightarrow> agg_from nf (upd_minute m g a)"
  by (auto simp: agg_from_iff upd_minute_def fst_set_gm_put)

lemma agg_from_put:
  assumes "agg_from nf a" and "nf \<le> lo" and "lo \<le> hi" and "60 dvd lo" and "60 dvd hi" and "60 dvd m"
  shows "agg_from nf (put f lo hi m sb sp sf a)"
  unfolding put_def using assms by (intro agg_from_upd) (auto simp: min_def max_def)

lemma agg_from_share:
  assumes "share f lo hi b p dur m ov st = Some st'" and "agg_from nf (sh_agg st)"
    and w: "nf \<le> lo" "lo \<le> hi" "60 dvd lo" "60 dvd hi" "60 dvd m"
  shows "agg_from nf (sh_agg st')"
  using assms(1,2) agg_from_put [OF assms(2) w]
  by (auto simp: share_def Let_def bind_eq_Some_conv)

lemma agg_from_share_loop:
  assumes "share_loop f lo hi b p dur startMs endMs endMin m st = Some st'" and "agg_from nf (sh_agg st)"
    and "nf \<le> lo" "lo \<le> hi" "60 dvd lo" "60 dvd hi" "60 dvd m"
  shows "agg_from nf (sh_agg st')"
  using assms
proof (induction f lo hi b p dur startMs endMs endMin m st rule: share_loop.induct)
  case (1 f lo hi b p dur startMs endMs endMin m st)
  show ?case
  proof (cases "m \<le> endMin \<and> sh_cum st < dur")
    case False
    then have "share_loop f lo hi b p dur startMs endMs endMin m st = Some st"
      by (subst share_loop.simps) (simp only: if_False)
    then show ?thesis using "1.prems" by simp
  next
    case True
    define ov where "ov = min endMs ((m + 60) * 1000) - max startMs (m * 1000)"
    have d: "60 dvd m + 60" using "1.prems"(7) by simp
    note st = share_loop_step [OF True ov_def, where f = f and lo = lo and hi = hi and b = b and p = p]
    show ?thesis
    proof (cases "ov > 0")
      case pos: True
      then obtain st1 where s1: "share f lo hi b p dur m ov st = Some st1"
        "share_loop f lo hi b p dur startMs endMs endMin (m + 60) st1 = Some st'"
        using "1.prems"(1) st by (auto simp: bind_eq_Some_conv)
      have "agg_from nf (sh_agg st1)" using agg_from_share [OF s1(1)] "1.prems" by blast
      then show ?thesis using "1.IH"(1) [OF True ov_def pos s1(1) s1(2)] "1.prems" d by blast
    next
      case neg: False
      then show ?thesis using "1.IH"(2) [OF True ov_def neg] "1.prems" st d by simp
    qed
  qed
qed

lemma agg_from_spread:
  assumes "add_spread f lo hi b p start en a = Some a'" and "agg_from nf a" and w: "nf \<le> lo" "lo \<le> hi" "60 dvd lo" "60 dvd hi"
  shows "agg_from nf a'"
proof -
  obtain st1 st2 where st1: "(if floorMinute (unix start) < lo
       then share f lo hi b p (unix_milli en - unix_milli start) lo (min (unix_milli en) (lo * 1000) - unix_milli start)
              \<lparr>sh_agg = a, sh_cum = 0, sh_doneB = 0, sh_doneP = 0\<rparr>
       else Some \<lparr>sh_agg = a, sh_cum = 0, sh_doneB = 0, sh_doneP = 0\<rparr>) = Some st1"
    and st2: "share_loop f lo hi b p (unix_milli en - unix_milli start) (unix_milli start) (unix_milli en) (floorMinute (unix en))
       (if floorMinute (unix start) < lo then lo else floorMinute (unix start)) st1 = Some st2"
    and a': "a' = put f lo hi (floorMinute (unix en)) 0 0 1
       (if b - sh_doneB st2 > 0 \<or> p - sh_doneP st2 > 0
        then put f lo hi (floorMinute (unix en)) (b - sh_doneB st2) (p - sh_doneP st2) 0 (sh_agg st2) else sh_agg st2)"
    using assms(1) by (auto simp: add_spread_def Let_def bind_eq_Some_conv)
  have "agg_from nf (sh_agg st1)"
    using st1 agg_from_share [of f lo hi b p _ lo _ _ st1 nf] assms(2) w by (auto split: if_splits)
  then have "agg_from nf (sh_agg st2)" using agg_from_share_loop [OF st2] w by simp
  then show ?thesis using w unfolding a' by (intro agg_from_put) (auto intro: agg_from_put)
qed

lemma agg_add_from:
  assumes "agg_add f now nextFlush a = Some (a', late)" and "agg_from nextFlush a" and d: "60 dvd nextFlush"
  shows "agg_from nextFlush a'"
proof -
  obtain lo hi where w: "window now nextFlush = (lo, hi)" by force
  note b = window_bounds [OF w] and l = window_lo [OF d w]
  have hi: "60 dvd hi" using b(4) d by (simp add: max_def)
  define en where "en = (if nf_end f > now + minutes 1 then now else nf_end f)"
  define start where "start = (if nf_start f > en then en else nf_start f)"
  obtain a1 where a1: "(if unix_milli en \<le> unix_milli start
       then Some (put f lo hi (floorMinute (unix en)) (clamp_value (nf_bytes f)) (clamp_value (nf_packets f)) 1 a)
       else add_spread f lo hi (clamp_value (nf_bytes f)) (clamp_value (nf_packets f)) start en a) = Some a1"
    and a': "a' = (if floorMinute (unix en) < lo \<or> floorMinute (unix start) < lo
       then upd_minute lo (\<lambda>mm. mm\<lparr>mm_late := wrap64 (mm_late mm + 1)\<rparr>) a1 else a1)"
    using assms(1) unfolding start_def en_def agg_add_def w Let_def prod.case bind_eq_Some_conv by blast
  have "agg_from nextFlush a1"
    using a1 agg_from_spread [OF _ assms(2) b(1,2) l hi] agg_from_put [OF assms(2) b(1,2) l hi]
    by (auto split: if_splits)
  then show ?thesis unfolding a' using b(1) l by (auto intro: agg_from_upd)
qed

lemma agg_from_markAlive:
  assumes "agg_from nf a" and "60 dvd nf" shows "agg_from nf (markAlive now nf a)"
proof -
  obtain lo hi where w: "window now nf = (lo, hi)" by force
  note b = window_bounds [OF w] and l = window_lo [OF assms(2) w]
  have hi: "60 dvd hi" using b(4) assms(2) by (simp add: max_def)
  have m: "60 dvd lo \<Longrightarrow> m \<in> set (minutes_upto lo hi) \<Longrightarrow> lo \<le> m \<and> 60 dvd m" for m lo hi
    by (induction lo hi rule: minutes_upto.induct) (subst (asm) (2) minutes_upto.simps, fastforce split: if_splits)
  have "agg_from nf (fold (\<lambda>m. upd_minute m (\<lambda>mm. mm\<lparr>mm_alive := True\<rparr>)) ms a)" if "\<And>m. m \<in> set ms \<Longrightarrow> nf \<le> m \<and> 60 dvd m" for ms
    using assms(1) that by (induction ms arbitrary: a) (simp_all add: agg_from_upd)
  from this [of "minutes_upto lo hi"] m [OF l, of _ hi] b(1,2) hi show ?thesis
    by (fastforce simp: markAlive_def w intro!: agg_from_upd)
qed

end
