(* ===== verification/Worker_Props.thy ===== *)
theory Worker_Props
  imports Worker_Flush
begin

text \<open>
  The worker as a whole: an invariant of the collector's state that every step keeps (datagrams, flushes,
  reconciles, status writes), the absence of panics in aggregation, and the accounting of the flows and
  counters of a datagram.
\<close>

subsection \<open>The invariant\<close>

definition exp_inv :: "'s template_system \<Rightarrow> 's decoders \<Rightarrow> time \<Rightarrow> 's expState \<Rightarrow> bool" where
  "exp_inv ts d T st \<longleftrightarrow> (\<exists>t \<le> T. exp_run ts d t (x_dec st)) \<and> length (x_perMin st) = 6
     \<and> (case x_hints st of None \<Rightarrow> True | Some h \<Rightarrow> hints_ok h)
     \<and> (case x_dup st of None \<Rightarrow> True | Some f \<Rightarrow> \<exists>l. dup_abs f l)"

definition io_ok :: "'s collector \<Rightarrow> bool" where
  "io_ok c \<longleftrightarrow> listener_ok (c_ls c) \<and> length (c_writeCh c) \<le> writerCap \<and> length (c_ifsyncReq c) \<le> ifsyncCap"

definition worker_ok :: "'s template_system \<Rightarrow> 's decoders \<Rightarrow> time \<Rightarrow> 's collector \<Rightarrow> bool" where
  "worker_ok ts d T c \<longleftrightarrow> exps_ok (c_nextFlush c) (exp_inv ts d T) c \<and> 60 dvd c_nextFlush c
     \<and> (c_nextFlush c = 0 \<longrightarrow> gm_all (\<lambda>st. x_agg st = []) (c_exps c)) \<and> io_ok c"

lemma core_exp_inv: "core_pred (exp_inv ts d T)"
  by (auto simp: core_pred_def same_core_def exp_inv_def)

lemma exp_inv_mono: "exp_inv ts d T st \<Longrightarrow> T \<le> T' \<Longrightarrow> exp_inv ts d T' st"
  unfolding exp_inv_def by (meson order_trans)

lemma exps_ok_mono: "exps_ok nf P c \<Longrightarrow> (\<And>st. P st \<Longrightarrow> Q st) \<Longrightarrow> exps_ok nf Q c"
  by (auto simp: exps_ok_def gm_all_def)

lemma listener_ok_count [simp]: "listener_ok (s\<lparr>ls_global := g\<rparr>) = listener_ok s"
  by (simp add: listener_ok_def)

lemma io_ok_global [simp]: "io_ok (upd_global g c) = io_ok c"
  by (simp add: io_ok_def upd_global_def)

lemma io_ok_put [simp]: "io_ok (put_exp i st c) = io_ok c"
  by (simp add: io_ok_def put_exp_def)

lemma io_ok_upd [simp]:
  "io_ok (c\<lparr>c_exps := e\<rparr>) = io_ok c" "io_ok (c\<lparr>c_nextFlush := n\<rparr>) = io_ok c" "io_ok (c\<lparr>c_settings := s\<rparr>) = io_ok c"
  "io_ok (c\<lparr>c_natives := x\<rparr>) = io_ok c" "io_ok (c\<lparr>c_ifaces := y\<rparr>) = io_ok c" "io_ok (c\<lparr>c_acceptLog := z\<rparr>) = io_ok c"
  "io_ok (c\<lparr>c_rows := r\<rparr>) = io_ok c" "io_ok (c\<lparr>c_devices := w\<rparr>) = io_ok c"
  by (simp_all add: io_ok_def)

lemma io_ok_submit: "io_ok c \<Longrightarrow> io_ok (snd (submit op c))"
  by (auto simp: io_ok_def submit_def writerCap_def upd_global_def split: writeOp.splits)

lemma io_ok_submitMaint: "io_ok c \<Longrightarrow> io_ok (snd (submitMaint op c))"
  by (simp add: submitMaint_def io_ok_submit)

subsection \<open>Flushing keeps it\<close>

lemma io_ok_flush_ifaces:
  assumes "flush_ifaces i now idxs st (c, b) = (c', b')" and "io_ok c" shows "io_ok c'"
proof -
  have "c_ls c' = c_ls c" "c_writeCh c' = c_writeCh c" using flush_ifaces_rest [OF assms(1)] by auto
  moreover have "length (c_ifsyncReq c') \<le> ifsyncCap"
    using assms by (auto simp: flush_ifaces_def Let_def split_beta io_ok_def put_exp_def)
  ultimately show ?thesis using assms(2) by (simp add: io_ok_def)
qed

lemma io_ok_flush_exporter: "io_ok (fst cb) \<Longrightarrow> io_ok (fst (flush_exporter m now i cb))"
proof -
  assume "io_ok (fst cb)"
  moreover have F: "io_ok c \<Longrightarrow> io_ok (fst (flush_ifaces i now idxs st (c, b)))" for c b idxs st
    using io_ok_flush_ifaces by (metis prod.collapse)
  ultimately show ?thesis
    by (cases cb) (simp add: flush_exporter_def Let_def F split: option.splits prod.splits)
qed

lemma io_ok_flush_exporters: "io_ok (fst cb) \<Longrightarrow> io_ok (fst (fold (flush_exporter m now) is cb))"
  by (induction "is" arbitrary: cb) (simp_all add: io_ok_flush_exporter)

lemma io_ok_flushMinute: "io_ok c \<Longrightarrow> io_ok (flushMinute m now final c)"
  by (simp add: flushMinute_def flush_batch_def Let_def split_beta io_ok_submit io_ok_flush_exporters)

lemma io_ok_flush_minutes: "io_ok c \<Longrightarrow> io_ok (fold (\<lambda>m c. (flushMinute m now False c)\<lparr>c_nextFlush := m + 60\<rparr>) ms c)"
  by (induction ms arbitrary: c) (simp_all add: io_ok_flushMinute)

lemma io_ok_flushDue: "io_ok c \<Longrightarrow> io_ok (flushDue now c)"
  by (simp add: flushDue_def Let_def io_ok_flush_minutes)

lemma worker_ok_flushDue:
  assumes "worker_ok ts d T c" and "180 \<le> unix now"
  shows "worker_ok ts d T (flushDue now c) \<and> 0 < c_nextFlush (flushDue now c)"
proof -
  have "exps_ok (c_nextFlush (flushDue now c)) (exp_inv ts d T) (flushDue now c)" "60 dvd c_nextFlush (flushDue now c)"
    "unix now < c_nextFlush (flushDue now c) + flushDelay"
    using flushDue_ok [OF _ _ _ core_exp_inv, of c ts d T now] assms(1) unfolding worker_ok_def by blast+
  then show ?thesis using assms io_ok_flushDue by (auto simp: worker_ok_def flushDelay_def)
qed

subsection \<open>Reconciling keeps it\<close>

definition st_ok :: "'s template_system \<Rightarrow> 's decoders \<Rightarrow> int \<Rightarrow> time \<Rightarrow> 's expState \<Rightarrow> bool" where
  "st_ok ts d nf T st \<longleftrightarrow> agg_ok (x_agg st) \<and> agg_from nf (x_agg st) \<and> exp_inv ts d T st \<and> (nf = 0 \<longrightarrow> x_agg st = [])"

definition wk :: "'s template_system \<Rightarrow> 's decoders \<Rightarrow> int \<Rightarrow> time \<Rightarrow> 's collector \<Rightarrow> bool" where
  "wk ts d nf T c \<longleftrightarrow> gm_wf (c_exps c) \<and> gm_all (st_ok ts d nf T) (c_exps c) \<and> io_ok c \<and> c_nextFlush c = nf"

lemma worker_ok_wk: "worker_ok ts d T c \<longleftrightarrow> wk ts d (c_nextFlush c) T c \<and> 60 dvd c_nextFlush c"
  by (auto simp: worker_ok_def wk_def exps_ok_def st_ok_def gm_all_def)

lemma wk_put: "wk ts d nf T c \<Longrightarrow> st_ok ts d nf T st \<Longrightarrow> wk ts d nf T (put_exp i st c)"
  by (auto simp: wk_def put_exp_def gm_all_put gm_wf_intros io_ok_def)

lemma wk_get: "wk ts d nf T c \<Longrightarrow> gm_get (c_exps c) i = Some st \<Longrightarrow> st_ok ts d nf T st"
  by (auto simp: wk_def dest: gm_all_get)

lemma wk_global [simp]: "wk ts d nf T (upd_global g c) = wk ts d nf T c"
  by (simp add: wk_def) (simp add: upd_global_def)

lemma st_ok_mono: "st_ok ts d nf T st \<Longrightarrow> T \<le> T' \<Longrightarrow> st_ok ts d nf T' st"
  by (auto simp: st_ok_def intro: exp_inv_mono)

lemma wk_mono: "wk ts d nf T c \<Longrightarrow> T \<le> T' \<Longrightarrow> wk ts d nf T' c"
  by (auto simp: wk_def gm_all_def intro: st_ok_mono)

lemma dup_abs_new: "\<exists>l. dup_abs newDupFilter l"
  unfolding dup_abs_def using dup_entries_new by blast

lemma exp_inv_configure:
  assumes "exp_inv ts d T st" shows "exp_inv ts d T (configure r now st)"
  using assms dup_abs_new by (auto simp: exp_inv_def configure_def Let_def hints_ok_def newHintTracker_def intro: run_settings
    split: option.splits)

lemma st_ok_configure: "st_ok ts d nf T st \<Longrightarrow> st_ok ts d nf T (configure r now st)"
  using exp_inv_configure [of ts d T st r now] by (simp add: st_ok_def configure_def Let_def)

lemma st_ok_new:
  assumes "0 \<le> T" shows "st_ok ts d nf T (newExpState ts db r a now)"
proof -
  define st where "st = configure r now (fresh_state ts r a)"
  have "exp_inv ts d T (fresh_state ts r a)"
    using assms run_new [of T ts d] by (auto simp: exp_inv_def fresh_state_def)
  then have i: "exp_inv ts d T st" unfolding st_def by (rule exp_inv_configure)
  let ?recs = "db_templates db (fe_ID r) (now - templateLoadMaxAge) MaxTemplates"
  have run: "\<exists>t\<le>T. exp_run ts d t (fst (LoadTemplates ts ?recs (x_dec st)))"
    using i run_load by (fastforce simp: exp_inv_def)
  have "x_agg st = []" by (simp add: st_def configure_def Let_def fresh_state_def)
  then show ?thesis using i run
    by (simp add: st_ok_def newExpState_def exp_inv_def agg_ok_def agg_from_def Let_def split_beta flip: st_def)
qed

lemma pps_range: "c_settings c = readSettings get \<Longrightarrow> 0 \<le> pps_rate c \<and> pps_rate c \<le> 1125899906842624"
proof -
  assume "c_settings c = readSettings get"
  then have "100 \<le> rs_pps (c_settings c)" "rs_pps (c_settings c) \<le> 50000"
    using settingInt_range [of 100 2000 50000 get] by (simp_all add: readSettings_def RateLimitPPS_def)
  then show ?thesis
    using fl64_nonneg [of "of_int (rs_pps (c_settings c))"] fl64_upper [of "of_int (rs_pps (c_settings c))"]
    by (simp add: pps_rate_def f_of_int_def)
qed

lemma ring_ok_forget: "ring_ok r \<Longrightarrow> ring_ok (ring_forget a r)"
  by (auto simp: ring_ok_def ring_forget_def intro: distinct_map_filter order_trans [OF length_filter_le])

lemma wk_listener: "wk ts d nf T c \<Longrightarrow> listener_ok ls \<Longrightarrow> wk ts d nf T (c\<lparr>c_ls := ls\<rparr>)"
  by (simp add: wk_def io_ok_def)

definition row_inv :: "'s template_system \<Rightarrow> 's decoders \<Rightarrow> int \<Rightarrow> time \<Rightarrow> runtimeSettings \<Rightarrow>
    's collector \<times> (addr, int) gomap \<times> int list \<Rightarrow> bool" where
  "row_inv ts d nf T s cas \<longleftrightarrow> wk ts d nf T (fst cas) \<and> c_settings (fst cas) = s"

lemma row_inv_step:
  assumes inv: "row_inv ts d nf T s cas" and "0 \<le> T" and s: "s = readSettings get"
  shows "row_inv ts d nf T s (reconcile_row ts db now r cas)"
proof -
  obtain c al ids where cas: "cas = (c, al, ids)" by (metis prod_cases3)
  have w: "wk ts d nf T c" and set: "c_settings c = s" using inv by (simp_all add: row_inv_def cas)
  show ?thesis
  proof (cases "fe_Address r")
    case None
    then show ?thesis using inv by (simp add: reconcile_row_def cas)
  next
    case (Some a0)
    define i a where "i = fe_ID r" and "a = Unmap a0"
    define keep where "keep = (case gm_get (c_exps c) i of Some st \<Rightarrow> x_addr st = a | None \<Rightarrow> False)"
    define st where "st = (if keep then configure r now (the (gm_get (c_exps c) i)) else newExpState ts db r a now)"
    define g0 where "g0 = \<lparr>g_id = i, g_enabled = fe_Enabled r, g_bucket = newTokenBucket (pps_rate c), g_rateLimited = 0, g_oversized = 0\<rparr>"
    define g where "g = (case gm_get (ls_gates (c_ls c)) i of Some g \<Rightarrow> if keep then g\<lparr>g_enabled := fe_Enabled r\<rparr> else g0 | None \<Rightarrow> g0)"
    define ls where "ls = (c_ls c)\<lparr>ls_gates := gm_put i (g\<lparr>g_bucket := setRate (pps_rate c) (g_bucket g)\<rparr>) (ls_gates (c_ls c)),
      ls_unknown := ring_forget a (ls_unknown (c_ls c))\<rparr>"
    have st: "st_ok ts d nf T st"
      using w assms(2) by (auto simp: st_def keep_def intro!: st_ok_configure st_ok_new dest: wk_get split: option.splits)
    have L: "listener_ok (c_ls c)" using w by (simp add: wk_def io_ok_def)
    have pps: "0 \<le> pps_rate c" "pps_rate c \<le> 1125899906842624" using pps_range [of c get] set s by simp_all
    have "bucket_ok (g_bucket g)"
      using L pps by (auto simp: g_def g0_def bucket_ok_new listener_ok_def dest: gm_all_get split: option.splits)
    then have "bucket_ok (setRate (pps_rate c) (g_bucket g))" using pps by (rule bucket_ok_setRate)
    then have "listener_ok ls" using L by (simp add: listener_ok_def ls_def gm_all_put ring_ok_forget)
    then have "wk ts d nf T ((put_exp i st c)\<lparr>c_ls := ls\<rparr>)" by (intro wk_listener wk_put w st)
    moreover have "reconcile_row ts db now r cas = ((put_exp i st c)\<lparr>c_ls := ls\<rparr>, gm_put a i al, ids @ [i])"
      unfolding reconcile_row_def cas Some prod.case option.case Let_def ls_def g_def g0_def st_def keep_def i_def a_def by (rule refl)
    ultimately show ?thesis using set by (simp add: row_inv_def put_exp_def)
  qed
qed

lemma row_inv_rows:
  assumes "row_inv ts d nf T s cas" and "0 \<le> T" and "s = readSettings get"
  shows "row_inv ts d nf T s (fold (reconcile_row ts db now) rows cas)"
  using assms by (induction rows arbitrary: cas) (simp_all add: row_inv_step)

lemma gm_all_filter: "gm_all Q m \<Longrightarrow> gm_all Q (filter P m)"
  by (auto simp: gm_all_def)

lemma wk_filter: "wk ts d nf T c \<Longrightarrow> wk ts d nf T (c\<lparr>c_exps := filter P (c_exps c)\<rparr>)"
  by (simp add: wk_def gm_wf_filter gm_all_filter)

lemma st_ok_if [simp]: "st_ok ts d nf T (st\<lparr>x_if := x\<rparr>) = st_ok ts d nf T st"
  by (simp add: st_ok_def exp_inv_def)

lemma wk_map:
  assumes "wk ts d nf T c" and "\<And>i st. st_ok ts d nf T st \<Longrightarrow> st_ok ts d nf T (h i st)"
  shows "wk ts d nf T (c\<lparr>c_exps := map (\<lambda>(i, st). (i, h i st)) (c_exps c)\<rparr>)"
proof -
  have "map fst (map (\<lambda>(i, st). (i, h i st)) (c_exps c)) = map fst (c_exps c)" by auto
  then have "gm_wf (map (\<lambda>(i, st). (i, h i st)) (c_exps c))" using assms(1) unfolding wk_def gm_wf_def by metis
  then show ?thesis using assms by (fastforce simp: wk_def gm_all_def)
qed

lemma candidates_ok:
  assumes old: "gm_all (\<lambda>c. bucket_ok (cg_bucket c)) old" and rate: "0 \<le> rate" "rate \<le> 1125899906842624"
    and m: "gm_all (\<lambda>c. bucket_ok (cg_bucket c)) m"
  shows "gm_all (\<lambda>c. bucket_ok (cg_bucket c)) (fold (reconcile_candidate old al rate) ds m)"
  using m
proof (induction ds arbitrary: m)
  case (Cons x ds)
  have "gm_all (\<lambda>c. bucket_ok (cg_bucket c)) (reconcile_candidate old al rate x m)"
    using Cons.prems old rate
    by (auto simp: reconcile_candidate_def bucket_ok_new bucket_ok_setRate intro!: gm_all_put
        dest: gm_all_get split: prod.splits option.splits)
  then show ?case by (simp add: Cons.IH)
qed simp

lemma st_ok_expire:
  assumes "st_ok ts d nf T st" shows "st_ok ts d nf T (absorb_exp (st\<lparr>x_dec := expirePending now (x_dec st)\<rparr>))"
  using assms run_expire by (fastforce simp: st_ok_def exp_inv_def absorb_exp_def Let_def)

lemma fold_inv: "(\<And>x s. I s \<Longrightarrow> I (f x s)) \<Longrightarrow> I s \<Longrightarrow> I (fold f xs s)"
  by (induction xs arbitrary: s) simp_all

lemma wk_expire_one: "wk ts d nf T c \<Longrightarrow> wk ts d nf T (expire_one now i c)"
  by (auto simp: expire_one_def Let_def intro!: wk_put st_ok_expire dest: wk_get split: option.splits)

lemma wk_expire_all: "wk ts d nf T c \<Longrightarrow> wk ts d nf T (expire_all now c)"
  unfolding expire_all_def by (rule fold_inv [where I = "wk ts d nf T"]) (rule wk_expire_one)

lemma wk_reconcile_ifaces: "wk ts d nf T c \<Longrightarrow> wk ts d nf T (reconcile_ifaces db c)"
  by (auto simp: reconcile_ifaces_def Let_def wk_def split: option.splits)

lemma wk_reconcile_exps: "wk ts d nf T c \<Longrightarrow> wk ts d nf T (reconcile_exps ids c)"
  unfolding reconcile_exps_def Let_def by (intro wk_map wk_filter) (simp_all add: rebuildIfKnown_def Let_def)

lemma reconcile_settings [simp]:
  "c_settings (reconcile_ifaces db c) = c_settings c" "c_settings (reconcile_exps ids c) = c_settings c"
  by (simp_all add: reconcile_ifaces_def reconcile_exps_def Let_def split: option.splits)

lemma reconcile_ifaces_ls [simp]: "c_ls (reconcile_ifaces db c) = c_ls c"
  by (simp add: reconcile_ifaces_def Let_def split: option.splits)

lemma wk_reconcile_allow:
  assumes w: "wk ts d nf T c" and s: "c_settings c = readSettings get" and old: "gm_all (\<lambda>c. bucket_ok (cg_bucket c)) old"
  shows "wk ts d nf T (reconcile_allow old devices al ids c)"
proof -
  have L: "listener_ok (c_ls c)" using w by (simp add: wk_def io_ok_def)
  have pps: "0 \<le> pps_rate c" "pps_rate c \<le> 1125899906842624" using pps_range [OF s] by simp_all
  have "0 \<le> rs_pps (c_settings c)" "rs_pps (c_settings c) \<le> 50000"
    using settingInt_range [of 100 2000 50000 get "''flow_rate_limit_pps''"] by (simp_all add: s readSettings_def RateLimitPPS_def)
  then have g: "0 \<le> f_of_int (globalRateFactor * rs_pps (c_settings c))" "f_of_int (globalRateFactor * rs_pps (c_settings c)) \<le> 1125899906842624"
    using fl64_nonneg [of "of_int (globalRateFactor * rs_pps (c_settings c))"]
      fl64_upper [of "of_int (globalRateFactor * rs_pps (c_settings c))"] by (simp_all add: f_of_int_def globalRateFactor_def)
  have cands: "gm_all (\<lambda>c. bucket_ok (cg_bucket c)) (fold (reconcile_candidate old al (pps_rate c)) devices [])"
    using old pps by (intro candidates_ok) simp_all
  show ?thesis unfolding reconcile_allow_def Let_def
    using L g cands by (intro wk_listener w) (simp add: listener_ok_def bucket_ok_setRate gm_all_filter)
qed

lemma wk_reconcile:
  assumes w: "wk ts d nf T c" and "0 \<le> T" and ts: "en_ts en = ts"
  shows "wk ts d nf T (reconcile en now c)"
proof -
  let ?s = "readSettings (db_settings (en_db en))"
  define c0 where "c0 = c\<lparr>c_settings := ?s\<rparr>"
  have w0: "wk ts d nf T c0" "c_settings c0 = ?s" using w by (simp_all add: c0_def wk_def)
  show ?thesis
  proof (cases "db_exporters (en_db en)")
    case None
    then show ?thesis using w0(1) by (simp add: reconcile_def Let_def c0_def)
  next
    case (Some rows)
    define c2 where "c2 = reconcile_ifaces (en_db en) c0"
    have w2: "wk ts d nf T c2" "c_settings c2 = ?s" using w0 by (simp_all add: c2_def wk_reconcile_ifaces)
    obtain c3 al ids where r: "fold (reconcile_row ts (en_db en) now) rows (c2, [], []) = (c3, al, ids)" by (metis prod_cases3)
    have w3: "wk ts d nf T c3" "c_settings c3 = ?s"
      using row_inv_rows [of ts d nf T ?s "(c2, [], [])" "db_settings (en_db en)" "en_db en" now rows] w2 assms(2) r
      by (simp_all add: row_inv_def)
    define devs where "devs = (case db_devices (en_db en) of Some ds \<Rightarrow> device_map ds | None \<Rightarrow> [])"
    define c4 where "c4 = reconcile_allow (al_candidates (ls_allow (c_ls c2))) devs al ids (reconcile_exps ids c3)"
    have "gm_all (\<lambda>c. bucket_ok (cg_bucket c)) (al_candidates (ls_allow (c_ls c2)))"
      using w2(1) by (simp add: wk_def io_ok_def listener_ok_def)
    then have w4: "wk ts d nf T c4"
      unfolding c4_def using w3 by (intro wk_reconcile_allow [where get = "db_settings (en_db en)"] wk_reconcile_exps) simp_all
    then have "wk ts d nf T (c4\<lparr>c_rows := rows, c_devices := devs\<rparr>)" by (simp add: wk_def)
    then show ?thesis
      using Some r by (simp add: reconcile_def Let_def ts wk_expire_all flip: c0_def c2_def devs_def c4_def)
  qed
qed

subsection \<open>A datagram keeps it\<close>

lemma normalize_dup:
  assumes "normalize a ports dup f now n = (r, dup', n')" and "case dup of None \<Rightarrow> True | Some x \<Rightarrow> \<exists>l. dup_abs x l"
  shows "case dup' of None \<Rightarrow> True | Some x \<Rightarrow> \<exists>l. dup_abs x l"
proof -
  have s: "\<exists>l'. dup_abs x' l'" if "dup_abs x l" "seen h now x = (b, x')" for x l h b x'
    using seen_refines [OF that] by blast
  show ?thesis
    using assms by (auto simp: normalize_def Let_def dest: s split: if_splits option.splits prod.splits)
qed

lemma norm_flow_times [simp]: "nf_start (norm_flow f) = f_Start f" "nf_end (norm_flow f) = f_End f"
  by (simp_all add: norm_flow_def Let_def split_beta)

text \<open>What the loop over the flows relies on: instants after the zero time.\<close>

definition flow_times_ok :: "flow \<Rightarrow> bool" where
  "flow_times_ok f \<longleftrightarrow> zero_time \<le> f_Start f \<and> zero_time \<le> f_End f"

lemma good_flow_times: "good_flow now f \<Longrightarrow> 0 \<le> now \<Longrightarrow> flow_times_ok f"
  by (auto simp: good_flow_def recent_def times_within_def flow_times_ok_def time_defs)

lemma exp_inv_upd [simp]:
  "exp_inv ts d T (st\<lparr>x_cnt := a\<rparr>) = exp_inv ts d T st" "exp_inv ts d T (st\<lparr>x_health := h\<rparr>) = exp_inv ts d T st"
  "exp_inv ts d T (st\<lparr>x_agg := g\<rparr>) = exp_inv ts d T st" "exp_inv ts d T (st\<lparr>x_live := l\<rparr>) = exp_inv ts d T st"
  "exp_inv ts d T (st\<lparr>x_tmpl := t\<rparr>) = exp_inv ts d T st" "exp_inv ts d T (st\<lparr>x_prev := p\<rparr>) = exp_inv ts d T st"
  "exp_inv ts d T (st\<lparr>x_rebootLog := r\<rparr>) = exp_inv ts d T st" "exp_inv ts d T (st\<lparr>x_captured := n\<rparr>) = exp_inv ts d T st"
  "exp_inv ts d T (st\<lparr>x_firstLogged := b\<rparr>) = exp_inv ts d T st" "exp_inv ts d T (st\<lparr>x_persisted := q\<rparr>) = exp_inv ts d T st"
  by (simp_all add: exp_inv_def)

lemma exp_inv_dup: "exp_inv ts d T st \<Longrightarrow> case dup of None \<Rightarrow> True | Some x \<Rightarrow> \<exists>l. dup_abs x l \<Longrightarrow> exp_inv ts d T (st\<lparr>x_dup := dup\<rparr>)"
  by (simp add: exp_inv_def)

lemma exp_inv_hints: "exp_inv ts d T st \<Longrightarrow> case hs of None \<Rightarrow> True | Some h \<Rightarrow> hints_ok h \<Longrightarrow> exp_inv ts d T (st\<lparr>x_hints := hs\<rparr>)"
  by (simp add: exp_inv_def)

definition acc_ok :: "'s template_system \<Rightarrow> 's decoders \<Rightarrow> int \<Rightarrow> time \<Rightarrow> 's flow_acc \<Rightarrow> bool" where
  "acc_ok ts d nf T acc \<longleftrightarrow> st_ok ts d nf T (fa_st acc) \<and> fa_ok acc"

lemma flow_step_ok:
  assumes acc: "acc_ok ts d nf T acc" and nf: "60 dvd nf" "0 < nf" and now: "time_range now" and f: "flow_times_ok f"
  shows "acc_ok ts d nf T (flow_step ports nf now f acc)"
proof -
  define st where "st = (fa_st acc)\<lparr>x_cnt := (x_cnt (fa_st acc))\<lparr>xl_timeSource := (xl_timeSource (x_cnt (fa_st acc)))
    (f_TimeSource f := xl_timeSource (x_cnt (fa_st acc)) (f_TimeSource f) + 1)\<rparr>\<rparr>"
  have st: "st_ok ts d nf T st" "fa_ok acc" using acc by (auto simp: acc_ok_def st_ok_def st_def)
  obtain r dup nc where n: "normalize (x_addr (fa_st acc)) ports (x_dup (fa_st acc)) f now (fa_nc acc) = (r, dup, nc)" by (metis prod_cases3)
  define st2 where "st2 = st\<lparr>x_dup := dup\<rparr>"
  have "case dup of None \<Rightarrow> True | Some x \<Rightarrow> \<exists>l. dup_abs x l"
    using normalize_dup [OF n] acc by (simp add: acc_ok_def st_ok_def exp_inv_def)
  then have st2: "st_ok ts d nf T st2" using st(1) by (simp add: st_ok_def st2_def exp_inv_dup)
  show ?thesis
  proof (cases r)
    case None
    then have "flow_step ports nf now f acc = acc\<lparr>fa_st := st2, fa_nc := nc\<rparr>"
      using st(2) n by (simp add: flow_step_def Let_def st2_def st_def)
    then show ?thesis using st2 st(2) by (simp add: acc_ok_def)
  next
    case (Some x)
    have x: "x = norm_flow f" using n Some normalize_passes by blast
    have "agg_ok (x_agg st2)" "agg_from nf (x_agg st2)" using st2 by (simp_all add: st_ok_def)
    with agg_add_safe [of "x_agg st2" nf x now] nf(1) now f obtain agg late where
      a: "agg_add x now nf (x_agg st2) = Some (agg, late)" "agg_ok agg" by (auto simp: x flow_times_ok_def)
    have af: "agg_from nf agg" using agg_add_from [OF a(1)] \<open>agg_from nf (x_agg st2)\<close> nf(1) by blast
    define st3 where "st3 = st2\<lparr>x_agg := agg, x_health := (x_health st2)\<lparr>xh_sampling := uint (max (f_SamplingRate f) 1)\<rparr>,
      x_hints := (case x_hints st2 of Some h \<Rightarrow> if nf_endpoints x then Some (hint_add (f_InIf f) (f_SrcAddr f) (nf_bytes x) now h) else Some h
                  | None \<Rightarrow> None)\<rparr>"
    have "exp_inv ts d T st3" unfolding st3_def
      using st2 by (intro exp_inv_hints) (auto simp: st_ok_def exp_inv_def hints_ok_add split: option.splits)
    then have st3: "st_ok ts d nf T st3" using a(2) af nf(2) by (simp add: st_ok_def st3_def)
    have "fa_st (flow_step ports nf now f acc) = st3" "fa_ok (flow_step ports nf now f acc)"
      using st(2) n Some a(1) by (simp_all add: flow_step_def Let_def st3_def st2_def st_def)
    then show ?thesis using st3 by (simp add: acc_ok_def)
  qed
qed

lemma flow_steps_ok:
  assumes "acc_ok ts d nf T acc" and "60 dvd nf" "0 < nf" and "time_range now" and "\<And>f. f \<in> set fs \<Longrightarrow> flow_times_ok f"
  shows "acc_ok ts d nf T (fold (flow_step ports nf now) fs acc)"
  using assms(1,5) by (induction fs arbitrary: acc) (simp_all add: flow_step_ok assms(2-4))

lemma wk_submitMaint: "wk ts d nf T c \<Longrightarrow> wk ts d nf T (snd (submitMaint op c))"
  by (simp add: wk_def io_ok_submitMaint) (simp add: submitMaint_def)

lemma wk_submit: "wk ts d nf T c \<Longrightarrow> wk ts d nf T (snd (submit op c))"
  by (simp add: wk_def io_ok_submit)

definition pair_ok :: "'s template_system \<Rightarrow> 's decoders \<Rightarrow> int \<Rightarrow> time \<Rightarrow> 's expState \<times> 's collector \<Rightarrow> bool" where
  "pair_ok ts d nf T sc \<longleftrightarrow> st_ok ts d nf T (fst sc) \<and> wk ts d nf T (snd sc)"

lemma st_ok_tmpl [simp]:
  "st_ok ts d nf T (st\<lparr>x_tmpl := t\<rparr>) = st_ok ts d nf T st" "st_ok ts d nf T (st\<lparr>x_rebootLog := r\<rparr>) = st_ok ts d nf T st"
  by (simp_all add: st_ok_def)

lemma submitMaint_wk: "wk ts d nf T c \<Longrightarrow> submitMaint op c = (b, c') \<Longrightarrow> wk ts d nf T c'"
  using wk_submitMaint [of ts d nf T c op] by simp

lemma pair_ok_reboot: "pair_ok ts d nf T sc \<Longrightarrow> pair_ok ts d nf T (persist_reboot res now sc)"
  by (cases sc) (auto simp: pair_ok_def persist_reboot_def Let_def dest: submitMaint_wk split: prod.splits bool.splits)

lemma pair_ok_withdrawn: "pair_ok ts d nf T sc \<Longrightarrow> pair_ok ts d nf T (persist_withdrawn res sc)"
  by (cases sc) (simp add: pair_ok_def persist_withdrawn_def wk_submitMaint)

lemma pair_ok_learned: "pair_ok ts d nf T sc \<Longrightarrow> pair_ok ts d nf T (persist_learned now t sc)"
  by (cases sc) (auto simp: pair_ok_def persist_learned_def Let_def dest: submitMaint_wk split: prod.splits bool.splits)

lemma pair_ok_persistTemplates:
  assumes "pair_ok ts d nf T sc" shows "pair_ok ts d nf T (persistTemplates res now sc)"
proof -
  have "pair_ok ts d nf T (fold (persist_learned now) l (persist_withdrawn res (persist_reboot res now sc)))" for l
    by (rule fold_inv [where I = "pair_ok ts d nf T"]) (simp_all add: pair_ok_learned pair_ok_withdrawn pair_ok_reboot assms)
  from this [of "res_Learned res"] show ?thesis
    unfolding persistTemplates_def Let_def by (cases "res_Learned res") (simp_all add: pair_ok_def split_beta)
qed

lemma length_addRate: "length (x_perMin (addRate now a b e st)) = length (x_perMin st)"
  by (simp add: addRate_def Let_def)

lemma exp_inv_addRate [simp]: "exp_inv ts d T (addRate now a b e st) = exp_inv ts d T st"
  by (simp add: addRate_def Let_def exp_inv_def)

lemma addRate_agg [simp]: "x_agg (addRate now a b e st) = x_agg st" "x_dec (addRate now a b e st) = x_dec st"
  by (simp_all add: addRate_def Let_def)

lemma st_ok_absorb: "st_ok ts d nf T (note_result res err now (absorb_exp st)) = st_ok ts d nf T st"
  by (simp add: note_result_def absorb_exp_def Let_def st_ok_def exp_inv_def)

lemma dg_decode_ok:
  assumes st: "st_ok ts d nf T st" and c: "wk ts d nf T c" and T: "T \<le> now" "dg_received dg = now" and now: "0 \<le> now" "now \<le> seconds 4294967296"
    and nf: "60 dvd nf" "0 < nf" and en: "en_ts en = ts" "en_dec en = d" and run: "dg_decode en dg i st c = (st', c', res)"
  shows "st_ok ts d nf now st' \<and> wk ts d nf now c' \<and> (\<forall>f \<in> set (res_Flows res). flow_times_ok f)"
proof -
  define st1 where "st1 = addRate now 1 0 0 ((capture c st)\<lparr>x_live := (x_live (capture c st))\<lparr>cs_datagrams := cs_datagrams (x_live (capture c st)) + 1\<rparr>,
    x_health := (x_health (capture c st))\<lparr>xh_lastSeen := now\<rparr>, x_agg := markAlive now (c_nextFlush c) (x_agg (capture c st))\<rparr>)"
  obtain dec r err where dec: "Decode ts d (dg_bytes dg) now (x_dec st1) = (dec, r, err)" by (metis prod_cases3)
  have cn: "c_nextFlush c = nf" using c by (simp add: wk_def)
  have cap: "x_agg (capture c st) = x_agg st" "x_dec (capture c st) = x_dec st" "exp_inv ts d T (capture c st) = exp_inv ts d T st"
    by (simp_all add: capture_def)
  have "exp_inv ts d T (capture c st)" using st by (simp add: cap st_ok_def)
  then have "exp_inv ts d now (capture c st)" using T(1) by (rule exp_inv_mono)
  then have i1: "exp_inv ts d now st1" by (simp add: st1_def)
  have a1: "agg_ok (x_agg st1)" "agg_from nf (x_agg st1)"
    using st nf(1) by (simp_all add: st1_def cap cn st_ok_def agg_ok_markAlive agg_from_markAlive)
  obtain t where t: "t \<le> T" "exp_run ts d t (x_dec st1)" using st by (auto simp: st1_def cap st_ok_def exp_inv_def)
  have "exp_run ts d now dec" using run_decode [OF t(2), of now "dg_bytes dg"] t(1) T(1) dec by simp
  then have "exp_inv ts d now (st1\<lparr>x_dec := dec\<rparr>)" using i1 by (auto simp: exp_inv_def)
  then have st2: "st_ok ts d nf now (st1\<lparr>x_dec := dec\<rparr>)" using a1 nf(2) by (simp add: st_ok_def)
  define st3 where "st3 = note_result r err now (absorb_exp (st1\<lparr>x_dec := dec\<rparr>))"
  define c1 where "c1 = upd_global (absorb_global (st1\<lparr>x_dec := dec\<rparr>)) c"
  have "pair_ok ts d nf now (st3, c1)" using st2 wk_mono [OF c T(1)] by (simp add: pair_ok_def st3_def st_ok_absorb c1_def)
  then have p: "pair_ok ts d nf now (persistTemplates r now (st3, c1))" by (rule pair_ok_persistTemplates)
  have "dg_decode en dg i st c = (fst (persistTemplates r now (st3, c1)), snd (persistTemplates r now (st3, c1)), r)"
    unfolding dg_decode_def Let_def T(2) en st1_def [symmetric] dec prod.case st3_def [symmetric] c1_def [symmetric] by (simp add: split_beta)
  then have eq: "st' = fst (persistTemplates r now (st3, c1))" "c' = snd (persistTemplates r now (st3, c1))" "res = r" using run by simp_all
  have "t \<le> now" using t(1) T(1) by simp
  then have "\<forall>f \<in> set (res_Flows r). good_flow now f" using Decode_flows_good [OF t(2) _ now(2) dec] by blast
  then show ?thesis using p now(1) good_flow_times by (auto simp: eq pair_ok_def)
qed

subsection \<open>The flows of a datagram\<close>

lemma x_upd_ok [simp]:
  "st_ok ts d nf T (st\<lparr>x_live := l\<rparr>) = st_ok ts d nf T st" "st_ok ts d nf T (st\<lparr>x_cnt := n\<rparr>) = st_ok ts d nf T st"
  "st_ok ts d nf T (st\<lparr>x_persisted := q\<rparr>) = st_ok ts d nf T st" "st_ok ts d nf T (st\<lparr>x_health := h\<rparr>) = st_ok ts d nf T st"
  "st_ok ts d nf T (addRate now a b e st) = st_ok ts d nf T st"
  by (simp_all add: st_ok_def)

lemma st_ok_dg_finish: "st_ok ts d nf T (dg_finish now acc) = st_ok ts d nf T (fa_st acc)"
  by (simp add: dg_finish_def Let_def)

definition flows_acc :: "datagram \<Rightarrow> 's expState \<Rightarrow> 's collector \<Rightarrow> Result \<Rightarrow> 's flow_acc" where
  "flows_acc dg st c res = fold (flow_step (c_listenPorts c) (c_nextFlush c) (dg_received dg)) (res_Flows res)
     \<lparr>fa_st = st, fa_nc = \<lparr>nc_selfExport = 0, nc_dup = 0, nc_natDst = 0\<rparr>, fa_accepted = 0, fa_bytes = 0, fa_late = 0, fa_ok = True\<rparr>"

lemma flows_acc_ok:
  assumes "st_ok ts d nf T st" and "c_nextFlush c = nf" and "60 dvd nf" "0 < nf" and "time_range (dg_received dg)"
    and "\<forall>f \<in> set (res_Flows res). flow_times_ok f"
  shows "st_ok ts d nf T (fa_st (flows_acc dg st c res)) \<and> fa_ok (flows_acc dg st c res)"
proof -
  let ?a = "\<lparr>fa_st = st, fa_nc = \<lparr>nc_selfExport = 0, nc_dup = 0, nc_natDst = 0\<rparr>, fa_accepted = 0, fa_bytes = 0, fa_late = 0, fa_ok = True\<rparr>"
  have "acc_ok ts d nf T ?a" using assms(1) by (simp add: acc_ok_def)
  then have "acc_ok ts d nf T (flows_acc dg st c res)"
    unfolding flows_acc_def assms(2) using assms(3-6) by (intro flow_steps_ok) auto
  then show ?thesis by (simp add: acc_ok_def)
qed

lemma dg_flows_eq:
  assumes "fa_ok (flows_acc dg st c res)"
  shows "dg_flows dg i (st, c, res) =
    upd_global (\<lambda>g. g\<lparr>gc_selfExportDropped := gc_selfExportDropped g + nc_selfExport (fa_nc (flows_acc dg st c res)),
                      gc_dupDropped := gc_dupDropped g + nc_dup (fa_nc (flows_acc dg st c res))\<rparr>)
      (put_exp i (dg_finish (dg_received dg) (flows_acc dg st c res))
        (upd_global (\<lambda>g. g\<lparr>gc_lateRecords := gc_lateRecords g + fa_late (flows_acc dg st c res)\<rparr>) c))"
  using assms unfolding dg_flows_def Let_def prod.case flows_acc_def by simp

lemma dg_flows_ok:
  assumes "st_ok ts d nf T st" and "wk ts d nf T c" and "60 dvd nf" "0 < nf" and "time_range (dg_received dg)"
    and "\<forall>f \<in> set (res_Flows res). flow_times_ok f"
  shows "wk ts d nf T (dg_flows dg i (st, c, res))"
proof -
  have "st_ok ts d nf T (fa_st (flows_acc dg st c res))" "fa_ok (flows_acc dg st c res)"
    using flows_acc_ok [OF assms(1) _ assms(3-6), of c] assms(2) by (simp_all add: wk_def)
  then show ?thesis using assms(2) by (simp add: dg_flows_eq wk_put st_ok_dg_finish)
qed

lemma wk_acceptCandidate:
  assumes "wk ts d nf now c" and "0 \<le> now" and "en_ts en = ts" and run: "acceptCandidate en dg now c = (i, c')"
  shows "wk ts d nf now c'"
proof -
  have L: "listener_ok (c_ls c)" using assms(1) by (simp add: wk_def io_ok_def)
  have ring: "wk ts d nf now (c1\<lparr>c_ls := (c_ls c1)\<lparr>ls_unknown := fst (ring_record a k now dev b (ls_unknown (c_ls c1)))\<rparr>\<rparr>)"
    if "wk ts d nf now c1" for c1 a k dev b
    using that by (intro wk_listener) (simp_all add: wk_def io_ok_def listener_ok_def ring_ok_record)
  have fl: "wk ts d nf now (accept_failed a now c)" for a
    using assms(1) by (simp add: accept_failed_def Let_def wk_def)
  show ?thesis
    using run assms(1) wk_reconcile [OF assms(1-3)] ring fl
    by (auto simp: acceptCandidate_def Let_def split: option.splits if_splits)
qed

lemma wk_processDatagram:
  assumes w: "worker_ok ts d T c" and T: "T \<le> now" "dg_received dg = now" and now: "180 \<le> unix now" "now \<le> seconds 4294967296"
    and en: "en_ts en = ts" "en_dec en = d"
  shows "worker_ok ts d now (processDatagram en dg c)"
proof -
  let ?c = "flushDue now c"
  define nf where "nf = c_nextFlush ?c"
  have now0: "0 \<le> now" using now(1) by (simp add: unix_def time_defs)
  have f: "worker_ok ts d T ?c" "0 < nf" using worker_ok_flushDue [OF w now(1)] by (simp_all add: nf_def)
  then have nf: "60 dvd nf" and wc: "wk ts d nf T ?c" by (simp_all add: worker_ok_wk nf_def)
  have wc: "wk ts d nf now ?c" using wc T(1) by (rule wk_mono)
  define ic where "ic = (case dg_candidate dg of Some _ \<Rightarrow> acceptCandidate en dg now ?c | None \<Rightarrow> (Some (dg_exporterID dg), ?c))"
  obtain i c1 where ic: "ic = (i, c1)" by (cases ic)
  have w1: "wk ts d nf now c1"
    using ic wc wk_acceptCandidate [OF wc now0 en(1), of dg i c1] by (auto simp: ic_def split: option.splits)
  have tr: "time_range now" using now0 now(2) by (simp add: time_range_def time_defs unix_milli_def)
  have main: "wk ts d nf now (dg_flows dg j (dg_decode en dg j st c1))" if "gm_get (c_exps c1) j = Some st" for j st
  proof -
    obtain st' c' res where r: "dg_decode en dg j st c1 = (st', c', res)" by (metis prod_cases3)
    have "st_ok ts d nf now st" using w1 that by (rule wk_get)
    from dg_decode_ok [OF this w1 order_refl T(2) now0 now(2) nf f(2) en r]
    show ?thesis using nf f(2) tr T(2) by (simp add: r dg_flows_ok)
  qed
  have "wk ts d nf now (processDatagram en dg c)"
    unfolding processDatagram_def Let_def T(2) ic_def [symmetric] ic prod.case
    using w1 main by (simp split: option.splits)
  then show ?thesis using nf by (simp add: worker_ok_wk wk_def)
qed

subsection \<open>Accounting for a datagram\<close>

definition is_flush :: "writeOp \<Rightarrow> bool" where
  "is_flush op \<longleftrightarrow> (case op of WFlush _ \<Rightarrow> True | _ \<Rightarrow> False)"

lemma submit_ls: "submit op c = (b, c') \<Longrightarrow> \<not> is_flush op \<Longrightarrow> c_ls c' = c_ls c"
  by (auto simp: submit_def is_flush_def split: if_splits writeOp.splits)

lemma submitMaint_ls: "submitMaint op c = (b, c') \<Longrightarrow> \<not> is_flush op \<Longrightarrow> c_ls c' = c_ls c"
  by (auto simp: submitMaint_def dest: submit_ls split: if_splits)

text \<open>What the template bookkeeping leaves alone.\<close>

definition same_data :: "'s expState \<times> 's collector \<Rightarrow> 's expState \<times> 's collector \<Rightarrow> bool" where
  "same_data sc sc' \<longleftrightarrow> x_live (fst sc') = x_live (fst sc) \<and> x_cnt (fst sc') = x_cnt (fst sc) \<and> x_agg (fst sc') = x_agg (fst sc)
     \<and> c_ls (snd sc') = c_ls (snd sc)"

lemma same_data_refl [simp]: "same_data sc sc"
  by (simp add: same_data_def)

lemma same_data_trans: "same_data a b \<Longrightarrow> same_data b c \<Longrightarrow> same_data a c"
  by (simp add: same_data_def)

lemma same_data_persist:
  "same_data sc (persist_reboot res now sc)" "same_data sc (persist_withdrawn res sc)" "same_data sc (persist_learned now t sc)"
proof -
  show "same_data sc (persist_reboot res now sc)"
    by (cases sc) (auto simp: same_data_def persist_reboot_def Let_def is_flush_def dest!: submitMaint_ls split: prod.splits bool.splits)
  show "same_data sc (persist_withdrawn res sc)"
    by (cases sc, cases "submitMaint (WWithdraw (fe_ID (x_row (fst sc))) (res_Withdrawn res)) (snd sc)")
      (auto simp: same_data_def persist_withdrawn_def is_flush_def dest!: submitMaint_ls)
  show "same_data sc (persist_learned now t sc)"
    by (cases sc) (auto simp: same_data_def persist_learned_def Let_def is_flush_def dest!: submitMaint_ls split: prod.splits bool.splits)
qed

lemma same_data_persistTemplates: "same_data sc (persistTemplates res now sc)"
proof -
  have "same_data sc (fold (persist_learned now) (res_Learned res) (persist_withdrawn res (persist_reboot res now sc)))"
    by (rule fold_inv [where I = "same_data sc"]) (blast intro: same_data_trans same_data_persist)+
  then show ?thesis unfolding persistTemplates_def Let_def
    by (cases "res_Learned res") (simp_all add: same_data_def split_beta)
qed

lemma markAlive_flows:
  assumes "agg_ok a" shows "agg_sum av_flows (markAlive now nf a) = agg_sum av_flows a"
proof -
  have "flo.asum (upd_minute m g b) = flo.asum b" if "\<And>mm. flo.msum (g mm) = flo.msum mm" for m g b
    using that by (simp add: flo.upd_sum)
  moreover from this have "flo.asum (fold (\<lambda>m. upd_minute m (\<lambda>mm. mm\<lparr>mm_alive := True\<rparr>)) ms b) = flo.asum b" for ms b
    by (induction ms arbitrary: b) (simp_all add: minute_sum_def)
  ultimately show ?thesis by (simp add: markAlive_def Let_def split_beta minute_sum_def)
qed

text \<open>The loop over the flows: each is aggregated, or dropped as a self-export or as a duplicate.\<close>

definition flows_accounted :: "int \<Rightarrow> counterSet \<times> expLive \<Rightarrow> nat \<Rightarrow> 's flow_acc \<Rightarrow> bool" where
  "flows_accounted T0 lc k acc \<longleftrightarrow> fa_ok acc \<and> flo.J (T0 + fa_accepted acc) (x_agg (fa_st acc))
     \<and> fa_accepted acc + nc_selfExport (fa_nc acc) + nc_dup (fa_nc acc) = int k
     \<and> 0 \<le> fa_accepted acc \<and> 0 \<le> nc_selfExport (fa_nc acc) \<and> 0 \<le> nc_dup (fa_nc acc)
     \<and> x_live (fa_st acc) = fst lc \<and> xl_selfExport (x_cnt (fa_st acc)) = xl_selfExport (snd lc)
     \<and> xl_dupDropped (x_cnt (fa_st acc)) = xl_dupDropped (snd lc)"

lemma normalize_counts:
  assumes "normalize a ports dup f now n = (r, dup', n')" and "0 \<le> nc_selfExport n" "0 \<le> nc_dup n"
  shows "nc_selfExport n' + nc_dup n' = nc_selfExport n + nc_dup n + (if r = None then 1 else 0)
    \<and> 0 \<le> nc_selfExport n' \<and> 0 \<le> nc_dup n'"
  using assms by (auto simp: normalize_def Let_def split: if_splits option.splits prod.splits)

lemma flows_accounted_step:
  assumes acc: "flows_accounted T0 lc k acc" and nf: "60 dvd nf" and now: "time_range now" and f: "flow_times_ok f"
    and room: "T0 + int k + 1 \<le> maxInt64"
  shows "flows_accounted T0 lc (Suc k) (flow_step ports nf now f acc)"
proof -
  define st where "st = (fa_st acc)\<lparr>x_cnt := (x_cnt (fa_st acc))\<lparr>xl_timeSource := (xl_timeSource (x_cnt (fa_st acc)))
    (f_TimeSource f := xl_timeSource (x_cnt (fa_st acc)) (f_TimeSource f) + 1)\<rparr>\<rparr>"
  obtain r dup nc where n: "normalize (x_addr (fa_st acc)) ports (x_dup (fa_st acc)) f now (fa_nc acc) = (r, dup, nc)" by (metis prod_cases3)
  have ok: "fa_ok acc" and j: "flo.J (T0 + fa_accepted acc) (x_agg (fa_st acc))" and le: "fa_accepted acc \<le> int k"
    using acc by (auto simp: flows_accounted_def)
  have cnt: "nc_selfExport nc + nc_dup nc = nc_selfExport (fa_nc acc) + nc_dup (fa_nc acc) + (if r = None then 1 else 0)"
    "0 \<le> nc_selfExport nc" "0 \<le> nc_dup nc"
    using normalize_counts [OF n] acc by (auto simp: flows_accounted_def)
  show ?thesis
  proof (cases r)
    case None
    then have "flow_step ports nf now f acc = acc\<lparr>fa_st := st\<lparr>x_dup := dup\<rparr>, fa_nc := nc\<rparr>"
      using ok n by (simp add: flow_step_def Let_def st_def)
    then show ?thesis using acc cnt None by (simp add: flows_accounted_def st_def)
  next
    case (Some x)
    have x: "x = norm_flow f" using n Some normalize_passes by blast
    obtain agg late where a: "agg_add x now nf (x_agg (fa_st acc)) = Some (agg, late)" "flo.J (T0 + fa_accepted acc + 1) agg"
      using flo.agg_add_J [OF j nf _ _ now, of x] f room le by (auto simp: x flow_times_ok_def)
    have "x_agg (fa_st (flow_step ports nf now f acc)) = agg" "fa_accepted (flow_step ports nf now f acc) = fa_accepted acc + 1"
      "fa_nc (flow_step ports nf now f acc) = nc" "fa_ok (flow_step ports nf now f acc)"
      "x_live (fa_st (flow_step ports nf now f acc)) = x_live (fa_st acc)"
      "x_cnt (fa_st (flow_step ports nf now f acc)) = x_cnt st"
      using ok n Some a(1) by (simp_all add: flow_step_def Let_def st_def)
    then show ?thesis using acc cnt a(2) Some by (simp add: flows_accounted_def st_def add.assoc)
  qed
qed

lemma flows_accounted_steps:
  assumes "flows_accounted T0 lc k acc" and "60 dvd nf" and "time_range now" and "\<And>f. f \<in> set fs \<Longrightarrow> flow_times_ok f"
    and "T0 + int k + int (length fs) \<le> maxInt64"
  shows "flows_accounted T0 lc (k + length fs) (fold (flow_step ports nf now) fs acc)"
  using assms(1,4,5)
proof (induction fs arbitrary: acc k)
  case (Cons f fs)
  have "flows_accounted T0 lc (Suc k) (flow_step ports nf now f acc)"
    using Cons.prems assms(2,3) by (intro flows_accounted_step) simp_all
  from Cons.IH [OF this] Cons.prems(2,3) show ?case by simp
qed simp

subsection \<open>The theorems on a datagram\<close>

lemma dg_decode_frame:
  assumes dec: "Decode (en_ts en) (en_dec en) (dg_bytes dg) (dg_received dg) (x_dec st) = (dec, res, err)"
    and run: "dg_decode en dg i st c = (st', c', res')"
  shows "res' = res" and "cs_datagrams (x_live st') = cs_datagrams (x_live st) + 1" and "cs_flows (x_live st') = cs_flows (x_live st)"
    and "xl_selfExport (x_cnt st') = xl_selfExport (x_cnt st)" and "xl_dupDropped (x_cnt st') = xl_dupDropped (x_cnt st)"
    and "x_agg st' = markAlive (dg_received dg) (c_nextFlush c) (x_agg st)"
    and "ls_global (c_ls c') = (ls_global (c_ls c))
      \<lparr>gc_rejected := gc_rejected (ls_global (c_ls c)) + (int (st_Rejected (e_Stats dec)) - int (st_Rejected (x_prev st))),
       gc_panics := gc_panics (ls_global (c_ls c)) + (int (st_Panics (e_Stats dec)) - int (st_Panics (x_prev st)))\<rparr>"
proof -
  have cap: "x_agg (capture c st) = x_agg st" "x_dec (capture c st) = x_dec st" "x_live (capture c st) = x_live st"
    "x_cnt (capture c st) = x_cnt st" "x_prev (capture c st) = x_prev st"
    by (simp_all add: capture_def)
  let ?st0 = "(capture c st)\<lparr>x_live := (x_live (capture c st))\<lparr>cs_datagrams := cs_datagrams (x_live (capture c st)) + 1\<rparr>,
    x_health := (x_health (capture c st))\<lparr>xh_lastSeen := dg_received dg\<rparr>,
    x_agg := markAlive (dg_received dg) (c_nextFlush c) (x_agg (capture c st))\<rparr>"
  define st1 where "st1 = (addRate (dg_received dg) 1 0 0 ?st0)\<lparr>x_dec := dec\<rparr>"
  have st1: "cs_datagrams (x_live st1) = cs_datagrams (x_live st) + 1" "cs_flows (x_live st1) = cs_flows (x_live st)" "x_cnt st1 = x_cnt st"
    "x_agg st1 = markAlive (dg_received dg) (c_nextFlush c) (x_agg st)" "x_prev st1 = x_prev st" "x_dec st1 = dec"
    by (simp_all add: st1_def cap addRate_def Let_def)
  have dec0: "Decode (en_ts en) (en_dec en) (dg_bytes dg) (dg_received dg) (x_dec (addRate (dg_received dg) 1 0 0 ?st0)) = (dec, res, err)"
    using dec by (simp add: cap)
  define sc where "sc = (note_result res err (dg_received dg) (absorb_exp st1), upd_global (absorb_global st1) c)"
  have "dg_decode en dg i st c = (fst (persistTemplates res (dg_received dg) sc), snd (persistTemplates res (dg_received dg) sc), res)"
    unfolding dg_decode_def Let_def dec0 prod.case st1_def [symmetric] sc_def [symmetric] by (simp add: split_beta)
  then have eq: "st' = fst (persistTemplates res (dg_received dg) sc)" "c' = snd (persistTemplates res (dg_received dg) sc)" "res' = res"
    using run by simp_all
  have same: "x_live st' = x_live (fst sc)" "x_cnt st' = x_cnt (fst sc)" "x_agg st' = x_agg (fst sc)" "c_ls c' = c_ls (snd sc)"
    using same_data_persistTemplates [of sc res "dg_received dg"] by (simp_all add: same_data_def eq)
  have nr: "x_live (note_result res err t s) = x_live s" "x_cnt (note_result res err t s) = x_cnt s" "x_agg (note_result res err t s) = x_agg s"
    for t and s :: "'a expState" by (simp_all add: note_result_def Let_def)
  show "res' = res" by (fact eq(3))
  show "cs_datagrams (x_live st') = cs_datagrams (x_live st) + 1" "cs_flows (x_live st') = cs_flows (x_live st)"
    "xl_selfExport (x_cnt st') = xl_selfExport (x_cnt st)" "xl_dupDropped (x_cnt st') = xl_dupDropped (x_cnt st)"
    "x_agg st' = markAlive (dg_received dg) (c_nextFlush c) (x_agg st)"
    by (simp_all add: same sc_def nr st1 absorb_exp_def Let_def)
  show "ls_global (c_ls c') = (ls_global (c_ls c))
      \<lparr>gc_rejected := gc_rejected (ls_global (c_ls c)) + (int (st_Rejected (e_Stats dec)) - int (st_Rejected (x_prev st))),
       gc_panics := gc_panics (ls_global (c_ls c)) + (int (st_Panics (e_Stats dec)) - int (st_Panics (x_prev st)))\<rparr>"
    by (simp add: same sc_def st1 absorb_global_def upd_global_def Let_def)
qed

lemma agg_sum_flows_nonneg: "agg_ok a \<Longrightarrow> flo.J (agg_sum av_flows a) a"
  by (simp add: flo.J_def)

lemma dg_finish_counts:
  "cs_datagrams (x_live (dg_finish now acc)) = cs_datagrams (x_live (fa_st acc))"
  "cs_flows (x_live (dg_finish now acc)) = cs_flows (x_live (fa_st acc)) + fa_accepted acc"
  "xl_selfExport (x_cnt (dg_finish now acc)) = xl_selfExport (x_cnt (fa_st acc)) + nc_selfExport (fa_nc acc)"
  "xl_dupDropped (x_cnt (dg_finish now acc)) = xl_dupDropped (x_cnt (fa_st acc)) + nc_dup (fa_nc acc)"
  "x_agg (dg_finish now acc) = x_agg (fa_st acc)"
  by (simp_all add: dg_finish_def addRate_def Let_def)

text \<open>The exporter of a datagram that is decoded: known and enabled when its turn comes.\<close>

definition decoded_for :: "datagram \<Rightarrow> 's collector \<Rightarrow> 's expState \<Rightarrow> bool" where
  "decoded_for dg c st \<longleftrightarrow> dg_candidate dg = None \<and> gm_get (c_exps c) (dg_exporterID dg) = Some st \<and> gate_enabled (dg_exporterID dg) c"

lemma processDatagram_known:
  assumes "decoded_for dg (flushDue (dg_received dg) c) st"
  shows "processDatagram en dg c = dg_flows dg (dg_exporterID dg) (dg_decode en dg (dg_exporterID dg) st (flushDue (dg_received dg) c))"
  using assms by (simp add: processDatagram_def Let_def decoded_for_def)

text \<open>
  C30: a datagram keeps the collector's invariant. Every exporter state is one the decoder can reach, its open
  minutes are whole minutes not before \<open>nextFlush\<close> within the caps of aggregation, its hint tracker and
  duplicate filter are well formed, the token buckets stay within their bursts and every queue within its capacity.
  Whatever arrives and whatever the decoders do, \<open>processDatagram\<close> leaves the collector in such a state, be it
  the datagram of a known exporter, of a candidate that is accepted (a reconcile), or one that is refused.
\<close>

theorem processDatagram_safe:
  assumes "worker_ok ts d T c" and "T \<le> dg_received dg" and "180 \<le> unix (dg_received dg)" and "dg_received dg \<le> seconds 4294967296"
    and "en_ts en = ts" and "en_dec en = d"
  shows "worker_ok ts d (dg_received dg) (processDatagram en dg c)"
  using wk_processDatagram [OF assms(1,2) refl assms(3-6)] .

text \<open>
  C4: the flows of a datagram are accounted for exactly once. For a decoded datagram of a known exporter, with
  \<open>c'\<close> the collector after the flushes due: the exporter's datagram count grows by one; the decoded flows are the
  \<open>n\<close> that are aggregated (the exporter's flow count and the flows over its open minutes grow by \<open>n\<close>) plus the
  self-exports plus the duplicates, which the exporter's and the global counters count alike; and the only panics
  counted are the decoder's own: normalisation and aggregation never panic.
\<close>

theorem datagram_accounts:
  fixes c :: "'s collector"
  assumes ok: "worker_ok ts d T c" "T \<le> dg_received dg" "180 \<le> unix (dg_received dg)" "dg_received dg \<le> seconds 4294967296"
    and en: "en_ts en = ts" "en_dec en = d"
    and st: "decoded_for dg (flushDue (dg_received dg) c) st"
    and dec: "Decode ts d (dg_bytes dg) (dg_received dg) (x_dec st) = (dec, res, err)"
    and room: "agg_sum av_flows (x_agg st) + int (length (res_Flows res)) \<le> maxInt64"
  shows "\<exists>st' n selfs dups. gm_get (c_exps (processDatagram en dg c)) (dg_exporterID dg) = Some st'
    \<and> n + selfs + dups = int (length (res_Flows res)) \<and> 0 \<le> n \<and> 0 \<le> selfs \<and> 0 \<le> dups
    \<and> cs_datagrams (x_live st') = cs_datagrams (x_live st) + 1 \<and> cs_flows (x_live st') = cs_flows (x_live st) + n
    \<and> agg_sum av_flows (x_agg st') = agg_sum av_flows (x_agg st) + n
    \<and> xl_selfExport (x_cnt st') = xl_selfExport (x_cnt st) + selfs \<and> xl_dupDropped (x_cnt st') = xl_dupDropped (x_cnt st) + dups
    \<and> (let g = ls_global (c_ls (flushDue (dg_received dg) c)); g' = ls_global (c_ls (processDatagram en dg c)) in
        gc_selfExportDropped g' = gc_selfExportDropped g + selfs \<and> gc_dupDropped g' = gc_dupDropped g + dups
        \<and> gc_panics g' = gc_panics g + (int (st_Panics (e_Stats dec)) - int (st_Panics (x_prev st))))"
proof -
  let ?c = "flushDue (dg_received dg) c" and ?i = "dg_exporterID dg" and ?now = "dg_received dg"
  define nf where "nf = c_nextFlush ?c"
  have now0: "0 \<le> ?now" using ok(3) by (simp add: unix_def time_defs)
  have f: "worker_ok ts d T ?c" "0 < nf" using worker_ok_flushDue [OF ok(1,3)] by (simp_all add: nf_def)
  then have nf: "60 dvd nf" and wc: "wk ts d nf T ?c" by (simp_all add: worker_ok_wk nf_def)
  have sto: "st_ok ts d nf T st" using wc st by (auto simp: decoded_for_def dest: wk_get)
  obtain st1 c1 res1 where run: "dg_decode en dg ?i st ?c = (st1, c1, res1)" by (metis prod_cases3)
  note fr = dg_decode_frame [OF _ run, unfolded en, OF dec]
  from dg_decode_ok [OF sto wc ok(2) refl now0 ok(4) nf f(2) en run]
  have s1: "st_ok ts d nf ?now st1" and w1: "wk ts d nf ?now c1" and tm: "\<forall>f \<in> set (res_Flows res1). flow_times_ok f" by blast+
  have tr: "time_range ?now" using now0 ok(4) by (simp add: time_range_def time_defs unix_milli_def)
  define acc where "acc = flows_acc dg st1 c1 res1"
  let ?a0 = "\<lparr>fa_st = st1, fa_nc = \<lparr>nc_selfExport = 0, nc_dup = 0, nc_natDst = 0\<rparr>, fa_accepted = 0, fa_bytes = 0, fa_late = 0, fa_ok = True\<rparr>"
  have ao: "agg_ok (x_agg st)" using sto by (simp add: st_ok_def)
  have T0: "agg_sum av_flows (x_agg st1) = agg_sum av_flows (x_agg st)" using markAlive_flows [OF ao] by (simp add: fr(6))
  have a0: "flows_accounted (agg_sum av_flows (x_agg st)) (x_live st1, x_cnt st1) 0 ?a0"
    using s1 T0 agg_sum_flows_nonneg [of "x_agg st1"] by (simp add: flows_accounted_def st_ok_def)
  have "flows_accounted (agg_sum av_flows (x_agg st)) (x_live st1, x_cnt st1) (0 + length (res_Flows res1)) acc"
    unfolding acc_def flows_acc_def using a0 nf tr tm room w1 by (intro flows_accounted_steps) (auto simp: wk_def fr(1))
  then have A: "flows_accounted (agg_sum av_flows (x_agg st)) (x_live st1, x_cnt st1) (length (res_Flows res)) acc" by (simp add: fr(1))
  have J: "agg_sum av_flows (x_agg (fa_st acc)) = agg_sum av_flows (x_agg st) + fa_accepted acc"
    using A by (simp add: flows_accounted_def flo.J_def)
  have fin: "processDatagram en dg c = dg_flows dg ?i (st1, c1, res1)" using processDatagram_known [OF st] run by simp
  have ok': "fa_ok (flows_acc dg st1 c1 res1)" using A by (simp add: flows_accounted_def acc_def)
  note eq = dg_flows_eq [OF ok', of ?i, folded acc_def, folded fin]
  have "gm_get (c_exps (processDatagram en dg c)) ?i = Some (dg_finish ?now acc)" by (simp add: eq upd_global_def put_exp_def)
  then show ?thesis using A J
    by (intro exI [of _ "dg_finish ?now acc"] exI [of _ "fa_accepted acc"] exI [of _ "nc_selfExport (fa_nc acc)"] exI [of _ "nc_dup (fa_nc acc)"])
      (simp add: flows_accounted_def dg_finish_counts fr eq upd_global_def put_exp_def Let_def)
qed

subsection \<open>A concrete collector\<close>

definition demo_row :: FlowExporter where
  "demo_row = \<lparr>fe_ID = 1, fe_Name = ''r1'', fe_AddressText = ''10.0.0.1'', fe_Address = Some (Addr4 [10, 0, 0, 1]), fe_Kind = ''routeros'', fe_DeviceID = '''',
     fe_Enabled = True, fe_Auto = False, fe_SamplingOverride = 0, fe_NATAddresses = [], fe_LastSeen = zero_time, fe_Protocol = '''',
     fe_SamplingRate = 0, fe_Datagrams = 0, fe_Flows = 0, fe_Bytes = 0, fe_DecodeErrors = 0, fe_TemplateMisses = 0, fe_SeqLost = 0,
     fe_ClockSkewMs = 0, fe_LastError = Inl '''', fe_LastErrorAt = zero_time, fe_CreatedAt = zero_time\<rparr>"

type_synonym demo_sys = "u16 \<times> u32 \<times> u16 \<Rightarrow> tmpl option"

definition demo_collector :: "demo_sys collector" where
  "demo_collector = \<lparr>
     c_ls = newListener\<lparr>ls_gates := [(1, \<lparr>g_id = 1, g_enabled = True, g_bucket = demo_bucket, g_rateLimited = 0, g_oversized = 0\<rparr>)]\<rparr>,
     c_listenPorts = [], c_captureDir = False, c_exps = [(1, fresh_state fin_ts demo_row (Addr4 [10, 0, 0, 1]))], c_rows = [demo_row],
     c_devices = [], c_natives = [], c_ifaces = [], c_settings = \<lparr>rs_topN = 50, rs_maxRows = 1500, rs_pps = 2000, rs_autoAccept = True\<rparr>,
     c_nextFlush = 540, c_acceptLog = [], c_writeCh = [], c_taken = [], c_drain = None, c_ifsyncReq = []\<rparr>"

definition demo_db :: db_view where
  "demo_db = \<lparr>db_settings = (\<lambda>_. None), db_exporters = Some [demo_row], db_devices = Some [], db_points = Some [], db_ifaces = Some [],
     db_templates = (\<lambda>_ _ _. [])\<rparr>"

text \<open>A NetFlow v5 datagram of one record (10.0.0.9 to 10.0.0.8, port 443), and decoders that read it so.\<close>

definition demo_bytes :: bytes where
  "demo_bytes = [0, 5, 0, 1] @ replicate 68 0"

definition demo_decoders :: "demo_sys decoders" where
  "demo_decoders = ref_decoders\<lparr>d_v5 := (\<lambda>_. DecOk \<lparr>v5_SysUptime = 60000, v5_UnixSecs = 690, v5_UnixNSecs = 0, v5_EngineType = 0,
     v5_EngineId = 0, v5_SamplingInterval = 0, v5_Records = [\<lparr>v5_SrcAddr = 167772169, v5_DstAddr = 167772168, v5_Input = 1, v5_Output = 2,
       v5_DPkts = 10, v5_DOctets = 1000, v5_First = 30000, v5_Last = 60000, v5_SrcPort = 50000, v5_DstPort = 443, v5_TCPFlags = 0, v5_Proto = 6\<rparr>]\<rparr>)\<rparr>"

definition demo_env :: "demo_sys env" where
  "demo_env = \<lparr>en_ts = fin_ts, en_dec = demo_decoders, en_db = demo_db, en_create = CreateOk, en_kernelDrops = (0, False)\<rparr>"

definition demo_datagram :: datagram where
  "demo_datagram = \<lparr>dg_addr = Addr4 [10, 0, 0, 1], dg_exporterID = 1, dg_candidate = None, dg_bytes = demo_bytes, dg_received = seconds 700\<rparr>"

lemma demo_bucket_ok: "bucket_ok demo_bucket"
  by (simp add: demo_bucket_def bucket_ok_def)

lemma demo_worker_ok: "worker_ok fin_ts d 0 demo_collector"
proof -
  have "listener_ok (newListener\<lparr>ls_gates := [(1, \<lparr>g_id = 1, g_enabled = True, g_bucket = demo_bucket, g_rateLimited = 0, g_oversized = 0\<rparr>)]\<rparr>)"
    using listener_ok_new demo_bucket_ok by (simp add: listener_ok_def gm_all_def)
  moreover have "exp_inv fin_ts d 0 (fresh_state fin_ts demo_row (Addr4 [10, 0, 0, 1]))"
    using run_new [of 0 fin_ts d] by (auto simp: exp_inv_def fresh_state_def)
  ultimately show ?thesis
    by (simp add: worker_ok_def exps_ok_def gm_wf_def gm_all_def io_ok_def demo_collector_def fresh_state_def agg_ok_def agg_from_def)
qed

lemma demo_flushDue: "flushDue (seconds 700) demo_collector = demo_collector"
proof -
  have "minutes_upto 540 520 = []" by (simp add: minutes_upto.simps)
  then show ?thesis by (simp add: flushDue_def flush_start_def Let_def demo_collector_def time_defs flushDelay_def flushCatchUpLimit_def)
qed

theorem processDatagram_safe_witness:
  "worker_ok fin_ts demo_decoders (seconds 700) (processDatagram demo_env demo_datagram demo_collector)"
  using processDatagram_safe [OF demo_worker_ok, of demo_datagram demo_env]
  by (simp add: demo_datagram_def demo_env_def time_defs)

lemma demo_flows: "length (res_Flows (fst (snd (Decode fin_ts demo_decoders demo_bytes (seconds 700) e)))) = 1"
proof -
  have "Sniff demo_bytes = Some KindNFv5" "PrecheckV5 demo_bytes = Some None"
    by (simp_all add: demo_bytes_def Sniff_def PrecheckV5_def rd16_def u16_at_def be16_def)
  then show ?thesis
    by (simp add: Decode_def Let_def decode_body_def decode_v5_def demo_decoders_def fromV5_def split_beta demo_bytes_def)
qed

theorem datagram_accounts_witness:
  "\<exists>st' n selfs dups. gm_get (c_exps (processDatagram demo_env demo_datagram demo_collector)) 1 = Some st'
    \<and> n + selfs + dups = 1 \<and> cs_datagrams (x_live st') = 1 \<and> cs_flows (x_live st') = n"
proof -
  obtain dec res err where r: "Decode fin_ts demo_decoders demo_bytes (seconds 700) (NewExporter fin_ts) = (dec, res, err)"
    by (metis prod_cases3)
  have n: "length (res_Flows res) = 1" using demo_flows [of "NewExporter fin_ts"] r by simp
  let ?st = "fresh_state fin_ts demo_row (Addr4 [10, 0, 0, 1])"
  have "decoded_for demo_datagram (flushDue (dg_received demo_datagram) demo_collector) ?st"
    by (simp add: demo_datagram_def demo_flushDue) (simp add: demo_collector_def decoded_for_def gate_enabled_def gm_get_def)
  from datagram_accounts [OF demo_worker_ok _ _ _ _ _ this, of demo_env demo_decoders dec res err] r n show ?thesis
    by (fastforce simp: demo_datagram_def demo_env_def time_defs fresh_state_def zero_counters_def agg_sum_def maxInt64_def)
qed

end
