(* ===== verification/Worker_Handover.thy ===== *)
theory Worker_Handover
  imports Worker_Props
begin

text \<open>
  What the worker hands to the writer (\<open>persistStatus\<close>, \<open>submit\<close>, \<open>submitMaint\<close>): status deltas are handed
  over exactly once, and template operations leave half of the channel to the flush batches.
\<close>

subsection \<open>Status deltas are written exactly once\<close>

text \<open>Everything handed to the writer so far, and the sum of one counter over the status deltas of an exporter.\<close>

definition handed :: "'s collector \<Rightarrow> writeOp list" where
  "handed c = c_taken c @ c_writeCh c"

definition written :: "(statusDelta \<Rightarrow> int) \<Rightarrow> int \<Rightarrow> writeOp list \<Rightarrow> int" where
  "written sel i ops = sum_list (map (\<lambda>op. case op of WStatus ds \<Rightarrow> sum_list (map sel (filter (\<lambda>d. sd_id d = i) ds)) | _ \<Rightarrow> 0) ops)"

lemma written_append [simp]: "written sel i (xs @ ys) = written sel i xs + written sel i ys"
  by (simp add: written_def)

lemma written_hd_tl: "xs \<noteq> [] \<Longrightarrow> written sel i [hd xs] + written sel i (tl xs) = written sel i xs"
  by (cases xs) (simp_all add: written_def)

lemma submit_written:
  assumes "submit op c = (b, c')"
  shows "written sel i (handed c') = written sel i (handed c) + (if b then written sel i [op] else 0)"
proof (cases "c_writeCh c = []")
  case True
  then show ?thesis using assms by (auto simp: submit_def handed_def writerCap_def split: if_splits writeOp.splits)
next
  case False
  then show ?thesis
    using assms written_hd_tl [OF False, of sel i]
    by (auto simp: submit_def handed_def upd_global_def split: if_splits writeOp.splits)
qed

definition status_op :: "(int, 's expState) gomap \<Rightarrow> writeOp" where
  "status_op m = WStatus (map (\<lambda>(_, st). status_delta st) (filter (\<lambda>(_, st). status_due st) m))"

lemma status_delta_id [simp]: "sd_id (status_delta st) = fe_ID (x_row st)"
  by (simp add: status_delta_def Let_def)

lemma status_op_none:
  assumes "list_all (\<lambda>(j, st). fe_ID (x_row st) = j) m" and "i \<notin> fst ` set m"
  shows "written sel i [status_op m] = 0"
  using assms by (induction m) (auto simp: written_def status_op_def)

lemma status_op_some:
  assumes "distinct (map fst m)" and "list_all (\<lambda>(j, st). fe_ID (x_row st) = j) m" and "map_of m i = Some st"
  shows "written sel i [status_op m] = (if status_due st then sel (status_delta st) else 0)"
  using assms
proof (induction m)
  case (Cons x m)
  obtain j s where x: "x = (j, s)" by (cases x)
  have cons: "written sel i [status_op (x # m)]
    = (if status_due s \<and> fe_ID (x_row s) = i then sel (status_delta s) else 0) + written sel i [status_op m]"
    by (simp add: x written_def status_op_def)
  show ?case
  proof (cases "j = i")
    case True
    then show ?thesis using Cons.prems cons status_op_none [of m i sel] by (simp add: x)
  next
    case False
    then show ?thesis using Cons cons by (simp add: x)
  qed
qed simp

lemma persistStatus_eq:
  assumes "filter (\<lambda>(_, st). status_due st) (c_exps c) \<noteq> []"
  shows "persistStatus c = (case submit (status_op (c_exps c)) c of
      (True, c) \<Rightarrow> c\<lparr>c_exps := map (\<lambda>(i, st). (i, if status_due st then mark_persisted st else st)) (c_exps c)\<rparr>
    | (False, c) \<Rightarrow> c)"
  using assms by (simp add: persistStatus_def status_op_def)

lemma not_due_marked: "\<not> status_due (mark_persisted st)"
  by (simp add: status_due_def mark_persisted_def cs_sub_def zero_counters_def)

definition delta_counters :: "statusDelta \<Rightarrow> counterSet" where
  "delta_counters d = \<lparr>cs_datagrams = sd_Datagrams d, cs_flows = sd_Flows d, cs_bytes = sd_Bytes d, cs_decodeErrors = sd_DecodeErrors d,
     cs_templateMisses = sd_TemplateMisses d, cs_seqLost = sd_SeqLost d\<rparr>"

lemma delta_counters_status: "delta_counters (status_delta st) = cs_sub (x_live st) (x_persisted st)"
  by (simp add: delta_counters_def status_delta_def Let_def cs_sub_def)

text \<open>A counter of an exporter with the field of a status delta that carries its growth.\<close>

locale status_counter =
  fixes cnt :: "counterSet \<Rightarrow> int" and sel :: "statusDelta \<Rightarrow> int"
  assumes sel: "sel d = cnt (delta_counters d)"
    and cnt_sub: "cnt (cs_sub a b) = cnt a - cnt b"
begin

lemma delta: "sel (status_delta st) = cnt (x_live st) - cnt (x_persisted st)"
  by (simp add: sel delta_counters_status cnt_sub)

lemma persist_step:
  assumes "gm_wf (c_exps c)" and ids: "list_all (\<lambda>(j, st). fe_ID (x_row st) = j) (c_exps c)" and st: "gm_get (c_exps c) i = Some st"
  shows "\<exists>st'. gm_get (c_exps (persistStatus c)) i = Some st' \<and> x_live st' = x_live st \<and> (st' = st \<or> \<not> status_due st')
    \<and> (length (c_writeCh c) < writerCap \<longrightarrow> \<not> status_due st')
    \<and> written sel i (handed (persistStatus c)) + (cnt (x_live st') - cnt (x_persisted st'))
      = written sel i (handed c) + (cnt (x_live st) - cnt (x_persisted st))"
proof (cases "filter (\<lambda>(_, st). status_due st) (c_exps c) = []")
  case True
  then have "\<not> status_due st" using st by (auto simp: gm_get_def filter_empty_conv dest: map_of_SomeD)
  then show ?thesis using True st by (simp add: persistStatus_def)
next
  case False
  obtain b c' where sub: "submit (status_op (c_exps c)) c = (b, c')" by fastforce
  have e: "c_exps c' = c_exps c" using submit_exps [of "status_op (c_exps c)" c] sub by simp
  have w: "written sel i (handed c') = written sel i (handed c) + (if b then if status_due st then sel (status_delta st) else 0 else 0)"
    using submit_written [OF sub, of sel i] status_op_some [of "c_exps c" i st sel] assms by (simp add: gm_wf_def gm_get_def)
  show ?thesis
  proof (cases b)
    case True
    have eq: "persistStatus c = c'\<lparr>c_exps := map (\<lambda>(i, st). (i, if status_due st then mark_persisted st else st)) (c_exps c)\<rparr>"
      using persistStatus_eq [OF False] sub True e by simp
    have "gm_get (c_exps (persistStatus c)) i = Some (if status_due st then mark_persisted st else st)"
      using st unfolding eq by (simp add: gm_get_def map_of_map)
    moreover have "handed (persistStatus c) = handed c'" by (simp add: eq handed_def)
    ultimately show ?thesis using w True delta [of st] by (auto simp: not_due_marked) (simp_all add: mark_persisted_def)
  next
    case no: False
    then have "persistStatus c = c'" using persistStatus_eq [OF False] sub by simp
    moreover have "\<not> length (c_writeCh c) < writerCap" using sub no by (auto simp: submit_def)
    ultimately show ?thesis using st w no e by simp
  qed
qed

lemma persist_sum:
  assumes "gm_wf (c_exps c)" and "list_all (\<lambda>(j, st). fe_ID (x_row st) = j) (c_exps c)" and "gm_get (c_exps c) i = Some st"
    and "gm_get (c_exps (persistStatus c)) i = Some st'"
  shows "written sel i (handed (persistStatus c)) + (cnt (x_live st') - cnt (x_persisted st'))
    = written sel i (handed c) + (cnt (x_live st) - cnt (x_persisted st))"
  using persist_step [OF assms(1-3)] assms(4) by auto

end

interpretation sc_dg: status_counter cs_datagrams sd_Datagrams by unfold_locales (simp_all add: delta_counters_def cs_sub_def)
interpretation sc_fl: status_counter cs_flows sd_Flows by unfold_locales (simp_all add: delta_counters_def cs_sub_def)
interpretation sc_by: status_counter cs_bytes sd_Bytes by unfold_locales (simp_all add: delta_counters_def cs_sub_def)
interpretation sc_de: status_counter cs_decodeErrors sd_DecodeErrors by unfold_locales (simp_all add: delta_counters_def cs_sub_def)
interpretation sc_tm: status_counter cs_templateMisses sd_TemplateMisses by unfold_locales (simp_all add: delta_counters_def cs_sub_def)
interpretation sc_sq: status_counter cs_seqLost sd_SeqLost by unfold_locales (simp_all add: delta_counters_def cs_sub_def)

text \<open>
  C6: the growth of an exporter's counters reaches the writer exactly once. For each of the six persisted
  counters, what was handed to the writer for the exporter plus what is still owed (\<open>live - persisted\<close>) is the
  same before and after \<open>persistStatus\<close>, whether the writer's channel takes the deltas or refuses them; live
  counters do not change; a refused exporter is left as it was, to be retried, and while the channel has room
  nothing stays due.
\<close>

theorem status_exactly_once:
  assumes "gm_wf (c_exps c)" and "list_all (\<lambda>(j, st). fe_ID (x_row st) = j) (c_exps c)" and "gm_get (c_exps c) i = Some st"
  shows "\<exists>st'. gm_get (c_exps (persistStatus c)) i = Some st' \<and> x_live st' = x_live st \<and> (st' = st \<or> \<not> status_due st')
    \<and> (length (c_writeCh c) < writerCap \<longrightarrow> \<not> status_due st')
    \<and> list_all (\<lambda>(cnt, sel). written sel i (handed (persistStatus c)) + (cnt (x_live st') - cnt (x_persisted st'))
        = written sel i (handed c) + (cnt (x_live st) - cnt (x_persisted st)))
      [(cs_datagrams, sd_Datagrams), (cs_flows, sd_Flows), (cs_bytes, sd_Bytes), (cs_decodeErrors, sd_DecodeErrors),
       (cs_templateMisses, sd_TemplateMisses), (cs_seqLost, sd_SeqLost)]"
proof -
  obtain st' where st': "gm_get (c_exps (persistStatus c)) i = Some st'" and
    rest: "x_live st' = x_live st" "st' = st \<or> \<not> status_due st'" "length (c_writeCh c) < writerCap \<longrightarrow> \<not> status_due st'"
    using sc_dg.persist_step [OF assms] by blast
  note sums = sc_dg.persist_sum sc_fl.persist_sum sc_by.persist_sum sc_de.persist_sum sc_tm.persist_sum sc_sq.persist_sum
  show ?thesis unfolding list.pred_inject prod.case
    by (rule exI [of _ st'], intro conjI) (rule st' sums [OF assms st'] list.pred_inject(1) rest)+
qed

theorem status_exactly_once_witness:
  "written sd_Datagrams 1 (handed (persistStatus (demo_collector\<lparr>c_exps := [(1, (fresh_state fin_ts demo_row (Addr4 [10, 0, 0, 1]))
     \<lparr>x_live := zero_counters\<lparr>cs_datagrams := 5\<rparr>\<rparr>)]\<rparr>))) = 5"
proof -
  define st where "st = (fresh_state fin_ts demo_row (Addr4 [10, 0, 0, 1]))\<lparr>x_live := zero_counters\<lparr>cs_datagrams := 5\<rparr>\<rparr>"
  define c where "c = demo_collector\<lparr>c_exps := [(1, st)]\<rparr>"
  have "gm_wf (c_exps c)" "list_all (\<lambda>(j, st). fe_ID (x_row st) = j) (c_exps c)" "gm_get (c_exps c) 1 = Some st"
    by (simp_all add: c_def st_def gm_wf_def gm_get_def fresh_state_def demo_row_def)
  from status_exactly_once [OF this] obtain st' :: "demo_sys expState" where
    live: "x_live st' = x_live st" and due: "length (c_writeCh c) < writerCap \<longrightarrow> \<not> status_due st'" and
    sum: "written sd_Datagrams 1 (handed (persistStatus c)) + (cs_datagrams (x_live st') - cs_datagrams (x_persisted st'))
      = written sd_Datagrams 1 (handed c) + (cs_datagrams (x_live st) - cs_datagrams (x_persisted st))"
    unfolding list.pred_inject prod.case by blast
  have "\<not> status_due st'" using due by (simp add: c_def demo_collector_def writerCap_def)
  then have "cs_datagrams (x_live st') = cs_datagrams (x_persisted st')" by (simp add: status_due_def cs_sub_def zero_counters_def)
  moreover have "handed c = []" by (simp add: c_def handed_def demo_collector_def)
  ultimately have "written sd_Datagrams 1 (handed (persistStatus c)) = 5"
    using sum by (simp add: written_def st_def fresh_state_def zero_counters_def)
  then show ?thesis by (simp add: c_def st_def)
qed

subsection \<open>Template operations leave room for flushes\<close>

definition spare :: "nat \<Rightarrow> listener \<Rightarrow> 's collector \<Rightarrow> bool" where
  "spare n ls c \<longleftrightarrow> c_drain c = None \<and> length (c_writeCh c) \<le> max n (writerCap div 2) \<and> c_ls c = ls"

lemma spare_submitMaint:
  assumes "spare n ls c" and "\<not> is_flush op" shows "spare n ls (snd (submitMaint op c))"
proof -
  obtain b c' where sub: "submitMaint op c = (b, c')" by fastforce
  have "c_ls c' = c_ls c" using submitMaint_ls [OF sub assms(2)] .
  moreover have "c_drain c' = None \<and> length (c_writeCh c') \<le> max n (writerCap div 2)"
    using sub assms by (auto simp: spare_def submitMaint_def submit_def writerCap_def is_flush_def split: if_splits writeOp.splits)
  ultimately show ?thesis using assms(1) sub by (simp add: spare_def)
qed

lemma spare_op: "submitMaint op c = (b, c') \<Longrightarrow> spare n ls c \<Longrightarrow> \<not> is_flush op \<Longrightarrow> spare n ls c'"
  using spare_submitMaint [of n ls c op] by simp

lemma spare_persist:
  assumes "spare n ls (snd sc)"
  shows "spare n ls (snd (persist_reboot res now sc))" "spare n ls (snd (persist_withdrawn res sc))" "spare n ls (snd (persist_learned now t sc))"
proof -
  show "spare n ls (snd (persist_reboot res now sc))"
    using assms by (cases sc) (auto simp: persist_reboot_def Let_def is_flush_def dest!: spare_op split: prod.splits bool.splits)
  show "spare n ls (snd (persist_withdrawn res sc))"
    using assms by (cases sc) (simp add: persist_withdrawn_def spare_submitMaint is_flush_def)
  show "spare n ls (snd (persist_learned now t sc))"
    using assms by (cases sc) (auto simp: persist_learned_def Let_def is_flush_def dest!: spare_op split: prod.splits bool.splits)
qed

lemma spare_persistTemplates:
  assumes "spare n ls (snd sc)" shows "spare n ls (snd (persistTemplates res now sc))"
proof -
  have "spare n ls (snd (fold (persist_learned now) (res_Learned res) (persist_withdrawn res (persist_reboot res now sc))))"
    by (rule fold_inv [where I = "\<lambda>sc. spare n ls (snd sc)"]) (simp_all add: spare_persist assms)
  then show ?thesis unfolding persistTemplates_def Let_def by (cases "res_Learned res") (simp_all add: split_beta)
qed

lemma flushes_fit:
  assumes "length (c_writeCh c) + length bs \<le> writerCap"
  shows "c_writeCh (fold (\<lambda>b c. snd (submit (WFlush b) c)) bs c) = c_writeCh c @ map WFlush bs
    \<and> c_ls (fold (\<lambda>b c. snd (submit (WFlush b) c)) bs c) = c_ls c"
  using assms by (induction bs arbitrary: c) (simp_all add: submit_def)

text \<open>
  C14: template churn never crowds out a flush. While the collector runs (no shutdown drain), the template
  operations of a datagram, however many templates it announces or withdraws, never fill the writer's channel past
  half of its eight places; from a channel at most half full, four more flush batches are then queued in order and
  none is dropped.
\<close>

theorem templates_leave_room:
  assumes "c_drain c = None" and "length (c_writeCh c) \<le> writerCap div 2" and "length bs \<le> writerCap div 2"
    and "persistTemplates res now (st, c) = (st', c')"
  shows "length (c_writeCh c') \<le> writerCap div 2
    \<and> c_writeCh (fold (\<lambda>b c. snd (submit (WFlush b) c)) bs c') = c_writeCh c' @ map WFlush bs
    \<and> gc_writerDropped (ls_global (c_ls (fold (\<lambda>b c. snd (submit (WFlush b) c)) bs c'))) = gc_writerDropped (ls_global (c_ls c))"
proof -
  have "spare 0 (c_ls c) c'"
    using spare_persistTemplates [of 0 "c_ls c" "(st, c)" res now] assms by (simp add: spare_def)
  then show ?thesis using flushes_fit [of c' bs] assms(3) by (simp add: spare_def writerCap_def)
qed

theorem templates_leave_room_witness:
  "length (c_writeCh (snd (persistTemplates (zero_Result\<lparr>res_Withdrawn := [mk_key 9 1 256]\<rparr>) 0
     (fresh_state fin_ts demo_row NoAddr, demo_collector)))) \<le> 4"
proof -
  obtain st' c' where r: "persistTemplates (zero_Result\<lparr>res_Withdrawn := [mk_key 9 1 256]\<rparr>) 0 (fresh_state fin_ts demo_row NoAddr, demo_collector) = (st', c')"
    by fastforce
  show ?thesis using templates_leave_room [OF _ _ _ r, of "[]"] r by (simp add: demo_collector_def writerCap_def)
qed

theorem flushDue_complete_witness:
  "agg_from 540 [(600, newMinuteAgg 600)] \<and> list_all (\<lambda>(m, _). 700 < m + flushDelay) [(600, newMinuteAgg 600)]"
proof -
  define st where "st = (fresh_state fin_ts demo_row (Addr4 [10, 0, 0, 1]))\<lparr>x_agg := [(600, newMinuteAgg 600)]\<rparr>"
  define c where "c = demo_collector\<lparr>c_exps := [(1, st)]\<rparr>"
  have "agg_ok [(600, newMinuteAgg 600)]" by (simp add: agg_ok_def gm_wf_def gm_all_def)
  then have "exps_ok (c_nextFlush c) (\<lambda>_. True) c"
    by (simp add: c_def st_def demo_collector_def exps_ok_def gm_wf_def gm_all_def agg_from_def)
  moreover have "minutes_upto 540 520 = []" by (simp add: minutes_upto.simps)
  then have fd: "flushDue (seconds 700) c = c"
    by (simp add: flushDue_def flush_start_def Let_def c_def demo_collector_def time_defs flushDelay_def flushCatchUpLimit_def)
  ultimately show ?thesis
    using flushDue_complete [of c "seconds 700" 1 st] by (simp add: c_def st_def demo_collector_def gm_get_def time_defs)
qed

end
