(* ===== verification/Collector.thy ===== *)
theory Collector
  imports Worker
begin

text \<open>
  The collector around the worker (\<open>flow/collector.go\<close>, \<open>flow/api.go\<close>, the status part of \<open>flow/worker.go\<close>):
  the listen addresses, \<open>New\<close>, and the status snapshot (\<open>ExporterStatusFromRow\<close>, \<open>overlayLive\<close>,
  \<open>rebuildStatus\<close>, \<open>Status\<close>). Sockets and deep copies have no counterpart: values are immutable here.
\<close>

subsection \<open>Listen addresses\<close>

definition index_of :: "char \<Rightarrow> string \<Rightarrow> nat option" where
  "index_of c s = (let n = length (takeWhile (\<lambda>x. x \<noteq> c) s) in if n < length s then Some n else None)"

definition last_index :: "char \<Rightarrow> string \<Rightarrow> nat option" where
  "last_index c s = map_option (\<lambda>n. length s - 1 - n) (index_of c (rev s))"

text \<open>\<open>net.SplitHostPort\<close>: \<open>None\<close> is an error.\<close>

definition SplitHostPort :: "string \<Rightarrow> (string \<times> string) option" where
  "SplitHostPort hp = do {
     i \<leftarrow> last_index (CHR '':'') hp;
     (host, j, k) \<leftarrow>
       (if hp ! 0 = CHR ''['' then do {
          e \<leftarrow> index_of (CHR '']'') hp;
          if e + 1 = length hp then None else if e + 1 = i then Some (take (e - 1) (drop 1 hp), 1, e + 1) else None }
        else if index_of (CHR '':'') (take i hp) \<noteq> None then None else Some (take i hp, 0, 0));
     if index_of (CHR ''['') (drop j hp) \<noteq> None \<or> index_of (CHR '']'') (drop k hp) \<noteq> None then None
     else Some (host, drop (i + 1) hp) }"

definition parseListenPort :: "string \<Rightarrow> int" where
  "parseListenPort entry = (case SplitHostPort (TrimSpace entry) of None \<Rightarrow> 0
     | Some (_, p) \<Rightarrow> (case Atoi p of None \<Rightarrow> 0 | Some n \<Rightarrow> if n < 1 \<or> n > 65535 then 0 else n))"

definition ListenPort :: "string list \<Rightarrow> int" where
  "ListenPort ls = (case find (\<lambda>l. parseListenPort l > 0) ls of None \<Rightarrow> 0 | Some l \<Rightarrow> parseListenPort l)"

subsection \<open>The status\<close>

datatype exporter_state = StateOK | StateStale | StateNever | StateDisabled
datatype template_state = TemplateOK | TemplateWaiting | TemplatePersisted | TemplateNA

definition staleAfter :: duration where "staleAfter = minutes 3"
definition interfacesSeenSince :: duration where "interfacesSeenSince = hours 1"

definition exporterState :: "bool \<Rightarrow> time \<Rightarrow> time \<Rightarrow> exporter_state" where
  "exporterState enabled lastSeen now =
    (if \<not> enabled then StateDisabled else if is_zero lastSeen then StateNever
     else if t_sub now lastSeen < staleAfter then StateOK else StateStale)"

definition timePtr :: "time \<Rightarrow> time option" where
  "timePtr t = (if is_zero t then None else Some t)"

record ExporterStatus =
  es_ID :: int
  es_Name :: string
  es_Address :: string
  es_Kind :: string
  es_DeviceID :: "string option"
  es_Enabled :: bool
  es_Auto :: bool
  es_SamplingOverride :: int
  es_NATAddresses :: "string list"
  es_State :: exporter_state
  es_LastSeen :: "time option"
  es_Protocol :: string
  es_SamplingRate :: int
  es_Templates :: nat
  es_TemplateState :: template_state
  es_PerMinute :: Rates
  es_Counters :: "(string, int) gomap"
  es_TimeSource :: "(string, int) gomap"
  es_ClockSkewMs :: int
  es_LastError :: "string + derror"
  es_LastErrorAt :: "time option"
  es_InterfacesSeen :: int

definition ExporterCounterKeys :: "string list" where
  "ExporterCounterKeys = [''datagrams'', ''flows'', ''bytes'', ''decode_errors'', ''template_misses'', ''replayed'',
     ''pending_dropped'', ''seq_lost'', ''rate_limited'', ''dup_dropped'', ''self_export_dropped'', ''nat_dst_records'',
     ''reboots'', ''iface_overflow'', ''oversized'']"

definition TimeSourceKeys :: "string list" where
  "TimeSourceKeys = [''sysuptime'', ''absolute'', ''uptime_est'', ''export'']"

definition set_counters :: "(string \<times> int) list \<Rightarrow> (string, int) gomap \<Rightarrow> (string, int) gomap" where
  "set_counters kvs m = fold (\<lambda>(k, v). gm_put k v) kvs m"

definition ExporterStatusFromRow :: "FlowExporter \<Rightarrow> time \<Rightarrow> ExporterStatus" where
  "ExporterStatusFromRow e now =
    \<lparr>es_ID = fe_ID e, es_Name = fe_Name e, es_Address = fe_AddressText e, es_Kind = fe_Kind e,
     es_DeviceID = (if fe_DeviceID e \<noteq> '''' then Some (fe_DeviceID e) else None), es_Enabled = fe_Enabled e, es_Auto = fe_Auto e,
     es_SamplingOverride = fe_SamplingOverride e, es_NATAddresses = map addr_String (fe_NATAddresses e),
     es_State = exporterState (fe_Enabled e) (fe_LastSeen e) now, es_LastSeen = timePtr (fe_LastSeen e), es_Protocol = fe_Protocol e,
     es_SamplingRate = max (fe_SamplingRate e) 1, es_Templates = 0, es_TemplateState = TemplateNA,
     es_PerMinute = \<lparr>r_Datagrams = 0, r_Flows = 0, r_Bytes = 0\<rparr>,
     es_Counters = set_counters [(''datagrams'', fe_Datagrams e), (''flows'', fe_Flows e), (''bytes'', fe_Bytes e),
        (''decode_errors'', fe_DecodeErrors e), (''template_misses'', fe_TemplateMisses e), (''seq_lost'', fe_SeqLost e)]
       (set_counters (map (\<lambda>k. (k, 0)) ExporterCounterKeys) []),
     es_TimeSource = set_counters (map (\<lambda>k. (k, 0)) TimeSourceKeys) [], es_ClockSkewMs = fe_ClockSkewMs e,
     es_LastError = fe_LastError e, es_LastErrorAt = timePtr (fe_LastErrorAt e), es_InterfacesSeen = 0\<rparr>"

definition templateState :: "'s expState \<Rightarrow> template_state" where
  "templateState st =
    (let p = xh_protocol (x_health st)
     in if p \<noteq> ''netflow9'' \<and> p \<noteq> ''ipfix'' then TemplateNA
        else if PendingSets (x_dec st) > 0 then TemplateWaiting
        else if PersistedOnly (e_Templates (x_dec st)) then TemplatePersisted else TemplateOK)"

text \<open>The six persisted counters as shown: what the row had when the state was created plus what is live.\<close>

definition shown_total :: "'s expState \<Rightarrow> counterSet" where
  "shown_total st = (let b = x_base st; l = x_live st
     in \<lparr>cs_datagrams = cs_datagrams b + cs_datagrams l, cs_flows = cs_flows b + cs_flows l, cs_bytes = satAdd (cs_bytes b) (cs_bytes l),
         cs_decodeErrors = cs_decodeErrors b + cs_decodeErrors l, cs_templateMisses = cs_templateMisses b + cs_templateMisses l,
         cs_seqLost = cs_seqLost b + cs_seqLost l\<rparr>)"

definition live_counters :: "exporterGate \<Rightarrow> 's expState \<Rightarrow> (string \<times> int) list" where
  "live_counters g st = (let t = shown_total st; n = x_cnt st
     in [(''datagrams'', cs_datagrams t), (''flows'', cs_flows t), (''bytes'', cs_bytes t), (''decode_errors'', cs_decodeErrors t),
         (''template_misses'', cs_templateMisses t), (''seq_lost'', cs_seqLost t), (''replayed'', xl_replayed n),
         (''pending_dropped'', xl_pendingDropped n), (''rate_limited'', g_rateLimited g), (''dup_dropped'', xl_dupDropped n),
         (''self_export_dropped'', xl_selfExport n), (''nat_dst_records'', xl_natDst n), (''reboots'', xl_reboots n),
         (''iface_overflow'', xl_ifaceOverflow n), (''oversized'', g_oversized g)])"

definition overlayLive :: "exporterGate \<Rightarrow> 's expState \<Rightarrow> time \<Rightarrow> ExporterStatus \<Rightarrow> ExporterStatus" where
  "overlayLive g st now es =
    (let h = x_health st;
         lastSeen = (if fe_LastSeen (x_row st) > xh_lastSeen h then fe_LastSeen (x_row st) else xh_lastSeen h)
     in es\<lparr>es_LastSeen := timePtr lastSeen, es_State := exporterState (fe_Enabled (x_row st)) lastSeen now,
           es_Protocol := xh_protocol h, es_SamplingRate := max (xh_sampling h) 1, es_Templates := Len (e_Templates (x_dec st)),
           es_TemplateState := templateState st, es_PerMinute := rates now st,
           es_Counters := set_counters (live_counters g st) (es_Counters es),
           es_TimeSource := set_counters (map (\<lambda>s. (TimeSource_String s, xl_timeSource (x_cnt st) s))
             [TimeExport, TimeSysUptime, TimeAbsolute, TimeUptimeEst]) (es_TimeSource es),
           es_ClockSkewMs := xh_skewMs h, es_LastError := xh_lastError h, es_LastErrorAt := timePtr (xh_lastErrorAt h)\<rparr>)"

definition no_gate :: "int \<Rightarrow> exporterGate" where
  "no_gate i = \<lparr>g_id = i, g_enabled = False, g_bucket = newTokenBucket 0, g_rateLimited = 0, g_oversized = 0\<rparr>"

definition interfaces_seen :: "time \<Rightarrow> (u32, FlowIface) gomap \<Rightarrow> int" where
  "interfaces_seen now ifs = int (length (filter (\<lambda>(_, f). fi_IfIndex f \<noteq> 0 \<and> \<not> is_zero (fi_LastSeen f)
     \<and> t_sub now (fi_LastSeen f) < interfacesSeenSince) ifs))"

definition exporter_status :: "'s collector \<Rightarrow> time \<Rightarrow> FlowExporter \<Rightarrow> ExporterStatus" where
  "exporter_status c now r =
    (let es = ExporterStatusFromRow r now;
         es = (case gm_get (c_exps c) (fe_ID r) of None \<Rightarrow> es
           | Some st \<Rightarrow> overlayLive (case gm_get (ls_gates (c_ls c)) (fe_ID r) of Some g \<Rightarrow> g | None \<Rightarrow> no_gate (fe_ID r)) st now es)
     in es\<lparr>es_InterfacesSeen := es_InterfacesSeen es
           + interfaces_seen now (case gm_get (c_ifaces c) (fe_ID r) of Some m \<Rightarrow> m | None \<Rightarrow> [])\<rparr>)"

record Status =
  so_Enabled :: bool
  so_Listen :: "string list"
  so_ListenErrors :: "string list"
  so_StartedAt :: "time option"
  so_FlushedThrough :: "time option"
  so_RolledThrough :: "time option"
  so_RcvBufBytes :: int
  so_Global :: globalCounters
  so_Exporters :: "ExporterStatus list"
  so_Unknown :: "UnknownSender list"

text \<open>The fields of the collector outside the worker: configuration, what \<open>listen\<close> found, the snapshot and the writer's marks.\<close>

record 's service =
  sv_c :: "'s collector"
  sv_Listen :: "string list"
  sv_listenErrors :: "string list"
  sv_rcvBuf :: int
  sv_startedAt :: time
  sv_status :: Status
  sv_flushedThrough :: int
  sv_rolledThrough :: int

definition disabledStatus :: Status where
  "disabledStatus = \<lparr>so_Enabled = False, so_Listen = [], so_ListenErrors = [], so_StartedAt = None, so_FlushedThrough = None,
     so_RolledThrough = None, so_RcvBufBytes = 0, so_Global = zero_global, so_Exporters = [], so_Unknown = []\<rparr>"

definition rebuildStatus :: "time \<Rightarrow> 's service \<Rightarrow> 's service" where
  "rebuildStatus now s = s\<lparr>sv_status := (sv_status s)\<lparr>so_Exporters := map (exporter_status (sv_c s) now) (c_rows (sv_c s)),
     so_RcvBufBytes := sv_rcvBuf s, so_ListenErrors := sv_listenErrors s, so_StartedAt := timePtr (sv_startedAt s)\<rparr>\<rparr>"

definition unixTimeOrZero :: "int \<Rightarrow> time" where
  "unixTimeOrZero n = (if n = 0 then zero_time else time_Unix n 0)"

definition Enabled :: "'s service \<Rightarrow> bool" where
  "Enabled s \<longleftrightarrow> sv_Listen s \<noteq> []"

definition status_of :: "'s service \<Rightarrow> Status" where
  "status_of s = (if \<not> Enabled s then disabledStatus
     else (sv_status s)\<lparr>so_Global := ls_global (c_ls (sv_c s)), so_FlushedThrough := timePtr (unixTimeOrZero (sv_flushedThrough s)),
        so_RolledThrough := timePtr (unixTimeOrZero (sv_rolledThrough s)), so_Unknown := ring_snapshot (ls_unknown (c_ls (sv_c s)))\<rparr>)"

subsection \<open>A new collector\<close>

definition listen_ports :: "string list \<Rightarrow> (u16, bool) gomap" where
  "listen_ports ls = fold (\<lambda>l m. if parseListenPort l > 0 then gm_put (word_of_int (parseListenPort l)) True m else m) ls []"

definition new_collector :: "string list \<Rightarrow> bool \<Rightarrow> 's collector" where
  "new_collector ls captureDir = \<lparr>c_ls = newListener, c_listenPorts = listen_ports ls, c_captureDir = captureDir, c_exps = [], c_rows = [],
     c_devices = [], c_natives = [], c_ifaces = [], c_settings = \<lparr>rs_topN = 50, rs_maxRows = 1500, rs_pps = 2000, rs_autoAccept = True\<rparr>,
     c_nextFlush = 0, c_acceptLog = [], c_writeCh = [], c_taken = [], c_drain = None, c_ifsyncReq = []\<rparr>"

definition New :: "string list \<Rightarrow> bool \<Rightarrow> 's service" where
  "New ls captureDir = \<lparr>sv_c = new_collector ls captureDir, sv_Listen = ls, sv_listenErrors = [], sv_rcvBuf = 0, sv_startedAt = zero_time,
     sv_status = disabledStatus\<lparr>so_Enabled := ls \<noteq> [], so_Listen := ls\<rparr>, sv_flushedThrough = 0, sv_rolledThrough = 0\<rparr>"

subsection \<open>What the status shows\<close>

lemma keys_set_counters: "fst ` set (set_counters kvs m) = fst ` set m \<union> fst ` set kvs"
proof -
  have "fst ` set (gm_put k v n) = insert k (fst ` set n)" for k :: string and v :: int and n by (simp add: gm_put_def AList.dom_update)
  then show ?thesis unfolding set_counters_def by (induction kvs arbitrary: m) (simp_all add: split_beta)
qed

lemma get_set_counters_notin: "k \<notin> fst ` set kvs \<Longrightarrow> gm_get (set_counters kvs m) k = gm_get m k"
  unfolding set_counters_def by (induction kvs arbitrary: m) (auto simp: gmap.get_put)

lemma get_set_counters: "distinct (map fst kvs) \<Longrightarrow> (k, v) \<in> set kvs \<Longrightarrow> gm_get (set_counters kvs m) k = Some v"
proof (induction kvs arbitrary: m)
  case (Cons x kvs)
  obtain k' v' where x: "x = (k', v')" by (cases x)
  show ?case
  proof (cases "(k, v) \<in> set kvs")
    case True
    then show ?thesis using Cons by (simp add: set_counters_def x)
  next
    case False
    then have "k = k'" "v = v'" "k \<notin> fst ` set kvs" using Cons.prems x by auto
    then show ?thesis using get_set_counters_notin [of k kvs "gm_put k' v' m"] by (simp add: set_counters_def x gmap.get_put)
  qed
qed simp

lemma live_counter_keys: "map fst (live_counters g st) = [''datagrams'', ''flows'', ''bytes'', ''decode_errors'', ''template_misses'',
    ''seq_lost'', ''replayed'', ''pending_dropped'', ''rate_limited'', ''dup_dropped'', ''self_export_dropped'', ''nat_dst_records'',
    ''reboots'', ''iface_overflow'', ''oversized'']"
  by (simp add: live_counters_def Let_def)

lemma overlay_counters [simp]: "es_Counters (overlayLive g st now es) = set_counters (live_counters g st) (es_Counters es)"
  by (simp add: overlayLive_def Let_def)

lemma row_counter_keys: "fst ` set (es_Counters (ExporterStatusFromRow r now)) = set ExporterCounterKeys"
proof -
  have "fst ` set [(''datagrams'', fe_Datagrams r), (''flows'', fe_Flows r), (''bytes'', fe_Bytes r), (''decode_errors'', fe_DecodeErrors r),
      (''template_misses'', fe_TemplateMisses r), (''seq_lost'', fe_SeqLost r)] \<subseteq> set ExporterCounterKeys"
    by (simp add: ExporterCounterKeys_def)
  moreover have "fst ` set (map (\<lambda>k. (k, 0 :: int)) ExporterCounterKeys) = set ExporterCounterKeys" by (simp add: image_image)
  ultimately show ?thesis by (simp only: ExporterStatusFromRow_def ExporterStatus.simps keys_set_counters set_simps(1)) blast
qed

lemma live_counter_keys_sub: "fst ` set (live_counters g st) \<subseteq> set ExporterCounterKeys"
proof -
  have "fst ` set (live_counters g st) = set (map fst (live_counters g st))" by simp
  also have "\<dots> \<subseteq> set ExporterCounterKeys" unfolding live_counter_keys by (simp add: ExporterCounterKeys_def)
  finally show ?thesis .
qed

lemma row_source_keys: "fst ` set (es_TimeSource (ExporterStatusFromRow r now)) = set TimeSourceKeys"
  by (simp add: ExporterStatusFromRow_def keys_set_counters image_image)

lemma status_counters:
  "es_Counters (exporter_status c now r) = (case gm_get (c_exps c) (fe_ID r) of None \<Rightarrow> es_Counters (ExporterStatusFromRow r now)
     | Some st \<Rightarrow> set_counters (live_counters (case gm_get (ls_gates (c_ls c)) (fe_ID r) of Some g \<Rightarrow> g | None \<Rightarrow> no_gate (fe_ID r)) st)
         (es_Counters (ExporterStatusFromRow r now)))"
  by (simp add: exporter_status_def Let_def split: option.splits)

text \<open>
  The status has one entry per exporter row, in their order, each with every key of
  \<open>ExporterCounterKeys\<close> and of \<open>TimeSourceKeys\<close> and no other, whether the exporter is live or only in the
  database, and a sampling rate of at least one. For a live exporter the datagram, flow and decode-error counters shown are
  what the database row had when its state was created plus what was counted since, whatever part of it has been
  persisted meanwhile.
\<close>

theorem status_complete:
  "map es_ID (so_Exporters (sv_status (rebuildStatus now s))) = map fe_ID (c_rows (sv_c s))
    \<and> list_all (\<lambda>es. fst ` set (es_Counters es) = set ExporterCounterKeys \<and> fst ` set (es_TimeSource es) = set TimeSourceKeys
        \<and> 1 \<le> es_SamplingRate es) (so_Exporters (sv_status (rebuildStatus now s)))
    \<and> (case gm_get (c_exps (sv_c s)) (fe_ID r) of None \<Rightarrow> True
       | Some st \<Rightarrow> gm_get (es_Counters (exporter_status (sv_c s) now r)) ''datagrams'' = Some (cs_datagrams (x_base st) + cs_datagrams (x_live st))
          \<and> gm_get (es_Counters (exporter_status (sv_c s) now r)) ''flows'' = Some (cs_flows (x_base st) + cs_flows (x_live st))
          \<and> gm_get (es_Counters (exporter_status (sv_c s) now r)) ''decode_errors''
            = Some (cs_decodeErrors (x_base st) + cs_decodeErrors (x_live st)))"
proof -
  have id: "es_ID (exporter_status c now e) = fe_ID e" for c :: "'a collector" and e
    by (simp add: exporter_status_def overlayLive_def ExporterStatusFromRow_def Let_def split: option.splits)
  have keys: "fst ` set (es_Counters (exporter_status c now e)) = set ExporterCounterKeys" for c :: "'a collector" and e
    by (simp only: status_counters row_counter_keys keys_set_counters Un_absorb2 [OF live_counter_keys_sub] split: option.splits) simp
  have src: "fst ` set (es_TimeSource (exporter_status c now e)) = set TimeSourceKeys" for c :: "'a collector" and e
    by (auto simp: exporter_status_def overlayLive_def Let_def keys_set_counters row_source_keys TimeSourceKeys_def split: option.splits)
  have rate: "1 \<le> es_SamplingRate (exporter_status c now e)" for c :: "'a collector" and e
    by (simp add: exporter_status_def overlayLive_def ExporterStatusFromRow_def Let_def split: option.splits)
  have tot: "gm_get (set_counters (live_counters g st) m) ''datagrams'' = Some (cs_datagrams (x_base st) + cs_datagrams (x_live st))"
    "gm_get (set_counters (live_counters g st) m) ''flows'' = Some (cs_flows (x_base st) + cs_flows (x_live st))"
    "gm_get (set_counters (live_counters g st) m) ''decode_errors'' = Some (cs_decodeErrors (x_base st) + cs_decodeErrors (x_live st))"
    for g m and st :: "'a expState"
  proof -
    have d: "distinct (map fst (live_counters g st))" unfolding live_counter_keys by simp
    show "gm_get (set_counters (live_counters g st) m) ''datagrams'' = Some (cs_datagrams (x_base st) + cs_datagrams (x_live st))"
      using d by (rule get_set_counters) (simp add: live_counters_def shown_total_def Let_def)
    show "gm_get (set_counters (live_counters g st) m) ''flows'' = Some (cs_flows (x_base st) + cs_flows (x_live st))"
      using d by (rule get_set_counters) (simp add: live_counters_def shown_total_def Let_def)
    show "gm_get (set_counters (live_counters g st) m) ''decode_errors'' = Some (cs_decodeErrors (x_base st) + cs_decodeErrors (x_live st))"
      using d by (rule get_set_counters) (simp add: live_counters_def shown_total_def Let_def)
  qed
  have "map es_ID (so_Exporters (sv_status (rebuildStatus now s))) = map fe_ID (c_rows (sv_c s))" by (simp add: rebuildStatus_def id)
  moreover have "list_all (\<lambda>es. fst ` set (es_Counters es) = set ExporterCounterKeys \<and> fst ` set (es_TimeSource es) = set TimeSourceKeys
        \<and> 1 \<le> es_SamplingRate es) (so_Exporters (sv_status (rebuildStatus now s)))"
    by (simp add: rebuildStatus_def keys src rate list_all_iff)
  ultimately show ?thesis by (simp add: status_counters tot split: option.splits)
qed

end
