(* ===== verification/Collector_Run.thy ===== *)
theory Collector_Run
  imports Worker_Handover Collector
begin

text \<open>
  The collector as a running system (\<open>Run\<close>, \<open>workerLoop\<close>, \<open>drainQueue\<close>, \<open>guard\<close>): the interleaving of
  the readers, the worker and the writer as a step relation, with the invariant of every reachable state,
  and the shutdown sequence.
\<close>

subsection \<open>What the worker leaves to the readers\<close>

text \<open>
  No step of the worker touches the queue or the shutdown deadline; while the writer still makes room
  during a shutdown, none drops a batch.
\<close>

definition same_io :: "'s collector \<Rightarrow> 's collector \<Rightarrow> bool" where
  "same_io c c' \<longleftrightarrow> ls_queue (c_ls c') = ls_queue (c_ls c) \<and> c_drain c' = c_drain c
     \<and> (c_drain c = Some True \<longrightarrow> gc_writerDropped (ls_global (c_ls c')) = gc_writerDropped (ls_global (c_ls c)))"

named_theorems io_frame \<open>steps of the worker that leave the queue and the deadline alone\<close>

lemma same_io_refl [simp]: "same_io c c"
  by (simp add: same_io_def)

lemma same_io_trans: "same_io a b \<Longrightarrow> same_io b c \<Longrightarrow> same_io a c"
  by (auto simp: same_io_def)

lemma same_io_fold: "(\<And>x c. same_io c (f x c)) \<Longrightarrow> same_io c (fold f xs c)"
  by (rule fold_inv [where I = "same_io c"]) (auto intro: same_io_trans)

lemma same_io_put [io_frame, simp]: "same_io c (put_exp i st c)"
  by (simp add: same_io_def put_exp_def)

lemma same_io_fields [simp]:
  "same_io c (c\<lparr>c_exps := e\<rparr>)" "same_io c (c\<lparr>c_nextFlush := n\<rparr>)" "same_io c (c\<lparr>c_settings := s\<rparr>)" "same_io c (c\<lparr>c_natives := x\<rparr>)"
  "same_io c (c\<lparr>c_ifaces := y\<rparr>)" "same_io c (c\<lparr>c_acceptLog := z\<rparr>)" "same_io c (c\<lparr>c_rows := r, c_devices := w\<rparr>)"
  by (simp_all add: same_io_def)

lemma same_io_global: "(\<And>g. gc_writerDropped (h g) = gc_writerDropped g) \<Longrightarrow> same_io c (upd_global h c)"
  by (simp add: same_io_def upd_global_def)

lemma same_io_submit: "submit op c = (b, c') \<Longrightarrow> same_io c c'"
  by (auto simp: same_io_def submit_def upd_global_def split: if_splits writeOp.splits)

lemma same_io_submitMaint: "submitMaint op c = (b, c') \<Longrightarrow> same_io c c'"
  by (auto simp: submitMaint_def same_io_submit split: if_splits)

lemma same_io_flush_ifaces: "same_io c (fst (flush_ifaces i now idxs st (c, b)))"
  by (simp add: flush_ifaces_def Let_def split_beta same_io_def put_exp_def)

lemma same_io_flush_exporter: "same_io (fst cb) (fst (flush_exporter m now i cb))"
proof -
  have g: "same_io c (upd_global (\<lambda>g. g\<lparr>gc_overflowRecords := gc_overflowRecords g + n\<rparr>) c)" for n and c :: "'a collector"
    by (rule same_io_global) simp
  have f: "same_io c (fst (flush_ifaces i now idxs st (c', b)))" if "same_io c c'" for c c' :: "'a collector" and idxs st b
    using that same_io_flush_ifaces by (rule same_io_trans)
  show ?thesis
    by (cases cb) (auto simp: flush_exporter_def Let_def intro!: f intro: same_io_trans [OF same_io_put g] split: option.splits prod.splits)
qed

lemma same_io_flushMinute: "same_io c (flushMinute m now final c)"
proof -
  have F: "same_io (fst cb) (fst (fold (flush_exporter m now) is cb))" for cb :: "'a collector \<times> flushBatch" and "is"
    by (rule fold_inv [where I = "\<lambda>x. same_io (fst cb) (fst x)"]) (auto intro: same_io_trans same_io_flush_exporter)
  obtain c1 b where b: "flush_batch m now final c = (c1, b)" by fastforce
  have "same_io c c1" using b F by (fastforce simp: flush_batch_def Let_def split_beta)
  moreover have "same_io c1 (snd (submit (WFlush b) c1))" using same_io_submit [of "WFlush b" c1] by (metis prod.collapse)
  ultimately show ?thesis by (simp add: flushMinute_def b same_io_trans)
qed

lemma same_io_flushDue: "same_io c (flushDue now c)"
proof -
  have "same_io x ((flushMinute m now False x)\<lparr>c_nextFlush := n\<rparr>)" for m n and x :: "'a collector"
    using same_io_flushMinute [of x m now False] by (rule same_io_trans) simp
  then show ?thesis unfolding flushDue_def Let_def by (intro same_io_trans [OF _ same_io_fold]) simp_all
qed

lemma same_io_flushAll: "same_io c (flushAll now c)"
  unfolding flushAll_def Let_def by (rule same_io_fold) (rule same_io_flushMinute)

lemma same_io_persistTemplates: "same_io (snd sc) (snd (persistTemplates res now sc))"
proof -
  have r: "same_io (snd x) (snd (persist_reboot res now x))" for x :: "'a expState \<times> 'a collector"
    by (cases x) (auto simp: persist_reboot_def Let_def dest: same_io_submitMaint split: prod.splits bool.splits)
  have w: "same_io (snd x) (snd (persist_withdrawn res x))" for x :: "'a expState \<times> 'a collector"
    by (cases x) (simp add: persist_withdrawn_def, metis same_io_submitMaint prod.collapse)
  have l: "same_io (snd x) (snd (persist_learned now t x))" for t and x :: "'a expState \<times> 'a collector"
    by (cases x) (auto simp: persist_learned_def Let_def dest: same_io_submitMaint split: prod.splits bool.splits)
  have "same_io (snd sc) (snd (fold (persist_learned now) (res_Learned res) (persist_withdrawn res (persist_reboot res now sc))))"
    by (rule fold_inv [where I = "\<lambda>x. same_io (snd sc) (snd x)"]) (blast intro: same_io_trans r w l)+
  then show ?thesis unfolding persistTemplates_def Let_def by (cases "res_Learned res") (simp_all add: split_beta)
qed

lemma same_io_reconcile_row: "same_io (fst cas) (fst (reconcile_row ts db now r cas))"
  by (cases cas) (auto simp: reconcile_row_def Let_def same_io_def put_exp_def split: option.splits)

lemma same_io_reconcile_rows: "same_io (fst cas) (fst (fold (reconcile_row ts db now) rows cas))"
  by (rule fold_inv [where I = "\<lambda>x. same_io (fst cas) (fst x)"]) (auto intro: same_io_trans same_io_reconcile_row)

lemma same_io_expire: "same_io c (expire_all now c)"
proof -
  have "same_io x (expire_one now i x)" for i and x :: "'a collector"
    by (auto simp: expire_one_def Let_def absorb_global_def same_io_def upd_global_def put_exp_def split: option.splits)
  then show ?thesis unfolding expire_all_def by (rule same_io_fold)
qed

lemma same_io_reconcile_parts:
  "same_io c (reconcile_ifaces db c)" "same_io c (reconcile_exps ids c)" "same_io c (reconcile_allow old devs al ids c)"
  by (simp_all add: reconcile_ifaces_def reconcile_exps_def reconcile_allow_def Let_def same_io_def split: option.splits)

lemma same_io_reconcile: "same_io c (reconcile en now c)"
proof (cases "db_exporters (en_db en)")
  case None
  then show ?thesis by (simp add: reconcile_def Let_def)
next
  case (Some rows)
  define c2 where "c2 = reconcile_ifaces (en_db en) (c\<lparr>c_settings := readSettings (db_settings (en_db en))\<rparr>)"
  obtain c3 al ids where r: "fold (reconcile_row (en_ts en) (en_db en) now) rows (c2, [], []) = (c3, al, ids)" by (metis prod_cases3)
  define devs where "devs = (case db_devices (en_db en) of Some ds \<Rightarrow> device_map ds | None \<Rightarrow> [])"
  define c4 where "c4 = reconcile_allow (al_candidates (ls_allow (c_ls c2))) devs al ids (reconcile_exps ids c3)"
  have "same_io c c2" unfolding c2_def by (rule same_io_trans [OF _ same_io_reconcile_parts(1)]) simp
  moreover have "same_io c2 c3" using same_io_reconcile_rows [of "(c2, [], [])" "en_ts en" "en_db en" now rows] r by simp
  moreover have "same_io c3 c4" unfolding c4_def by (rule same_io_trans [OF same_io_reconcile_parts(2,3)])
  moreover have "same_io c4 (reconcile en now c)"
  proof -
    define c5 where "c5 = (if snd (en_kernelDrops en) then upd_global (\<lambda>g. g\<lparr>gc_kernelDropped := fst (en_kernelDrops en)\<rparr>)
      (c4\<lparr>c_rows := rows, c_devices := devs\<rparr>) else c4\<lparr>c_rows := rows, c_devices := devs\<rparr>)"
    have "same_io c4 c5" by (simp add: c5_def same_io_def upd_global_def)
    moreover have "reconcile en now c = expire_all now c5"
      using Some r by (simp add: reconcile_def Let_def c5_def flip: c2_def devs_def c4_def)
    ultimately show ?thesis using same_io_expire [of c5 now] by (simp add: same_io_trans)
  qed
  ultimately show ?thesis by (blast intro: same_io_trans)
qed

lemma same_io_acceptCandidate: "acceptCandidate en dg now c = (i, c') \<Longrightarrow> same_io c c'"
  using same_io_reconcile [of c en now]
  by (auto simp: acceptCandidate_def accept_failed_def Let_def same_io_def upd_global_def split: option.splits if_splits)

lemma same_io_dg_decode: "same_io c (fst (snd (dg_decode en dg i st c)))"
proof -
  have g: "same_io c (upd_global (absorb_global s) c)" for s :: "'a expState"
    by (rule same_io_global) (simp add: absorb_global_def Let_def)
  have p: "same_io c (snd (persistTemplates res now (st1, upd_global (absorb_global s) c)))" for res now st1 and s :: "'a expState"
    using same_io_trans [OF g] same_io_persistTemplates [of "(st1, upd_global (absorb_global s) c)" res now] by simp
  show ?thesis by (simp add: dg_decode_def Let_def split_beta p)
qed

lemma same_io_dg_flows: "same_io c (dg_flows dg i (st, c, res))"
  by (simp add: dg_flows_def Let_def same_io_def upd_global_def put_exp_def)

lemma same_io_processDatagram: "same_io c (processDatagram en dg c)"
proof -
  let ?c = "flushDue (dg_received dg) c"
  define ic where "ic = (case dg_candidate dg of Some _ \<Rightarrow> acceptCandidate en dg (dg_received dg) ?c | None \<Rightarrow> (Some (dg_exporterID dg), ?c))"
  obtain i c1 where ic: "ic = (i, c1)" by (cases ic)
  have "same_io ?c c1" using ic same_io_acceptCandidate by (fastforce simp: ic_def split: option.splits)
  then have c1: "same_io c c1" using same_io_flushDue same_io_trans by blast
  have main: "same_io c1 (dg_flows dg j (dg_decode en dg j st c1))" for j st
  proof -
    obtain st' c' res where r: "dg_decode en dg j st c1 = (st', c', res)" by (metis prod_cases3)
    show ?thesis unfolding r using same_io_dg_decode [of c1 en dg j st] same_io_dg_flows [of c'] by (simp add: r) (rule same_io_trans)
  qed
  have "same_io c1 (upd_global (\<lambda>g. g\<lparr>gc_rejected := gc_rejected g + 1\<rparr>) c1)" by (rule same_io_global) simp
  then show ?thesis
    unfolding processDatagram_def Let_def ic_def [symmetric] ic prod.case
    using c1 main by (auto intro: same_io_trans split: option.splits)
qed

lemma same_io_persistStatus: "same_io c (persistStatus c)"
  by (auto simp: persistStatus_def Let_def intro: same_io_trans dest: same_io_submit split: prod.splits bool.splits)

subsection \<open>Draining the queue\<close>

definition pop :: "'s collector \<Rightarrow> 's collector" where
  "pop c = c\<lparr>c_ls := (c_ls c)\<lparr>ls_queue := tl (ls_queue (c_ls c))\<rparr>\<rparr>"

text \<open>
  \<open>drainQueue\<close>: datagrams are taken until the queue is empty. Each sees the world at its turn, the \<open>n\<close>-th of the
  sequence \<open>ens\<close>. The readers have stopped, so every turn makes the queue shorter.
\<close>

function drainQueue :: "(nat \<Rightarrow> 's env) \<Rightarrow> 's collector \<Rightarrow> 's collector" where
  "drainQueue ens c = (case ls_queue (c_ls c) of [] \<Rightarrow> c
     | dg # _ \<Rightarrow> drainQueue (\<lambda>n. ens (Suc n)) (processDatagram (ens 0) dg (pop c)))"
  by pat_completeness auto
termination
proof (relation "measure (\<lambda>(_, c). length (ls_queue (c_ls c)))")
  fix ens :: "nat \<Rightarrow> 's env" and c :: "'s collector" and dg q
  assume q: "ls_queue (c_ls c) = dg # q"
  have "ls_queue (c_ls (processDatagram (ens 0) dg (pop c))) = ls_queue (c_ls (pop c))"
    using same_io_processDatagram [of "pop c" "ens 0" dg] by (simp add: same_io_def)
  then show "((\<lambda>n. ens (Suc n), processDatagram (ens 0) dg (pop c)), ens, c) \<in> measure (\<lambda>(_, c). length (ls_queue (c_ls c)))"
    by (simp add: q pop_def)
qed simp

declare drainQueue.simps [simp del]

text \<open>The shutdown of \<open>Run\<close> once the readers have stopped: \<open>room\<close> says whether the writer makes room before the deadline.\<close>

definition shutdown :: "(nat \<Rightarrow> 's env) \<Rightarrow> bool \<Rightarrow> time \<Rightarrow> 's collector \<Rightarrow> 's collector" where
  "shutdown ens room now c = persistStatus (flushAll now (drainQueue ens (c\<lparr>c_drain := Some room\<rparr>)))"

text \<open>The start of \<open>Run\<close>: the first reconcile, the first minute to flush, the start-up rollup.\<close>

definition startup :: "'s env \<Rightarrow> time \<Rightarrow> 's collector \<Rightarrow> 's collector" where
  "startup en now c = snd (submit (WStartupRollup now)
     ((reconcile en now c)\<lparr>c_nextFlush := floorMinute (unix now) - (maxOpenMinutes - 1) * 60\<rparr>))"

subsection \<open>The running collector\<close>

definition clock_range :: "time \<Rightarrow> bool" where
  "clock_range t \<longleftrightarrow> 180 \<le> unix t \<and> t \<le> seconds 4294967296"

text \<open>
  One step of the running system, with \<open>T\<close> the stamp of the last datagram the worker took and \<open>R\<close> the last stamp
  a reader gave: a reader handles a datagram, the worker takes one, ticks (flush, reconcile or reload, persist),
  or the writer takes an operation. Stamps are in queue order; ticks may come at any time, before or after the
  stamps of queued datagrams.
\<close>

inductive crun :: "'s template_system \<Rightarrow> 's decoders \<Rightarrow> time \<Rightarrow> time \<Rightarrow> 's collector \<Rightarrow> bool" for ts d where
  run_start: "en_ts en = ts \<Longrightarrow> clock_range now \<Longrightarrow> crun ts d 0 now (startup en now (new_collector ls capt))"
| run_packet: "crun ts d T R c \<Longrightarrow> R \<le> now \<Longrightarrow> clock_range now \<Longrightarrow> handlePacket b a now (c_ls c) = Some l
    \<Longrightarrow> crun ts d T now (c\<lparr>c_ls := l\<rparr>)"
| run_work: "crun ts d T R c \<Longrightarrow> ls_queue (c_ls c) = dg # q \<Longrightarrow> en_ts en = ts \<Longrightarrow> en_dec en = d
    \<Longrightarrow> crun ts d (dg_received dg) R (processDatagram en dg (pop c))"
| run_flush: "crun ts d T R c \<Longrightarrow> clock_range now \<Longrightarrow> crun ts d T R (flushDue now c)"
| run_reconcile: "crun ts d T R c \<Longrightarrow> en_ts en = ts \<Longrightarrow> crun ts d T R (reconcile en now c)"
| run_persist: "crun ts d T R c \<Longrightarrow> crun ts d T R (persistStatus c)"
| run_writer: "crun ts d T R c \<Longrightarrow> crun ts d T R (writer_take c)"

definition queue_ok :: "time \<Rightarrow> time \<Rightarrow> datagram list \<Rightarrow> bool" where
  "queue_ok T R q \<longleftrightarrow> sorted (map dg_received q) \<and> list_all (\<lambda>dg. T \<le> dg_received dg \<and> dg_received dg \<le> R \<and> clock_range (dg_received dg)) q"

definition run_inv :: "'s template_system \<Rightarrow> 's decoders \<Rightarrow> time \<Rightarrow> time \<Rightarrow> 's collector \<Rightarrow> bool" where
  "run_inv ts d T R c \<longleftrightarrow> worker_ok ts d T c \<and> 0 \<le> T \<and> queue_ok T R (ls_queue (c_ls c))"

lemma worker_ok_startup:
  assumes "en_ts en = ts" shows "worker_ok ts d 0 (startup en now (new_collector ls capt))"
proof -
  let ?n = "floorMinute (unix now) - (maxOpenMinutes - 1) * 60"
  have "wk ts d 0 0 (new_collector ls capt)"
    using listener_ok_new by (simp add: wk_def new_collector_def io_ok_def gm_wf_def gm_all_def)
  then have w: "wk ts d 0 0 (reconcile en now (new_collector ls capt))" using assms by (intro wk_reconcile) simp_all
  then have "wk ts d ?n 0 ((reconcile en now (new_collector ls capt))\<lparr>c_nextFlush := ?n\<rparr>)"
    by (auto simp: wk_def gm_all_def st_ok_def agg_from_def)
  then have "wk ts d ?n 0 (startup en now (new_collector ls capt))" unfolding startup_def by (rule wk_submit)
  moreover have "60 dvd ?n" by (simp add: floorMinute_div)
  ultimately show ?thesis by (simp add: worker_ok_wk wk_def)
qed

lemma worker_ok_listener: "worker_ok ts d T c \<Longrightarrow> listener_ok l \<Longrightarrow> worker_ok ts d T (c\<lparr>c_ls := l\<rparr>)"
  by (simp add: worker_ok_wk wk_listener)

lemma worker_ok_pop: "worker_ok ts d T c \<Longrightarrow> worker_ok ts d T (pop c)"
proof -
  assume w: "worker_ok ts d T c"
  then have "listener_ok (c_ls c)" by (simp add: worker_ok_def io_ok_def)
  then have "listener_ok ((c_ls c)\<lparr>ls_queue := tl (ls_queue (c_ls c))\<rparr>)"
    by (cases "ls_queue (c_ls c)") (simp_all add: listener_ok_def)
  then show ?thesis using w unfolding pop_def by (rule worker_ok_listener [rotated])
qed

lemma st_ok_marked [simp]: "st_ok ts d nf T (mark_persisted st) = st_ok ts d nf T st"
  by (simp add: mark_persisted_def)

lemma wk_persistStatus: assumes "wk ts d nf T c" shows "wk ts d nf T (persistStatus c)"
proof (cases "filter (\<lambda>(_, st). status_due st) (c_exps c) = []")
  case True
  then show ?thesis using assms by (simp add: persistStatus_def)
next
  case False
  obtain b c' where sub: "submit (status_op (c_exps c)) c = (b, c')" by fastforce
  have w: "wk ts d nf T c'" using wk_submit [OF assms, of "status_op (c_exps c)"] sub by simp
  have "wk ts d nf T (c'\<lparr>c_exps := map (\<lambda>(i, st). (i, if status_due st then mark_persisted st else st)) (c_exps c')\<rparr>)"
    using w by (rule wk_map) simp
  then show ?thesis using persistStatus_eq [OF False] sub w by (simp split: bool.splits)
qed

lemma worker_ok_persistStatus: "worker_ok ts d T c \<Longrightarrow> worker_ok ts d T (persistStatus c)"
  using wk_persistStatus [of ts d "c_nextFlush c" T c] by (simp add: worker_ok_wk wk_def)

lemma worker_ok_writer: "worker_ok ts d T c \<Longrightarrow> worker_ok ts d T (writer_take c)"
  by (auto simp: worker_ok_wk wk_def io_ok_def writer_take_def split: list.splits)

lemma worker_ok_reconcile: "worker_ok ts d T c \<Longrightarrow> 0 \<le> T \<Longrightarrow> en_ts en = ts \<Longrightarrow> worker_ok ts d T (reconcile en now c)"
  using wk_reconcile [of ts d "c_nextFlush c" T c en now] by (simp add: worker_ok_wk wk_def)

lemma writer_take_queue: "c_ls (writer_take c) = c_ls c"
  by (simp add: writer_take_def split: list.splits)

lemma handlePacket_queue:
  assumes "handlePacket b a now s = Some s'"
  shows "ls_queue s' = ls_queue s \<or> (\<exists>dg. dg_received dg = now \<and> ls_queue s' = ls_queue s @ [dg])"
proof -
  have e: "ls_queue (enqueue dg x) = ls_queue x \<or> ls_queue (enqueue dg x) = ls_queue x @ [dg]" for dg x
    by (simp add: enqueue_def)
  have x: "ls_queue (from_exporter b a now k i g x) = ls_queue x \<or>
      (\<exists>dg. dg_received dg = now \<and> ls_queue (from_exporter b a now k i g x) = ls_queue x @ [dg])" for k i g x
    by (auto simp: from_exporter_def Let_def enqueue_def split: prod.splits)
  have y: "ls_queue (from_candidate b a now g x) = ls_queue x \<or>
      (\<exists>dg. dg_received dg = now \<and> ls_queue (from_candidate b a now g x) = ls_queue x @ [dg])" for g x
    by (auto simp: from_candidate_def Let_def enqueue_def split: prod.splits)
  let ?s = "s\<lparr>ls_global := (ls_global s)\<lparr>gc_datagrams := gc_datagrams (ls_global s) + 1\<rparr>\<rparr>"
  show ?thesis
    using assms x [of _ _ _ ?s] y [of _ ?s]
    by (auto simp: handlePacket_def Let_def bind_eq_Some_conv split: option.splits prod.splits if_splits) metis+
qed

lemma queue_ok_append:
  "queue_ok T R q \<Longrightarrow> T \<le> R \<Longrightarrow> R \<le> now \<Longrightarrow> clock_range now \<Longrightarrow> dg_received dg = now \<Longrightarrow> queue_ok T now (q @ [dg])"
  by (fastforce simp: queue_ok_def sorted_append list_all_iff)

subsection \<open>Every reachable state is good\<close>

lemma queue_ok_same: "same_io c c' \<Longrightarrow> queue_ok T R (ls_queue (c_ls c)) \<Longrightarrow> queue_ok T R (ls_queue (c_ls c'))"
  by (simp add: same_io_def)

lemma crun_inv:
  assumes "crun ts d T R c" shows "run_inv ts d T R c \<and> T \<le> R"
  using assms
proof (induction rule: crun.induct)
  case (run_start en now ls capt)
  have "180 \<le> unix now" using run_start(2) by (simp add: clock_range_def)
  then have n: "0 \<le> now" by (simp add: unix_def time_defs)
  have q: "ls_queue (c_ls (startup en now (new_collector ls capt))) = []"
  proof -
    obtain c1 where c1: "c1 = (reconcile en now (new_collector ls capt))\<lparr>c_nextFlush := floorMinute (unix now) - (maxOpenMinutes - 1) * 60\<rparr>" by blast
    have "same_io (new_collector ls capt) c1" unfolding c1 using same_io_reconcile [of _ en now] by (rule same_io_trans) simp
    moreover have "same_io c1 (snd (submit (WStartupRollup now) c1))" using same_io_submit [of "WStartupRollup now" c1] by (metis prod.collapse)
    ultimately have "same_io (new_collector ls capt) (startup en now (new_collector ls capt))"
      unfolding startup_def c1 [symmetric] by (rule same_io_trans)
    then show ?thesis by (simp add: same_io_def new_collector_def newListener_def)
  qed
  show ?case using worker_ok_startup [OF run_start(1)] n by (simp add: run_inv_def q queue_ok_def)
next
  case (run_packet T R c now b a l)
  have c: "worker_ok ts d T c" "0 \<le> T" "queue_ok T R (ls_queue (c_ls c))" "T \<le> R" using run_packet.IH by (simp_all add: run_inv_def)
  then have "listener_ok (c_ls c)" by (simp add: worker_ok_def io_ok_def)
  then have l: "listener_ok l" using handlePacket_ok [of "c_ls c" b a now] run_packet.hyps(4) by auto
  have "queue_ok T now (ls_queue l)"
    using handlePacket_queue [OF run_packet.hyps(4)]
  proof
    assume "ls_queue l = ls_queue (c_ls c)"
    then show ?thesis using c(3) run_packet.hyps(2) by (auto simp: queue_ok_def list_all_iff)
  next
    assume "\<exists>dg. dg_received dg = now \<and> ls_queue l = ls_queue (c_ls c) @ [dg]"
    then show ?thesis using queue_ok_append [OF c(3,4) run_packet.hyps(2,3)] by auto
  qed
  then show ?case using worker_ok_listener [OF c(1) l] c(2,4) run_packet.hyps(2) by (simp add: run_inv_def)
next
  case (run_work T R c dg q en)
  have c: "worker_ok ts d T c" "0 \<le> T" "queue_ok T R (ls_queue (c_ls c))" using run_work.IH by (simp_all add: run_inv_def)
  have dg: "T \<le> dg_received dg" "dg_received dg \<le> R" "clock_range (dg_received dg)" and q: "queue_ok (dg_received dg) R q"
    using c(3) run_work.hyps(2) by (auto simp: queue_ok_def list_all_iff)
  have "worker_ok ts d (dg_received dg) (processDatagram en dg (pop c))"
    using wk_processDatagram [OF worker_ok_pop [OF c(1)] dg(1) refl] dg(3) run_work.hyps(3,4) by (simp add: clock_range_def)
  moreover have "ls_queue (c_ls (processDatagram en dg (pop c))) = q"
    using same_io_processDatagram [of "pop c" en dg] run_work.hyps(2) by (simp add: same_io_def pop_def)
  ultimately show ?case using q dg(1,2) c(2) by (simp add: run_inv_def)
next
  case (run_flush T R c now)
  then show ?case using worker_ok_flushDue [of ts d T c now] queue_ok_same [OF same_io_flushDue [of c now]]
    by (simp add: run_inv_def clock_range_def)
next
  case (run_reconcile T R c en now)
  then show ?case using worker_ok_reconcile [of ts d T c en now] queue_ok_same [OF same_io_reconcile [of c en now]] by (simp add: run_inv_def)
next
  case (run_persist T R c)
  then show ?case using worker_ok_persistStatus [of ts d T c] queue_ok_same [OF same_io_persistStatus [of c]] by (simp add: run_inv_def)
next
  case (run_writer T R c)
  then show ?case by (simp add: run_inv_def worker_ok_writer writer_take_queue)
qed

subsection \<open>Shutdown\<close>

lemma drainQueue_inv:
  assumes "run_inv ts d T R c" and "\<And>n. en_ts (ens n) = ts \<and> en_dec (ens n) = d"
  shows "(\<exists>T'. run_inv ts d T' R (drainQueue ens c)) \<and> ls_queue (c_ls (drainQueue ens c)) = [] \<and> c_drain (drainQueue ens c) = c_drain c
    \<and> (c_drain c = Some True \<longrightarrow> gc_writerDropped (ls_global (c_ls (drainQueue ens c))) = gc_writerDropped (ls_global (c_ls c)))"
  using assms
proof (induction ens c arbitrary: T rule: drainQueue.induct)
  case (1 ens c)
  show ?case
  proof (cases "ls_queue (c_ls c)")
    case Nil
    then show ?thesis using "1.prems"(1) by (auto simp: drainQueue.simps [of ens c])
  next
    case (Cons dg q)
    let ?c = "processDatagram (ens 0) dg (pop c)"
    have c: "worker_ok ts d T c" "0 \<le> T" "queue_ok T R (ls_queue (c_ls c))" using "1.prems"(1) by (simp_all add: run_inv_def)
    have dg: "T \<le> dg_received dg" "clock_range (dg_received dg)" and q: "queue_ok (dg_received dg) R q"
      using c(3) Cons by (auto simp: queue_ok_def list_all_iff)
    have w: "worker_ok ts d (dg_received dg) ?c"
      using wk_processDatagram [OF worker_ok_pop [OF c(1)] dg(1) refl] dg(2) "1.prems"(2) by (simp add: clock_range_def)
    have io: "same_io (pop c) ?c" by (rule same_io_processDatagram)
    then have "run_inv ts d (dg_received dg) R ?c" using w q dg(1) c(2) Cons by (simp add: run_inv_def same_io_def pop_def)
    from "1.IH" [OF Cons this] "1.prems"(2) show ?thesis
      using io by (auto simp: drainQueue.simps [of ens c] Cons same_io_def pop_def)
  qed
qed

lemma flush_minutes_exps:
  assumes "gm_wf (c_exps c)" and "gm_get (c_exps (fold (\<lambda>m. flushMinute m now final) ms c)) i = Some st'"
  shows "\<exists>st. gm_get (c_exps c) i = Some st \<and> fst ` set (x_agg st') = fst ` set (x_agg st) - set ms"
  using assms
proof (induction ms arbitrary: c)
  case (Cons m ms)
  note F = flushMinute_exps [OF Cons.prems(1), where m = m and now = now and final = final]
  from Cons.IH [OF F(2)] Cons.prems(2) obtain st1 where
    st1: "gm_get (c_exps (flushMinute m now final c)) i = Some st1" "fst ` set (x_agg st') = fst ` set (x_agg st1) - set ms" by auto
  then obtain st where "gm_get (c_exps c) i = Some st" "x_agg st1 = gm_del m (x_agg st)"
    using F(1) [of i] by (auto simp: flushed_of_def split: option.splits)
  then show ?case using st1(2) by (auto simp: set_gm_del_fst)
qed auto

lemma minutes_upto_set: "60 dvd m \<Longrightarrow> 60 dvd lo \<Longrightarrow> lo \<le> m \<Longrightarrow> m \<le> hi \<Longrightarrow> m \<in> set (minutes_upto lo hi)"
proof (induction lo hi rule: minutes_upto.induct)
  case (1 lo hi)
  show ?case
  proof (cases "lo = m")
    case False
    have "lo + 60 \<le> m" using 1(2-4) False by (auto elim!: dvdE)
    then show ?thesis using 1 by (subst minutes_upto.simps) auto
  qed (use 1 in \<open>subst minutes_upto.simps, auto\<close>)
qed

lemma fold_max_ge: "(b0 :: int) \<le> fold max ms b0 \<and> (\<forall>m \<in> set ms. m \<le> fold max ms b0)"
proof (induction ms arbitrary: b0)
  case (Cons m ms)
  from Cons.IH [of "max m b0"] show ?case by auto
qed simp

lemma oldest_of_dvd:
  assumes "exps_ok nf P c" and "m \<in> set (oldest_of c)" shows "60 dvd m \<and> nf \<le> m"
proof -
  obtain i st where "(i, st) \<in> set (c_exps c)" "oldest (x_agg st) = Some m"
    using assms(2) by (auto simp: oldest_of_def map_filter_def)
  moreover have "agg_from nf (x_agg st)" using assms(1) calculation(1) by (fastforce simp: exps_ok_def gm_all_def)
  ultimately show ?thesis using oldest_Some [of "x_agg st" m] by (auto simp: agg_from_iff)
qed

lemma flushAll_empty:
  assumes w: "worker_ok ts d T c" and get: "gm_get (c_exps (flushAll now c)) i = Some st'"
  shows "x_agg st' = []"
proof -
  let ?nf = "c_nextFlush c"
  define lst where "lst = fold max (concat (map (\<lambda>(_, st). map fst (x_agg st)) (c_exps c))) (floorMinute (unix now))"
  define lo where "lo = fold min (oldest_of c) ?nf"
  have ok: "exps_ok ?nf (exp_inv ts d T) c" "60 dvd ?nf" using w by (simp_all add: worker_ok_def)
  then have wf: "gm_wf (c_exps c)" by (simp add: exps_ok_def)
  have "flushAll now c = fold (\<lambda>m. flushMinute m now True) (minutes_upto lo lst) c"
    by (simp add: flushAll_def Let_def lst_def lo_def)
  then obtain st where st: "gm_get (c_exps c) i = Some st" "fst ` set (x_agg st') = fst ` set (x_agg st) - set (minutes_upto lo lst)"
    using flush_minutes_exps [OF wf] get by metis
  have mem: "(i, st) \<in> set (c_exps c)" using st(1) gm_get_in_set by force
  have lo: "60 dvd lo" "lo \<le> ?nf" using fold_min_le [of "oldest_of c" ?nf] oldest_of_dvd [OF ok(1)] ok(2) by (auto simp: lo_def)
  have "m \<in> set (minutes_upto lo lst)" if m: "m \<in> fst ` set (x_agg st)" for m
  proof (rule minutes_upto_set)
    have "agg_from ?nf (x_agg st)" using ok(1) mem by (fastforce simp: exps_ok_def gm_all_def)
    then show "60 dvd m" "lo \<le> m" using m lo(2) by (auto simp: agg_from_iff)
    have "m \<in> set (concat (map (\<lambda>(_, st). map fst (x_agg st)) (c_exps c)))" using m mem by force
    then show "m \<le> lst" unfolding lst_def using fold_max_ge by blast
  qed (fact lo(1))
  then have "fst ` set (x_agg st') = {}" unfolding st(2) by blast
  then show ?thesis by simp
qed

lemma persistStatus_get:
  assumes "gm_get (c_exps (persistStatus c)) i = Some st"
  shows "\<exists>st0. gm_get (c_exps c) i = Some st0 \<and> x_agg st = x_agg st0 \<and> (c_drain c = Some True \<longrightarrow> \<not> status_due st)"
proof (cases "filter (\<lambda>(_, st). status_due st) (c_exps c) = []")
  case True
  then have c: "persistStatus c = c" by (simp add: persistStatus_def)
  then have "\<not> status_due st" using True assms by (auto simp: gm_get_def filter_empty_conv dest: map_of_SomeD)
  then show ?thesis using assms c by auto
next
  case False
  obtain b c' where sub: "submit (status_op (c_exps c)) c = (b, c')" by fastforce
  have e: "c_exps c' = c_exps c" using submit_exps [of "status_op (c_exps c)" c] sub by simp
  show ?thesis
  proof (cases b)
    case True
    then have "persistStatus c = c'\<lparr>c_exps := map (\<lambda>(i, st). (i, if status_due st then mark_persisted st else st)) (c_exps c)\<rparr>"
      using persistStatus_eq [OF False] sub e by simp
    then obtain st0 where "gm_get (c_exps c) i = Some st0" "st = (if status_due st0 then mark_persisted st0 else st0)"
      using assms by (auto simp: gm_get_def map_of_map)
    moreover have "x_agg (mark_persisted x) = x_agg x" for x :: "'a expState" by (simp add: mark_persisted_def)
    ultimately show ?thesis using not_due_marked by auto
  next
    case no: False
    then have "persistStatus c = c'" using persistStatus_eq [OF False] sub by simp
    moreover have "c_drain c \<noteq> Some True" using sub no by (auto simp: submit_def split: if_splits)
    ultimately show ?thesis using assms e by auto
  qed
qed

text \<open>
  C1: every reachable state of the running collector is good. From \<open>New\<close> and the start-up of \<open>Run\<close>, under any
  interleaving of datagrams read (up to any content and sender), datagrams processed, flush, reconcile and persist
  ticks and writes taken, with whatever the database answers and the decoders do: at most 1024 datagrams are
  queued, 8 operations wait for the writer, 16 unknown senders are remembered; every exporter's decoder state
  respects its memory bounds (64 templates, 64 buffered sets of 256 KiB), and its open minutes are whole minutes
  not before \<open>nextFlush\<close> within the caps of aggregation.
\<close>

theorem collector_run_bounded:
  assumes "crun ts d T R c" and "template_system_ok ts"
  shows "length (ls_queue (c_ls c)) \<le> 1024 \<and> length (c_writeCh c) \<le> 8 \<and> length (ur_entries (ls_unknown (c_ls c))) \<le> 16
    \<and> (\<forall>i st. gm_get (c_exps c) i = Some st \<longrightarrow>
        Len (e_Templates (x_dec st)) \<le> 64 \<and> PendingSets (x_dec st) \<le> 64 \<and> e_pendSize (x_dec st) \<le> 262144
        \<and> agg_ok (x_agg st) \<and> agg_from (c_nextFlush c) (x_agg st))"
proof -
  have w: "worker_ok ts d T c" using crun_inv [OF assms(1)] by (simp add: run_inv_def)
  then have "listener_ok (c_ls c)" "length (c_writeCh c) \<le> 8" by (simp_all add: worker_ok_def io_ok_def writerCap_def)
  then have a: "length (ls_queue (c_ls c)) \<le> 1024 \<and> length (c_writeCh c) \<le> 8 \<and> length (ur_entries (ls_unknown (c_ls c))) \<le> 16"
    by (simp add: listener_ok_def ring_ok_def queueCap_def unknownRingCap_def)
  have "Len (e_Templates (x_dec st)) \<le> 64 \<and> PendingSets (x_dec st) \<le> 64 \<and> e_pendSize (x_dec st) \<le> 262144
      \<and> agg_ok (x_agg st) \<and> agg_from (c_nextFlush c) (x_agg st)" if "gm_get (c_exps c) i = Some st" for i st
  proof -
    have s: "st_ok ts d (c_nextFlush c) T st" using w that by (auto simp: worker_ok_wk dest: wk_get)
    then obtain t where "exp_run ts d t (x_dec st)" by (auto simp: st_ok_def exp_inv_def)
    from exp_run_mem [OF this assms(2)] have "Len (e_Templates (x_dec st)) \<le> 64 \<and> PendingSets (x_dec st) \<le> 64 \<and> e_pendSize (x_dec st) \<le> 262144"
      by (auto simp: mem_inv_def st_inv_def Len_def PendingSets_def MaxTemplates_def MaxPendingSets_def MaxPendingBytes_def)
    then show ?thesis using s by (simp add: st_ok_def)
  qed
  then show ?thesis using a by blast
qed

definition demo_run :: "demo_sys collector" where
  "demo_run = startup demo_env (seconds 700) (new_collector [''0.0.0.0:2055''] False)"

lemma demo_run_ok: "crun fin_ts demo_decoders 0 (seconds 700) demo_run"
  unfolding demo_run_def by (rule run_start) (simp_all add: demo_env_def clock_range_def time_defs)

theorem collector_run_bounded_witness:
  "length (ls_queue (c_ls (reconcile demo_env (seconds 730) demo_run))) \<le> 1024 \<and> length (c_writeCh (reconcile demo_env (seconds 730) demo_run)) \<le> 8"
  using collector_run_bounded [OF run_reconcile [OF demo_run_ok, of demo_env "seconds 730"] fin_ts_ok] by (simp add: demo_env_def)

text \<open>
  C10: a shutdown leaves nothing behind while the writer makes room. From any reachable state, after the readers
  stopped: draining ends and the queue is empty; the final flush leaves no minute of any exporter open and no
  batch is dropped; no exporter's status is left to be written.
\<close>

theorem shutdown_complete:
  assumes run: "crun ts d T R c" and en: "\<And>n. en_ts (ens n) = ts \<and> en_dec (ens n) = d"
  shows "ls_queue (c_ls (shutdown ens True now c)) = []
    \<and> gc_writerDropped (ls_global (c_ls (shutdown ens True now c))) = gc_writerDropped (ls_global (c_ls c))
    \<and> (\<forall>i st. gm_get (c_exps (shutdown ens True now c)) i = Some st \<longrightarrow> x_agg st = [] \<and> \<not> status_due st)"
proof -
  let ?c0 = "c\<lparr>c_drain := Some True\<rparr>"
  let ?c1 = "drainQueue ens ?c0" and ?c2 = "flushAll now (drainQueue ens ?c0)"
  have "run_inv ts d T R ?c0" using crun_inv [OF run] by (simp add: run_inv_def worker_ok_wk wk_def io_ok_def)
  from drainQueue_inv [OF this, of ens] en obtain T' where d: "run_inv ts d T' R ?c1" "ls_queue (c_ls ?c1) = []" "c_drain ?c1 = Some True"
    "gc_writerDropped (ls_global (c_ls ?c1)) = gc_writerDropped (ls_global (c_ls c))" by auto
  have io: "same_io ?c1 (shutdown ens True now c)"
    unfolding shutdown_def using same_io_flushAll [of ?c1 now] same_io_persistStatus [of ?c2] by (rule same_io_trans)
  have w: "worker_ok ts d T' ?c1" using d(1) by (simp add: run_inv_def)
  have "c_drain ?c2 = Some True" using same_io_flushAll [of ?c1 now] d(3) by (simp add: same_io_def)
  then have "x_agg st = [] \<and> \<not> status_due st" if "gm_get (c_exps (shutdown ens True now c)) i = Some st" for i st
    using persistStatus_get [OF that [unfolded shutdown_def]] flushAll_empty [OF w] by auto
  then show ?thesis using io d by (simp add: same_io_def)
qed

theorem shutdown_complete_witness:
  "ls_queue (c_ls (shutdown (\<lambda>_. demo_env) True (seconds 710) demo_run)) = []"
  using shutdown_complete [OF demo_run_ok, of "\<lambda>_. demo_env" "seconds 710"] by (simp add: demo_env_def)

lemma queue_processDatagram: "ls_queue (c_ls (processDatagram en dg c)) = ls_queue (c_ls c)"
  using same_io_processDatagram [of c en dg] by (simp add: same_io_def)

text \<open>
  C31: Draining the queue ends. Whatever the queue holds and whatever the world answers, the loop takes every queued
  datagram once, in order, the \<open>n\<close>-th in the world of its turn, and returns with the queue empty.
\<close>

theorem drainQueue_ends:
  "ls_queue (c_ls (drainQueue ens c)) = [] \<and>
   drainQueue ens c = fold (\<lambda>(n, dg) c. processDatagram (ens n) dg (pop c)) (enumerate 0 (ls_queue (c_ls c))) c"
proof (induction ens c rule: drainQueue.induct)
  case (1 ens c)
  have sh: "fold (\<lambda>(n, dg) c. processDatagram (ens (Suc n)) dg (pop c)) (enumerate k q) x
    = fold (\<lambda>(n, dg) c. processDatagram (ens n) dg (pop c)) (enumerate (Suc k) q) x" for q k and x :: "'a collector"
    by (induction q arbitrary: k x) simp_all
  show ?case
  proof (cases "ls_queue (c_ls c)")
    case Nil
    then show ?thesis by (simp add: drainQueue.simps [of ens c])
  next
    case (Cons dg q)
    have q: "ls_queue (c_ls (processDatagram (ens 0) dg (pop c))) = q" by (simp add: queue_processDatagram pop_def Cons)
    show ?thesis using 1 [OF Cons] Cons by (auto simp: drainQueue.simps [of ens c] q sh)
  qed
qed

end
