(* ===== verification/Netip_Text.thy ===== *)
theory Netip_Text
  imports Netip Flow_Settings
begin

text \<open>
  Reading addresses and prefixes from text: \<open>netip.ParseAddr\<close> and \<open>netip.ParsePrefix\<close> as the program uses them, the
  CSV forms of the settings (\<open>parsePrefixCSV\<close> of \<open>flow/settings.go\<close>) and of the NAT addresses of an exporter
  (\<open>formatAddrCSV\<close>, \<open>parseAddrCSV\<close> of \<open>database/queries/flows.go\<close>). A parsed address comes with its zone.
\<close>

subsection \<open>Splitting\<close>

text \<open>\<open>strings.Split\<close> at single characters, and \<open>strings.FieldsFunc\<close>, which drops empty fields.\<close>

fun split_by :: "(char \<Rightarrow> bool) \<Rightarrow> string \<Rightarrow> string list" where
  "split_by P [] = [[]]"
| "split_by P (c # s) = (if P c then [] # split_by P s
     else (case split_by P s of w # ws \<Rightarrow> (c # w) # ws | [] \<Rightarrow> [[c]]))"

definition fields_func :: "(char \<Rightarrow> bool) \<Rightarrow> string \<Rightarrow> string list" where
  "fields_func P s = filter (\<lambda>w. w \<noteq> []) (split_by P s)"

subsection \<open>Addresses\<close>

text \<open>\<open>parseIPv4Fields\<close>; \<open>edge\<close> says that the previous character is a dot or missing.\<close>

fun v4_fields :: "nat \<Rightarrow> nat \<Rightarrow> bool \<Rightarrow> bytes \<Rightarrow> string \<Rightarrow> bytes option" where
  "v4_fields v digLen edge acc [] = (if length acc < 3 then None else Some (acc @ [of_nat v]))"
| "v4_fields v digLen edge acc (c # s) =
    (if is_digit c then
       (if digLen = 1 \<and> v = 0 then None
        else let v = v * 10 + (of_char c - 48) in if v > 255 then None else v4_fields v (digLen + 1) False acc s)
     else if c = CHR ''.'' then
       (if edge \<or> s = [] then None else if length acc = 3 then None else v4_fields 0 0 True (acc @ [of_nat v]) s)
     else None)"

definition is_hex :: "char \<Rightarrow> bool" where
  "is_hex c \<longleftrightarrow> is_digit c \<or> (97 \<le> (of_char c :: nat) \<and> (of_char c :: nat) \<le> 102) \<or> (65 \<le> (of_char c :: nat) \<and> (of_char c :: nat) \<le> 70)"

definition hex_digit :: "char \<Rightarrow> nat" where
  "hex_digit c = (let n = of_char c in if n \<le> 57 then n - 48 else if n \<ge> 97 then n - 87 else n - 55)"

definition hex_value :: "string \<Rightarrow> nat" where
  "hex_value s = foldl (\<lambda>a c. 16 * a + hex_digit c) 0 s"

text \<open>
  The loop of \<open>parseIPv6\<close>: \<open>ip\<close> holds the \<open>i\<close> bytes parsed, \<open>el\<close> the position of the ellipsis. The first argument
  counts the groups that still fit into 16 bytes.
\<close>

fun v6_loop :: "nat \<Rightarrow> bytes \<Rightarrow> nat option \<Rightarrow> string \<Rightarrow> (bytes \<times> nat option \<times> string) option" where
  "v6_loop 0 ip el s = Some (ip, el, s)"
| "v6_loop (Suc n) ip el s =
    (let ds = takeWhile is_hex s; r = dropWhile is_hex s
     in if length ds > 4 \<or> ds = [] then None
        else if r \<noteq> [] \<and> hd r = CHR ''.'' then
          (if el = None \<and> length ip \<noteq> 12 then None else if length ip + 4 > 16 then None
           else map_option (\<lambda>f. (ip @ f, el, [])) (v4_fields 0 0 True [] s))
        else let ip = ip @ put_be16 (of_nat (hex_value ds))
          in if r = [] then Some (ip, el, [])
             else if hd r \<noteq> CHR '':'' \<or> length r = 1 then None
             else let r = tl r
               in if hd r = CHR '':'' then
                    (if el \<noteq> None then None
                     else if tl r = [] then Some (ip, Some (length ip), []) else v6_loop n ip (Some (length ip)) (tl r))
                  else v6_loop n ip el r)"

definition v6_expand :: "bytes \<times> nat option \<times> string \<Rightarrow> bytes option" where
  "v6_expand r = (let (ip, el, s) = r
     in if s \<noteq> [] then None
        else if length ip < 16 then (case el of None \<Rightarrow> None | Some e \<Rightarrow> Some (take e ip @ replicate (16 - length ip) 0 @ drop e ip))
        else if el \<noteq> None then None else Some ip)"

definition v6_body :: "string \<Rightarrow> bytes option" where
  "v6_body s = (if take 2 s = ''::'' then (if drop 2 s = [] then Some (replicate 16 0)
       else Option.bind (v6_loop 8 [] (Some 0) (drop 2 s)) v6_expand)
     else Option.bind (v6_loop 8 [] None s) v6_expand)"

definition parse_v6 :: "string \<Rightarrow> (addr \<times> string) option" where
  "parse_v6 s = (let t = takeWhile (\<lambda>c. c \<noteq> CHR ''%'') s; z = dropWhile (\<lambda>c. c \<noteq> CHR ''%'') s
     in if z \<noteq> [] \<and> tl z = [] then None else map_option (\<lambda>b. (Addr6 b, tl z)) (v6_body t))"

definition ParseAddr :: "string \<Rightarrow> (addr \<times> string) option" where
  "ParseAddr s = (case find (\<lambda>c. c = CHR ''.'' \<or> c = CHR '':'' \<or> c = CHR ''%'') s of
     None \<Rightarrow> None
   | Some c \<Rightarrow> if c = CHR ''.'' then map_option (\<lambda>b. (Addr4 b, [])) (v4_fields 0 0 True [] s)
       else if c = CHR '':'' then parse_v6 s else None)"

subsection \<open>Prefixes\<close>

definition last_slash :: "string \<Rightarrow> (string \<times> string) option" where
  "last_slash s = (if CHR ''/'' \<in> set s
     then Some (rev (tl (dropWhile (\<lambda>c. c \<noteq> CHR ''/'') (rev s))), rev (takeWhile (\<lambda>c. c \<noteq> CHR ''/'') (rev s))) else None)"

definition ParsePrefix :: "string \<Rightarrow> prefix option" where
  "ParsePrefix s = do {
     (as, bs) \<leftarrow> last_slash s;
     (a, z) \<leftarrow> ParseAddr as;
     if z \<noteq> [] then None
     else if length bs > 1 \<and> \<not> (49 \<le> (of_char (hd bs) :: nat) \<and> (of_char (hd bs) :: nat) \<le> 57) then None
     else do { n \<leftarrow> Atoi bs; if n < 0 \<or> n > int (BitLen a) then None else Some \<lparr>p_addr = a, p_bits = nat n\<rparr> } }"

definition prefix_Overlaps :: "prefix \<Rightarrow> prefix \<Rightarrow> bool" where
  "prefix_Overlaps p q \<longleftrightarrow> p_addr p \<noteq> NoAddr \<and> p_addr q \<noteq> NoAddr \<and>
     (p = q \<or> Is4 (p_addr p) = Is4 (p_addr q) \<and>
       (let n = min (p_bits p) (p_bits q) in n = 0 \<or> mask_addr n (p_addr p) = mask_addr n (p_addr q)))"

definition unmap_prefix :: "prefix \<Rightarrow> prefix" where
  "unmap_prefix p = (if Is4In6 (p_addr p) then \<lparr>p_addr = Unmap (p_addr p), p_bits = p_bits p - 96\<rparr> else p)"

definition parse_part :: "string \<Rightarrow> prefix option" where
  "parse_part part = (case ParsePrefix part of
     Some p \<Rightarrow> Some (prefix_Masked (unmap_prefix p))
   | None \<Rightarrow> (case ParseAddr part of Some (a, _) \<Rightarrow> Some \<lparr>p_addr = Unmap a, p_bits = BitLen (Unmap a)\<rparr> | None \<Rightarrow> None))"

definition parsePrefixCSV :: "string \<Rightarrow> prefix list" where
  "parsePrefixCSV s = List.map_filter (\<lambda>part. if TrimSpace part = [] then None else parse_part (TrimSpace part))
     (fields_func (\<lambda>c. c = CHR '','' \<or> of_char c = (10 :: nat) \<or> c = CHR '' '' \<or> c = CHR '';'') s)"

definition prefixListSetting :: "settings \<Rightarrow> string \<Rightarrow> prefix list" where
  "prefixListSetting get key = (case get key of None \<Rightarrow> [] | Some v \<Rightarrow> parsePrefixCSV v)"

subsection \<open>Address lists\<close>

definition formatAddrCSV :: "addr list \<Rightarrow> string" where
  "formatAddrCSV as = join '','' (map (\<lambda>a. addr_String (Unmap a)) (filter IsValid as))"

definition parseAddrCSV :: "string \<Rightarrow> addr list" where
  "parseAddrCSV s = List.map_filter (\<lambda>p. map_option (\<lambda>(a, _). Unmap a) (ParseAddr (TrimSpace p))) (split_by (\<lambda>c. c = CHR '','') s)"

subsection \<open>Reading back IPv4\<close>

definition dec_step :: "nat \<Rightarrow> string \<Rightarrow> nat" where
  "dec_step v ds = foldl (\<lambda>a c. a * 10 + (of_char c - 48)) v ds"

lemma dec_step_simps [simp]: "dec_step v [] = v" "dec_step v (c # ds) = dec_step (v * 10 + (of_char c - 48)) ds"
  by (simp_all add: dec_step_def)

lemma dec_step_ge: "v \<le> dec_step v ds"
proof (induction ds arbitrary: v)
  case (Cons c ds)
  have "v \<le> v * 10 + (of_char c - 48)" by simp
  also have "\<dots> \<le> dec_step (v * 10 + (of_char c - 48)) ds" by (rule Cons)
  finally show ?case by simp
qed simp

lemma dec_step_value: "dec_step 0 s = dec_value s"
  by (simp add: dec_step_def dec_value_def mult.commute)

lemma v4_digits:
  assumes "list_all is_digit ds" and "1 \<le> v" and "dec_step v ds \<le> 255"
  shows "\<exists>e. v4_fields v n edge acc (ds @ rest) = v4_fields (dec_step v ds) (n + length ds) e acc rest \<and> (e \<longrightarrow> ds = [] \<and> edge)"
  using assms
proof (induction ds arbitrary: v n edge)
  case (Cons c ds)
  let ?v = "v * 10 + (of_char c - 48)"
  have "?v \<le> 255" using Cons.prems(3) dec_step_ge [of ?v ds] by simp
  moreover obtain e where "v4_fields ?v (n + 1) False acc (ds @ rest) = v4_fields (dec_step ?v ds) (n + 1 + length ds) e acc rest" "\<not> e"
    using Cons.IH [of ?v "n + 1" False] Cons.prems by auto
  ultimately show ?case using Cons.prems by (auto simp: Let_def)
qed auto

lemma nat_string_cases: "\<exists>c s. nat_string m = c # s \<and> list_all is_digit (c # s) \<and> (0 < m \<longrightarrow> 1 \<le> (of_char c :: nat) - 48) \<and> (m = 0 \<longrightarrow> s = [])"
proof (induction m rule: nat_string.induct)
  case (1 n)
  show ?case
  proof (cases "n < 10")
    case True
    then show ?thesis by (subst nat_string.simps) (auto simp: digit_char_def is_digit_def)
  next
    case False
    from 1 [OF False] obtain c s where "nat_string (n div 10) = c # s" "list_all is_digit (c # s)" "1 \<le> (of_char c :: nat) - 48"
      using False by (auto simp: div_greater_zero_iff)
    then show ?thesis using False by (subst nat_string.simps) (auto simp: digit_char_def is_digit_def)
  qed
qed

lemma v4_octet:
  assumes "m \<le> 255"
  shows "\<exists>n. v4_fields 0 0 edge acc (nat_string m @ rest) = v4_fields m n False acc rest"
proof -
  obtain c s where s: "nat_string m = c # s" "list_all is_digit (c # s)" "0 < m \<longrightarrow> 1 \<le> (of_char c :: nat) - 48" "m = 0 \<longrightarrow> s = []"
    using nat_string_cases [of m] by auto
  have d: "dec_step (of_char c - 48) s = m" using dec_step_value [of "c # s"] dec_value_nat_string [of m] by (simp add: s(1) del: dec_value_nat_string)
  have le: "(of_char c :: nat) - 48 \<le> 255" using dec_step_ge [of "of_char c - 48" s] d assms by simp
  have dig: "is_digit c" "list_all is_digit s" using s(2) by simp_all
  have step: "v4_fields 0 0 edge acc (nat_string m @ rest) = v4_fields (of_char c - 48) 1 False acc (s @ rest)"
    unfolding s(1) append_Cons v4_fields.simps(2) Let_def using dig(1) le by (simp only: if_True if_False) simp
  show ?thesis
  proof (cases "m = 0")
    case True
    then have "s = []" "(of_char c :: nat) - 48 = 0" using s(4) d by simp_all
    then show ?thesis using step True by auto
  next
    case False
    then have "1 \<le> (of_char c :: nat) - 48" using s(3) by simp
    from v4_digits [OF dig(2) this, of 1 False acc rest] d assms
    obtain e where "v4_fields (of_char c - 48) 1 False acc (s @ rest) = v4_fields m (1 + length s) e acc rest" "\<not> e" by blast
    then show ?thesis using step by (metis (full_types))
  qed
qed

lemma unat_u8: "unat (x :: u8) \<le> 255"
  using unat_byte_less [of x] by simp

lemma v4_octet_dot: "rest \<noteq> [] \<Longrightarrow> length acc < 3 \<Longrightarrow>
    v4_fields 0 0 edge acc (nat_string (unat (x :: u8)) @ CHR ''.'' # rest) = v4_fields 0 0 True (acc @ [x]) rest"
  using v4_octet [OF unat_u8 [of x], of edge acc "CHR ''.'' # rest"] by (auto simp: is_digit_def)

lemma v4_octet_end: "length acc = 3 \<Longrightarrow> v4_fields 0 0 edge acc (nat_string (unat (x :: u8))) = Some (acc @ [x])"
  using v4_octet [OF unat_u8 [of x], of edge acc "[]"] by auto

lemma nat_string_not_Nil [simp]: "nat_string m \<noteq> []"
  using nat_string_cases [of m] by auto

lemma v4_string4: "length b = 4 \<Longrightarrow> v4_fields 0 0 True [] (string4 b) = Some b"
  by (auto simp: length_Suc_conv numeral_eq_Suc string4_def v4_octet_dot v4_octet_end)

subsection \<open>Reading back IPv6\<close>

lemma hex_char_ok: "d < 16 \<Longrightarrow> is_hex (hex_char d) \<and> hex_digit (hex_char d) = d"
  by (auto simp: hex_char_def is_hex_def is_digit_def hex_digit_def)

lemma hex_string_ok: "list_all is_hex (hex_string n) \<and> hex_string n \<noteq> [] \<and> hex_value (hex_string n) = n"
proof (induction n rule: hex_string.induct)
  case (1 n)
  show ?case
  proof (cases "n < 16")
    case True
    then show ?thesis using hex_char_ok [of n] by (subst (1 2 3) hex_string.simps) (simp add: hex_value_def)
  next
    case False
    then show ?thesis using 1 [OF False] hex_char_ok [of "n mod 16"]
      by (subst (1 2 3) hex_string.simps) (simp add: hex_value_def mult.commute)
  qed
qed

lemma hex_string_length: "n < 16 ^ k \<Longrightarrow> 0 < k \<Longrightarrow> length (hex_string n) \<le> k"
proof (induction n arbitrary: k rule: hex_string.induct)
  case (1 n)
  show ?case
  proof (cases "n < 16")
    case True
    then show ?thesis using 1(3) by (subst hex_string.simps) simp
  next
    case False
    then obtain j where k: "k = Suc j" "0 < j" using 1(2) by (cases k; cases "k - 1") auto
    then have "length (hex_string (n div 16)) \<le> j" using 1 False by (intro 1(1)) (auto simp: less_mult_imp_div_less mult.commute)
    then show ?thesis using False k by (subst hex_string.simps) simp
  qed
qed

lemma hex_stringD:
  assumes "g < 65536"
  shows "list_all is_hex (hex_string g)" "hex_string g \<noteq> []" "length (hex_string g) \<le> 4" "hex_value (hex_string g) = g"
  using hex_string_ok [of g] hex_string_length [of g 4] assms by simp_all

lemma colon_not_hex: "\<not> is_hex (CHR '':'')" "\<not> is_hex (CHR ''.'')"
  by (simp_all add: is_hex_def is_digit_def)

lemma takeWhile_hex: "g < 65536 \<Longrightarrow> takeWhile is_hex (hex_string g @ CHR '':'' # r) = hex_string g \<and> dropWhile is_hex (hex_string g @ CHR '':'' # r) = CHR '':'' # r"
  "g < 65536 \<Longrightarrow> takeWhile is_hex (hex_string g) = hex_string g \<and> dropWhile is_hex (hex_string g) = []"
  using hex_stringD(1) [of g] colon_not_hex(1) by (simp_all add: list_all_iff takeWhile_append dropWhile_append)

definition group_bytes :: "nat list \<Rightarrow> bytes" where
  "group_bytes gs = concat (map (\<lambda>g. put_be16 (of_nat g)) gs)"

lemma group_bytes_simps [simp]: "group_bytes [] = []" "group_bytes (g # gs) = put_be16 (of_nat g) @ group_bytes gs" "length (group_bytes gs) = 2 * length gs"
  "group_bytes (gs @ hs) = group_bytes gs @ group_bytes hs"
  by (induction gs) (simp_all add: group_bytes_def)

definition hexes :: "nat list \<Rightarrow> string" where
  "hexes gs = join '':'' (map hex_string gs)"

lemma hexes_simps: "hexes [g] = hex_string g" "hexes (g # h # gs) = hex_string g @ CHR '':'' # hexes (h # gs)"
  by (simp_all add: hexes_def)

lemma hexes_hd: "gs \<noteq> [] \<Longrightarrow> list_all (\<lambda>g. g < 65536) gs \<Longrightarrow> hexes gs \<noteq> [] \<and> hd (hexes gs) \<noteq> CHR '':''"
proof (cases gs)
  case (Cons g hs)
  assume "list_all (\<lambda>g. g < 65536) gs"
  then have h: "list_all is_hex (hex_string g)" "hex_string g \<noteq> []" using Cons hex_stringD [of g] by simp_all
  then obtain c s where "hex_string g = c # s" "is_hex c" by (cases "hex_string g") auto
  then show ?thesis using colon_not_hex Cons by (cases hs) (auto simp: hexes_simps)
qed simp

text \<open>One group and what follows it.\<close>

lemma v6_group_end: "g < 65536 \<Longrightarrow> v6_loop (Suc n) ip el (hex_string g) = Some (ip @ put_be16 (of_nat g), el, [])"
  using hex_stringD [of g] by (simp add: takeWhile_hex Let_def)

lemma v6_group_colon:
  assumes "g < 65536" and "r \<noteq> []" and "hd r \<noteq> CHR '':''"
  shows "v6_loop (Suc n) ip el (hex_string g @ CHR '':'' # r) = v6_loop n (ip @ put_be16 (of_nat g)) el r"
  using assms hex_stringD [of g] by (simp add: takeWhile_hex Let_def)

lemma v6_group_ellipsis:
  assumes "g < 65536"
  shows "v6_loop (Suc n) ip None (hex_string g @ CHR '':'' # CHR '':'' # r)
    = (if r = [] then Some (ip @ put_be16 (of_nat g), Some (length ip + 2), []) else v6_loop n (ip @ put_be16 (of_nat g)) (Some (length ip + 2)) r)"
  using assms hex_stringD [of g] by (simp add: takeWhile_hex Let_def)

lemma v6_hexes:
  assumes "gs \<noteq> []" and "list_all (\<lambda>g. g < 65536) gs" and "length gs \<le> n"
  shows "v6_loop n ip el (hexes gs) = Some (ip @ group_bytes gs, el, [])"
  using assms
proof (induction gs arbitrary: n ip)
  case (Cons g gs)
  obtain m where n: "n = Suc m" using Cons.prems(3) by (cases n) auto
  show ?case
  proof (cases gs)
    case Nil
    then show ?thesis using Cons.prems n v6_group_end [of g m ip el] by (simp add: hexes_simps del: v6_loop.simps)
  next
    case (Cons h hs)
    then have "hexes gs \<noteq> [] \<and> hd (hexes gs) \<noteq> CHR '':''" using Cons.prems by (intro hexes_hd) auto
    then show ?thesis using Cons.prems Cons.IH n v6_group_colon [of g "hexes gs" m ip el] Cons
      by (simp add: hexes_simps del: v6_loop.simps)
  qed
qed simp

lemma v6_hexes_ellipsis:
  assumes "gs \<noteq> []" and "list_all (\<lambda>g. g < 65536) (gs @ hs)" and "length gs + length hs \<le> n"
  shows "v6_loop n ip None (hexes gs @ CHR '':'' # CHR '':'' # hexes hs)
    = Some (ip @ group_bytes gs @ group_bytes hs, Some (length ip + 2 * length gs), [])"
  using assms
proof (induction gs arbitrary: n ip)
  case (Cons g gs)
  obtain m where n: "n = Suc m" using Cons.prems(3) by (cases n) auto
  have g: "g < 65536" using Cons.prems(2) by simp
  show ?case
  proof (cases gs)
    case Nil
    show ?thesis
    proof (cases "hs = []")
      case True
      then show ?thesis using v6_group_ellipsis [OF g, of m ip "hexes hs"] Nil n by (simp add: hexes_simps hexes_def [of "[]"] del: v6_loop.simps)
    next
      case False
      then have "hexes hs \<noteq> []" using hexes_hd [of hs] Cons.prems(2) by simp
      then show ?thesis using v6_group_ellipsis [OF g, of m ip "hexes hs"] v6_hexes [of hs m] False Nil n Cons.prems(2,3)
        by (simp add: hexes_simps del: v6_loop.simps)
    qed
  next
    case (Cons h hs')
    let ?r = "hexes gs @ CHR '':'' # CHR '':'' # hexes hs"
    have "hexes gs \<noteq> [] \<and> hd (hexes gs) \<noteq> CHR '':''" using Cons Cons.prems(2) by (intro hexes_hd) auto
    then have "?r \<noteq> []" "hd ?r \<noteq> CHR '':''" by simp_all
    note G = v6_group_colon [OF g this, of m ip None]
    have "v6_loop m (ip @ put_be16 (of_nat g)) None ?r
      = Some ((ip @ put_be16 (of_nat g)) @ group_bytes gs @ group_bytes hs, Some (length (ip @ put_be16 (of_nat g)) + 2 * length gs), [])"
      using Cons.prems n Cons by (intro Cons.IH) auto
    then show ?thesis using G n Cons by (simp add: hexes_simps del: v6_loop.simps)
  qed
qed simp

lemma zero_run_step:
  assumes "length g = 8" and "i < 8" and "zs = 255 \<and> ze = 255 \<or> zs + 2 \<le> ze \<and> ze \<le> 8 \<and> (\<forall>j. zs \<le> j \<and> j < ze \<longrightarrow> g ! j = 0)"
    and "l = length (takeWhile (\<lambda>x. x = (0 :: nat)) (drop i g))" and "2 \<le> l"
  shows "i + 2 \<le> i + l \<and> i + l \<le> 8 \<and> (\<forall>j. i \<le> j \<and> j < i + l \<longrightarrow> g ! j = 0)"
proof -
  have le: "l \<le> 8 - i" using length_takeWhile_le [of "\<lambda>x. x = 0" "drop i g"] assms(1,4) by simp
  have "g ! j = 0" if "i \<le> j" "j < i + l" for j
  proof -
    have "j - i < l" using that by linarith
    then have "drop i g ! (j - i) = takeWhile (\<lambda>x. x = 0) (drop i g) ! (j - i)" using assms(4) by (simp add: takeWhile_nth)
    moreover have "takeWhile (\<lambda>x. x = 0) (drop i g) ! (j - i) \<in> set (takeWhile (\<lambda>x. x = 0) (drop i g))"
      using \<open>j - i < l\<close> assms(4) by (intro nth_mem) simp
    ultimately have "drop i g ! (j - i) = 0" using set_takeWhileD by metis
    then show ?thesis using that assms(1,2) by simp
  qed
  then show ?thesis using le assms(2,5) by auto
qed

lemma zero_run_spec:
  assumes "length g = 8" and "zero_run g = (zs, ze)"
  shows "zs = 255 \<or> zs + 2 \<le> ze \<and> ze \<le> 8 \<and> (\<forall>j. zs \<le> j \<and> j < ze \<longrightarrow> g ! j = 0)"
proof -
  let ?I = "\<lambda>(zs, ze). zs = 255 \<and> ze = 255 \<or> zs + 2 \<le> ze \<and> ze \<le> 8 \<and> (\<forall>j. zs \<le> j \<and> j < ze \<longrightarrow> g ! j = 0)"
  let ?f = "\<lambda>i (zs, ze). let l = length (takeWhile (\<lambda>x. x = 0) (drop i g)) in if l \<ge> 2 \<and> l > ze - zs then (i, i + l) else (zs, ze)"
  have step: "?I (?f i x)" if "?I x" "i < 8" for i x
    using that zero_run_step [OF assms(1), of i] by (cases x) (auto simp: Let_def)
  have "?I (fold ?f is x)" if "?I x" "set is \<subseteq> {0..<8}" for "is" x
    using that
  proof (induction "is" arbitrary: x)
    case (Cons i "is")
    have "?I (?f i x)" by (rule step) (use Cons.prems in auto)
    then show ?case using Cons.IH [of "?f i x"] Cons.prems(2) by simp
  qed simp
  from this [of "(255, 255)" "[0..<8]"] have "?I (zero_run g)" by (simp add: zero_run_def)
  then show ?thesis using assms(2) by auto
qed

lemma groups6_ok: "length (groups6 b) = 8" "list_all (\<lambda>g. g < 65536) (groups6 b)"
  using unat_be16_less by (auto simp: groups6_def list_all_iff u16_at_def)

lemma group_bytes_groups6: "length b = 16 \<Longrightarrow> group_bytes (groups6 b) = b"
  by (auto simp: groups6_def group_bytes_def upt_rec length_Suc_conv numeral_eq_Suc u16_at_def put_be16_be16)

lemma v6_expand_hexes:
  assumes "length g = 8" and "zs + 2 \<le> ze" and "ze \<le> 8" and "\<And>j. zs \<le> j \<Longrightarrow> j < ze \<Longrightarrow> g ! j = 0"
  shows "v6_expand (group_bytes (take zs g) @ group_bytes (drop ze g), Some (2 * zs), []) = Some (group_bytes g)"
proof -
  have "take (ze - zs) (drop zs g) = replicate (ze - zs) 0"
    using assms by (intro nth_equalityI) auto
  then have "g = take zs g @ replicate (ze - zs) 0 @ drop ze g"
    using assms(1-3) append_take_drop_id [of "ze - zs" "drop zs g"] by simp
  then have "group_bytes g = group_bytes (take zs g) @ group_bytes (replicate (ze - zs) 0) @ group_bytes (drop ze g)"
    by (metis group_bytes_simps(4))
  moreover have "group_bytes (replicate n 0) = replicate (2 * n) 0" for n
    by (induction n) (simp_all add: put_be16_def, simp add: numeral_2_eq_2)
  moreover have "length (group_bytes (take zs g)) = 2 * zs" using assms(1-3) by simp
  moreover have "16 - (2 * zs + 2 * (8 - ze)) = 2 * (ze - zs)" "2 * zs + 2 * (8 - ze) < 16" using assms(2,3) by auto
  moreover have "length (group_bytes (drop ze g)) = 2 * (8 - ze)" using assms(1) by simp
  ultimately show ?thesis by (simp add: v6_expand_def)
qed

lemma hexes_two_colons: "gs \<noteq> [] \<Longrightarrow> list_all (\<lambda>g. g < 65536) gs \<Longrightarrow> take 2 (hexes gs @ r) \<noteq> ''::''"
  using hexes_hd [of gs] by (cases "hexes gs") auto

lemma v6_body_string6: assumes "length b = 16" shows "v6_body (string6 b) = Some b"
proof -
  obtain zs ze where z: "zero_run (groups6 b) = (zs, ze)" by force
  note ok = groups6_ok [of b]
  have ne: "groups6 b \<noteq> []" using ok(1) by auto
  show ?thesis
  proof (cases "zs = 255")
    case True
    have "string6 b = hexes (groups6 b)" using z True by (simp add: string6_def hexes_def Let_def)
    then show ?thesis using hexes_two_colons [OF ne ok(2), of "[]"] v6_hexes [OF ne ok(2), of 8 "[]" None] ok(1) group_bytes_groups6 [OF assms]
      by (simp add: v6_body_def v6_expand_def assms)
  next
    case False
    then have r: "zs + 2 \<le> ze" "ze \<le> 8" "\<And>j. zs \<le> j \<Longrightarrow> j < ze \<Longrightarrow> groups6 b ! j = 0" using zero_run_spec [OF ok(1) z] by auto
    let ?gs = "take zs (groups6 b)" and ?hs = "drop ze (groups6 b)"
    have s: "string6 b = hexes ?gs @ CHR '':'' # CHR '':'' # hexes ?hs" using z False by (simp add: string6_def hexes_def Let_def)
    have gh: "list_all (\<lambda>g. g < 65536) (?gs @ ?hs)" using ok(2) by (auto simp: list_all_iff dest: in_set_takeD in_set_dropD)
    have E: "v6_expand (group_bytes ?gs @ group_bytes ?hs, Some (2 * zs), []) = Some b"
      using v6_expand_hexes [OF ok(1) r] group_bytes_groups6 [OF assms] by simp
    show ?thesis
    proof (cases "zs = 0")
      case zs0: True
      show ?thesis
      proof (cases "?hs = []")
        case True
        then have "group_bytes ?hs = []" by simp
        then have "b = replicate 16 0" using E zs0 by (simp add: v6_expand_def)
        then show ?thesis using s True zs0 by (simp add: v6_body_def hexes_def)
      next
        case False
        then have "v6_loop 8 [] (Some 0) (hexes ?hs) = Some (group_bytes ?hs, Some 0, [])" "hexes ?hs \<noteq> []"
          using v6_hexes [of ?hs 8 "[]" "Some 0"] hexes_hd [of ?hs] gh ok(1) by simp_all
        then show ?thesis using s E zs0 by (simp add: v6_body_def hexes_def [of "[]"])
      qed
    next
      case False
      then have gs: "?gs \<noteq> []" using ok(1) by auto
      have "length ?gs = zs" "length ?gs + length ?hs \<le> 8" using r ok(1) by auto
      then have "v6_loop 8 [] None (string6 b) = Some (group_bytes ?gs @ group_bytes ?hs, Some (2 * zs), [])"
        using v6_hexes_ellipsis [OF gs gh, of 8 "[]"] by (simp add: s)
      then show ?thesis using hexes_two_colons [OF gs, of "CHR '':'' # CHR '':'' # hexes ?hs"] gh E by (simp add: v6_body_def s)
    qed
  qed
qed

subsection \<open>Round trips\<close>

lemma set_join: "set (join sep ws) \<subseteq> set sep \<union> \<Union> (set ` set ws)"
  by (induction sep ws rule: join.induct) auto

lemma string4_chars: "c \<in> set (string4 b) \<Longrightarrow> is_digit c \<or> c = CHR ''.''"
  using set_join [of "''.''" "map (\<lambda>x. nat_string (unat x)) b"] nat_string_digits by (auto simp: string4_def list_all_iff)

lemma string6_chars: "c \<in> set (string6 b) \<Longrightarrow> is_hex c \<or> c = CHR '':''"
proof -
  have "c \<in> set (join '':'' (map hex_string gs)) \<Longrightarrow> is_hex c \<or> c = CHR '':''" for gs
    using set_join [of "'':''" "map hex_string gs"] hex_string_ok by (auto simp: list_all_iff)
  then show "c \<in> set (string6 b) \<Longrightarrow> is_hex c \<or> c = CHR '':''"
    by (auto simp: string6_def Let_def split: prod.splits if_splits)
qed

lemma find_only: "(\<And>x. x \<in> set s \<Longrightarrow> P x \<Longrightarrow> x = c) \<Longrightarrow> c \<in> set s \<Longrightarrow> P c \<Longrightarrow> find P s = Some c"
proof (induction s)
  case (Cons y s)
  show ?case
  proof (cases "P y")
    case True
    then have "y = c" using Cons.prems(1) [of y] by simp
    then show ?thesis using True by simp
  next
    case False
    then have "c \<in> set s" using Cons.prems(2,3) by auto
    then show ?thesis using False Cons.IH Cons.prems(1,3) by simp
  qed
qed simp

lemma digit_not: "is_digit c \<Longrightarrow> c \<noteq> CHR '':'' \<and> c \<noteq> CHR ''%'' \<and> c \<noteq> CHR ''.'' \<and> c \<noteq> CHR '',''"
  "is_hex c \<Longrightarrow> c \<noteq> CHR '':'' \<and> c \<noteq> CHR ''%'' \<and> c \<noteq> CHR ''.'' \<and> c \<noteq> CHR '',''"
  unfolding is_hex_def is_digit_def by (cases "c = CHR '':''"; cases "c = CHR ''%''"; cases "c = CHR ''.''"; cases "c = CHR '',''"; simp)+

lemma string4_dot: "length b = 4 \<Longrightarrow> CHR ''.'' \<in> set (string4 b)"
  by (cases b; cases "tl b") (auto simp: string4_def)

lemma string6_colon: "CHR '':'' \<in> set (string6 b)"
proof -
  have "CHR '':'' \<in> set (join '':'' (map hex_string g))" if "length g = 8" for g
    using that by (cases g; cases "tl g") auto
  then show ?thesis using groups6_ok(1) [of b] by (cases "zero_run (groups6 b)") (simp add: string6_def Let_def)
qed

text \<open>Every valid address that is not IPv4-mapped prints to a text that reads back as it, with no zone.\<close>

lemma ParseAddr_String:
  assumes "addr_wf a" and "IsValid a" and "Unmap a = a" shows "ParseAddr (addr_String a) = Some (a, [])"
proof (cases a)
  case (Addr4 b)
  then have "find (\<lambda>c. c = CHR ''.'' \<or> c = CHR '':'' \<or> c = CHR ''%'') (string4 b) = Some (CHR ''.'')"
    using string4_dot [of b] assms(1) digit_not(1) string4_chars by (intro find_only) auto
  then show ?thesis using Addr4 assms(1) by (simp add: ParseAddr_def v4_string4)
next
  case (Addr6 b)
  have nm: "take 12 b \<noteq> v4_mapped_prefix" using assms(3) Addr6 by (auto split: if_splits)
  have f: "find (\<lambda>c. c = CHR ''.'' \<or> c = CHR '':'' \<or> c = CHR ''%'') (string6 b) = Some (CHR '':'')"
    using string6_colon [of b] digit_not(2) string6_chars by (intro find_only) auto
  have "CHR ''%'' \<notin> set (string6 b)" using digit_not(2) string6_chars by fastforce
  then have T: "takeWhile (\<lambda>c. c \<noteq> CHR ''%'') (string6 b) = string6 b" "dropWhile (\<lambda>c. c \<noteq> CHR ''%'') (string6 b) = []"
    by (auto simp: takeWhile_eq_all_conv dropWhile_eq_Nil_conv)
  show ?thesis using Addr6 assms(1) nm f by (simp add: ParseAddr_def parse_v6_def T v6_body_string6)
qed (use assms(2) in simp)

lemma addr_String_chars:
  assumes "Unmap a = a" and "IsValid a" and "c \<in> set (addr_String a)" shows "is_hex c \<or> c = CHR ''.'' \<or> c = CHR '':''"
proof (cases a)
  case (Addr4 b)
  then show ?thesis using assms(3) string4_chars [of c b] by (auto simp: is_hex_def)
next
  case (Addr6 b)
  then have "take 12 b \<noteq> v4_mapped_prefix" using assms(1) by (auto split: if_splits)
  then show ?thesis using Addr6 assms(3) string6_chars [of c b] by auto
qed (use assms(2) in simp)

lemma TrimSpace_none: "(\<And>c. c \<in> set s \<Longrightarrow> \<not> is_space c) \<Longrightarrow> TrimSpace s = s"
  using dropWhile_none [of s is_space] dropWhile_none [of "rev s" is_space] by (simp add: TrimSpace_def)

lemma hex_no_space: "is_hex c \<or> c = CHR ''.'' \<or> c = CHR '':'' \<or> c = CHR ''/'' \<Longrightarrow> \<not> is_space c"
  by (auto simp: is_hex_def is_digit_def is_space_def)

lemma split_by_none: "(\<And>c. c \<in> set s \<Longrightarrow> \<not> P c) \<Longrightarrow> split_by P s = [s]"
  by (induction s) auto

lemma split_by_cons: "(\<And>c. c \<in> set s \<Longrightarrow> \<not> P c) \<Longrightarrow> P x \<Longrightarrow> split_by P (s @ x # r) = s # split_by P r"
  by (induction s) auto

lemma split_by_join:
  assumes "P (CHR '','')" and "\<And>w c. w \<in> set ws \<Longrightarrow> c \<in> set w \<Longrightarrow> \<not> P c" and "ws \<noteq> []"
  shows "split_by P (join '','' ws) = ws"
  using assms
proof (induction "'',''" ws rule: join.induct)
  case (3 s t ss)
  have "split_by P (join '','' (t # ss)) = t # ss" using 3 by (intro "3.hyps") auto
  moreover have "split_by P (s @ CHR '','' # join '','' (t # ss)) = s # split_by P (join '','' (t # ss))"
    using 3 by (intro split_by_cons) auto
  ultimately show ?case by simp
qed (simp_all add: split_by_none)

lemma map_filter_all: "(\<And>x. x \<in> set xs \<Longrightarrow> f (g x) = Some (h x)) \<Longrightarrow> List.map_filter f (map g xs) = map h xs"
  by (induction xs) (auto simp: List.map_filter_simps)

text \<open>
  C29: The NAT addresses of an exporter survive the database. Whatever list of addresses is stored, the CSV written for
  it reads back as the valid ones in their order, with IPv4-mapped addresses shortened to IPv4, IPv6 zero
  compression included.
\<close>

theorem addr_csv_roundtrip:
  assumes "list_all addr_wf as" shows "parseAddrCSV (formatAddrCSV as) = map Unmap (filter IsValid as)"
proof (cases "filter IsValid as = []")
  case True
  then show ?thesis by (simp add: parseAddrCSV_def formatAddrCSV_def List.map_filter_simps ParseAddr_def TrimSpace_def)
next
  case False
  let ?vs = "filter IsValid as" and ?p = "\<lambda>a. addr_String (Unmap a)"
  have ok: "addr_wf (Unmap a)" "IsValid (Unmap a)" "Unmap (Unmap a) = Unmap a" if "a \<in> set ?vs" for a
    using that assms by (auto simp: list_all_iff Unmap_wf)
  have ch: "is_hex c \<or> c = CHR ''.'' \<or> c = CHR '':''" if "a \<in> set ?vs" "c \<in> set (?p a)" for a c
    using addr_String_chars [OF ok(3) [OF that(1)] ok(2) [OF that(1)] that(2)] .
  have "split_by (\<lambda>c. c = CHR '','') (join '','' (map ?p ?vs)) = map ?p ?vs"
    using ch False by (intro split_by_join) (use digit_not(2) in fastforce)+
  moreover have F: "map_option (\<lambda>(a, _). Unmap a) (ParseAddr (TrimSpace (?p a))) = Some (Unmap a)" if "a \<in> set ?vs" for a
  proof -
    have "TrimSpace (?p a) = ?p a" by (rule TrimSpace_none) (use ch [OF that] hex_no_space in blast)
    then show ?thesis using ParseAddr_String [OF ok [OF that]] ok(3) [OF that] by simp
  qed
  ultimately show ?thesis
    unfolding parseAddrCSV_def formatAddrCSV_def using map_filter_all [of ?vs _ ?p Unmap, OF F] by (simp only:)
qed

theorem addr_csv_roundtrip_witness: "parseAddrCSV (formatAddrCSV [Addr4 [192,168,88,1], NoAddr]) = [Addr4 [192,168,88,1]]"
  using addr_csv_roundtrip [of "[Addr4 [192,168,88,1], NoAddr]"] by simp

text \<open>A masked prefix of an unmapped address.\<close>

definition prefix_ok :: "prefix \<Rightarrow> bool" where
  "prefix_ok p \<longleftrightarrow> addr_wf (p_addr p) \<and> IsValid (p_addr p) \<and> Unmap (p_addr p) = p_addr p \<and> p_bits p \<le> BitLen (p_addr p) \<and> prefix_Masked p = p"

lemma last_slash_append: "CHR ''/'' \<notin> set t \<Longrightarrow> last_slash (s @ CHR ''/'' # t) = Some (s, t)"
proof -
  assume "CHR ''/'' \<notin> set t"
  then have n: "\<And>c. c \<in> set (rev t) \<Longrightarrow> c \<noteq> CHR ''/''" by auto
  then have "takeWhile (\<lambda>c. c \<noteq> CHR ''/'') (rev t @ CHR ''/'' # rev s) = rev t" "dropWhile (\<lambda>c. c \<noteq> CHR ''/'') (rev t @ CHR ''/'' # rev s) = CHR ''/'' # rev s"
    by (simp_all add: takeWhile_append dropWhile_append)
  then show ?thesis by (simp add: last_slash_def)
qed

lemma slash_not_digit: "CHR ''/'' \<notin> set (nat_string n)"
  using nat_string_digits [of n] by (auto simp: list_all_iff is_digit_def)

lemma bits_ok: "n \<le> 128 \<Longrightarrow> Atoi (nat_string n) = Some (int n)"
  using Atoi_itoa [of "int n"] by (simp add: itoa_def int64_def)

lemma bits_head: "length (nat_string n) > 1 \<Longrightarrow> 49 \<le> (of_char (hd (nat_string n)) :: nat) \<and> (of_char (hd (nat_string n)) :: nat) \<le> 57"
  using nat_string_cases [of n] by (auto simp: is_digit_def)

lemma ParsePrefix_String: assumes "prefix_ok p" shows "ParsePrefix (prefix_String p) = Some p"
proof -
  have a: "addr_wf (p_addr p)" "IsValid (p_addr p)" "Unmap (p_addr p) = p_addr p" "p_bits p \<le> BitLen (p_addr p)" using assms by (simp_all add: prefix_ok_def)
  have "BitLen (p_addr p) \<le> 128" by (cases "p_addr p") simp_all
  then have n: "Atoi (nat_string (p_bits p)) = Some (int (p_bits p))" using a(4) by (intro bits_ok) linarith
  have s: "prefix_String p = addr_String (p_addr p) @ CHR ''/'' # nat_string (p_bits p)" using a(2) by (cases "p_addr p") (simp_all add: prefix_String_def)
  show ?thesis unfolding ParsePrefix_def s last_slash_append [OF slash_not_digit]
    using ParseAddr_String [OF a(1-3)] n bits_head [of "p_bits p"] a(4) by simp
qed

lemma prefix_String_chars: "prefix_ok p \<Longrightarrow> c \<in> set (prefix_String p) \<Longrightarrow> is_hex c \<or> c = CHR ''.'' \<or> c = CHR '':'' \<or> c = CHR ''/''"
proof -
  assume p: "prefix_ok p" and c: "c \<in> set (prefix_String p)"
  have "is_hex d" if "d \<in> set (nat_string n)" for d n using that nat_string_digits [of n] by (auto simp: list_all_iff is_hex_def)
  then show ?thesis using p c addr_String_chars [of "p_addr p" c] by (auto simp: prefix_String_def prefix_ok_def split: if_splits)
qed

lemma parse_part_String: "prefix_ok p \<Longrightarrow> parse_part (prefix_String p) = Some p"
proof -
  assume p: "prefix_ok p"
  then have "\<not> Is4In6 (p_addr p)" by (cases "p_addr p") (auto simp: prefix_ok_def split: if_splits)
  then show ?thesis using p by (simp add: parse_part_def ParsePrefix_String unmap_prefix_def prefix_ok_def)
qed

lemma parsePrefixCSV_join:
  assumes "list_all prefix_ok ps" shows "parsePrefixCSV (join '','' (map prefix_String ps)) = ps"
proof (cases "ps = []")
  case True
  then show ?thesis by (simp add: parsePrefixCSV_def fields_func_def List.map_filter_simps)
next
  case False
  let ?P = "\<lambda>c. c = CHR '','' \<or> of_char c = (10 :: nat) \<or> c = CHR '' '' \<or> c = CHR '';''"
  have ch: "is_hex c \<or> c = CHR ''.'' \<or> c = CHR '':'' \<or> c = CHR ''/''" if "p \<in> set ps" "c \<in> set (prefix_String p)" for p c
    using prefix_String_chars [OF _ that(2)] assms that(1) by (simp add: list_all_iff)
  have np: "\<not> ?P c" if "is_hex c \<or> c = CHR ''.'' \<or> c = CHR '':'' \<or> c = CHR ''/''" for c
    using that by (auto simp: is_hex_def is_digit_def)
  have ne: "prefix_String p \<noteq> []" if "p \<in> set ps" for p using that assms by (auto simp: prefix_String_def)
  have "split_by ?P (join '','' (map prefix_String ps)) = map prefix_String ps"
    using ch np False by (intro split_by_join) auto
  then have S: "fields_func ?P (join '','' (map prefix_String ps)) = map prefix_String ps" using ne by (simp add: fields_func_def filter_id_conv)
  have F: "(if TrimSpace (prefix_String p) = [] then None else parse_part (TrimSpace (prefix_String p))) = Some p" if "p \<in> set ps" for p
  proof -
    have "TrimSpace (prefix_String p) = prefix_String p" by (rule TrimSpace_none) (use ch [OF that] hex_no_space in blast)
    then show ?thesis using ne [OF that] parse_part_String [of p] assms that by (simp add: list_all_iff)
  qed
  show ?thesis unfolding parsePrefixCSV_def S using map_filter_all [of ps _ prefix_String "\<lambda>p. p", OF F] by simp
qed

subsection \<open>Parsed addresses are well-formed\<close>

lemma v4_fields_length: "v4_fields v n e acc s = Some b \<Longrightarrow> length acc \<le> 3 \<Longrightarrow> length b = 4"
  by (induction v n e acc s rule: v4_fields.induct) (auto simp: Let_def split: if_splits)

lemma v6_loop_length: "v6_loop n ip el s = Some (ip', el', s') \<Longrightarrow> length ip + 2 * n \<le> 16 \<Longrightarrow> length ip' \<le> 16"
proof (induction n arbitrary: ip el s)
  case (Suc n)
  let ?ip = "ip @ put_be16 (of_nat (hex_value (takeWhile is_hex s)))"
  have l: "length ?ip = length ip + 2" by simp
  show ?case using Suc.prems Suc.IH [of ?ip] v4_fields_length [of 0 0 True "[]" s] l
    by (auto simp: Let_def split: if_splits)
qed simp

lemma v6_expand_length: "v6_expand (ip, el, s) = Some b \<Longrightarrow> length ip \<le> 16 \<Longrightarrow> length b = 16"
  by (auto simp: v6_expand_def split: if_splits option.splits)

lemma ParseAddr_wf: "ParseAddr s = Some (a, z) \<Longrightarrow> addr_wf a \<and> IsValid a"
proof -
  have b: "length b = 16" if "Option.bind (v6_loop 8 [] el t) v6_expand = Some b" for el t b
    using that v6_loop_length [of 8 "[]" el t] v6_expand_length by (cases "v6_loop 8 [] el t") auto
  have "length b = 16" if "v6_body t = Some b" for t b using that b by (auto simp: v6_body_def split: if_splits)
  then show "ParseAddr s = Some (a, z) \<Longrightarrow> ?thesis"
    using v4_fields_length [of 0 0 True "[]" s] by (auto simp: ParseAddr_def parse_v6_def Let_def split: option.splits if_splits)
qed

lemma ParsePrefix_wf: "ParsePrefix s = Some p \<Longrightarrow> addr_wf (p_addr p) \<and> IsValid (p_addr p) \<and> p_bits p \<le> BitLen (p_addr p)"
  by (auto simp: ParsePrefix_def bind_eq_Some_conv dest!: ParseAddr_wf split: if_splits prod.splits)

declare mask_byte_idem [simp]

lemma mask_addr_simps [simp]: "mask_addr n (mask_addr n a) = mask_addr n a" "BitLen (mask_addr n a) = BitLen a" "addr_wf (mask_addr n a) = addr_wf a"
  "IsValid (mask_addr n a) = IsValid a"
  by (cases a; simp)+

lemma Masked_simps [simp]: "prefix_Masked (prefix_Masked p) = prefix_Masked p" "p_bits (prefix_Masked p) = p_bits p" "p_addr (prefix_Masked p) = mask_addr (p_bits p) (p_addr p)"
  by (simp_all add: prefix_Masked_def)

lemma Masked_contains: "IsValid a \<Longrightarrow> prefix_Contains (prefix_Masked \<lparr>p_addr = a, p_bits = n\<rparr>) a"
  by (cases a) (simp_all add: prefix_Contains_def)

text \<open>Masking does not make an IPv4-mapped address of one that is not.\<close>

lemma mask_byte_255: "mask_byte n i x = 255 \<Longrightarrow> 8 * (i + 1) \<le> n"
proof (rule ccontr)
  assume m: "mask_byte n i x = 255" and "\<not> 8 * (i + 1) \<le> n"
  then have n: "n < 8 * (i + 1)" "8 * i < n" by (auto simp: mask_byte_def split: if_splits)
  then have "\<not> bit (mask_byte n i x) 0" by (simp add: mask_byte_def bit_and_iff bit_not_iff bit_mask_iff)
  moreover have "bit (255 :: byte) 0" by simp
  ultimately show False using m by simp
qed

lemma mask_mapped: "length b = 16 \<Longrightarrow> take 12 (mask_bytes n b) = v4_mapped_prefix \<Longrightarrow> take 12 b = v4_mapped_prefix"
proof -
  assume l: "length b = 16" and t: "take 12 (mask_bytes n b) = v4_mapped_prefix"
  have nth: "mask_bytes n b ! i = mask_byte n i (b ! i)" if "i < 16" for i using that l by (simp add: mask_bytes_def nth_enumerate_eq)
  have "mask_bytes n b ! 11 = take 12 (mask_bytes n b) ! 11" by simp
  also have "\<dots> = 255" unfolding t by (simp add: v4_mapped_prefix_def nth_append)
  finally have "8 * 12 \<le> n" using mask_byte_255 [of n 11 "b ! 11"] nth [of 11] by simp
  then have "take 12 (mask_bytes n b) = take 12 b" using l nth by (intro nth_equalityI) (auto simp: mask_byte_def)
  then show ?thesis using t by simp
qed

lemma Unmap_mask: "addr_wf a \<Longrightarrow> Unmap a = a \<Longrightarrow> Unmap (mask_addr n a) = mask_addr n a"
proof (cases a)
  case (Addr6 b)
  assume "addr_wf a" "Unmap a = a"
  then have "length b = 16" "take 12 b \<noteq> v4_mapped_prefix" using Addr6 by (auto split: if_splits)
  then have "take 12 (mask_bytes n b) \<noteq> v4_mapped_prefix" using mask_mapped by blast
  then show ?thesis using Addr6 by simp
qed simp_all

lemma prefix_ok_masked: "addr_wf a \<Longrightarrow> IsValid a \<Longrightarrow> Unmap a = a \<Longrightarrow> n \<le> BitLen a \<Longrightarrow> prefix_ok (prefix_Masked \<lparr>p_addr = a, p_bits = n\<rparr>)"
  by (simp add: prefix_ok_def Unmap_mask)

end
