(* ===== verification/Flow_Store.thy ===== *)
theory Flow_Store
  imports Worker_State Aggregate_Flush Netip_Text
begin

text \<open>
  The flow tables and the queries the writer runs on them (\<open>database/queries/flows.go\<close>): additive minute upserts,
  the hourly rollup, exporter status, interface touches and persisted templates. A table is a finite map from
  its primary key to the other columns; a statement is the function it computes on the table, a failed one (or a
  rolled-back transaction) leaves it unchanged. Integer columns are unbounded here: SQLite turns to floating point
  above \<open>2^63 - 1\<close>, which the properties exclude where it matters; the sums that Go computes wrap around.
  Interfaces, templates and points reference their exporter (\<open>foreign_keys\<close> is on): a statement that would
  insert a row of a missing exporter fails.
\<close>

subsection \<open>Stored forms\<close>

definition FlowIPBlob :: "addr \<Rightarrow> bytes" where
  "FlowIPBlob a = (case Unmap a of NoAddr \<Rightarrow> [] | Addr4 b \<Rightarrow> b | Addr6 b \<Rightarrow> b)"

definition FlowBlobIP :: "bytes \<Rightarrow> addr" where
  "FlowBlobIP b = (if length b = 4 then Addr4 b else if length b = 16 then Unmap (AddrFrom16 b) else NoAddr)"

definition unixOf :: "time \<Rightarrow> int" where
  "unixOf t = (if is_zero t then 0 else unix t)"

definition fromUnix :: "int \<Rightarrow> time" where
  "fromUnix n = (if n = 0 then zero_time else time_Unix n 0)"

text \<open>\<open>t.UTC().Truncate(d).Unix()\<close> for a minute and for an hour.\<close>

definition minute_of :: "time \<Rightarrow> int" where "minute_of t = 60 * (unix t div 60)"
definition hour_of :: "time \<Rightarrow> int" where "hour_of t = 3600 * (unix t div 3600)"

subsection \<open>Tables\<close>

record flow_key =
  tk_exporter :: int
  tk_bucket :: int
  tk_inIf :: u32
  tk_outIf :: u32
  tk_src :: bytes
  tk_dst :: bytes
  tk_proto :: u8
  tk_port :: u16

record flowSums =
  fs_bytes :: int
  fs_packets :: int
  fs_flows :: int

record meta_cols =
  mc_datagrams :: int
  mc_records :: int
  mc_bytes :: int
  mc_sampling :: int
  mc_overflow :: int
  mc_late :: int
  mc_minutes :: int

type_synonym flow_table = "(flow_key, flowSums) gomap"
type_synonym meta_table = "(int \<times> int, meta_cols) gomap"

text \<open>A row of the address plan; the table is keyed by the text of the prefix, from which \<open>fx_Prefix\<close> is read.\<close>

record FlowPrefix =
  fx_Prefix :: prefix
  fx_Class :: string
  fx_DeviceID :: string
  fx_Iface :: string
  fx_UpdatedAt :: time

text \<open>The two sequences are what \<open>AUTOINCREMENT\<close> keeps: the largest id ever given.\<close>

record flow_db =
  fd_exporters :: "(int, FlowExporter) gomap"
  fd_exporterSeq :: int
  fd_ifaces :: "(int \<times> u32, FlowIface) gomap"
  fd_templates :: "(int \<times> TemplateKey, FlowTemplate) gomap"
  fd_points :: "(int, FlowPoint) gomap"
  fd_pointSeq :: int
  fd_prefixes :: "(string, FlowPrefix) gomap"
  fd_1m :: flow_table
  fd_1m_meta :: meta_table
  fd_1h :: flow_table
  fd_1h_meta :: meta_table

subsection \<open>Minutes\<close>

definition row_key :: "FlowRow \<Rightarrow> flow_key" where
  "row_key r = \<lparr>tk_exporter = fr_ExporterID r, tk_bucket = minute_of (fr_Bucket r), tk_inIf = fr_InIf r, tk_outIf = fr_OutIf r,
     tk_src = FlowIPBlob (fr_Src r), tk_dst = FlowIPBlob (fr_Dst r), tk_proto = fr_Proto r, tk_port = fr_Port r\<rparr>"

definition upsert_row :: "FlowRow \<Rightarrow> flow_table \<Rightarrow> flow_table" where
  "upsert_row r t = gm_put (row_key r) (case gm_get t (row_key r) of
       None \<Rightarrow> \<lparr>fs_bytes = fr_Bytes r, fs_packets = fr_Packets r, fs_flows = fr_Flows r\<rparr>
     | Some s \<Rightarrow> \<lparr>fs_bytes = fs_bytes s + fr_Bytes r, fs_packets = fs_packets s + fr_Packets r, fs_flows = fs_flows s + fr_Flows r\<rparr>) t"

definition upsert_meta :: "FlowMeta \<Rightarrow> meta_table \<Rightarrow> meta_table" where
  "upsert_meta m t = (let k = (fm_ExporterID m, minute_of (fm_Bucket m))
     in gm_put k (case gm_get t k of
       None \<Rightarrow> \<lparr>mc_datagrams = fm_Datagrams m, mc_records = fm_Records m, mc_bytes = fm_Bytes m, mc_sampling = fm_Sampling m,
                mc_overflow = fm_Overflow m, mc_late = fm_Late m, mc_minutes = 0\<rparr>
     | Some c \<Rightarrow> c\<lparr>mc_datagrams := mc_datagrams c + fm_Datagrams m, mc_records := mc_records c + fm_Records m,
                  mc_bytes := mc_bytes c + fm_Bytes m, mc_sampling := max (mc_sampling c) (fm_Sampling m),
                  mc_overflow := mc_overflow c + fm_Overflow m, mc_late := mc_late c + fm_Late m\<rparr>) t)"

definition InsertFlows1m :: "FlowRow list \<Rightarrow> FlowMeta list \<Rightarrow> flow_db \<Rightarrow> flow_db" where
  "InsertFlows1m rows meta db = db\<lparr>fd_1m := fold upsert_row rows (fd_1m db), fd_1m_meta := fold upsert_meta meta (fd_1m_meta db)\<rparr>"

subsection \<open>Rolling up an hour\<close>

record flowAggKey =
  gk_inIf :: u32
  gk_outIf :: u32
  gk_src :: bytes
  gk_dst :: bytes
  gk_srcOK :: bool
  gk_dstOK :: bool
  gk_proto :: u8
  gk_port :: u16

type_synonym flowPair = "u32 \<times> u32"

definition addr16 :: "addr \<Rightarrow> bytes \<times> bool" where
  "addr16 a = (if IsValid a then (As16 a, True) else (replicate 16 0, False))"

definition flow_keyAddr :: "bytes \<Rightarrow> bool \<Rightarrow> addr" where
  "flow_keyAddr b ok = (if ok then Unmap (AddrFrom16 b) else NoAddr)"

definition compareFlowKeys :: "flowAggKey \<Rightarrow> flowAggKey \<Rightarrow> int" where
  "compareFlowKeys a b =
    (let c = bytes_Compare (gk_src a) (gk_src b) in if c \<noteq> 0 then c else
     let c = bytes_Compare (gk_dst a) (gk_dst b) in if c \<noteq> 0 then c else
     let c = go_compare (gk_proto a) (gk_proto b) in if c \<noteq> 0 then c else
     go_compare (gk_port a) (gk_port b))"

definition sums_add :: "flowSums \<Rightarrow> flowSums \<Rightarrow> flowSums" where
  "sums_add a s = \<lparr>fs_bytes = wrap64 (fs_bytes a + fs_bytes s), fs_packets = wrap64 (fs_packets a + fs_packets s),
     fs_flows = wrap64 (fs_flows a + fs_flows s)\<rparr>"

definition zero_sums :: flowSums where
  "zero_sums = \<lparr>fs_bytes = 0, fs_packets = 0, fs_flows = 0\<rparr>"

text \<open>\<open>acc := m[k]; if acc == nil \{ \dots \}; acc += s\<close>, the accumulation into both maps.\<close>

definition bump :: "'k \<Rightarrow> flowSums \<Rightarrow> ('k, flowSums) gomap \<Rightarrow> ('k, flowSums) gomap" where
  "bump k s m = gm_put k (sums_add (case gm_get m k of Some a \<Rightarrow> a | None \<Rightarrow> zero_sums) s) m"

definition agg_key :: "flow_key \<Rightarrow> flowAggKey" where
  "agg_key k = (let (sa, sok) = addr16 (FlowBlobIP (tk_src k)); (da, dok) = addr16 (FlowBlobIP (tk_dst k))
     in \<lparr>gk_inIf = tk_inIf k, gk_outIf = tk_outIf k, gk_src = sa, gk_dst = da, gk_srcOK = sok, gk_dstOK = dok,
         gk_proto = tk_proto k, gk_port = tk_port k\<rparr>)"

definition gk_pair :: "flowAggKey \<Rightarrow> flowPair" where
  "gk_pair k = (gk_inIf k, gk_outIf k)"

type_synonym rollup_maps = "(flowAggKey, flowSums) gomap \<times> (flowPair, flowSums) gomap"

definition rollup_scan :: "flow_key \<times> flowSums \<Rightarrow> rollup_maps \<Rightarrow> rollup_maps" where
  "rollup_scan r so = (let (k, s) = r; (cv, others) = so; g = agg_key k
     in if \<not> gk_srcOK g \<and> \<not> gk_dstOK g then (cv, bump (gk_pair g) s others) else (bump g s cv, others))"

definition bySums :: "flowAggKey \<times> flowSums \<Rightarrow> flowAggKey \<times> flowSums \<Rightarrow> int" where
  "bySums a b = (let c = go_compare (fs_bytes (snd b)) (fs_bytes (snd a)) in if c \<noteq> 0 then c else compareFlowKeys (fst a) (fst b))"

text \<open>The conversations of a pair in the order they are kept.\<close>

definition pair_sorted :: "(flowAggKey, flowSums) gomap \<Rightarrow> flowPair \<Rightarrow> (flowAggKey \<times> flowSums) list" where
  "pair_sorted cv p = sort_cmp bySums (filter (\<lambda>kv. gk_pair (fst kv) = p) cv)"

definition rollup_pairs :: "(flowAggKey, flowSums) gomap \<Rightarrow> flowPair list" where
  "rollup_pairs cv = remdups (map (\<lambda>kv. gk_pair (fst kv)) cv)"

definition rollup_kept :: "nat \<Rightarrow> (flowAggKey, flowSums) gomap \<Rightarrow> (flowAggKey \<times> flowSums) list" where
  "rollup_kept topN cv = concat (map (\<lambda>p. take topN (pair_sorted cv p)) (rollup_pairs cv))"

definition rollup_others :: "nat \<Rightarrow> (flowAggKey, flowSums) gomap \<Rightarrow> (flowPair, flowSums) gomap \<Rightarrow> (flowPair, flowSums) gomap" where
  "rollup_others topN cv others =
    fold (\<lambda>kv. bump (gk_pair (fst kv)) (snd kv)) (concat (map (\<lambda>p. drop topN (pair_sorted cv p)) (rollup_pairs cv))) others"

definition kept_row :: "int \<Rightarrow> int \<Rightarrow> flowAggKey \<times> flowSums \<Rightarrow> flow_key \<times> flowSums" where
  "kept_row e from kv = (let (k, s) = kv
     in (\<lparr>tk_exporter = e, tk_bucket = from, tk_inIf = gk_inIf k, tk_outIf = gk_outIf k,
          tk_src = FlowIPBlob (flow_keyAddr (gk_src k) (gk_srcOK k)), tk_dst = FlowIPBlob (flow_keyAddr (gk_dst k) (gk_dstOK k)),
          tk_proto = gk_proto k, tk_port = gk_port k\<rparr>, s))"

definition other_hour_row :: "int \<Rightarrow> int \<Rightarrow> flowPair \<times> flowSums \<Rightarrow> flow_key \<times> flowSums" where
  "other_hour_row e from ps = (\<lparr>tk_exporter = e, tk_bucket = from, tk_inIf = fst (fst ps), tk_outIf = snd (fst ps), tk_src = [], tk_dst = [],
     tk_proto = 0, tk_port = 0\<rparr>, snd ps)"

text \<open>A plain \<open>INSERT\<close>: an error when the key is taken.\<close>

definition insert_row :: "'k \<times> 'v \<Rightarrow> ('k, 'v) gomap option \<Rightarrow> ('k, 'v) gomap option" where
  "insert_row kv t = (case t of None \<Rightarrow> None | Some t \<Rightarrow> if gm_has t (fst kv) then None else Some (gm_put (fst kv) (snd kv) t))"

definition in_hour :: "int \<Rightarrow> int \<Rightarrow> int \<times> int \<Rightarrow> bool" where
  "in_hour e from eb \<longleftrightarrow> fst eb = e \<and> from \<le> snd eb \<and> snd eb < from + 3600"

definition key_bucket :: "flow_key \<Rightarrow> int \<times> int" where
  "key_bucket k = (tk_exporter k, tk_bucket k)"

definition hour_meta :: "int \<Rightarrow> int \<Rightarrow> meta_table \<Rightarrow> meta_cols" where
  "hour_meta e from t = (let ms = map snd (filter (\<lambda>kv. in_hour e from (fst kv)) t)
     in \<lparr>mc_datagrams = sum_list (map mc_datagrams ms), mc_records = sum_list (map mc_records ms), mc_bytes = sum_list (map mc_bytes ms),
         mc_sampling = fold (\<lambda>m. max (mc_sampling m)) ms 0, mc_overflow = sum_list (map mc_overflow ms), mc_late = sum_list (map mc_late ms),
         mc_minutes = int (length ms)\<rparr>)"

definition hour_rows :: "int \<Rightarrow> int \<Rightarrow> flow_table \<Rightarrow> (flow_key \<times> flowSums) list" where
  "hour_rows e from t = filter (\<lambda>kv. in_hour e from (key_bucket (fst kv))) t"

text \<open>The rows an hour is replaced with.\<close>

definition rolled_rows :: "int \<Rightarrow> int \<Rightarrow> nat \<Rightarrow> flow_table \<Rightarrow> (flow_key \<times> flowSums) list" where
  "rolled_rows e from topN t =
    (let (cv, others) = fold rollup_scan (hour_rows e from t) ([], [])
     in map (kept_row e from) (rollup_kept topN cv) @ map (other_hour_row e from) (rollup_others topN cv others))"

text \<open>\<open>RollupFlows1h\<close>: \<open>None\<close> is the error of a taken key, which rolls the transaction back.\<close>

definition RollupFlows1h :: "int \<Rightarrow> time \<Rightarrow> int \<Rightarrow> flow_db \<Rightarrow> flow_db option" where
  "RollupFlows1h e hour topN db =
    (let from = hour_of hour;
         t = filter (\<lambda>kv. key_bucket (fst kv) \<noteq> (e, from)) (fd_1h db);
         tm = filter (\<lambda>kv. fst kv \<noteq> (e, from)) (fd_1h_meta db);
         meta = hour_meta e from (fd_1m_meta db)
     in do { t \<leftarrow> fold insert_row (rolled_rows e from (nat (max topN 1)) (fd_1m db)) (Some t);
             tm \<leftarrow> (if mc_minutes meta > 0 then insert_row ((e, from), meta) (Some tm) else Some tm);
             Some (db\<lparr>fd_1h := t, fd_1h_meta := tm\<rparr>) })"

definition UnrolledFlowHours :: "time \<Rightarrow> time \<Rightarrow> flow_db \<Rightarrow> (int \<times> time) list" where
  "UnrolledFlowHours from to db =
    (let cand = map (\<lambda>((e, b), _). (b - b mod 3600, e)) (filter (\<lambda>((_, b), _). unix from \<le> b \<and> b < unix to) (fd_1m_meta db))
     in map (\<lambda>(h, e). (e, time_Unix h 0)) (sort_key fst (sort_key snd (remdups (filter (\<lambda>(h, e). \<not> gm_has (fd_1h_meta db) (e, h)) cand)))))"

subsection \<open>Exporters, interfaces and templates\<close>

datatype query_error = ErrFlowExporterExists | ErrFlowPointExists | ErrFlowNotFound | ErrNoIfIndexes | ErrTooManyIfIndexes | ErrConstraint

text \<open>
  \<open>ErrConstraint\<close> is the driver's own error for a violated constraint the code does not name. A device id must be
  one of the \<open>devices\<close> table, whose ids are the argument \<open>devs\<close>, or empty (\<open>NULL\<close>).
\<close>

definition device_ref_ok :: "string list \<Rightarrow> string \<Rightarrow> bool" where
  "device_ref_ok devs d \<longleftrightarrow> d = '''' \<or> d \<in> set devs"

text \<open>The columns derived from the address text, as \<open>reconcile\<close> parses it.\<close>

definition with_address :: "FlowExporter \<Rightarrow> FlowExporter \<Rightarrow> FlowExporter" where
  "with_address e r = r\<lparr>fe_AddressText := fe_AddressText e, fe_Address := map_option (\<lambda>(a, _). Unmap a) (ParseAddr (fe_AddressText e))\<rparr>"

definition address_taken :: "FlowExporter \<Rightarrow> int \<Rightarrow> flow_db \<Rightarrow> bool" where
  "address_taken e self db \<longleftrightarrow> list_ex (\<lambda>(i, r). i \<noteq> self \<and> fe_AddressText r = fe_AddressText e) (fd_exporters db)"

definition GetFlowExporter :: "flow_db \<Rightarrow> int \<Rightarrow> FlowExporter option" where
  "GetFlowExporter db i = gm_get (fd_exporters db) i"

definition CreateFlowExporter :: "string list \<Rightarrow> time \<Rightarrow> FlowExporter \<Rightarrow> flow_db \<Rightarrow> query_error + int \<times> flow_db" where
  "CreateFlowExporter devs now e db =
    (let i = fd_exporterSeq db + 1;
         r = with_address e \<lparr>fe_ID = i, fe_Name = fe_Name e, fe_AddressText = '''', fe_Address = None, fe_Kind = fe_Kind e, fe_DeviceID = fe_DeviceID e,
           fe_Enabled = fe_Enabled e, fe_Auto = fe_Auto e, fe_SamplingOverride = fe_SamplingOverride e,
           fe_NATAddresses = parseAddrCSV (formatAddrCSV (fe_NATAddresses e)), fe_LastSeen = zero_time, fe_Protocol = '''', fe_SamplingRate = 1,
           fe_Datagrams = 0, fe_Flows = 0, fe_Bytes = 0, fe_DecodeErrors = 0, fe_TemplateMisses = 0, fe_SeqLost = 0, fe_ClockSkewMs = 0,
           fe_LastError = Inl '''', fe_LastErrorAt = zero_time, fe_CreatedAt = fromUnix (unixOf now)\<rparr>
     in if address_taken e 0 db then Inl ErrFlowExporterExists
        else if \<not> device_ref_ok devs (fe_DeviceID e) then Inl ErrConstraint
        else Inr (i, db\<lparr>fd_exporters := gm_put i r (fd_exporters db), fd_exporterSeq := i\<rparr>))"

definition UpdateFlowExporterConfig :: "string list \<Rightarrow> FlowExporter \<Rightarrow> flow_db \<Rightarrow> query_error + flow_db" where
  "UpdateFlowExporterConfig devs e db = (case gm_get (fd_exporters db) (fe_ID e) of
     None \<Rightarrow> Inl ErrFlowNotFound
   | Some r \<Rightarrow> if address_taken e (fe_ID e) db then Inl ErrFlowExporterExists
       else if \<not> device_ref_ok devs (fe_DeviceID e) then Inl ErrConstraint
       else Inr (db\<lparr>fd_exporters := gm_put (fe_ID e) (with_address e (r\<lparr>fe_Name := fe_Name e, fe_Kind := fe_Kind e, fe_DeviceID := fe_DeviceID e,
         fe_Enabled := fe_Enabled e, fe_SamplingOverride := fe_SamplingOverride e,
         fe_NATAddresses := parseAddrCSV (formatAddrCSV (fe_NATAddresses e))\<rparr>)) (fd_exporters db)\<rparr>))"

text \<open>Deleting an exporter cascades to its interfaces, points and templates; its fact rows stay.\<close>

definition DeleteFlowExporter :: "int \<Rightarrow> flow_db \<Rightarrow> query_error + flow_db" where
  "DeleteFlowExporter i db = (if \<not> gm_has (fd_exporters db) i then Inl ErrFlowNotFound
     else Inr (db\<lparr>fd_exporters := gm_del i (fd_exporters db), fd_ifaces := filter (\<lambda>((x, _), _). x \<noteq> i) (fd_ifaces db),
       fd_templates := filter (\<lambda>((x, _), _). x \<noteq> i) (fd_templates db), fd_points := filter (\<lambda>(_, p). fp_ExporterID p \<noteq> i) (fd_points db)\<rparr>))"

definition AddFlowExporterStatus :: "statusDelta \<Rightarrow> flow_db \<Rightarrow> flow_db" where
  "AddFlowExporterStatus d db = (case gm_get (fd_exporters db) (sd_id d) of None \<Rightarrow> db
     | Some r \<Rightarrow>
       (let ls = unixOf (sd_LastSeen d); lea = unixOf (sd_LastErrorAt d);
            r' = r\<lparr>fe_LastSeen := (if ls > 0 then fromUnix ls else fe_LastSeen r),
                   fe_Protocol := (if sd_Protocol d \<noteq> '''' then sd_Protocol d else fe_Protocol r),
                   fe_SamplingRate := (if sd_SamplingRate d > 0 then sd_SamplingRate d else fe_SamplingRate r),
                   fe_Datagrams := fe_Datagrams r + sd_Datagrams d, fe_Flows := fe_Flows r + sd_Flows d, fe_Bytes := fe_Bytes r + sd_Bytes d,
                   fe_DecodeErrors := fe_DecodeErrors r + sd_DecodeErrors d, fe_TemplateMisses := fe_TemplateMisses r + sd_TemplateMisses d,
                   fe_SeqLost := fe_SeqLost r + sd_SeqLost d, fe_ClockSkewMs := sd_ClockSkewMs d,
                   fe_LastError := (if lea > 0 then sd_LastError d else fe_LastError r),
                   fe_LastErrorAt := (if lea > 0 then fromUnix lea else fe_LastErrorAt r)\<rparr>
        in db\<lparr>fd_exporters := gm_put (sd_id d) r' (fd_exporters db)\<rparr>))"

text \<open>Rows of the device sync, touches by the collector and settings by an admin; ifIndex 0 is skipped by the first two.\<close>

definition new_iface :: "int \<Rightarrow> u32 \<Rightarrow> string \<Rightarrow> FlowIface" where
  "new_iface e i src = \<lparr>fi_ExporterID = e, fi_IfIndex = i, fi_Name = '''', fi_Type = '''', fi_VLANID = 0, fi_Parent = '''', fi_Role = '''',
     fi_Source = src, fi_Hint = '''', fi_FirstSeen = zero_time, fi_LastSeen = zero_time\<rparr>"

definition UpsertDeviceFlowIfaces :: "int \<Rightarrow> FlowIface list \<Rightarrow> flow_db \<Rightarrow> flow_db" where
  "UpsertDeviceFlowIfaces e ifs db = (if \<not> gm_has (fd_exporters db) e then db else db\<lparr>fd_ifaces := fold (\<lambda>f t. if fi_IfIndex f = 0 then t
     else gm_put (e, fi_IfIndex f) (case gm_get t (e, fi_IfIndex f) of
         None \<Rightarrow> (new_iface e (fi_IfIndex f) ''device'')\<lparr>fi_Name := fi_Name f, fi_Type := fi_Type f, fi_VLANID := fi_VLANID f, fi_Parent := fi_Parent f\<rparr>
       | Some r \<Rightarrow> r\<lparr>fi_Type := fi_Type f, fi_VLANID := fi_VLANID f, fi_Parent := fi_Parent f,
                    fi_Name := (if fi_Source r = ''manual'' then fi_Name r else fi_Name f),
                    fi_Source := (if fi_Source r = ''manual'' then ''manual'' else ''device'')\<rparr>) t) ifs (fd_ifaces db)\<rparr>)"

definition touch_iface :: "int \<Rightarrow> int \<Rightarrow> u32 \<times> string \<Rightarrow> (int \<times> u32, FlowIface) gomap \<Rightarrow> (int \<times> u32, FlowIface) gomap" where
  "touch_iface e ts sn t = (let (i, hnt) = sn
     in if i = 0 then t
        else gm_put (e, i) (case gm_get t (e, i) of
           None \<Rightarrow> (new_iface e i ''learned'')\<lparr>fi_Hint := hnt, fi_FirstSeen := fromUnix ts, fi_LastSeen := fromUnix ts\<rparr>
         | Some r \<Rightarrow> r\<lparr>fi_LastSeen := fromUnix (max (unixOf (fi_LastSeen r)) ts),
                      fi_FirstSeen := (if unixOf (fi_FirstSeen r) = 0 then fromUnix ts else fi_FirstSeen r),
                      fi_Hint := (if hnt \<noteq> '''' then hnt else fi_Hint r)\<rparr>) t)"

definition TouchFlowIfaces :: "int \<Rightarrow> (u32 \<times> string) list \<Rightarrow> time \<Rightarrow> flow_db \<Rightarrow> flow_db" where
  "TouchFlowIfaces e seens seenAt db = (if \<not> gm_has (fd_exporters db) e then db
     else db\<lparr>fd_ifaces := fold (touch_iface e (unixOf seenAt)) seens (fd_ifaces db)\<rparr>)"

definition SetFlowIfaceManual :: "int \<Rightarrow> u32 \<Rightarrow> string \<Rightarrow> string \<Rightarrow> flow_db \<Rightarrow> flow_db" where
  "SetFlowIfaceManual e i nm role db = (let src = (if nm = '''' \<and> role = '''' then ''learned'' else ''manual'')
     in if \<not> gm_has (fd_exporters db) e then db else db\<lparr>fd_ifaces := gm_put (e, i) ((case gm_get (fd_ifaces db) (e, i) of None \<Rightarrow> new_iface e i src | Some r \<Rightarrow> r)
       \<lparr>fi_Name := nm, fi_Role := role, fi_Source := src\<rparr>) (fd_ifaces db)\<rparr>)"

definition DeleteOldLearnedFlowIfaces :: "time \<Rightarrow> flow_db \<Rightarrow> flow_db \<times> int" where
  "DeleteOldLearnedFlowIfaces cutoff db =
    (let (old, keep) = partition (\<lambda>(_, r). fi_Source r = ''learned'' \<and> unixOf (fi_LastSeen r) < unixOf cutoff) (fd_ifaces db)
     in (db\<lparr>fd_ifaces := keep\<rparr>, int (length old)))"

definition tmpl_id :: "FlowTemplate \<Rightarrow> int \<times> TemplateKey" where
  "tmpl_id t = (ft_ExporterID t, tr_Key (ft_record t))"

definition UpsertFlowTemplate :: "FlowTemplate \<Rightarrow> flow_db \<Rightarrow> flow_db" where
  "UpsertFlowTemplate t db = (if \<not> gm_has (fd_exporters db) (ft_ExporterID t) then db
     else db\<lparr>fd_templates := gm_put (tmpl_id t) (t\<lparr>ft_UpdatedAt := fromUnix (unixOf (ft_UpdatedAt t))\<rparr>) (fd_templates db)\<rparr>)"

text \<open>\<open>ORDER BY updated_at DESC, version, obs_domain, template_id\<close> over the templates of an exporter.\<close>

definition templates_of :: "int \<Rightarrow> flow_db \<Rightarrow> FlowTemplate list" where
  "templates_of e db =
    sort_key (\<lambda>t. - unixOf (ft_UpdatedAt t)) (sort_key (\<lambda>t. tr_Version (ft_record t)) (sort_key (\<lambda>t. tr_ObsDomain (ft_record t))
      (sort_key (\<lambda>t. tr_ID (ft_record t)) (map snd (filter (\<lambda>((x, _), _). x = e) (fd_templates db))))))"

definition LoadFlowTemplates :: "int \<Rightarrow> time \<Rightarrow> int \<Rightarrow> flow_db \<Rightarrow> FlowTemplate list" where
  "LoadFlowTemplates e newerThan limit db =
    (let l = filter (\<lambda>t. unixOf (ft_UpdatedAt t) > unixOf newerThan) (templates_of e db)
     in if limit \<le> 0 then l else take (nat limit) l)"

definition DeleteFlowTemplates :: "int \<Rightarrow> flow_db \<Rightarrow> flow_db" where
  "DeleteFlowTemplates e db = db\<lparr>fd_templates := filter (\<lambda>((x, _), _). x \<noteq> e) (fd_templates db)\<rparr>"

definition DeleteFlowTemplateKeys :: "int \<Rightarrow> TemplateKey list \<Rightarrow> flow_db \<Rightarrow> flow_db" where
  "DeleteFlowTemplateKeys e ks db = db\<lparr>fd_templates := fold (\<lambda>k. gm_del (e, k)) ks (fd_templates db)\<rparr>"

definition TrimFlowTemplates :: "int \<Rightarrow> int \<Rightarrow> flow_db \<Rightarrow> flow_db" where
  "TrimFlowTemplates e keep db =
    (let ks = map tmpl_id (take (nat (max keep 0)) (templates_of e db))
     in db\<lparr>fd_templates := filter (\<lambda>(k, _). fst k = e \<longrightarrow> k \<in> set ks) (fd_templates db)\<rparr>)"

definition DeleteOldFlowTemplates :: "time \<Rightarrow> flow_db \<Rightarrow> flow_db \<times> int" where
  "DeleteOldFlowTemplates cutoff db =
    (let (old, keep) = partition (\<lambda>(_, t). unixOf (ft_UpdatedAt t) < unixOf cutoff) (fd_templates db)
     in (db\<lparr>fd_templates := keep\<rparr>, int (length old)))"

end
