(* ===== verification/Flow_Store_Props.thy ===== *)
theory Flow_Store_Props
  imports Flow_Store
begin

text \<open>
  The flow tables keep their totals: minute upserts add, an hourly rollup conserves every interface pair's bytes,
  packets and flows, never violates the primary key and is idempotent; addresses read back as stored.
\<close>

subsection \<open>Addresses\<close>

lemma unix_time_Unix [simp]: "unix (time_Unix h 0) = h"
  by (simp add: unix_def time_Unix_def seconds_def)

lemma FlowBlobIP_IPBlob: "addr_wf a \<Longrightarrow> FlowBlobIP (FlowIPBlob a) = Unmap a"
  by (cases a) (auto simp: FlowIPBlob_def FlowBlobIP_def AddrFrom16_def)

lemma FlowIPBlob_Unmap [simp]: "FlowIPBlob (Unmap a) = FlowIPBlob a"
  by (cases a) (auto simp: FlowIPBlob_def split: if_splits)

lemma FlowBlobIP_wf: "addr_wf (FlowBlobIP b)" "Unmap (FlowBlobIP b) = FlowBlobIP b"
  by (simp_all add: FlowBlobIP_def AddrFrom16_def)

subsection \<open>Sums over a table\<close>

definition gm_ksum :: "('k \<Rightarrow> 'v \<Rightarrow> int) \<Rightarrow> ('k, 'v) gomap \<Rightarrow> int" where
  "gm_ksum f m = sum_list (map (\<lambda>(k, v). f k v) m)"

lemma gm_ksum_simps [simp]: "gm_ksum f [] = 0" "gm_ksum f (x # m) = f (fst x) (snd x) + gm_ksum f m"
  "gm_ksum f (xs @ ys) = gm_ksum f xs + gm_ksum f ys"
  by (simp_all add: gm_ksum_def split_beta)

lemma gm_ksum_put:
  "gm_ksum f (gm_put k v m) = gm_ksum f m + f k v - (case gm_get m k of Some w \<Rightarrow> f k w | None \<Rightarrow> 0)"
  by (induction m) (auto simp: gm_put_def gm_get_def split: option.splits)

lemma gm_ksum_nonneg: "(\<And>k v. (k, v) \<in> set m \<Longrightarrow> 0 \<le> f k v) \<Longrightarrow> 0 \<le> gm_ksum f m"
  by (induction m) (auto simp: add_nonneg_nonneg)

lemma gm_ksum_entry: "(\<And>k v. (k, v) \<in> set m \<Longrightarrow> 0 \<le> f k v) \<Longrightarrow> (k, v) \<in> set m \<Longrightarrow> f k v \<le> gm_ksum f m"
proof (induction m)
  case (Cons x m)
  have "0 \<le> gm_ksum f m" using Cons.prems(1) by (intro gm_ksum_nonneg) simp
  then show ?case using Cons by (cases x) (auto intro: add_increasing)
qed simp

subsection \<open>Minute upserts add\<close>

definition row_sums :: "FlowRow \<Rightarrow> flowSums" where
  "row_sums r = \<lparr>fs_bytes = fr_Bytes r, fs_packets = fr_Packets r, fs_flows = fr_Flows r\<rparr>"

lemma upsert_row_sum:
  assumes "\<And>a s. sel \<lparr>fs_bytes = fs_bytes a + fs_bytes s, fs_packets = fs_packets a + fs_packets s, fs_flows = fs_flows a + fs_flows s\<rparr> = sel a + sel s"
  shows "gm_ksum (\<lambda>k v. if P k then sel v else 0) (upsert_row r t)
    = gm_ksum (\<lambda>k v. if P k then sel v else 0) t + (if P (row_key r) then sel (row_sums r) else 0)"
  using assms [of _ "row_sums r"] by (auto simp: upsert_row_def gm_ksum_put row_sums_def split: option.splits)

lemma upsert_rows_sum:
  assumes "\<And>a s. sel \<lparr>fs_bytes = fs_bytes a + fs_bytes s, fs_packets = fs_packets a + fs_packets s, fs_flows = fs_flows a + fs_flows s\<rparr> = sel a + sel s"
  shows "gm_ksum (\<lambda>k v. if P k then sel v else 0) (fold upsert_row rows t)
    = gm_ksum (\<lambda>k v. if P k then sel v else 0) t + sum_list (map (\<lambda>r. if P (row_key r) then sel (row_sums r) else 0) rows)"
  by (induction rows arbitrary: t) (simp_all add: upsert_row_sum [of sel, OF assms])

subsection \<open>The rollup\<close>

locale sum_part =
  fixes sel :: "flowSums \<Rightarrow> int"
  assumes sel_add: "sel (sums_add a s) = wrap64 (sel a + sel s)" and sel_zero: "sel zero_sums = 0"
begin

definition wsum :: "('k \<Rightarrow> bool) \<Rightarrow> ('k, flowSums) gomap \<Rightarrow> int" where
  "wsum P m = gm_ksum (\<lambda>k v. if P k then sel v else 0) m"

definition nonneg :: "('k, flowSums) gomap \<Rightarrow> bool" where
  "nonneg m \<longleftrightarrow> gm_all (\<lambda>v. 0 \<le> sel v) m"

lemma wsum_simps [simp]: "wsum P [] = 0" "wsum P (x # m) = (if P (fst x) then sel (snd x) else 0) + wsum P m"
  "wsum P (xs @ ys) = wsum P xs + wsum P ys"
  by (simp_all add: wsum_def)

lemma wsum_nonneg: "nonneg m \<Longrightarrow> 0 \<le> wsum P m"
  unfolding wsum_def by (rule gm_ksum_nonneg) (auto simp: nonneg_def gm_all_def)

lemma bump_sum:
  assumes "nonneg m" and "0 \<le> sel s" and "wsum (\<lambda>_. True) m + sel s \<le> maxInt64"
  shows "nonneg (bump k s m) \<and> wsum P (bump k s m) = wsum P m + (if P k then sel s else 0)"
proof -
  define a where "a = (case gm_get m k of Some a \<Rightarrow> a | None \<Rightarrow> zero_sums)"
  have a: "0 \<le> sel a" "sel a \<le> wsum (\<lambda>_. True) m"
  proof -
    show "0 \<le> sel a" using assms(1) by (auto simp: a_def sel_zero nonneg_def dest: gm_all_get split: option.splits)
    show "sel a \<le> wsum (\<lambda>_. True) m"
    proof (cases "gm_get m k")
      case None
      then show ?thesis using wsum_nonneg [OF assms(1)] by (simp add: a_def sel_zero)
    next
      case (Some v)
      then have "(k, v) \<in> set m" by (simp add: gm_get_def map_of_SomeD)
      then have "(\<lambda>_. sel) k v \<le> gm_ksum (\<lambda>_. sel) m" using assms(1) by (intro gm_ksum_entry) (auto simp: nonneg_def gm_all_def)
      then show ?thesis using Some by (simp add: a_def wsum_def)
    qed
  qed
  have e: "sel (sums_add a s) = sel a + sel s" using a assms(2,3) by (simp add: sel_add wrap64_id int64_def maxInt64_def)
  have "nonneg (bump k s m)"
    unfolding bump_def a_def [symmetric] using assms(1,2) a(1) e by (simp add: nonneg_def gm_all_put)
  moreover have "wsum P (bump k s m) = wsum P m + (if P k then sel s else 0)"
    using e by (auto simp: bump_def wsum_def gm_ksum_put sel_zero simp flip: a_def) (auto simp: a_def sel_zero split: option.splits)
  ultimately show ?thesis by blast
qed

text \<open>The scan of the hour's rows: what a pair has in the two maps is what its rows have.\<close>

definition maps_sum :: "(flowPair \<Rightarrow> bool) \<Rightarrow> rollup_maps \<Rightarrow> int" where
  "maps_sum P co = wsum (\<lambda>k. P (gk_pair k)) (fst co) + wsum P (snd co)"

definition part_sum :: "(flowPair \<Rightarrow> bool) \<Rightarrow> (flow_key \<times> flowSums) list \<Rightarrow> int" where
  "part_sum P rs = wsum (\<lambda>k. P (tk_inIf k, tk_outIf k)) rs"

lemma gk_pair_agg [simp]: "gk_pair (agg_key k) = (tk_inIf k, tk_outIf k)"
  by (simp add: gk_pair_def agg_key_def Let_def split_beta)

lemma maps_sum_split: "nonneg (fst co) \<Longrightarrow> nonneg (snd co) \<Longrightarrow>
    wsum (\<lambda>_. True) (fst co) \<le> maps_sum (\<lambda>_. True) co \<and> wsum (\<lambda>_. True) (snd co) \<le> maps_sum (\<lambda>_. True) co"
  using wsum_nonneg [of "fst co" "\<lambda>_. True"] wsum_nonneg [of "snd co" "\<lambda>_. True"] by (simp add: maps_sum_def)

lemma rollup_scan_sum:
  assumes "nonneg (fst co)" "nonneg (snd co)" and "0 \<le> sel (snd r)" and "maps_sum (\<lambda>_. True) co + sel (snd r) \<le> maxInt64"
  shows "nonneg (fst (rollup_scan r co)) \<and> nonneg (snd (rollup_scan r co))
    \<and> maps_sum P (rollup_scan r co) = maps_sum P co + (if P (tk_inIf (fst r), tk_outIf (fst r)) then sel (snd r) else 0)"
proof -
  obtain k s where r: "r = (k, s)" by (cases r)
  obtain cv ot where co: "co = (cv, ot)" by (cases co)
  have b: "wsum (\<lambda>_. True) cv + sel s \<le> maxInt64" "wsum (\<lambda>_. True) ot + sel s \<le> maxInt64"
    using maps_sum_split [OF assms(1,2)] assms(4) by (simp_all add: r co)
  show ?thesis
    using bump_sum [of cv s "agg_key k" "\<lambda>k. P (gk_pair k)", OF _ _ b(1)] bump_sum [of ot s "(tk_inIf k, tk_outIf k)" P, OF _ _ b(2)] assms
    by (auto simp: rollup_scan_def Let_def r co maps_sum_def)
qed

lemma rollup_scans_sum:
  assumes "nonneg (fst co)" "nonneg (snd co)" and "nonneg rs" and "maps_sum (\<lambda>_. True) co + part_sum (\<lambda>_. True) rs \<le> maxInt64"
  shows "nonneg (fst (fold rollup_scan rs co)) \<and> nonneg (snd (fold rollup_scan rs co))
    \<and> maps_sum P (fold rollup_scan rs co) = maps_sum P co + part_sum P rs"
  using assms
proof (induction rs arbitrary: co)
  case (Cons r rs)
  have r: "0 \<le> sel (snd r)" "nonneg rs" using Cons.prems(3) by (simp_all add: nonneg_def gm_all_def)
  have s: "maps_sum (\<lambda>_. True) co + sel (snd r) \<le> maxInt64"
    using Cons.prems(4) wsum_nonneg [OF r(2), of "\<lambda>_. True"] by (simp add: part_sum_def)
  note S = rollup_scan_sum [OF Cons.prems(1,2) r(1) s]
  have "maps_sum (\<lambda>_. True) (rollup_scan r co) + part_sum (\<lambda>_. True) rs \<le> maxInt64"
    using S [of "\<lambda>_. True"] Cons.prems(4) by (simp add: part_sum_def)
  from Cons.IH [OF _ _ r(2) this] S [of P] show ?case by (simp add: part_sum_def)
qed (simp add: part_sum_def)

lemma wsum_mset: "mset xs = mset ys \<Longrightarrow> wsum P xs = wsum P ys"
proof -
  assume m: "mset xs = mset ys"
  have "wsum P l = sum_mset (image_mset (\<lambda>(k, v). if P k then sel v else 0) (mset l))" for l
    using sum_mset_sum_list [of "map (\<lambda>(k, v). if P k then sel v else 0) l"] by (simp add: wsum_def gm_ksum_def)
  then show ?thesis using m by simp
qed

lemma wsum_concat_mset: "(\<Sum>p\<leftarrow>ps. mset (h p)) = mset m \<Longrightarrow> wsum P (concat (map h ps)) = wsum P m"
  by (rule wsum_mset) (simp add: mset_concat comp_def)

lemma others_sum:
  assumes "nonneg l" and "nonneg ot" and "wsum (\<lambda>_. True) l + wsum (\<lambda>_. True) ot \<le> maxInt64"
  shows "nonneg (fold (\<lambda>kv. bump (gk_pair (fst kv)) (snd kv)) l ot)
    \<and> wsum P (fold (\<lambda>kv. bump (gk_pair (fst kv)) (snd kv)) l ot) = wsum P ot + wsum (\<lambda>k. P (gk_pair k)) l"
  using assms
proof (induction l arbitrary: ot)
  case (Cons x l)
  have x: "0 \<le> sel (snd x)" "nonneg l" using Cons.prems(1) by (simp_all add: nonneg_def gm_all_def)
  have s: "wsum (\<lambda>_. True) ot + sel (snd x) \<le> maxInt64" using Cons.prems(3) wsum_nonneg [OF x(2), of "\<lambda>_. True"] by simp
  note B = bump_sum [OF Cons.prems(2) x(1) s, of "gk_pair (fst x)"]
  have "wsum (\<lambda>_. True) l + wsum (\<lambda>_. True) (bump (gk_pair (fst x)) (snd x) ot) \<le> maxInt64"
    using B [of "\<lambda>_. True"] Cons.prems(3) by simp
  from Cons.IH [OF x(2) _ this] B [of P] show ?case by simp
qed simp

lemma wsum_take_drop:
  "wsum P (concat (map (\<lambda>p. take n (h p)) ps)) + wsum P (concat (map (\<lambda>p. drop n (h p)) ps)) = wsum P (concat (map h ps))"
proof -
  have "mset (concat (map (\<lambda>p. take n (h p)) ps) @ concat (map (\<lambda>p. drop n (h p)) ps)) = mset (concat (map h ps))"
    using mset_concat_take_drop [of n h ps] by (simp add: mset_concat comp_def)
  from wsum_mset [OF this, of P] show ?thesis by simp
qed

lemma pair_sorted_mset: "(\<Sum>p\<leftarrow>rollup_pairs cv. mset (pair_sorted cv p)) = mset cv"
  using mset_group [of "rollup_pairs cv" "\<lambda>kv. gk_pair (fst kv)" cv]
  by (simp add: rollup_pairs_def pair_sorted_def)

lemma kept_others_sum:
  assumes "nonneg cv" and "nonneg ot" and "wsum (\<lambda>_. True) cv + wsum (\<lambda>_. True) ot \<le> maxInt64"
  shows "nonneg (rollup_others topN cv ot) \<and>
    wsum (\<lambda>k. P (gk_pair k)) (rollup_kept topN cv) + wsum P (rollup_others topN cv ot) = maps_sum P (cv, ot)"
proof -
  let ?d = "concat (map (\<lambda>p. drop topN (pair_sorted cv p)) (rollup_pairs cv))"
  have tot: "wsum Q (rollup_kept topN cv) + wsum Q ?d = wsum Q cv" for Q
    unfolding rollup_kept_def wsum_take_drop by (rule wsum_concat_mset) (rule pair_sorted_mset)
  have m: "mset (concat (map (pair_sorted cv) (rollup_pairs cv))) = mset cv" by (simp add: mset_concat comp_def pair_sorted_mset)
  then have sub: "set (concat (map (pair_sorted cv) (rollup_pairs cv))) = set cv" by (rule mset_eq_setD)
  have "set ?d \<subseteq> set cv" "set (rollup_kept topN cv) \<subseteq> set cv"
    using sub by (auto simp: rollup_kept_def dest!: in_set_dropD in_set_takeD)
  then have d: "nonneg ?d" "nonneg (rollup_kept topN cv)" using assms(1) by (auto simp: nonneg_def gm_all_def)
  have "wsum (\<lambda>_. True) ?d + wsum (\<lambda>_. True) ot \<le> maxInt64"
    using tot [of "\<lambda>_. True"] wsum_nonneg [OF d(2), of "\<lambda>_. True"] assms(3) by simp
  from others_sum [OF d(1) assms(2) this, of P] tot [of "\<lambda>k. P (gk_pair k)"] show ?thesis
    by (simp add: rollup_others_def maps_sum_def)
qed

lemma kept_rows_sum: "part_sum P (map (kept_row e from) l) = wsum (\<lambda>k. P (gk_pair k)) l"
  by (induction l) (simp_all add: part_sum_def kept_row_def gk_pair_def split_beta)

lemma other_rows_sum: "part_sum P (map (other_hour_row e from) l) = wsum P l"
  by (induction l) (simp_all add: part_sum_def other_hour_row_def)

lemma rolled_rows_sum:
  assumes "nonneg (hour_rows e from t)" and "part_sum (\<lambda>_. True) (hour_rows e from t) \<le> maxInt64"
  shows "part_sum P (rolled_rows e from topN t) = part_sum P (hour_rows e from t)"
proof -
  obtain cv ot where f: "fold rollup_scan (hour_rows e from t) ([], []) = (cv, ot)" by (metis prod.exhaust)
  have nil: "nonneg (fst ([], []))" "nonneg (snd ([], []))" by (simp_all add: nonneg_def)
  have z: "maps_sum (\<lambda>_. True) ([], []) + part_sum (\<lambda>_. True) (hour_rows e from t) \<le> maxInt64" using assms(2) by (simp add: maps_sum_def)
  note S = rollup_scans_sum [OF _ _ assms(1) z, simplified nonneg_def, simplified, folded nonneg_def, unfolded f]
  have n: "nonneg cv" "nonneg ot" using S [of "\<lambda>_. True"] by (simp_all add: nonneg_def)
  have b: "wsum (\<lambda>_. True) cv + wsum (\<lambda>_. True) ot \<le> maxInt64" using S [of "\<lambda>_. True"] assms(2) by (simp add: maps_sum_def)
  have "part_sum P (rolled_rows e from topN t) = part_sum P (map (kept_row e from) (rollup_kept topN cv)) + part_sum P (map (other_hour_row e from) (rollup_others topN cv ot))"
    by (simp add: rolled_rows_def f part_sum_def)
  also have "\<dots> = maps_sum P (cv, ot)" using kept_others_sum [OF n b, of topN P] by (simp add: kept_rows_sum other_rows_sum)
  also have "\<dots> = part_sum P (hour_rows e from t)" using S [of P] by (simp add: maps_sum_def)
  finally show ?thesis .
qed

end

interpretation sb: sum_part fs_bytes by unfold_locales (simp_all add: sums_add_def zero_sums_def)
interpretation sp: sum_part fs_packets by unfold_locales (simp_all add: sums_add_def zero_sums_def)
interpretation sf: sum_part fs_flows by unfold_locales (simp_all add: sums_add_def zero_sums_def)

subsection \<open>The rollup never collides\<close>

definition canon :: "flowAggKey \<Rightarrow> bool" where
  "canon k \<longleftrightarrow> (\<exists>a b. (gk_src k, gk_srcOK k) = addr16 a \<and> (gk_dst k, gk_dstOK k) = addr16 b \<and> addr_wf a \<and> Unmap a = a \<and> addr_wf b \<and> Unmap b = b)
     \<and> (gk_srcOK k \<or> gk_dstOK k)"

lemma blob_addr16:
  assumes "(s, ok) = addr16 a" and "addr_wf a" and "Unmap a = a"
  shows "FlowIPBlob (flow_keyAddr s ok) = FlowIPBlob a" and "addr16 (FlowBlobIP (FlowIPBlob (flow_keyAddr s ok))) = (s, ok)"
    and "ok \<longleftrightarrow> FlowIPBlob (flow_keyAddr s ok) \<noteq> []"
proof -
  have k: "flow_keyAddr s ok = a"
    using assms Unmap_AddrFrom16_As16 [of a] by (cases a) (auto simp: addr16_def flow_keyAddr_def)
  then show "FlowIPBlob (flow_keyAddr s ok) = FlowIPBlob a" by simp
  show "addr16 (FlowBlobIP (FlowIPBlob (flow_keyAddr s ok))) = (s, ok)" using assms k by (simp add: FlowBlobIP_IPBlob)
  show "ok \<longleftrightarrow> FlowIPBlob (flow_keyAddr s ok) \<noteq> []" unfolding k
    using assms by (cases a) (auto simp: addr16_def FlowIPBlob_def split: if_splits)
qed

lemma canon_agg: "gk_srcOK (agg_key k) \<or> gk_dstOK (agg_key k) \<Longrightarrow> canon (agg_key k)"
  unfolding canon_def by (rule conjI, rule exI [of _ "FlowBlobIP (tk_src k)"], rule exI [of _ "FlowBlobIP (tk_dst k)"])
    (auto simp: agg_key_def Let_def FlowBlobIP_wf split: prod.splits)

lemma kept_row_key:
  assumes "canon k" shows "agg_key (fst (kept_row e from (k, s))) = k" and "tk_src (fst (kept_row e from (k, s))) \<noteq> [] \<or> tk_dst (fst (kept_row e from (k, s))) \<noteq> []"
proof -
  obtain a b where a: "(gk_src k, gk_srcOK k) = addr16 a" "addr_wf a" "Unmap a = a"
    and b: "(gk_dst k, gk_dstOK k) = addr16 b" "addr_wf b" "Unmap b = b" and ok: "gk_srcOK k \<or> gk_dstOK k"
    using assms by (auto simp: canon_def)
  note A = blob_addr16 [OF a] and B = blob_addr16 [OF b]
  show "agg_key (fst (kept_row e from (k, s))) = k" by (simp add: agg_key_def kept_row_def A(2) B(2))
  show "tk_src (fst (kept_row e from (k, s))) \<noteq> [] \<or> tk_dst (fst (kept_row e from (k, s))) \<noteq> []"
    using ok A(3) B(3) by (simp add: kept_row_def)
qed

definition maps_ok :: "rollup_maps \<Rightarrow> bool" where
  "maps_ok co \<longleftrightarrow> gm_wf (fst co) \<and> gm_wf (snd co) \<and> (\<forall>k \<in> fst ` set (fst co). canon k)"

lemma gm_wf_bump: "gm_wf m \<Longrightarrow> gm_wf (bump k s m)"
  by (simp add: bump_def gm_wf_intros)

lemma keys_bump: "fst ` set (bump k s m) = insert k (fst ` set m)"
  by (simp add: bump_def gm_put_def AList.dom_update)

lemma maps_ok_scan: "maps_ok co \<Longrightarrow> maps_ok (rollup_scan r co)"
proof -
  assume m: "maps_ok co"
  obtain k s cv ot where c: "r = (k, s)" "co = (cv, ot)" by (metis prod.exhaust)
  have "\<forall>k' \<in> insert (agg_key k) (fst ` set cv). canon k'" if "gk_srcOK (agg_key k) \<or> gk_dstOK (agg_key k)"
    using m canon_agg [OF that] by (simp add: maps_ok_def c)
  then show ?thesis using m unfolding c rollup_scan_def maps_ok_def Let_def by (simp add: gm_wf_bump keys_bump del: ball_simps)
qed

lemma maps_ok_scans: "maps_ok co \<Longrightarrow> maps_ok (fold rollup_scan rs co)"
  by (induction rs arbitrary: co) (simp_all add: maps_ok_scan)

lemma gm_wf_others: "gm_wf ot \<Longrightarrow> gm_wf (rollup_others topN cv ot)"
proof -
  have "gm_wf o' \<Longrightarrow> gm_wf (fold (\<lambda>kv. bump (gk_pair (fst kv)) (snd kv)) l o')" for l o'
    by (induction l arbitrary: o') (simp_all add: gm_wf_bump)
  then show "gm_wf ot \<Longrightarrow> gm_wf (rollup_others topN cv ot)" by (simp add: rollup_others_def)
qed

lemma concat_pair_sorted_mset: "mset (concat (map (pair_sorted cv) (rollup_pairs cv))) = mset cv"
  using sb.pair_sorted_mset [of cv] by (simp add: mset_concat comp_def)

lemma kept_mset: "\<exists>d. mset (rollup_kept topN cv) + d = mset cv"
proof
  show "mset (rollup_kept topN cv) + mset (concat (map (\<lambda>p. drop topN (pair_sorted cv p)) (rollup_pairs cv))) = mset cv"
    using mset_concat_take_drop [of topN "pair_sorted cv" "rollup_pairs cv"] sb.pair_sorted_mset [of cv] by (simp add: rollup_kept_def)
qed

lemma kept_distinct: assumes "gm_wf cv" shows "distinct (map fst (rollup_kept topN cv))" and "set (rollup_kept topN cv) \<subseteq> set cv"
proof -
  obtain d where d: "mset (rollup_kept topN cv) + d = mset cv" using kept_mset by blast
  have "image_mset fst (mset (rollup_kept topN cv)) \<subseteq># image_mset fst (mset cv)"
    unfolding d [symmetric] by simp
  then have "mset (map fst (rollup_kept topN cv)) \<subseteq># mset (map fst cv)" by simp
  moreover have "\<And>x. count (mset (map fst cv)) x \<le> 1" using assms by (simp add: gm_wf_def distinct_count_atmost_1)
  ultimately have "\<And>x. count (mset (map fst (rollup_kept topN cv))) x \<le> 1" by (meson mset_subset_eq_count order_trans)
  then show "distinct (map fst (rollup_kept topN cv))" unfolding distinct_count_atmost_1
    by (metis count_eq_zero_iff le_neq_implies_less less_one set_mset_mset)
  show "set (rollup_kept topN cv) \<subseteq> set cv" using arg_cong [OF d, of set_mset] by auto
qed

subsection \<open>Inserting an hour\<close>

lemma distinct_map_part: "distinct (map f xs) \<Longrightarrow> distinct xs"
  by (simp add: distinct_map)

lemma rolled_distinct: "distinct (map fst (rolled_rows e from topN t))"
proof -
  obtain cv ot where f: "fold rollup_scan (hour_rows e from t) ([], []) = (cv, ot)" by (metis prod.exhaust)
  have "maps_ok ([], [])" by (simp add: maps_ok_def)
  then have ok: "maps_ok (cv, ot)" using maps_ok_scans f by metis
  have cn: "canon (fst kv)" if "kv \<in> set (rollup_kept topN cv)" for kv
    using that kept_distinct(2) [of cv topN] ok by (auto simp: maps_ok_def)
  have "map (\<lambda>kv. agg_key (fst (kept_row e from kv))) (rollup_kept topN cv) = map fst (rollup_kept topN cv)"
    using cn kept_row_key(1) by (intro map_cong) (auto simp: kept_row_key(1))
  moreover have "distinct (map fst (rollup_kept topN cv))" using kept_distinct(1) [of cv topN] ok by (simp add: maps_ok_def)
  ultimately have "distinct (map agg_key (map (\<lambda>kv. fst (kept_row e from kv)) (rollup_kept topN cv)))"
    unfolding map_map comp_def by (simp only:)
  then have d1: "distinct (map (\<lambda>kv. fst (kept_row e from kv)) (rollup_kept topN cv))" by (rule distinct_map_part)
  have "gm_wf (rollup_others topN cv ot)" using ok by (simp add: maps_ok_def gm_wf_others)
  then have "distinct (map fst (rollup_others topN cv ot))" by (simp add: gm_wf_def)
  moreover have "map (\<lambda>k. (tk_inIf k, tk_outIf k)) (map (\<lambda>kv. fst (other_hour_row e from kv)) l) = map fst l" for l
    by (induction l) (simp_all add: other_hour_row_def)
  ultimately have "distinct (map (\<lambda>k. (tk_inIf k, tk_outIf k)) (map (\<lambda>kv. fst (other_hour_row e from kv)) (rollup_others topN cv ot)))"
    by (simp only:)
  then have d2: "distinct (map (\<lambda>kv. fst (other_hour_row e from kv)) (rollup_others topN cv ot))" by (rule distinct_map_part)
  have "fst (kept_row e from kv) \<noteq> fst (other_hour_row e from ps)" if "kv \<in> set (rollup_kept topN cv)" for kv ps
    using kept_row_key(2) [OF cn [OF that], of e "from" "snd kv"] by (auto simp: other_hour_row_def)
  then have "(\<lambda>kv. fst (kept_row e from kv)) ` set (rollup_kept topN cv) \<inter> (\<lambda>kv. fst (other_hour_row e from kv)) ` set (rollup_others topN cv ot) = {}"
    by blast
  then show ?thesis using d1 d2 unfolding rolled_rows_def f Let_def prod.case map_append map_map comp_def distinct_append set_map by blast
qed

lemma rolled_bucket: "kv \<in> set (rolled_rows e from topN t) \<Longrightarrow> key_bucket (fst kv) = (e, from)"
  by (auto simp: rolled_rows_def kept_row_def other_hour_row_def key_bucket_def split: prod.splits)

lemma gm_put_fresh: "\<not> gm_has m k \<Longrightarrow> gm_put k v m = m @ [(k, v)]"
  unfolding gm_has_def gm_get_def gm_put_def by (induction m) (auto split: if_splits)

lemma gm_has_iff: "gm_has m k \<longleftrightarrow> k \<in> fst ` set m"
  unfolding gm_has_def gm_get_def by (simp flip: dom_map_of_conv_image_fst add: domIff)

lemma insert_rows: "distinct (map fst rs) \<Longrightarrow> (\<And>kv. kv \<in> set rs \<Longrightarrow> \<not> gm_has t (fst kv)) \<Longrightarrow> fold insert_row rs (Some t) = Some (t @ rs)"
proof (induction rs arbitrary: t)
  case (Cons x rs)
  have "\<not> gm_has (t @ [x]) (fst kv)" if "kv \<in> set rs" for kv
    using Cons.prems that by (auto simp: gm_has_iff image_iff)
  with Cons show ?case by (simp add: insert_row_def gm_put_fresh)
qed simp

text \<open>The rollup always succeeds and is the hour's rows put in place of what was there.\<close>

lemma RollupFlows1h_eq:
  "RollupFlows1h e hour topN db = Some (db
     \<lparr>fd_1h := filter (\<lambda>kv. key_bucket (fst kv) \<noteq> (e, hour_of hour)) (fd_1h db) @ rolled_rows e (hour_of hour) (nat (max topN 1)) (fd_1m db),
      fd_1h_meta := filter (\<lambda>kv. fst kv \<noteq> (e, hour_of hour)) (fd_1h_meta db)
        @ (let m = hour_meta e (hour_of hour) (fd_1m_meta db) in if mc_minutes m > 0 then [((e, hour_of hour), m)] else [])\<rparr>)"
proof -
  let ?t = "filter (\<lambda>kv. key_bucket (fst kv) \<noteq> (e, hour_of hour)) (fd_1h db)"
  have a: "fold insert_row (rolled_rows e (hour_of hour) n (fd_1m db)) (Some ?t) = Some (?t @ rolled_rows e (hour_of hour) n (fd_1m db))" for n
  proof (rule insert_rows [OF rolled_distinct])
    show "\<not> gm_has ?t (fst kv)" if "kv \<in> set (rolled_rows e (hour_of hour) n (fd_1m db))" for kv
      using rolled_bucket [OF that] by (auto simp: gm_has_iff)
  qed
  have b: "insert_row ((e, hour_of hour), m) (Some (filter (\<lambda>kv. fst kv \<noteq> (e, hour_of hour)) l)) = Some (filter (\<lambda>kv. fst kv \<noteq> (e, hour_of hour)) l @ [((e, hour_of hour), m)])" for m l
  proof -
    have "\<not> gm_has (filter (\<lambda>kv. fst kv \<noteq> (e, hour_of hour)) l) (e, hour_of hour)" by (auto simp: gm_has_iff)
    then show ?thesis by (simp add: insert_row_def gm_put_fresh)
  qed
  show ?thesis unfolding RollupFlows1h_def Let_def a b by simp
qed

subsection \<open>What an hour keeps\<close>

definition row_pair :: "flow_key \<times> flowSums \<Rightarrow> flowPair" where
  "row_pair kv = (tk_inIf (fst kv), tk_outIf (fst kv))"

definition stored_hour :: "int \<Rightarrow> int \<Rightarrow> flow_db \<Rightarrow> (flow_key \<times> flowSums) list" where
  "stored_hour e from db = filter (\<lambda>kv. key_bucket (fst kv) = (e, from)) (fd_1h db)"

definition pair_total :: "(flowSums \<Rightarrow> int) \<Rightarrow> flowPair \<Rightarrow> (flow_key \<times> flowSums) list \<Rightarrow> int" where
  "pair_total sel p rs = sum_list (map (\<lambda>kv. sel (snd kv)) (filter (\<lambda>kv. row_pair kv = p) rs))"

definition fits :: "(flowSums \<Rightarrow> int) \<Rightarrow> (flow_key \<times> flowSums) list \<Rightarrow> bool" where
  "fits sel rs \<longleftrightarrow> (\<forall>kv \<in> set rs. 0 \<le> sel (snd kv)) \<and> sum_list (map (\<lambda>kv. sel (snd kv)) rs) \<le> maxInt64"

lemma filter_nonmember: "(\<And>x. x \<in> set xs \<Longrightarrow> \<not> P x) \<Longrightarrow> filter P xs = []"
  by (simp add: filter_empty_conv)

lemma filter_bucket_rolled: "filter (\<lambda>kv. key_bucket (fst kv) = (e, from)) (rolled_rows e from n t) = rolled_rows e from n t"
  "filter (\<lambda>kv. key_bucket (fst kv) \<noteq> (e, from)) (rolled_rows e from n t) = []"
  using rolled_bucket [of _ e "from" n t] by (auto simp: filter_id_conv filter_empty_conv)

lemma stored_hour_rollup:
  assumes "RollupFlows1h e hour topN db = Some db'"
  shows "stored_hour e (hour_of hour) db' = rolled_rows e (hour_of hour) (nat (max topN 1)) (fd_1m db)"
  using assms [symmetric] by (simp add: RollupFlows1h_eq stored_hour_def filter_bucket_rolled)

text \<open>At most \<open>topN\<close> conversations of a pair are kept, and one row holds the rest.\<close>

lemma length_filter_concat:
  assumes "distinct ps" and "\<And>q x. q \<in> set ps \<Longrightarrow> x \<in> set (h q) \<Longrightarrow> g x = q" and "\<And>q. length (h q) \<le> n"
  shows "length (filter (\<lambda>x. g x = p) (concat (map h ps))) \<le> (if p \<in> set ps then n else 0)"
  using assms(1,2)
proof (induction ps)
  case (Cons q ps)
  have IH: "length (filter (\<lambda>x. g x = p) (concat (map h ps))) \<le> (if p \<in> set ps then n else 0)" using Cons by simp
  show ?case
  proof (cases "q = p")
    case True
    have "length (filter (\<lambda>x. g x = p) (h q)) \<le> n" using assms(3) [of q] length_filter_le order_trans by blast
    then show ?thesis using IH Cons.prems(1) True by simp
  next
    case False
    then have "filter (\<lambda>x. g x = p) (h q) = []" using Cons.prems(2) [of q] by (auto simp: filter_empty_conv)
    then show ?thesis using IH False by simp
  qed
qed simp

lemma length_filter_key: "gm_wf m \<Longrightarrow> length (filter (\<lambda>kv. fst kv = p) m) \<le> 1"
proof (induction m)
  case (Cons x m)
  then show ?case by (auto simp: gm_wf_def filter_empty_conv image_iff)
qed simp

lemma pair_rows_bounded: "length (filter (\<lambda>kv. row_pair kv = p) (rolled_rows e from n t)) \<le> n + 1"
proof -
  obtain cv ot where f: "fold rollup_scan (hour_rows e from t) ([], []) = (cv, ot)" by (metis prod.exhaust)
  have "maps_ok ([], [])" by (simp add: maps_ok_def)
  then have ok: "maps_ok (cv, ot)" using maps_ok_scans f by metis
  have "length (filter (\<lambda>x. gk_pair (fst x) = p) (rollup_kept n cv)) \<le> (if p \<in> set (rollup_pairs cv) then n else 0)"
    unfolding rollup_kept_def
  proof (rule length_filter_concat)
    show "distinct (rollup_pairs cv)" by (simp add: rollup_pairs_def)
    show "gk_pair (fst x) = q" if "x \<in> set (take n (pair_sorted cv q))" for q x
      using in_set_takeD [OF that] by (auto simp: pair_sorted_def)
  qed simp
  then have a: "length (filter (\<lambda>x. gk_pair (fst x) = p) (rollup_kept n cv)) \<le> n" by (simp split: if_splits)
  have "gm_wf (rollup_others n cv ot)" using ok by (simp add: maps_ok_def gm_wf_others)
  then have b: "length (filter (\<lambda>kv. fst kv = p) (rollup_others n cv ot)) \<le> 1" by (rule length_filter_key)
  have "row_pair (kept_row e from x) = gk_pair (fst x)" for x by (simp add: row_pair_def kept_row_def gk_pair_def split_beta)
  moreover have "row_pair (other_hour_row e from x) = fst x" for x by (simp add: row_pair_def other_hour_row_def)
  ultimately show ?thesis using a b by (simp add: rolled_rows_def f filter_map comp_def)
qed

context sum_part
begin

lemma part_sum_pair: "part_sum (\<lambda>q. q = p) rs = pair_total sel p rs"
  by (induction rs) (simp_all add: part_sum_def pair_total_def row_pair_def)

lemma part_sum_all: "part_sum (\<lambda>_. True) rs = sum_list (map (\<lambda>kv. sel (snd kv)) rs)"
  by (induction rs) (simp_all add: part_sum_def)

lemma rolled_pair_total:
  "fits sel (hour_rows e from t) \<Longrightarrow> pair_total sel p (rolled_rows e from n t) = pair_total sel p (hour_rows e from t)"
  using rolled_rows_sum [of e "from" t "\<lambda>q. q = p" n] by (auto simp: part_sum_pair part_sum_all fits_def nonneg_def gm_all_def)

end

subsection \<open>Properties\<close>

text \<open>
  C3: Rolling up an hour always succeeds: no two of the rows it inserts share a primary key, whatever the minute
  table holds. When the hour's columns are not negative and their sums fit a 64-bit integer, the hour's rows of
  every interface pair add up to the same bytes, packets and flows as the minute rows of that pair, in at
  most \<open>topN + 1\<close> rows, and nothing else in the database changes: not the minutes, not another hour, not
  another exporter, not the metadata of another hour.
\<close>

theorem rollup_conserves:
  assumes "fits fs_bytes (hour_rows e (hour_of hour) (fd_1m db))" and "fits fs_packets (hour_rows e (hour_of hour) (fd_1m db))"
    and "fits fs_flows (hour_rows e (hour_of hour) (fd_1m db))"
  shows "\<exists>db'. RollupFlows1h e hour topN db = Some db'
    \<and> (\<forall>p. pair_total fs_bytes p (stored_hour e (hour_of hour) db') = pair_total fs_bytes p (hour_rows e (hour_of hour) (fd_1m db))
        \<and> pair_total fs_packets p (stored_hour e (hour_of hour) db') = pair_total fs_packets p (hour_rows e (hour_of hour) (fd_1m db))
        \<and> pair_total fs_flows p (stored_hour e (hour_of hour) db') = pair_total fs_flows p (hour_rows e (hour_of hour) (fd_1m db))
        \<and> int (length (filter (\<lambda>kv. row_pair kv = p) (stored_hour e (hour_of hour) db'))) \<le> max topN 1 + 1)
    \<and> filter (\<lambda>kv. key_bucket (fst kv) \<noteq> (e, hour_of hour)) (fd_1h db') = filter (\<lambda>kv. key_bucket (fst kv) \<noteq> (e, hour_of hour)) (fd_1h db)
    \<and> filter (\<lambda>kv. fst kv \<noteq> (e, hour_of hour)) (fd_1h_meta db') = filter (\<lambda>kv. fst kv \<noteq> (e, hour_of hour)) (fd_1h_meta db)
    \<and> db'\<lparr>fd_1h := fd_1h db, fd_1h_meta := fd_1h_meta db\<rparr> = db"
proof -
  obtain db' where R: "RollupFlows1h e hour topN db = Some db'" by (simp add: RollupFlows1h_eq)
  have n: "int (length (filter (\<lambda>kv. row_pair kv = p) (stored_hour e (hour_of hour) db'))) \<le> max topN 1 + 1" for p
    using pair_rows_bounded [of p e "hour_of hour" "nat (max topN 1)" "fd_1m db"] by (simp add: stored_hour_rollup [OF R])
  have "filter (\<lambda>kv. key_bucket (fst kv) \<noteq> (e, hour_of hour)) (fd_1h db') = filter (\<lambda>kv. key_bucket (fst kv) \<noteq> (e, hour_of hour)) (fd_1h db)
    \<and> filter (\<lambda>kv. fst kv \<noteq> (e, hour_of hour)) (fd_1h_meta db') = filter (\<lambda>kv. fst kv \<noteq> (e, hour_of hour)) (fd_1h_meta db)
    \<and> db'\<lparr>fd_1h := fd_1h db, fd_1h_meta := fd_1h_meta db\<rparr> = db"
    using R [symmetric] by (simp add: RollupFlows1h_eq filter_bucket_rolled Let_def)
  then show ?thesis using R n sb.rolled_pair_total [OF assms(1)] sp.rolled_pair_total [OF assms(2)] sf.rolled_pair_total [OF assms(3)]
    by (simp add: stored_hour_rollup [OF R])
qed

definition demo_flow_key :: "int \<Rightarrow> bytes \<Rightarrow> u16 \<Rightarrow> flow_key" where
  "demo_flow_key b s p = \<lparr>tk_exporter = 7, tk_bucket = b, tk_inIf = 1, tk_outIf = 2, tk_src = s, tk_dst = [], tk_proto = 6, tk_port = p\<rparr>"

definition demo_flow_db :: flow_db where
  "demo_flow_db = \<lparr>fd_exporters = [], fd_exporterSeq = 0, fd_ifaces = [], fd_templates = [], fd_points = [], fd_pointSeq = 0, fd_prefixes = [],
     fd_1m = [(demo_flow_key 7200 [10,0,0,1] 443, \<lparr>fs_bytes = 100, fs_packets = 2, fs_flows = 1\<rparr>),
              (demo_flow_key 7260 [10,0,0,1] 443, \<lparr>fs_bytes = 50, fs_packets = 1, fs_flows = 1\<rparr>),
              (demo_flow_key 7260 [10,0,0,2] 53, \<lparr>fs_bytes = 70, fs_packets = 1, fs_flows = 1\<rparr>)],
     fd_1m_meta = [((7, 7200), \<lparr>mc_datagrams = 1, mc_records = 1, mc_bytes = 100, mc_sampling = 1, mc_overflow = 0, mc_late = 0, mc_minutes = 0\<rparr>)],
     fd_1h = [], fd_1h_meta = []\<rparr>"

lemma demo_hour: "hour_of (time_Unix 7300 0) = 7200"
  by code_simp

lemma demo_hour_rows: "hour_rows 7 7200 (fd_1m demo_flow_db) = fd_1m demo_flow_db"
  by (simp add: hour_rows_def demo_flow_db_def demo_flow_key_def in_hour_def key_bucket_def)

theorem rollup_conserves_witness:
  "\<exists>db'. RollupFlows1h 7 (time_Unix 7300 0) 1 demo_flow_db = Some db' \<and> pair_total fs_bytes (1, 2) (stored_hour 7 7200 db') = 220"
proof -
  have f: "fits fs_bytes (hour_rows 7 (hour_of (time_Unix 7300 0)) (fd_1m demo_flow_db))"
    "fits fs_packets (hour_rows 7 (hour_of (time_Unix 7300 0)) (fd_1m demo_flow_db))"
    "fits fs_flows (hour_rows 7 (hour_of (time_Unix 7300 0)) (fd_1m demo_flow_db))"
    by (simp_all add: demo_hour demo_hour_rows) (simp_all add: fits_def demo_flow_db_def maxInt64_def)
  have "pair_total fs_bytes (1, 2) (fd_1m demo_flow_db) = 220"
    by (simp add: pair_total_def row_pair_def demo_flow_db_def demo_flow_key_def)
  then show ?thesis using rollup_conserves [OF f, of 1] by (auto simp: demo_hour demo_hour_rows)
qed

text \<open>
  Rolling an hour up a second time changes nothing, whatever the minute and hour tables hold, so a repeated or
  an overlapping rollup after a crash is harmless.
\<close>

theorem rollup_idempotent:
  "Option.bind (RollupFlows1h e hour topN db) (RollupFlows1h e hour topN) = RollupFlows1h e hour topN db"
  by (simp add: RollupFlows1h_eq filter_bucket_rolled Let_def)

text \<open>
  A minute batch is added, never overwritten: over any set of keys (an exporter, a bucket, a conversation) the
  minute table's bytes, packets and flows grow by exactly those of the batch's rows with such a key,
  rows with a key already stored included, and no other table changes but the minute metadata.
\<close>

theorem insert_additive:
  "(\<forall>P. gm_ksum (\<lambda>k v. if P k then fs_bytes v else 0) (fd_1m (InsertFlows1m rows meta db))
        = gm_ksum (\<lambda>k v. if P k then fs_bytes v else 0) (fd_1m db) + sum_list (map (\<lambda>r. if P (row_key r) then fr_Bytes r else 0) rows)
      \<and> gm_ksum (\<lambda>k v. if P k then fs_packets v else 0) (fd_1m (InsertFlows1m rows meta db))
        = gm_ksum (\<lambda>k v. if P k then fs_packets v else 0) (fd_1m db) + sum_list (map (\<lambda>r. if P (row_key r) then fr_Packets r else 0) rows)
      \<and> gm_ksum (\<lambda>k v. if P k then fs_flows v else 0) (fd_1m (InsertFlows1m rows meta db))
        = gm_ksum (\<lambda>k v. if P k then fs_flows v else 0) (fd_1m db) + sum_list (map (\<lambda>r. if P (row_key r) then fr_Flows r else 0) rows))
   \<and> (InsertFlows1m rows meta db)\<lparr>fd_1m := fd_1m db, fd_1m_meta := fd_1m_meta db\<rparr> = db"
  using upsert_rows_sum [of fs_bytes] upsert_rows_sum [of fs_packets] upsert_rows_sum [of fs_flows]
  by (simp add: InsertFlows1m_def row_sums_def cong: if_cong)

text \<open>
  An address stored in a flow row reads back as the same address with an IPv4-mapped one shortened to IPv4,
  and storing what was read gives the stored bytes again; the missing address is the empty blob.
\<close>

theorem blob_roundtrip:
  assumes "addr_wf a"
  shows "FlowBlobIP (FlowIPBlob a) = Unmap a \<and> FlowIPBlob (FlowBlobIP (FlowIPBlob a)) = FlowIPBlob a \<and> (FlowIPBlob a = [] \<longleftrightarrow> a = NoAddr)"
  using assms FlowBlobIP_IPBlob [OF assms] by (cases a) (auto simp: FlowIPBlob_def split: if_splits)

theorem blob_roundtrip_witness: "FlowBlobIP (FlowIPBlob (Addr4 [192,168,88,1])) = Addr4 [192,168,88,1]"
  using blob_roundtrip [of "Addr4 [192,168,88,1]"] by simp

end
