(* ===== verification/Flow_Points.thy ===== *)
theory Flow_Points
  imports Flow_Store_Props "HOL-Library.List_Lexorder"
begin

text \<open>
  Observation points: the table of \<open>flow_points\<close> (\<open>database/queries/flows.go\<close>). A point is one exporter and a set of
  its ifIndexes. Two partial unique indexes guard the table: native points by (exporter, if_indexes) and derived points
  by (exporter, device, interface), where a missing device (\<open>NULL\<close>) never clashes. The JSON column of excluded ports is
  the list it encodes. New ids follow the sequence; SQLite may skip ids after a refused insert, and nothing here depends on it.
\<close>

subsection \<open>ifIndex lists\<close>

definition canonicalIfIndexes :: "u32 list \<Rightarrow> u32 list" where
  "canonicalIfIndexes l = remdups_adj (sort (filter (\<lambda>i. i \<noteq> 0) l))"

definition formatIfIndexes :: "u32 list \<Rightarrow> string" where
  "formatIfIndexes l = join '','' (map (\<lambda>v. nat_string (unat v)) l)"

text \<open>\<open>strconv.ParseUint(s, 10, 32)\<close>: at least one digit, only digits, below \<open>2 ^ 32\<close>.\<close>

definition ParseUint32 :: "string \<Rightarrow> u32 option" where
  "ParseUint32 s = (case atoi_digits s of Some n \<Rightarrow> if n < 2 ^ 32 then Some (word_of_int n) else None | None \<Rightarrow> None)"

definition parseIfIndexes :: "string \<Rightarrow> u32 list" where
  "parseIfIndexes s = canonicalIfIndexes (List.map_filter (\<lambda>p. ParseUint32 (TrimSpace p)) (split_by (\<lambda>c. c = CHR '','') s))"

subsection \<open>Operations\<close>

definition MaxFlowIfs :: nat where "MaxFlowIfs = 256"

definition str_key :: "string \<Rightarrow> nat list" where
  "str_key s = map of_char s"

text \<open>\<open>ORDER BY exporter_id, kind, name, id\<close>; text compares bytewise.\<close>

definition ListFlowPoints :: "flow_db \<Rightarrow> FlowPoint list" where
  "ListFlowPoints db = sort_key fp_ExporterID (sort_key (\<lambda>p. str_key (fp_Kind p)) (sort_key (\<lambda>p. str_key (fp_Name p))
     (sort_key fp_ID (map snd (fd_points db)))))"

definition GetFlowPoint :: "flow_db \<Rightarrow> int \<Rightarrow> FlowPoint option" where
  "GetFlowPoint db i = gm_get (fd_points db) i"

text \<open>Two rows that a unique index does not allow together.\<close>

definition rows_clash :: "FlowPoint \<Rightarrow> FlowPoint \<Rightarrow> bool" where
  "rows_clash p r \<longleftrightarrow> fp_ExporterID p = fp_ExporterID r \<and>
     (fp_Kind p = ''native'' \<and> fp_Kind r = ''native'' \<and> formatIfIndexes (fp_IfIndexes p) = formatIfIndexes (fp_IfIndexes r)
      \<or> fp_Kind p = ''derived'' \<and> fp_Kind r = ''derived'' \<and> fp_DeviceID p \<noteq> '''' \<and> fp_DeviceID p = fp_DeviceID r \<and> fp_Iface p = fp_Iface r)"

definition point_clash :: "FlowPoint \<Rightarrow> flow_db \<Rightarrow> bool" where
  "point_clash p db \<longleftrightarrow> list_ex (\<lambda>(i, r). i \<noteq> fp_ID p \<and> rows_clash p r) (fd_points db)"

definition point_refs_ok :: "string list \<Rightarrow> FlowPoint \<Rightarrow> flow_db \<Rightarrow> bool" where
  "point_refs_ok devs p db \<longleftrightarrow> gm_has (fd_exporters db) (fp_ExporterID p) \<and> device_ref_ok devs (fp_DeviceID p)"

text \<open>The row an insert of \<open>p\<close> makes, and the insert itself.\<close>

definition new_point :: "time \<Rightarrow> FlowPoint \<Rightarrow> flow_db \<Rightarrow> FlowPoint" where
  "new_point now p db = p\<lparr>fp_ID := fd_pointSeq db + 1, fp_IfIndexes := parseIfIndexes (formatIfIndexes (canonicalIfIndexes (fp_IfIndexes p))),
     fp_CreatedAt := fromUnix (unixOf now)\<rparr>"

definition put_point :: "FlowPoint \<Rightarrow> flow_db \<Rightarrow> flow_db" where
  "put_point r db = db\<lparr>fd_points := gm_put (fp_ID r) r (fd_points db), fd_pointSeq := max (fd_pointSeq db) (fp_ID r)\<rparr>"

definition CreateFlowPoint :: "string list \<Rightarrow> time \<Rightarrow> FlowPoint \<Rightarrow> flow_db \<Rightarrow> query_error + int \<times> flow_db" where
  "CreateFlowPoint devs now p db =
    (let ifs = canonicalIfIndexes (fp_IfIndexes p); r = new_point now p db
     in if ifs = [] then Inl ErrNoIfIndexes
        else if length ifs > MaxFlowIfs then Inl ErrTooManyIfIndexes
        else if point_clash r db then Inl ErrFlowPointExists
        else if \<not> point_refs_ok devs r db then Inl ErrConstraint
        else Inr (fp_ID r, put_point r db))"

definition UpdateFlowPoint :: "string list \<Rightarrow> FlowPoint \<Rightarrow> flow_db \<Rightarrow> query_error + flow_db" where
  "UpdateFlowPoint devs p db =
    (let ifs = canonicalIfIndexes (fp_IfIndexes p)
     in if ifs = [] then Inl ErrNoIfIndexes
        else if length ifs > MaxFlowIfs then Inl ErrTooManyIfIndexes
        else case gm_get (fd_points db) (fp_ID p) of
          None \<Rightarrow> Inl ErrFlowNotFound
        | Some old \<Rightarrow>
            (let r = p\<lparr>fp_IfIndexes := parseIfIndexes (formatIfIndexes ifs), fp_Auto := False, fp_CreatedAt := fp_CreatedAt old\<rparr>
             in if point_clash r db then Inl ErrFlowPointExists
                else if \<not> point_refs_ok devs r db then Inl ErrConstraint
                else Inr (put_point r db)))"

definition DeleteFlowPoint :: "int \<Rightarrow> flow_db \<Rightarrow> query_error + flow_db" where
  "DeleteFlowPoint i db = (if gm_has (fd_points db) i then Inr (db\<lparr>fd_points := gm_del i (fd_points db)\<rparr>) else Inl ErrFlowNotFound)"

text \<open>
  \<open>INSERT OR IGNORE\<close> of several points in one transaction: a clash skips the row, a missing ifIndex or a broken reference
  fails the whole batch.
\<close>

fun ensure_points :: "string list \<Rightarrow> time \<Rightarrow> FlowPoint list \<Rightarrow> flow_db \<Rightarrow> query_error + bool list \<times> flow_db" where
  "ensure_points devs now [] db = Inr ([], db)"
| "ensure_points devs now (p # ps) db =
    (let r = new_point now (p\<lparr>fp_Kind := ''native'', fp_Auto := True\<rparr>) db
     in if canonicalIfIndexes (fp_IfIndexes p) = [] then Inl ErrNoIfIndexes
        else if point_clash r db then map_sum id (\<lambda>(c, db'). (False # c, db')) (ensure_points devs now ps db)
        else if \<not> point_refs_ok devs r db then Inl ErrConstraint
        else map_sum id (\<lambda>(c, db'). (True # c, db')) (ensure_points devs now ps (put_point r db)))"

definition EnsureNativeFlowPoints :: "string list \<Rightarrow> time \<Rightarrow> FlowPoint list \<Rightarrow> flow_db \<Rightarrow> query_error + bool list \<times> flow_db" where
  "EnsureNativeFlowPoints devs now ps db = ensure_points devs now ps db"

definition EnsureNativeFlowPoint :: "string list \<Rightarrow> time \<Rightarrow> FlowPoint \<Rightarrow> flow_db \<Rightarrow> query_error + bool \<times> flow_db" where
  "EnsureNativeFlowPoint devs now p db = map_sum id (\<lambda>(c, db'). (c ! 0, db')) (EnsureNativeFlowPoints devs now [p] db)"

definition auto_update :: "FlowPoint \<Rightarrow> FlowPoint \<Rightarrow> FlowPoint" where
  "auto_update p r = r\<lparr>fp_Name := fp_Name p, fp_Facing := fp_Facing p, fp_PortSide := fp_PortSide p, fp_DeviceID := fp_DeviceID p, fp_Iface := fp_Iface p\<rparr>"

definition UpdateAutoFlowPoint :: "string list \<Rightarrow> FlowPoint \<Rightarrow> flow_db \<Rightarrow> query_error + flow_db" where
  "UpdateAutoFlowPoint devs p db = (case gm_get (fd_points db) (fp_ID p) of None \<Rightarrow> Inr db
     | Some r \<Rightarrow> if \<not> fp_Auto r then Inr db
         else let r' = auto_update p r
              in if point_clash r' db \<or> \<not> device_ref_ok devs (fp_DeviceID r') then Inl ErrConstraint else Inr (put_point r' db))"

text \<open>
  The retention of points: an auto native point older than the cutoff none of whose interfaces was seen since. The
  loop stops at the first statement that fails (\<open>ok\<close> of the point's id).
\<close>

definition fresh_if :: "time \<Rightarrow> flow_db \<Rightarrow> int \<Rightarrow> u32 \<Rightarrow> bool" where
  "fresh_if cutoff db e i \<longleftrightarrow> list_ex (\<lambda>(_, f). fi_ExporterID f = e \<and> fi_IfIndex f = i \<and> \<not> fi_LastSeen f < cutoff) (fd_ifaces db)"

definition stale_point :: "time \<Rightarrow> flow_db \<Rightarrow> FlowPoint \<Rightarrow> bool" where
  "stale_point cutoff db p \<longleftrightarrow> fp_Kind p = ''native'' \<and> fp_Auto p \<and> fp_CreatedAt p < cutoff \<and> \<not> list_ex (fresh_if cutoff db (fp_ExporterID p)) (fp_IfIndexes p)"

fun delete_points :: "(int \<Rightarrow> bool) \<Rightarrow> FlowPoint list \<Rightarrow> flow_db \<Rightarrow> bool \<times> int \<times> flow_db" where
  "delete_points ok [] db = (True, 0, db)"
| "delete_points ok (p # ps) db =
    (if \<not> ok (fp_ID p) then (False, 0, db)
     else let del = (case gm_get (fd_points db) (fp_ID p) of Some r \<Rightarrow> fp_Auto r \<and> fp_Kind r = ''native'' | None \<Rightarrow> False);
              (b, n, db') = delete_points ok ps (if del then db\<lparr>fd_points := gm_del (fp_ID p) (fd_points db)\<rparr> else db)
          in (b, of_bool del + n, db'))"

definition DeleteStaleAutoFlowPoints :: "(int \<Rightarrow> bool) \<Rightarrow> time \<Rightarrow> flow_db \<Rightarrow> bool \<times> int \<times> flow_db" where
  "DeleteStaleAutoFlowPoints ok cutoff db = delete_points ok (filter (stale_point cutoff db) (ListFlowPoints db)) db"

subsection \<open>ifIndex lists read back\<close>

lemma canonical_set: "canonicalIfIndexes l = sorted_list_of_set (set l - {0})"
proof (rule sorted_distinct_set_unique)
  show "set (canonicalIfIndexes l) = set (sorted_list_of_set (set l - {0}))" by (auto simp: canonicalIfIndexes_def)
  have "distinct (remdups_adj xs)" if "sorted xs" for xs :: "u32 list" using that by (induction xs rule: remdups_adj.induct) (auto simp: less_le)
  then show "distinct (canonicalIfIndexes l)" by (simp add: canonicalIfIndexes_def)
qed (simp_all add: canonicalIfIndexes_def)

lemma canonical_canonical [simp]: "canonicalIfIndexes (canonicalIfIndexes l) = canonicalIfIndexes l"
  by (simp add: canonical_set)

lemma ParseUint32_nat_string [simp]: "ParseUint32 (nat_string (unat (v :: u32))) = Some v"
proof -
  have "unat v < 2 ^ 32" using unsigned_less [of v] by simp
  then have "int (unat v) < 2 ^ 32" by (metis of_nat_less_iff of_nat_numeral of_nat_power)
  then show ?thesis using nat_string_digits [of "unat v"] by (simp add: ParseUint32_def atoi_digits_def)
qed

lemma digits_no_comma: "CHR '','' \<notin> set (nat_string n)"
  using nat_string_digits [of n] by (auto simp: list_all_iff is_digit_def)

lemma TrimSpace_nat_string [simp]: "TrimSpace (nat_string n) = nat_string n"
proof (rule TrimSpace_none)
  fix c assume "c \<in> set (nat_string n)"
  then show "\<not> is_space c" using nat_string_digits [of n] by (auto simp: list_all_iff is_digit_def is_space_def)
qed

lemma parseIfIndexes_format: "parseIfIndexes (formatIfIndexes l) = canonicalIfIndexes l"
proof (cases "l = []")
  case True
  then show ?thesis by (simp add: parseIfIndexes_def formatIfIndexes_def List.map_filter_simps ParseUint32_def atoi_digits_def TrimSpace_def)
next
  case False
  let ?f = "\<lambda>v :: u32. nat_string (unat v)"
  have "split_by (\<lambda>c. c = CHR '','') (join '','' (map ?f l)) = map ?f l"
    using False digits_no_comma by (intro split_by_join) auto
  moreover have "List.map_filter (\<lambda>p. ParseUint32 (TrimSpace p)) (map ?f l) = map (\<lambda>v. v) l"
    by (rule map_filter_all) simp
  ultimately show ?thesis by (simp add: parseIfIndexes_def formatIfIndexes_def)
qed

lemma formatIfIndexes_inj:
  "formatIfIndexes a = formatIfIndexes b \<Longrightarrow> canonicalIfIndexes a = a \<Longrightarrow> canonicalIfIndexes b = b \<Longrightarrow> a = b"
  by (metis parseIfIndexes_format)

subsection \<open>The invariant of the table\<close>

definition point_row_ok :: "string list \<Rightarrow> flow_db \<Rightarrow> FlowPoint \<Rightarrow> bool" where
  "point_row_ok devs db r \<longleftrightarrow> fp_ID r \<le> fd_pointSeq db \<and> canonicalIfIndexes (fp_IfIndexes r) = fp_IfIndexes r \<and> fp_IfIndexes r \<noteq> []
     \<and> point_refs_ok devs r db"

definition points_ok :: "string list \<Rightarrow> flow_db \<Rightarrow> bool" where
  "points_ok devs db \<longleftrightarrow> keyed fp_ID (fd_points db) \<and> gm_all (point_row_ok devs db) (fd_points db)
     \<and> (\<forall>i r j s. (i, r) \<in> set (fd_points db) \<longrightarrow> (j, s) \<in> set (fd_points db) \<longrightarrow> i \<noteq> j \<longrightarrow> \<not> rows_clash r s)"

lemma rows_clash_sym: "rows_clash p r \<longleftrightarrow> rows_clash r p"
  by (auto simp: rows_clash_def)

lemma point_clash_iff: "point_clash p db \<longleftrightarrow> (\<exists>i r. (i, r) \<in> set (fd_points db) \<and> i \<noteq> fp_ID p \<and> rows_clash p r)"
  by (auto simp: point_clash_def list_ex_iff)

lemma put_point_frame [simp]:
  "fd_exporters (put_point r db) = fd_exporters db" "point_refs_ok devs p (put_point r db) = point_refs_ok devs p db"
  by (simp_all add: put_point_def point_refs_ok_def)

lemma points_ok_put:
  assumes ok: "points_ok devs db" and c: "\<not> point_clash r db" "point_refs_ok devs r db"
    and i: "canonicalIfIndexes (fp_IfIndexes r) = fp_IfIndexes r" "fp_IfIndexes r \<noteq> []"
  shows "points_ok devs (put_point r db)"
proof -
  have k: "keyed fp_ID (fd_points db)" and a: "gm_all (point_row_ok devs db) (fd_points db)"
    and u: "\<And>i r j s. (i, r) \<in> set (fd_points db) \<Longrightarrow> (j, s) \<in> set (fd_points db) \<Longrightarrow> i \<noteq> j \<Longrightarrow> \<not> rows_clash r s"
    using ok by (auto simp: points_ok_def)
  have e: "x = (fp_ID r, r) \<or> x \<in> set (fd_points db) \<and> fst x \<noteq> fp_ID r" if "x \<in> set (gm_put (fp_ID r) r (fd_points db))" for x
  proof -
    have w: "gm_wf (gm_put (fp_ID r) r (fd_points db))" using k by (simp add: keyed_def gm_wf_intros)
    have "gm_get (gm_put (fp_ID r) r (fd_points db)) (fst x) = Some (snd x)" using gm_get_iff_in_set [OF w, of "fst x" "snd x"] that by simp
    then show ?thesis using gm_get_in_set [of "fd_points db" "fst x" "snd x"] by (cases x) (simp split: if_splits)
  qed
  have m: "point_row_ok devs (put_point r db) s" if "point_row_ok devs db s" for s
    using that by (auto simp: point_row_ok_def) (simp add: put_point_def)
  have n: "point_row_ok devs (put_point r db) r" using c(2) i by (simp add: point_row_ok_def) (simp add: put_point_def)
  have P: "fd_points (put_point r db) = gm_put (fp_ID r) r (fd_points db)" by (simp add: put_point_def)
  have "gm_all (point_row_ok devs (put_point r db)) (fd_points (put_point r db))"
    unfolding P using a m n by (intro gm_all_put) (auto simp: gm_all_def)
  moreover have "\<not> rows_clash p s" if "(i, p) \<in> set (fd_points (put_point r db))" "(j, s) \<in> set (fd_points (put_point r db))" "i \<noteq> j" for i p j s
    using e [OF that(1) [unfolded P]] e [OF that(2) [unfolded P]] u [of i p j s] c(1) that(3) rows_clash_sym [of p s] point_clash_iff [of r db] by auto
  ultimately show ?thesis using keyed_put [OF k] by (simp add: points_ok_def P)
qed

lemma points_ok_sub:
  assumes "points_ok devs db" and "set (fd_points db') \<subseteq> set (fd_points db)" and "gm_wf (fd_points db')"
    and "fd_pointSeq db' = fd_pointSeq db" and "\<And>r. r \<in> snd ` set (fd_points db') \<Longrightarrow> point_refs_ok devs r db \<Longrightarrow> point_refs_ok devs r db'"
  shows "points_ok devs db'"
proof -
  have s: "x \<in> set (fd_points db)" if "x \<in> set (fd_points db')" for x using assms(2) that by blast
  have "keyed fp_ID (fd_points db')" using assms(1,3) s by (simp add: points_ok_def keyed_def)
  moreover have "point_row_ok devs db' r" if "r \<in> snd ` set (fd_points db')" for r
  proof -
    have "r \<in> snd ` set (fd_points db)" using that assms(2) by blast
    then have "point_row_ok devs db r" using assms(1) unfolding points_ok_def gm_all_def by blast
    then show ?thesis using assms(4,5) that by (simp add: point_row_ok_def)
  qed
  moreover have "\<not> rows_clash r q" if "(i, r) \<in> set (fd_points db')" "(j, q) \<in> set (fd_points db')" "i \<noteq> j" for i r j q
    using assms(1) s [OF that(1)] s [OF that(2)] that(3) by (simp add: points_ok_def)
  ultimately show ?thesis by (simp add: points_ok_def gm_all_def)
qed

lemma points_ok_del: "points_ok devs db \<Longrightarrow> points_ok devs (db\<lparr>fd_points := gm_del i (fd_points db)\<rparr>)"
  by (rule points_ok_sub) (simp_all add: points_ok_def keyed_def point_refs_ok_def set_gm_del gm_wf_intros)

lemma new_point_simps [simp]:
  "fp_ID (new_point now p db) = fd_pointSeq db + 1" "fp_IfIndexes (new_point now p db) = canonicalIfIndexes (fp_IfIndexes p)"
  "fp_ExporterID (new_point now p db) = fp_ExporterID p" "fp_Kind (new_point now p db) = fp_Kind p"
  by (simp_all add: new_point_def parseIfIndexes_format)

lemma points_ok_create: "points_ok devs db \<Longrightarrow> CreateFlowPoint devs now p db = Inr (i, db') \<Longrightarrow> points_ok devs db'"
  by (auto simp: CreateFlowPoint_def Let_def intro!: points_ok_put split: if_splits)

lemma points_ok_update: "points_ok devs db \<Longrightarrow> UpdateFlowPoint devs p db = Inr db' \<Longrightarrow> points_ok devs db'"
  by (auto simp: UpdateFlowPoint_def Let_def parseIfIndexes_format intro!: points_ok_put split: if_splits option.splits)

lemma points_ok_delete: "points_ok devs db \<Longrightarrow> DeleteFlowPoint i db = Inr db' \<Longrightarrow> points_ok devs db'"
  by (auto simp: DeleteFlowPoint_def points_ok_del split: if_splits)

lemma ensure_step:
  "ensure_points devs now (p # ps) db = Inr (c, db') \<Longrightarrow>
   (let r = new_point now (p\<lparr>fp_Kind := ''native'', fp_Auto := True\<rparr>) db
    in canonicalIfIndexes (fp_IfIndexes p) \<noteq> [] \<and>
     (\<exists>c'. c = (\<not> point_clash r db) # c' \<and> (point_clash r db \<or> point_refs_ok devs r db) \<and>
        ensure_points devs now ps (if point_clash r db then db else put_point r db) = Inr (c', db')))"
  by (auto simp: Let_def map_sum_def split: if_splits sum.splits)

lemma points_ok_ensure: "points_ok devs db \<Longrightarrow> ensure_points devs now ps db = Inr (c, db') \<Longrightarrow> points_ok devs db'"
proof (induction ps arbitrary: db c)
  case (Cons p ps)
  let ?r = "new_point now (p\<lparr>fp_Kind := ''native'', fp_Auto := True\<rparr>) db"
  have "points_ok devs (if point_clash ?r db then db else put_point ?r db)"
    using ensure_step [OF Cons.prems(2)] Cons.prems(1) by (auto simp: Let_def intro!: points_ok_put)
  then show ?case using ensure_step [OF Cons.prems(2)] Cons.IH by (auto simp: Let_def)
qed simp

lemma points_ok_auto: "points_ok devs db \<Longrightarrow> UpdateAutoFlowPoint devs p db = Inr db' \<Longrightarrow> points_ok devs db'"
proof -
  assume ok: "points_ok devs db" and U: "UpdateAutoFlowPoint devs p db = Inr db'"
  show "points_ok devs db'"
  proof (cases "\<exists>r. gm_get (fd_points db) (fp_ID p) = Some r \<and> fp_Auto r")
    case True
    then obtain r where r: "gm_get (fd_points db) (fp_ID p) = Some r" "fp_Auto r" by blast
    then have "point_row_ok devs db r" using ok gm_all_get by (fastforce simp: points_ok_def)
    then show ?thesis using U r ok
      by (auto simp: UpdateAutoFlowPoint_def Let_def point_row_ok_def point_refs_ok_def auto_update_def intro!: points_ok_put split: if_splits)
  next
    case False
    then show ?thesis using U ok by (auto simp: UpdateAutoFlowPoint_def split: option.splits if_splits)
  qed
qed

lemma points_ok_delete_points: "points_ok devs db \<Longrightarrow> points_ok devs (snd (snd (delete_points ok ps db)))"
proof (induction ps arbitrary: db)
  case (Cons p ps)
  then show ?case using points_ok_del [OF Cons.prems, of "fp_ID p"] by (auto simp: Let_def split_beta)
qed simp

lemma points_ok_stale: "points_ok devs db \<Longrightarrow> points_ok devs (snd (snd (DeleteStaleAutoFlowPoints ok cutoff db)))"
  unfolding DeleteStaleAutoFlowPoints_def by (rule points_ok_delete_points)

lemma points_ok_exporter: "points_ok devs db \<Longrightarrow> DeleteFlowExporter e db = Inr db' \<Longrightarrow> points_ok devs db'"
  by (rule points_ok_sub [of devs db])
    (auto simp: DeleteFlowExporter_def point_refs_ok_def points_ok_def keyed_def gm_wf_filter split: if_splits)

subsection \<open>Properties\<close>

text \<open>Every statement that changes the table, as one step; a statement that fails changes nothing.\<close>

datatype point_op = PCreate time FlowPoint | PUpdate FlowPoint | PDelete int | PEnsure time "FlowPoint list" | PAuto FlowPoint
  | PStale "int \<Rightarrow> bool" time | PExporter int

definition point_step :: "string list \<Rightarrow> point_op \<Rightarrow> flow_db \<Rightarrow> flow_db" where
  "point_step devs op db = (case op of
     PCreate now p \<Rightarrow> case_sum (\<lambda>_. db) snd (CreateFlowPoint devs now p db)
   | PUpdate p \<Rightarrow> case_sum (\<lambda>_. db) (\<lambda>x. x) (UpdateFlowPoint devs p db)
   | PDelete i \<Rightarrow> case_sum (\<lambda>_. db) (\<lambda>x. x) (DeleteFlowPoint i db)
   | PEnsure now ps \<Rightarrow> case_sum (\<lambda>_. db) snd (EnsureNativeFlowPoints devs now ps db)
   | PAuto p \<Rightarrow> case_sum (\<lambda>_. db) (\<lambda>x. x) (UpdateAutoFlowPoint devs p db)
   | PStale ok cutoff \<Rightarrow> snd (snd (DeleteStaleAutoFlowPoints ok cutoff db))
   | PExporter e \<Rightarrow> case_sum (\<lambda>_. db) (\<lambda>x. x) (DeleteFlowExporter e db))"

lemma point_step_ok: assumes "points_ok devs db" shows "points_ok devs (point_step devs op db)"
proof (cases op)
  case (PCreate now p)
  then show ?thesis using assms points_ok_create [OF assms, of now p] by (auto simp: point_step_def split: sum.split)
next
  case (PUpdate p)
  then show ?thesis using assms points_ok_update [OF assms, of p] by (auto simp: point_step_def split: sum.split)
next
  case (PDelete i)
  then show ?thesis using assms points_ok_delete [OF assms, of i] by (auto simp: point_step_def split: sum.split)
next
  case (PEnsure now ps)
  then show ?thesis using assms points_ok_ensure [OF assms, of now ps] by (auto simp: point_step_def EnsureNativeFlowPoints_def split: sum.split)
next
  case (PAuto p)
  then show ?thesis using assms points_ok_auto [OF assms, of p] by (auto simp: point_step_def split: sum.split)
next
  case (PStale ok cutoff)
  then show ?thesis using points_ok_stale [OF assms] by (simp add: point_step_def)
next
  case (PExporter e)
  then show ?thesis using assms points_ok_exporter [OF assms, of e] by (auto simp: point_step_def split: sum.split)
qed

lemma points_ok_native:
  assumes "points_ok devs db" and "(i, r) \<in> set (fd_points db)" and "(j, s) \<in> set (fd_points db)" and "i \<noteq> j"
    and "fp_Kind r = ''native''" and "fp_Kind s = ''native''" and "fp_ExporterID r = fp_ExporterID s"
  shows "set (fp_IfIndexes r) \<noteq> set (fp_IfIndexes s)"
proof
  assume e: "set (fp_IfIndexes r) = set (fp_IfIndexes s)"
  have "point_row_ok devs db r" "point_row_ok devs db s" using assms(1-3) unfolding points_ok_def gm_all_def by force+
  then have "fp_IfIndexes r = fp_IfIndexes s" using e by (metis canonical_set point_row_ok_def)
  moreover have "\<not> rows_clash r s" using assms(1-4) unfolding points_ok_def by blast
  ultimately show False using assms(5-7) by (simp add: rows_clash_def)
qed

lemma points_ok_derived:
  assumes "points_ok devs db" and "(i, r) \<in> set (fd_points db)" and "(j, s) \<in> set (fd_points db)" and "i \<noteq> j"
    and "fp_Kind r = ''derived''" and "fp_Kind s = ''derived''" and "fp_DeviceID r \<noteq> ''''" and "fp_ExporterID r = fp_ExporterID s"
  shows "(fp_DeviceID r, fp_Iface r) \<noteq> (fp_DeviceID s, fp_Iface s)"
proof -
  have "\<not> rows_clash r s" using assms(1-4) unfolding points_ok_def by blast
  then show ?thesis using assms(5-8) by (auto simp: rows_clash_def)
qed

text \<open>
  C33: The point table under any sequence of statements: creating, editing and deleting points, the native points of
  the collector, its updates, the retention and the deletion of exporters. Every row keeps a non-empty ascending list of
  non-zero ifIndexes, belongs to an exporter that still exists and names no device or an existing one; no two native points
  of an exporter stand for the same set of interfaces and no two derived points that name a device for the same port of it
  (a derived point without a device holds NULL there and clashes with nothing); ids stay at or below the sequence that
  gives out new ones.
\<close>

theorem points_unique:
  assumes "points_ok devs db" and "db' = fold (point_step devs) ops db"
  shows "gm_wf (fd_points db')
    \<and> (\<forall>i r. (i, r) \<in> set (fd_points db') \<longrightarrow> fp_ID r = i \<and> i \<le> fd_pointSeq db' \<and> sorted (fp_IfIndexes r) \<and> distinct (fp_IfIndexes r)
        \<and> 0 \<notin> set (fp_IfIndexes r) \<and> fp_IfIndexes r \<noteq> [] \<and> gm_has (fd_exporters db') (fp_ExporterID r)
        \<and> (fp_DeviceID r = '''' \<or> fp_DeviceID r \<in> set devs))
    \<and> (\<forall>i r j s. (i, r) \<in> set (fd_points db') \<and> (j, s) \<in> set (fd_points db') \<and> i \<noteq> j \<and> fp_ExporterID r = fp_ExporterID s \<longrightarrow>
        (fp_Kind r = ''native'' \<and> fp_Kind s = ''native'' \<longrightarrow> set (fp_IfIndexes r) \<noteq> set (fp_IfIndexes s))
        \<and> (fp_Kind r = ''derived'' \<and> fp_Kind s = ''derived'' \<and> fp_DeviceID r \<noteq> '''' \<longrightarrow> (fp_DeviceID r, fp_Iface r) \<noteq> (fp_DeviceID s, fp_Iface s)))"
proof -
  have ok: "points_ok devs db'" unfolding assms(2) using assms(1) by (induction ops arbitrary: db) (simp_all add: point_step_ok)
  have row: "fp_ID r = i \<and> point_row_ok devs db' r" if "(i, r) \<in> set (fd_points db')" for i r
    using ok that unfolding points_ok_def keyed_def gm_all_def by force
  have "sorted (fp_IfIndexes r) \<and> distinct (fp_IfIndexes r) \<and> 0 \<notin> set (fp_IfIndexes r)" if "point_row_ok devs db' r" for r
  proof -
    have "fp_IfIndexes r = sorted_list_of_set (set (fp_IfIndexes r) - {0})" using that canonical_set by (metis point_row_ok_def)
    then show ?thesis by (metis Diff_iff finite_Diff finite_set insertI1 set_sorted_list_of_set sorted_list_of_set.distinct_sorted_key_list_of_set sorted_sorted_list_of_set)
  qed
  then show ?thesis
  proof (intro conjI allI impI)
    show "gm_wf (fd_points db')" using ok by (simp add: points_ok_def keyed_def)
  next
    fix i r assume "(i, r) \<in> set (fd_points db')"
    then show "fp_ID r = i" "i \<le> fd_pointSeq db'" "fp_IfIndexes r \<noteq> []" "gm_has (fd_exporters db') (fp_ExporterID r)"
      "fp_DeviceID r = '''' \<or> fp_DeviceID r \<in> set devs"
      using row [of i r] by (auto simp: point_row_ok_def point_refs_ok_def device_ref_ok_def)
  next
    fix i r j s assume "(i, r) \<in> set (fd_points db') \<and> (j, s) \<in> set (fd_points db') \<and> i \<noteq> j \<and> fp_ExporterID r = fp_ExporterID s"
      and "fp_Kind r = ''native'' \<and> fp_Kind s = ''native''"
    then show "set (fp_IfIndexes r) \<noteq> set (fp_IfIndexes s)" using points_ok_native [OF ok, of i r j s] by simp
  next
    fix i r j s assume "(i, r) \<in> set (fd_points db') \<and> (j, s) \<in> set (fd_points db') \<and> i \<noteq> j \<and> fp_ExporterID r = fp_ExporterID s"
      and "fp_Kind r = ''derived'' \<and> fp_Kind s = ''derived'' \<and> fp_DeviceID r \<noteq> ''''"
    then show "(fp_DeviceID r, fp_Iface r) \<noteq> (fp_DeviceID s, fp_Iface s)" using points_ok_derived [OF ok, of i r j s] by simp
  qed (use row in blast)+
qed

definition demo_point :: FlowPoint where
  "demo_point = \<lparr>fp_ID = 0, fp_ExporterID = 7, fp_Name = ''wan'', fp_Kind = ''native'', fp_IfIndexes = [13, 10, 0, 13], fp_Facing = ''up'', fp_PortSide = '''',
     fp_DeviceID = '''', fp_Iface = '''', fp_LocalInternal = False, fp_ExcludeAttach = [], fp_Note = '''', fp_Auto = True, fp_Enabled = True, fp_CreatedAt = 0\<rparr>"

definition demo_exporter :: "int \<Rightarrow> FlowExporter" where
  "demo_exporter i = \<lparr>fe_ID = i, fe_Name = ''fw'', fe_AddressText = ''10.0.0.1'', fe_Address = Some (Addr4 [10,0,0,1]), fe_Kind = ''opnsense'', fe_DeviceID = '''',
     fe_Enabled = True, fe_Auto = False, fe_SamplingOverride = 0, fe_NATAddresses = [], fe_LastSeen = zero_time, fe_Protocol = '''', fe_SamplingRate = 1,
     fe_Datagrams = 0, fe_Flows = 0, fe_Bytes = 0, fe_DecodeErrors = 0, fe_TemplateMisses = 0, fe_SeqLost = 0, fe_ClockSkewMs = 0,
     fe_LastError = Inl '''', fe_LastErrorAt = zero_time, fe_CreatedAt = zero_time\<rparr>"

definition demo_points_db :: flow_db where
  "demo_points_db = demo_flow_db\<lparr>fd_exporters := [(7, demo_exporter 7)]\<rparr>"

lemma demo_points_ok: "points_ok devs demo_points_db"
  by (simp add: points_ok_def demo_points_db_def demo_flow_db_def keyed_def)

theorem points_unique_witness:
  "list_all (\<lambda>(i, r). fp_ID r = i \<and> sorted (fp_IfIndexes r) \<and> 0 \<notin> set (fp_IfIndexes r) \<and> fp_DeviceID r \<in> {'''', ''sw1''})
     (fd_points (fold (point_step [''sw1'']) [PCreate 0 (demo_point\<lparr>fp_Kind := ''derived'', fp_DeviceID := ''sw1'', fp_Iface := ''ether1''\<rparr>),
        PEnsure 0 [demo_point]] demo_points_db))"
proof -
  let ?ops = "[PCreate 0 (demo_point\<lparr>fp_Kind := ''derived'', fp_DeviceID := ''sw1'', fp_Iface := ''ether1''\<rparr>), PEnsure 0 [demo_point]]"
  show ?thesis using points_unique [OF demo_points_ok refl, of "[''sw1'']" ?ops] unfolding list_all_iff by fastforce
qed

text \<open>A native point of exactly these interfaces.\<close>

definition has_native :: "int \<Rightarrow> u32 list \<Rightarrow> flow_db \<Rightarrow> bool" where
  "has_native e ifs db \<longleftrightarrow> list_ex (\<lambda>(_, r). fp_Kind r = ''native'' \<and> fp_ExporterID r = e \<and> fp_IfIndexes r = ifs) (fd_points db)"

lemma clash_has_native:
  assumes "points_ok devs db"
  shows "point_clash (new_point now (p\<lparr>fp_Kind := ''native'', fp_Auto := True\<rparr>) db) db \<longleftrightarrow> has_native (fp_ExporterID p) (canonicalIfIndexes (fp_IfIndexes p)) db"
proof -
  have row: "fp_ID r = i \<and> i \<le> fd_pointSeq db \<and> canonicalIfIndexes (fp_IfIndexes r) = fp_IfIndexes r" if "(i, r) \<in> set (fd_points db)" for i r
    using assms that unfolding points_ok_def keyed_def gm_all_def point_row_ok_def by force
  show ?thesis unfolding point_clash_iff has_native_def list_ex_iff
    using row formatIfIndexes_inj by (auto simp: rows_clash_def) (fastforce, metis zle_add1_eq_le less_irrefl)
qed

lemma has_native_put: "points_ok devs db \<Longrightarrow> has_native e ifs db \<Longrightarrow> has_native e ifs (put_point (new_point now p db) db)"
proof -
  assume ok: "points_ok devs db" and "has_native e ifs db"
  then obtain i r where r: "(i, r) \<in> set (fd_points db)" "fp_Kind r = ''native'' \<and> fp_ExporterID r = e \<and> fp_IfIndexes r = ifs"
    by (auto simp: has_native_def list_ex_iff)
  have w: "gm_wf (fd_points db)" using ok by (simp add: points_ok_def keyed_def)
  have "i \<noteq> fd_pointSeq db + 1" using ok r(1) unfolding points_ok_def keyed_def gm_all_def point_row_ok_def by force
  then have "gm_get (fd_points (put_point (new_point now p db) db)) i = Some r" using gm_get_iff_in_set [OF w] r(1) by (simp add: put_point_def)
  then show ?thesis using r(2) gm_get_in_set by (fastforce simp: has_native_def list_ex_iff)
qed

lemma has_native_new:
  "fp_Kind p = ''native'' \<Longrightarrow> has_native (fp_ExporterID p) (canonicalIfIndexes (fp_IfIndexes p)) (put_point (new_point now p db) db)"
proof -
  assume k: "fp_Kind p = ''native''"
  let ?db = "put_point (new_point now p db) db"
  have "gm_get (fd_points ?db) (fd_pointSeq db + 1) = Some (new_point now p db)" by (simp add: put_point_def)
  then have "(fd_pointSeq db + 1, new_point now p db) \<in> set (fd_points ?db)" by (rule gm_get_in_set)
  then show ?thesis unfolding has_native_def list_ex_iff by (rule bexI [rotated]) (simp add: k)
qed

lemma ensure_has:
  "points_ok devs db \<Longrightarrow> ensure_points devs now ps db = Inr (c, db') \<Longrightarrow>
   (\<forall>e ifs. has_native e ifs db \<longrightarrow> has_native e ifs db') \<and>
   (\<forall>p \<in> set ps. canonicalIfIndexes (fp_IfIndexes p) \<noteq> [] \<and> has_native (fp_ExporterID p) (canonicalIfIndexes (fp_IfIndexes p)) db')"
proof (induction ps arbitrary: db c)
  case (Cons p ps)
  let ?q = "p\<lparr>fp_Kind := ''native'', fp_Auto := True\<rparr>"
  let ?r = "new_point now ?q db" and ?c = "canonicalIfIndexes (fp_IfIndexes p)"
  let ?db = "if point_clash ?r db then db else put_point ?r db"
  obtain c' where E: "?c \<noteq> []" "ensure_points devs now ps ?db = Inr (c', db')" and f: "point_clash ?r db \<or> point_refs_ok devs ?r db"
    using ensure_step [OF Cons.prems(2)] unfolding Let_def by blast
  have ok: "points_ok devs ?db" using Cons.prems(1) f E(1) by (auto intro!: points_ok_put)
  have h: "has_native (fp_ExporterID p) ?c ?db"
    using clash_has_native [OF Cons.prems(1), of now p] has_native_new [of ?q now db] by simp
  have m: "has_native e ifs db \<Longrightarrow> has_native e ifs ?db" for e ifs using has_native_put [OF Cons.prems(1)] by simp
  show ?case using Cons.IH [OF ok E(2)] h m E(1) by simp
qed simp

lemma ensure_none:
  "points_ok devs db \<Longrightarrow> (\<And>p. p \<in> set ps \<Longrightarrow> canonicalIfIndexes (fp_IfIndexes p) \<noteq> [] \<and> has_native (fp_ExporterID p) (canonicalIfIndexes (fp_IfIndexes p)) db)
   \<Longrightarrow> ensure_points devs now ps db = Inr (replicate (length ps) False, db)"
  by (induction ps) (simp_all add: clash_has_native Let_def)

lemma ensure_old_rows:
  "points_ok devs db \<Longrightarrow> ensure_points devs now ps db = Inr (c, db') \<Longrightarrow> gm_get (fd_points db) i = Some r \<Longrightarrow> gm_get (fd_points db') i = Some r"
proof (induction ps arbitrary: db c)
  case (Cons p ps)
  let ?r = "new_point now (p\<lparr>fp_Kind := ''native'', fp_Auto := True\<rparr>) db"
  let ?db = "if point_clash ?r db then db else put_point ?r db"
  obtain c' where E: "canonicalIfIndexes (fp_IfIndexes p) \<noteq> []" "ensure_points devs now ps ?db = Inr (c', db')" and f: "point_clash ?r db \<or> point_refs_ok devs ?r db"
    using ensure_step [OF Cons.prems(2)] unfolding Let_def by blast
  have ok: "points_ok devs ?db" using Cons.prems(1) f E(1) by (auto intro!: points_ok_put)
  have "(i, r) \<in> set (fd_points db)" using Cons.prems(3) gm_get_in_set by fast
  then have "i \<noteq> fd_pointSeq db + 1" using Cons.prems(1) unfolding points_ok_def keyed_def gm_all_def point_row_ok_def by force
  then have "gm_get (fd_points ?db) i = Some r" using Cons.prems(3) by (simp add: put_point_def)
  then show ?case using Cons.IH [OF ok E(2)] by blast
qed simp

text \<open>
  Ensuring native points is idempotent and additive. When the transaction succeeds, afterwards every requested
  set of interfaces has its native point, the points that were there are as before (an admin's edit of such a point
  included), and running the same request again, at any later time, creates nothing and leaves the tables as they are.
\<close>

theorem ensure_idempotent:
  assumes "points_ok devs db" and "EnsureNativeFlowPoints devs now ps db = Inr (c, db')"
  shows "(\<forall>p \<in> set ps. has_native (fp_ExporterID p) (canonicalIfIndexes (fp_IfIndexes p)) db')
    \<and> (\<forall>i r. GetFlowPoint db i = Some r \<longrightarrow> GetFlowPoint db' i = Some r)
    \<and> EnsureNativeFlowPoints devs later ps db' = Inr (replicate (length ps) False, db')"
proof -
  have E: "ensure_points devs now ps db = Inr (c, db')" using assms(2) by (simp add: EnsureNativeFlowPoints_def)
  have ok: "points_ok devs db'" using points_ok_ensure [OF assms(1) E] .
  show ?thesis
  proof (intro conjI allI impI)
    show "\<forall>p \<in> set ps. has_native (fp_ExporterID p) (canonicalIfIndexes (fp_IfIndexes p)) db'" using ensure_has [OF assms(1) E] by blast
    show "EnsureNativeFlowPoints devs later ps db' = Inr (replicate (length ps) False, db')"
      unfolding EnsureNativeFlowPoints_def using ensure_has [OF assms(1) E] by (intro ensure_none [OF ok]) blast
  next
    fix i r assume "GetFlowPoint db i = Some r"
    then show "GetFlowPoint db' i = Some r" using ensure_old_rows [OF assms(1) E] by (simp add: GetFlowPoint_def)
  qed
qed

lemma demo_canonical: "canonicalIfIndexes [13, 10, 0, 13] = [10, 13]"
  by (simp add: canonicalIfIndexes_def)

theorem ensure_idempotent_witness:
  "\<exists>db'. EnsureNativeFlowPoints [] 0 [demo_point] demo_points_db = Inr ([True], db') \<and> EnsureNativeFlowPoints [] 5 [demo_point] db' = Inr ([False], db')"
proof -
  let ?r = "new_point 0 (demo_point\<lparr>fp_Kind := ''native'', fp_Auto := True\<rparr>) demo_points_db"
  have i: "fp_IfIndexes demo_point = [13, 10, 0, 13]" by (simp add: demo_point_def)
  have "point_refs_ok [] ?r demo_points_db"
    by (simp add: point_refs_ok_def) (simp add: new_point_def demo_point_def demo_points_db_def device_ref_ok_def gm_has_def gm_get_def)
  moreover have "\<not> point_clash ?r demo_points_db" by (simp add: point_clash_def demo_points_db_def demo_flow_db_def)
  ultimately have E: "EnsureNativeFlowPoints [] 0 [demo_point] demo_points_db = Inr ([True], put_point ?r demo_points_db)"
    by (simp add: EnsureNativeFlowPoints_def i demo_canonical Let_def)
  show ?thesis using E ensure_idempotent [OF demo_points_ok E, of 5] by auto
qed

end
