(* ===== verification/Native_Points.thy ===== *)
theory Native_Points
  imports Flow_Points
begin

text \<open>
  The native observation points (\<open>flow/points.go\<close>): which point an exporter's interface gets, on what evidence it
  faces the Internet, their creation after a flush and their periodic recomputation. The egress rows of the devices
  (\<open>database/queries/uplinks.go\<close>) are read here; who writes them (the pollers) is not part of the model, nor is the rule
  that ages them (\<open>UplinkAge\<close>, an argument). A query that fails is a flag of \<open>point_reads\<close>.
\<close>

subsection \<open>Devices and their egress rows\<close>

record DeviceUplink =
  du_ID :: string
  du_DeviceID :: string
  du_Kind :: string
  du_Interface :: string
  du_IfaceType :: string
  du_GatewayIP :: string
  du_LastSeen :: time

text \<open>The tables \<open>devices\<close>, \<open>device_uplinks\<close> and \<open>interfaces\<close> (device, name, type).\<close>

record net_db =
  nd_devices :: "Device list"
  nd_uplinks :: "DeviceUplink list"
  nd_interfaces :: "(string \<times> string \<times> string) list"

type_synonym uplink_age = "(Device \<Rightarrow> time \<Rightarrow> duration \<times> bool) option"

definition device_ids :: "net_db \<Rightarrow> string list" where
  "device_ids nd = map dev_ID (nd_devices nd)"

definition PollingPaused :: "Device \<Rightarrow> time \<Rightarrow> bool" where
  "PollingPaused d now = (case dev_PollingPausedUntil d of None \<Rightarrow> False | Some u \<Rightarrow> now < u)"

definition DefaultUplinkWindow :: duration where "DefaultUplinkWindow = minutes 10"

definition order_uplinks :: "DeviceUplink list \<Rightarrow> DeviceUplink list" where
  "order_uplinks us = sort_key (\<lambda>u. str_key (du_DeviceID u)) (sort_key (\<lambda>u. str_key (du_Kind u)) (sort_key (\<lambda>u. str_key (du_Interface u)) us))"

text \<open>The bound and stored texts of a time compare to the second.\<close>

definition listUplinksSince :: "time \<Rightarrow> net_db \<Rightarrow> DeviceUplink list" where
  "listUplinksSince since nd = order_uplinks (filter (\<lambda>u. unix since \<le> unix (du_LastSeen u)) (nd_uplinks nd))"

definition uplink_rules :: "uplink_age \<Rightarrow> time \<Rightarrow> Device list \<Rightarrow> (string, time \<times> bool) gomap" where
  "uplink_rules age now ds = fold (\<lambda>d m.
     let (window, paused) = (case age of None \<Rightarrow> (DefaultUplinkWindow, PollingPaused d now) | Some f \<Rightarrow> f d now)
     in gm_put (dev_ID d) (now - window, paused) m) ds []"

definition ListFreshDeviceUplinks :: "uplink_age \<Rightarrow> time \<Rightarrow> net_db \<Rightarrow> DeviceUplink list" where
  "ListFreshDeviceUplinks age now nd =
    (let rules = uplink_rules age now (nd_devices nd)
     in filter (\<lambda>u. case gm_get rules (du_DeviceID u) of None \<Rightarrow> False | Some (cutoff, paused) \<Rightarrow> paused \<or> \<not> du_LastSeen u < cutoff)
          (listUplinksSince zero_time nd))"

definition ListDeviceUplinks :: "duration \<Rightarrow> time \<Rightarrow> net_db \<Rightarrow> DeviceUplink list" where
  "ListDeviceUplinks notOlderThan now nd =
    (let paused = map dev_ID (filter (\<lambda>d. case dev_PollingPausedUntil d of None \<Rightarrow> False | Some u \<Rightarrow> unix now < unix u) (nd_devices nd))
     in order_uplinks (filter (\<lambda>u. unix (now - notOlderThan) \<le> unix (du_LastSeen u) \<or> du_DeviceID u \<in> set paused) (nd_uplinks nd)))"

text \<open>\<open>topology.IsVPNIfaceType\<close>.\<close>

definition to_lower :: "char \<Rightarrow> char" where
  "to_lower c = (if 65 \<le> (of_char c :: nat) \<and> (of_char c :: nat) \<le> 90 then char_of ((of_char c :: nat) + 32) else c)"

definition vpnIfaceTypes :: "string list" where
  "vpnIfaceTypes = [''wg'', ''wireguard'', ''eoip'', ''eoip-tunnel'', ''gre'', ''gre-tunnel'', ''ipip'', ''vxlan'',
     ''ovpn-out'', ''l2tp-out'', ''sstp-out'', ''pptp-out'', ''zerotier'']"

definition IsVPNIfaceType :: "string \<Rightarrow> bool" where
  "IsVPNIfaceType t \<longleftrightarrow> map to_lower t \<in> set vpnIfaceTypes"

subsection \<open>The context of a batch of points\<close>

record point_reads =
  rd_exporters :: bool
  rd_ifaces :: bool
  rd_types :: "string \<Rightarrow> bool"
  rd_uplinks :: bool
  rd_prefixes :: bool
  rd_points :: bool
  rd_allUplinks :: bool

record pointContext =
  pc_exporters :: "(int, FlowExporter) gomap"
  pc_ifaces :: "(int \<times> u32, FlowIface) gomap"
  pc_uplinks :: "DeviceUplink list"
  pc_ifTypes :: "(string, (string, string) gomap) gomap"
  pc_internal :: "prefix list"

text \<open>\<open>ORDER BY name, id\<close>, and \<open>ORDER BY exporter_id, if_index\<close> over all exporters.\<close>

definition ListFlowExporters :: "flow_db \<Rightarrow> FlowExporter list" where
  "ListFlowExporters db = sort_key (\<lambda>e. str_key (fe_Name e)) (sort_key fe_ID (map snd (fd_exporters db)))"

definition ListFlowIfaces :: "int \<Rightarrow> flow_db \<Rightarrow> FlowIface list" where
  "ListFlowIfaces e db = sort_key fi_ExporterID (sort_key fi_IfIndex (filter (\<lambda>f. e = 0 \<or> fi_ExporterID f = e) (map snd (fd_ifaces db))))"

definition ListFlowPrefixes :: "flow_db \<Rightarrow> FlowPrefix list" where
  "ListFlowPrefixes db = List.map_filter (\<lambda>(s, r). map_option (\<lambda>p. r\<lparr>fx_Prefix := prefix_Masked p\<rparr>) (ParsePrefix s))
     (sort_key (\<lambda>(s, _). str_key s) (fd_prefixes db))"

text \<open>A Go map filled from a list, later entries over earlier ones.\<close>

definition index_by :: "('v \<Rightarrow> 'k) \<Rightarrow> 'v list \<Rightarrow> ('k, 'v) gomap" where
  "index_by f xs = fold (\<lambda>x. gm_put (f x) x) xs []"

definition device_types :: "point_reads \<Rightarrow> net_db \<Rightarrow> string \<Rightarrow> (string, string) gomap" where
  "device_types rd nd d = (if rd_types rd d
     then fold (\<lambda>(_, n, t). gm_put n t) (sort_key (\<lambda>(_, n, _). str_key n) (filter (\<lambda>(x, _, _). x = d) (nd_interfaces nd))) [] else [])"

definition loadPointContext :: "point_reads \<Rightarrow> settings \<Rightarrow> uplink_age \<Rightarrow> time \<Rightarrow> net_db \<Rightarrow> flow_db \<Rightarrow> pointContext option" where
  "loadPointContext rd get age now nd db =
    (if \<not> rd_exporters rd \<or> \<not> rd_ifaces rd \<or> \<not> rd_uplinks rd then None
     else Some \<lparr>pc_exporters = index_by fe_ID (ListFlowExporters db),
       pc_ifaces = index_by (\<lambda>f. (fi_ExporterID f, fi_IfIndex f)) (ListFlowIfaces 0 db),
       pc_uplinks = ListFreshDeviceUplinks age now nd,
       pc_ifTypes = fold (\<lambda>e m. if fe_DeviceID e \<noteq> '''' \<and> \<not> gm_has m (fe_DeviceID e)
          then gm_put (fe_DeviceID e) (device_types rd nd (fe_DeviceID e)) m else m) (ListFlowExporters db) [],
       pc_internal = (if rd_prefixes rd
          then map fx_Prefix (filter (\<lambda>p. fx_Class p = ''internal'' \<or> fx_Class p = ''vpn'') (ListFlowPrefixes db)) else [])
          @ prefixListSetting get ''flow_internal_prefixes''\<rparr>)"

subsection \<open>The point of an interface\<close>

definition no_iface :: FlowIface where
  "no_iface = new_iface 0 0 ''''"

definition deviceIfaceFacesUp :: "pointContext \<Rightarrow> string \<Rightarrow> FlowIface \<Rightarrow> bool" where
  "deviceIfaceFacesUp ctx dev f =
    (if fi_Name f = '''' then False
     else let typ = (if fi_Type f \<noteq> '''' then fi_Type f
            else case gm_get (pc_ifTypes ctx) dev of None \<Rightarrow> '''' | Some m \<Rightarrow> (case gm_get m (fi_Name f) of None \<Rightarrow> '''' | Some t \<Rightarrow> t))
          in IsVPNIfaceType typ \<or>
             list_ex (\<lambda>u. du_DeviceID u = dev \<and> du_Interface u = fi_Name f \<and>
               (du_Kind u = ''default-route'' \<and> \<not> IsVPNIfaceType (du_IfaceType u) \<or> du_Kind u = ''vpn'' \<or> du_Kind u = ''gateway-host'')) (pc_uplinks ctx))"

text \<open>The exporter's own address, a zone kept: a prefix contains no address with a zone.\<close>

definition own_address :: "FlowExporter \<Rightarrow> addr \<times> string" where
  "own_address e = (case ParseAddr (fe_AddressText e) of None \<Rightarrow> (NoAddr, '''')
     | Some (a, z) \<Rightarrow> (Unmap a, if Is4In6 a then '''' else z))"

definition contains_zoned :: "prefix \<Rightarrow> addr \<times> string \<Rightarrow> bool" where
  "contains_zoned p az \<longleftrightarrow> snd az = '''' \<and> prefix_Contains p (fst az)"

definition learnedIfaceFacesUp :: "pointContext \<Rightarrow> FlowExporter \<Rightarrow> FlowIface \<Rightarrow> bool" where
  "learnedIfaceFacesUp ctx e f =
    (if fi_Role f = ''wan'' \<or> fi_Role f = ''vpn'' then True
     else if fi_Role f = ''lan'' \<or> fi_Role f = ''other'' then False
     else let hints = parsePrefixCSV (fi_Hint f); self = own_address e
          in if hints = [] then False
             else \<not> list_ex (\<lambda>h. IsValid (fst self) \<and> contains_zoned h self \<or> list_ex (prefix_Overlaps h) (pc_internal ctx)) hints)"

text \<open>The separator is the middle dot of the source, as UTF-8.\<close>

definition dot_sep :: string where
  "dot_sep = [CHR '' '', char_of (194 :: nat), char_of (183 :: nat), CHR '' '']"

definition nativeSpec :: "pointContext \<Rightarrow> FlowExporter \<Rightarrow> u32 \<Rightarrow> FlowPoint" where
  "nativeSpec ctx e idx =
    (let f = (case gm_get (pc_ifaces ctx) (fe_ID e, idx) of None \<Rightarrow> no_iface | Some f \<Rightarrow> f);
         lab = (if fi_Name f = '''' then ''if#'' @ nat_string (unat idx) else fi_Name f);
         p = \<lparr>fp_ID = 0, fp_ExporterID = fe_ID e, fp_Name = fe_Name e @ dot_sep @ lab, fp_Kind = ''native'', fp_IfIndexes = [idx], fp_Facing = ''down'',
              fp_PortSide = '''', fp_DeviceID = '''', fp_Iface = '''', fp_LocalInternal = (fe_Kind e = ''opnsense''), fp_ExcludeAttach = [], fp_Note = '''',
              fp_Auto = True, fp_Enabled = True, fp_CreatedAt = zero_time\<rparr>
     in if fe_DeviceID e \<noteq> ''''
        then p\<lparr>fp_PortSide := ''same'', fp_DeviceID := fe_DeviceID e, fp_Iface := fi_Name f,
               fp_Facing := (if deviceIfaceFacesUp ctx (fe_DeviceID e) f then ''up'' else ''down'')\<rparr>
        else p\<lparr>fp_Facing := (if learnedIfaceFacesUp ctx e f then ''up'' else ''down'')\<rparr>)"

subsection \<open>Creating points\<close>

definition maxPointNamesLogged :: nat where "maxPointNamesLogged = 5"

text \<open>A log line: the exporter, the names and facings it lists, how many more there are and how many lines were held back.\<close>

record point_line =
  pl_exporter :: int
  pl_names :: "(string \<times> string) list"
  pl_more :: nat
  pl_held :: int

definition log_point :: "time \<Rightarrow> FlowPoint list \<Rightarrow> int \<Rightarrow> (int, logThrottle) gomap \<times> point_line list \<Rightarrow> (int, logThrottle) gomap \<times> point_line list" where
  "log_point now news i st =
    (let (plog, out) = st;
         lt = (case gm_get plog i of None \<Rightarrow> zero_throttle | Some t \<Rightarrow> t);
         ((ok, held), lt') = allow now wireLogEvery lt;
         names = map (\<lambda>p. (fp_Name p, fp_Facing p)) (filter (\<lambda>p. fp_ExporterID p = i) news)
     in (gm_put i lt' plog, if ok then out @ [\<lparr>pl_exporter = i, pl_names = take maxPointNamesLogged names,
           pl_more = length names - maxPointNamesLogged, pl_held = held\<rparr>] else out))"

definition first_seen_ids :: "FlowPoint list \<Rightarrow> int list" where
  "first_seen_ids ps = rev (remdups (rev (map fp_ExporterID ps)))"

definition native_cands :: "pointContext \<Rightarrow> (int \<times> u32) list \<Rightarrow> FlowPoint list" where
  "native_cands ctx cands = List.map_filter (\<lambda>(i, idx). if idx = 0 then None else map_option (\<lambda>e. nativeSpec ctx e idx) (gm_get (pc_exporters ctx) i)) cands"

text \<open>\<open>now\<close> is read for the context, \<open>later\<close> for the log; \<open>ok\<close> says whether the transaction gets through.\<close>

definition ensureNativePoints :: "point_reads \<Rightarrow> bool \<Rightarrow> settings \<Rightarrow> uplink_age \<Rightarrow> time \<Rightarrow> time \<Rightarrow> net_db \<Rightarrow> (int \<times> u32) list \<Rightarrow>
    flow_db \<times> (int, logThrottle) gomap \<Rightarrow> flow_db \<times> (int, logThrottle) gomap \<times> point_line list" where
  "ensureNativePoints rd ok get age now later nd cands st =
    (let (db, plog) = st
     in case loadPointContext rd get age now nd db of None \<Rightarrow> (db, plog, [])
        | Some ctx \<Rightarrow>
          (let ps = native_cands ctx cands
           in if \<not> ok then (db, plog, [])
              else case EnsureNativeFlowPoints (device_ids nd) now ps db of
                Inl _ \<Rightarrow> (db, plog, [])
              | Inr (created, db') \<Rightarrow>
                  (let news = map fst (filter snd (zip ps created));
                       (plog', out) = fold (log_point later news) (first_seen_ids news) (plog, [])
                   in (db', plog', out))))"

subsection \<open>Recomputing points\<close>

definition is_egress :: "DeviceUplink \<Rightarrow> bool" where
  "is_egress u \<longleftrightarrow> du_Kind u = ''default-route'' \<or> du_Kind u = ''vpn'' \<or> du_Kind u = ''gateway-host''"

definition staleUplinkDevices :: "DeviceUplink list \<Rightarrow> DeviceUplink list \<Rightarrow> string list" where
  "staleUplinkDevices fresh al = map du_DeviceID (filter (\<lambda>u. is_egress u \<and> du_DeviceID u \<notin> set (map du_DeviceID fresh)) al)"

definition kept_facing :: "string list \<Rightarrow> FlowExporter \<Rightarrow> FlowPoint \<Rightarrow> FlowPoint \<Rightarrow> FlowPoint" where
  "kept_facing stale e p w =
    (if fe_DeviceID e \<noteq> '''' \<and> fp_Facing w \<noteq> fp_Facing p \<and>
        (fe_DeviceID e \<in> set stale \<or> fp_Facing p = ''up'' \<and> fp_Facing w = ''down'' \<and> fp_Iface w = fp_Iface p)
     then w\<lparr>fp_Facing := fp_Facing p\<rparr> else w)"

definition point_want :: "pointContext \<Rightarrow> string list \<Rightarrow> FlowPoint \<Rightarrow> FlowPoint option" where
  "point_want ctx stale p =
    (if fp_Kind p \<noteq> ''native'' \<or> \<not> fp_Auto p \<or> length (fp_IfIndexes p) \<noteq> 1 then None
     else case gm_get (pc_exporters ctx) (fp_ExporterID p) of None \<Rightarrow> None
       | Some e \<Rightarrow>
         (let w = kept_facing stale e p (nativeSpec ctx e (fp_IfIndexes p ! 0))
          in if fp_Name w = fp_Name p \<and> fp_Facing w = fp_Facing p \<and> fp_PortSide w = fp_PortSide p \<and> fp_DeviceID w = fp_DeviceID p \<and> fp_Iface w = fp_Iface p
             then None else Some (w\<lparr>fp_ID := fp_ID p\<rparr>)))"

definition reconcile_point :: "(int \<Rightarrow> bool) \<Rightarrow> string list \<Rightarrow> pointContext \<Rightarrow> string list \<Rightarrow> FlowPoint \<Rightarrow> flow_db \<Rightarrow> flow_db" where
  "reconcile_point ok devs ctx stale p db = (case point_want ctx stale p of None \<Rightarrow> db
     | Some w \<Rightarrow> if ok (fp_ID p) then case_sum (\<lambda>_. db) (\<lambda>x. x) (UpdateAutoFlowPoint devs w db) else db)"

text \<open>\<open>wall\<close> is the clock \<open>ListDeviceUplinks\<close> reads itself.\<close>

definition reconcileNativePoints :: "point_reads \<Rightarrow> (int \<Rightarrow> bool) \<Rightarrow> settings \<Rightarrow> uplink_age \<Rightarrow> time \<Rightarrow> time \<Rightarrow> net_db \<Rightarrow> flow_db \<Rightarrow> flow_db" where
  "reconcileNativePoints rd ok get age now wall nd db = (case loadPointContext rd get age now nd db of None \<Rightarrow> db
     | Some ctx \<Rightarrow>
       if \<not> rd_points rd \<or> \<not> rd_allUplinks rd then db
       else fold (reconcile_point ok (device_ids nd) ctx (staleUplinkDevices (pc_uplinks ctx) (ListDeviceUplinks (hours (365 * 24)) wall nd)))
              (ListFlowPoints db) db)"

subsection \<open>Indexes\<close>

lemma index_by_get:
  assumes "distinct (map f xs)" shows "gm_get (index_by f xs) k = Some v \<longleftrightarrow> v \<in> set xs \<and> f v = k"
proof -
  have "gm_get (fold (\<lambda>x. gm_put (f x) x) xs m) k = Some v \<longleftrightarrow> (v \<in> set xs \<and> f v = k) \<or> (k \<notin> f ` set xs \<and> gm_get m k = Some v)" for m
    using assms
  proof (induction xs arbitrary: m)
    case (Cons x xs)
    then show ?case by (auto simp: image_iff)
  qed simp
  then show ?thesis by (simp add: index_by_def)
qed

lemma index_by_keyed:
  assumes "keyed f m" and "mset xs = mset (map snd m)" shows "gm_get (index_by f xs) k = gm_get m k"
proof -
  have K: "map f (map snd m) = map fst m" using assms(1) by (auto simp: keyed_def)
  have "distinct (map f (map snd m))" unfolding K using assms(1) by (simp add: keyed_def gm_wf_def)
  moreover have "mset (map f xs) = mset (map f (map snd m))" using assms(2) by (metis mset_map)
  ultimately have d: "distinct (map f xs)" by (metis mset_eq_imp_distinct_iff)
  have "set xs = snd ` set m" using assms(2) by (metis list.set_map mset_eq_setD)
  then have "gm_get (index_by f xs) k = Some v \<longleftrightarrow> gm_get m k = Some v" for v
    unfolding index_by_get [OF d] using assms(1) gm_get_iff_in_set [of m k v] by (force simp: keyed_def image_iff)
  then show ?thesis by (metis not_Some_eq)
qed

lemma ctx_exporters:
  "keyed fe_ID (fd_exporters db) \<Longrightarrow> loadPointContext rd get age now nd db = Some ctx \<Longrightarrow> gm_get (pc_exporters ctx) i = gm_get (fd_exporters db) i"
  by (auto simp: loadPointContext_def ListFlowExporters_def intro!: index_by_keyed split: if_splits)

lemma load_points_irrelevant:
  "loadPointContext rd get age now nd (db\<lparr>fd_points := x, fd_pointSeq := y\<rparr>) = loadPointContext rd get age now nd db"
  by (simp add: loadPointContext_def ListFlowExporters_def ListFlowIfaces_def ListFlowPrefixes_def)

subsection \<open>What a recomputation does to a row\<close>

definition reconciled :: "(int \<Rightarrow> bool) \<Rightarrow> string list \<Rightarrow> pointContext \<Rightarrow> string list \<Rightarrow> FlowPoint \<Rightarrow> FlowPoint" where
  "reconciled ok devs ctx stale r = (case point_want ctx stale r of None \<Rightarrow> r
     | Some w \<Rightarrow> if ok (fp_ID r) \<and> device_ref_ok devs (fp_DeviceID w) then auto_update w r else r)"

lemma auto_update_simps [simp]:
  "fp_ID (auto_update w r) = fp_ID r" "fp_ExporterID (auto_update w r) = fp_ExporterID r" "fp_Kind (auto_update w r) = fp_Kind r"
  "fp_IfIndexes (auto_update w r) = fp_IfIndexes r" "fp_Auto (auto_update w r) = fp_Auto r" "fp_Name (auto_update w r) = fp_Name w"
  "fp_Facing (auto_update w r) = fp_Facing w" "fp_PortSide (auto_update w r) = fp_PortSide w" "fp_DeviceID (auto_update w r) = fp_DeviceID w"
  "fp_Iface (auto_update w r) = fp_Iface w"
  by (simp_all add: auto_update_def)

lemma point_wantD: "point_want ctx stale r = Some w \<Longrightarrow> fp_Kind r = ''native'' \<and> fp_Auto r \<and> length (fp_IfIndexes r) = 1 \<and> fp_ID w = fp_ID r"
  by (auto simp: point_want_def Let_def split: if_splits option.splits)

lemma reconciled_simps [simp]:
  "fp_ID (reconciled ok devs ctx stale r) = fp_ID r" "fp_ExporterID (reconciled ok devs ctx stale r) = fp_ExporterID r"
  "fp_Kind (reconciled ok devs ctx stale r) = fp_Kind r" "fp_IfIndexes (reconciled ok devs ctx stale r) = fp_IfIndexes r"
  by (simp_all add: reconciled_def split: option.split)

lemma native_no_clash:
  assumes "points_ok devs db" and "gm_get (fd_points db) i = Some r" and "fp_Kind r = ''native''"
  shows "\<not> point_clash (auto_update w r) db"
proof
  assume "point_clash (auto_update w r) db"
  then obtain j s where s: "(j, s) \<in> set (fd_points db)" "j \<noteq> fp_ID r" "rows_clash (auto_update w r) s" unfolding point_clash_iff by auto
  have r: "(i, r) \<in> set (fd_points db)" using assms(2) by (rule gm_get_in_set)
  then have "fp_ID r = i" using assms(1) unfolding points_ok_def keyed_def by blast
  moreover have "rows_clash r s" using s(3) assms(3) by (simp add: rows_clash_def)
  ultimately show False using assms(1) r s(1,2) unfolding points_ok_def by blast
qed

lemma reconcile_point_row:
  assumes ok: "points_ok devs db" and r: "gm_get (fd_points db) (fp_ID r) = Some r"
  shows "gm_get (fd_points (reconcile_point f devs ctx stale r db)) i = (if i = fp_ID r then Some (reconciled f devs ctx stale r) else gm_get (fd_points db) i)"
    and "points_ok devs (reconcile_point f devs ctx stale r db)"
    and "\<exists>x y. reconcile_point f devs ctx stale r db = db\<lparr>fd_points := x, fd_pointSeq := y\<rparr>"
proof -
  have U: "UpdateAutoFlowPoint devs w db = (if device_ref_ok devs (fp_DeviceID w) then Inr (put_point (auto_update w r) db) else Inl ErrConstraint)"
    if "point_want ctx stale r = Some w" for w
    using point_wantD [OF that] native_no_clash [OF ok r] r by (simp add: UpdateAutoFlowPoint_def Let_def)
  show "gm_get (fd_points (reconcile_point f devs ctx stale r db)) i = (if i = fp_ID r then Some (reconciled f devs ctx stale r) else gm_get (fd_points db) i)"
    using U r by (auto simp: reconcile_point_def reconciled_def put_point_def split: option.split)
  show "points_ok devs (reconcile_point f devs ctx stale r db)"
    using ok points_ok_auto [OF ok] by (auto simp: reconcile_point_def split: option.split sum.split)
  show "\<exists>x y. reconcile_point f devs ctx stale r db = db\<lparr>fd_points := x, fd_pointSeq := y\<rparr>"
  proof (cases "reconcile_point f devs ctx stale r db = db")
    case True
    then show ?thesis by (metis flow_db.surjective flow_db.update_convs(5,6))
  next
    case False
    then show ?thesis using U by (auto simp: reconcile_point_def put_point_def split: option.split if_splits)
  qed
qed

lemma reconcile_rows:
  assumes "points_ok devs db" and "distinct (map fp_ID ps)" and "\<And>p. p \<in> set ps \<Longrightarrow> gm_get (fd_points db) (fp_ID p) = Some p"
  shows "gm_get (fd_points (fold (reconcile_point f devs ctx stale) ps db)) i
      = map_option (\<lambda>r. if r \<in> set ps then reconciled f devs ctx stale r else r) (gm_get (fd_points db) i)
    \<and> points_ok devs (fold (reconcile_point f devs ctx stale) ps db)
    \<and> (\<exists>x y. fold (reconcile_point f devs ctx stale) ps db = db\<lparr>fd_points := x, fd_pointSeq := y\<rparr>)"
  using assms
proof (induction ps arbitrary: db)
  case Nil
  have "\<exists>x y. db = db\<lparr>fd_points := x, fd_pointSeq := y\<rparr>" by (metis flow_db.surjective flow_db.update_convs(5,6))
  then show ?case using Nil by (simp add: option.map_ident)
next
  case (Cons p ps)
  let ?d = "reconcile_point f devs ctx stale p db"
  have p: "gm_get (fd_points db) (fp_ID p) = Some p" using Cons.prems(3) by simp
  note R = reconcile_point_row [OF Cons.prems(1) p, of f ctx stale]
  have n: "fp_ID q \<noteq> fp_ID p" if "q \<in> set ps" for q using that Cons.prems(2) by (simp add: image_iff) metis
  have g: "gm_get (fd_points ?d) (fp_ID q) = Some q" if "q \<in> set ps" for q using n [OF that] Cons.prems(3) [of q] that R(1) by simp
  have D: "distinct (map fp_ID ps)" using Cons.prems(2) by simp
  note IH = Cons.IH [OF R(2) D g]
  obtain x y where d: "?d = db\<lparr>fd_points := x, fd_pointSeq := y\<rparr>" using R(3) by blast
  have "map_option (\<lambda>r. if r \<in> set ps then reconciled f devs ctx stale r else r) (gm_get (fd_points ?d) i)
      = map_option (\<lambda>r. if r \<in> set (p # ps) then reconciled f devs ctx stale r else r) (gm_get (fd_points db) i)"
  proof (cases "i = fp_ID p")
    case True
    have "reconciled f devs ctx stale p \<notin> set ps" using n [of "reconciled f devs ctx stale p"] by auto
    then show ?thesis using True p R(1) [of i] by simp
  next
    case False
    have "r \<noteq> p" if "gm_get (fd_points db) i = Some r" for r
    proof
      assume "r = p"
      then have "fp_ID p = i" using that Cons.prems(1) gm_get_in_set [OF that] unfolding points_ok_def keyed_def by blast
      then show False using False by simp
    qed
    then show ?thesis using False R(1) [of i] by (auto split: option.split simp: map_option_case)
  qed
  then show ?case using IH d by simp
qed

lemma list_points:
  assumes "points_ok devs db"
  shows "set (ListFlowPoints db) = snd ` set (fd_points db)" "distinct (map fp_ID (ListFlowPoints db))"
    "\<And>p. p \<in> set (ListFlowPoints db) \<Longrightarrow> gm_get (fd_points db) (fp_ID p) = Some p"
proof -
  have M: "mset (ListFlowPoints db) = mset (map snd (fd_points db))" by (simp add: ListFlowPoints_def)
  then show S: "set (ListFlowPoints db) = snd ` set (fd_points db)" by (metis list.set_map mset_eq_setD)
  have k: "keyed fp_ID (fd_points db)" using assms by (simp add: points_ok_def)
  then have K: "map fp_ID (map snd (fd_points db)) = map fst (fd_points db)" by (auto simp: keyed_def)
  have "distinct (map fp_ID (map snd (fd_points db)))" unfolding K using k by (simp add: keyed_def gm_wf_def)
  moreover have "mset (map fp_ID (ListFlowPoints db)) = mset (map fp_ID (map snd (fd_points db)))" using M by (metis mset_map)
  ultimately show "distinct (map fp_ID (ListFlowPoints db))" by (metis mset_eq_imp_distinct_iff)
  show "gm_get (fd_points db) (fp_ID p) = Some p" if "p \<in> set (ListFlowPoints db)" for p
    using that k gm_get_iff_in_set [of "fd_points db" "fp_ID p" p] unfolding S by (force simp: keyed_def)
qed

lemma reconcile_fold:
  assumes "points_ok devs db"
  shows "gm_get (fd_points (fold (reconcile_point f devs ctx stale) (ListFlowPoints db) db)) i = map_option (reconciled f devs ctx stale) (gm_get (fd_points db) i)"
    and "points_ok devs (fold (reconcile_point f devs ctx stale) (ListFlowPoints db) db)"
    and "\<exists>x y. fold (reconcile_point f devs ctx stale) (ListFlowPoints db) db = db\<lparr>fd_points := x, fd_pointSeq := y\<rparr>"
proof -
  note L = list_points [OF assms]
  note R = reconcile_rows [OF assms L(2,3), of f ctx stale i]
  have "r \<in> set (ListFlowPoints db)" if "gm_get (fd_points db) i = Some r" for r using gm_get_in_set [OF that] unfolding L(1) by force
  then show "gm_get (fd_points (fold (reconcile_point f devs ctx stale) (ListFlowPoints db) db)) i = map_option (reconciled f devs ctx stale) (gm_get (fd_points db) i)"
    using R by (auto split: option.split simp: map_option_case)
  show "points_ok devs (fold (reconcile_point f devs ctx stale) (ListFlowPoints db) db)" using R by blast
  show "\<exists>x y. fold (reconcile_point f devs ctx stale) (ListFlowPoints db) db = db\<lparr>fd_points := x, fd_pointSeq := y\<rparr>" using R by blast
qed

subsection \<open>Stability\<close>

lemma kept_facing_simps [simp]:
  "fp_Name (kept_facing stale e p w) = fp_Name w" "fp_PortSide (kept_facing stale e p w) = fp_PortSide w"
  "fp_DeviceID (kept_facing stale e p w) = fp_DeviceID w" "fp_Iface (kept_facing stale e p w) = fp_Iface w"
  by (simp_all add: kept_facing_def)

lemma kept_facing_again:
  "fp_Facing q = fp_Facing (kept_facing stale e p w) \<Longrightarrow> fp_Iface q = fp_Iface w \<Longrightarrow> fp_Facing (kept_facing stale e q w) = fp_Facing q"
  by (auto simp: kept_facing_def)

lemma point_want_again:
  assumes "point_want ctx stale r = Some w" shows "point_want ctx stale (auto_update w r) = None"
proof -
  obtain e where e: "gm_get (pc_exporters ctx) (fp_ExporterID r) = Some e" "w = kept_facing stale e r (nativeSpec ctx e (fp_IfIndexes r ! 0))\<lparr>fp_ID := fp_ID r\<rparr>"
    using assms by (auto simp: point_want_def Let_def split: if_splits option.splits)
  show ?thesis using point_wantD [OF assms] e kept_facing_again [of "auto_update w r" stale e r "nativeSpec ctx e (fp_IfIndexes r ! 0)"]
    by (simp add: point_want_def Let_def)
qed

lemma reconciled_again: "point_want ctx stale (reconciled f devs ctx stale r) = Some w \<Longrightarrow> \<not> (f (fp_ID r) \<and> device_ref_ok devs (fp_DeviceID w))"
  by (auto simp: reconciled_def point_want_again split: option.splits if_splits)

lemma fold_same: "(\<And>x. x \<in> set xs \<Longrightarrow> f x s = s) \<Longrightarrow> fold f xs s = s"
  by (induction xs) simp_all

lemma reconcile_twice:
  assumes "points_ok devs db" and "db' = fold (reconcile_point f devs ctx stale) (ListFlowPoints db) db"
  shows "fold (reconcile_point f devs ctx stale) (ListFlowPoints db') db' = db'"
proof (rule fold_same)
  fix p assume p: "p \<in> set (ListFlowPoints db')"
  have ok: "points_ok devs db'" using reconcile_fold(2) [OF assms(1)] assms(2) by simp
  have g: "gm_get (fd_points db') (fp_ID p) = Some p" by (rule list_points(3) [OF ok p])
  then obtain r where r: "gm_get (fd_points db) (fp_ID p) = Some r" "p = reconciled f devs ctx stale r"
    using reconcile_fold(1) [OF assms(1), of f ctx stale "fp_ID p"] assms(2) by auto
  show "reconcile_point f devs ctx stale p db' = db'"
  proof (cases "point_want ctx stale p")
    case (Some w)
    then have "\<not> (f (fp_ID p) \<and> device_ref_ok devs (fp_DeviceID w))" using reconciled_again r(2) by auto
    then show ?thesis using Some g point_wantD [OF Some] by (auto simp: reconcile_point_def UpdateAutoFlowPoint_def Let_def)
  qed (simp add: reconcile_point_def)
qed

subsection \<open>Properties\<close>

lemma device_spec_facing: "fe_DeviceID e \<noteq> '''' \<Longrightarrow> fp_Facing (nativeSpec ctx e idx) = ''up'' \<or> fp_Facing (nativeSpec ctx e idx) = ''down''"
  by (simp add: nativeSpec_def Let_def)

lemma reconciled_facing:
  assumes "gm_get (pc_exporters ctx) (fp_ExporterID r) = Some e" and "fe_DeviceID e \<noteq> ''''"
    and "fe_DeviceID e \<in> set stale \<or> fp_Facing r = ''up'' \<and> fp_Iface (reconciled f devs ctx stale r) = fp_Iface r"
  shows "fp_Facing (reconciled f devs ctx stale r) = fp_Facing r"
proof (cases "point_want ctx stale r")
  case (Some w)
  let ?s = "nativeSpec ctx e (fp_IfIndexes r ! 0)"
  have w: "w = (kept_facing stale e r ?s)\<lparr>fp_ID := fp_ID r\<rparr>"
    using Some assms(1) by (auto simp: point_want_def Let_def split: if_splits)
  show ?thesis using assms(2,3) Some device_spec_facing [OF assms(2), of ctx "fp_IfIndexes r ! 0"] unfolding w
    by (auto simp: reconciled_def kept_facing_def)
qed (simp add: reconciled_def)

text \<open>
  C12: Recomputing the native points. Whatever the settings, uplink rows, clocks and failing statements are: no point
  appears or disappears; a point that an admin took over, a derived one or one of several interfaces is left as it is; of
  the others only name, facing, port and device may change. For an exporter with a device the facing stays as it
  is while the device's uplink rows are stale, and a point that faces the Internet never turns around while its ifIndex
  names the same interface, so a vanished default route does not swap download and upload. A second
  run with nothing changed outside changes nothing.
\<close>

theorem reconcile_safe:
  assumes "points_ok (device_ids nd) db" and "keyed fe_ID (fd_exporters db)" and "db' = reconcileNativePoints rd f get age now wall nd db"
  shows "(\<forall>i. GetFlowPoint db i = None \<longrightarrow> GetFlowPoint db' i = None)
    \<and> (\<forall>i r. GetFlowPoint db i = Some r \<longrightarrow> (\<exists>r'. GetFlowPoint db' i = Some r'
        \<and> r'\<lparr>fp_Name := fp_Name r, fp_Facing := fp_Facing r, fp_PortSide := fp_PortSide r, fp_DeviceID := fp_DeviceID r, fp_Iface := fp_Iface r\<rparr> = r
        \<and> (fp_Kind r \<noteq> ''native'' \<or> \<not> fp_Auto r \<or> length (fp_IfIndexes r) \<noteq> 1 \<longrightarrow> r' = r)
        \<and> (\<forall>e. GetFlowExporter db (fp_ExporterID r) = Some e \<and> fe_DeviceID e \<noteq> '''' \<longrightarrow>
             (fe_DeviceID e \<in> set (staleUplinkDevices (ListFreshDeviceUplinks age now nd) (ListDeviceUplinks (hours (365 * 24)) wall nd)) \<longrightarrow> fp_Facing r' = fp_Facing r)
             \<and> (fp_Facing r = ''up'' \<and> fp_Iface r' = fp_Iface r \<longrightarrow> fp_Facing r' = ''up''))))
    \<and> reconcileNativePoints rd f get age now wall nd db' = db'"
proof (cases "\<exists>ctx. loadPointContext rd get age now nd db = Some ctx \<and> rd_points rd \<and> rd_allUplinks rd")
  case False
  then have "reconcileNativePoints rd f get age now wall nd db = db" by (auto simp: reconcileNativePoints_def split: option.split)
  then show ?thesis using assms(3) by simp
next
  case True
  then obtain ctx where c: "loadPointContext rd get age now nd db = Some ctx" "rd_points rd" "rd_allUplinks rd" by blast
  have u: "pc_uplinks ctx = ListFreshDeviceUplinks age now nd" using c(1) by (auto simp: loadPointContext_def split: if_splits)
  let ?st = "staleUplinkDevices (ListFreshDeviceUplinks age now nd) (ListDeviceUplinks (hours (365 * 24)) wall nd)"
  let ?g = "reconciled f (device_ids nd) ctx ?st"
  have d: "db' = fold (reconcile_point f (device_ids nd) ctx ?st) (ListFlowPoints db) db" using assms(3) c u by (simp add: reconcileNativePoints_def)
  note R = reconcile_fold [OF assms(1), of f ctx ?st, folded d]
  have e: "gm_get (pc_exporters ctx) i = gm_get (fd_exporters db) i" for i by (rule ctx_exporters [OF assms(2) c(1)])
  obtain x y where "db' = db\<lparr>fd_points := x, fd_pointSeq := y\<rparr>" using R(3) by blast
  then have "loadPointContext rd get age now nd db' = Some ctx" using c(1) by (simp add: load_points_irrelevant)
  then have again: "reconcileNativePoints rd f get age now wall nd db' = db'" using c u reconcile_twice [OF assms(1) d] by (simp add: reconcileNativePoints_def)
  have fr: "(?g r)\<lparr>fp_Name := fp_Name r, fp_Facing := fp_Facing r, fp_PortSide := fp_PortSide r, fp_DeviceID := fp_DeviceID r, fp_Iface := fp_Iface r\<rparr> = r" for r
    by (simp add: reconciled_def auto_update_def split: option.split)
  have un: "fp_Kind r \<noteq> ''native'' \<or> \<not> fp_Auto r \<or> length (fp_IfIndexes r) \<noteq> 1 \<Longrightarrow> ?g r = r" for r
    by (simp add: reconciled_def point_want_def)
  have fc: "fp_Facing (?g r) = fp_Facing r"
    if "GetFlowExporter db (fp_ExporterID r) = Some e \<and> fe_DeviceID e \<noteq> ''''" "fe_DeviceID e \<in> set ?st \<or> fp_Facing r = ''up'' \<and> fp_Iface (?g r) = fp_Iface r" for e r
    using that by (intro reconciled_facing [of _ _ e]) (simp_all add: e GetFlowExporter_def)
  show ?thesis
  proof (intro conjI allI impI)
    fix i assume "GetFlowPoint db i = None"
    then show "GetFlowPoint db' i = None" using R(1) by (simp add: GetFlowPoint_def)
  next
    fix i r assume r: "GetFlowPoint db i = Some r"
    then have "GetFlowPoint db' i = Some (?g r)" using R(1) by (simp add: GetFlowPoint_def)
    then show "\<exists>r'. GetFlowPoint db' i = Some r'
        \<and> r'\<lparr>fp_Name := fp_Name r, fp_Facing := fp_Facing r, fp_PortSide := fp_PortSide r, fp_DeviceID := fp_DeviceID r, fp_Iface := fp_Iface r\<rparr> = r
        \<and> (fp_Kind r \<noteq> ''native'' \<or> \<not> fp_Auto r \<or> length (fp_IfIndexes r) \<noteq> 1 \<longrightarrow> r' = r)
        \<and> (\<forall>e. GetFlowExporter db (fp_ExporterID r) = Some e \<and> fe_DeviceID e \<noteq> '''' \<longrightarrow>
             (fe_DeviceID e \<in> set ?st \<longrightarrow> fp_Facing r' = fp_Facing r) \<and> (fp_Facing r = ''up'' \<and> fp_Iface r' = fp_Iface r \<longrightarrow> fp_Facing r' = ''up''))"
      using fr [of r] un [of r] fc [of r] by (intro exI [of _ "?g r"]) auto
  qed (rule again)
qed

definition demo_reads :: point_reads where
  "demo_reads = \<lparr>rd_exporters = True, rd_ifaces = True, rd_types = (\<lambda>_. True), rd_uplinks = True, rd_prefixes = True, rd_points = True, rd_allUplinks = True\<rparr>"

definition demo_net :: net_db where
  "demo_net = \<lparr>nd_devices = [], nd_uplinks = [], nd_interfaces = []\<rparr>"

theorem reconcile_safe_witness:
  "\<exists>r'. GetFlowPoint (reconcileNativePoints demo_reads (\<lambda>_. True) (\<lambda>_. None) None 0 0 demo_net
       (demo_points_db\<lparr>fd_points := [(1, demo_point\<lparr>fp_ID := 1, fp_IfIndexes := [10, 13]\<rparr>)], fd_pointSeq := 1\<rparr>)) 1 = Some r' \<and> fp_Facing r' = ''up''"
proof -
  let ?db = "demo_points_db\<lparr>fd_points := [(1, demo_point\<lparr>fp_ID := 1, fp_IfIndexes := [10, 13]\<rparr>)], fd_pointSeq := 1\<rparr>"
  have p: "points_ok (device_ids demo_net) ?db"
    by (simp add: points_ok_def keyed_def gm_wf_def gm_all_def point_row_ok_def point_refs_ok_def demo_points_db_def demo_point_def device_ref_ok_def
      gm_has_def gm_get_def canonicalIfIndexes_def)
  have k: "keyed fe_ID (fd_exporters ?db)" by (simp add: keyed_def gm_wf_def demo_points_db_def demo_exporter_def)
  have "GetFlowPoint ?db 1 = Some (demo_point\<lparr>fp_ID := 1, fp_IfIndexes := [10, 13]\<rparr>)" by (simp add: GetFlowPoint_def gm_get_def)
  then show ?thesis using reconcile_safe [OF p k refl, of demo_reads "\<lambda>_. True" "\<lambda>_. None" None 0 0] by (fastforce simp: demo_point_def)
qed

subsection \<open>What creating points keeps\<close>

lemma put_point_only_points: "\<exists>x y. put_point r db = db\<lparr>fd_points := x, fd_pointSeq := y\<rparr>"
  by (auto simp: put_point_def)

lemma ensure_only_points: "ensure_points devs now ps db = Inr (c, db') \<Longrightarrow> \<exists>x y. db' = db\<lparr>fd_points := x, fd_pointSeq := y\<rparr>"
proof (induction ps arbitrary: db c)
  case Nil
  then show ?case by simp (metis flow_db.surjective flow_db.update_convs(5,6))
next
  case (Cons p ps)
  let ?r = "new_point now (p\<lparr>fp_Kind := ''native'', fp_Auto := True\<rparr>) db"
  obtain c' where "ensure_points devs now ps (if point_clash ?r db then db else put_point ?r db) = Inr (c', db')"
    using ensure_step [OF Cons.prems] unfolding Let_def by blast
  from Cons.IH [OF this] obtain x y where "db' = (if point_clash ?r db then db else put_point ?r db)\<lparr>fd_points := x, fd_pointSeq := y\<rparr>" by blast
  then show ?case by (auto simp: put_point_def split: if_splits)
qed

lemma ensureNativePoints_only_points:
  "\<exists>x y. fst (ensureNativePoints rd ok get age now later nd cands (db, plog)) = db\<lparr>fd_points := x, fd_pointSeq := y\<rparr>"
proof -
  have s: "\<exists>x y. db = db\<lparr>fd_points := x, fd_pointSeq := y\<rparr>" by (metis flow_db.surjective flow_db.update_convs(5,6))
  show ?thesis using s ensure_only_points [of "device_ids nd" now _ db]
    by (auto simp: ensureNativePoints_def EnsureNativeFlowPoints_def Let_def split_beta split: option.split sum.split prod.split)
qed

lemma ensureNativePoints_cases:
  assumes "fst (ensureNativePoints rd ok get age now later nd cands (db, plog)) = db'"
  shows "db' = db \<or> (\<exists>ctx c. loadPointContext rd get age now nd db = Some ctx \<and> EnsureNativeFlowPoints (device_ids nd) now (native_cands ctx cands) db = Inr (c, db'))"
proof (cases "loadPointContext rd get age now nd db")
  case (Some ctx)
  then show ?thesis using assms
    by (cases "EnsureNativeFlowPoints (device_ids nd) now (native_cands ctx cands) db") (auto simp: ensureNativePoints_def Let_def split_beta split: if_splits)
qed (use assms in \<open>simp add: ensureNativePoints_def\<close>)

lemma native_cands_mem:
  "gm_get (pc_exporters ctx) i = Some e \<Longrightarrow> idx \<noteq> 0 \<Longrightarrow> (i, idx) \<in> set cands \<Longrightarrow> nativeSpec ctx e idx \<in> set (native_cands ctx cands)"
  by (force simp: native_cands_def List.map_filter_def)

lemma nativeSpec_simps [simp]:
  "fp_ExporterID (nativeSpec ctx e idx) = fe_ID e" "fp_IfIndexes (nativeSpec ctx e idx) = [idx]" "fp_Kind (nativeSpec ctx e idx) = ''native''" "fp_Auto (nativeSpec ctx e idx)"
  by (simp_all add: nativeSpec_def Let_def)

lemma canonical_single [simp]: "idx \<noteq> 0 \<Longrightarrow> canonicalIfIndexes [idx] = [idx]"
  by (simp add: canonicalIfIndexes_def)

text \<open>The candidates never fail the transaction: their interface is not 0, and their exporter and device exist.\<close>

lemma ensure_succeeds:
  assumes "\<And>p. p \<in> set ps \<Longrightarrow> canonicalIfIndexes (fp_IfIndexes p) \<noteq> [] \<and> gm_has (fd_exporters db) (fp_ExporterID p) \<and> device_ref_ok devs (fp_DeviceID p)"
  shows "\<exists>c db'. ensure_points devs now ps db = Inr (c, db')"
  using assms
proof (induction ps arbitrary: db)
  case (Cons p ps)
  let ?r = "new_point now (p\<lparr>fp_Kind := ''native'', fp_Auto := True\<rparr>) db"
  have d: "fp_DeviceID ?r = fp_DeviceID p" by (simp add: new_point_def)
  have "\<exists>c db'. ensure_points devs now ps db = Inr (c, db')" "\<exists>c db'. ensure_points devs now ps (put_point ?r db) = Inr (c, db')"
    using Cons.prems by (auto intro!: Cons.IH)
  moreover have "canonicalIfIndexes (fp_IfIndexes p) \<noteq> []" "point_refs_ok devs ?r db" using Cons.prems [of p] d by (simp_all add: point_refs_ok_def)
  ultimately show ?case by (auto simp: Let_def)
qed simp

definition exporters_ok :: "string list \<Rightarrow> flow_db \<Rightarrow> bool" where
  "exporters_ok devs db \<longleftrightarrow> keyed fe_ID (fd_exporters db) \<and> gm_all (\<lambda>e. device_ref_ok devs (fe_DeviceID e)) (fd_exporters db)"

lemma native_device: "fp_DeviceID (nativeSpec ctx e idx) = fe_DeviceID e"
  by (simp add: nativeSpec_def Let_def)

lemma native_ensure_succeeds:
  assumes "exporters_ok (device_ids nd) db" and "loadPointContext rd get age now nd db = Some ctx"
  shows "\<exists>c db'. EnsureNativeFlowPoints (device_ids nd) now (native_cands ctx cands) db = Inr (c, db')"
  unfolding EnsureNativeFlowPoints_def
proof (rule ensure_succeeds)
  fix p assume "p \<in> set (native_cands ctx cands)"
  then obtain i idx e where "idx \<noteq> 0" "gm_get (fd_exporters db) i = Some e" "p = nativeSpec ctx e idx"
    using ctx_exporters [of db rd get age now nd ctx] assms by (auto simp: native_cands_def List.map_filter_def exporters_ok_def split: if_splits)
  then show "canonicalIfIndexes (fp_IfIndexes p) \<noteq> [] \<and> gm_has (fd_exporters db) (fp_ExporterID p) \<and> device_ref_ok (device_ids nd) (fp_DeviceID p)"
    using assms(1) gm_all_get [of _ "fd_exporters db" i e] keyed_get [of fe_ID "fd_exporters db" i e]
    by (auto simp: native_device exporters_ok_def gm_has_def)
qed

text \<open>
  C34: Every interface that carried bytes gets its point. When the queries of the batch succeed, after the creation step
  each candidate interface (other than 0, of an exporter that exists) has a native point of exactly that interface,
  points that were there before are unchanged, and no other table is touched.
\<close>

theorem flushed_interfaces_have_points:
  assumes "points_ok (device_ids nd) db" and "exporters_ok (device_ids nd) db" and "rd_exporters rd" and "rd_ifaces rd" and "rd_uplinks rd"
    and "db' = fst (ensureNativePoints rd True get age now later nd cands (db, plog))"
  shows "(\<forall>i idx. (i, idx) \<in> set cands \<and> idx \<noteq> 0 \<and> GetFlowExporter db i \<noteq> None \<longrightarrow> has_native i [idx] db')
    \<and> (\<forall>i r. GetFlowPoint db i = Some r \<longrightarrow> GetFlowPoint db' i = Some r)
    \<and> db'\<lparr>fd_points := [], fd_pointSeq := 0\<rparr> = db\<lparr>fd_points := [], fd_pointSeq := 0\<rparr> \<and> points_ok (device_ids nd) db'"
proof -
  obtain ctx where c: "loadPointContext rd get age now nd db = Some ctx" using assms(3-5) by (simp add: loadPointContext_def)
  have k: "keyed fe_ID (fd_exporters db)" using assms(2) by (simp add: exporters_ok_def)
  obtain cr db1 where E: "ensure_points (device_ids nd) now (native_cands ctx cands) db = Inr (cr, db1)"
    using native_ensure_succeeds [OF assms(2) c, of cands] by (auto simp: EnsureNativeFlowPoints_def)
  have d: "db' = db1" using assms(6) c E by (simp add: ensureNativePoints_def EnsureNativeFlowPoints_def Let_def split_beta)
  have "has_native i [idx] db'" if h: "(i, idx) \<in> set cands \<and> idx \<noteq> 0 \<and> GetFlowExporter db i \<noteq> None" for i idx
  proof -
    obtain e where e: "gm_get (fd_exporters db) i = Some e" using h by (auto simp: GetFlowExporter_def)
    then have "nativeSpec ctx e idx \<in> set (native_cands ctx cands)" using native_cands_mem ctx_exporters [OF k c] h by simp
    then have "has_native (fp_ExporterID (nativeSpec ctx e idx)) (canonicalIfIndexes (fp_IfIndexes (nativeSpec ctx e idx))) db1"
      using ensure_has [OF assms(1) E] by blast
    then show ?thesis using h keyed_get [OF k e] d by simp
  qed
  moreover have "gm_get (fd_points db1) i = Some r" if "gm_get (fd_points db) i = Some r" for i r by (rule ensure_old_rows [OF assms(1) E that])
  moreover have "db1\<lparr>fd_points := [], fd_pointSeq := 0\<rparr> = db\<lparr>fd_points := [], fd_pointSeq := 0\<rparr>" using ensure_only_points [OF E] by auto
  ultimately show ?thesis using points_ok_ensure [OF assms(1) E] d by (simp add: GetFlowPoint_def)
qed

theorem flushed_interfaces_have_points_witness:
  "has_native 7 [12] (fst (ensureNativePoints demo_reads True (\<lambda>_. None) None 0 0 demo_net [(7, 12), (8, 3)] (demo_points_db, [])))"
proof -
  have x: "exporters_ok (device_ids demo_net) demo_points_db"
    by (simp add: exporters_ok_def keyed_def gm_wf_def gm_all_def demo_points_db_def demo_exporter_def device_ref_ok_def)
  have g: "GetFlowExporter demo_points_db 7 \<noteq> None" by (simp add: GetFlowExporter_def demo_points_db_def gm_get_def)
  show ?thesis using flushed_interfaces_have_points [OF demo_points_ok x, of demo_reads] g by (simp add: demo_reads_def)
qed

end
