(* ===== verification/Writer.thy ===== *)
theory Writer
  imports Native_Points Worker_Props
begin

text \<open>
  The writer (\<open>flow/writer.go\<close>): every operation the worker hands over, applied to the flow tables. A query may
  fail; \<open>outcomes\<close> says which calls of one operation succeed.
\<close>

definition rollupMaxLookback :: int where "rollupMaxLookback = 3 * 3600"
definition startupRollupHours :: int where "startupRollupHours = 3"

text \<open>
  The outcomes of one hourly rollup. It fails and its transaction is rolled back, or it reads the hour completely, or the
  scan of the hour ends early: the code closes the scan without asking for its error, so the transaction commits
  with the first \<open>n\<close> rows only.
\<close>

datatype roll_outcome = RollFails | RollDone | RollCut nat

record outcomes =
  ok_insert :: bool
  ok_touch :: "int \<Rightarrow> bool"
  ok_points :: bool
  ok_list :: bool
  ok_roll :: "int \<Rightarrow> int \<Rightarrow> roll_outcome"
  ok_unrolled :: bool
  ok_reroll :: "int \<Rightarrow> int \<Rightarrow> roll_outcome"
  ok_template :: bool
  ok_trim :: bool
  ok_delete :: bool
  ok_withdraw :: bool
  ok_status :: "nat \<Rightarrow> bool"

text \<open>
  The outside of the writer: the settings table, the query outcomes, whether anyone listens on the hub, and what the
  creation of observation points reads (the device tables, the rule that ages uplinks and the clock at its two readings).
\<close>

record writer_env =
  we_get :: settings
  we_ok :: outcomes
  we_subscribed :: bool
  we_reads :: point_reads
  we_age :: uplink_age
  we_now :: time
  we_later :: time
  we_net :: net_db

record FlushedEvent =
  ev_ExporterIDs :: "int list"
  ev_Bucket :: time
  ev_FlushedThrough :: time

record writer =
  w_db :: flow_db
  w_flushedThrough :: int
  w_rolledThrough :: int
  w_published :: "FlushedEvent list"
  w_pointLog :: "(int, logThrottle) gomap"
  w_pointLines :: "point_line list"

text \<open>\<open>ListFlowExporters\<close>, of which the rollup uses the ids; each id is rolled on its own, so their order does not matter.\<close>

definition exporter_ids :: "flow_db \<Rightarrow> int list" where
  "exporter_ids db = map fst (fd_exporters db)"

definition roll_one :: "(int \<Rightarrow> int \<Rightarrow> roll_outcome) \<Rightarrow> int \<Rightarrow> int \<times> int \<Rightarrow> flow_db \<Rightarrow> flow_db" where
  "roll_one ok topN eh db =
    (let e = fst eh; hour = time_Unix (snd eh) 0
     in case ok e (snd eh) of
          RollFails \<Rightarrow> db
        | RollDone \<Rightarrow> (case RollupFlows1h e hour topN db of None \<Rightarrow> db | Some db' \<Rightarrow> db')
        | RollCut n \<Rightarrow> (case RollupFlows1h e hour topN (db\<lparr>fd_1m := take n (hour_rows e (hour_of hour) (fd_1m db))\<rparr>) of
            None \<Rightarrow> db | Some db' \<Rightarrow> db'\<lparr>fd_1m := fd_1m db\<rparr>))"

text \<open>The hours a rollup visits, oldest first, clamped to the look-back.\<close>

definition rollup_hours :: "int \<Rightarrow> int \<Rightarrow> int \<Rightarrow> int list" where
  "rollup_hours endU n lookback =
    filter (\<lambda>h. \<not> h < endU - lookback) (map (\<lambda>i. endU - n * 3600 + 3600 * int i) [0..<nat n])"

definition rollup :: "writer_env \<Rightarrow> time \<Rightarrow> int \<Rightarrow> writer \<Rightarrow> writer" where
  "rollup en t n w =
    (let endU = hour_of t;
         lookback = min rollupMaxLookback (Retention1mDays (we_get en) * 24 * 3600 - 3600);
         exps = exporter_ids (w_db w);
         topN = TopNHourly (we_get en)
     in if \<not> ok_list (we_ok en) then w
        else w\<lparr>w_db := fold (\<lambda>h. fold (\<lambda>e. roll_one (ok_roll (we_ok en)) topN (e, h)) exps) (rollup_hours endU n lookback) (w_db w),
               w_rolledThrough := endU\<rparr>)"

definition unrolled_from :: "writer_env \<Rightarrow> time \<Rightarrow> int" where
  "unrolled_from en now = hour_of now - (Retention1mDays (we_get en) * 24 * 3600 - 3600)"

definition rollupUnrolled :: "writer_env \<Rightarrow> time \<Rightarrow> writer \<Rightarrow> writer" where
  "rollupUnrolled en now w =
    (if \<not> ok_unrolled (we_ok en) then w
     else w\<lparr>w_db := fold (\<lambda>(e, h). roll_one (ok_reroll (we_ok en)) (TopNHourly (we_get en)) (e, unix h))
       (UnrolledFlowHours (time_Unix (unrolled_from en now) 0) (time_Unix (hour_of now) 0) (w_db w)) (w_db w)\<rparr>)"

definition flush_points :: "writer_env \<Rightarrow> flushBatch \<Rightarrow> writer \<Rightarrow> writer" where
  "flush_points en b w =
    (if fb_points b = [] then w
     else let (db, plog, out) = ensureNativePoints (we_reads en) (ok_points (we_ok en)) (we_get en) (we_age en) (we_now en) (we_later en) (we_net en)
                (fb_points b) (w_db w, w_pointLog w)
          in w\<lparr>w_db := db, w_pointLog := plog, w_pointLines := w_pointLines w @ out\<rparr>)"

definition applyFlush :: "writer_env \<Rightarrow> flushBatch \<Rightarrow> writer \<Rightarrow> writer" where
  "applyFlush en b w =
    (if (fb_rows b \<noteq> [] \<or> fb_meta b \<noteq> []) \<and> \<not> ok_insert (we_ok en) then w
     else let db = (if fb_rows b \<noteq> [] \<or> fb_meta b \<noteq> [] then InsertFlows1m (fb_rows b) (fb_meta b) (w_db w) else w_db w);
              db = fold (\<lambda>(i, seens) db. if ok_touch (we_ok en) i then TouchFlowIfaces i seens (fb_minute b) db else db) (fb_touches b) db;
              w = flush_points en b (w\<lparr>w_db := db\<rparr>)
          in if fb_final b then w
             else let through = fb_minute b + minutes 1;
                      w = w\<lparr>w_flushedThrough := unix through,
                            w_published := w_published w @ (if fb_exporterIDs b \<noteq> [] \<and> we_subscribed en
                              then [\<lparr>ev_ExporterIDs = fb_exporterIDs b, ev_Bucket = fb_minute b, ev_FlushedThrough = through\<rparr>] else [])\<rparr>
                  in if \<not> is_zero (fb_rollupHour b) then rollup en (fb_rollupHour b) 2 w else w)"

definition applyWrite :: "writer_env \<Rightarrow> writeOp \<Rightarrow> writer \<Rightarrow> writer" where
  "applyWrite en op w = (case op of
     WFlush b \<Rightarrow> applyFlush en b w
   | WTemplate t \<Rightarrow> if \<not> ok_template (we_ok en) then w
       else let w = w\<lparr>w_db := UpsertFlowTemplate t (w_db w)\<rparr>
            in if ok_trim (we_ok en) then w\<lparr>w_db := TrimFlowTemplates (ft_ExporterID t) (int MaxTemplates) (w_db w)\<rparr> else w
   | WDeleteTemplates i \<Rightarrow> if i \<noteq> 0 \<and> ok_delete (we_ok en) then w\<lparr>w_db := DeleteFlowTemplates i (w_db w)\<rparr> else w
   | WWithdraw i ks \<Rightarrow> if ok_withdraw (we_ok en) then w\<lparr>w_db := DeleteFlowTemplateKeys i ks (w_db w)\<rparr> else w
   | WStatus ds \<Rightarrow> w\<lparr>w_db := fold (\<lambda>(n, d) db. if ok_status (we_ok en) n then AddFlowExporterStatus d db else db) (enumerate 0 ds) (w_db w)\<rparr>
   | WStartupRollup t \<Rightarrow> if is_zero t then w else rollupUnrolled en t (rollup en t startupRollupHours w))"

subsection \<open>Rolling a list of hours\<close>

lemma hour_of_Unix: "3600 dvd h \<Longrightarrow> hour_of (time_Unix h 0) = h"
  by (auto simp: hour_of_def)

text \<open>The rows a rollup that commits has read of its hour.\<close>

definition rows_read :: "roll_outcome \<Rightarrow> int \<Rightarrow> int \<Rightarrow> flow_table \<Rightarrow> flow_table" where
  "rows_read r e h t = (case r of RollCut n \<Rightarrow> take n (hour_rows e h t) | _ \<Rightarrow> hour_rows e h t)"

lemma rolled_rows_read: "rolled_rows e h n (hour_rows e h t) = rolled_rows e h n t"
  by (simp add: rolled_rows_def hour_rows_def)

lemma roll_one_eq:
  assumes "3600 dvd h"
  shows "roll_one ok topN (e, h) db = (if ok e h = RollFails then db
     else db\<lparr>fd_1h := filter (\<lambda>kv. key_bucket (fst kv) \<noteq> (e, h)) (fd_1h db) @ rolled_rows e h (nat (max topN 1)) (rows_read (ok e h) e h (fd_1m db)),
       fd_1h_meta := filter (\<lambda>kv. fst kv \<noteq> (e, h)) (fd_1h_meta db)
         @ (let m = hour_meta e h (fd_1m_meta db) in if mc_minutes m > 0 then [((e, h), m)] else [])\<rparr>)"
  by (simp add: roll_one_def RollupFlows1h_eq hour_of_Unix [OF assms] rows_read_def rolled_rows_read Let_def split: roll_outcome.split)

lemma roll_one_frame [simp]:
  "fd_1m (roll_one ok topN eh db) = fd_1m db" "fd_1m_meta (roll_one ok topN eh db) = fd_1m_meta db"
  "(roll_one ok topN eh db)\<lparr>fd_1h := x, fd_1h_meta := y\<rparr> = db\<lparr>fd_1h := x, fd_1h_meta := y\<rparr>"
  by (simp_all add: roll_one_def RollupFlows1h_eq Let_def split: roll_outcome.split)

lemma roll_one_hour:
  assumes "3600 dvd h"
  shows "stored_hour e' h' (roll_one ok topN (e, h) db)
    = (if (e', h') = (e, h) \<and> ok e h \<noteq> RollFails then rolled_rows e h (nat (max topN 1)) (rows_read (ok e h) e h (fd_1m db)) else stored_hour e' h' db)"
proof (cases "(e', h') = (e, h)")
  case True
  then show ?thesis by (simp add: roll_one_eq [OF assms] stored_hour_def filter_bucket_rolled)
next
  case False
  have "filter (\<lambda>kv. key_bucket (fst kv) = (e', h')) (rolled_rows e h n t) = []" for n t
    using False rolled_bucket [of _ e h n t] by (auto simp: filter_empty_conv)
  moreover have "filter (\<lambda>kv. key_bucket (fst kv) = (e', h') \<and> key_bucket (fst kv) \<noteq> (e, h)) l = filter (\<lambda>kv. key_bucket (fst kv) = (e', h')) l"
    for l :: flow_table using False by (intro filter_cong) auto
  ultimately show ?thesis using False
    by (auto simp: roll_one_eq [OF assms] stored_hour_def conj_commute)
qed

lemma roll_one_meta:
  assumes "3600 dvd h"
  shows "gm_has (fd_1h_meta (roll_one ok topN (e, h) db)) (e', h')
    \<longleftrightarrow> (if (e', h') = (e, h) \<and> ok e h \<noteq> RollFails then mc_minutes (hour_meta e h (fd_1m_meta db)) > 0 else gm_has (fd_1h_meta db) (e', h'))"
  by (auto simp: roll_one_eq [OF assms] gm_has_iff Let_def image_iff)

lemma rolls_frame [simp]:
  "fd_1m (fold (roll_one ok topN) ehs db) = fd_1m db" "fd_1m_meta (fold (roll_one ok topN) ehs db) = fd_1m_meta db"
  "(fold (roll_one ok topN) ehs db)\<lparr>fd_1h := x, fd_1h_meta := y\<rparr> = db\<lparr>fd_1h := x, fd_1h_meta := y\<rparr>"
  by (induction ehs arbitrary: db) simp_all

lemma rolls_hour:
  assumes "\<And>e h. (e, h) \<in> set ehs \<Longrightarrow> 3600 dvd h"
  shows "stored_hour e h (fold (roll_one ok topN) ehs db)
    = (if (e, h) \<in> set ehs \<and> ok e h \<noteq> RollFails then rolled_rows e h (nat (max topN 1)) (rows_read (ok e h) e h (fd_1m db)) else stored_hour e h db)"
  using assms
proof (induction ehs arbitrary: db)
  case (Cons x ehs)
  obtain e' h' where x: "x = (e', h')" by (cases x)
  have d: "3600 dvd h'" and ds: "\<And>e h. (e, h) \<in> set ehs \<Longrightarrow> 3600 dvd h" using Cons.prems by (auto simp: x)
  show ?case using Cons.IH [where db = "roll_one ok topN x db", OF ds] by (auto simp: x roll_one_hour [OF d])
qed simp

lemma rolls_meta:
  assumes "\<And>e h. (e, h) \<in> set ehs \<Longrightarrow> 3600 dvd h"
  shows "gm_has (fd_1h_meta (fold (roll_one ok topN) ehs db)) (e, h)
    \<longleftrightarrow> (if (e, h) \<in> set ehs \<and> ok e h \<noteq> RollFails then mc_minutes (hour_meta e h (fd_1m_meta db)) > 0 else gm_has (fd_1h_meta db) (e, h))"
  using assms
proof (induction ehs arbitrary: db)
  case (Cons x ehs)
  obtain e' h' where x: "x = (e', h')" by (cases x)
  have d: "3600 dvd h'" and ds: "\<And>e h. (e, h) \<in> set ehs \<Longrightarrow> 3600 dvd h" using Cons.prems by (auto simp: x)
  show ?case using Cons.IH [where db = "roll_one ok topN x db", OF ds] by (auto simp: x roll_one_meta [OF d])
qed simp

lemma fold_nested: "fold (\<lambda>h. fold (\<lambda>e. f (e, h)) es) hs a = fold f (concat (map (\<lambda>h. map (\<lambda>e. (e, h)) es) hs)) a"
  by (induction hs arbitrary: a) (simp_all add: fold_map comp_def)

lemma retention_range: "1 \<le> Retention1mDays get"
  unfolding Retention1mDays_def using settingInt_range [of 1 3 14 get "''flow_1m_days''"] by simp

lemma hour_of_dvd [simp]: "3600 dvd hour_of t"
  by (simp add: hour_of_def)

lemma rollup_hours_iff:
  assumes "3600 dvd endU" and "10800 \<le> 24 * 3600 * d - 3600"
  shows "h \<in> set (rollup_hours endU n (min rollupMaxLookback (d * 24 * 3600 - 3600)))
    \<longleftrightarrow> 3600 dvd h \<and> endU - 3600 * min n 3 \<le> h \<and> h < endU"
proof -
  have lb: "min rollupMaxLookback (d * 24 * 3600 - 3600) = 10800" using assms(2) by (simp add: rollupMaxLookback_def)
  have a: "h \<in> (\<lambda>i. endU - n * 3600 + 3600 * int i) ` {0..<nat n} \<longleftrightarrow> 3600 dvd h \<and> endU - 3600 * n \<le> h \<and> h < endU"
  proof
    assume "h \<in> (\<lambda>i. endU - n * 3600 + 3600 * int i) ` {0..<nat n}"
    then show "3600 dvd h \<and> endU - 3600 * n \<le> h \<and> h < endU" using assms(1) by auto
  next
    assume r: "3600 dvd h \<and> endU - 3600 * n \<le> h \<and> h < endU"
    then obtain k l where "h = 3600 * k" "endU = 3600 * l" using assms(1) by (auto elim!: dvdE)
    then have "h = endU - n * 3600 + 3600 * int (nat (k - l + n))" "nat (k - l + n) \<in> {0..<nat n}" using r by auto
    then show "h \<in> (\<lambda>i. endU - n * 3600 + 3600 * int i) ` {0..<nat n}" by (rule image_eqI)
  qed
  have "h \<in> set (rollup_hours endU n 10800) \<longleftrightarrow> \<not> h < endU - 10800 \<and> h \<in> (\<lambda>i. endU - n * 3600 + 3600 * int i) ` {0..<nat n}"
    by (auto simp: rollup_hours_def)
  then show ?thesis unfolding lb a by (auto simp: min_def)
qed

lemma rollup_eq:
  assumes "ok_list (we_ok en)"
  shows "rollup en t n w = w\<lparr>w_db := fold (roll_one (ok_roll (we_ok en)) (TopNHourly (we_get en)))
      (concat (map (\<lambda>h. map (\<lambda>e. (e, h)) (exporter_ids (w_db w)))
        (rollup_hours (hour_of t) n (min rollupMaxLookback (Retention1mDays (we_get en) * 24 * 3600 - 3600))))) (w_db w),
     w_rolledThrough := hour_of t\<rparr>"
  using assms by (simp add: rollup_def Let_def fold_nested [where f = "roll_one (ok_roll (we_ok en)) (TopNHourly (we_get en))"])

lemma rollup_pairs_iff:
  "(e, h) \<in> set (concat (map (\<lambda>h. map (\<lambda>e. (e, h)) es) (rollup_hours (hour_of t) n (min rollupMaxLookback (Retention1mDays get * 24 * 3600 - 3600)))))
   \<longleftrightarrow> e \<in> set es \<and> 3600 dvd h \<and> hour_of t - 3600 * min n 3 \<le> h \<and> h < hour_of t"
  using rollup_hours_iff [of "hour_of t" "Retention1mDays get" h n] retention_range [of get] by auto

subsection \<open>Hours left unrolled\<close>

lemma UnrolledFlowHours_iff:
  "(e, t) \<in> set (UnrolledFlowHours fr to db) \<longleftrightarrow>
    (\<exists>b. (e, b) \<in> fst ` set (fd_1m_meta db) \<and> unix fr \<le> b \<and> b < unix to \<and> t = time_Unix (b - b mod 3600) 0
       \<and> \<not> gm_has (fd_1h_meta db) (e, b - b mod 3600))"
  by (force simp: UnrolledFlowHours_def Let_def image_iff)

lemma minutes_of_hour: "(e, b) \<in> fst ` set t \<Longrightarrow> 0 < mc_minutes (hour_meta e (b - b mod 3600) t)"
proof -
  assume "(e, b) \<in> fst ` set t"
  then obtain v where v: "((e, b), v) \<in> set t" by auto
  have "in_hour e (b - b mod 3600) (e, b)" by (simp add: in_hour_def)
  then have "((e, b), v) \<in> set (filter (\<lambda>kv. in_hour e (b - b mod 3600) (fst kv)) t)" using v by simp
  then have "filter (\<lambda>kv. in_hour e (b - b mod 3600) (fst kv)) t \<noteq> []" by (metis empty_iff list.set(1))
  then show ?thesis by (simp add: hour_meta_def Let_def)
qed

lemma rollupUnrolled_db:
  assumes "ok_unrolled (we_ok en)"
  shows "w_db (rollupUnrolled en now w) = fold (roll_one (ok_reroll (we_ok en)) (TopNHourly (we_get en)))
    (map (\<lambda>(e, h). (e, unix h)) (UnrolledFlowHours (time_Unix (unrolled_from en now) 0) (time_Unix (hour_of now) 0) (w_db w))) (w_db w)"
  using assms by (simp add: rollupUnrolled_def fold_map comp_def case_prod_unfold)

lemma unrolled_done:
  assumes "ok_unrolled (we_ok en)" and "\<And>e h. ok_reroll (we_ok en) e h \<noteq> RollFails"
  shows "UnrolledFlowHours (time_Unix (unrolled_from en now) 0) (time_Unix (hour_of now) 0) (w_db (rollupUnrolled en now w)) = []"
proof (rule ccontr)
  let ?f = "time_Unix (unrolled_from en now) 0" and ?t = "time_Unix (hour_of now) 0" and ?db = "w_db w" and ?db' = "w_db (rollupUnrolled en now w)"
  let ?l = "map (\<lambda>(e, h). (e, unix h)) (UnrolledFlowHours ?f ?t ?db)"
  assume "UnrolledFlowHours ?f ?t ?db' \<noteq> []"
  then obtain e t where "(e, t) \<in> set (UnrolledFlowHours ?f ?t ?db')" by (metis last_in_set prod.exhaust)
  then obtain b where b: "(e, b) \<in> fst ` set (fd_1m_meta ?db)" "unix ?f \<le> b" "b < unix ?t" "\<not> gm_has (fd_1h_meta ?db') (e, b - b mod 3600)"
    by (auto simp: UnrolledFlowHours_iff rollupUnrolled_db [OF assms(1)])
  have d: "3600 dvd h" if "(e, h) \<in> set ?l" for e h
    using that by (auto simp: UnrolledFlowHours_iff minus_mod_eq_mult_div)
  have M: "gm_has (fd_1h_meta ?db') (e, b - b mod 3600) \<longleftrightarrow> (if (e, b - b mod 3600) \<in> set ?l
      then 0 < mc_minutes (hour_meta e (b - b mod 3600) (fd_1m_meta ?db)) else gm_has (fd_1h_meta ?db) (e, b - b mod 3600))"
    unfolding rollupUnrolled_db [OF assms(1)] using rolls_meta [of ?l, OF d] assms(2) by simp
  show False
  proof (cases "gm_has (fd_1h_meta ?db) (e, b - b mod 3600)")
    case True
    then show False using M b(4) minutes_of_hour [OF b(1)] by (simp split: if_splits)
  next
    case False
    then have "(e, time_Unix (b - b mod 3600) 0) \<in> set (UnrolledFlowHours ?f ?t ?db)" using b(1-3) by (auto simp: UnrolledFlowHours_iff)
    then have "(e, b - b mod 3600) \<in> set ?l" by force
    then show False using M b(4) minutes_of_hour [OF b(1)] by (simp split: if_splits)
  qed
qed

subsection \<open>A minute from the worker to the table\<close>

definition exporter_rows :: "'s collector \<Rightarrow> int \<Rightarrow> int \<Rightarrow> FlowRow list" where
  "exporter_rows c m i = (case gm_get (c_exps c) i of None \<Rightarrow> []
     | Some st \<Rightarrow> fl_rows (fst (flush i m (nat (max (rs_topN (c_settings c)) 1)) (nat (max (rs_maxRows (c_settings c)) 1)) (x_agg st))))"

lemma flush_exporter_rows:
  assumes "flush_exporter m now i (c, b) = (c', b')"
  shows "fb_rows b' = fb_rows b @ exporter_rows c m i \<and> c_settings c' = c_settings c"
proof (cases "gm_get (c_exps c) i")
  case None
  then show ?thesis using flush_exporter_none [OF None, of m now b] assms by (simp add: exporter_rows_def)
next
  case (Some st)
  have g: "c_settings (upd_global g c) = c_settings c" for g and c :: "'a collector" by (simp add: upd_global_def)
  have p: "c_settings (put_exp i x c) = c_settings c" for x and c :: "'a collector" by (simp add: put_exp_def)
  show ?thesis using assms Some flush_ifaces_rest [of i now _ _ _ _ c' b']
    by (fastforce simp: flush_exporter_def exporter_rows_def Let_def g p split: prod.splits if_splits option.splits)
qed

lemma exporter_rows_other:
  assumes "flush_exporter m now i (c, b) = (c', b')" and "j \<noteq> i"
  shows "exporter_rows c' m j = exporter_rows c m j"
proof -
  have "gm_get (c_exps c') j = gm_get (c_exps c) j" "c_settings c' = c_settings c"
    using flush_exporter_step [OF assms(1), of j] flush_exporter_rows [OF assms(1)] assms(2) by simp_all
  then show ?thesis by (simp add: exporter_rows_def split: option.splits)
qed

lemma flush_exporters_rows:
  assumes "fold (flush_exporter m now) is (c, b) = (c', b')" and "distinct is"
  shows "fb_rows b' = fb_rows b @ concat (map (exporter_rows c m) is)"
  using assms
proof (induction "is" arbitrary: c b)
  case (Cons i "is")
  obtain c1 b1 where s: "flush_exporter m now i (c, b) = (c1, b1)" by force
  have "fb_rows b' = fb_rows b1 @ concat (map (exporter_rows c1 m) is)" using Cons s by simp
  moreover have "map (exporter_rows c1 m) is = map (exporter_rows c m) is"
    using Cons.prems(2) by (intro map_cong exporter_rows_other [OF s]) auto
  ultimately show ?case using flush_exporter_rows [OF s] by simp
qed simp

lemma row_exporter: "r \<in> set (exporter_rows c m i) \<Longrightarrow> fr_ExporterID r = i \<and> fr_Bucket r = time_Unix m 0"
  by (auto simp: exporter_rows_def flush_def flush_rows_def key_row_def other_row_def Let_def split: option.splits prod.splits)

lemma batch_rows:
  assumes "flush_batch m now final c = (c', b)" and "gm_wf (c_exps c)"
  shows "fb_rows b = concat (map (exporter_rows c m) (sort (map fst (c_exps c))))" and "fb_minute b = time_Unix m 0" and "fb_final b = final"
proof -
  let ?b0 = "\<lparr>fb_minute = time_Unix m 0, fb_final = final, fb_rows = [], fb_meta = [], fb_exporterIDs = [], fb_touches = [],
      fb_points = [], fb_rollupHour = zero_time\<rparr>"
  have R: "fb_minute (snd (flush_exporter m now i cb)) = fb_minute (snd cb) \<and> fb_final (snd (flush_exporter m now i cb)) = fb_final (snd cb)"
    for i and cb :: "'a collector \<times> flushBatch"
    by (cases cb) (simp add: flush_exporter_def flush_ifaces_def Let_def split_beta split: option.splits)
  have F: "fb_minute (snd (fold (flush_exporter m now) is cb)) = fb_minute (snd cb) \<and> fb_final (snd (fold (flush_exporter m now) is cb)) = fb_final (snd cb)"
    for "is" and cb :: "'a collector \<times> flushBatch"
    by (induction "is" arbitrary: cb) (simp_all add: R)
  obtain c1 b1 where f: "fold (flush_exporter m now) (sort (map fst (c_exps c))) (c, ?b0) = (c1, b1)" by force
  have b: "b = b1 \<or> b = b1\<lparr>fb_rollupHour := time_Unix (m + 60) 0\<rparr>"
    using assms(1) f by (auto simp: flush_batch_def Let_def split: if_splits)
  have "distinct (sort (map fst (c_exps c)))" using assms(2) by (simp add: gm_wf_def)
  from flush_exporters_rows [OF f this] b show "fb_rows b = concat (map (exporter_rows c m) (sort (map fst (c_exps c))))" by auto
  show "fb_minute b = time_Unix m 0" "fb_final b = final" using F [of "sort (map fst (c_exps c))" "(c, ?b0)"] b by (auto simp: f)
qed

text \<open>The rows of one exporter in a batch.\<close>

lemma concat_one:
  assumes "distinct is" and "\<And>i r. r \<in> set (g i) \<Longrightarrow> key r = i" and "j \<in> set is"
  shows "filter (\<lambda>r. key r = j) (concat (map g is)) = g j"
  using assms(1,3)
proof (induction "is")
  case (Cons i "is")
  have same: "filter (\<lambda>r. key r = j) (g j) = g j" using assms(2) by (auto simp: filter_id_conv)
  have none: "filter (\<lambda>r. key r = j) (concat (map g l)) = []" if "j \<notin> set l" for l using that assms(2) by (auto simp: filter_empty_conv)
  show ?case
  proof (cases "i = j")
    case True
    then show ?thesis using Cons.prems none [of "is"] same by simp
  next
    case False
    then show ?thesis using Cons none [of "[i]"] by simp
  qed
qed simp

lemma batch_rows_of:
  assumes "flush_batch m now final c = (c', b)" and "gm_wf (c_exps c)" and "gm_get (c_exps c) i = Some st"
  shows "filter (\<lambda>r. fr_ExporterID r = i) (fb_rows b) = exporter_rows c m i"
  unfolding batch_rows(1) [OF assms(1,2)]
proof (rule concat_one)
  show "distinct (sort (map fst (c_exps c)))" using assms(2) by (simp add: gm_wf_def)
  show "i \<in> set (sort (map fst (c_exps c)))" using gm_get_in_set [OF assms(3)] by force
qed (simp add: row_exporter)

lemma minute_of_Unix: "60 dvd m \<Longrightarrow> minute_of (time_Unix m 0) = m"
  by (auto simp: minute_of_def)

lemma batch_rows_bucket:
  assumes "flush_batch m now final c = (c', b)" and "gm_wf (c_exps c)" and "60 dvd m" and "r \<in> set (fb_rows b)"
  shows "key_bucket (row_key r) = (fr_ExporterID r, m)"
  using assms(3,4) row_exporter unfolding batch_rows(1) [OF assms(1,2)] by (fastforce simp: key_bucket_def row_key_def minute_of_Unix)

lemma sum_list_filter_map: "sum_list (map (\<lambda>r. if P r then f r else (0 :: int)) l) = sum_list (map f (filter P l))"
  by (induction l) auto

text \<open>What the minute table grows by, for one exporter and minute.\<close>

definition minute_total :: "(flowSums \<Rightarrow> int) \<Rightarrow> int \<Rightarrow> int \<Rightarrow> flow_db \<Rightarrow> int" where
  "minute_total sel e m db = gm_ksum (\<lambda>k v. if key_bucket k = (e, m) then sel v else 0) (fd_1m db)"

lemma batch_row_sum:
  assumes "flush_batch m now final c = (c', b)" and "gm_wf (c_exps c)" and "gm_get (c_exps c) i = Some st" and "60 dvd m"
  shows "sum_list (map (\<lambda>r. if key_bucket (row_key r) = (i, m) then f r else (0 :: int)) (fb_rows b)) = sum_list (map f (exporter_rows c m i))"
proof -
  have "map (\<lambda>r. if key_bucket (row_key r) = (i, m) then f r else 0) (fb_rows b) = map (\<lambda>r. if fr_ExporterID r = i then f r else 0) (fb_rows b)"
    using batch_rows_bucket [OF assms(1,2,4)] by (intro map_cong) auto
  then have "sum_list (map (\<lambda>r. if key_bucket (row_key r) = (i, m) then f r else 0) (fb_rows b)) = sum_list (map f (filter (\<lambda>r. fr_ExporterID r = i) (fb_rows b)))"
    using sum_list_filter_map [of "\<lambda>r. fr_ExporterID r = i" f "fb_rows b"] by (simp only:)
  then show ?thesis by (simp only: batch_rows_of [OF assms(1-3)])
qed

lemma touches_frame:
  "fd_1m (fold (\<lambda>(i, seens) db. if ok i then TouchFlowIfaces i seens t db else db) l db) = fd_1m db"
proof (induction l arbitrary: db)
  case (Cons x l)
  then show ?case by (cases x) (simp add: TouchFlowIfaces_def)
qed simp

lemma rollup_1m [simp]: "fd_1m (w_db (rollup en t n w)) = fd_1m (w_db w)" "w_flushedThrough (rollup en t n w) = w_flushedThrough w"
proof -
  show "fd_1m (w_db (rollup en t n w)) = fd_1m (w_db w)" by (cases "ok_list (we_ok en)") (simp add: rollup_eq, simp add: rollup_def)
  show "w_flushedThrough (rollup en t n w) = w_flushedThrough w" by (simp add: rollup_def Let_def)
qed

lemma flush_points_only:
  obtains x y where "w_db (flush_points en b w) = (w_db w)\<lparr>fd_points := x, fd_pointSeq := y\<rparr>"
proof (cases "fb_points b = []")
  case True
  then have "w_db (flush_points en b w) = (w_db w)\<lparr>fd_points := fd_points (w_db w), fd_pointSeq := fd_pointSeq (w_db w)\<rparr>" by (simp add: flush_points_def)
  then show ?thesis by (rule that)
next
  case False
  obtain x y where "fst (ensureNativePoints (we_reads en) (ok_points (we_ok en)) (we_get en) (we_age en) (we_now en) (we_later en) (we_net en)
      (fb_points b) (w_db w, w_pointLog w)) = (w_db w)\<lparr>fd_points := x, fd_pointSeq := y\<rparr>"
    using ensureNativePoints_only_points by blast
  then have "w_db (flush_points en b w) = (w_db w)\<lparr>fd_points := x, fd_pointSeq := y\<rparr>" using False by (simp add: flush_points_def split_beta)
  then show ?thesis by (rule that)
qed

lemma flush_points_frame [simp]:
  "fd_1m (w_db (flush_points en b w)) = fd_1m (w_db w)" "w_flushedThrough (flush_points en b w) = w_flushedThrough w"
proof -
  obtain x y where "w_db (flush_points en b w) = (w_db w)\<lparr>fd_points := x, fd_pointSeq := y\<rparr>" by (rule flush_points_only)
  then show "fd_1m (w_db (flush_points en b w)) = fd_1m (w_db w)" by simp
  show "w_flushedThrough (flush_points en b w) = w_flushedThrough w" by (simp add: flush_points_def split_beta)
qed

lemma applyFlush_1m:
  "ok_insert (we_ok en) \<Longrightarrow> fd_1m (w_db (applyFlush en b w)) = fold upsert_row (fb_rows b) (fd_1m (w_db w))"
  by (simp add: applyFlush_def Let_def touches_frame InsertFlows1m_def)

lemma applyFlush_through:
  "ok_insert (we_ok en) \<Longrightarrow> w_flushedThrough (applyFlush en b w) = (if fb_final b then w_flushedThrough w else unix (fb_minute b + minutes 1))"
  by (simp add: applyFlush_def Let_def)

lemma applyFlush_failed: "fb_rows b \<noteq> [] \<or> fb_meta b \<noteq> [] \<Longrightarrow> \<not> ok_insert (we_ok en) \<Longrightarrow> applyFlush en b w = w"
  by (simp add: applyFlush_def)

subsection \<open>Properties\<close>

text \<open>
  C16: A rollup touches exactly its window. Rolling \<open>n\<close> hours up to \<open>t\<close> replaces, for every exporter and for every
  complete hour in the last \<open>min n 3\<close> before the hour of \<open>t\<close> whose rollup commits, the stored hour by the
  rollup of the minute table (of the rows it has read, when the scan ends early); every other stored hour is as before (so an hour older than three hours is never
  overwritten, whatever the retention setting says), no other table but the hourly ones changes, and
  the mark of the rolled hours is moved to the hour of \<open>t\<close>.
\<close>

theorem rollup_window:
  assumes "ok_list (we_ok en)"
  shows "(\<forall>e h. stored_hour e h (w_db (rollup en t n w)) =
      (if e \<in> set (exporter_ids (w_db w)) \<and> 3600 dvd h \<and> hour_of t - 3600 * min n 3 \<le> h \<and> h < hour_of t \<and> ok_roll (we_ok en) e h \<noteq> RollFails
       then rolled_rows e h (nat (max (TopNHourly (we_get en)) 1))
         (case ok_roll (we_ok en) e h of RollCut k \<Rightarrow> take k (hour_rows e h (fd_1m (w_db w))) | _ \<Rightarrow> fd_1m (w_db w))
       else stored_hour e h (w_db w)))
    \<and> (w_db (rollup en t n w))\<lparr>fd_1h := [], fd_1h_meta := []\<rparr> = (w_db w)\<lparr>fd_1h := [], fd_1h_meta := []\<rparr>
    \<and> w_rolledThrough (rollup en t n w) = hour_of t"
proof -
  let ?l = "concat (map (\<lambda>h. map (\<lambda>e. (e, h)) (exporter_ids (w_db w)))
      (rollup_hours (hour_of t) n (min rollupMaxLookback (Retention1mDays (we_get en) * 24 * 3600 - 3600))))"
  have i: "(e, h) \<in> set ?l \<longleftrightarrow> e \<in> set (exporter_ids (w_db w)) \<and> 3600 dvd h \<and> hour_of t - 3600 * min n 3 \<le> h \<and> h < hour_of t" for e h
    by (rule rollup_pairs_iff)
  have "stored_hour e h (w_db (rollup en t n w)) = (if (e, h) \<in> set ?l \<and> ok_roll (we_ok en) e h \<noteq> RollFails
       then rolled_rows e h (nat (max (TopNHourly (we_get en)) 1))
         (case ok_roll (we_ok en) e h of RollCut k \<Rightarrow> take k (hour_rows e h (fd_1m (w_db w))) | _ \<Rightarrow> fd_1m (w_db w))
       else stored_hour e h (w_db w))" for e h
    unfolding rollup_eq [OF assms] using rolls_hour [of ?l e h "ok_roll (we_ok en)" "TopNHourly (we_get en)" "w_db w"] i
    by (simp add: rows_read_def rolled_rows_read split: roll_outcome.split)
  then show ?thesis unfolding i by (simp add: rollup_eq [OF assms])
qed

definition all_ok :: outcomes where
  "all_ok = \<lparr>ok_insert = True, ok_touch = (\<lambda>_. True), ok_points = True, ok_list = True, ok_roll = (\<lambda>_ _. RollDone), ok_unrolled = True, ok_reroll = (\<lambda>_ _. RollDone),
     ok_template = True, ok_trim = True, ok_delete = True, ok_withdraw = True, ok_status = (\<lambda>_. True)\<rparr>"

definition demo_wenv :: writer_env where
  "demo_wenv = \<lparr>we_get = (\<lambda>_. None), we_ok = all_ok, we_subscribed = False,
     we_reads = demo_reads, we_age = None, we_now = 0, we_later = 0, we_net = demo_net\<rparr>"

definition demo_writer :: writer where
  "demo_writer = \<lparr>w_db = demo_flow_db\<lparr>fd_exporters := [(7, demo_row\<lparr>fe_ID := 7\<rparr>)]\<rparr>, w_flushedThrough = 0, w_rolledThrough = 0, w_published = [],
     w_pointLog = [], w_pointLines = []\<rparr>"

theorem rollup_window_witness:
  "stored_hour 7 7200 (w_db (rollup demo_wenv (time_Unix 10800 0) 2 demo_writer)) = rolled_rows 7 7200 100 (fd_1m demo_flow_db)"
proof -
  have "hour_of (time_Unix 10800 0) = 10800" by (rule hour_of_Unix) simp
  then show ?thesis using rollup_window [of demo_wenv "time_Unix 10800 0" 2 demo_writer]
    by (simp add: demo_wenv_def all_ok_def demo_writer_def exporter_ids_def TopNHourly_def settingInt_def)
qed

text \<open>
  A rollup whose scan ends early commits all the same: the hour is stored with what was read, and as its summary row is
  there, the catch-up takes the hour for rolled.
\<close>

theorem cut_rollup_counts_as_done:
  "let db = roll_one (\<lambda>_ _. RollCut 1) 100 (7, 7200) demo_flow_db
   in pair_total fs_bytes (1, 2) (hour_rows 7 7200 (fd_1m db)) = 220
    \<and> pair_total fs_bytes (1, 2) (stored_hour 7 7200 db) = 100 \<and> gm_has (fd_1h_meta db) (7, 7200)"
proof -
  have d: "(3600 :: int) dvd 7200" by simp
  have r: "rows_read (RollCut 1) 7 7200 (fd_1m demo_flow_db) = take 1 (fd_1m demo_flow_db)" by (simp add: rows_read_def demo_hour_rows)
  have h: "hour_rows 7 7200 (take 1 (fd_1m demo_flow_db)) = take 1 (fd_1m demo_flow_db)"
    by (simp add: hour_rows_def demo_flow_db_def demo_flow_key_def in_hour_def key_bucket_def)
  have f: "fits fs_bytes (take 1 (fd_1m demo_flow_db))" by (simp add: fits_def demo_flow_db_def maxInt64_def)
  have "pair_total fs_bytes (1, 2) (rolled_rows 7 7200 100 (take 1 (fd_1m demo_flow_db))) = pair_total fs_bytes (1, 2) (take 1 (fd_1m demo_flow_db))"
    using sb.rolled_pair_total [of 7 7200 "take 1 (fd_1m demo_flow_db)" "(1, 2)" 100, unfolded h, OF f] .
  moreover have "pair_total fs_bytes (1, 2) (take 1 (fd_1m demo_flow_db)) = 100" by (simp add: pair_total_def row_pair_def demo_flow_db_def demo_flow_key_def)
  moreover have "pair_total fs_bytes (1, 2) (fd_1m demo_flow_db) = 220" by (simp add: pair_total_def row_pair_def demo_flow_db_def demo_flow_key_def)
  moreover have "0 < mc_minutes (hour_meta 7 7200 (fd_1m_meta demo_flow_db))" by (simp add: hour_meta_def in_hour_def demo_flow_db_def)
  ultimately show ?thesis by (simp add: Let_def demo_hour_rows roll_one_hour [OF d] roll_one_meta [OF d] r [simplified])
qed

text \<open>
  C15: After a start no complete hour of the catch-up window stays unrolled. The window goes back from the running hour by
  the configured days of minute data, 24 hours each, less one hour. When the queries of the catch-up commit (those of the
  regular three-hour rollup before it may fail), applying the start-up operation leaves no exporter with minutes of a
  complete hour in this window that lacks its hourly row.
\<close>

theorem startup_rolls_everything:
  assumes "\<not> is_zero now" and "ok_unrolled (we_ok en)" and "\<And>e h. ok_reroll (we_ok en) e h \<noteq> RollFails"
    and "(e, b) \<in> fst ` set (fd_1m_meta (w_db w))"
    and "hour_of now - (Retention1mDays (we_get en) * 86400 - 3600) \<le> b" and "b < hour_of now"
  shows "gm_has (fd_1h_meta (w_db (applyWrite en (WStartupRollup now) w))) (e, b - b mod 3600)"
proof -
  let ?w = "rollup en now startupRollupHours w"
  have m: "fd_1m_meta (w_db ?w) = fd_1m_meta (w_db w)"
    by (cases "ok_list (we_ok en)") (simp add: rollup_eq, simp add: rollup_def)
  have d: "w_db (applyWrite en (WStartupRollup now) w) = w_db (rollupUnrolled en now ?w)" using assms(1) by (simp add: applyWrite_def)
  have "fd_1m_meta (w_db (rollupUnrolled en now ?w)) = fd_1m_meta (w_db w)" by (simp add: rollupUnrolled_db [OF assms(2)] m)
  then have "(e, time_Unix (b - b mod 3600) 0) \<in> set (UnrolledFlowHours (time_Unix (unrolled_from en now) 0) (time_Unix (hour_of now) 0)
      (w_db (rollupUnrolled en now ?w)))" if "\<not> gm_has (fd_1h_meta (w_db (rollupUnrolled en now ?w))) (e, b - b mod 3600)"
    using that assms(4-6) by (auto simp: UnrolledFlowHours_iff unrolled_from_def)
  then show ?thesis unfolding d using unrolled_done [OF assms(2,3)] by fastforce
qed

theorem startup_rolls_everything_witness:
  "gm_has (fd_1h_meta (w_db (applyWrite demo_wenv (WStartupRollup (time_Unix 14400 0)) demo_writer))) (7, 7200)"
proof -
  have h: "hour_of (time_Unix 14400 0) = 14400" by (rule hour_of_Unix) simp
  have "\<not> is_zero (time_Unix 14400 0)" by code_simp
  then show ?thesis using startup_rolls_everything [of "time_Unix 14400 0" demo_wenv 7 7200 demo_writer]
    by (simp add: demo_wenv_def all_ok_def demo_writer_def demo_flow_db_def h Retention1mDays_def settingInt_def)
qed

text \<open>
  C2: What the worker aggregated is what the table grows by. Take the batch of a minute that the worker flushes and
  let the writer apply it with a successful insert: the minute table's bytes, packets and flows of every
  exporter that has the minute open grow by exactly the totals of its open minute, whatever the
  flush folded into other rows; the minute is gone from the aggregator, so it is not written twice, and
  unless it is the shutdown flush the flushed-through mark is the end of the minute. A failed insert changes nothing, not
  even the mark.
\<close>

theorem minute_reaches_table:
  assumes "exps_ok (c_nextFlush c) P c" and "flush_batch m now final c = (c', b)"
    and "gm_get (c_exps c) i = Some st" and "gm_get (x_agg st) m = Some mm"
    and "minute_sum av_bytes mm \<le> maxInt64" and "minute_sum av_packets mm \<le> maxInt64" and "minute_sum av_flows mm \<le> maxInt64"
  shows "(if ok_insert (we_ok en) then
       minute_total fs_bytes i m (w_db (applyWrite en (WFlush b) w)) = minute_total fs_bytes i m (w_db w) + minute_sum av_bytes mm
       \<and> minute_total fs_packets i m (w_db (applyWrite en (WFlush b) w)) = minute_total fs_packets i m (w_db w) + minute_sum av_packets mm
       \<and> minute_total fs_flows i m (w_db (applyWrite en (WFlush b) w)) = minute_total fs_flows i m (w_db w) + minute_sum av_flows mm
       \<and> w_flushedThrough (applyWrite en (WFlush b) w) = (if final then w_flushedThrough w else m + 60)
     else fb_rows b = [] \<and> fb_meta b = [] \<or> applyWrite en (WFlush b) w = w)
    \<and> (\<exists>st'. gm_get (c_exps c') i = Some st' \<and> gm_get (x_agg st') m = None)"
proof -
  have wf: "gm_wf (c_exps c)" using assms(1) by (simp add: exps_ok_def)
  have a: "agg_ok (x_agg st)" "agg_from (c_nextFlush c) (x_agg st)"
    using gm_all_get [OF _ assms(3)] assms(1) by (auto simp: exps_ok_def)
  then have mm: "mm_ok mm" using assms(4) by (auto simp: agg_ok_def dest: gm_all_get)
  have "60 dvd m" using a(2) gm_get_in_set [OF assms(4)] by (force simp: agg_from_iff)
  note B = batch_row_sum [OF assms(2) wf assms(3) this]
  have rows: "exporter_rows c m i = flush_rows i m (nat (max (rs_topN (c_settings c)) 1)) (nat (max (rs_maxRows (c_settings c)) 1)) mm"
    using assms(3,4) by (simp add: exporter_rows_def flush_def Let_def)
  note S = byt_rows.rows_sum [OF mm assms(5)] pkt_rows.rows_sum [OF mm assms(6)] flo_rows.rows_sum [OF mm assms(7)]
  have T: "minute_total sel i m (w_db (applyWrite en (WFlush b) w)) = minute_total sel i m (w_db w) + sum_list (map (\<lambda>r. sel (row_sums r)) (exporter_rows c m i))"
    if "\<And>a s. sel \<lparr>fs_bytes = fs_bytes a + fs_bytes s, fs_packets = fs_packets a + fs_packets s, fs_flows = fs_flows a + fs_flows s\<rparr> = sel a + sel s"
      "ok_insert (we_ok en)" for sel
    using upsert_rows_sum [of sel "\<lambda>k. key_bucket k = (i, m)", OF that(1)] that(2) B [of "\<lambda>r. sel (row_sums r)"]
    by (simp add: minute_total_def applyWrite_def applyFlush_1m)
  have t: "w_flushedThrough (applyWrite en (WFlush b) w) = (if final then w_flushedThrough w else m + 60)" if "ok_insert (we_ok en)"
    using that batch_rows(2,3) [OF assms(2) wf] by (simp add: applyWrite_def applyFlush_through unix_def time_Unix_def time_defs)
  have g: "\<exists>st'. gm_get (c_exps c') i = Some st' \<and> gm_get (x_agg st') m = None"
    using flush_batch_exps [OF assms(2) wf, of i] assms(3) by (auto simp: flushed_of_def)
  show ?thesis using T [of fs_bytes] T [of fs_packets] T [of fs_flows] S t g applyFlush_failed [of b en w]
    by (auto simp: rows row_sums_def applyWrite_def)
qed

theorem minute_reaches_table_witness:
  "minute_total fs_bytes 1 600 (w_db (applyWrite demo_wenv (WFlush (snd (flush_batch 600 0 False
     (demo_collector\<lparr>c_exps := [(1, (fresh_state fin_ts demo_row NoAddr)\<lparr>x_agg := demo_agg\<rparr>)]\<rparr>)))) demo_writer)) = 120"
proof -
  define st where "st = (fresh_state fin_ts demo_row NoAddr)\<lparr>x_agg := demo_agg\<rparr>"
  define c where "c = demo_collector\<lparr>c_exps := [(1, st)]\<rparr>"
  let ?mm = "demo_minute [(demo_key, demo_val 50), (demo_key2, demo_val 70)]"
  have d: "demo_key \<noteq> demo_key2" by (simp add: demo_key2_def demo_key_def)
  have "agg_ok demo_agg" using d
    by (simp add: agg_ok_def gm_all_def gm_wf_def gm_len_def mm_ok_def vals_ok_def val_ok_def demo_agg_def demo_minute_def
        demo_val_def newMinuteAgg_def maxKeysPerMinute_def)
  then have "exps_ok (c_nextFlush c) (\<lambda>_. True) c"
    by (simp add: exps_ok_def c_def st_def gm_wf_def gm_all_def demo_agg_def agg_from_def demo_collector_def)
  moreover have "gm_get (c_exps c) 1 = Some st" "gm_get (x_agg st) 600 = Some ?mm" by (simp_all add: c_def st_def demo_agg_def gm_get_def)
  moreover have "minute_sum av_bytes ?mm = 120" "minute_sum av_packets ?mm = 2" "minute_sum av_flows ?mm = 2"
    by (simp_all add: minute_sum_def demo_minute_def demo_val_def newMinuteAgg_def)
  moreover have "minute_total fs_bytes 1 600 (w_db demo_writer) = 0"
    by (simp add: minute_total_def demo_writer_def demo_flow_db_def key_bucket_def demo_flow_key_def)
  moreover have "ok_insert (we_ok demo_wenv)" by (simp add: demo_wenv_def all_ok_def)
  ultimately show ?thesis
    using minute_reaches_table [of c "\<lambda>_. True" 600 0 False "fst (flush_batch 600 0 False c)" "snd (flush_batch 600 0 False c)" 1 st ?mm demo_wenv demo_writer]
    by (simp add: maxInt64_def flip: c_def st_def)
qed

subsection \<open>The tables stay well-formed\<close>

definition blob_ok :: "bytes \<Rightarrow> bool" where
  "blob_ok b \<longleftrightarrow> length b = 0 \<or> length b = 4 \<or> length b = 16"

definition keys_aligned :: "int \<Rightarrow> flow_table \<Rightarrow> bool" where
  "keys_aligned d t \<longleftrightarrow> (\<forall>k \<in> fst ` set t. d dvd tk_bucket k \<and> blob_ok (tk_src k) \<and> blob_ok (tk_dst k))"

definition meta_aligned :: "int \<Rightarrow> meta_table \<Rightarrow> bool" where
  "meta_aligned d t \<longleftrightarrow> (\<forall>k \<in> fst ` set t. d dvd snd k)"

definition facts_ok :: "flow_db \<Rightarrow> bool" where
  "facts_ok db \<longleftrightarrow> gm_wf (fd_1m db) \<and> keys_aligned 60 (fd_1m db) \<and> gm_wf (fd_1m_meta db) \<and> meta_aligned 60 (fd_1m_meta db)
     \<and> gm_wf (fd_1h db) \<and> keys_aligned 3600 (fd_1h db) \<and> gm_wf (fd_1h_meta db) \<and> meta_aligned 3600 (fd_1h_meta db)"

definition rows_ok :: "flow_db \<Rightarrow> bool" where
  "rows_ok db \<longleftrightarrow> keyed fe_ID (fd_exporters db) \<and> keyed (\<lambda>f. (fi_ExporterID f, fi_IfIndex f)) (fd_ifaces db) \<and> keyed tmpl_id (fd_templates db)"

definition op_ok :: "writeOp \<Rightarrow> bool" where
  "op_ok op \<longleftrightarrow> (case op of WFlush b \<Rightarrow> list_all (\<lambda>r. addr_wf (fr_Src r) \<and> addr_wf (fr_Dst r)) (fb_rows b) | _ \<Rightarrow> True)"

lemma blob_ok_IPBlob [simp]: "addr_wf a \<Longrightarrow> blob_ok (FlowIPBlob a)"
  by (cases a) (auto simp: FlowIPBlob_def blob_ok_def)

lemma facts_upsert_rows:
  assumes "gm_wf t" and "keys_aligned 60 t" and "list_all (\<lambda>r. addr_wf (fr_Src r) \<and> addr_wf (fr_Dst r)) rows"
  shows "gm_wf (fold upsert_row rows t) \<and> keys_aligned 60 (fold upsert_row rows t)"
  using assms
proof (induction rows arbitrary: t)
  case (Cons r rows)
  have "gm_wf (upsert_row r t)" using Cons.prems by (simp add: upsert_row_def gm_wf_intros)
  moreover have "keys_aligned 60 (upsert_row r t)"
    using Cons.prems by (simp add: keys_aligned_def upsert_row_def keys_put row_key_def minute_of_def)
  ultimately show ?case using Cons by simp
qed simp

lemma facts_upsert_meta:
  assumes "gm_wf t" and "meta_aligned 60 t"
  shows "gm_wf (fold upsert_meta ms t) \<and> meta_aligned 60 (fold upsert_meta ms t)"
  using assms
proof (induction ms arbitrary: t)
  case (Cons m ms)
  have "gm_wf (upsert_meta m t) \<and> meta_aligned 60 (upsert_meta m t)"
    using Cons.prems by (simp add: upsert_meta_def meta_aligned_def Let_def keys_put minute_of_def gm_wf_intros)
  then show ?case using Cons by simp
qed simp

lemma kept_blobs: "kv \<in> set (rolled_rows e h n t) \<Longrightarrow> blob_ok (tk_src (fst kv)) \<and> blob_ok (tk_dst (fst kv))"
proof -
  assume kv0: "kv \<in> set (rolled_rows e h n t)"
  obtain cv ot where f: "fold rollup_scan (hour_rows e h t) ([], []) = (cv, ot)" by (metis prod.exhaust)
  have kv: "kv \<in> set (map (kept_row e h) (rollup_kept n cv) @ map (other_hour_row e h) (rollup_others n cv ot))"
    using kv0 by (simp only: rolled_rows_def f Let_def prod.case)
  have "maps_ok ([], [])" by (simp add: maps_ok_def)
  then have ok: "maps_ok (cv, ot)" using maps_ok_scans f by metis
  show ?thesis
  proof (cases "kv \<in> set (map (kept_row e h) (rollup_kept n cv))")
    case True
    then obtain x where x: "x \<in> set cv" "kv = kept_row e h x" using kept_distinct(2) [of cv n] ok by (auto simp: maps_ok_def)
    have "canon (fst x)" using ok x(1) by (auto simp: maps_ok_def)
    then obtain a b where a: "(gk_src (fst x), gk_srcOK (fst x)) = addr16 a" "addr_wf a" "Unmap a = a"
      and b: "(gk_dst (fst x), gk_dstOK (fst x)) = addr16 b" "addr_wf b" "Unmap b = b" by (auto simp: canon_def)
    show ?thesis unfolding x(2) using blob_addr16(1) [OF a] blob_addr16(1) [OF b] a(2) b(2) by (simp add: kept_row_def split_beta)
  next
    case False
    then show ?thesis using kv by (auto simp: other_hour_row_def blob_ok_def)
  qed
qed

lemma gm_wf_append: "gm_wf (a @ b) \<longleftrightarrow> gm_wf a \<and> gm_wf b \<and> fst ` set a \<inter> fst ` set b = {}"
  by (simp add: gm_wf_def)

lemma facts_roll_one: "facts_ok db \<Longrightarrow> 3600 dvd h \<Longrightarrow> facts_ok (roll_one ok topN (e, h) db)"
proof -
  assume f: "facts_ok db" and h: "3600 dvd h"
  let ?R = "rolled_rows e h (nat (max topN 1)) (rows_read (ok e h) e h (fd_1m db))"
  have r: "key_bucket (fst kv) = (e, h)" "blob_ok (tk_src (fst kv)) \<and> blob_ok (tk_dst (fst kv))" if "kv \<in> set ?R" for kv
    using rolled_bucket [OF that] kept_blobs [OF that] by simp_all
  have "gm_wf (filter (\<lambda>kv. key_bucket (fst kv) \<noteq> (e, h)) (fd_1h db) @ ?R)"
  proof (unfold gm_wf_append, intro conjI)
    show "gm_wf (filter (\<lambda>kv. key_bucket (fst kv) \<noteq> (e, h)) (fd_1h db))" using f by (simp add: facts_ok_def gm_wf_filter)
    show "gm_wf ?R" unfolding gm_wf_def by (rule rolled_distinct)
    show "fst ` set (filter (\<lambda>kv. key_bucket (fst kv) \<noteq> (e, h)) (fd_1h db)) \<inter> fst ` set ?R = {}" using r(1) by force
  qed
  moreover have "keys_aligned 3600 (filter (\<lambda>kv. key_bucket (fst kv) \<noteq> (e, h)) (fd_1h db) @ ?R)"
    using f r h by (fastforce simp: keys_aligned_def facts_ok_def key_bucket_def)
  moreover have "gm_wf (filter (\<lambda>kv. fst kv \<noteq> (e, h)) (fd_1h_meta db) @ l) \<and> meta_aligned 3600 (filter (\<lambda>kv. fst kv \<noteq> (e, h)) (fd_1h_meta db) @ l)"
    if "l = [] \<or> (\<exists>m. l = [((e, h), m)])" for l
    using f h that by (auto simp: gm_wf_append gm_wf_filter facts_ok_def meta_aligned_def gm_wf_def [of "[_]"])
  ultimately show ?thesis using f by (simp add: roll_one_eq [OF h] facts_ok_def Let_def)
qed

lemma facts_rolls: "facts_ok db \<Longrightarrow> (\<And>e h. (e, h) \<in> set ehs \<Longrightarrow> 3600 dvd h) \<Longrightarrow> facts_ok (fold (roll_one ok topN) ehs db)"
proof (induction ehs arbitrary: db)
  case (Cons x ehs)
  obtain e h where x: "x = (e, h)" by (cases x)
  have "facts_ok (roll_one ok topN x db)" unfolding x using Cons.prems by (intro facts_roll_one) (auto simp: x)
  then show ?case using Cons.IH Cons.prems(2) by (metis fold_simps(2) list.set_intros(2))
qed simp

lemma roll_one_rows [simp]:
  "fd_exporters (roll_one ok topN eh db) = fd_exporters db" "fd_ifaces (roll_one ok topN eh db) = fd_ifaces db"
  "fd_templates (roll_one ok topN eh db) = fd_templates db" "fd_points (roll_one ok topN eh db) = fd_points db"
  "fd_pointSeq (roll_one ok topN eh db) = fd_pointSeq db"
  by (simp_all add: roll_one_def RollupFlows1h_eq Let_def split: roll_outcome.split)

lemma rolls_rows [simp]: "rows_ok (fold (roll_one ok topN) ehs db) = rows_ok db"
  by (induction ehs arbitrary: db) (simp_all add: rows_ok_def)

text \<open>Foreign keys: points, interfaces and templates of exporters that exist, exporters and points of devices that exist.\<close>

definition owned :: "(int, 'e) gomap \<Rightarrow> (int \<times> 'k, 'v) gomap \<Rightarrow> bool" where
  "owned ex m \<longleftrightarrow> (\<forall>k. k \<in> fst ` set m \<longrightarrow> gm_has ex (fst k))"

lemma owned_put: "owned ex m \<Longrightarrow> gm_has ex (fst k) \<Longrightarrow> owned ex (gm_put k v m)"
  unfolding owned_def keys_put by blast

lemma owned_filter: "owned ex m \<Longrightarrow> owned ex (filter P m)"
  unfolding owned_def by auto

definition refs_ok :: "string list \<Rightarrow> flow_db \<Rightarrow> bool" where
  "refs_ok devs db \<longleftrightarrow> points_ok devs db \<and> exporters_ok devs db
     \<and> owned (fd_exporters db) (fd_ifaces db) \<and> owned (fd_exporters db) (fd_templates db)"

definition tables_ok :: "string list \<Rightarrow> flow_db \<Rightarrow> bool" where
  "tables_ok devs db \<longleftrightarrow> facts_ok db \<and> rows_ok db \<and> refs_ok devs db"

lemma points_ok_cong:
  assumes "fd_points db' = fd_points db" and "fd_pointSeq db' = fd_pointSeq db" and "\<And>i. gm_has (fd_exporters db') i = gm_has (fd_exporters db) i"
  shows "points_ok devs db' = points_ok devs db"
  by (simp add: points_ok_def point_row_ok_def [abs_def] point_refs_ok_def assms)

lemma refs_ok_cong:
  assumes "fd_points db' = fd_points db" and "fd_pointSeq db' = fd_pointSeq db" and "fd_exporters db' = fd_exporters db"
    and "fd_ifaces db' = fd_ifaces db" and "fd_templates db' = fd_templates db"
  shows "refs_ok devs db' = refs_ok devs db"
  using points_ok_cong [of db' db devs] assms by (simp add: refs_ok_def exporters_ok_def)

lemma rolls_refs [simp]: "refs_ok devs (fold (roll_one ok topN) ehs db) = refs_ok devs db"
proof (induction ehs arbitrary: db)
  case (Cons eh ehs)
  have "refs_ok devs (roll_one ok topN eh db) = refs_ok devs db" by (rule refs_ok_cong) simp_all
  then show ?case using Cons by simp
qed simp

lemma tables_rollup: "tables_ok devs (w_db w) \<Longrightarrow> tables_ok devs (w_db (rollup en t n w))"
proof (cases "ok_list (we_ok en)")
  case True
  have "3600 dvd h" if "(e, h) \<in> set (concat (map (\<lambda>h. map (\<lambda>e. (e, h)) (exporter_ids (w_db w)))
      (rollup_hours (hour_of t) n (min rollupMaxLookback (Retention1mDays (we_get en) * 24 * 3600 - 3600)))))" for e h
    using that unfolding rollup_pairs_iff by blast
  then show "tables_ok devs (w_db w) \<Longrightarrow> ?thesis" unfolding rollup_eq [OF True] tables_ok_def by (auto intro!: facts_rolls)
qed (simp add: rollup_def)

lemma tables_unrolled: "tables_ok devs (w_db w) \<Longrightarrow> tables_ok devs (w_db (rollupUnrolled en now w))"
proof (cases "ok_unrolled (we_ok en)")
  case True
  have "3600 dvd h" if "(e, h) \<in> set (map (\<lambda>(e, h). (e, unix h)) (UnrolledFlowHours fr to db))" for e h fr to db
    using that by (auto simp: UnrolledFlowHours_iff minus_mod_eq_mult_div)
  then show "tables_ok devs (w_db w) \<Longrightarrow> ?thesis" unfolding rollupUnrolled_db [OF True] tables_ok_def by (auto intro: facts_rolls)
qed (simp add: rollupUnrolled_def)

lemma keyed_touch: "keyed (\<lambda>f. (fi_ExporterID f, fi_IfIndex f)) m \<Longrightarrow> keyed (\<lambda>f. (fi_ExporterID f, fi_IfIndex f)) (touch_iface e ts x m)"
  by (cases x) (auto simp: touch_iface_def new_iface_def intro!: keyed_put dest: keyed_get split: option.splits)

lemma rows_ok_touch: "rows_ok db \<Longrightarrow> rows_ok (TouchFlowIfaces i seens t db)"
  by (simp add: rows_ok_def TouchFlowIfaces_def fold_inv [where I = "keyed (\<lambda>f. (fi_ExporterID f, fi_IfIndex f))"] keyed_touch)

lemma touch_facts [simp]: "facts_ok (TouchFlowIfaces i seens t db) = facts_ok db"
  by (simp add: TouchFlowIfaces_def facts_ok_def)

lemma owned_touch: "gm_has ex e \<Longrightarrow> owned ex m \<Longrightarrow> owned ex (touch_iface e ts x m)"
  by (cases x) (simp add: touch_iface_def owned_put)

lemma refs_ok_touch: "refs_ok devs db \<Longrightarrow> refs_ok devs (TouchFlowIfaces i seens t db)"
proof (cases "gm_has (fd_exporters db) i")
  case True
  assume r: "refs_ok devs db"
  let ?db = "TouchFlowIfaces i seens t db"
  have "owned (fd_exporters db) (fold (touch_iface i (unixOf t)) seens (fd_ifaces db))"
    by (rule fold_inv [where I = "owned (fd_exporters db)"]) (use r owned_touch [OF True] in \<open>auto simp: refs_ok_def\<close>)
  moreover have "points_ok devs ?db = points_ok devs db" by (rule points_ok_cong) (simp_all add: TouchFlowIfaces_def)
  ultimately show ?thesis using r True by (simp add: refs_ok_def exporters_ok_def TouchFlowIfaces_def)
qed (simp add: TouchFlowIfaces_def)

lemma tables_touches:
  assumes "tables_ok devs db"
  shows "tables_ok devs (fold (\<lambda>(i, seens) db. if ok i then TouchFlowIfaces i seens t db else db) l db)"
  by (rule fold_inv [where I = "tables_ok devs"]) (use assms in \<open>auto simp: tables_ok_def rows_ok_touch refs_ok_touch\<close>)

lemma refs_ok_status: "refs_ok devs db \<Longrightarrow> refs_ok devs (AddFlowExporterStatus d db)"
proof (cases "gm_get (fd_exporters db) (sd_id d)")
  case (Some r)
  assume t: "refs_ok devs db"
  let ?db = "AddFlowExporterStatus d db"
  have h: "gm_has (fd_exporters ?db) i = gm_has (fd_exporters db) i" for i using Some by (auto simp: AddFlowExporterStatus_def Let_def gm_has_def)
  have k: "keyed fe_ID (fd_exporters db)" and "device_ref_ok devs (fe_DeviceID r)" "fe_ID r = sd_id d"
    using t Some gm_all_get [OF _ Some] keyed_get [OF _ Some] by (auto simp: refs_ok_def exporters_ok_def)
  then have "exporters_ok devs ?db" using t Some by (simp add: exporters_ok_def refs_ok_def AddFlowExporterStatus_def Let_def keyed_put gm_all_put)
  moreover have "points_ok devs ?db = points_ok devs db" by (rule points_ok_cong) (simp_all add: h, simp_all add: AddFlowExporterStatus_def Let_def split: option.split)
  moreover have "fd_ifaces ?db = fd_ifaces db" "fd_templates ?db = fd_templates db" by (simp_all add: AddFlowExporterStatus_def Let_def split: option.split)
  ultimately show ?thesis using t h by (simp add: refs_ok_def owned_def)
qed (simp add: AddFlowExporterStatus_def)

lemma tables_status: "tables_ok devs db \<Longrightarrow> tables_ok devs (AddFlowExporterStatus d db)"
proof (cases "gm_get (fd_exporters db) (sd_id d)")
  case (Some r)
  assume t: "tables_ok devs db"
  have "fe_ID r = sd_id d" using t keyed_get [OF _ Some] by (simp add: tables_ok_def rows_ok_def)
  moreover have "refs_ok devs (AddFlowExporterStatus d db)" using t by (simp add: tables_ok_def refs_ok_status)
  ultimately show ?thesis using t Some
    by (simp add: tables_ok_def) (simp add: AddFlowExporterStatus_def Let_def tables_ok_def rows_ok_def facts_ok_def keyed_put)
qed (simp add: AddFlowExporterStatus_def)

lemma tables_statuses:
  assumes "tables_ok devs db"
  shows "tables_ok devs (fold (\<lambda>(n, d) db. if ok n then AddFlowExporterStatus d db else db) l db)"
  by (rule fold_inv [where I = "tables_ok devs"]) (use assms in \<open>auto simp: tables_status\<close>)

lemma tmpl_id_updated [simp]: "tmpl_id (t\<lparr>ft_UpdatedAt := x\<rparr>) = tmpl_id t"
  by (simp add: tmpl_id_def)

lemma tables_templates:
  assumes "tables_ok devs db"
  shows "tables_ok devs (UpsertFlowTemplate t db)" "tables_ok devs (TrimFlowTemplates e keep db)" "tables_ok devs (DeleteFlowTemplates e db)"
    "tables_ok devs (DeleteFlowTemplateKeys e ks db)"
proof -
  have F: "tables_ok devs (db\<lparr>fd_templates := m\<rparr>)" if "keyed tmpl_id m" "owned (fd_exporters db) m" for m
  proof -
    have "points_ok devs (db\<lparr>fd_templates := m\<rparr>) = points_ok devs db" by (rule points_ok_cong) simp_all
    then show ?thesis using assms that by (simp add: tables_ok_def rows_ok_def facts_ok_def refs_ok_def exporters_ok_def)
  qed
  have R: "owned (fd_exporters db) (fd_templates db)" using assms by (simp add: tables_ok_def refs_ok_def)
  have D: "keyed tmpl_id (fd_templates db)" using assms by (simp add: tables_ok_def rows_ok_def)
  have S: "fold (\<lambda>k. gm_del (e, k)) ks m = filter (\<lambda>kv. fst kv \<notin> Pair e ` set ks) m" for m :: "(int \<times> TemplateKey, FlowTemplate) gomap"
    by (induction ks arbitrary: m) (auto simp: gm_del_def AList.delete_eq intro!: filter_cong)
  show "tables_ok devs (UpsertFlowTemplate t db)" by (auto simp: UpsertFlowTemplate_def assms intro!: F keyed_put D owned_put R) (simp add: tmpl_id_def)
  show "tables_ok devs (TrimFlowTemplates e keep db)" unfolding TrimFlowTemplates_def Let_def by (rule F) (rule keyed_filter [OF D], rule owned_filter [OF R])
  show "tables_ok devs (DeleteFlowTemplates e db)" unfolding DeleteFlowTemplates_def by (rule F) (rule keyed_filter [OF D], rule owned_filter [OF R])
  show "tables_ok devs (DeleteFlowTemplateKeys e ks db)" unfolding DeleteFlowTemplateKeys_def S by (rule F) (rule keyed_filter [OF D], rule owned_filter [OF R])
qed

lemma tables_insert:
  assumes "tables_ok devs db" and "list_all (\<lambda>r. addr_wf (fr_Src r) \<and> addr_wf (fr_Dst r)) rows"
  shows "tables_ok devs (InsertFlows1m rows ms db)"
  using assms facts_upsert_rows [OF _ _ assms(2), of "fd_1m db"] facts_upsert_meta [of "fd_1m_meta db" ms]
  refs_ok_cong [of "InsertFlows1m rows ms db" db devs] by (simp add: InsertFlows1m_def tables_ok_def facts_ok_def rows_ok_def)

lemma points_ok_native_points: "points_ok (device_ids nd) db \<Longrightarrow> points_ok (device_ids nd) (fst (ensureNativePoints rd ok get age now later nd cands (db, plog)))"
  using ensureNativePoints_cases [OF refl, of rd ok get age now later nd cands db plog] points_ok_ensure by (auto simp: EnsureNativeFlowPoints_def)

lemma tables_flush_points: "tables_ok (device_ids (we_net en)) (w_db w) \<Longrightarrow> tables_ok (device_ids (we_net en)) (w_db (flush_points en b w))"
proof -
  assume t: "tables_ok (device_ids (we_net en)) (w_db w)"
  obtain x y where d: "w_db (flush_points en b w) = (w_db w)\<lparr>fd_points := x, fd_pointSeq := y\<rparr>" by (rule flush_points_only)
  have "points_ok (device_ids (we_net en)) (w_db (flush_points en b w))"
    using t points_ok_native_points [of "we_net en" "w_db w"] by (simp add: flush_points_def split_beta tables_ok_def refs_ok_def)
  then show ?thesis using t unfolding d by (simp add: tables_ok_def facts_ok_def rows_ok_def refs_ok_def exporters_ok_def)
qed

lemma tables_applyFlush:
  assumes "tables_ok (device_ids (we_net en)) (w_db w)" and "list_all (\<lambda>r. addr_wf (fr_Src r) \<and> addr_wf (fr_Dst r)) (fb_rows b)"
  shows "tables_ok (device_ids (we_net en)) (w_db (applyFlush en b w))"
proof -
  note i = tables_insert [OF assms, of "fb_meta b"]
  have "tables_ok (device_ids (we_net en)) (w_db (if is_zero (fb_rollupHour b) then x else rollup en (fb_rollupHour b) 2 x))" if "tables_ok (device_ids (we_net en)) (w_db x)" for x
    using that by (simp add: tables_rollup)
  then show ?thesis using i assms(1) by (simp add: applyFlush_def Let_def tables_touches tables_rollup tables_flush_points)
qed

text \<open>
  C32: The writer keeps the flow tables well-formed, whichever queries fail: primary keys are unique in every table,
  minute rows and their metadata sit on whole minutes and hourly ones on whole hours, addresses are stored in 0, 4 or
  16 bytes, every exporter, interface and template row is stored under the key its columns say, the unique indexes of
  the observation points hold, and every foreign key refers to a row that exists.
\<close>

theorem applyWrite_types:
  assumes "tables_ok (device_ids (we_net en)) (w_db w)" and "op_ok op" shows "tables_ok (device_ids (we_net en)) (w_db (applyWrite en op w))"
proof (cases op)
  case (WFlush b)
  then show ?thesis using assms by (simp add: applyWrite_def op_ok_def tables_applyFlush)
next
  case (WTemplate t)
  then show ?thesis using assms(1) by (simp add: applyWrite_def Let_def tables_templates)
next
  case (WStartupRollup t)
  then show ?thesis using assms(1) by (simp add: applyWrite_def tables_rollup tables_unrolled)
qed (use assms(1) in \<open>auto simp: applyWrite_def tables_templates tables_statuses\<close>)

theorem applyWrite_types_witness: "tables_ok [] (w_db (applyWrite demo_wenv (WStartupRollup (time_Unix 14400 0)) demo_writer))"
proof -
  have n: "device_ids (we_net demo_wenv) = []" by (simp add: demo_wenv_def demo_net_def device_ids_def)
  have "tables_ok (device_ids (we_net demo_wenv)) (w_db demo_writer)" unfolding n
    by (simp add: tables_ok_def facts_ok_def rows_ok_def keys_aligned_def meta_aligned_def blob_ok_def gm_wf_def keyed_def demo_writer_def
        demo_flow_db_def demo_flow_key_def demo_row_def refs_ok_def points_ok_def exporters_ok_def gm_all_def device_ref_ok_def owned_def)
  then show ?thesis using applyWrite_types [of demo_wenv demo_writer "WStartupRollup (time_Unix 14400 0)"] unfolding n by (simp add: op_ok_def)
qed

end
