(* ===== verification/Flow_Query.thy ===== *)
theory Flow_Query
  imports Flow_Points
begin

text \<open>
  The queries behind the views (\<open>database/queries/flows.go\<close>): the sums of the fact rows of one exporter over a window,
  grouped by time steps, and what the meta tables say about a window. A sum that leaves \<open>int64\<close> makes SQLite fail the statement (the
  stored counters are not negative, so this is decided by the sum). A failing connection is not modelled.
\<close>

subsection \<open>The queries\<close>

datatype FlowTable = Flows1m | Flows1h

definition native :: "FlowTable \<Rightarrow> duration" where
  "native t = (case t of Flows1h \<Rightarrow> hours 1 | Flows1m \<Rightarrow> minutes 1)"

definition flow_data :: "FlowTable \<Rightarrow> flow_db \<Rightarrow> flow_table" where
  "flow_data t db = (case t of Flows1m \<Rightarrow> fd_1m db | Flows1h \<Rightarrow> fd_1h db)"

definition flow_meta :: "FlowTable \<Rightarrow> flow_db \<Rightarrow> meta_table" where
  "flow_meta t db = (case t of Flows1m \<Rightarrow> fd_1m_meta db | Flows1h \<Rightarrow> fd_1h_meta db)"

record FlowAgg =
  fa_Bucket :: time
  fa_InIf :: u32
  fa_OutIf :: u32
  fa_Src :: addr
  fa_Dst :: addr
  fa_Proto :: u8
  fa_Port :: u16
  fa_Bytes :: int
  fa_Packets :: int
  fa_Flows :: int

datatype agg_error = ErrTooManyInterfaces | ErrStep | ErrSumOverflow

text \<open>The group start of a bucket and the selected rows; \<open>None\<close> when there can be none.\<close>

definition flowAggSQL :: "FlowTable \<Rightarrow> int \<Rightarrow> u32 list \<Rightarrow> time \<Rightarrow> time \<Rightarrow> duration \<Rightarrow> agg_error + ((int \<Rightarrow> int) \<times> (flow_key \<Rightarrow> bool)) option" where
  "flowAggSQL t e ifs fr to step =
    (let ifs = canonicalIfIndexes ifs; f = unix fr; tt = unix to; stepSec = go_quot step nanos_per_sec
     in if ifs = [] \<or> \<not> fr < to then Inr None
        else if length ifs > MaxFlowIfs then Inl ErrTooManyInterfaces
        else if step < 0 \<or> step > 0 \<and> go_rem step (native t) \<noteq> 0 then Inl ErrStep
        else Inr (Some (\<lambda>b. if stepSec > 0 then f + (b - f) div stepSec * stepSec else f,
          \<lambda>k. tk_exporter k = e \<and> f \<le> tk_bucket k \<and> tk_bucket k < tt \<and> (tk_inIf k \<in> set ifs \<or> tk_outIf k \<in> set ifs))))"

definition group_sum :: "(flow_key \<Rightarrow> flow_key) \<Rightarrow> (flowSums \<Rightarrow> int) \<Rightarrow> flow_table \<Rightarrow> flow_key \<Rightarrow> int" where
  "group_sum key sel t g = sum_list (map (\<lambda>r. sel (snd r)) (filter (\<lambda>r. key (fst r) = g) t))"

definition group_keys :: "(flow_key \<Rightarrow> flow_key) \<Rightarrow> flow_table \<Rightarrow> flow_key list" where
  "group_keys key t = remdups (map (\<lambda>r. key (fst r)) t)"

text \<open>\<open>ORDER BY g, b DESC, in_if, out_if, src, dst, proto, port\<close>.\<close>

definition agg_order :: "flow_key \<times> flowSums \<Rightarrow> flow_key \<times> flowSums \<Rightarrow> int" where
  "agg_order x y =
    (let (j, s) = x; (k, u) = y;
         c = go_compare (tk_bucket j) (tk_bucket k) in if c \<noteq> 0 then c else
     let c = go_compare (fs_bytes u) (fs_bytes s) in if c \<noteq> 0 then c else
     let c = go_compare (tk_inIf j) (tk_inIf k) in if c \<noteq> 0 then c else
     let c = go_compare (tk_outIf j) (tk_outIf k) in if c \<noteq> 0 then c else
     let c = bytes_Compare (tk_src j) (tk_src k) in if c \<noteq> 0 then c else
     let c = bytes_Compare (tk_dst j) (tk_dst k) in if c \<noteq> 0 then c else
     let c = go_compare (tk_proto j) (tk_proto k) in if c \<noteq> 0 then c else go_compare (tk_port j) (tk_port k))"

definition agg_of :: "flow_key \<times> flowSums \<Rightarrow> FlowAgg" where
  "agg_of ks = (let (k, s) = ks in \<lparr>fa_Bucket = time_Unix (tk_bucket k) 0, fa_InIf = tk_inIf k, fa_OutIf = tk_outIf k, fa_Src = FlowBlobIP (tk_src k),
     fa_Dst = FlowBlobIP (tk_dst k), fa_Proto = tk_proto k, fa_Port = tk_port k, fa_Bytes = fs_bytes s, fa_Packets = fs_packets s, fa_Flows = fs_flows s\<rparr>)"

definition step_key :: "(int \<Rightarrow> int) \<Rightarrow> flow_key \<Rightarrow> flow_key" where
  "step_key grp k = k\<lparr>tk_bucket := grp (tk_bucket k)\<rparr>"

definition AggregateFlows :: "FlowTable \<Rightarrow> int \<Rightarrow> u32 list \<Rightarrow> time \<Rightarrow> time \<Rightarrow> duration \<Rightarrow> flow_db \<Rightarrow> agg_error + FlowAgg list" where
  "AggregateFlows t e ifs fr to step db = (case flowAggSQL t e ifs fr to step of
     Inl er \<Rightarrow> Inl er
   | Inr None \<Rightarrow> Inr []
   | Inr (Some (grp, sel)) \<Rightarrow>
      (let rows = filter (\<lambda>r. sel (fst r)) (flow_data t db);
           key = step_key grp;
           gs = map (\<lambda>g. (g, \<lparr>fs_bytes = group_sum key fs_bytes rows g, fs_packets = group_sum key fs_packets rows g, fs_flows = group_sum key fs_flows rows g\<rparr>))
                  (group_keys key rows)
       in if \<not> list_all (\<lambda>(_, s). int64 (fs_bytes s) \<and> int64 (fs_packets s) \<and> int64 (fs_flows s)) gs then Inl ErrSumOverflow
          else Inr (map agg_of (sort_cmp agg_order gs))))"

text \<open>Only bytes, by fewer columns; rows of the same group start come in any order (\<open>shuf\<close>).\<close>

definition bytes_key :: "(int \<Rightarrow> int) \<Rightarrow> bool \<Rightarrow> flow_key \<Rightarrow> flow_key" where
  "bytes_key grp withEndpoints k = k\<lparr>tk_bucket := grp (tk_bucket k), tk_src := (if withEndpoints then tk_src k else []),
     tk_dst := (if withEndpoints then tk_dst k else []), tk_proto := 0, tk_port := 0\<rparr>"

definition AggregateFlowBytes :: "(flow_key list \<Rightarrow> flow_key list) \<Rightarrow> FlowTable \<Rightarrow> int \<Rightarrow> u32 list \<Rightarrow> time \<Rightarrow> time \<Rightarrow> duration \<Rightarrow> bool \<Rightarrow> flow_db \<Rightarrow>
    agg_error + FlowAgg list" where
  "AggregateFlowBytes shuf t e ifs fr to step withEndpoints db = (case flowAggSQL t e ifs fr to step of
     Inl er \<Rightarrow> Inl er
   | Inr None \<Rightarrow> Inr []
   | Inr (Some (grp, sel)) \<Rightarrow>
      (let rows = filter (\<lambda>r. sel (fst r)) (flow_data t db);
           key = bytes_key grp withEndpoints;
           gs = map (\<lambda>g. (g, \<lparr>fs_bytes = group_sum key fs_bytes rows g, fs_packets = 0, fs_flows = 0\<rparr>)) (sort_key tk_bucket (shuf (group_keys key rows)))
       in if \<not> list_all (\<lambda>(_, s). int64 (fs_bytes s)) gs then Inl ErrSumOverflow else Inr (map agg_of gs)))"

definition in_window :: "int \<Rightarrow> time \<Rightarrow> time \<Rightarrow> int \<times> int \<Rightarrow> bool" where
  "in_window e fr to eb \<longleftrightarrow> fst eb = e \<and> unix fr \<le> snd eb \<and> snd eb < unix to"

definition FlowMetaMinutes :: "int \<Rightarrow> time \<Rightarrow> time \<Rightarrow> flow_db \<Rightarrow> (int, int) gomap" where
  "FlowMetaMinutes e fr to db = fold (\<lambda>(eb, m). gm_put (snd eb) (mc_minutes m)) (filter (\<lambda>r. in_window e fr to (fst r)) (fd_1h_meta db)) []"

definition FlowMetaBuckets :: "FlowTable \<Rightarrow> int \<Rightarrow> time \<Rightarrow> time \<Rightarrow> flow_db \<Rightarrow> time list" where
  "FlowMetaBuckets t e fr to db = map (\<lambda>b. time_Unix b 0) (sort (map (\<lambda>r. snd (fst r)) (filter (\<lambda>r. in_window e fr to (fst r)) (flow_meta t db))))"

record FlowMetaTotals =
  mt_Buckets :: int
  mt_Datagrams :: int
  mt_Records :: int
  mt_Bytes :: int
  mt_Overflow :: int
  mt_Late :: int
  mt_MaxSampling :: int

definition FlowMetaSummary :: "FlowTable \<Rightarrow> int \<Rightarrow> time \<Rightarrow> time \<Rightarrow> flow_db \<Rightarrow> agg_error + FlowMetaTotals" where
  "FlowMetaSummary t e fr to db =
    (let ms = map snd (filter (\<lambda>r. in_window e fr to (fst r)) (flow_meta t db)); tot = (\<lambda>f. sum_list (map f ms))
     in if \<not> list_all (\<lambda>f. int64 (tot f)) [mc_datagrams, mc_records, mc_bytes, mc_overflow, mc_late] then Inl ErrSumOverflow
        else Inr \<lparr>mt_Buckets = int (length ms), mt_Datagrams = tot mc_datagrams, mt_Records = tot mc_records, mt_Bytes = tot mc_bytes,
          mt_Overflow = tot mc_overflow, mt_Late = tot mc_late, mt_MaxSampling = (if ms = [] then 0 else Max (mc_sampling ` set ms))\<rparr>)"

definition LatestFlowBucket :: "FlowTable \<Rightarrow> int \<Rightarrow> flow_db \<Rightarrow> time option" where
  "LatestFlowBucket t e db =
    (let bs = map (\<lambda>r. snd (fst r)) (filter (\<lambda>r. e = 0 \<or> fst (fst r) = e) (flow_meta t db))
     in if bs = [] then None else Some (time_Unix (Max (set bs)) 0))"

subsection \<open>Sums over groups\<close>

lemma agg_of_simps [simp]:
  "fa_Bucket (agg_of (k, s)) = time_Unix (tk_bucket k) 0" "fa_InIf (agg_of (k, s)) = tk_inIf k" "fa_OutIf (agg_of (k, s)) = tk_outIf k"
  "fa_Src (agg_of (k, s)) = FlowBlobIP (tk_src k)" "fa_Dst (agg_of (k, s)) = FlowBlobIP (tk_dst k)" "fa_Bytes (agg_of (k, s)) = fs_bytes s"
  by (simp_all add: agg_of_def)

lemma sum_list_map_groups:
  assumes "finite G" and "\<And>x. x \<in> set xs \<Longrightarrow> f x \<in> G"
  shows "sum_list (map v xs) = (\<Sum>g \<in> G. sum_list (map v (filter (\<lambda>x. f x = g) xs)) :: int)"
  using assms(2)
proof (induction xs)
  case (Cons x xs)
  have "(\<Sum>g \<in> G. sum_list (map v (filter (\<lambda>x. f x = g) (x # xs)))) = (\<Sum>g \<in> G. (if f x = g then v x else 0) + sum_list (map v (filter (\<lambda>x. f x = g) xs)))"
    by (rule sum.cong) auto
  also have "\<dots> = v x + (\<Sum>g \<in> G. sum_list (map v (filter (\<lambda>x. f x = g) xs)))"
    using Cons.prems [of x] assms(1) by (simp add: sum.distrib)
  finally show ?case using Cons by simp
qed simp

lemma sum_remdups_groups:
  "(\<Sum>g\<leftarrow>remdups (map f xs). if C g then sum_list (map v (filter (\<lambda>x. f x = g) xs)) else (0 :: int)) = (\<Sum>x\<leftarrow>xs. if C (f x) then v x else 0)"
proof -
  have "(\<Sum>x\<leftarrow>xs. if C (f x) then v x else 0) = (\<Sum>g \<in> f ` set xs. sum_list (map (\<lambda>x. if C (f x) then v x else 0) (filter (\<lambda>x. f x = g) xs)))"
    by (rule sum_list_map_groups) auto
  also have "\<dots> = (\<Sum>g \<in> f ` set xs. if C g then sum_list (map v (filter (\<lambda>x. f x = g) xs)) else 0)"
  proof (rule sum.cong [OF refl])
    fix g
    have "map (\<lambda>x. if C (f x) then v x else 0) (filter (\<lambda>x. f x = g) xs) = map (\<lambda>x. if C g then v x else 0) (filter (\<lambda>x. f x = g) xs)"
      by (rule map_cong) auto
    then show "sum_list (map (\<lambda>x. if C (f x) then v x else 0) (filter (\<lambda>x. f x = g) xs)) = (if C g then sum_list (map v (filter (\<lambda>x. f x = g) xs)) else 0)"
      by (simp only: if_distrib split: if_split) simp
  qed
  also have "\<dots> = (\<Sum>g\<leftarrow>remdups (map f xs). if C g then sum_list (map v (filter (\<lambda>x. f x = g) xs)) else 0)"
    by (simp add: sum_list_distinct_conv_sum_set)
  finally show ?thesis by simp
qed

lemma group_total:
  "(\<Sum>g\<leftarrow>group_keys key t. if C g then group_sum key sel t g else 0) = (\<Sum>r\<leftarrow>t. if C (key (fst r)) then sel (snd r) else 0)"
  unfolding group_keys_def group_sum_def by (rule sum_remdups_groups)

text \<open>What a column of a result sums to, over the rows of the table.\<close>

definition stored_sum :: "(flow_key \<Rightarrow> bool) \<Rightarrow> (flowSums \<Rightarrow> int) \<Rightarrow> flow_table \<Rightarrow> int" where
  "stored_sum C sel t = (\<Sum>r\<leftarrow>t. if C (fst r) then sel (snd r) else 0)"

lemma agg_query_sum:
  assumes "mset gs = mset (group_keys key t)" and "\<And>g. C (agg_of (g, smf g)) = D g" and "\<And>g. f (agg_of (g, smf g)) = group_sum key sel t g"
  shows "(\<Sum>a\<leftarrow>map (\<lambda>g. agg_of (g, smf g)) gs. if C a then f a else 0) = stored_sum (\<lambda>k. D (key k)) sel t"
proof -
  have "(\<Sum>a\<leftarrow>map (\<lambda>g. agg_of (g, smf g)) gs. if C a then f a else 0) = (\<Sum>g\<leftarrow>gs. if D g then group_sum key sel t g else 0)"
    by (simp add: assms(2,3) comp_def cong: if_cong)
  also have "\<dots> = (\<Sum>g\<leftarrow>group_keys key t. if D g then group_sum key sel t g else 0)"
    by (metis (no_types, lifting) assms(1) mset_map sum_mset_sum_list)
  finally show ?thesis by (simp add: group_total stored_sum_def)
qed

lemma stored_sum_filter: "stored_sum C sel (filter (\<lambda>r. P (fst r)) t) = stored_sum (\<lambda>k. P k \<and> C k) sel t"
  unfolding stored_sum_def by (induction t) auto

text \<open>The bytes of the selected rows whose key, moved to the start of its step, satisfies \<open>D\<close>.\<close>

definition window_sum :: "FlowTable \<Rightarrow> int \<Rightarrow> u32 list \<Rightarrow> time \<Rightarrow> time \<Rightarrow> duration \<Rightarrow> (flow_key \<Rightarrow> bool) \<Rightarrow> flow_db \<Rightarrow> int" where
  "window_sum t e ifs fr to step D db = (case flowAggSQL t e ifs fr to step of
     Inr (Some (grp, sel)) \<Rightarrow> stored_sum (\<lambda>k. sel k \<and> D (step_key grp k)) fs_bytes (flow_data t db) | _ \<Rightarrow> 0)"

lemma aggregate_sum:
  assumes "AggregateFlows t e ifs fr to step db = Inr as" and "\<And>k s. C (agg_of (k, s)) = D k"
  shows "(\<Sum>a\<leftarrow>as. if C a then fa_Bytes a else 0) = window_sum t e ifs fr to step D db"
proof (cases "flowAggSQL t e ifs fr to step")
  case (Inr q)
  show ?thesis
  proof (cases q)
    case (Some gs)
    obtain grp sel where q: "flowAggSQL t e ifs fr to step = Inr (Some (grp, sel))" using Inr Some by (cases gs) auto
    let ?t = "filter (\<lambda>r. sel (fst r)) (flow_data t db)"
    define smf where "smf g = \<lparr>fs_bytes = group_sum (step_key grp) fs_bytes ?t g, fs_packets = group_sum (step_key grp) fs_packets ?t g,
      fs_flows = group_sum (step_key grp) fs_flows ?t g\<rparr>" for g
    have "as = map agg_of (sort_cmp agg_order (map (\<lambda>g. (g, smf g)) (group_keys (step_key grp) ?t)))"
      using assms(1) q by (auto simp: AggregateFlows_def Let_def smf_def split: if_splits)
    then have "mset as = mset (map (\<lambda>g. agg_of (g, smf g)) (group_keys (step_key grp) ?t))" by (simp add: multiset.map_comp comp_def)
    then have "(\<Sum>a\<leftarrow>as. if C a then fa_Bytes a else 0) = (\<Sum>a\<leftarrow>map (\<lambda>g. agg_of (g, smf g)) (group_keys (step_key grp) ?t). if C a then fa_Bytes a else 0)"
      by (metis (no_types, lifting) mset_map sum_mset_sum_list)
    also have "\<dots> = stored_sum (\<lambda>k. D (step_key grp k)) fs_bytes ?t"
      by (rule agg_query_sum) (simp_all add: assms(2) smf_def)
    finally show ?thesis by (simp add: window_sum_def q stored_sum_filter)
  qed (use assms(1) Inr in \<open>simp add: AggregateFlows_def window_sum_def\<close>)
qed (use assms(1) in \<open>simp add: AggregateFlows_def window_sum_def\<close>)

lemma aggregate_bytes_sum:
  assumes "AggregateFlowBytes shuf t e ifs fr to step w db = Inr as" and "\<And>l. mset (shuf l) = mset l"
    and "\<And>k s. C (agg_of (k, s)) = E k" and "\<And>grp k. E (bytes_key grp w k) = D (step_key grp k)"
  shows "(\<Sum>a\<leftarrow>as. if C a then fa_Bytes a else 0) = window_sum t e ifs fr to step D db"
proof (cases "flowAggSQL t e ifs fr to step")
  case (Inr q)
  show ?thesis
  proof (cases q)
    case (Some gs)
    obtain grp sel where q: "flowAggSQL t e ifs fr to step = Inr (Some (grp, sel))" using Inr Some by (cases gs) auto
    let ?t = "filter (\<lambda>r. sel (fst r)) (flow_data t db)" and ?key = "bytes_key grp w"
    define smf where "smf g = \<lparr>fs_bytes = group_sum ?key fs_bytes ?t g, fs_packets = 0, fs_flows = 0\<rparr>" for g
    have "as = map (\<lambda>g. agg_of (g, smf g)) (sort_key tk_bucket (shuf (group_keys ?key ?t)))"
      using assms(1) q by (auto simp: AggregateFlowBytes_def Let_def smf_def split: if_splits)
    then have "(\<Sum>a\<leftarrow>as. if C a then fa_Bytes a else 0) = stored_sum (\<lambda>k. E (?key k)) fs_bytes ?t"
      by (simp only:) (rule agg_query_sum, simp_all add: assms(2,3) smf_def)
    then show ?thesis by (simp add: window_sum_def q stored_sum_filter assms(4))
  qed (use assms(1) Inr in \<open>simp add: AggregateFlowBytes_def window_sum_def\<close>)
qed (use assms(1) in \<open>simp add: AggregateFlowBytes_def window_sum_def\<close>)

end
