(* ===== verification/Flow_Retention.thy ===== *)
theory Flow_Retention
  imports Writer Flow_Query
begin

text \<open>
  Retention: the chunked deletes of the fact tables (\<open>database/queries/flows.go\<close>) and the sweep (\<open>flow/sweep.go\<close>) that the
  retention loop of the pollers runs. Every statement may fail; which ones do is an argument. A sweep reads the
  date \<open>n\<close> days ago from \<open>addDays\<close> (\<open>time.Time.AddDate\<close> in the zone of the clock).
\<close>

subsection \<open>Chunked deletes\<close>

definition flowDeleteChunk :: nat where "flowDeleteChunk = 5000"

text \<open>
  The distinct exporter ids of a table by a loose index scan: the least id, then repeatedly the least id above the
  last.
\<close>

definition least_above :: "int option \<Rightarrow> int list \<Rightarrow> int option" where
  "least_above x ids = (let l = filter (\<lambda>i. case x of None \<Rightarrow> True | Some y \<Rightarrow> y < i) ids in if l = [] then None else Some (Min (set l)))"

lemma least_aboveD: "least_above x ids = Some y \<Longrightarrow> y \<in> set ids \<and> (\<forall>z. x = Some z \<longrightarrow> z < y) \<and> (\<forall>i \<in> set ids. (\<forall>z. x = Some z \<longrightarrow> z < i) \<longrightarrow> y \<le> i)"
proof -
  assume s: "least_above x ids = Some y"
  define l where "l = filter (\<lambda>i. case x of None \<Rightarrow> True | Some y \<Rightarrow> y < i) ids"
  have "l \<noteq> []" "y = Min (set l)" using s by (auto simp: least_above_def Let_def l_def split: if_splits)
  then have "y \<in> set l" "\<forall>i \<in> set l. y \<le> i" by simp_all
  then show ?thesis by (auto simp: l_def split: option.splits)
qed

function scan_ids :: "int option \<Rightarrow> int list \<Rightarrow> int list" where
  "scan_ids x ids = (case least_above x ids of None \<Rightarrow> [] | Some y \<Rightarrow> y # scan_ids (Some y) ids)"
  by pat_completeness auto
termination
proof (relation "measure (\<lambda>(x, ids). card {i \<in> set ids. \<forall>z. x = Some z \<longrightarrow> z < i})")
  fix x ids y assume "least_above x ids = Some y"
  note D = least_aboveD [OF this]
  have "{i \<in> set ids. \<forall>z. Some y = Some z \<longrightarrow> z < i} \<subset> {i \<in> set ids. \<forall>z. x = Some z \<longrightarrow> z < i}" using D by force
  then show "((Some y, ids), (x, ids)) \<in> measure (\<lambda>(x, ids). card {i \<in> set ids. \<forall>z. x = Some z \<longrightarrow> z < i})" by (simp add: psubset_card_mono)
qed simp

declare scan_ids.simps [simp del]

definition flowTableExporterIDs :: "('k \<Rightarrow> int) \<Rightarrow> ('k \<times> 'v) list \<Rightarrow> int list" where
  "flowTableExporterIDs expf t = scan_ids None (map (expf \<circ> fst) t)"

text \<open>
  One exporter's rows whose primary key satisfies \<open>P\<close>, deleted in chunks of keys; the \<open>n\<close>-th statement of the call
  succeeds when \<open>ok n\<close>. The result is whether all went well, the number of rows removed and the table.
\<close>

definition chunk_of :: "('k \<Rightarrow> bool) \<Rightarrow> ('k \<times> 'v) list \<Rightarrow> 'k list" where
  "chunk_of P t = take flowDeleteChunk (filter P (map fst t))"

function delete_loop :: "(nat \<Rightarrow> bool) \<Rightarrow> nat \<Rightarrow> ('k \<Rightarrow> bool) \<Rightarrow> int \<Rightarrow> ('k \<times> 'v) list \<Rightarrow> bool \<times> int \<times> ('k \<times> 'v) list" where
  "delete_loop ok n P tot t =
    (if \<not> ok n then (False, tot, t)
     else let (gone, kept) = partition (\<lambda>r. fst r \<in> set (chunk_of P t)) t
          in if length gone < flowDeleteChunk then (True, tot + int (length gone), kept)
             else delete_loop ok (n + 1) P (tot + int (length gone)) kept)"
  by pat_completeness auto
termination
proof (relation "measure (\<lambda>(ok, n, P, tot, t). length t)")
  fix ok :: "nat \<Rightarrow> bool" and n and P :: "'k \<Rightarrow> bool" and tot :: int and t :: "('k \<times> 'v) list" and x gone kept
  assume x: "x = partition (\<lambda>r. fst r \<in> set (chunk_of P t)) t" "(gone, kept) = x" and g: "\<not> length gone < flowDeleteChunk"
  have "length gone + length kept = length t"
    using x sum_length_filter_compl [of "\<lambda>r. fst r \<in> set (chunk_of P t)" t] by (simp add: comp_def)
  then have "length kept < length t" using g by (simp add: flowDeleteChunk_def)
  then show "((ok, n + 1, P, tot + int (length gone), kept), (ok, n, P, tot, t)) \<in> measure (\<lambda>(ok, n, P, tot, t). length t)" by simp
qed simp

declare delete_loop.simps [simp del]

definition deleteFlowChunks :: "(nat \<Rightarrow> bool) \<Rightarrow> ('k \<Rightarrow> int) \<Rightarrow> int \<Rightarrow> ('k \<Rightarrow> bool) \<Rightarrow> ('k \<times> 'v) list \<Rightarrow> bool \<times> int \<times> ('k \<times> 'v) list" where
  "deleteFlowChunks ok expf i P t = delete_loop ok 0 (\<lambda>k. expf k = i \<and> P k) 0 t"

text \<open>The loop over the exporters of a table; it stops at the first failure. \<open>ok i n\<close> is about the \<open>n\<close>-th statement for exporter \<open>i\<close>.\<close>

fun delete_ids :: "(int \<Rightarrow> nat \<Rightarrow> bool) \<Rightarrow> ('k \<Rightarrow> int) \<Rightarrow> ('k \<Rightarrow> bool) \<Rightarrow> int list \<Rightarrow> int \<times> ('k \<times> 'v) list \<Rightarrow> bool \<times> int \<times> ('k \<times> 'v) list" where
  "delete_ids ok expf P [] st = (True, st)"
| "delete_ids ok expf P (i # is) st =
    (let (good, k, t) = deleteFlowChunks (ok i) expf i P (snd st)
     in if good then delete_ids ok expf P is (fst st + k, t) else (False, fst st + k, t))"

record delete_ok =
  do_ids :: bool
  do_exec :: "int \<Rightarrow> nat \<Rightarrow> bool"

definition delete_table :: "delete_ok \<Rightarrow> ('k \<Rightarrow> int) \<Rightarrow> (int \<Rightarrow> bool) \<Rightarrow> ('k \<Rightarrow> bool) \<Rightarrow> int \<times> ('k \<times> 'v) list \<Rightarrow> bool \<times> int \<times> ('k \<times> 'v) list" where
  "delete_table ok expf want P st = (if \<not> do_ids ok then (False, st) else delete_ids (do_exec ok) expf P (filter want (flowTableExporterIDs expf (snd st))) st)"

definition delete_old :: "delete_ok \<Rightarrow> delete_ok \<Rightarrow> int \<Rightarrow> flow_table \<times> meta_table \<Rightarrow> bool \<times> int \<times> flow_table \<times> meta_table" where
  "delete_old okd okm cutoff tm =
    (let (g, k, t) = delete_table okd tk_exporter (\<lambda>_. True) (\<lambda>k. tk_bucket k < cutoff) (0, fst tm)
     in if \<not> g then (False, k, t, snd tm)
        else let (g, k, m) = delete_table okm fst (\<lambda>_. True) (\<lambda>k. snd k < cutoff) (k, snd tm) in (g, k, t, m))"

definition DeleteOldFlows :: "delete_ok \<Rightarrow> delete_ok \<Rightarrow> FlowTable \<Rightarrow> time \<Rightarrow> flow_db \<Rightarrow> bool \<times> int \<times> flow_db" where
  "DeleteOldFlows okd okm tb cutoff db = (case tb of
     Flows1m \<Rightarrow> (let (g, k, t, m) = delete_old okd okm (unix cutoff) (fd_1m db, fd_1m_meta db) in (g, k, db\<lparr>fd_1m := t, fd_1m_meta := m\<rparr>))
   | Flows1h \<Rightarrow> (let (g, k, t, m) = delete_old okd okm (unix cutoff) (fd_1h db, fd_1h_meta db) in (g, k, db\<lparr>fd_1h := t, fd_1h_meta := m\<rparr>)))"

text \<open>
  The listing of the exporters: it fails, it is complete, or it ends early after the ids \<open>ids\<close>, which the code does not
  notice (it closes the listing without asking for its error).
\<close>

datatype list_outcome = ListFails | ListDone | ListCut "int list"

definition live_ids :: "list_outcome \<Rightarrow> flow_db \<Rightarrow> int list" where
  "live_ids lo db = (case lo of ListCut ids \<Rightarrow> filter (\<lambda>i. i \<in> set ids) (map fst (fd_exporters db)) | _ \<Rightarrow> map fst (fd_exporters db))"

text \<open>The four tables in the order of the code, each only when the one before went well.\<close>

definition DeleteOrphanFlows :: "list_outcome \<Rightarrow> (nat \<Rightarrow> delete_ok) \<Rightarrow> flow_db \<Rightarrow> bool \<times> int \<times> flow_db" where
  "DeleteOrphanFlows lo ok db =
    (let live = live_ids lo db; dead = (\<lambda>i. i \<notin> set live)
     in if lo = ListFails then (False, 0, db)
        else let (g, k, t) = delete_table (ok 0) tk_exporter dead (\<lambda>_. True) (0, fd_1m db); db = db\<lparr>fd_1m := t\<rparr>
        in if \<not> g then (False, k, db)
        else let (g, k, m) = delete_table (ok 1) fst dead (\<lambda>_. True) (k, fd_1m_meta db); db = db\<lparr>fd_1m_meta := m\<rparr>
        in if \<not> g then (False, k, db)
        else let (g, k, t) = delete_table (ok 2) tk_exporter dead (\<lambda>_. True) (k, fd_1h db); db = db\<lparr>fd_1h := t\<rparr>
        in if \<not> g then (False, k, db)
        else let (g, k, m) = delete_table (ok 3) fst dead (\<lambda>_. True) (k, fd_1h_meta db) in (g, k, db\<lparr>fd_1h_meta := m\<rparr>))"

subsection \<open>The sweep\<close>

definition templateRetention :: duration where "templateRetention = hours (7 * 24)"
definition learnedIfaceRetention :: duration where "learnedIfaceRetention = hours (30 * 24)"
definition stalePointRetention :: duration where "stalePointRetention = hours (7 * 24)"

record sweep_ok =
  so_1m :: delete_ok
  so_1mMeta :: delete_ok
  so_1h :: delete_ok
  so_1hMeta :: delete_ok
  so_live :: list_outcome
  so_orphans :: "nat \<Rightarrow> delete_ok"
  so_templates :: bool
  so_pointLists :: bool
  so_points :: "int \<Rightarrow> bool"
  so_ifaces :: bool

text \<open>Every step logs its outcome and the next one runs whatever it was.\<close>

definition Sweep :: "sweep_ok \<Rightarrow> (time \<Rightarrow> int \<Rightarrow> time) \<Rightarrow> settings \<Rightarrow> time \<Rightarrow> flow_db \<Rightarrow> flow_db" where
  "Sweep ok addDays get now db =
    (let db = snd (snd (DeleteOldFlows (so_1m ok) (so_1mMeta ok) Flows1m (addDays now (- Retention1mDays get)) db));
         db = snd (snd (DeleteOldFlows (so_1h ok) (so_1hMeta ok) Flows1h (addDays now (- Retention1hDays get)) db));
         db = snd (snd (DeleteOrphanFlows (so_live ok) (so_orphans ok) db));
         db = (if so_templates ok then fst (DeleteOldFlowTemplates (now - templateRetention) db) else db);
         db = (if so_pointLists ok then snd (snd (DeleteStaleAutoFlowPoints (so_points ok) (now - stalePointRetention) db)) else db)
     in if so_ifaces ok then fst (DeleteOldLearnedFlowIfaces (now - learnedIfaceRetention) db) else db)"

subsection \<open>What a delete leaves\<close>

text \<open>A delete of the keys in \<open>P\<close> that may have stopped early: \<open>g\<close> tells whether it ran to the end.\<close>

definition pruned :: "bool \<Rightarrow> ('k \<Rightarrow> bool) \<Rightarrow> ('k \<times> 'v) list \<Rightarrow> ('k \<times> 'v) list \<Rightarrow> bool" where
  "pruned g P t t' \<longleftrightarrow> (\<exists>Q. t' = filter Q t \<and> (\<forall>r \<in> set t. P (fst r) \<or> Q r) \<and> (g \<longrightarrow> (\<forall>r \<in> set t'. \<not> P (fst r))))"

lemma pruned_refl: "pruned False P t t" "(\<And>r. r \<in> set t \<Longrightarrow> \<not> P (fst r)) \<Longrightarrow> pruned g P t t"
  unfolding pruned_def by (rule exI [of _ "\<lambda>_. True"], simp)+

lemma filter_set_mem: "x \<in> set (filter Q t) \<longleftrightarrow> x \<in> set t \<and> Q x"
  by auto

lemma length_filter_filter: "length (filter R (filter P l)) \<le> length (filter R l)"
  by (induction l) auto

lemma pruned_True: "pruned True P t t' \<longleftrightarrow> t' = filter (\<lambda>r. \<not> P (fst r)) t"
proof
  assume "pruned True P t t'"
  then obtain Q where "t' = filter Q t" "\<forall>r \<in> set t. P (fst r) \<or> Q r" "\<forall>r \<in> set t'. \<not> P (fst r)" by (auto simp: pruned_def)
  then have "Q r \<longleftrightarrow> \<not> P (fst r)" if "r \<in> set t" for r using that by (metis (mono_tags, lifting) filter_set_mem)
  then show "t' = filter (\<lambda>r. \<not> P (fst r)) t" using \<open>t' = filter Q t\<close> by (simp cong: filter_cong)
qed (auto simp: pruned_def intro!: exI [of _ "\<lambda>r. \<not> P (fst r)"])

lemma pruned_trans:
  assumes "pruned h P t t'" and "pruned g P' t' t''" and "\<And>k. P k \<or> P' k \<Longrightarrow> R k"
    and "g \<Longrightarrow> (\<And>r. r \<in> set t \<Longrightarrow> R (fst r) \<Longrightarrow> P' (fst r) \<or> h \<and> P (fst r))"
  shows "pruned g R t t''"
proof -
  obtain Q where Q: "t' = filter Q t" "\<forall>r \<in> set t. P (fst r) \<or> Q r" "h \<longrightarrow> (\<forall>r \<in> set t'. \<not> P (fst r))" using assms(1) by (auto simp: pruned_def)
  obtain Q' where Q': "t'' = filter Q' t'" "\<forall>r \<in> set t'. P' (fst r) \<or> Q' r" "g \<longrightarrow> (\<forall>r \<in> set t''. \<not> P' (fst r))"
    using assms(2) by (auto simp: pruned_def)
  have "t'' = filter (\<lambda>r. Q r \<and> Q' r) t" by (simp add: Q(1) Q'(1) conj_commute)
  moreover have "R (fst r) \<or> (Q r \<and> Q' r)" if "r \<in> set t" for r
  proof -
    have "P (fst r) \<or> Q r" "Q r \<Longrightarrow> r \<in> set t'" using Q(1,2) that by simp_all
    then show ?thesis using assms(3) Q'(2) by blast
  qed
  moreover have "\<not> R (fst r)" if "g" "r \<in> set t''" for r
  proof -
    have "r \<in> set t" "r \<in> set t'" using Q(1) Q'(1) that(2) by simp_all
    then show ?thesis using Q(3) Q'(3) assms(4) that by blast
  qed
  ultimately show ?thesis unfolding pruned_def by blast
qed

lemma pruned_keeps:
  assumes "pruned g P t t'" and "\<And>r. r \<in> set t \<Longrightarrow> S r \<Longrightarrow> \<not> P (fst r)"
  shows "filter S t' = filter S t"
proof -
  obtain Q where "t' = filter Q t" "\<forall>r \<in> set t. P (fst r) \<or> Q r" using assms(1) by (auto simp: pruned_def)
  then show ?thesis using assms(2) by (auto intro!: filter_cong)
qed

lemma pruned_filter: "pruned g P t t' \<Longrightarrow> \<exists>Q. t' = filter Q t"
  by (auto simp: pruned_def)

lemma pruned_False: "pruned g P t t' \<Longrightarrow> pruned False P t t'"
  by (auto simp: pruned_def)

lemma pruned_length: "pruned g P t t' \<Longrightarrow> length t' \<le> length t"
  by (auto simp: pruned_def)

lemma chunk_complete:
  assumes "length (filter (\<lambda>r. fst r \<in> set (chunk_of P t)) t) < flowDeleteChunk"
  shows "chunk_of P t = filter P (map fst t)"
proof (rule ccontr)
  let ?L = "filter P (map fst t)"
  assume "chunk_of P t \<noteq> ?L"
  then have "flowDeleteChunk < length ?L" by (metis chunk_of_def not_le take_all)
  then have l: "length (chunk_of P t) = flowDeleteChunk" by (simp add: chunk_of_def)
  have "length (filter (\<lambda>k. k \<in> set (chunk_of P t)) (take flowDeleteChunk ?L)) \<le> length (filter (\<lambda>k. k \<in> set (chunk_of P t)) ?L)"
    by (metis append_take_drop_id filter_append le_add1 length_append)
  moreover have "filter (\<lambda>k. k \<in> set (chunk_of P t)) (take flowDeleteChunk ?L) = chunk_of P t" by (simp add: chunk_of_def)
  moreover have "length (filter (\<lambda>k. k \<in> set (chunk_of P t)) ?L) \<le> length (filter (\<lambda>k. k \<in> set (chunk_of P t)) (map fst t))"
    by (rule length_filter_filter)
  ultimately show False using assms l by (simp add: filter_map comp_def)
qed

lemma chunk_sub: "k \<in> set (chunk_of P t) \<Longrightarrow> P k"
  unfolding chunk_of_def using set_take_subset by fastforce

lemma delete_loop_pruned:
  "delete_loop ok n P tot t = (g, k, t') \<Longrightarrow> pruned g P t t' \<and> k = tot + int (length t) - int (length t') \<and> ((\<forall>j. ok j) \<longrightarrow> g)"
proof (induction ok n P tot t rule: delete_loop.induct)
  case (1 ok n P tot t)
  let ?V = "\<lambda>r. fst r \<in> set (chunk_of P t)"
  let ?kept = "filter (\<lambda>r. \<not> ?V r) t"
  have len: "length (filter ?V t) + length ?kept = length t" by (rule sum_length_filter_compl)
  have "\<forall>r \<in> set t. P (fst r) \<or> \<not> ?V r" using chunk_sub [of _ P t] by blast
  then have kept: "pruned False P t ?kept" unfolding pruned_def by (intro exI [of _ "\<lambda>r. \<not> ?V r"]) simp
  show ?case
  proof (cases "ok n")
    case False
    then show ?thesis using 1(2) pruned_refl(1) [of P t] by (subst (asm) delete_loop.simps) auto
  next
    case ok: True
    show ?thesis
    proof (cases "length (filter ?V t) < flowDeleteChunk")
      case True
      have "\<not> P (fst r)" if "r \<in> set ?kept" for r using that chunk_complete [OF True] by auto
      then have "pruned True P t ?kept" using kept by (auto simp: pruned_def)
      then show ?thesis using 1(2) ok True len by (subst (asm) delete_loop.simps) (auto simp: comp_def)
    next
      case False
      then have d: "delete_loop ok (n + 1) P (tot + int (length (filter ?V t))) ?kept = (g, k, t')"
        using 1(2) ok by (subst (asm) delete_loop.simps) (auto simp: comp_def)
      note IH = 1(1) [OF _ refl _ _ d]
      have "pruned g P ?kept t' \<and> k = tot + int (length (filter ?V t)) + int (length ?kept) - int (length t') \<and> ((\<forall>j. ok j) \<longrightarrow> g)"
        by (rule IH) (use ok False in \<open>auto simp: comp_def\<close>)
      then show ?thesis using pruned_trans [OF kept, of g P t' P] len by auto
    qed
  qed
qed

lemma scan_ids_spec: "set (scan_ids x ids) = {i \<in> set ids. \<forall>z. x = Some z \<longrightarrow> z < i} \<and> sorted_wrt (<) (scan_ids x ids)"
proof (induction x ids rule: scan_ids.induct)
  case (1 x ids)
  show ?case
  proof (cases "least_above x ids")
    case None
    then have "filter (\<lambda>i. case x of None \<Rightarrow> True | Some y \<Rightarrow> y < i) ids = []" by (simp add: least_above_def Let_def split: if_splits)
    then have "{i \<in> set ids. \<forall>z. x = Some z \<longrightarrow> z < i} = {}" by (auto simp: filter_empty_conv split: option.splits)
    then show ?thesis using None by (subst (1 2) scan_ids.simps) simp
  next
    case (Some y)
    note D = least_aboveD [OF Some] and IH = 1 [OF Some]
    have "{i \<in> set ids. \<forall>z. x = Some z \<longrightarrow> z < i} = insert y {i \<in> set ids. \<forall>z. Some y = Some z \<longrightarrow> z < i}"
      using D by (fastforce simp: le_less)
    then show ?thesis using IH Some by (subst (1 2) scan_ids.simps) simp
  qed
qed

lemma exporter_ids_spec: "set (flowTableExporterIDs expf t) = (expf \<circ> fst) ` set t" "sorted_wrt (<) (flowTableExporterIDs expf t)"
  using scan_ids_spec [of None "map (expf \<circ> fst) t"] by (auto simp: flowTableExporterIDs_def)

lemma delete_ids_pruned:
  "delete_ids ok expf P is st = (g, k, t') \<Longrightarrow> pruned g (\<lambda>k. expf k \<in> set is \<and> P k) (snd st) t'
    \<and> k = fst st + int (length (snd st)) - int (length t') \<and> ((\<forall>i j. ok i j) \<longrightarrow> g)"
proof (induction "is" arbitrary: st)
  case Nil
  then show ?case by (auto intro: pruned_refl)
next
  case (Cons i "is")
  obtain h c u where d: "deleteFlowChunks (ok i) expf i P (snd st) = (h, c, u)" by (cases "deleteFlowChunks (ok i) expf i P (snd st)")
  have p: "pruned h (\<lambda>k. expf k = i \<and> P k) (snd st) u" "c = int (length (snd st)) - int (length u)" "(\<forall>j. ok i j) \<longrightarrow> h"
    using delete_loop_pruned d [unfolded deleteFlowChunks_def] by fastforce+
  show ?case
  proof (cases h)
    case True
    then have "delete_ids ok expf P is (fst st + c, u) = (g, k, t')" using Cons.prems d by simp
    note q = Cons.IH [OF this, simplified]
    have "pruned g (\<lambda>k. expf k \<in> set (i # is) \<and> P k) (snd st) t'"
      by (rule pruned_trans [OF p(1)]) (use q True in auto)
    then show ?thesis using q p(2) by auto
  next
    case False
    then have "(g, k, t') = (False, fst st + c, u)" using Cons.prems d by simp
    moreover have "pruned False (\<lambda>k. expf k \<in> set (i # is) \<and> P k) (snd st) u"
      by (rule pruned_trans [OF p(1) pruned_refl(1) [of "\<lambda>_. False"]]) auto
    ultimately show ?thesis using p(2,3) False by auto
  qed
qed

definition del_ok :: "delete_ok \<Rightarrow> bool" where
  "del_ok ok \<longleftrightarrow> do_ids ok \<and> (\<forall>i n. do_exec ok i n)"

lemma delete_table_pruned:
  assumes "delete_table ok expf want P st = (g, k, t')"
  shows "pruned g (\<lambda>k. want (expf k) \<and> P k) (snd st) t' \<and> k = fst st + int (length (snd st)) - int (length t') \<and> (del_ok ok \<longrightarrow> g)"
proof (cases "do_ids ok")
  case True
  let ?is = "filter want (flowTableExporterIDs expf (snd st))"
  note d = delete_ids_pruned [OF assms [unfolded delete_table_def if_not_P [OF not_not [THEN iffD2, OF True]]]]
  have "pruned g (\<lambda>k. want (expf k) \<and> P k) (snd st) t'"
    by (rule pruned_trans [OF pruned_refl(1) [of "\<lambda>_. False"] d [THEN conjunct1]]) (auto simp: exporter_ids_spec)
  then show ?thesis using d by (auto simp: del_ok_def)
next
  case False
  then show ?thesis using assms pruned_refl(1) [of "\<lambda>k. want (expf k) \<and> P k" "snd st"] by (auto simp: delete_table_def del_ok_def)
qed

lemma delete_old_pruned:
  assumes "delete_old okd okm c tm = (g, k, t', m')"
  shows "pruned (del_ok okd) (\<lambda>k. tk_bucket k < c) (fst tm) t' \<and> pruned (del_ok okd \<and> del_ok okm) (\<lambda>k. snd k < c) (snd tm) m'
    \<and> k = int (length (fst tm)) + int (length (snd tm)) - int (length t') - int (length m') \<and> (del_ok okd \<and> del_ok okm \<longrightarrow> g)"
proof -
  obtain h j t where d: "delete_table okd tk_exporter (\<lambda>_. True) (\<lambda>k. tk_bucket k < c) (0, fst tm) = (h, j, t)"
    by (metis prod.exhaust)
  obtain h' j' m where e: "delete_table okm fst (\<lambda>_. True) (\<lambda>k. snd k < c) (j, snd tm) = (h', j', m)" by (metis prod.exhaust)
  note D = delete_table_pruned [OF d, simplified] and E = delete_table_pruned [OF e, simplified]
  have t: "pruned (del_ok okd) (\<lambda>k. tk_bucket k < c) (fst tm) t" using D pruned_False by (cases "del_ok okd") auto
  have m: "pruned (del_ok okm) (\<lambda>k. snd k < c) (snd tm) m" using E pruned_False by (cases "del_ok okm") auto
  show ?thesis
  proof (cases h)
    case True
    then have "g = h'" "k = j'" "t' = t" "m' = m" using assms d e by (simp_all add: delete_old_def)
    then show ?thesis using t m D E pruned_False by (cases "del_ok okd") auto
  next
    case False
    then have "g = False" "k = j" "t' = t" "m' = snd tm" using assms d by (simp_all add: delete_old_def)
    then show ?thesis using t D False pruned_refl(1) [of "\<lambda>k. snd k < c" "snd tm"] by auto
  qed
qed

text \<open>The statements of the deletion of orphans succeed; what it takes for an orphan.\<close>

definition orphans_done :: "list_outcome \<Rightarrow> (nat \<Rightarrow> delete_ok) \<Rightarrow> bool" where
  "orphans_done lo ok \<longleftrightarrow> lo \<noteq> ListFails \<and> del_ok (ok 0) \<and> del_ok (ok 1) \<and> del_ok (ok 2) \<and> del_ok (ok 3)"

definition orphan :: "list_outcome \<Rightarrow> flow_db \<Rightarrow> int \<Rightarrow> bool" where
  "orphan lo db i = (case lo of
     ListFails \<Rightarrow> False
   | ListDone \<Rightarrow> \<not> gm_has (fd_exporters db) i
   | ListCut ids \<Rightarrow> \<not> gm_has (fd_exporters db) i \<or> i \<notin> set ids)"

lemma orphan_iff: "lo \<noteq> ListFails \<Longrightarrow> orphan lo db = (\<lambda>i. i \<notin> set (live_ids lo db))"
  by (cases lo) (auto simp: orphan_def live_ids_def gm_has_iff fun_eq_iff)

lemma orphan_cong: "fd_exporters db' = fd_exporters db \<Longrightarrow> orphan lo db' = orphan lo db"
  by (cases lo) (simp_all add: orphan_def fun_eq_iff)

lemma pruned_weaken: "pruned g P t t' \<Longrightarrow> (h \<Longrightarrow> g) \<Longrightarrow> pruned h P t t'"
  by (auto simp: pruned_def)

lemma orphans_pruned:
  fixes db :: flow_db and lo :: list_outcome and dead :: "int \<Rightarrow> bool"
  defines "dead \<equiv> orphan lo db"
  shows "\<exists>g k t m u n. DeleteOrphanFlows lo ok db = (g, k, db\<lparr>fd_1m := t, fd_1m_meta := m, fd_1h := u, fd_1h_meta := n\<rparr>)
    \<and> pruned (orphans_done lo ok) (\<lambda>k. dead (tk_exporter k)) (fd_1m db) t \<and> pruned (orphans_done lo ok) (\<lambda>k. dead (fst k)) (fd_1m_meta db) m
    \<and> pruned (orphans_done lo ok) (\<lambda>k. dead (tk_exporter k)) (fd_1h db) u \<and> pruned (orphans_done lo ok) (\<lambda>k. dead (fst k)) (fd_1h_meta db) n"
proof (cases "lo = ListFails")
  case True
  then have "DeleteOrphanFlows lo ok db = (False, 0, db\<lparr>fd_1m := fd_1m db, fd_1m_meta := fd_1m_meta db, fd_1h := fd_1h db, fd_1h_meta := fd_1h_meta db\<rparr>)"
    by (simp add: DeleteOrphanFlows_def)
  moreover have "orphans_done lo ok = False" using True by (simp add: orphans_done_def)
  ultimately show ?thesis by (intro exI conjI) (assumption, simp_all add: pruned_refl(1))
next
  case False
  obtain g0 k0 t where d0: "delete_table (ok 0) tk_exporter dead (\<lambda>_. True) (0, fd_1m db) = (g0, k0, t)" by (metis prod.exhaust)
  obtain g1 k1 m where d1: "delete_table (ok 1) fst dead (\<lambda>_. True) (k0, fd_1m_meta db) = (g1, k1, m)" by (metis prod.exhaust)
  obtain g2 k2 u where d2: "delete_table (ok 2) tk_exporter dead (\<lambda>_. True) (k1, fd_1h db) = (g2, k2, u)" by (metis prod.exhaust)
  obtain g3 k3 n where d3: "delete_table (ok 3) fst dead (\<lambda>_. True) (k2, fd_1h_meta db) = (g3, k3, n)" by (metis prod.exhaust)
  note D = d0 [THEN delete_table_pruned, simplified] d1 [THEN delete_table_pruned, simplified]
    d2 [THEN delete_table_pruned, simplified] d3 [THEN delete_table_pruned, simplified]
  have P: "pruned (orphans_done lo ok) (\<lambda>k. dead (tk_exporter k)) (fd_1m db) t" "pruned (orphans_done lo ok) (\<lambda>k. dead (fst k)) (fd_1m_meta db) m"
    "pruned (orphans_done lo ok) (\<lambda>k. dead (tk_exporter k)) (fd_1h db) u" "pruned (orphans_done lo ok) (\<lambda>k. dead (fst k)) (fd_1h_meta db) n"
    using D by (auto intro: pruned_weaken simp: orphans_done_def)
  define m' u' n' where "m' = (if g0 then m else fd_1m_meta db)"
    and "u' = (if g0 \<and> g1 then u else fd_1h db)" and "n' = (if g0 \<and> g1 \<and> g2 then n else fd_1h_meta db)"
  note defs = m'_def u'_def n'_def
  have g: "orphans_done lo ok \<Longrightarrow> g0 \<and> g1 \<and> g2 \<and> g3" using D by (auto simp: orphans_done_def)
  obtain g k where E: "DeleteOrphanFlows lo ok db = (g, k, db\<lparr>fd_1m := t, fd_1m_meta := m', fd_1h := u', fd_1h_meta := n'\<rparr>)"
    using d0 d1 d2 d3 False unfolding DeleteOrphanFlows_def Let_def orphan_iff [OF False, of db, symmetric] dead_def [symmetric] defs
    by (cases g0; cases g1; cases g2) auto
  have "pruned (orphans_done lo ok) (\<lambda>k. dead (fst k)) (fd_1m_meta db) m'"
    "pruned (orphans_done lo ok) (\<lambda>k. dead (tk_exporter k)) (fd_1h db) u'" "pruned (orphans_done lo ok) (\<lambda>k. dead (fst k)) (fd_1h_meta db) n'"
    unfolding defs using P g by (cases "orphans_done lo ok"; simp add: pruned_refl(1))+
  then show ?thesis using P(1) E by (intro exI conjI)
qed

text \<open>All statements on the fact tables succeed.\<close>

definition sweep_done :: "sweep_ok \<Rightarrow> bool" where
  "sweep_done ok \<longleftrightarrow> del_ok (so_1m ok) \<and> del_ok (so_1mMeta ok) \<and> del_ok (so_1h ok) \<and> del_ok (so_1hMeta ok) \<and> orphans_done (so_live ok) (so_orphans ok)"

definition swept_facts :: "sweep_ok \<Rightarrow> int \<Rightarrow> int \<Rightarrow> flow_db \<Rightarrow> flow_db \<Rightarrow> bool" where
  "swept_facts ok c1m c1h db db' \<longleftrightarrow>
     (let dead = orphan (so_live ok) db
      in pruned (sweep_done ok) (\<lambda>k. tk_bucket k < c1m \<or> dead (tk_exporter k)) (fd_1m db) (fd_1m db')
       \<and> pruned (sweep_done ok) (\<lambda>k. snd k < c1m \<or> dead (fst k)) (fd_1m_meta db) (fd_1m_meta db')
       \<and> pruned (sweep_done ok) (\<lambda>k. tk_bucket k < c1h \<or> dead (tk_exporter k)) (fd_1h db) (fd_1h db')
       \<and> pruned (sweep_done ok) (\<lambda>k. snd k < c1h \<or> dead (fst k)) (fd_1h_meta db) (fd_1h_meta db'))"

lemma pruned_seq: "pruned h P t t' \<Longrightarrow> pruned g P' t' t'' \<Longrightarrow> (a \<Longrightarrow> g \<and> h) \<Longrightarrow> pruned a (\<lambda>k. P k \<or> P' k) t t''"
  by (rule pruned_trans [OF _ pruned_weaken [of g P' t' t'' a]]) auto

definition sweep_facts :: "sweep_ok \<Rightarrow> int \<Rightarrow> int \<Rightarrow> flow_db \<Rightarrow> flow_db" where
  "sweep_facts ok c1m c1h db =
    (let (_, _, t, m) = delete_old (so_1m ok) (so_1mMeta ok) c1m (fd_1m db, fd_1m_meta db);
         (_, _, u, n) = delete_old (so_1h ok) (so_1hMeta ok) c1h (fd_1h db, fd_1h_meta db)
     in snd (snd (DeleteOrphanFlows (so_live ok) (so_orphans ok) (db\<lparr>fd_1m := t, fd_1m_meta := m, fd_1h := u, fd_1h_meta := n\<rparr>))))"

lemma sweep_facts_spec: "\<exists>t m u n. sweep_facts ok c1m c1h db = db\<lparr>fd_1m := t, fd_1m_meta := m, fd_1h := u, fd_1h_meta := n\<rparr>
  \<and> swept_facts ok c1m c1h db (sweep_facts ok c1m c1h db)"
proof -
  obtain g k t m where d: "delete_old (so_1m ok) (so_1mMeta ok) c1m (fd_1m db, fd_1m_meta db) = (g, k, t, m)" by (metis prod.exhaust)
  obtain g' k' u n where e: "delete_old (so_1h ok) (so_1hMeta ok) c1h (fd_1h db, fd_1h_meta db) = (g', k', u, n)" by (metis prod.exhaust)
  note D = delete_old_pruned [OF d, simplified] delete_old_pruned [OF e, simplified]
  define x where "x = db\<lparr>fd_1m := t, fd_1m_meta := m, fd_1h := u, fd_1h_meta := n\<rparr>"
  obtain t' m' u' n' where o: "snd (snd (DeleteOrphanFlows (so_live ok) (so_orphans ok) x)) = x\<lparr>fd_1m := t', fd_1m_meta := m', fd_1h := u', fd_1h_meta := n'\<rparr>"
    and O: "pruned (orphans_done (so_live ok) (so_orphans ok)) (\<lambda>k. orphan (so_live ok) x (tk_exporter k)) (fd_1m x) t'"
      "pruned (orphans_done (so_live ok) (so_orphans ok)) (\<lambda>k. orphan (so_live ok) x (fst k)) (fd_1m_meta x) m'"
      "pruned (orphans_done (so_live ok) (so_orphans ok)) (\<lambda>k. orphan (so_live ok) x (tk_exporter k)) (fd_1h x) u'"
      "pruned (orphans_done (so_live ok) (so_orphans ok)) (\<lambda>k. orphan (so_live ok) x (fst k)) (fd_1h_meta x) n'"
    using orphans_pruned [of "so_live ok" "so_orphans ok" x] by auto
  have x: "orphan (so_live ok) x = orphan (so_live ok) db" "fd_1m x = t" "fd_1m_meta x = m" "fd_1h x = u" "fd_1h_meta x = n"
    using orphan_cong [of x db] by (simp_all add: x_def)
  have s: "sweep_facts ok c1m c1h db = db\<lparr>fd_1m := t', fd_1m_meta := m', fd_1h := u', fd_1h_meta := n'\<rparr>"
    using d e o by (simp add: sweep_facts_def x_def)
  have "swept_facts ok c1m c1h db (sweep_facts ok c1m c1h db)"
    unfolding s swept_facts_def Let_def using D O [unfolded x] by (auto intro!: pruned_seq simp: sweep_done_def)
  then show ?thesis using s by blast
qed

lemma Sweep_eq: "Sweep ok addDays get now db =
  (let db = sweep_facts ok (unix (addDays now (- Retention1mDays get))) (unix (addDays now (- Retention1hDays get))) db;
       db = (if so_templates ok then fst (DeleteOldFlowTemplates (now - templateRetention) db) else db);
       db = (if so_pointLists ok then snd (snd (DeleteStaleAutoFlowPoints (so_points ok) (now - stalePointRetention) db)) else db)
   in if so_ifaces ok then fst (DeleteOldLearnedFlowIfaces (now - learnedIfaceRetention) db) else db)"
  unfolding Sweep_def DeleteOldFlows_def sweep_facts_def by (simp add: Let_def split_beta)

lemma delete_points_frame: "\<exists>ps'. snd (snd (delete_points ok ps db)) = db\<lparr>fd_points := ps'\<rparr> \<and> set ps' \<subseteq> set (fd_points db)
  \<and> (\<forall>x. x \<in> set (fd_points db) \<longrightarrow> x \<in> set ps' \<or> fst x \<in> fp_ID ` set ps)"
proof (induction ps arbitrary: db)
  case Nil
  show ?case by (intro exI [of _ "fd_points db"]) simp
next
  case (Cons p ps)
  define db1 where "db1 = (if case gm_get (fd_points db) (fp_ID p) of Some r \<Rightarrow> fp_Auto r \<and> fp_Kind r = ''native'' | None \<Rightarrow> False
    then db\<lparr>fd_points := gm_del (fp_ID p) (fd_points db)\<rparr> else db)"
  have d: "\<exists>q. db1 = db\<lparr>fd_points := q\<rparr>" unfolding db1_def by (cases db) auto
  have s: "set (fd_points db1) \<subseteq> set (fd_points db)" using set_gm_del [of "fp_ID p" "fd_points db"] by (auto simp: db1_def)
  have k: "x \<in> set (fd_points db1) \<or> fst x = fp_ID p" if "x \<in> set (fd_points db)" for x
    using that by (auto simp: db1_def gm_del_def AList.delete_eq)
  show ?case
  proof (cases "ok (fp_ID p)")
    case False
    then show ?thesis by (intro exI [of _ "fd_points db"]) simp
  next
    case True
    then have e: "snd (snd (delete_points ok (p # ps) db)) = snd (snd (delete_points ok ps db1))" by (simp add: db1_def Let_def split_beta)
    obtain ps' where ps': "snd (snd (delete_points ok ps db1)) = db1\<lparr>fd_points := ps'\<rparr>" "set ps' \<subseteq> set (fd_points db1)"
      "\<And>x. x \<in> set (fd_points db1) \<Longrightarrow> x \<in> set ps' \<or> fst x \<in> fp_ID ` set ps" using Cons.IH [of db1] by blast
    show ?thesis unfolding e using ps' s k d by (intro exI [of _ ps']) fastforce
  qed
qed

lemma stale_frame:
  assumes "keyed fp_ID (fd_points db)"
  shows "\<exists>ps'. snd (snd (DeleteStaleAutoFlowPoints ok cutoff db)) = db\<lparr>fd_points := ps'\<rparr> \<and> set ps' \<subseteq> set (fd_points db)
    \<and> (\<forall>x. x \<in> set (fd_points db) \<longrightarrow> x \<in> set ps' \<or> stale_point cutoff db (snd x))"
proof -
  let ?ps = "filter (stale_point cutoff db) (ListFlowPoints db)"
  have "stale_point cutoff db (snd x)" if x: "x \<in> set (fd_points db)" and i: "fst x \<in> fp_ID ` set ?ps" for x
  proof -
    obtain p where p: "stale_point cutoff db p" "p \<in> snd ` set (fd_points db)" "fp_ID p = fst x" using i by (fastforce simp: ListFlowPoints_def)
    then obtain j where j: "(j, p) \<in> set (fd_points db)" by auto
    then have "j = fst x" using assms p(3) by (fastforce simp: keyed_def)
    then have "p = snd x" using j x assms gm_get_iff_in_set [of "fd_points db"] by (metis keyed_def option.inject prod.collapse)
    then show ?thesis using p(1) by simp
  qed
  then show ?thesis unfolding DeleteStaleAutoFlowPoints_def using delete_points_frame [of ok ?ps db] by blast
qed

lemma templates_frame: "\<exists>Q. (if g then fst (DeleteOldFlowTemplates c db) else db) = db\<lparr>fd_templates := filter Q (fd_templates db)\<rparr>
  \<and> (\<forall>x \<in> set (fd_templates db). Q x \<or> unixOf (ft_UpdatedAt (snd x)) < unixOf c)"
  by (rule exI [of _ "\<lambda>x. g \<longrightarrow> \<not> unixOf (ft_UpdatedAt (snd x)) < unixOf c"]) (simp add: DeleteOldFlowTemplates_def comp_def split_beta)

lemma learned_frame: "\<exists>Q. (if g then fst (DeleteOldLearnedFlowIfaces c db) else db) = db\<lparr>fd_ifaces := filter Q (fd_ifaces db)\<rparr>
  \<and> (\<forall>x \<in> set (fd_ifaces db). Q x \<or> fi_Source (snd x) = ''learned'' \<and> unixOf (fi_LastSeen (snd x)) < unixOf c)"
  by (rule exI [of _ "\<lambda>x. g \<longrightarrow> \<not> (fi_Source (snd x) = ''learned'' \<and> unixOf (fi_LastSeen (snd x)) < unixOf c)"])
    (simp add: DeleteOldLearnedFlowIfaces_def comp_def split_beta)

lemma facts_ok_pruned:
  assumes "facts_ok db" and "swept_facts ok a b db db'"
  shows "facts_ok db'"
proof -
  have "\<exists>Q. fd_1m db' = filter Q (fd_1m db)" "\<exists>Q. fd_1m_meta db' = filter Q (fd_1m_meta db)" "\<exists>Q. fd_1h db' = filter Q (fd_1h db)"
    "\<exists>Q. fd_1h_meta db' = filter Q (fd_1h_meta db)"
    using assms(2) by (auto simp: swept_facts_def Let_def dest!: pruned_filter)
  then show ?thesis using assms(1) by (auto simp: facts_ok_def gm_wf_filter keys_aligned_def meta_aligned_def)
qed

lemma Sweep_cases:
  assumes "keyed fp_ID (fd_points db)"
  obtains t m u n Q ps I where "Sweep ok addDays get now db = db\<lparr>fd_1m := t, fd_1m_meta := m, fd_1h := u, fd_1h_meta := n,
      fd_templates := filter Q (fd_templates db), fd_points := ps, fd_ifaces := filter I (fd_ifaces db)\<rparr>"
    and "swept_facts ok (unix (addDays now (- Retention1mDays get))) (unix (addDays now (- Retention1hDays get))) db (Sweep ok addDays get now db)"
    and "\<forall>x \<in> set (fd_templates db). Q x \<or> unixOf (ft_UpdatedAt (snd x)) < unixOf (now - templateRetention)"
    and "\<forall>x \<in> set (fd_points db). x \<in> set ps \<or> stale_point (now - stalePointRetention) db (snd x)"
    and "set ps \<subseteq> set (fd_points db)" and "points_ok devs db \<Longrightarrow> points_ok devs (Sweep ok addDays get now db)"
    and "\<forall>x \<in> set (fd_ifaces db). I x \<or> fi_Source (snd x) = ''learned'' \<and> unixOf (fi_LastSeen (snd x)) < unixOf (now - learnedIfaceRetention)"
proof -
  let ?c1 = "unix (addDays now (- Retention1mDays get))" and ?ch = "unix (addDays now (- Retention1hDays get))"
  define d1 where "d1 = sweep_facts ok ?c1 ?ch db"
  obtain t m u n where f: "d1 = db\<lparr>fd_1m := t, fd_1m_meta := m, fd_1h := u, fd_1h_meta := n\<rparr>"
    and s: "swept_facts ok ?c1 ?ch db d1" using sweep_facts_spec [of ok ?c1 ?ch db] unfolding d1_def by blast
  define d2 where "d2 = (if so_templates ok then fst (DeleteOldFlowTemplates (now - templateRetention) d1) else d1)"
  obtain Q where Q: "d2 = d1\<lparr>fd_templates := filter Q (fd_templates d1)\<rparr>"
    "\<forall>x \<in> set (fd_templates d1). Q x \<or> unixOf (ft_UpdatedAt (snd x)) < unixOf (now - templateRetention)"
    using templates_frame [of "so_templates ok" "now - templateRetention" d1] unfolding d2_def by blast
  define d3 where "d3 = (if so_pointLists ok then snd (snd (DeleteStaleAutoFlowPoints (so_points ok) (now - stalePointRetention) d2)) else d2)"
  have fr: "fd_points d2 = fd_points db" "fd_pointSeq d2 = fd_pointSeq db" "fd_exporters d2 = fd_exporters db" "fd_ifaces d2 = fd_ifaces db"
    by (simp_all add: Q f)
  have k: "keyed fp_ID (fd_points d2)" using assms fr by simp
  have "\<exists>ps. d3 = d2\<lparr>fd_points := ps\<rparr> \<and> set ps \<subseteq> set (fd_points d2) \<and> (\<forall>x \<in> set (fd_points d2). x \<in> set ps \<or> stale_point (now - stalePointRetention) d2 (snd x))"
  proof (cases "so_pointLists ok")
    case True
    then have "d3 = snd (snd (DeleteStaleAutoFlowPoints (so_points ok) (now - stalePointRetention) d2))" by (simp add: d3_def)
    then show ?thesis using stale_frame [OF k, of "so_points ok" "now - stalePointRetention"] by blast
  next
    case False
    then show ?thesis by (intro exI [of _ "fd_points d2"]) (simp add: d3_def)
  qed
  then obtain ps where ps: "d3 = d2\<lparr>fd_points := ps\<rparr>" "set ps \<subseteq> set (fd_points d2)"
    "\<forall>x \<in> set (fd_points d2). x \<in> set ps \<or> stale_point (now - stalePointRetention) d2 (snd x)" by blast
  obtain I where I: "Sweep ok addDays get now db = d3\<lparr>fd_ifaces := filter I (fd_ifaces d3)\<rparr>"
    "\<forall>x \<in> set (fd_ifaces d3). I x \<or> fi_Source (snd x) = ''learned'' \<and> unixOf (fi_LastSeen (snd x)) < unixOf (now - learnedIfaceRetention)"
    using learned_frame [of "so_ifaces ok" "now - learnedIfaceRetention" d3] unfolding Sweep_eq d3_def d2_def d1_def Let_def by blast
  have st: "stale_point c d2 p = stale_point c db p" for c p by (simp add: stale_point_def fresh_if_def [abs_def] fr)
  have pk: "points_ok devs (Sweep ok addDays get now db)" if "points_ok devs db"
  proof -
    have "points_ok devs d2" using that fr points_ok_cong [of d2 db devs] by simp
    then have "points_ok devs d3" unfolding d3_def by (simp add: points_ok_stale)
    then show ?thesis unfolding I(1) using points_ok_cong [of "d3\<lparr>fd_ifaces := filter I (fd_ifaces d3)\<rparr>" d3 devs] by simp
  qed
  have "swept_facts ok ?c1 ?ch db (Sweep ok addDays get now db)" using s by (simp add: I(1) ps(1) Q(1) swept_facts_def)
  moreover have "\<forall>x \<in> set (fd_points db). x \<in> set ps \<or> stale_point (now - stalePointRetention) db (snd x)" using ps(3) by (simp add: st fr)
  moreover have "Sweep ok addDays get now db = db\<lparr>fd_1m := t, fd_1m_meta := m, fd_1h := u, fd_1h_meta := n,
      fd_templates := filter Q (fd_templates db), fd_points := ps, fd_ifaces := filter I (fd_ifaces db)\<rparr>"
    unfolding I(1) ps(1) Q(1) f by simp
  ultimately show thesis using that pk Q(2) ps(2) I(2) unfolding fr ps(1) Q(1) f by simp
qed

text \<open>
  C11: What retention deletes. A sweep removes a fact row only when its bucket is older than the configured days of its
  resolution or its exporter is not among the ids that the listing of the exporters gave: with a complete listing, the
  exporter no longer exists; when the listing fails, no row goes for this reason; when it ends early unnoticed, the rows of
  existing exporters it did not reach go as well. It removes a template only when it was not refreshed for seven days, a point only when it is
  an automatic native one none of whose interfaces was seen for seven days, and an interface only when it is a
  learned one not seen for thirty days, whichever of its statements fail; exporters and the plan's prefixes stay. When
  the statements on the fact tables succeed, no such fact row is left, however many chunks it takes. All tables keep their
  invariant. No other writer acts between the statements of a sweep here.
\<close>

theorem sweep_safe:
  assumes "tables_ok devs db" and "db' = Sweep ok addDays get now db"
  shows "tables_ok devs db'
    \<and> swept_facts ok (unix (addDays now (- Retention1mDays get))) (unix (addDays now (- Retention1hDays get))) db db'
    \<and> fd_exporters db' = fd_exporters db \<and> fd_prefixes db' = fd_prefixes db
    \<and> (\<forall>x \<in> set (fd_templates db). x \<in> set (fd_templates db') \<or> unixOf (ft_UpdatedAt (snd x)) < unixOf (now - templateRetention))
    \<and> (\<forall>x \<in> set (fd_points db). x \<in> set (fd_points db') \<or> stale_point (now - stalePointRetention) db (snd x))
    \<and> (\<forall>x \<in> set (fd_ifaces db). x \<in> set (fd_ifaces db') \<or> fi_Source (snd x) = ''learned'' \<and> unixOf (fi_LastSeen (snd x)) < unixOf (now - learnedIfaceRetention))"
proof -
  have k: "keyed fp_ID (fd_points db)" using assms(1) by (simp add: tables_ok_def refs_ok_def points_ok_def)
  show ?thesis
  proof (rule Sweep_cases [OF k, of ok addDays get now devs])
    fix t m u n Q ps I
    assume e: "Sweep ok addDays get now db = db\<lparr>fd_1m := t, fd_1m_meta := m, fd_1h := u, fd_1h_meta := n,
        fd_templates := filter Q (fd_templates db), fd_points := ps, fd_ifaces := filter I (fd_ifaces db)\<rparr>"
      and s: "swept_facts ok (unix (addDays now (- Retention1mDays get))) (unix (addDays now (- Retention1hDays get))) db (Sweep ok addDays get now db)"
      and p: "points_ok devs db \<Longrightarrow> points_ok devs (Sweep ok addDays get now db)"
      and r: "\<forall>x \<in> set (fd_templates db). Q x \<or> unixOf (ft_UpdatedAt (snd x)) < unixOf (now - templateRetention)"
        "\<forall>x \<in> set (fd_points db). x \<in> set ps \<or> stale_point (now - stalePointRetention) db (snd x)"
        "\<forall>x \<in> set (fd_ifaces db). I x \<or> fi_Source (snd x) = ''learned'' \<and> unixOf (fi_LastSeen (snd x)) < unixOf (now - learnedIfaceRetention)"
    have "facts_ok db'" using facts_ok_pruned [OF _ s] assms by (simp add: tables_ok_def)
    moreover have "rows_ok db'" "refs_ok devs db'" using p assms(1) unfolding assms(2) e
      by (simp_all add: tables_ok_def rows_ok_def refs_ok_def exporters_ok_def keyed_filter owned_filter)
    ultimately show ?thesis using s r assms(2) by (auto simp: tables_ok_def) (auto simp: e)
  qed
qed

definition sweep_all :: sweep_ok where
  "sweep_all = (let ok = \<lparr>do_ids = True, do_exec = \<lambda>_ _. True\<rparr> in \<lparr>so_1m = ok, so_1mMeta = ok, so_1h = ok, so_1hMeta = ok, so_live = ListDone,
     so_orphans = \<lambda>_. ok, so_templates = True, so_pointLists = True, so_points = \<lambda>_. True, so_ifaces = True\<rparr>)"

definition utc_days :: "time \<Rightarrow> int \<Rightarrow> time" where
  "utc_days t n = t + hours (24 * n)"

lemma unix_hours: "unix (t + hours n) = unix t + 3600 * n"
  by (simp add: unix_def hours_def seconds_def)

theorem sweep_safe_witness:
  "fd_1m (Sweep sweep_all utc_days (\<lambda>_. None) (time_Unix 7210 0 + hours 72) (w_db demo_writer)) =
     filter (\<lambda>r. 7210 \<le> tk_bucket (fst r) \<and> tk_exporter (fst r) = 7) (fd_1m (w_db demo_writer))"
proof -
  have t: "tables_ok [] (w_db demo_writer)"
    by (simp add: tables_ok_def facts_ok_def rows_ok_def keys_aligned_def meta_aligned_def blob_ok_def gm_wf_def keyed_def demo_writer_def
        demo_flow_db_def demo_flow_key_def demo_row_def refs_ok_def points_ok_def exporters_ok_def gm_all_def device_ref_ok_def owned_def)
  have d: "sweep_done sweep_all" by (simp add: sweep_done_def orphans_done_def del_ok_def sweep_all_def Let_def)
  have c: "unix (utc_days (time_Unix 7210 0 + hours 72) (- Retention1mDays (\<lambda>_. None))) = 7210"
    by (simp add: utc_days_def Retention1mDays_def settingInt_def unix_hours)
  have h: "orphan (so_live sweep_all) (w_db demo_writer) i \<longleftrightarrow> i \<noteq> 7" for i
    by (auto simp: orphan_def sweep_all_def Let_def demo_writer_def gm_has_def gm_get_def)
  show ?thesis using sweep_safe [OF t refl, of sweep_all utc_days "\<lambda>_. None" "time_Unix 7210 0 + hours 72"]
    unfolding swept_facts_def Let_def d eqTrueI [OF d] pruned_True c h by (simp add: not_less)
qed

lemma Sweep_swept: "swept_facts ok (unix (addDays now (- Retention1mDays get))) (unix (addDays now (- Retention1hDays get))) db (Sweep ok addDays get now db)"
  (is "swept_facts ok ?c1 ?ch db _")
proof -
  have t: "swept_facts ok a b d (if g then fst (DeleteOldFlowTemplates c x) else x) = swept_facts ok a b d x" for a b d g c x
    by (simp add: DeleteOldFlowTemplates_def swept_facts_def split_beta)
  have i: "swept_facts ok a b d (if g then fst (DeleteOldLearnedFlowIfaces c x) else x) = swept_facts ok a b d x" for a b d g c x
    by (simp add: DeleteOldLearnedFlowIfaces_def swept_facts_def split_beta)
  have p: "swept_facts ok a b d (if g then snd (snd (DeleteStaleAutoFlowPoints o' c x)) else x) = swept_facts ok a b d x" for a b d g o' c x
    using delete_points_frame [of o' "filter (stale_point c x) (ListFlowPoints x)" x] by (auto simp: DeleteStaleAutoFlowPoints_def swept_facts_def)
  show ?thesis using sweep_facts_spec [of ok ?c1 ?ch db] unfolding Sweep_eq Let_def t i p by blast
qed

lemma Sweep_exporters [simp]: "fd_exporters (Sweep ok addDays get now db) = fd_exporters db"
proof -
  have p: "fd_exporters (if g then snd (snd (DeleteStaleAutoFlowPoints o' c x)) else x) = fd_exporters x" for g o' c x
    using delete_points_frame [of o' "filter (stale_point c x) (ListFlowPoints x)" x] by (auto simp: DeleteStaleAutoFlowPoints_def)
  obtain t m u n where f: "sweep_facts ok (unix (addDays now (- Retention1mDays get))) (unix (addDays now (- Retention1hDays get))) db
      = db\<lparr>fd_1m := t, fd_1m_meta := m, fd_1h := u, fd_1h_meta := n\<rparr>" using sweep_facts_spec by blast
  have q: "fd_exporters (if g then fst (DeleteOldFlowTemplates c x) else x) = fd_exporters x"
    "fd_exporters (if g then fst (DeleteOldLearnedFlowIfaces c x) else x) = fd_exporters x" for g c x
    by (simp_all add: DeleteOldFlowTemplates_def DeleteOldLearnedFlowIfaces_def split_beta)
  show ?thesis unfolding Sweep_eq Let_def q p f by simp
qed

text \<open>
  A listing that ends before it reaches an exporter makes the sweep delete all fact rows of this exporter, however
  recent they are: the code never asks the listing for its error.
\<close>

theorem partial_listing_deletes_live:
  "let db = w_db demo_writer; db' = Sweep (sweep_all\<lparr>so_live := ListCut []\<rparr>) utc_days (\<lambda>_. None) (time_Unix 7320 0) db
   in gm_has (fd_exporters db) 7 \<and> fd_1m db \<noteq> [] \<and> fd_1m db' = [] \<and> fd_1m_meta db' = []"
proof -
  let ?ok = "sweep_all\<lparr>so_live := ListCut []\<rparr>"
  have d: "sweep_done ?ok" by (simp add: sweep_done_def orphans_done_def del_ok_def sweep_all_def Let_def)
  have o: "orphan (so_live ?ok) (w_db demo_writer) i" for i by (simp add: orphan_def)
  show ?thesis using Sweep_swept [of ?ok utc_days "time_Unix 7320 0" "\<lambda>_. None" "w_db demo_writer"]
    unfolding swept_facts_def Let_def eqTrueI [OF d] pruned_True eqTrueI [OF o]
    by (simp add: demo_writer_def demo_flow_db_def gm_has_def gm_get_def)
qed

subsection \<open>Rollups and retention\<close>

lemma swept_hour:
  assumes "swept_facts ok c1 ch db db'" and "c1 \<le> h" and "\<not> orphan (so_live ok) db e"
  shows "hour_rows e h (fd_1m db') = hour_rows e h (fd_1m db)"
    and "filter (\<lambda>kv. in_hour e h (fst kv)) (fd_1m_meta db') = filter (\<lambda>kv. in_hour e h (fst kv)) (fd_1m_meta db)"
proof -
  show "hour_rows e h (fd_1m db') = hour_rows e h (fd_1m db)" unfolding hour_rows_def
    by (rule pruned_keeps [where P = "\<lambda>k. tk_bucket k < c1 \<or> orphan (so_live ok) db (tk_exporter k)" and g = "sweep_done ok"])
      (use assms in \<open>auto simp: swept_facts_def in_hour_def key_bucket_def Let_def\<close>)
  show "filter (\<lambda>kv. in_hour e h (fst kv)) (fd_1m_meta db') = filter (\<lambda>kv. in_hour e h (fst kv)) (fd_1m_meta db)"
    by (rule pruned_keeps [where P = "\<lambda>k. snd k < c1 \<or> orphan (so_live ok) db (fst k)" and g = "sweep_done ok"])
      (use assms in \<open>auto simp: swept_facts_def in_hour_def Let_def\<close>)
qed

text \<open>Sweeps one after the other, each with its outcomes, its settings and its instant.\<close>

definition sweeps_of :: "(time \<Rightarrow> int \<Rightarrow> time) \<Rightarrow> (sweep_ok \<times> settings \<times> time) list \<Rightarrow> flow_db \<Rightarrow> flow_db" where
  "sweeps_of addDays ss db = fold (\<lambda>(ok, get, now). Sweep ok addDays get now) ss db"

lemma sweeps_hour:
  assumes "\<And>ok get now. (ok, get, now) \<in> set ss \<Longrightarrow> unix (addDays now (- Retention1mDays get)) \<le> h \<and> \<not> orphan (so_live ok) db e"
  shows "hour_rows e h (fd_1m (sweeps_of addDays ss db)) = hour_rows e h (fd_1m db)
    \<and> filter (\<lambda>kv. in_hour e h (fst kv)) (fd_1m_meta (sweeps_of addDays ss db)) = filter (\<lambda>kv. in_hour e h (fst kv)) (fd_1m_meta db)"
  using assms
proof (induction ss arbitrary: db)
  case (Cons s ss)
  obtain ok get now where s: "s = (ok, get, now)" by (cases s)
  let ?db = "Sweep ok addDays get now db"
  have o: "orphan lo ?db = orphan lo db" for lo by (rule orphan_cong) simp
  have "hour_rows e h (fd_1m (sweeps_of addDays ss ?db)) = hour_rows e h (fd_1m ?db)
    \<and> filter (\<lambda>kv. in_hour e h (fst kv)) (fd_1m_meta (sweeps_of addDays ss ?db)) = filter (\<lambda>kv. in_hour e h (fst kv)) (fd_1m_meta ?db)"
    by (rule Cons.IH) (use Cons.prems in \<open>auto simp: o\<close>)
  moreover have c: "unix (addDays now (- Retention1mDays get)) \<le> h" "\<not> orphan (so_live ok) db e" using Cons.prems [of ok get now] by (simp_all add: s)
  ultimately show ?case using swept_hour [OF Sweep_swept [of ok addDays now get db] c] by (simp add: s sweeps_of_def)
qed (simp add: sweeps_of_def)

text \<open>
  C38: When an hour is rolled, retention has not thinned it out. Let any number of sweeps run up to the instant of a
  rollup, with any settings and any failures except a listing of exporters that ends early before this exporter, on a
  clock whose calendar days are at most an hour short of 24 hours (\<open>AddDate\<close> works in the local zone). For every hour the
  rollup visits, the hourly rows and the hourly summary computed for the exporter are then those of the unswept table. For
  the hours the start-up catch-up may roll the same holds where no day is shorter than 24 hours and no sweep ran with fewer
  days of minute data than the catch-up reads; the next theorem shows that a day of 23 hours breaks it.
\<close>

theorem rollup_window_unswept:
  assumes days: "\<And>u n. 0 \<le> n \<Longrightarrow> unix (addDays u (- n)) \<le> unix u - n * 86400 + slack"
    and past: "\<And>ok get now. (ok, get, now) \<in> set ss \<Longrightarrow> unix now \<le> unix t \<and> \<not> orphan (so_live ok) db e"
    and h: "slack \<le> 3600 \<and> h \<in> set (rollup_hours (hour_of t) k (min rollupMaxLookback (Retention1mDays (we_get en) * 24 * 3600 - 3600)))
      \<or> slack \<le> 0 \<and> (\<forall>(ok, get, now) \<in> set ss. Retention1mDays (we_get en) \<le> Retention1mDays get) \<and> unrolled_from en t \<le> h"
  shows "rolled_rows e h topN (fd_1m (sweeps_of addDays ss db)) = rolled_rows e h topN (fd_1m db)
    \<and> hour_meta e h (fd_1m_meta (sweeps_of addDays ss db)) = hour_meta e h (fd_1m_meta db)"
proof -
  let ?d = "Retention1mDays (we_get en)"
  have o: "unix t - 3600 < hour_of t" by (simp add: hour_of_def)
  have "unix (addDays now (- Retention1mDays get)) \<le> h" if s: "(ok, get, now) \<in> set ss" for ok get now
  proof -
    let ?r = "Retention1mDays get"
    have r: "1 \<le> ?r" by (rule retention_range)
    have c: "unix (addDays now (- ?r)) \<le> unix t - ?r * 86400 + slack" using days [of ?r now] past [OF s] r by linarith
    from h show ?thesis
    proof
      assume a: "slack \<le> 3600 \<and> h \<in> set (rollup_hours (hour_of t) k (min rollupMaxLookback (?d * 24 * 3600 - 3600)))"
      then have "hour_of t - 3600 * min k 3 \<le> h" using rollup_hours_iff [of "hour_of t" ?d h k] retention_range [of "we_get en"] by auto
      then show ?thesis using a c o r by (auto simp: min_def split: if_splits)
    next
      assume a: "slack \<le> 0 \<and> (\<forall>(ok, get, now) \<in> set ss. ?d \<le> Retention1mDays get) \<and> unrolled_from en t \<le> h"
      then have "?d \<le> ?r" using s by fastforce
      then show ?thesis using a c o by (simp add: unrolled_from_def)
    qed
  qed
  then have "hour_rows e h (fd_1m (sweeps_of addDays ss db)) = hour_rows e h (fd_1m db)
    \<and> filter (\<lambda>kv. in_hour e h (fst kv)) (fd_1m_meta (sweeps_of addDays ss db)) = filter (\<lambda>kv. in_hour e h (fst kv)) (fd_1m_meta db)"
    using past by (intro sweeps_hour) blast
  then show ?thesis by (simp add: rolled_rows_def hour_meta_def)
qed

theorem rollup_window_unswept_witness:
  "rolled_rows 7 7200 100 (fd_1m (sweeps_of utc_days [(sweep_all, \<lambda>_. None, time_Unix 12000 0), (sweep_all\<lparr>so_live := ListFails\<rparr>, \<lambda>_. None, time_Unix 14400 0)] (w_db demo_writer)))
    = rolled_rows 7 7200 100 (fd_1m demo_flow_db)"
proof -
  let ?ss = "[(sweep_all, \<lambda>_. None, time_Unix 12000 0), (sweep_all\<lparr>so_live := ListFails\<rparr>, \<lambda>_. None, time_Unix 14400 0)] :: (sweep_ok \<times> settings \<times> time) list"
  have h: "hour_of (time_Unix 14400 0) = 14400" by (rule hour_of_Unix) simp
  have "unix (utc_days u (- n)) \<le> unix u - n * 86400 + 0" for u n using unix_hours [of u "24 * - n"] by (simp add: utc_days_def)
  moreover have "unix now \<le> unix (time_Unix 14400 0) \<and> \<not> orphan (so_live ok) (w_db demo_writer) 7" if "(ok, get, now) \<in> set ?ss" for ok get now
    using that by (auto simp: orphan_def sweep_all_def Let_def demo_writer_def gm_has_def gm_get_def)
  moreover have "unrolled_from demo_wenv (time_Unix 14400 0) \<le> 7200 \<and> (\<forall>(ok, get, now) \<in> set ?ss. Retention1mDays (we_get demo_wenv) \<le> Retention1mDays get)"
    by (simp add: unrolled_from_def h demo_wenv_def Retention1mDays_def settingInt_def)
  ultimately have "rolled_rows 7 7200 100 (fd_1m (sweeps_of utc_days ?ss (w_db demo_writer))) = rolled_rows 7 7200 100 (fd_1m (w_db demo_writer))"
    by (intro rollup_window_unswept [of utc_days 0 ?ss "time_Unix 14400 0" "w_db demo_writer" 7 7200 0 demo_wenv 100, THEN conjunct1] disjI2) auto
  then show ?thesis by (simp add: demo_writer_def)
qed

text \<open>A zone whose last days hold one of 23 hours, when the clocks were put forward.\<close>

definition spring_days :: "time \<Rightarrow> int \<Rightarrow> time" where
  "spring_days t n = t + hours (24 * n) + (if n < 0 then hours 1 else 0)"

definition spring_writer :: writer where
  "spring_writer = demo_writer\<lparr>w_db := (w_db demo_writer)\<lparr>fd_1m_meta := fd_1m_meta demo_flow_db @ map (\<lambda>(k, m). ((7, 7260), m)) (fd_1m_meta demo_flow_db)\<rparr>\<rparr>"

lemma catchup_hour:
  assumes "ok_unrolled (we_ok en)" and "ok_reroll (we_ok en) e h = RollDone" and "3600 dvd h" and "unrolled_from en now \<le> b" and "b < hour_of now"
    and "(e, b) \<in> fst ` set (fd_1m_meta (w_db w))" and "b - b mod 3600 = h" and "\<not> gm_has (fd_1h_meta (w_db w)) (e, h)"
  shows "stored_hour e h (w_db (rollupUnrolled en now w)) = rolled_rows e h (nat (max (TopNHourly (we_get en)) 1)) (fd_1m (w_db w))"
proof -
  let ?l = "map (\<lambda>(e, h). (e, unix h)) (UnrolledFlowHours (time_Unix (unrolled_from en now) 0) (time_Unix (hour_of now) 0) (w_db w))"
  have d: "3600 dvd h" if "(e, h) \<in> set ?l" for e h using that by (auto simp: UnrolledFlowHours_iff minus_mod_eq_mult_div)
  have "(e, time_Unix h 0) \<in> set (UnrolledFlowHours (time_Unix (unrolled_from en now) 0) (time_Unix (hour_of now) 0) (w_db w))"
    using assms(4-8) by (auto simp: UnrolledFlowHours_iff)
  then have "(e, h) \<in> set ?l" by force
  then show ?thesis unfolding rollupUnrolled_db [OF assms(1)] using rolls_hour [of ?l, OF d] assms(2) by (simp add: rows_read_def rolled_rows_read)
qed

text \<open>
  The margin of one hour is not enough for a day of 23 hours: here the sweep has deleted the first minute of an hour that
  the catch-up of the same instant still rolls, and the stored hour lacks its bytes.
\<close>

theorem short_day_thins_catchup:
  "let now = time_Unix 262860 0; db = Sweep sweep_all spring_days (we_get demo_wenv) now (w_db spring_writer)
   in pair_total fs_bytes (1, 2) (stored_hour 7 7200 (w_db (rollupUnrolled demo_wenv now spring_writer))) = 220
    \<and> pair_total fs_bytes (1, 2) (stored_hour 7 7200 (w_db (rollupUnrolled demo_wenv now (spring_writer\<lparr>w_db := db\<rparr>)))) = 120"
proof -
  define db where "db = Sweep sweep_all spring_days (we_get demo_wenv) (time_Unix 262860 0) (w_db spring_writer)"
  have d: "sweep_done sweep_all" by (simp add: sweep_done_def orphans_done_def del_ok_def sweep_all_def Let_def)
  have c: "unix (spring_days (time_Unix 262860 0) (- Retention1mDays (we_get demo_wenv))) = 7260"
    by (simp add: spring_days_def Retention1mDays_def settingInt_def demo_wenv_def unix_hours)
  have o: "orphan (so_live sweep_all) (w_db spring_writer) i \<longleftrightarrow> i \<noteq> 7" for i
    by (auto simp: orphan_def sweep_all_def Let_def spring_writer_def demo_writer_def gm_has_def gm_get_def)
  have sw: "fd_1m db = filter (\<lambda>r. 7260 \<le> tk_bucket (fst r) \<and> tk_exporter (fst r) = 7) (fd_1m (w_db spring_writer))"
    "fd_1m_meta db = filter (\<lambda>r. 7260 \<le> snd (fst r) \<and> fst (fst r) = 7) (fd_1m_meta (w_db spring_writer))" "fd_1h_meta db = []"
    using Sweep_swept [of sweep_all spring_days "time_Unix 262860 0" "we_get demo_wenv" "w_db spring_writer", folded db_def]
    unfolding swept_facts_def Let_def eqTrueI [OF d] pruned_True c o by (simp_all add: not_less) (simp add: spring_writer_def demo_writer_def demo_flow_db_def)
  have n: "hour_of (time_Unix 262860 0) = 262800" by code_simp
  have u: "unrolled_from demo_wenv (time_Unix 262860 0) = 7200" by (simp add: unrolled_from_def n demo_wenv_def Retention1mDays_def settingInt_def)
  have ok: "ok_unrolled (we_ok demo_wenv)" "ok_reroll (we_ok demo_wenv) e h = RollDone" for e h by (simp_all add: demo_wenv_def all_ok_def)
  have cat: "stored_hour 7 7200 (w_db (rollupUnrolled demo_wenv (time_Unix 262860 0) w)) = rolled_rows 7 7200 (nat (max (TopNHourly (we_get demo_wenv)) 1)) (fd_1m (w_db w))"
    if "(7, 7260) \<in> fst ` set (fd_1m_meta (w_db w))" "fd_1h_meta (w_db w) = []" for w
    by (rule catchup_hour [where b = 7260]) (use that ok in \<open>simp_all add: u n gm_has_def gm_get_def\<close>)
  have hr: "hour_rows 7 7200 (fd_1m (w_db spring_writer)) = fd_1m demo_flow_db" "hour_rows 7 7200 (fd_1m db) = drop 1 (fd_1m demo_flow_db)"
    unfolding sw by (simp_all add: hour_rows_def spring_writer_def demo_writer_def demo_flow_db_def demo_flow_key_def in_hour_def key_bucket_def)
  have f: "fits fs_bytes (fd_1m demo_flow_db)" "fits fs_bytes (drop 1 (fd_1m demo_flow_db))" by (simp_all add: fits_def demo_flow_db_def maxInt64_def)
  have m: "(7, 7260) \<in> fst ` set (fd_1m_meta (w_db spring_writer))" "fd_1h_meta (w_db spring_writer) = []"
    "(7, 7260) \<in> fst ` set (fd_1m_meta db)"
    unfolding sw by (simp_all add: spring_writer_def demo_writer_def demo_flow_db_def)
  have "pair_total fs_bytes (1, 2) (stored_hour 7 7200 (w_db (rollupUnrolled demo_wenv (time_Unix 262860 0) spring_writer))) = 220"
    unfolding cat [OF m(1,2)] using sb.rolled_pair_total [of 7 7200 "fd_1m (w_db spring_writer)"] f(1)
    by (simp add: hr) (simp add: pair_total_def row_pair_def demo_flow_db_def demo_flow_key_def)
  moreover have "pair_total fs_bytes (1, 2) (stored_hour 7 7200 (w_db (rollupUnrolled demo_wenv (time_Unix 262860 0) (spring_writer\<lparr>w_db := db\<rparr>)))) = 120"
    using cat [of "spring_writer\<lparr>w_db := db\<rparr>"] m(3) sw(3) sb.rolled_pair_total [of 7 7200 "fd_1m db"] f(2)
    by (simp add: hr) (simp add: pair_total_def row_pair_def demo_flow_db_def demo_flow_key_def)
  ultimately show ?thesis by (simp add: Let_def db_def)
qed

end
