(* ===== verification/Flow_Plan.thy ===== *)
theory Flow_Plan
  imports Native_Points
begin

text \<open>
  The address plan (\<open>flow/plan.go\<close>): the collector asks every online device for its addresses, classifies each prefix as
  internal, vpn or transit and stores the result as \<open>flow_prefixes\<close>. The RouterOS query of a device is the argument
  \<open>ask\<close> (\<open>None\<close>: no connection or an error). Where the code ranges over a Go map, the order is an argument.
\<close>

subsection \<open>Reported addresses\<close>

record planAddr =
  pa_host :: addr
  pa_prefix :: prefix
  pa_deviceID :: string
  pa_iface :: string
  pa_ifType :: string

text \<open>Not the zero or broadcast address of IPv4, nor unspecified, loopback, multicast or link-local.\<close>

definition IsGlobalUnicast :: "addr \<Rightarrow> bool" where
  "IsGlobalUnicast a = (let a = Unmap a in a \<noteq> NoAddr \<and> \<not> (case a of Addr4 b \<Rightarrow> b = replicate 4 0 \<or> b = replicate 4 255 | _ \<Rightarrow> False) \<and>
     \<not> IsUnspecified a \<and> \<not> IsLoopback a \<and> \<not> IsMulticast a \<and> \<not> IsLinkLocalUnicast a)"

text \<open>\<open>netip.PrefixFrom(a, bits).Masked()\<close> for \<open>bits\<close> as computed (a length below 0 is not valid and masks to the zero prefix).\<close>

definition no_prefix :: prefix where
  "no_prefix = \<lparr>p_addr = NoAddr, p_bits = 0\<rparr>"

definition masked_from :: "addr \<Rightarrow> int \<Rightarrow> prefix" where
  "masked_from a n = (if 0 \<le> n \<and> n \<le> int (BitLen a) then prefix_Masked \<lparr>p_addr = a, p_bits = nat n\<rparr> else no_prefix)"

definition planAddr_of :: "string \<Rightarrow> (string, string) gomap \<Rightarrow> string \<times> string \<Rightarrow> planAddr option" where
  "planAddr_of dev types ai = (case ParsePrefix (fst ai) of None \<Rightarrow> None
     | Some p \<Rightarrow>
       (let host = Unmap (p_addr p)
        in if IsLinkLocalUnicast host \<or> IsLoopback host \<or> IsUnspecified host then None
           else let q = masked_from host (int (p_bits p) - (int (BitLen (p_addr p)) - int (BitLen host)));
                    q = (if Is6 host \<and> q \<noteq> no_prefix \<and> p_bits q = 128 \<and> IsGlobalUnicast host then masked_from host 64 else q)
                in Some \<lparr>pa_host = host, pa_prefix = q, pa_deviceID = dev, pa_iface = snd ai,
                         pa_ifType = (case gm_get types (snd ai) of None \<Rightarrow> '''' | Some t \<Rightarrow> t)\<rparr>))"

definition planAddrsOf :: "string \<Rightarrow> (string \<times> string) list \<Rightarrow> (string, string) gomap \<Rightarrow> planAddr list" where
  "planAddrsOf dev l types = List.map_filter (planAddr_of dev types) l"

subsection \<open>Classification\<close>

definition planClassRank :: "string \<Rightarrow> nat" where
  "planClassRank c = (if c = ''transit'' then 1 else if c = ''vpn'' then 2 else if c = ''internal'' then 3 else 0)"

definition insideExternal :: "prefix list \<Rightarrow> prefix \<Rightarrow> bool" where
  "insideExternal external p \<longleftrightarrow> list_ex (\<lambda>e. p_bits e \<le> p_bits p \<and> prefix_Contains e (p_addr p)) external"

definition shared_addr :: "planAddr list \<Rightarrow> (string, addr) gomap \<Rightarrow> planAddr \<Rightarrow> bool" where
  "shared_addr addrs devAddrs a \<longleftrightarrow>
     list_ex (\<lambda>o'. pa_deviceID o' \<noteq> pa_deviceID a \<and> prefix_Contains (pa_prefix a) (pa_host o')) addrs \<or>
     list_ex (\<lambda>(i, da). i \<noteq> pa_deviceID a \<and> IsValid da \<and> prefix_Contains (pa_prefix a) da) devAddrs"

definition up_key :: "DeviceUplink \<Rightarrow> string \<times> string" where
  "up_key u = (du_DeviceID u, du_Interface u)"

definition vpn_keys :: "DeviceUplink list \<Rightarrow> (string \<times> string) list" where
  "vpn_keys ups = map up_key (filter (\<lambda>u. du_Kind u = ''vpn'') ups)"

text \<open>
  A default route whose gateway lies in a shared prefix of its interface is the route of a LAN client: its interface
  is no uplink.
\<close>

definition lan_client :: "planAddr list \<Rightarrow> (string, addr) gomap \<Rightarrow> DeviceUplink \<Rightarrow> bool" where
  "lan_client addrs devAddrs u = (case ParseAddr (takeWhile (\<lambda>c. c \<noteq> CHR ''%'') (TrimSpace (du_GatewayIP u))) of None \<Rightarrow> False
     | Some (gw, _) \<Rightarrow> list_ex (\<lambda>a. pa_deviceID a = du_DeviceID u \<and> pa_iface a = du_Interface u
         \<and> prefix_Contains (pa_prefix a) (Unmap gw) \<and> shared_addr addrs devAddrs a) addrs)"

definition wan_up :: "DeviceUplink list \<Rightarrow> (string \<times> string) list" where
  "wan_up ups = map up_key (filter (\<lambda>u. du_Kind u = ''default-route'' \<and> \<not> IsVPNIfaceType (du_IfaceType u)) ups)"

definition wan_keys :: "planAddr list \<Rightarrow> (string, addr) gomap \<Rightarrow> DeviceUplink list \<Rightarrow> (string \<times> string) list" where
  "wan_keys addrs devAddrs ups =
    fold (\<lambda>u wan. if up_key u \<in> set wan \<and> lan_client addrs devAddrs u then removeAll (up_key u) wan else wan) ups (wan_up ups)"

definition plan_rank :: "prefix list \<Rightarrow> FlowPrefix \<Rightarrow> nat" where
  "plan_rank external r = (if fx_Class r = ''internal'' \<and> insideExternal external (fx_Prefix r) then 0 else planClassRank (fx_Class r))"

definition plan_merge :: "prefix list \<Rightarrow> FlowPrefix \<Rightarrow> (prefix, FlowPrefix) gomap \<Rightarrow> (prefix, FlowPrefix) gomap" where
  "plan_merge external row best = (case gm_get best (fx_Prefix row) of
     Some cur \<Rightarrow> if plan_rank external row > plan_rank external cur then gm_put (fx_Prefix row) row best else best
   | None \<Rightarrow> gm_put (fx_Prefix row) row best)"

definition addr_class :: "planAddr list \<Rightarrow> (string, addr) gomap \<Rightarrow> DeviceUplink list \<Rightarrow> planAddr \<Rightarrow> string" where
  "addr_class addrs devAddrs ups a =
    (let k = (pa_deviceID a, pa_iface a)
     in if IsVPNIfaceType (pa_ifType a) \<or> k \<in> set (vpn_keys ups) then ''vpn''
        else if k \<in> set (wan_keys addrs devAddrs ups) \<and> \<not> shared_addr addrs devAddrs a then ''transit'' else ''internal'')"

definition plan_row :: "time \<Rightarrow> prefix \<Rightarrow> string \<Rightarrow> planAddr \<Rightarrow> FlowPrefix" where
  "plan_row now p c a = \<lparr>fx_Prefix = p, fx_Class = c, fx_DeviceID = pa_deviceID a, fx_Iface = pa_iface a, fx_UpdatedAt = now\<rparr>"

definition plan_nets :: "planAddr list \<Rightarrow> (string, addr) gomap \<Rightarrow> DeviceUplink list \<Rightarrow> prefix list \<Rightarrow> time \<Rightarrow> (prefix, FlowPrefix) gomap" where
  "plan_nets addrs devAddrs ups external now =
    fold (\<lambda>a. plan_merge external (plan_row now (pa_prefix a) (addr_class addrs devAddrs ups a) a)) addrs []"

text \<open>The host row of an address takes the class of the most specific network that holds it.\<close>

definition host_prefix :: "addr \<Rightarrow> prefix" where
  "host_prefix h = \<lparr>p_addr = h, p_bits = BitLen h\<rparr>"

definition host_step :: "prefix list \<Rightarrow> time \<Rightarrow> FlowPrefix list \<Rightarrow> planAddr \<Rightarrow> (prefix, FlowPrefix) gomap \<Rightarrow> (prefix, FlowPrefix) gomap" where
  "host_step external now nets a best =
    (let host = host_prefix (pa_host a)
     in if gm_has best host then best
        else case List.find (\<lambda>r. prefix_Contains (fx_Prefix r) (pa_host a)) nets of None \<Rightarrow> best
          | Some r \<Rightarrow> plan_merge external (plan_row now host (fx_Class r) a) best)"

fun addr_raw :: "addr \<Rightarrow> bytes" where
  "addr_raw NoAddr = []"
| "addr_raw (Addr4 b) = b"
| "addr_raw (Addr6 b) = b"

text \<open>\<open>netip.Addr.Compare\<close>: the length of the address first, then its bytes.\<close>

definition addr_Compare :: "addr \<Rightarrow> addr \<Rightarrow> int" where
  "addr_Compare a b = (let c = go_compare (BitLen a) (BitLen b) in if c \<noteq> 0 then c else bytes_Compare (addr_raw a) (addr_raw b))"

definition comparePrefixes :: "FlowPrefix \<Rightarrow> FlowPrefix \<Rightarrow> int" where
  "comparePrefixes a b = (let c = addr_Compare (p_addr (fx_Prefix a)) (p_addr (fx_Prefix b))
     in if c \<noteq> 0 then c else int (p_bits (fx_Prefix a)) - int (p_bits (fx_Prefix b)))"

definition byBitsDown :: "FlowPrefix \<Rightarrow> FlowPrefix \<Rightarrow> int" where
  "byBitsDown a b = int (p_bits (fx_Prefix b)) - int (p_bits (fx_Prefix a))"

text \<open>\<open>shuf\<close> is the order in which the code ranges over its map of rows.\<close>

definition buildPlan :: "(FlowPrefix list \<Rightarrow> FlowPrefix list) \<Rightarrow> planAddr list \<Rightarrow> (string, addr) gomap \<Rightarrow> DeviceUplink list \<Rightarrow> prefix list \<Rightarrow> time \<Rightarrow> FlowPrefix list" where
  "buildPlan shuf addrs devAddrs ups external now =
    (let best = plan_nets addrs devAddrs ups external now;
         nets = sort_cmp byBitsDown (shuf (map snd best));
         best = fold (host_step external now nets) addrs best
     in sort_cmp comparePrefixes (shuf (map snd best)))"

subsection \<open>Refreshing the stored plan\<close>

definition staleUplinks :: "string list \<Rightarrow> DeviceUplink list \<Rightarrow> DeviceUplink list \<Rightarrow> bool" where
  "staleUplinks answered fresh al \<longleftrightarrow>
     list_ex (\<lambda>i. list_ex (\<lambda>u. (du_Kind u = ''default-route'' \<or> du_Kind u = ''vpn'') \<and> du_DeviceID u = i) al \<and> \<not> list_ex (\<lambda>u. du_DeviceID u = i) fresh) answered"

definition carry_step :: "string list \<Rightarrow> FlowPrefix \<Rightarrow> FlowPrefix list \<Rightarrow> FlowPrefix list" where
  "carry_step paused p plan = (if fx_DeviceID p \<in> set paused \<and> fx_Prefix p \<notin> set (map fx_Prefix plan) then plan @ [p] else plan)"

definition carryPausedPrefixes :: "bool \<Rightarrow> flow_db \<Rightarrow> FlowPrefix list \<Rightarrow> string list \<Rightarrow> FlowPrefix list" where
  "carryPausedPrefixes ok db plan paused =
    (if paused = [] \<or> \<not> ok then plan
     else fold (carry_step paused) (ListFlowPrefixes db) plan)"

text \<open>An invalid prefix is skipped; a later row of the same text replaces an earlier one.\<close>

definition prefix_IsValid :: "prefix \<Rightarrow> bool" where
  "prefix_IsValid p \<longleftrightarrow> p_addr p \<noteq> NoAddr \<and> p_bits p \<le> BitLen (p_addr p)"

definition ReplaceFlowPrefixes :: "FlowPrefix list \<Rightarrow> flow_db \<Rightarrow> flow_db" where
  "ReplaceFlowPrefixes ps db = db\<lparr>fd_prefixes :=
     fold (\<lambda>p m. if prefix_IsValid (fx_Prefix p)
       then gm_put (prefix_String (prefix_Masked (fx_Prefix p))) (p\<lparr>fx_Prefix := prefix_Masked (fx_Prefix p), fx_UpdatedAt := fromUnix (unixOf (fx_UpdatedAt p))\<rparr>) m
       else m) ps []\<rparr>"

record plan_reads =
  pr_devices :: bool
  pr_types :: "string \<Rightarrow> bool"
  pr_uplinks :: bool
  pr_allUplinks :: bool
  pr_previous :: bool
  pr_store :: bool

text \<open>What the loop over the devices collects.\<close>

record plan_scan =
  ps_devAddrs :: "(string, addr) gomap"
  ps_addrs :: "planAddr list"
  ps_answered :: "string list"
  ps_paused :: "string list"

definition plan_types :: "plan_reads \<Rightarrow> net_db \<Rightarrow> string \<Rightarrow> (string, string) gomap" where
  "plan_types rd nd d = (if pr_types rd d
     then fold (\<lambda>(_, n, t). gm_put n t) (sort_key (\<lambda>(_, n, _). str_key n) (filter (\<lambda>(x, _, _). x = d) (nd_interfaces nd))) [] else [])"

text \<open>A management address with a zone lies in no prefix, so it is left out.\<close>

definition scan_device :: "plan_reads \<Rightarrow> net_db \<Rightarrow> (string \<Rightarrow> (string \<times> string) list option) \<Rightarrow> time \<Rightarrow> Device \<Rightarrow> plan_scan \<Rightarrow> plan_scan" where
  "scan_device rd nd ask now d s =
    (let s = (case ParseAddr (dev_AddressText d) of None \<Rightarrow> s
         | Some (a, z) \<Rightarrow> if z \<noteq> [] \<and> \<not> Is4In6 a then s else s\<lparr>ps_devAddrs := gm_put (dev_ID d) (Unmap a) (ps_devAddrs s)\<rparr>)
     in if PollingPaused d now then s\<lparr>ps_paused := ps_paused s @ [dev_ID d]\<rparr>
        else if dev_Status d \<noteq> ''online'' then s
        else case ask (dev_ID d) of None \<Rightarrow> s
          | Some l \<Rightarrow> s\<lparr>ps_answered := ps_answered s @ [dev_ID d], ps_addrs := ps_addrs s @ planAddrsOf (dev_ID d) l (plan_types rd nd (dev_ID d))\<rparr>)"

definition refreshPlan :: "(FlowPrefix list \<Rightarrow> FlowPrefix list) \<Rightarrow> plan_reads \<Rightarrow> settings \<Rightarrow> uplink_age \<Rightarrow> (string \<Rightarrow> (string \<times> string) list option) \<Rightarrow>
    time \<Rightarrow> time \<Rightarrow> net_db \<Rightarrow> flow_db \<Rightarrow> bool \<times> flow_db" where
  "refreshPlan shuf rd get age ask now wall nd db =
    (if \<not> pr_devices rd then (False, db)
     else let s = fold (scan_device rd nd ask now) (nd_devices nd) \<lparr>ps_devAddrs = [], ps_addrs = [], ps_answered = [], ps_paused = []\<rparr>
          in if ps_answered s = [] \<or> \<not> pr_uplinks rd \<or> \<not> pr_allUplinks rd then (False, db)
             else let fresh = ListFreshDeviceUplinks age now nd;
                      retry = staleUplinks (ps_answered s) fresh (ListDeviceUplinks (hours (365 * 24)) wall nd);
                      plan = carryPausedPrefixes (pr_previous rd) db
                        (buildPlan shuf (ps_addrs s) (ps_devAddrs s) fresh (prefixListSetting get ''flow_external_prefixes'') now) (ps_paused s)
                  in (retry, if pr_store rd then ReplaceFlowPrefixes plan db else db))"

subsection \<open>Order does not matter\<close>

interpretation nat_diff: comparator "\<lambda>x y. int x - int y" "\<lambda>x. x"
  by unfold_locales auto

lemma bits_down: "comparator byBitsDown (\<lambda>r. p_bits (fx_Prefix r))"
proof -
  have "byBitsDown = (\<lambda>x y. (\<lambda>x y. int (p_bits (fx_Prefix x)) - int (p_bits (fx_Prefix y))) y x)" by (simp add: fun_eq_iff byBitsDown_def)
  then show ?thesis using comparator_flip [OF comparator_on [OF nat_diff.comparator_axioms, of "\<lambda>r :: FlowPrefix. p_bits (fx_Prefix r)"]] by simp
qed

interpretation net_order: comparator byBitsDown "\<lambda>r. p_bits (fx_Prefix r)"
  by (rule bits_down)

interpretation plan_order: comparator comparePrefixes
  "\<lambda>r. ((BitLen (p_addr (fx_Prefix r)), addr_raw (p_addr (fx_Prefix r))), p_bits (fx_Prefix r))"
proof -
  have "comparePrefixes = cmp_then (cmp_then (\<lambda>x y. go_compare (BitLen (p_addr (fx_Prefix x))) (BitLen (p_addr (fx_Prefix y))))
      (\<lambda>x y. bytes_Compare (addr_raw (p_addr (fx_Prefix x))) (addr_raw (p_addr (fx_Prefix y)))))
      (\<lambda>x y. int (p_bits (fx_Prefix x)) - int (p_bits (fx_Prefix y)))"
    by (simp add: fun_eq_iff comparePrefixes_def addr_Compare_def cmp_then_def Let_def)
  then show "comparator comparePrefixes (\<lambda>r. ((BitLen (p_addr (fx_Prefix r)), addr_raw (p_addr (fx_Prefix r))), p_bits (fx_Prefix r)))"
    using comparator_intros(1) [OF comparator_intros(1) [OF comparator_intros(2,3)] comparator_on [OF nat_diff.comparator_axioms],
        of "\<lambda>r :: FlowPrefix. BitLen (p_addr (fx_Prefix r))" "\<lambda>r. addr_raw (p_addr (fx_Prefix r))" "\<lambda>r. p_bits (fx_Prefix r)"] by simp
qed

lemma addr_key_inj: "BitLen a = BitLen b \<Longrightarrow> addr_raw a = addr_raw b \<Longrightarrow> a = b"
  by (cases a; cases b) simp_all

lemma prefix_key_inj:
  "((BitLen (p_addr p), addr_raw (p_addr p)), p_bits p) = ((BitLen (p_addr q), addr_raw (p_addr q)), p_bits q) \<Longrightarrow> (p :: prefix) = q"
  using addr_key_inj [of "p_addr p" "p_addr q"] by simp

text \<open>Prefixes of one length that hold the same address are the same.\<close>

lemma contains_masked: "prefix_Masked p = p \<Longrightarrow> prefix_Contains p x \<Longrightarrow> p_addr p = mask_addr (p_bits p) x"
proof -
  assume m: "prefix_Masked p = p" and c: "prefix_Contains p x"
  have "mask_addr (p_bits p) (p_addr p) = p_addr p" using arg_cong [OF m, of p_addr] by simp
  then show ?thesis using c by (auto simp: prefix_Contains_def split: addr.splits)
qed

lemma contains_same_bits:
  assumes "prefix_Masked p = p" and "prefix_Masked q = q" and "prefix_Contains p x" and "prefix_Contains q x" and "p_bits p = p_bits q" shows "(p :: prefix) = q"
proof -
  have "p_addr p = p_addr q" using contains_masked [OF assms(1,3)] contains_masked [OF assms(2,4)] assms(5) by metis
  then show ?thesis using assms(5) by (cases p; cases q) simp
qed

lemma no_prefix_empty [simp]: "\<not> prefix_Contains no_prefix x" "prefix_Masked no_prefix = no_prefix"
  by (simp_all add: no_prefix_def prefix_Contains_def prefix_Masked_def)

text \<open>The row that decides about an address: the longest prefix that holds it.\<close>

definition decides :: "FlowPrefix set \<Rightarrow> addr \<Rightarrow> FlowPrefix \<Rightarrow> bool" where
  "decides rows x r \<longleftrightarrow> r \<in> rows \<and> prefix_Contains (fx_Prefix r) x \<and> (\<forall>s \<in> rows. prefix_Contains (fx_Prefix s) x \<longrightarrow> p_bits (fx_Prefix s) \<le> p_bits (fx_Prefix r))"

definition rows_masked :: "FlowPrefix set \<Rightarrow> bool" where
  "rows_masked rows \<longleftrightarrow> inj_on fx_Prefix rows \<and> (\<forall>r \<in> rows. prefix_Masked (fx_Prefix r) = fx_Prefix r)"

lemma decides_unique: "rows_masked rows \<Longrightarrow> decides rows x r \<Longrightarrow> decides rows x s \<Longrightarrow> r = s"
proof -
  assume m: "rows_masked rows" and d: "decides rows x r" "decides rows x s"
  have i: "r \<in> rows" "prefix_Contains (fx_Prefix r) x" "s \<in> rows" "prefix_Contains (fx_Prefix s) x" using d by (simp_all add: decides_def)
  have "p_bits (fx_Prefix s) \<le> p_bits (fx_Prefix r)" "p_bits (fx_Prefix r) \<le> p_bits (fx_Prefix s)" using d i unfolding decides_def by blast+
  then have b: "p_bits (fx_Prefix r) = p_bits (fx_Prefix s)" by simp
  have "prefix_Masked (fx_Prefix r) = fx_Prefix r" "prefix_Masked (fx_Prefix s) = fx_Prefix s" using m i(1,3) by (simp_all add: rows_masked_def)
  then have "fx_Prefix r = fx_Prefix s" using i(2,4) b by (rule contains_same_bits)
  then show ?thesis using m i(1,3) by (simp add: rows_masked_def inj_on_def)
qed

lemma find_first: "sorted_wrt R xs \<Longrightarrow> List.find P xs = Some r \<Longrightarrow> r \<in> set xs \<and> P r \<and> (\<forall>s \<in> set xs. P s \<longrightarrow> s = r \<or> R r s)"
  by (induction xs) (auto split: if_splits)

lemma find_decides: "List.find (\<lambda>r. prefix_Contains (fx_Prefix r) x) (sort_cmp byBitsDown l) = Some r \<Longrightarrow> decides (set l) x r"
proof -
  assume f: "List.find (\<lambda>r. prefix_Contains (fx_Prefix r) x) (sort_cmp byBitsDown l) = Some r"
  show ?thesis using find_first [OF net_order.sorted_sort_cmp f] unfolding decides_def by (auto simp: byBitsDown_def)
qed

lemma find_none_iff: "List.find (\<lambda>r. prefix_Contains (fx_Prefix r) x) l = None \<longleftrightarrow> (\<forall>r \<in> set l. \<not> prefix_Contains (fx_Prefix r) x)"
  by (auto simp: find_None_iff)

lemma find_nets_same:
  assumes "set l = set l'" and "rows_masked (set l)"
  shows "List.find (\<lambda>r. prefix_Contains (fx_Prefix r) x) (sort_cmp byBitsDown l) = List.find (\<lambda>r. prefix_Contains (fx_Prefix r) x) (sort_cmp byBitsDown l')"
proof (cases "List.find (\<lambda>r. prefix_Contains (fx_Prefix r) x) (sort_cmp byBitsDown l)")
  case None
  then show ?thesis using assms(1) by (metis find_none_iff set_sort_cmp)
next
  case (Some r)
  then obtain s where s: "List.find (\<lambda>r. prefix_Contains (fx_Prefix r) x) (sort_cmp byBitsDown l') = Some s"
    using assms(1) by (metis find_none_iff not_None_eq set_sort_cmp)
  have "decides (set l) x r" "decides (set l) x s" using find_decides [OF Some] find_decides [OF s] assms(1) by auto
  then show ?thesis using Some s decides_unique [OF assms(2)] by simp
qed

subsection \<open>The network rows\<close>

definition plan_addr_ok :: "planAddr \<Rightarrow> bool" where
  "plan_addr_ok a \<longleftrightarrow> addr_wf (pa_host a) \<and> IsValid (pa_host a) \<and> Unmap (pa_host a) = pa_host a
     \<and> (pa_prefix a = no_prefix \<or> prefix_ok (pa_prefix a) \<and> prefix_Contains (pa_prefix a) (pa_host a))"

lemma plan_addr_masked: "plan_addr_ok a \<Longrightarrow> prefix_Masked (pa_prefix a) = pa_prefix a"
  by (auto simp: plan_addr_ok_def prefix_ok_def)

lemma merge_keyed: "keyed fx_Prefix m \<Longrightarrow> keyed fx_Prefix (plan_merge ext r m)"
  by (simp add: plan_merge_def keyed_put split: option.split)

lemma merge_keys: "fst ` set (plan_merge ext r m) = insert (fx_Prefix r) (fst ` set m)"
proof (cases "gm_get m (fx_Prefix r)")
  case (Some c)
  then have "fx_Prefix r \<in> fst ` set m" using gm_get_in_set [OF Some] by force
  then show ?thesis using Some by (simp add: plan_merge_def keys_put insert_absorb)
qed (simp add: plan_merge_def keys_put)

lemma merge_get:
  "gm_get (plan_merge ext r m) p = (if p = fx_Prefix r then (case gm_get m p of None \<Rightarrow> Some r
     | Some c \<Rightarrow> if plan_rank ext r > plan_rank ext c then Some r else Some c) else gm_get m p)"
  by (simp add: plan_merge_def split: option.split)

lemma merges_keyed: "keyed fx_Prefix m \<Longrightarrow> keyed fx_Prefix (fold (\<lambda>a. plan_merge ext (f a)) l m)"
  by (induction l arbitrary: m) (simp_all add: merge_keyed)

lemma merges_keys: "fst ` set (fold (\<lambda>a. plan_merge ext (f a)) l m) = (\<lambda>a. fx_Prefix (f a)) ` set l \<union> fst ` set m"
  by (induction l arbitrary: m) (auto simp: merge_keys)

text \<open>The best row of a prefix is one of the merged ones and none of them outranks it.\<close>

lemma merges_best:
  "gm_get (fold (\<lambda>a. plan_merge ext (f a)) l m) p = Some r \<Longrightarrow>
   (gm_get m p = Some r \<or> (\<exists>a \<in> set l. r = f a \<and> fx_Prefix r = p)) \<and> (\<forall>a \<in> set l. fx_Prefix (f a) = p \<longrightarrow> plan_rank ext (f a) \<le> plan_rank ext r)
   \<and> (\<forall>c. gm_get m p = Some c \<longrightarrow> plan_rank ext c \<le> plan_rank ext r)"
proof (induction l arbitrary: m)
  case (Cons a l)
  let ?m = "plan_merge ext (f a) m"
  have g: "gm_get (fold (\<lambda>a. plan_merge ext (f a)) l ?m) p = Some r" using Cons.prems by simp
  note IH = Cons.IH [OF g]
  show ?case
  proof (cases "p = fx_Prefix (f a)")
    case True
    then obtain c where c: "gm_get ?m p = Some c" "plan_rank ext (f a) \<le> plan_rank ext c" "c = f a \<or> gm_get m p = Some c"
      "\<And>d. gm_get m p = Some d \<Longrightarrow> plan_rank ext d \<le> plan_rank ext c"
      by (cases "gm_get m p"; cases "plan_rank ext (the (gm_get m p)) < plan_rank ext (f a)") (auto simp: merge_get)
    then show ?thesis using IH True by fastforce
  next
    case False
    then have "gm_get ?m p = gm_get m p" by (simp add: merge_get)
    then show ?thesis using IH False by auto
  qed
qed simp

subsection \<open>Adding the host rows\<close>

lemma host_keyed: "keyed fx_Prefix m \<Longrightarrow> keyed fx_Prefix (host_step ext now nets a m)"
  by (simp add: host_step_def Let_def merge_keyed split: option.split)

lemma hosts_keyed: "keyed fx_Prefix m \<Longrightarrow> keyed fx_Prefix (fold (host_step ext now nets) l m)"
  by (induction l arbitrary: m) (simp_all add: host_keyed)

lemma host_get:
  "gm_get (host_step ext now nets a m) p = (case gm_get m p of Some r \<Rightarrow> Some r
     | None \<Rightarrow> if p = host_prefix (pa_host a) then map_option (\<lambda>r. plan_row now p (fx_Class r) a) (List.find (\<lambda>r. prefix_Contains (fx_Prefix r) (pa_host a)) nets) else None)"
  by (auto simp: host_step_def Let_def merge_get plan_row_def gm_has_def split: option.split)

text \<open>A row is either a network row or the host row of a reported address with the class that decides about it.\<close>

lemma hosts_get:
  "gm_get (fold (host_step ext now nets) l m) p = Some r \<Longrightarrow> gm_get m p = Some r \<or>
    (gm_get m p = None \<and> (\<exists>a \<in> set l. \<exists>n. p = host_prefix (pa_host a) \<and> List.find (\<lambda>r. prefix_Contains (fx_Prefix r) (pa_host a)) nets = Some n \<and> r = plan_row now p (fx_Class n) a))"
proof (induction l arbitrary: m)
  case (Cons a l)
  have g: "gm_get (fold (host_step ext now nets) l (host_step ext now nets a m)) p = Some r" using Cons.prems by simp
  show ?case
  proof (cases "gm_get (host_step ext now nets a m) p = Some r")
    case True
    then show ?thesis by (auto simp: host_get split: option.splits if_splits)
  next
    case False
    then show ?thesis using Cons.IH [OF g] by (auto simp: host_get split: option.splits if_splits)
  qed
qed simp

lemma hosts_keep: "gm_get m p = Some r \<Longrightarrow> gm_get (fold (host_step ext now nets) l m) p = Some r"
  by (induction l arbitrary: m) (simp_all add: host_get)

lemma hosts_cover:
  "a \<in> set l \<Longrightarrow> List.find (\<lambda>r. prefix_Contains (fx_Prefix r) (pa_host a)) nets \<noteq> None \<Longrightarrow> gm_has (fold (host_step ext now nets) l m) (host_prefix (pa_host a))"
proof (induction l arbitrary: m)
  case (Cons b l)
  show ?case
  proof (cases "a = b")
    case True
    then have "gm_get (host_step ext now nets b m) (host_prefix (pa_host a)) \<noteq> None" using Cons.prems(2) by (auto simp: host_get split: option.split)
    then show ?thesis using hosts_keep by (fastforce simp: gm_has_def)
  qed (use Cons in simp)
qed simp

lemma hosts_same:
  "(\<And>a. a \<in> set l \<Longrightarrow> List.find (\<lambda>r. prefix_Contains (fx_Prefix r) (pa_host a)) nets = List.find (\<lambda>r. prefix_Contains (fx_Prefix r) (pa_host a)) nets')
   \<Longrightarrow> fold (host_step ext now nets) l m = fold (host_step ext now nets') l m"
  by (induction l arbitrary: m) (simp_all add: host_step_def Let_def)

lemma mask_byte_full: "8 * (i + 1) \<le> n \<Longrightarrow> mask_byte n i x = x"
  by (simp add: mask_byte_def)

lemma mask_bytes_full: "8 * length b \<le> n \<Longrightarrow> mask_bytes n b = b"
  unfolding mask_bytes_def by (rule nth_equalityI) (simp_all add: nth_enumerate_eq mask_byte_full)

lemma host_masked: "addr_wf h \<Longrightarrow> prefix_Masked (host_prefix h) = host_prefix h"
  by (cases h) (simp_all add: prefix_Masked_def host_prefix_def mask_bytes_full)

lemma host_contains: "addr_wf h \<Longrightarrow> addr_wf x \<Longrightarrow> prefix_Contains (host_prefix h) x \<longleftrightarrow> x = h \<and> IsValid h"
  by (cases h; cases x) (auto simp: prefix_Contains_def host_prefix_def mask_bytes_full)

lemma contains_bits: "prefix_Contains p x \<Longrightarrow> BitLen (p_addr p) = BitLen x"
  by (auto simp: prefix_Contains_def split: addr.splits)

subsection \<open>Longest-prefix lookup\<close>

definition plan_lookup :: "FlowPrefix list \<Rightarrow> addr \<Rightarrow> FlowPrefix option" where
  "plan_lookup rows x = List.find (\<lambda>r. prefix_Contains (fx_Prefix r) x) (sort_cmp byBitsDown rows)"

lemma lookup_iff: "rows_masked (set l) \<Longrightarrow> plan_lookup l x = Some r \<longleftrightarrow> decides (set l) x r"
proof
  assume m: "rows_masked (set l)" and d: "decides (set l) x r"
  then obtain s where "plan_lookup l x = Some s" unfolding plan_lookup_def decides_def by (metis find_none_iff not_None_eq set_sort_cmp)
  then show "plan_lookup l x = Some r" using decides_unique [OF m d] find_decides [of x l s] by (simp add: plan_lookup_def)
qed (simp add: plan_lookup_def find_decides)

lemma keyed_rows: assumes "keyed f m" shows "v \<in> snd ` set m \<longleftrightarrow> gm_get m (f v) = Some v"
proof
  assume "v \<in> snd ` set m"
  then obtain k where k: "(k, v) \<in> set m" by auto
  then have "f v = k" using assms by (simp add: keyed_def)
  then show "gm_get m (f v) = Some v" using k assms gm_get_iff_in_set [of m k v] by (simp add: keyed_def)
next
  assume "gm_get m (f v) = Some v"
  from gm_get_in_set [OF this] show "v \<in> snd ` set m" by force
qed

lemma keyed_inj: assumes "keyed f m" shows "inj_on f (snd ` set m)"
proof (rule inj_onI)
  fix x y assume "x \<in> snd ` set m" "y \<in> snd ` set m" "f x = f y"
  then show "x = y" using keyed_rows [OF assms, of x] keyed_rows [OF assms, of y] by simp
qed

lemma nets_keyed: "keyed fx_Prefix (plan_nets addrs da ups ext now)"
  unfolding plan_nets_def by (rule merges_keyed) (simp add: keyed_def)

lemma net_row:
  assumes "gm_get (plan_nets addrs da ups ext now) p = Some r"
  shows "\<exists>a \<in> set addrs. r = plan_row now (pa_prefix a) (addr_class addrs da ups a) a \<and> pa_prefix a = p"
    and "a \<in> set addrs \<Longrightarrow> pa_prefix a = p \<Longrightarrow> plan_rank ext (plan_row now p (addr_class addrs da ups a) a) \<le> plan_rank ext r"
  using merges_best [OF assms [unfolded plan_nets_def]] by (auto simp: plan_row_def)

lemma nets_masked:
  assumes "list_all plan_addr_ok addrs" shows "rows_masked (snd ` set (plan_nets addrs da ups ext now))"
proof -
  have "prefix_Masked (fx_Prefix r) = fx_Prefix r" if "r \<in> snd ` set (plan_nets addrs da ups ext now)" for r
  proof -
    have "gm_get (plan_nets addrs da ups ext now) (fx_Prefix r) = Some r" using that keyed_rows [OF nets_keyed] by metis
    from net_row(1) [OF this] obtain a where "a \<in> set addrs" "fx_Prefix r = pa_prefix a" by (auto simp: plan_row_def)
    then show ?thesis using assms plan_addr_masked [of a] by (simp add: list_all_iff)
  qed
  then show ?thesis using keyed_inj [OF nets_keyed] by (simp add: rows_masked_def)
qed

text \<open>All rows before they are sorted, the networks in any order.\<close>

definition plan_rows :: "FlowPrefix list \<Rightarrow> planAddr list \<Rightarrow> (string, addr) gomap \<Rightarrow> DeviceUplink list \<Rightarrow> prefix list \<Rightarrow> time \<Rightarrow> (prefix, FlowPrefix) gomap" where
  "plan_rows nets addrs da ups ext now = fold (host_step ext now (sort_cmp byBitsDown nets)) addrs (plan_nets addrs da ups ext now)"

lemma plan_rows_keyed: "keyed fx_Prefix (plan_rows nets addrs da ups ext now)"
  unfolding plan_rows_def by (rule hosts_keyed) (rule nets_keyed)

lemma buildPlan_rows:
  assumes "\<And>l :: FlowPrefix list. mset (shuf l) = mset l" and "list_all plan_addr_ok addrs"
  shows "buildPlan shuf addrs da ups ext now = sort_cmp comparePrefixes (map snd (plan_rows (map snd (plan_nets addrs da ups ext now)) addrs da ups ext now))"
proof -
  let ?N = "plan_nets addrs da ups ext now"
  have s: "set (shuf l) = set l" for l using assms(1) by (metis mset_eq_setD)
  have "plan_rows (shuf (map snd ?N)) addrs da ups ext now = plan_rows (map snd ?N) addrs da ups ext now"
    unfolding plan_rows_def by (intro hosts_same find_nets_same) (simp_all add: s nets_masked [OF assms(2)])
  moreover have "sort_cmp comparePrefixes (shuf l) = sort_cmp comparePrefixes l" if "inj_on fx_Prefix (set l)" for l
    using that assms(1) [of l] prefix_key_inj by (intro plan_order.sort_cmp_perm) (auto simp: inj_on_def s)
  ultimately show ?thesis using keyed_inj [OF plan_rows_keyed] by (simp add: buildPlan_def Let_def plan_rows_def)
qed

lemma plan_row_cases:
  assumes "list_all plan_addr_ok addrs" and "r \<in> snd ` set (plan_rows (map snd (plan_nets addrs da ups ext now)) addrs da ups ext now)"
  shows "r \<in> snd ` set (plan_nets addrs da ups ext now) \<or>
    (\<exists>a \<in> set addrs. \<exists>n. fx_Prefix r = host_prefix (pa_host a) \<and> decides (snd ` set (plan_nets addrs da ups ext now)) (pa_host a) n \<and> fx_Class r = fx_Class n)"
proof -
  have "gm_get (plan_rows (map snd (plan_nets addrs da ups ext now)) addrs da ups ext now) (fx_Prefix r) = Some r"
    using assms(2) keyed_rows [OF plan_rows_keyed] by metis
  from hosts_get [OF this [unfolded plan_rows_def]] show ?thesis
    using keyed_rows [OF nets_keyed, of r addrs da ups ext now] find_decides [of _ "map snd (plan_nets addrs da ups ext now)"]
    by (fastforce simp: plan_row_def)
qed

lemma plan_rows_nets: "snd ` set (plan_nets addrs da ups ext now) \<subseteq> snd ` set (plan_rows nets addrs da ups ext now)"
proof
  fix r assume "r \<in> snd ` set (plan_nets addrs da ups ext now)"
  then have "gm_get (plan_nets addrs da ups ext now) (fx_Prefix r) = Some r" using keyed_rows [OF nets_keyed] by metis
  then have "gm_get (plan_rows nets addrs da ups ext now) (fx_Prefix r) = Some r" unfolding plan_rows_def by (rule hosts_keep)
  then show "r \<in> snd ` set (plan_rows nets addrs da ups ext now)" using keyed_rows [OF plan_rows_keyed] by metis
qed

lemma plan_rows_masked:
  assumes "list_all plan_addr_ok addrs"
  shows "rows_masked (snd ` set (plan_rows (map snd (plan_nets addrs da ups ext now)) addrs da ups ext now))"
proof -
  have "prefix_Masked (fx_Prefix r) = fx_Prefix r" if "r \<in> snd ` set (plan_rows (map snd (plan_nets addrs da ups ext now)) addrs da ups ext now)" for r
    using plan_row_cases [OF assms that] nets_masked [OF assms, of da ups ext now] host_masked assms
    by (auto simp: rows_masked_def plan_addr_ok_def list_all_iff)
  then show ?thesis using keyed_inj [OF plan_rows_keyed] by (simp add: rows_masked_def)
qed

lemma net_bits: "list_all plan_addr_ok addrs \<Longrightarrow> r \<in> snd ` set (plan_nets addrs da ups ext now) \<Longrightarrow> prefix_Contains (fx_Prefix r) x \<Longrightarrow> p_bits (fx_Prefix r) \<le> BitLen x"
proof -
  assume ok: "list_all plan_addr_ok addrs" and r: "r \<in> snd ` set (plan_nets addrs da ups ext now)" and c: "prefix_Contains (fx_Prefix r) x"
  have "gm_get (plan_nets addrs da ups ext now) (fx_Prefix r) = Some r" using r keyed_rows [OF nets_keyed] by metis
  from net_row(1) [OF this] obtain a where a: "a \<in> set addrs" "fx_Prefix r = pa_prefix a" by (auto simp: plan_row_def)
  then have "pa_prefix a = no_prefix \<or> prefix_ok (pa_prefix a)" using ok by (auto simp: list_all_iff plan_addr_ok_def)
  then show ?thesis using a(2) c contains_bits [OF c] by (auto simp: prefix_ok_def)
qed

lemma decides_rows:
  assumes ok: "list_all plan_addr_ok addrs" and x: "addr_wf x"
    and N: "N = snd ` set (plan_nets addrs da ups ext now)" and R: "R = snd ` set (plan_rows (map snd (plan_nets addrs da ups ext now)) addrs da ups ext now)"
  shows "decides N x n \<Longrightarrow> \<exists>r. decides R x r \<and> fx_Class r = fx_Class n" and "decides R x r \<Longrightarrow> \<exists>n. decides N x n"
proof -
  have host: "\<exists>n. decides N x n \<and> fx_Class s = fx_Class n \<and> p_bits (fx_Prefix s) = BitLen x" if s: "s \<in> R" "s \<notin> N" "prefix_Contains (fx_Prefix s) x" for s
  proof -
    obtain a n where a: "a \<in> set addrs" "fx_Prefix s = host_prefix (pa_host a)" "decides N (pa_host a) n" "fx_Class s = fx_Class n"
      using plan_row_cases [OF ok] s(1,2) unfolding N R by blast
    moreover have "addr_wf (pa_host a)" using ok a(1) by (simp add: list_all_iff plan_addr_ok_def)
    ultimately show ?thesis using s(3) x host_contains [of "pa_host a" x] by (auto simp: host_prefix_def)
  qed
  have bits: "p_bits (fx_Prefix s) \<le> BitLen x" if "s \<in> R" "prefix_Contains (fx_Prefix s) x" for s
    using net_bits [OF ok _ that(2)] host [OF that(1) _ that(2)] unfolding N by (cases "s \<in> N") (auto simp: N)
  have sub: "N \<subseteq> R" unfolding N R by (rule plan_rows_nets)
  have mN: "rows_masked N" unfolding N by (rule nets_masked [OF ok])
  show "\<exists>r. decides R x r \<and> fx_Class r = fx_Class n" if n: "decides N x n"
  proof (cases "\<exists>s \<in> R. s \<notin> N \<and> prefix_Contains (fx_Prefix s) x")
    case True
    then obtain s where s: "s \<in> R" "s \<notin> N" "prefix_Contains (fx_Prefix s) x" by blast
    then obtain n' where "decides N x n'" "fx_Class s = fx_Class n'" "p_bits (fx_Prefix s) = BitLen x" using host by blast
    then show ?thesis using s bits decides_unique [OF mN n] unfolding decides_def by metis
  next
    case False
    then show ?thesis using n sub unfolding decides_def by blast
  qed
  show "\<exists>n. decides N x n" if r: "decides R x r"
  proof (cases "r \<in> N")
    case True
    then show ?thesis using r sub unfolding decides_def by blast
  next
    case False
    then show ?thesis using r host unfolding decides_def [of R] by blast
  qed
qed

subsection \<open>The documented classes\<close>

text \<open>
  What the comment of \<open>buildPlan\<close> promises, as properties of the reported addresses and uplinks. A prefix is shared when
  another device reported an address in it or has its management address there.
\<close>

definition on_iface :: "DeviceUplink \<Rightarrow> planAddr \<Rightarrow> bool" where
  "on_iface u a \<longleftrightarrow> pa_deviceID a = du_DeviceID u \<and> pa_iface a = du_Interface u"

definition prefix_shared :: "planAddr list \<Rightarrow> (string, addr) gomap \<Rightarrow> planAddr \<Rightarrow> bool" where
  "prefix_shared addrs da a \<longleftrightarrow>
    (\<exists>b \<in> set addrs. pa_deviceID b \<noteq> pa_deviceID a \<and> prefix_Contains (pa_prefix a) (pa_host b))
    \<or> (\<exists>d x. (d, x) \<in> set da \<and> d \<noteq> pa_deviceID a \<and> prefix_Contains (pa_prefix a) x)"

definition gateway :: "DeviceUplink \<Rightarrow> addr option" where
  "gateway u = map_option (\<lambda>(g, _). Unmap g) (ParseAddr (takeWhile (\<lambda>c. c \<noteq> CHR ''%'') (TrimSpace (du_GatewayIP u))))"

definition lan_route :: "planAddr list \<Rightarrow> (string, addr) gomap \<Rightarrow> DeviceUplink \<Rightarrow> bool" where
  "lan_route addrs da u \<longleftrightarrow>
    (\<exists>gw. gateway u = Some gw \<and> (\<exists>b \<in> set addrs. on_iface u b \<and> prefix_Contains (pa_prefix b) gw \<and> prefix_shared addrs da b))"

definition is_vpn :: "DeviceUplink list \<Rightarrow> planAddr \<Rightarrow> bool" where
  "is_vpn ups a \<longleftrightarrow> IsVPNIfaceType (pa_ifType a) \<or> (\<exists>u \<in> set ups. on_iface u a \<and> du_Kind u = ''vpn'')"

definition is_transit :: "planAddr list \<Rightarrow> (string, addr) gomap \<Rightarrow> DeviceUplink list \<Rightarrow> planAddr \<Rightarrow> bool" where
  "is_transit addrs da ups a \<longleftrightarrow> \<not> is_vpn ups a
    \<and> (\<exists>u \<in> set ups. on_iface u a \<and> du_Kind u = ''default-route'' \<and> \<not> IsVPNIfaceType (du_IfaceType u))
    \<and> (\<forall>u \<in> set ups. on_iface u a \<longrightarrow> \<not> lan_route addrs da u)
    \<and> \<not> prefix_shared addrs da a"

definition documented_class :: "planAddr list \<Rightarrow> (string, addr) gomap \<Rightarrow> DeviceUplink list \<Rightarrow> planAddr \<Rightarrow> string" where
  "documented_class addrs da ups a =
    (if is_vpn ups a then ''vpn'' else if is_transit addrs da ups a then ''transit'' else ''internal'')"

text \<open>Internal over vpn over transit; inside a configured external prefix internal comes last.\<close>

definition documented_rank :: "prefix list \<Rightarrow> prefix \<Rightarrow> string \<Rightarrow> nat" where
  "documented_rank external p c =
    (if c = ''internal'' then (if \<exists>e \<in> set external. p_bits e \<le> p_bits p \<and> prefix_Contains e (p_addr p) then 0 else 3)
     else if c = ''vpn'' then 2 else 1)"

text \<open>The class of a prefix: of all addresses reported with it the one that ranks first.\<close>

definition documented :: "planAddr list \<Rightarrow> (string, addr) gomap \<Rightarrow> DeviceUplink list \<Rightarrow> prefix list \<Rightarrow> prefix \<Rightarrow> string \<Rightarrow> bool" where
  "documented addrs da ups external p c \<longleftrightarrow>
    (\<exists>b \<in> set addrs. pa_prefix b = p \<and> documented_class addrs da ups b = c)
    \<and> (\<forall>b \<in> set addrs. pa_prefix b = p \<longrightarrow> documented_rank external p (documented_class addrs da ups b) \<le> documented_rank external p c)"

lemma shared_addr_iff: "shared_addr addrs da a \<longleftrightarrow> prefix_shared addrs da a"
proof -
  have "IsValid x" if "prefix_Contains p x" for p x using that by (cases x) (auto simp: prefix_Contains_def split: addr.splits)
  then show ?thesis unfolding shared_addr_def prefix_shared_def list_ex_iff by fastforce
qed

lemma lan_client_iff: "lan_client addrs da u \<longleftrightarrow> lan_route addrs da u"
  by (auto simp: lan_client_def lan_route_def gateway_def on_iface_def shared_addr_iff list_ex_iff split: option.splits)

lemma wan_keys_iff:
  "k \<in> set (wan_keys addrs da ups) \<longleftrightarrow>
    (\<exists>u \<in> set ups. up_key u = k \<and> du_Kind u = ''default-route'' \<and> \<not> IsVPNIfaceType (du_IfaceType u))
    \<and> (\<forall>u \<in> set ups. up_key u = k \<longrightarrow> \<not> lan_route addrs da u)"
proof -
  have "k \<in> set (fold (\<lambda>u wan. if up_key u \<in> set wan \<and> lan_client addrs da u then removeAll (up_key u) wan else wan) us wan)
     \<longleftrightarrow> k \<in> set wan \<and> (\<forall>u \<in> set us. up_key u = k \<longrightarrow> \<not> lan_route addrs da u)" for us wan
    by (induction us arbitrary: wan) (auto simp: lan_client_iff)
  then show ?thesis by (auto simp: wan_keys_def wan_up_def)
qed

lemma addr_class_documented: "addr_class addrs da ups a = documented_class addrs da ups a"
proof -
  have k: "up_key u = (pa_deviceID a, pa_iface a) \<longleftrightarrow> on_iface u a" for u by (auto simp: up_key_def on_iface_def)
  have "(pa_deviceID a, pa_iface a) \<in> set (vpn_keys ups) \<longleftrightarrow> (\<exists>u \<in> set ups. on_iface u a \<and> du_Kind u = ''vpn'')"
    unfolding k [symmetric] by (force simp: vpn_keys_def)
  then show ?thesis
    by (simp add: addr_class_def documented_class_def is_vpn_def is_transit_def wan_keys_iff k shared_addr_iff) blast
qed

lemma plan_rank_documented:
  "fx_Class r \<in> {''internal'', ''vpn'', ''transit''} \<Longrightarrow> plan_rank external r = documented_rank external (fx_Prefix r) (fx_Class r)"
  by (auto simp: plan_rank_def documented_rank_def planClassRank_def insideExternal_def list_ex_iff)

lemma documented_classes: "documented_class addrs da ups a \<in> {''internal'', ''vpn'', ''transit''}"
  by (simp add: documented_class_def)

text \<open>Ranks are distinct, so a prefix has only one class.\<close>

lemma documented_rank_inj:
  "c \<in> {''internal'', ''vpn'', ''transit''} \<Longrightarrow> c' \<in> {''internal'', ''vpn'', ''transit''} \<Longrightarrow> documented_rank external p c = documented_rank external p c' \<Longrightarrow> c = c'"
  by (auto simp: documented_rank_def split: if_splits)

lemma documented_unique:
  assumes "documented addrs da ups external p c" and "documented addrs da ups external p c'" shows "c = c'"
proof (rule documented_rank_inj [of _ _ external p])
  show "c \<in> {''internal'', ''vpn'', ''transit''}" "c' \<in> {''internal'', ''vpn'', ''transit''}"
    using assms documented_classes unfolding documented_def by metis+
  show "documented_rank external p c = documented_rank external p c'"
    using assms unfolding documented_def by (metis le_antisym)
qed

lemma net_documented:
  assumes "n \<in> snd ` set (plan_nets addrs da ups ext now)"
  shows "documented addrs da ups ext (fx_Prefix n) (fx_Class n)"
proof -
  let ?p = "fx_Prefix n" and ?c = "documented_class addrs da ups"
  have g: "gm_get (plan_nets addrs da ups ext now) ?p = Some n" using assms keyed_rows [OF nets_keyed] by metis
  obtain a where a: "a \<in> set addrs" "n = plan_row now (pa_prefix a) (addr_class addrs da ups a) a" "pa_prefix a = ?p" using net_row(1) [OF g] by blast
  have c: "fx_Class n = ?c a" using arg_cong [OF a(2), of fx_Class] by (simp add: plan_row_def addr_class_documented)
  have rk: "plan_rank ext n = documented_rank ext ?p (fx_Class n)" unfolding c using documented_classes [of addrs da ups a] c
    by (metis plan_rank_documented)
  have "documented_rank ext ?p (?c b) \<le> documented_rank ext ?p (fx_Class n)" if b: "b \<in> set addrs" "pa_prefix b = ?p" for b
  proof -
    let ?r = "plan_row now ?p (?c b) b"
    have f: "fx_Class ?r = ?c b" "fx_Prefix ?r = ?p" by (simp_all add: plan_row_def)
    have "plan_rank ext ?r = documented_rank ext ?p (?c b)" using plan_rank_documented [of ?r ext] documented_classes [of addrs da ups b] unfolding f by blast
    then show ?thesis using net_row(2) [OF g b] unfolding addr_class_documented rk by simp
  qed
  then show ?thesis unfolding documented_def using a(1,3) c by metis
qed

lemma nets_reported: "fx_Prefix ` (snd ` set (plan_nets addrs da ups ext now)) = pa_prefix ` set addrs"
proof -
  have "fst ` set (plan_nets addrs da ups ext now) = fx_Prefix ` (snd ` set (plan_nets addrs da ups ext now))"
    using nets_keyed [of addrs da ups ext now] unfolding keyed_def by force
  then show ?thesis using merges_keys [of ext "\<lambda>a. plan_row now (pa_prefix a) (addr_class addrs da ups a) a" addrs "[]"]
    by (simp add: plan_nets_def plan_row_def)
qed

text \<open>The longest reported prefixes that hold an address.\<close>

definition longest :: "planAddr list \<Rightarrow> addr \<Rightarrow> planAddr \<Rightarrow> bool" where
  "longest addrs x a \<longleftrightarrow> a \<in> set addrs \<and> prefix_Contains (pa_prefix a) x
    \<and> (\<forall>b \<in> set addrs. prefix_Contains (pa_prefix b) x \<longrightarrow> p_bits (pa_prefix b) \<le> p_bits (pa_prefix a))"

lemma decides_documented:
  assumes ok: "list_all plan_addr_ok addrs" and x: "addr_wf x"
    and r: "decides (snd ` set (plan_rows (map snd (plan_nets addrs da ups ext now)) addrs da ups ext now)) x r"
  shows "\<exists>a. longest addrs x a \<and> documented addrs da ups ext (pa_prefix a) (fx_Class r)"
proof -
  let ?N = "snd ` set (plan_nets addrs da ups ext now)"
  obtain n where n: "decides ?N x n" using decides_rows(2) [OF ok x refl refl r] by blast
  then have c: "fx_Class r = fx_Class n"
    using decides_rows(1) [OF ok x refl refl n] decides_unique [OF plan_rows_masked [OF ok] r] by metis
  have nN: "n \<in> ?N" "prefix_Contains (fx_Prefix n) x" using n by (simp_all add: decides_def)
  have rep: "pa_prefix b \<in> fx_Prefix ` ?N" if "b \<in> set addrs" for b using that nets_reported [of addrs da ups ext now] by blast
  obtain a where a: "a \<in> set addrs" "pa_prefix a = fx_Prefix n" using nN(1) nets_reported [of addrs da ups ext now] by (metis imageE imageI)
  have "p_bits (pa_prefix b) \<le> p_bits (pa_prefix a)" if b: "b \<in> set addrs" "prefix_Contains (pa_prefix b) x" for b
  proof -
    obtain s where "s \<in> ?N" "fx_Prefix s = pa_prefix b" using rep [OF b(1)] by (metis imageE)
    then show ?thesis using n b(2) a(2) unfolding decides_def by metis
  qed
  then have "longest addrs x a" using a nN(2) by (simp add: longest_def)
  then show ?thesis using net_documented [OF nN(1)] a(2) c by metis
qed

lemma decides_some: "\<exists>r \<in> set rows. prefix_Contains (fx_Prefix r) x \<Longrightarrow> \<exists>r. decides (set rows) x r"
proof -
  assume "\<exists>r \<in> set rows. prefix_Contains (fx_Prefix r) x"
  then obtain r where "List.find (\<lambda>r. prefix_Contains (fx_Prefix r) x) (sort_cmp byBitsDown rows) = Some r"
    by (metis find_none_iff not_None_eq set_sort_cmp)
  then show ?thesis using find_decides by blast
qed

lemma reported_net:
  assumes "a \<in> set addrs" shows "\<exists>n \<in> snd ` set (plan_nets addrs da ups ext now). fx_Prefix n = pa_prefix a"
proof -
  have "pa_prefix a \<in> fx_Prefix ` snd ` set (plan_nets addrs da ups ext now)" unfolding nets_reported using assms by simp
  then show ?thesis by force
qed

lemma reported_host:
  assumes ok: "list_all plan_addr_ok addrs" and a: "a \<in> set addrs" "pa_prefix a \<noteq> no_prefix"
  shows "\<exists>r \<in> snd ` set (plan_rows (map snd (plan_nets addrs da ups ext now)) addrs da ups ext now). fx_Prefix r = host_prefix (pa_host a)"
proof -
  let ?N = "plan_nets addrs da ups ext now"
  have c: "prefix_Contains (pa_prefix a) (pa_host a)" using a ok by (auto simp: list_all_iff plan_addr_ok_def)
  obtain n where "n \<in> set (map snd ?N)" "fx_Prefix n = pa_prefix a" using reported_net [OF a(1), of da ups ext now] by auto
  then have "List.find (\<lambda>r. prefix_Contains (fx_Prefix r) (pa_host a)) (sort_cmp byBitsDown (map snd ?N)) \<noteq> None" using c by (metis find_none_iff set_sort_cmp)
  then have "gm_has (plan_rows (map snd ?N) addrs da ups ext now) (host_prefix (pa_host a))" unfolding plan_rows_def by (rule hosts_cover [OF a(1)])
  then obtain r where r: "gm_get (plan_rows (map snd ?N) addrs da ups ext now) (host_prefix (pa_host a)) = Some r" by (auto simp: gm_has_def)
  then show ?thesis using keyed_get [OF plan_rows_keyed r] gm_get_in_set [OF r] by force
qed


definition demo_plan_addr :: "string \<Rightarrow> bytes \<Rightarrow> string \<Rightarrow> planAddr" where
  "demo_plan_addr dev b ty = \<lparr>pa_host = Addr4 b, pa_prefix = \<lparr>p_addr = Addr4 (take 3 b @ [0]), p_bits = 24\<rparr>, pa_deviceID = dev, pa_iface = ''bridge'', pa_ifType = ty\<rparr>"

text \<open>A bridge and a WireGuard interface of two routers in one network: the network is internal.\<close>

definition demo_plan_addrs :: "planAddr list" where
  "demo_plan_addrs = [demo_plan_addr ''d1'' [10,0,0,1] ''bridge'', demo_plan_addr ''d2'' [10,0,0,2] ''wg'']"

lemma demo_plan_ok: "list_all plan_addr_ok demo_plan_addrs"
  by (simp add: plan_addr_ok_def prefix_ok_def demo_plan_addrs_def demo_plan_addr_def no_prefix_def prefix_Contains_def prefix_Masked_def mask_bytes_def mask_byte_def numeral_2_eq_2 [symmetric])

lemma demo_plan_class: "documented demo_plan_addrs [] [] [] \<lparr>p_addr = Addr4 [10,0,0,0], p_bits = 24\<rparr> ''internal''"
proof -
  have "documented_class demo_plan_addrs [] [] (demo_plan_addr ''d1'' [10,0,0,1] ''bridge'') = ''internal''"
    by (simp add: documented_class_def is_vpn_def is_transit_def demo_plan_addr_def IsVPNIfaceType_def vpnIfaceTypes_def to_lower_def)
  moreover have "documented_rank [] p c \<le> documented_rank [] p ''internal''" for p c by (simp add: documented_rank_def)
  ultimately show ?thesis by (auto simp: documented_def demo_plan_addrs_def demo_plan_addr_def)
qed


subsection \<open>Reported addresses are well-formed\<close>

lemma masked_from_ok:
  "addr_wf a \<Longrightarrow> IsValid a \<Longrightarrow> Unmap a = a \<Longrightarrow> masked_from a n = no_prefix \<or> prefix_ok (masked_from a n) \<and> prefix_Contains (masked_from a n) a"
  by (auto simp: masked_from_def prefix_ok_masked Masked_contains nat_le_iff)

lemma planAddr_of_ok: "planAddr_of dev types ai = Some a \<Longrightarrow> plan_addr_ok a"
proof -
  assume s: "planAddr_of dev types ai = Some a"
  then obtain p where p: "ParsePrefix (fst ai) = Some p" by (cases "ParsePrefix (fst ai)") (simp_all add: planAddr_of_def)
  define h where "h = Unmap (p_addr p)"
  have w: "addr_wf h" "IsValid h" "Unmap h = h" using ParsePrefix_wf [OF p] by (auto simp: h_def Unmap_wf)
  define n where "n = int (p_bits p) - (int (BitLen (p_addr p)) - int (BitLen h))"
  have "pa_host a = h" "pa_prefix a = masked_from h n \<or> pa_prefix a = masked_from h 64"
    using s p by (auto simp: planAddr_of_def Let_def h_def n_def split: if_splits)
  then show ?thesis using w masked_from_ok [OF w, of n] masked_from_ok [OF w, of 64] by (auto simp: plan_addr_ok_def)
qed

lemma planAddrsOf_ok: "list_all plan_addr_ok (planAddrsOf dev l types)"
  using planAddr_of_ok [of dev types] by (auto simp: planAddrsOf_def List.map_filter_def list_all_iff)

subsection \<open>The stored plan\<close>

definition prefixes_ok :: "flow_db \<Rightarrow> bool" where
  "prefixes_ok db \<longleftrightarrow> keyed (\<lambda>r. prefix_String (fx_Prefix r)) (fd_prefixes db)
     \<and> gm_all (\<lambda>r. prefix_ok (fx_Prefix r) \<and> fromUnix (unixOf (fx_UpdatedAt r)) = fx_UpdatedAt r) (fd_prefixes db)"

lemma fromUnix_unixOf [simp]: "fromUnix (unixOf (fromUnix n)) = fromUnix n"
  by (auto simp: fromUnix_def unixOf_def is_zero_def)

lemma prefix_String_inj: assumes "prefix_ok p" and "prefix_ok q" and "prefix_String p = prefix_String q" shows "(p :: prefix) = q"
proof -
  have "Some p = Some q" using ParsePrefix_String [OF assms(1)] ParsePrefix_String [OF assms(2)] assms(3) by metis
  then show ?thesis by simp
qed

lemma list_prefixes: assumes "prefixes_ok db" shows "set (ListFlowPrefixes db) = snd ` set (fd_prefixes db)"
proof -
  let ?F = "\<lambda>(s, r). map_option (\<lambda>p. r\<lparr>fx_Prefix := prefix_Masked p\<rparr>) (ParsePrefix s)" and ?l = "sort_key (\<lambda>(s, _). str_key s) (fd_prefixes db)"
  have "?F kv = Some (snd kv)" if m: "kv \<in> set ?l" for kv
  proof -
    obtain s r where kv: "kv = (s, r)" by (cases kv)
    have m': "(s, r) \<in> set (fd_prefixes db)" using m by (simp add: kv)
    then have "r \<in> snd ` set (fd_prefixes db)" by (rule image_eqI [rotated]) simp
    then have ok: "prefix_ok (fx_Prefix r)" using assms unfolding prefixes_ok_def gm_all_def by blast
    have s: "prefix_String (fx_Prefix r) = s" using assms m' unfolding prefixes_ok_def keyed_def by blast
    have "ParsePrefix s = Some (fx_Prefix r)" using ParsePrefix_String [OF ok] by (simp only: s)
    moreover have "prefix_Masked (fx_Prefix r) = fx_Prefix r" using ok by (simp add: prefix_ok_def)
    ultimately show ?thesis by (simp add: kv)
  qed
  then have "List.map_filter ?F (map (\<lambda>x. x) ?l) = map snd ?l" by (rule map_filter_all)
  then have "ListFlowPrefixes db = map snd ?l" unfolding ListFlowPrefixes_def list.map_ident .
  then show ?thesis by simp
qed

definition stored_prefix :: "FlowPrefix \<Rightarrow> FlowPrefix" where
  "stored_prefix p = p\<lparr>fx_Prefix := prefix_Masked (fx_Prefix p), fx_UpdatedAt := fromUnix (unixOf (fx_UpdatedAt p))\<rparr>"

definition storable :: "FlowPrefix \<Rightarrow> bool" where
  "storable p \<longleftrightarrow> fx_Prefix p = no_prefix \<or> prefix_ok (fx_Prefix p)"

lemma storable_valid: "storable p \<Longrightarrow> prefix_IsValid (fx_Prefix p) \<longleftrightarrow> prefix_ok (fx_Prefix p)"
  by (auto simp: storable_def prefix_IsValid_def prefix_ok_def no_prefix_def)

lemma stored_prefix_simps [simp]:
  "prefix_ok (fx_Prefix p) \<Longrightarrow> fx_Prefix (stored_prefix p) = fx_Prefix p" "fx_Class (stored_prefix p) = fx_Class p" "fx_DeviceID (stored_prefix p) = fx_DeviceID p"
  "fx_UpdatedAt (stored_prefix p) = fromUnix (unixOf (fx_UpdatedAt p))"
  by (simp_all add: stored_prefix_def prefix_ok_def)

definition put_prefix :: "FlowPrefix \<Rightarrow> (string, FlowPrefix) gomap \<Rightarrow> (string, FlowPrefix) gomap" where
  "put_prefix p m = (if prefix_IsValid (fx_Prefix p) then gm_put (prefix_String (prefix_Masked (fx_Prefix p))) (stored_prefix p) m else m)"

lemma Replace_eq: "ReplaceFlowPrefixes ps db = db\<lparr>fd_prefixes := fold put_prefix ps []\<rparr>"
proof -
  have "(\<lambda>p m. if prefix_IsValid (fx_Prefix p)
       then gm_put (prefix_String (prefix_Masked (fx_Prefix p))) (p\<lparr>fx_Prefix := prefix_Masked (fx_Prefix p), fx_UpdatedAt := fromUnix (unixOf (fx_UpdatedAt p))\<rparr>) m
       else m) = put_prefix"
    by (simp add: fun_eq_iff put_prefix_def stored_prefix_def)
  then show ?thesis unfolding ReplaceFlowPrefixes_def by (rule arg_cong)
qed

lemma puts_get:
  assumes "list_all storable ps" and "distinct (map fx_Prefix ps)"
  shows "gm_get (fold put_prefix ps m) k = (case List.find (\<lambda>p. prefix_ok (fx_Prefix p) \<and> prefix_String (fx_Prefix p) = k) ps of Some p \<Rightarrow> Some (stored_prefix p) | None \<Rightarrow> gm_get m k)"
  using assms
proof (induction ps arbitrary: m)
  case (Cons p ps)
  have IH: "gm_get (fold put_prefix ps (put_prefix p m)) k = (case List.find (\<lambda>p. prefix_ok (fx_Prefix p) \<and> prefix_String (fx_Prefix p) = k) ps of Some p \<Rightarrow> Some (stored_prefix p) | None \<Rightarrow> gm_get (put_prefix p m) k)"
    using Cons by simp
  have v: "prefix_IsValid (fx_Prefix p) \<longleftrightarrow> prefix_ok (fx_Prefix p)" using Cons.prems(1) storable_valid by simp
  show ?case
  proof (cases "prefix_ok (fx_Prefix p) \<and> prefix_String (fx_Prefix p) = k")
    case True
    have "List.find (\<lambda>p. prefix_ok (fx_Prefix p) \<and> prefix_String (fx_Prefix p) = k) ps = None"
      using True Cons.prems(2) prefix_String_inj [of "fx_Prefix p"] by (fastforce simp: find_None_iff image_iff)
    moreover have "put_prefix p m = gm_put k (stored_prefix p) m" using True v by (simp add: put_prefix_def prefix_ok_def)
    ultimately show ?thesis using IH True by simp
  next
    case False
    then have "gm_get (put_prefix p m) k = gm_get m k" using v by (auto simp: put_prefix_def prefix_ok_def)
    moreover have "List.find (\<lambda>p. prefix_ok (fx_Prefix p) \<and> prefix_String (fx_Prefix p) = k) (p # ps) = List.find (\<lambda>p. prefix_ok (fx_Prefix p) \<and> prefix_String (fx_Prefix p) = k) ps"
      using False by auto
    ultimately show ?thesis using IH by (simp split: option.split)
  qed
qed simp

lemma puts_ok:
  assumes "list_all storable ps" and "prefixes_ok db" shows "prefixes_ok (db\<lparr>fd_prefixes := fold put_prefix ps (fd_prefixes db)\<rparr>)"
  using assms
proof (induction ps arbitrary: db)
  case (Cons p ps)
  let ?db = "db\<lparr>fd_prefixes := put_prefix p (fd_prefixes db)\<rparr>"
  have "prefixes_ok ?db"
  proof (cases "prefix_ok (fx_Prefix p)")
    case True
    then have "prefix_Masked (fx_Prefix p) = fx_Prefix p" "prefix_IsValid (fx_Prefix p)" using Cons.prems(1) storable_valid by (simp_all add: prefix_ok_def)
    then show ?thesis using True Cons.prems(2) by (simp add: prefixes_ok_def put_prefix_def keyed_put gm_all_put)
  next
    case False
    then show ?thesis using Cons.prems storable_valid by (simp add: put_prefix_def)
  qed
  then show ?case using Cons.IH [of ?db] Cons.prems(1) by simp
qed simp

lemma replace_rows:
  assumes "list_all storable ps" and "distinct (map fx_Prefix ps)"
  shows "prefixes_ok (ReplaceFlowPrefixes ps db)"
    and "p \<in> set ps \<Longrightarrow> prefix_ok (fx_Prefix p) \<Longrightarrow> stored_prefix p \<in> set (ListFlowPrefixes (ReplaceFlowPrefixes ps db))"
proof -
  show ok: "prefixes_ok (ReplaceFlowPrefixes ps db)" unfolding Replace_eq
    using puts_ok [OF assms(1), of "db\<lparr>fd_prefixes := []\<rparr>"] by (simp add: prefixes_ok_def keyed_def)
  assume p: "p \<in> set ps" "prefix_ok (fx_Prefix p)"
  let ?P = "\<lambda>q. prefix_ok (fx_Prefix q) \<and> prefix_String (fx_Prefix q) = prefix_String (fx_Prefix p)"
  obtain q where f: "List.find ?P ps = Some q" using p by (metis (mono_tags, lifting) find_None_iff not_None_eq)
  then have q: "q \<in> set ps" "?P q" by (auto simp: find_Some_iff)
  then have "fx_Prefix q = fx_Prefix p" using p(2) prefix_String_inj by blast
  then have "q = p" using assms(2) p(1) q(1) by (metis distinct_map inj_onD)
  then have "gm_get (fold put_prefix ps []) (prefix_String (fx_Prefix p)) = Some (stored_prefix p)" using puts_get [OF assms, of "[]"] f by simp
  from gm_get_in_set [OF this] have "stored_prefix p \<in> snd ` set (fd_prefixes (ReplaceFlowPrefixes ps db))" by (force simp: Replace_eq)
  then show "stored_prefix p \<in> set (ListFlowPrefixes (ReplaceFlowPrefixes ps db))" using list_prefixes [OF ok] by simp
qed

lemma plan_storable:
  assumes "\<And>l. mset (shuf l) = mset l" and "list_all plan_addr_ok addrs" and "r \<in> set (buildPlan shuf addrs da ups ext now)"
  shows "storable r \<and> fx_UpdatedAt r = now"
proof -
  let ?N = "plan_nets addrs da ups ext now"
  have "r \<in> snd ` set (plan_rows (map snd ?N) addrs da ups ext now)" using assms(3) buildPlan_rows [OF assms(1,2)] by simp
  then have G: "gm_get (plan_rows (map snd ?N) addrs da ups ext now) (fx_Prefix r) = Some r" using keyed_rows [OF plan_rows_keyed] by metis
  define p where "p = fx_Prefix r"
  note g = hosts_get [OF G [unfolded plan_rows_def], folded p_def]
  show ?thesis
  proof (cases "gm_get ?N p = Some r")
    case True
    from net_row(1) [OF True] obtain a where "a \<in> set addrs" "r = plan_row now (pa_prefix a) (addr_class addrs da ups a) a" by blast
    then show ?thesis using assms(2) by (auto simp: storable_def plan_row_def list_all_iff plan_addr_ok_def)
  next
    case False
    then obtain a and n :: FlowPrefix where a: "a \<in> set addrs" "p = host_prefix (pa_host a)" "r = plan_row now p (fx_Class n) a" using g by blast
    then have "prefix_ok (fx_Prefix r)" using assms(2) host_masked [of "pa_host a"]
      by (simp add: list_all_iff plan_addr_ok_def prefix_ok_def host_prefix_def plan_row_def)
    moreover have "fx_UpdatedAt r = now" using a(3) by (simp add: plan_row_def)
    ultimately show ?thesis by (simp add: storable_def)
  qed
qed

lemma plan_distinct: "(\<And>l. mset (shuf l) = mset l) \<Longrightarrow> list_all plan_addr_ok addrs \<Longrightarrow> distinct (map fx_Prefix (buildPlan shuf addrs da ups ext now))"
proof -
  assume a: "\<And>l :: FlowPrefix list. mset (shuf l) = mset l" "list_all plan_addr_ok addrs"
  let ?R = "plan_rows (map snd (plan_nets addrs da ups ext now)) addrs da ups ext now"
  have k: "keyed fx_Prefix ?R" by (rule plan_rows_keyed)
  have "map fx_Prefix (map snd ?R) = map fst ?R" using k by (auto simp: keyed_def)
  then have "distinct (map fx_Prefix (map snd ?R))" using k by (simp only: keyed_def gm_wf_def)
  moreover have "mset (map fx_Prefix (buildPlan shuf addrs da ups ext now)) = mset (map fx_Prefix (map snd ?R))"
    unfolding buildPlan_rows [OF a] by (simp only: mset_map mset_sort_cmp)
  ultimately show ?thesis by (metis mset_eq_imp_distinct_iff)
qed

text \<open>Carrying over keeps the plan's rows and adds those of paused devices that it lacks.\<close>

lemma carry_rows:
  assumes "distinct (map fx_Prefix plan)"
  shows "distinct (map fx_Prefix (carryPausedPrefixes ok db plan paused)) \<and> set plan \<subseteq> set (carryPausedPrefixes ok db plan paused)
    \<and> set (carryPausedPrefixes ok db plan paused) \<subseteq> set plan \<union> set (ListFlowPrefixes db)
    \<and> (ok \<longrightarrow> (\<forall>p \<in> set (ListFlowPrefixes db). fx_DeviceID p \<in> set paused \<longrightarrow>
         fx_Prefix p \<in> fx_Prefix ` set plan \<or> (\<exists>q \<in> set (carryPausedPrefixes ok db plan paused). q \<in> set (ListFlowPrefixes db) \<and> fx_Prefix q = fx_Prefix p)))"
proof -
  let ?f = "carry_step paused"
  have F: "distinct (map fx_Prefix (fold ?f l pl)) \<and> set pl \<subseteq> set (fold ?f l pl) \<and> set (fold ?f l pl) \<subseteq> set pl \<union> set l
      \<and> (\<forall>p \<in> set l. fx_DeviceID p \<in> set paused \<longrightarrow> fx_Prefix p \<in> fx_Prefix ` set pl \<or> (\<exists>q \<in> set (fold ?f l pl). q \<in> set l \<and> fx_Prefix q = fx_Prefix p))"
    if "distinct (map fx_Prefix pl)" for l pl
    using that
  proof (induction l arbitrary: pl)
    case (Cons p l)
    have d: "distinct (map fx_Prefix (?f p pl))" using Cons.prems by (simp add: carry_step_def)
    have s: "set (?f p pl) \<subseteq> insert p (set pl)" "set pl \<subseteq> set (?f p pl)" by (auto simp: carry_step_def)
    have own: "fx_DeviceID p \<in> set paused \<Longrightarrow> fx_Prefix p \<in> fx_Prefix ` set pl \<or> p \<in> set (?f p pl)" by (auto simp: carry_step_def)
    note IH = Cons.IH [OF d]
    have k: "fx_Prefix x \<in> fx_Prefix ` set pl \<or> (\<exists>q \<in> set (fold ?f l (?f p pl)). q \<in> set (p # l) \<and> fx_Prefix q = fx_Prefix x)"
      if x: "x \<in> set (p # l)" "fx_DeviceID x \<in> set paused" for x
    proof (cases "x = p")
      case True
      then show ?thesis using own IH x(2) by fastforce
    next
      case False
      then have "x \<in> set l" using x(1) by simp
      then consider (old) "fx_Prefix x \<in> fx_Prefix ` set (?f p pl)" | (new) "\<exists>q \<in> set (fold ?f l (?f p pl)). q \<in> set l \<and> fx_Prefix q = fx_Prefix x" using IH x(2) by blast
      then show ?thesis
      proof cases
        case old
        then obtain q where q: "q \<in> set (?f p pl)" "fx_Prefix q = fx_Prefix x" by auto
        then have m: "q = p \<or> q \<in> set pl" "q \<in> set (fold ?f l (?f p pl))" using s(1) IH by blast+
        show ?thesis
        proof (cases "q = p")
          case True
          then show ?thesis using m(2) q(2) by (intro disjI2 bexI [of _ q]) simp_all
        next
          case False
          then show ?thesis using m(1) q(2) by (metis imageI)
        qed
      next
        case new
        then show ?thesis by auto
      qed
    qed
    show ?case unfolding fold_simps(2)
    proof (intro conjI)
      show "distinct (map fx_Prefix (fold ?f l (?f p pl)))" using IH by blast
      show "set pl \<subseteq> set (fold ?f l (?f p pl))" using IH s(2) by blast
      show "set (fold ?f l (?f p pl)) \<subseteq> set pl \<union> set (p # l)" using IH s(1) by auto
    qed (use k in blast)
  qed simp
  show ?thesis using F [OF assms, of "ListFlowPrefixes db"] assms by (auto simp: carryPausedPrefixes_def)
qed

subsection \<open>A refresh\<close>

lemma scan_fold:
  assumes "s' = fold (scan_device rd nd ask now) ds s" and "list_all plan_addr_ok (ps_addrs s)"
  shows "list_all plan_addr_ok (ps_addrs s') \<and> (d \<in> set ds \<and> PollingPaused d now \<longrightarrow> dev_ID d \<in> set (ps_paused s')) \<and> set (ps_paused s) \<subseteq> set (ps_paused s')
    \<and> ((\<forall>d \<in> set ds. PollingPaused d now \<or> dev_Status d \<noteq> ''online'' \<or> ask (dev_ID d) = None) \<longrightarrow> ps_answered s' = ps_answered s)"
  using assms
proof (induction ds arbitrary: s)
  case (Cons d' ds)
  let ?t = "scan_device rd nd ask now d' s"
  have a: "list_all plan_addr_ok (ps_addrs ?t)" using Cons.prems(2) planAddrsOf_ok by (simp add: scan_device_def Let_def split: option.split)
  have "PollingPaused d' now \<Longrightarrow> dev_ID d' \<in> set (ps_paused ?t)" "set (ps_paused s) \<subseteq> set (ps_paused ?t)"
    "PollingPaused d' now \<or> dev_Status d' \<noteq> ''online'' \<or> ask (dev_ID d') = None \<Longrightarrow> ps_answered ?t = ps_answered s"
    by (auto simp: scan_device_def Let_def split: option.split)
  then show ?case using Cons.IH [OF _ a] Cons.prems(1) by fastforce
qed simp

text \<open>
  C36: A refresh of the stored plan. When no device answers, nothing changes; in any case only the plan table does, and it
  stays a table of canonical prefixes. The prefixes of a device whose polling is paused stay in the plan when the
  refresh can read the old one: the row is kept as it was, or its prefix was reported by another device just now.
\<close>

theorem refresh_keeps_paused:
  assumes "\<And>l. mset (shuf l) = mset l" and "prefixes_ok db" and "(retry, db') = refreshPlan shuf rd get age ask now wall nd db"
  shows "((\<forall>d \<in> set (nd_devices nd). PollingPaused d now \<or> dev_Status d \<noteq> ''online'' \<or> ask (dev_ID d) = None) \<longrightarrow> db' = db)
    \<and> db'\<lparr>fd_prefixes := []\<rparr> = db\<lparr>fd_prefixes := []\<rparr> \<and> prefixes_ok db'
    \<and> (\<forall>d p. d \<in> set (nd_devices nd) \<and> PollingPaused d now \<and> pr_previous rd \<and> p \<in> set (ListFlowPrefixes db) \<and> fx_DeviceID p = dev_ID d \<longrightarrow>
        (\<exists>q \<in> set (ListFlowPrefixes db'). fx_Prefix q = fx_Prefix p \<and> (q = p \<or> fx_UpdatedAt q = fromUnix (unixOf now))))"
proof -
  let ?s0 = "\<lparr>ps_devAddrs = [], ps_addrs = [], ps_answered = [], ps_paused = []\<rparr> :: plan_scan"
  define s where "s = fold (scan_device rd nd ask now) (nd_devices nd) ?s0"
  define pl where "pl = buildPlan shuf (ps_addrs s) (ps_devAddrs s) (ListFreshDeviceUplinks age now nd) (prefixListSetting get ''flow_external_prefixes'') now"
  define cp where "cp = carryPausedPrefixes (pr_previous rd) db pl (ps_paused s)"
  have S: "list_all plan_addr_ok (ps_addrs s) \<and> (d \<in> set (nd_devices nd) \<and> PollingPaused d now \<longrightarrow> dev_ID d \<in> set (ps_paused s))
      \<and> ((\<forall>d \<in> set (nd_devices nd). PollingPaused d now \<or> dev_Status d \<noteq> ''online'' \<or> ask (dev_ID d) = None) \<longrightarrow> ps_answered s = [])" for d
    using scan_fold [OF s_def, of d] by simp
  have D: "db' = db \<or> ps_answered s \<noteq> [] \<and> db' = ReplaceFlowPrefixes cp db"
    using assms(3) by (auto simp: refreshPlan_def Let_def s_def pl_def cp_def split: if_splits)
  have pl: "storable r \<and> fx_UpdatedAt r = now" if "r \<in> set pl" for r using plan_storable [OF assms(1)] S that unfolding pl_def by blast
  have C: "distinct (map fx_Prefix pl)" unfolding pl_def using plan_distinct [OF assms(1)] S by blast
  have old: "prefix_ok (fx_Prefix r) \<and> stored_prefix r = r" if "r \<in> set (ListFlowPrefixes db)" for r
  proof -
    have "prefix_ok (fx_Prefix r) \<and> fromUnix (unixOf (fx_UpdatedAt r)) = fx_UpdatedAt r"
      using that assms(2) unfolding list_prefixes [OF assms(2)] prefixes_ok_def gm_all_def by blast
    then show ?thesis by (simp add: stored_prefix_def prefix_ok_def)
  qed
  have cp: "storable r" if "r \<in> set cp" for r using carry_rows [OF C, of "pr_previous rd" db "ps_paused s", folded cp_def] that pl old by (auto simp: storable_def)
  have dc: "distinct (map fx_Prefix cp)" using carry_rows [OF C] unfolding cp_def by blast
  have R: "prefixes_ok (ReplaceFlowPrefixes cp db)" "\<And>p. p \<in> set cp \<Longrightarrow> prefix_ok (fx_Prefix p) \<Longrightarrow> stored_prefix p \<in> set (ListFlowPrefixes (ReplaceFlowPrefixes cp db))"
    using replace_rows(1) [of cp db] replace_rows(2) [of cp _ db] cp dc by (auto simp: list_all_iff)
  have "\<exists>q \<in> set (ListFlowPrefixes db'). fx_Prefix q = fx_Prefix p \<and> (q = p \<or> fx_UpdatedAt q = fromUnix (unixOf now))"
    if h: "d \<in> set (nd_devices nd) \<and> PollingPaused d now \<and> pr_previous rd \<and> p \<in> set (ListFlowPrefixes db) \<and> fx_DeviceID p = dev_ID d" for d p
  proof (cases "db' = db")
    case False
    then have d: "db' = ReplaceFlowPrefixes cp db" using D by blast
    have "fx_DeviceID p \<in> set (ps_paused s)" using S [of d] h by simp
    then consider (new) r where "r \<in> set pl" "fx_Prefix r = fx_Prefix p" | (kept) r where "r \<in> set cp" "r \<in> set (ListFlowPrefixes db)" "fx_Prefix r = fx_Prefix p"
      using carry_rows [OF C, of "pr_previous rd" db "ps_paused s", folded cp_def] h by (metis imageE)
    then show ?thesis
    proof cases
      case new
      then have "r \<in> set cp" using carry_rows [OF C] unfolding cp_def by blast
      then show ?thesis unfolding d using R(2) [of r] new pl old [of p] h by (intro bexI [of _ "stored_prefix r"]) simp_all
    next
      case kept
      have i: "inj_on (\<lambda>r. prefix_String (fx_Prefix r)) (set (ListFlowPrefixes db))"
        unfolding list_prefixes [OF assms(2)] using assms(2) by (intro keyed_inj) (simp add: prefixes_ok_def)
      have "prefix_String (fx_Prefix r) = prefix_String (fx_Prefix p)" using kept(3) by simp
      then have "r = p" using inj_onD [OF i] kept(2) h by blast
      then show ?thesis unfolding d using R(2) [of r] kept old [of r] by (intro bexI [of _ r]) simp_all
    qed
  qed (use h in auto)
  moreover have "(\<forall>d \<in> set (nd_devices nd). PollingPaused d now \<or> dev_Status d \<noteq> ''online'' \<or> ask (dev_ID d) = None) \<longrightarrow> db' = db" using S D by blast
  moreover have "db'\<lparr>fd_prefixes := []\<rparr> = db\<lparr>fd_prefixes := []\<rparr>" using D by (auto simp: Replace_eq)
  moreover have "prefixes_ok db'" using D R(1) assms(2) by blast
  ultimately show ?thesis by blast
qed

definition demo_prefix :: FlowPrefix where
  "demo_prefix = \<lparr>fx_Prefix = \<lparr>p_addr = Addr4 [10,0,0,0], p_bits = 24\<rparr>, fx_Class = ''internal'', fx_DeviceID = ''d1'', fx_Iface = ''bridge'', fx_UpdatedAt = zero_time\<rparr>"

definition demo_plan_net :: net_db where
  "demo_plan_net = demo_net\<lparr>nd_devices :=
     [\<lparr>dev_ID = ''d1'', dev_Address = None, dev_AddressText = '''', dev_Identity = ''r1'', dev_Status = ''online'', dev_PollingPausedUntil = Some 5\<rparr>,
      \<lparr>dev_ID = ''d2'', dev_Address = None, dev_AddressText = '''', dev_Identity = ''r2'', dev_Status = ''online'', dev_PollingPausedUntil = None\<rparr>]\<rparr>"

definition demo_plan_db :: flow_db where
  "demo_plan_db = demo_flow_db\<lparr>fd_prefixes := [(prefix_String (fx_Prefix demo_prefix), demo_prefix)]\<rparr>"

definition demo_plan_reads :: plan_reads where
  "demo_plan_reads = \<lparr>pr_devices = True, pr_types = (\<lambda>_. True), pr_uplinks = True, pr_allUplinks = True, pr_previous = True, pr_store = True\<rparr>"

lemma demo_prefixes_ok: "prefixes_ok demo_plan_db"
proof -
  have "prefix_ok (fx_Prefix demo_prefix)"
    by (simp add: prefix_ok_def demo_prefix_def prefix_Masked_def mask_bytes_def mask_byte_def)
  moreover have "fromUnix (unixOf (fx_UpdatedAt demo_prefix)) = fx_UpdatedAt demo_prefix" by (simp add: demo_prefix_def fromUnix_def unixOf_def is_zero_def)
  ultimately show ?thesis by (simp add: prefixes_ok_def demo_plan_db_def keyed_def gm_wf_def gm_all_def)
qed

theorem refresh_keeps_paused_witness:
  "\<exists>q \<in> set (ListFlowPrefixes (snd (refreshPlan rev demo_plan_reads (\<lambda>_. None) None (\<lambda>_. Some []) 1 1 demo_plan_net demo_plan_db))).
     fx_Prefix q = fx_Prefix demo_prefix \<and> (q = demo_prefix \<or> fx_UpdatedAt q = fromUnix (unixOf 1))"
proof -
  let ?r = "refreshPlan rev demo_plan_reads (\<lambda>_. None) None (\<lambda>_. Some []) 1 1 demo_plan_net demo_plan_db"
  let ?d = "nd_devices demo_plan_net ! 0"
  have "?d \<in> set (nd_devices demo_plan_net) \<and> PollingPaused ?d 1 \<and> pr_previous demo_plan_reads \<and> demo_prefix \<in> set (ListFlowPrefixes demo_plan_db) \<and> fx_DeviceID demo_prefix = dev_ID ?d"
    using list_prefixes [OF demo_prefixes_ok] by (simp add: demo_plan_net_def PollingPaused_def demo_plan_reads_def demo_plan_db_def demo_prefix_def)
  moreover have "(fst ?r, snd ?r) = ?r" by simp
  ultimately show ?thesis using refresh_keeps_paused [OF mset_rev demo_prefixes_ok] by blast
qed

end
