(* ===== verification/View_Plan.thy ===== *)
theory View_Plan
  imports Flow_Plan
begin

text \<open>
  The classifier of the flow views (\<open>flowview/plan.go\<close>): which side of the network an address is on, from the stored
  address plan, the configured prefixes, the known hosts and the exporter's own addresses.
\<close>

unbundle bit_operations_syntax

subsection \<open>The classifier\<close>

record view_plan =
  vp_rows :: "FlowPrefix list"
  vp_hosts :: "(addr, string) gomap"
  vp_internal :: "prefix list"
  vp_external :: "prefix list"
  vp_known :: "(addr, bool) gomap"
  vp_self :: "(addr, bool) gomap"
  vp_bcast :: "(addr, bool) gomap"

definition unmapPrefix :: "prefix \<Rightarrow> prefix" where
  "unmapPrefix p = prefix_Masked (unmap_prefix p)"

definition unmapSet :: "(addr, bool) gomap \<Rightarrow> (addr, bool) gomap" where
  "unmapSet m = fold (\<lambda>(a, ok) out. if ok \<and> IsValid a then gm_put (Unmap a) True out else out) m []"

text \<open>The last address of an IPv4 prefix of at most 30 bits, on 32-bit words.\<close>

definition broadcastOf :: "prefix \<Rightarrow> addr option" where
  "broadcastOf p = (case mask_addr (p_bits p) (p_addr p) of
     Addr4 b \<Rightarrow> if p_bits p > 30 then None else Some (Addr4 (put_be32 (be32 (b ! 0) (b ! 1) (b ! 2) (b ! 3) OR (push_bit (32 - p_bits p) 1 - 1))))
   | _ \<Rightarrow> None)"

definition IsSingleIP :: "prefix \<Rightarrow> bool" where
  "IsSingleIP p \<longleftrightarrow> prefix_IsValid p \<and> p_bits p = BitLen (p_addr p)"

definition add_row :: "FlowPrefix \<Rightarrow> view_plan \<Rightarrow> view_plan" where
  "add_row r pl =
    (if \<not> prefix_IsValid (fx_Prefix r) then pl
     else let r = r\<lparr>fx_Prefix := unmapPrefix (fx_Prefix r)\<rparr>
          in if IsSingleIP (fx_Prefix r) then pl\<lparr>vp_hosts := gm_put (p_addr (fx_Prefix r)) (fx_Class r) (vp_hosts pl)\<rparr>
             else let pl = pl\<lparr>vp_rows := vp_rows pl @ [r]\<rparr>
                  in if fx_Class r = ''internal''
                     then (case broadcastOf (fx_Prefix r) of Some b \<Rightarrow> pl\<lparr>vp_bcast := gm_put b True (vp_bcast pl)\<rparr> | None \<Rightarrow> pl) else pl)"

definition byBitsCmp :: "FlowPrefix \<Rightarrow> FlowPrefix \<Rightarrow> int" where
  "byBitsCmp a b = go_compare (p_bits (fx_Prefix b)) (p_bits (fx_Prefix a))"

definition NewPlan :: "FlowPrefix list \<Rightarrow> prefix list \<Rightarrow> prefix list \<Rightarrow> (addr, bool) gomap \<Rightarrow> (addr, bool) gomap \<Rightarrow> view_plan" where
  "NewPlan rows internal external known self =
    (let pl = fold add_row rows \<lparr>vp_rows = [], vp_hosts = [], vp_internal = [], vp_external = [], vp_known = unmapSet known, vp_self = unmapSet self, vp_bcast = []\<rparr>
     in pl\<lparr>vp_rows := sort_cmp byBitsCmp (vp_rows pl), vp_internal := map unmapPrefix (filter prefix_IsValid internal),
           vp_external := map unmapPrefix (filter prefix_IsValid external)\<rparr>)"

text \<open>\<open>None\<close> is the nil plan.\<close>

definition WithSelf :: "view_plan option \<Rightarrow> (addr, bool) gomap \<Rightarrow> view_plan" where
  "WithSelf pl self = (case pl of None \<Rightarrow> NewPlan [] [] [] [] self | Some pl \<Rightarrow> pl\<lparr>vp_self := unmapSet self\<rparr>)"

definition ParsePrefixList :: "string \<Rightarrow> prefix list" where
  "ParsePrefixList csv = List.map_filter (\<lambda>part. case ParsePrefix part of
       Some p \<Rightarrow> Some (unmapPrefix p)
     | None \<Rightarrow> (case ParseAddr part of Some (a, z) \<Rightarrow> if z = [] then Some \<lparr>p_addr = Unmap a, p_bits = BitLen (Unmap a)\<rparr> else None | None \<Rightarrow> None))
     (fields_func (\<lambda>c. c = CHR '','' \<or> of_char c = (10 :: nat) \<or> of_char c = (13 :: nat) \<or> c = CHR '' '' \<or> of_char c = (9 :: nat) \<or> c = CHR '';'') csv)"

definition containedIn :: "prefix list \<Rightarrow> addr \<Rightarrow> bool" where
  "containedIn ps a \<longleftrightarrow> list_ex (\<lambda>p. prefix_Contains p a) ps"

definition planClass :: "string \<Rightarrow> string" where
  "planClass c = (if c = ''transit'' then ''external'' else if c = ''vpn'' then ''vpn'' else ''internal'')"

definition Class :: "view_plan option \<Rightarrow> addr \<Rightarrow> string" where
  "Class pl a =
    (let a = Unmap a
     in if IsMulticast a \<or> a = Addr4 [255, 255, 255, 255] then ''multicast''
        else case pl of None \<Rightarrow> ''external''
          | Some pl \<Rightarrow>
            if \<not> IsValid a then ''external''
            else if gm_get (vp_bcast pl) a = Some True then ''multicast''
            else if gm_get (vp_self pl) a = Some True then ''self''
            else if containedIn (vp_external pl) a then ''external''
            else if containedIn (vp_internal pl) a then ''internal''
            else case gm_get (vp_hosts pl) a of
              Some c \<Rightarrow> planClass c
            | None \<Rightarrow> (case List.find (\<lambda>r. prefix_Contains (fx_Prefix r) a) (vp_rows pl) of
                Some r \<Rightarrow> planClass (fx_Class r)
              | None \<Rightarrow> if gm_get (vp_known pl) a = Some True then ''internal'' else ''external''))"

subsection \<open>The two tables of rows are one longest-prefix lookup\<close>

lemma unmapPrefix_ok: "prefix_ok p \<Longrightarrow> unmapPrefix p = p"
proof -
  assume p: "prefix_ok p"
  then have "\<not> Is4In6 (p_addr p)" by (cases "p_addr p") (auto simp: prefix_ok_def split: if_splits)
  then show ?thesis using p by (simp add: unmapPrefix_def unmap_prefix_def prefix_ok_def)
qed

lemma prefix_ok_valid: "prefix_ok p \<Longrightarrow> prefix_IsValid p"
  by (auto simp: prefix_ok_def prefix_IsValid_def)

definition single :: "FlowPrefix \<Rightarrow> bool" where
  "single r \<longleftrightarrow> p_bits (fx_Prefix r) = BitLen (p_addr (fx_Prefix r))"

lemma add_row_ok:
  assumes "prefix_ok (fx_Prefix r)"
  shows "vp_rows (add_row r pl) = vp_rows pl @ (if single r then [] else [r])"
    and "vp_hosts (add_row r pl) = (if single r then gm_put (p_addr (fx_Prefix r)) (fx_Class r) (vp_hosts pl) else vp_hosts pl)"
    and "vp_bcast (add_row r pl) = (if single r \<or> fx_Class r \<noteq> ''internal'' then vp_bcast pl
      else case broadcastOf (fx_Prefix r) of Some b \<Rightarrow> gm_put b True (vp_bcast pl) | None \<Rightarrow> vp_bcast pl)"
    and "vp_known (add_row r pl) = vp_known pl" "vp_self (add_row r pl) = vp_self pl"
  using assms by (simp_all add: add_row_def Let_def unmapPrefix_ok prefix_ok_valid IsSingleIP_def single_def split: option.split)

definition row_bcast :: "addr \<Rightarrow> FlowPrefix \<Rightarrow> bool" where
  "row_bcast a r \<longleftrightarrow> \<not> single r \<and> fx_Class r = ''internal'' \<and> broadcastOf (fx_Prefix r) = Some a"

lemma add_rows_ok:
  assumes "list_all (\<lambda>r. prefix_ok (fx_Prefix r)) rows"
  shows "vp_rows (fold add_row rows pl) = vp_rows pl @ filter (\<lambda>r. \<not> single r) rows
    \<and> vp_hosts (fold add_row rows pl) = fold (\<lambda>r. gm_put (p_addr (fx_Prefix r)) (fx_Class r)) (filter single rows) (vp_hosts pl)
    \<and> (gm_get (vp_bcast (fold add_row rows pl)) a = Some True \<longleftrightarrow> gm_get (vp_bcast pl) a = Some True \<or> list_ex (row_bcast a) rows)
    \<and> vp_known (fold add_row rows pl) = vp_known pl \<and> vp_self (fold add_row rows pl) = vp_self pl"
  using assms
proof (induction rows arbitrary: pl)
  case (Cons r rows)
  then have r: "prefix_ok (fx_Prefix r)" and IH: "vp_rows (fold add_row rows pl) = vp_rows pl @ filter (\<lambda>r. \<not> single r) rows
    \<and> vp_hosts (fold add_row rows pl) = fold (\<lambda>r. gm_put (p_addr (fx_Prefix r)) (fx_Class r)) (filter single rows) (vp_hosts pl)
    \<and> (gm_get (vp_bcast (fold add_row rows pl)) a = Some True \<longleftrightarrow> gm_get (vp_bcast pl) a = Some True \<or> list_ex (row_bcast a) rows)
    \<and> vp_known (fold add_row rows pl) = vp_known pl \<and> vp_self (fold add_row rows pl) = vp_self pl" for pl by simp_all
  have "gm_get (vp_bcast (add_row r pl)) a = Some True \<longleftrightarrow> gm_get (vp_bcast pl) a = Some True \<or> row_bcast a r"
    by (auto simp: add_row_ok(3) [OF r] row_bcast_def split: option.split)
  then show ?case using IH [of "add_row r pl"] by (auto simp: add_row_ok [OF r])
qed simp

lemma single_host: "single r \<Longrightarrow> fx_Prefix r = host_prefix (p_addr (fx_Prefix r))"
  by (cases "fx_Prefix r") (simp add: single_def host_prefix_def)

lemma single_contains:
  assumes "prefix_ok (fx_Prefix r)" and "single r" and "addr_wf a" shows "prefix_Contains (fx_Prefix r) a \<longleftrightarrow> a = p_addr (fx_Prefix r)"
proof -
  have "addr_wf (p_addr (fx_Prefix r))" "IsValid (p_addr (fx_Prefix r))" using assms(1) by (simp_all add: prefix_ok_def)
  then show ?thesis using single_host [OF assms(2)] host_contains [of "p_addr (fx_Prefix r)" a] assms(3) by metis
qed

lemma hosts_lookup:
  assumes "distinct (map f rs)" shows "gm_get (fold (\<lambda>r. gm_put (f r) (g r)) rs m) k = (case List.find (\<lambda>r. f r = k) rs of Some r \<Rightarrow> Some (g r) | None \<Rightarrow> gm_get m k)"
  using assms
proof (induction rs arbitrary: m)
  case (Cons r rs)
  show ?case
  proof (cases "f r = k")
    case True
    then have "List.find (\<lambda>r. f r = k) rs = None" using Cons.prems by (auto simp: find_None_iff image_iff)
    then show ?thesis using True Cons by simp
  next
    case False
    then show ?thesis using Cons by (simp split: option.split)
  qed
qed simp

lemma byBits_same: "sort_cmp byBitsCmp l = sort_cmp byBitsDown l"
proof -
  have "byBitsCmp x y \<le> 0 \<longleftrightarrow> byBitsDown x y \<le> 0" "byBitsCmp x y < 0 \<longleftrightarrow> byBitsDown x y < 0" "byBitsCmp x y = 0 \<longleftrightarrow> byBitsDown x y = 0" for x y
    by (auto simp: byBitsCmp_def byBitsDown_def go_compare_def)
  then have "insert_cmp byBitsCmp x xs = insert_cmp byBitsDown x xs" for x xs by (induction xs) simp_all
  then show ?thesis by (simp add: sort_cmp_def cong: foldr_cong)
qed

lemma lookup_split:
  assumes ok: "list_all (\<lambda>r. prefix_ok (fx_Prefix r)) rows" and d: "distinct (map fx_Prefix rows)" and a: "addr_wf a"
  shows "plan_lookup rows a = (case List.find (\<lambda>r. p_addr (fx_Prefix r) = a) (filter single rows) of Some r \<Rightarrow> Some r
    | None \<Rightarrow> plan_lookup (filter (\<lambda>r. \<not> single r) rows) a)"
proof -
  have okr: "prefix_ok (fx_Prefix r)" if "r \<in> set rows" for r using ok that by (simp add: list_all_iff)
  have m: "rows_masked S" if "S \<subseteq> set rows" for S
    using d that okr unfolding rows_masked_def distinct_map by (auto simp: prefix_ok_def intro: inj_on_subset)
  show ?thesis
  proof (cases "List.find (\<lambda>r. p_addr (fx_Prefix r) = a) (filter single rows)")
    case None
    then have n: "\<not> single r" if "r \<in> set rows" "prefix_Contains (fx_Prefix r) a" for r
      using that single_contains [OF okr [OF that(1)] _ a] by (auto simp: find_None_iff)
    have "plan_lookup rows a = Some r \<longleftrightarrow> plan_lookup (filter (\<lambda>r. \<not> single r) rows) a = Some r" for r
      using n unfolding lookup_iff [OF m [OF order_refl]] lookup_iff [OF m [of "set (filter (\<lambda>r. \<not> single r) rows)"], OF filter_is_subset]
      by (auto simp: decides_def)
    then have "plan_lookup rows a = plan_lookup (filter (\<lambda>r. \<not> single r) rows) a" by (metis not_Some_eq)
    then show ?thesis using None by simp
  next
    case (Some r)
    then have r: "r \<in> set rows" "single r" "p_addr (fx_Prefix r) = a" by (auto simp: find_Some_iff dest: nth_mem)
    have "p_bits (fx_Prefix s) \<le> BitLen a" if "s \<in> set rows" "prefix_Contains (fx_Prefix s) a" for s
      using okr [OF that(1)] contains_bits [OF that(2)] by (simp add: prefix_ok_def)
    then have "decides (set rows) a r" using r single_contains [OF okr [OF r(1)] r(2) a] by (simp add: decides_def single_def)
    then show ?thesis using Some lookup_iff [OF m [OF order_refl]] by simp
  qed
qed

lemma NewPlan_fields:
  assumes "list_all (\<lambda>r. prefix_ok (fx_Prefix r)) rows" and "pl = NewPlan rows internal external known self"
  shows "vp_rows pl = sort_cmp byBitsDown (filter (\<lambda>r. \<not> single r) rows)"
    "vp_hosts pl = fold (\<lambda>r. gm_put (p_addr (fx_Prefix r)) (fx_Class r)) (filter single rows) []"
    "gm_get (vp_bcast pl) a = Some True \<longleftrightarrow> list_ex (row_bcast a) rows"
    "vp_known pl = unmapSet known" "vp_self pl = unmapSet self"
    "vp_internal pl = map unmapPrefix (filter prefix_IsValid internal)" "vp_external pl = map unmapPrefix (filter prefix_IsValid external)"
  using add_rows_ok [OF assms(1)] by (simp_all add: assms(2) NewPlan_def Let_def byBits_same)

lemma hosts_of_rows:
  assumes "distinct (map fx_Prefix rows)"
  shows "distinct (map (\<lambda>r. p_addr (fx_Prefix r)) (filter single rows))"
proof -
  have "inj_on (\<lambda>r. p_addr (fx_Prefix r)) (set (filter single rows))"
  proof (rule inj_onI)
    fix r s assume rs: "r \<in> set (filter single rows)" "s \<in> set (filter single rows)" "p_addr (fx_Prefix r) = p_addr (fx_Prefix s)"
    then have "fx_Prefix r = fx_Prefix s" using single_host [of r] single_host [of s] by auto
    then show "r = s" using assms rs(1,2) by (auto simp: distinct_map inj_on_def)
  qed
  then show ?thesis using assms by (simp add: distinct_map distinct_filter)
qed

text \<open>
  C37: The classification of an endpoint, first match wins: multicast and the broadcast addresses of internal networks;
  the exporter's own addresses; the configured external and then internal prefixes; the class of the longest
  stored prefix that holds the address (transit counts as external); a known host is internal; everything else is external. The host map
  and the sorted scan of the code are together exactly this longest-prefix lookup over the stored rows.
\<close>

theorem Class_spec:
  assumes "list_all (\<lambda>r. prefix_ok (fx_Prefix r)) rows" and "distinct (map fx_Prefix rows)" and "addr_wf a" and "IsValid a"
  shows "Class (Some (NewPlan rows internal external known self)) a =
    (let x = Unmap a
     in if IsMulticast x \<or> x = Addr4 [255, 255, 255, 255] \<or> list_ex (row_bcast x) rows then ''multicast''
        else if gm_get (unmapSet self) x = Some True then ''self''
        else if list_ex (\<lambda>p. prefix_Contains (unmapPrefix p) x) (filter prefix_IsValid external) then ''external''
        else if list_ex (\<lambda>p. prefix_Contains (unmapPrefix p) x) (filter prefix_IsValid internal) then ''internal''
        else case plan_lookup rows x of Some r \<Rightarrow> planClass (fx_Class r)
          | None \<Rightarrow> if gm_get (unmapSet known) x = Some True then ''internal'' else ''external'')"
proof -
  define pl where "pl = NewPlan rows internal external known self"
  note F = NewPlan_fields [OF assms(1) pl_def]
  define x where "x = Unmap a"
  have x: "addr_wf x" "IsValid x" using assms(3,4) by (simp_all add: x_def Unmap_wf)
  have h: "gm_get (vp_hosts pl) x = map_option fx_Class (List.find (\<lambda>r. p_addr (fx_Prefix r) = x) (filter single rows))"
    unfolding F(2) hosts_lookup [OF hosts_of_rows [OF assms(2)]] by (simp split: option.split)
  have K: "(case gm_get (vp_hosts pl) x of Some c \<Rightarrow> planClass c
      | None \<Rightarrow> (case List.find (\<lambda>r. prefix_Contains (fx_Prefix r) x) (vp_rows pl) of Some r \<Rightarrow> planClass (fx_Class r)
        | None \<Rightarrow> if gm_get (vp_known pl) x = Some True then ''internal'' else ''external''))
    = (case plan_lookup rows x of Some r \<Rightarrow> planClass (fx_Class r) | None \<Rightarrow> if gm_get (unmapSet known) x = Some True then ''internal'' else ''external'')"
    unfolding h lookup_split [OF assms(1,2) x(1)] F(1,4) plan_lookup_def [of "filter (\<lambda>r. \<not> single r) rows"] by (simp split: option.split)
  have B: "gm_get (vp_bcast pl) x = Some True \<longleftrightarrow> list_ex (row_bcast x) rows" by (rule F(3))
  have E: "containedIn (map unmapPrefix l) x = list_ex (\<lambda>p. prefix_Contains (unmapPrefix p) x) l" for l by (simp add: containedIn_def list_ex_iff)
  show ?thesis unfolding Class_def Let_def x_def [symmetric] pl_def [symmetric] option.case(2) K B F(5-7) E using x(2) by simp
qed

lemma demo_view_rows: "list_all (\<lambda>r. prefix_ok (fx_Prefix r)) [demo_prefix]"
  by (simp add: prefix_ok_def demo_prefix_def prefix_Masked_def mask_bytes_def mask_byte_def)

theorem Class_spec_witness:
  "Class (Some (NewPlan [demo_prefix] [] [] [] [])) (Addr4 [10,0,0,7]) = ''internal'' \<and> Class (Some (NewPlan [demo_prefix] [] [] [] [])) (Addr4 [10,0,1,7]) = ''external''"
proof -
  have l: "plan_lookup [demo_prefix] (Addr4 [10,0,0,7]) = Some demo_prefix" "plan_lookup [demo_prefix] (Addr4 [10,0,1,7]) = None"
    by (simp_all add: plan_lookup_def sort_cmp_def demo_prefix_def prefix_Contains_def mask_bytes_def mask_byte_def)
  have b: "\<not> row_bcast (Addr4 [10,0,0,7]) demo_prefix" "\<not> row_bcast (Addr4 [10,0,1,7]) demo_prefix"
    by (simp_all add: row_bcast_def broadcastOf_def demo_prefix_def mask_bytes_def mask_byte_def be32_def put_be32_def)
  show ?thesis using Class_spec [OF demo_view_rows, of "Addr4 [10,0,0,7]" "[]" "[]" "[]" "[]"] Class_spec [OF demo_view_rows, of "Addr4 [10,0,1,7]" "[]" "[]" "[]" "[]"] l b
    by (simp add: unmapSet_def IsMulticast_def planClass_def demo_prefix_def)
qed

end
