(* ===== verification/Flow_View.thy ===== *)
theory Flow_View
  imports Flow_Query View_Plan
begin

text \<open>
  The query side of the views (\<open>flowview/flowview.go\<close>): which stored rows belong to an observation point and in which
  direction, their sums per bucket, the top groups, and the port counter that carries a direction. Sums are \<open>int64\<close> and wrap.
\<close>

subsection \<open>Rows of a point\<close>

record Point =
  pt_FlowPoint :: FlowPoint
  pt_ExcludeIPs :: "(addr, bool) gomap"

definition pt_has :: "Point \<Rightarrow> u32 \<Rightarrow> bool" where
  "pt_has p idx \<longleftrightarrow> idx \<noteq> 0 \<and> idx \<in> set (fp_IfIndexes (pt_FlowPoint p))"

definition Directions :: "Point \<Rightarrow> u32 \<Rightarrow> u32 \<Rightarrow> bool \<times> bool" where
  "Directions p inIf outIf =
    (let inS = pt_has p inIf; outS = pt_has p outIf in if fp_Facing (pt_FlowPoint p) = ''up'' then (inS, outS) else (outS, inS))"

record DirRow =
  dr_Bucket :: time
  dr_Src :: addr
  dr_Dst :: addr
  dr_Local :: addr
  dr_Remote :: addr
  dr_Proto :: u8
  dr_Port :: u16
  dr_Bytes :: int
  dr_Packets :: int
  dr_Flows :: int
  dr_Other :: bool

definition isOther :: "FlowAgg \<Rightarrow> bool" where
  "isOther r \<longleftrightarrow> \<not> IsValid (fa_Src r) \<or> \<not> IsValid (fa_Dst r)"

definition local_kept :: "Point \<Rightarrow> view_plan option \<Rightarrow> addr \<Rightarrow> bool" where
  "local_kept p pl a \<longleftrightarrow> (fp_LocalInternal (pt_FlowPoint p) \<longrightarrow> Class pl a = ''internal'' \<or> Class pl a = ''vpn'') \<and> gm_get (pt_ExcludeIPs p) (Unmap a) \<noteq> Some True"

definition select_row :: "Point \<Rightarrow> string \<Rightarrow> view_plan option \<Rightarrow> FlowAgg \<Rightarrow> DirRow option" where
  "select_row p d pl r =
    (let (down, up) = Directions p (fa_InIf r) (fa_OutIf r)
     in if d = ''download'' \<and> \<not> down \<or> d = ''upload'' \<and> \<not> up then None
        else let dr = \<lparr>dr_Bucket = fa_Bucket r, dr_Src = fa_Src r, dr_Dst = fa_Dst r, dr_Local = NoAddr, dr_Remote = NoAddr, dr_Proto = fa_Proto r,
               dr_Port = fa_Port r, dr_Bytes = fa_Bytes r, dr_Packets = fa_Packets r, dr_Flows = fa_Flows r, dr_Other = False\<rparr>
             in if isOther r then Some (dr\<lparr>dr_Src := NoAddr, dr_Dst := NoAddr, dr_Other := True\<rparr>)
                else let dr = (if d = ''download'' then dr\<lparr>dr_Local := fa_Dst r, dr_Remote := fa_Src r\<rparr> else dr\<lparr>dr_Local := fa_Src r, dr_Remote := fa_Dst r\<rparr>)
                     in if local_kept p pl (dr_Local dr) then Some dr else None)"

definition Select_rows :: "FlowAgg list \<Rightarrow> Point \<Rightarrow> string \<Rightarrow> view_plan option \<Rightarrow> DirRow list" where
  "Select_rows rows p d pl = List.map_filter (select_row p d pl) rows"

definition add_to :: "int \<Rightarrow> int \<Rightarrow> (int, int) gomap \<Rightarrow> (int, int) gomap" where
  "add_to b n m = gm_put b (wrap64 ((case gm_get m b of None \<Rightarrow> 0 | Some x \<Rightarrow> x) + n)) m"

definition sum_row :: "Point \<Rightarrow> view_plan option \<Rightarrow> FlowAgg \<Rightarrow> (int, int) gomap \<times> (int, int) gomap \<Rightarrow> (int, int) gomap \<times> (int, int) gomap" where
  "sum_row p pl r st =
    (let (down, up) = st; (d, u) = Directions p (fa_InIf r) (fa_OutIf r); b = unix (fa_Bucket r); other = isOther r
     in (if d \<and> (other \<or> local_kept p pl (fa_Dst r)) then add_to b (fa_Bytes r) down else down,
         if u \<and> (other \<or> local_kept p pl (fa_Src r)) then add_to b (fa_Bytes r) up else up))"

definition SumByBucket :: "FlowAgg list \<Rightarrow> Point \<Rightarrow> view_plan option \<Rightarrow> (int, int) gomap \<times> (int, int) gomap" where
  "SumByBucket rows p pl = fold (sum_row p pl) rows ([], [])"

definition Totals :: "DirRow list \<Rightarrow> int" where
  "Totals rows = fold (\<lambda>r n. wrap64 (n + dr_Bytes r)) rows 0"

subsection \<open>Groups\<close>

definition ValidGroup :: "string \<Rightarrow> bool" where
  "ValidGroup g \<longleftrightarrow> g \<in> set [''src'', ''dst'', ''pair'', ''conv'', ''app'']"

record GroupRow =
  gr_Key :: string
  gr_Src :: addr
  gr_Dst :: addr
  gr_Proto :: u8
  gr_Port :: u16
  gr_Bytes :: int
  gr_Packets :: int
  gr_Flows :: int

definition no_group :: GroupRow where
  "no_group = \<lparr>gr_Key = '''', gr_Src = NoAddr, gr_Dst = NoAddr, gr_Proto = 0, gr_Port = 0, gr_Bytes = 0, gr_Packets = 0, gr_Flows = 0\<rparr>"

definition AppKey :: "u8 \<Rightarrow> u16 \<Rightarrow> string" where
  "AppKey proto port = nat_string (unat proto) @ ''/'' @ nat_string (unat port)"

definition groupKey :: "DirRow \<Rightarrow> string \<Rightarrow> GroupRow" where
  "groupKey r g =
    (if g = ''src'' then no_group\<lparr>gr_Key := addr_String (dr_Src r), gr_Src := dr_Src r\<rparr>
     else if g = ''dst'' then no_group\<lparr>gr_Key := addr_String (dr_Dst r), gr_Dst := dr_Dst r\<rparr>
     else if g = ''conv'' then no_group\<lparr>gr_Key := addr_String (dr_Src r) @ ''|'' @ addr_String (dr_Dst r) @ ''|'' @ AppKey (dr_Proto r) (dr_Port r),
       gr_Src := dr_Src r, gr_Dst := dr_Dst r, gr_Proto := dr_Proto r, gr_Port := dr_Port r\<rparr>
     else if g = ''app'' then no_group\<lparr>gr_Key := AppKey (dr_Proto r) (dr_Port r), gr_Proto := dr_Proto r, gr_Port := dr_Port r\<rparr>
     else no_group\<lparr>gr_Key := addr_String (dr_Src r) @ ''|'' @ addr_String (dr_Dst r), gr_Src := dr_Src r, gr_Dst := dr_Dst r\<rparr>)"

definition gr_add :: "int \<Rightarrow> int \<Rightarrow> int \<Rightarrow> GroupRow \<Rightarrow> GroupRow" where
  "gr_add b n f g = g\<lparr>gr_Bytes := wrap64 (gr_Bytes g + b), gr_Packets := wrap64 (gr_Packets g + n), gr_Flows := wrap64 (gr_Flows g + f)\<rparr>"

definition group_step :: "string \<Rightarrow> DirRow \<Rightarrow> (string, GroupRow) gomap \<times> GroupRow \<times> int \<Rightarrow> (string, GroupRow) gomap \<times> GroupRow \<times> int" where
  "group_step g r st =
    (let (groups, other, tot) = st; tot = wrap64 (tot + dr_Bytes r); grow = gr_add (dr_Bytes r) (dr_Packets r) (dr_Flows r)
     in if dr_Other r then (groups, grow other, tot)
        else let n = groupKey r g in (gm_put (gr_Key n) (grow (case gm_get groups (gr_Key n) of None \<Rightarrow> n | Some x \<Rightarrow> x)) groups, other, tot))"

definition byBytesThenName :: "GroupRow \<Rightarrow> GroupRow \<Rightarrow> int" where
  "byBytesThenName a b = (let c = go_compare (gr_Bytes b) (gr_Bytes a) in if c \<noteq> 0 then c else go_compare (str_key (gr_Key a)) (str_key (gr_Key b)))"

definition Group :: "DirRow list \<Rightarrow> string \<Rightarrow> int \<Rightarrow> GroupRow list \<times> GroupRow \<times> int" where
  "Group rows g limit =
    (let (m, other, tot) = fold (group_step g) rows ([], no_group, 0);
         groups = sort_cmp byBytesThenName (map snd m)
     in if limit > 0 \<and> int (length groups) > limit
        then (take (nat limit) groups, fold (\<lambda>x. gr_add (gr_Bytes x) (gr_Packets x) (gr_Flows x)) (drop (nat limit) groups) other, tot)
        else (groups, other, tot))"

subsection \<open>Port counters\<close>

definition CounterDownIsTx :: "string \<Rightarrow> string \<Rightarrow> bool" where
  "CounterDownIsTx facing portSide = ((facing = ''down'') \<noteq> (portSide = ''peer''))"

definition CounterBytes :: "string \<Rightarrow> string \<Rightarrow> int \<Rightarrow> int \<Rightarrow> int \<times> int" where
  "CounterBytes facing portSide rx tx = (if CounterDownIsTx facing portSide then (tx, rx) else (rx, tx))"

subsection \<open>Wrapping sums\<close>

lemma wrap64_cong: "wrap64 x = wrap64 y \<longleftrightarrow> x mod 18446744073709551616 = y mod 18446744073709551616"
proof -
  have "wrap64 x = wrap64 y \<longleftrightarrow> (x + 9223372036854775808) mod 18446744073709551616 = (y + 9223372036854775808) mod 18446744073709551616"
    by (simp add: wrap64_def)
  also have "\<dots> \<longleftrightarrow> x mod 18446744073709551616 = y mod 18446744073709551616" by (simp add: mod_eq_dvd_iff)
  finally show ?thesis .
qed

lemma wrap64_mod: "wrap64 x mod 18446744073709551616 = x mod 18446744073709551616"
  unfolding wrap64_def by (simp add: mod_diff_left_eq)

lemma wrap64_add [simp]: "wrap64 (wrap64 x + y) = wrap64 (x + y)" "wrap64 (x + wrap64 y) = wrap64 (x + y)" "wrap64 (wrap64 x) = wrap64 x"
  unfolding wrap64_cong by (metis wrap64_mod mod_add_left_eq, metis wrap64_mod mod_add_right_eq, rule wrap64_mod)

lemma Totals_eq: "Totals rows = wrap64 (\<Sum>r\<leftarrow>rows. dr_Bytes r)"
proof -
  have "fold (\<lambda>r n. wrap64 (n + dr_Bytes r)) rows (wrap64 n) = wrap64 (n + (\<Sum>r\<leftarrow>rows. dr_Bytes r))" for n
    by (induction rows arbitrary: n) (simp_all add: add.assoc)
  from this [of 0] show ?thesis by (simp add: Totals_def wrap64_def)
qed

subsection \<open>Sums per bucket\<close>

definition bucket_at :: "(int, int) gomap \<Rightarrow> int \<Rightarrow> int" where
  "bucket_at m b = (case gm_get m b of None \<Rightarrow> 0 | Some x \<Rightarrow> x)"

text \<open>The endpoint on the local side of a direction, and whether a row counts in it.\<close>

definition counted :: "Point \<Rightarrow> bool \<Rightarrow> view_plan option \<Rightarrow> FlowAgg \<Rightarrow> bool" where
  "counted p down pl r \<longleftrightarrow> (if down then fst else snd) (Directions p (fa_InIf r) (fa_OutIf r))
     \<and> (isOther r \<or> local_kept p pl (if down then fa_Dst r else fa_Src r))"

definition dir_name :: "bool \<Rightarrow> string" where
  "dir_name down = (if down then ''download'' else ''upload'')"

definition dir_map :: "bool \<Rightarrow> (int, int) gomap \<times> (int, int) gomap \<Rightarrow> (int, int) gomap" where
  "dir_map down = (if down then fst else snd)"

lemma select_row_None: "select_row p (dir_name down) pl r = None \<longleftrightarrow> \<not> counted p down pl r"
  by (auto simp: select_row_def counted_def dir_name_def Let_def split_beta)

lemma select_row_Some: "select_row p (dir_name down) pl r = Some x \<Longrightarrow> dr_Bytes x = fa_Bytes r \<and> dr_Bucket x = fa_Bucket r
    \<and> dr_Packets x = fa_Packets r \<and> dr_Flows x = fa_Flows r \<and> dr_Other x = isOther r"
  by (auto simp: select_row_def dir_name_def Let_def split_beta split: if_splits)

lemma select_sum:
  "(\<Sum>x\<leftarrow>filter (\<lambda>x. P (dr_Bucket x)) (Select_rows rows p (dir_name down) pl). dr_Bytes x)
    = (\<Sum>r\<leftarrow>rows. if P (fa_Bucket r) \<and> counted p down pl r then fa_Bytes r else 0)"
proof (induction rows)
  case (Cons r rows)
  show ?case
  proof (cases "select_row p (dir_name down) pl r")
    case None
    then show ?thesis using Cons select_row_None [of p down pl r] by (simp add: Select_rows_def List.map_filter_simps)
  next
    case (Some x)
    then show ?thesis using Cons select_row_None [of p down pl r] select_row_Some [OF Some] by (simp add: Select_rows_def List.map_filter_simps)
  qed
qed (simp add: Select_rows_def List.map_filter_simps)

lemma add_to_at: "bucket_at (add_to b n m) c = (if c = b then wrap64 (bucket_at m b + n) else bucket_at m c)"
  by (simp add: add_to_def bucket_at_def)

lemma sum_row_at:
  "bucket_at (dir_map down (sum_row p pl r st)) b = (if unix (fa_Bucket r) = b \<and> counted p down pl r then wrap64 (bucket_at (dir_map down st) b + fa_Bytes r)
     else bucket_at (dir_map down st) b)"
  by (auto simp: sum_row_def counted_def dir_map_def add_to_at Let_def split_beta)

lemma SumByBucket_at:
  "bucket_at (dir_map down (SumByBucket rows p pl)) b = wrap64 (\<Sum>r\<leftarrow>rows. if unix (fa_Bucket r) = b \<and> counted p down pl r then fa_Bytes r else 0)"
proof -
  have "bucket_at (dir_map down (fold (sum_row p pl) rows st)) b
      = wrap64 (n + (\<Sum>r\<leftarrow>rows. if unix (fa_Bucket r) = b \<and> counted p down pl r then fa_Bytes r else 0))"
    if "bucket_at (dir_map down st) b = wrap64 n" for st n
    using that
  proof (induction rows arbitrary: st n)
    case (Cons r rows)
    let ?f = "if unix (fa_Bucket r) = b \<and> counted p down pl r then fa_Bytes r else 0"
    have "bucket_at (dir_map down (sum_row p pl r st)) b = wrap64 (n + ?f)" using Cons.prems by (simp add: sum_row_at)
    then show ?case using Cons.IH [of "sum_row p pl r st" "n + ?f"] by (simp add: add.assoc)
  qed simp
  from this [of "([], [])" 0] show ?thesis unfolding SumByBucket_def by (simp add: bucket_at_def dir_map_def wrap64_def)
qed

lemma sum_list_0_if: "(\<And>x. x \<in> set xs \<Longrightarrow> f x = (0 :: int)) \<Longrightarrow> sum_list (map f xs) = 0"
  by (induction xs) auto

text \<open>
  What the sums stand for, on the stored rows. A row falls into the step that starts at \<open>b\<close> (the whole window when there is
  no step); it crosses the point in a direction by the interface on that side (download of a point that faces up: the
  incoming one); a row with both endpoints counts when the local one, the destination of a download and the source of an
  upload, is not left out by the point.
\<close>

definition in_step :: "time \<Rightarrow> duration \<Rightarrow> int \<Rightarrow> int \<Rightarrow> bool" where
  "in_step fr step b bucket \<longleftrightarrow>
    (if step = 0 then b = unix fr
     else let s = step div 1000000000 in s dvd b - unix fr \<and> b \<le> bucket \<and> bucket < b + s)"

definition crosses :: "Point \<Rightarrow> bool \<Rightarrow> flow_key \<Rightarrow> bool" where
  "crosses p down k \<longleftrightarrow>
    (let i = (if (fp_Facing (pt_FlowPoint p) = ''up'') = down then tk_inIf k else tk_outIf k)
     in i \<noteq> 0 \<and> i \<in> set (fp_IfIndexes (pt_FlowPoint p)))"

definition wanted :: "Point \<Rightarrow> view_plan option \<Rightarrow> bool \<Rightarrow> flow_key \<Rightarrow> bool" where
  "wanted p pl down k \<longleftrightarrow>
    (let src = FlowBlobIP (tk_src k); dst = FlowBlobIP (tk_dst k); loc = (if down then dst else src)
     in src = NoAddr \<or> dst = NoAddr
        \<or> (\<not> fp_LocalInternal (pt_FlowPoint p) \<or> Class pl loc \<in> {''internal'', ''vpn''}) \<and> gm_get (pt_ExcludeIPs p) (Unmap loc) \<noteq> Some True)"

definition point_bytes :: "FlowTable \<Rightarrow> int \<Rightarrow> time \<Rightarrow> time \<Rightarrow> duration \<Rightarrow> Point \<Rightarrow> view_plan option \<Rightarrow> bool \<Rightarrow> int \<Rightarrow> flow_db \<Rightarrow> int" where
  "point_bytes t e fr to step p pl down b db = (\<Sum>(k, s)\<leftarrow>flow_data t db.
     if tk_exporter k = e \<and> unix fr \<le> tk_bucket k \<and> tk_bucket k < unix to \<and> in_step fr step b (tk_bucket k)
        \<and> crosses p down k \<and> wanted p pl down k then fs_bytes s else 0)"

lemma step_start:
  assumes "0 < (s :: int)"
  shows "f + (x - f) div s * s = b \<longleftrightarrow> s dvd b - f \<and> b \<le> x \<and> x < b + s"
proof
  assume b: "f + (x - f) div s * s = b"
  have "x - f = (x - f) div s * s + (x - f) mod s" "0 \<le> (x - f) mod s" "(x - f) mod s < s" using assms by simp_all
  moreover have "b - f = (x - f) div s * s" using b by simp
  ultimately show "s dvd b - f \<and> b \<le> x \<and> x < b + s" by (metis add.commute add_le_cancel_left add_less_cancel_left diff_add_cancel dvd_triv_right le_add_same_cancel1 group_cancel.add1)
next
  assume a: "s dvd b - f \<and> b \<le> x \<and> x < b + s"
  then obtain q where q: "b - f = s * q" by (auto elim: dvdE)
  have "(x - f) div s = q" by (rule int_div_pos_eq [of _ _ _ "x - b"]) (use a q in auto)
  then show "f + (x - f) div s * s = b" using q by (simp add: mult.commute)
qed

lemma native_step:
  assumes "0 < step" and "go_rem step (native t) = 0"
  shows "go_quot step nanos_per_sec = step div nanos_per_sec \<and> 0 < step div nanos_per_sec"
proof -
  have n: "native t = 60 * nanos_per_sec \<or> native t = 3600 * nanos_per_sec" by (cases t) (simp_all add: native_def hours_def minutes_def seconds_def)
  then have "0 < native t" by auto
  then have "step mod native t = 0" using assms by (simp add: go_rem_def)
  then have "native t \<le> step" using assms(1) by (simp add: zdvd_imp_le mod_0_imp_dvd)
  then have "nanos_per_sec \<le> step" using n by auto
  then show ?thesis using assms(1) by (simp add: go_quot_def pos_imp_zdiv_pos_iff)
qed

lemma window_sum_point:
  assumes "\<forall>er. flowAggSQL t e ifs fr to step \<noteq> Inl er" and "set (fp_IfIndexes (pt_FlowPoint p)) \<subseteq> set ifs"
    and D: "\<And>k. D k \<longleftrightarrow> tk_bucket k = b \<and> crosses p down k \<and> wanted p pl down k"
  shows "window_sum t e ifs fr to step D db = point_bytes t e fr to step p pl down b db"
proof (cases "canonicalIfIndexes ifs = [] \<or> \<not> fr < to")
  case True
  have "\<not> (unix fr \<le> x \<and> x < unix to)" if "\<not> fr < to" for x using unix_mono [of to fr] that by auto
  moreover have "\<not> crosses p down k" if "canonicalIfIndexes ifs = []" for k
    using that assms(2) by (auto simp: canonical_set crosses_def Let_def)
  ultimately have "point_bytes t e fr to step p pl down b db = 0" using True unfolding point_bytes_def by (intro sum_list_0_if) auto
  then show ?thesis using True by (simp add: window_sum_def flowAggSQL_def Let_def)
next
  case False
  let ?g = "\<lambda>x. if go_quot step nanos_per_sec > 0 then unix fr + (x - unix fr) div go_quot step nanos_per_sec * go_quot step nanos_per_sec else unix fr"
  have q: "flowAggSQL t e ifs fr to step = Inr (Some (?g, \<lambda>k. tk_exporter k = e \<and> unix fr \<le> tk_bucket k \<and> tk_bucket k < unix to
      \<and> (tk_inIf k \<in> set (canonicalIfIndexes ifs) \<or> tk_outIf k \<in> set (canonicalIfIndexes ifs))))"
    and st: "step = 0 \<or> 0 < step \<and> go_rem step (native t) = 0"
    using assms(1) False by (auto simp: flowAggSQL_def Let_def split: if_splits)
  have g: "?g x = b \<longleftrightarrow> in_step fr step b x" for x
    using st native_step [of step t] step_start [of "step div nanos_per_sec" "unix fr" x b]
    by (cases "step = 0") (auto simp: in_step_def Let_def go_quot_def)
  have k: "tk_inIf k \<in> set (canonicalIfIndexes ifs) \<or> tk_outIf k \<in> set (canonicalIfIndexes ifs)" if "crosses p down k" for k
    using that assms(2) by (auto simp: canonical_set crosses_def Let_def split: if_splits)
  have "crosses p down (step_key ?g k) = crosses p down k" "wanted p pl down (step_key ?g k) = wanted p pl down k" for k
    by (simp_all add: crosses_def wanted_def step_key_def)
  then have "(tk_exporter k = e \<and> unix fr \<le> tk_bucket k \<and> tk_bucket k < unix to
      \<and> (tk_inIf k \<in> set (canonicalIfIndexes ifs) \<or> tk_outIf k \<in> set (canonicalIfIndexes ifs))) \<and> D (step_key ?g k)
    \<longleftrightarrow> tk_exporter k = e \<and> unix fr \<le> tk_bucket k \<and> tk_bucket k < unix to \<and> in_step fr step b (tk_bucket k) \<and> crosses p down k \<and> wanted p pl down k" for k
    using k [of k] g [of "tk_bucket k"] unfolding D by (auto simp: step_key_def)
  then show ?thesis unfolding window_sum_def q point_bytes_def stored_sum_def by (simp add: case_prod_unfold cong: if_cong)
qed

lemma Directions_crosses: "(if down then fst else snd) (Directions p (tk_inIf k) (tk_outIf k)) \<longleftrightarrow> crosses p down k"
  by (cases down; cases "fp_Facing (pt_FlowPoint p) = ''up''") (simp_all add: Directions_def crosses_def pt_has_def Let_def)

lemma counted_spec: "counted p down pl (agg_of (k, s)) \<longleftrightarrow> crosses p down k \<and> wanted p pl down k"
proof -
  have v: "IsValid a \<longleftrightarrow> a \<noteq> NoAddr" for a by (cases a) simp_all
  have "isOther (agg_of (k, s)) \<or> local_kept p pl (FlowBlobIP (if down then tk_dst k else tk_src k)) \<longleftrightarrow> wanted p pl down k"
    unfolding isOther_def wanted_def local_kept_def agg_of_simps v Let_def if_distrib [of FlowBlobIP] insert_iff empty_iff by blast
  moreover have "counted p down pl (agg_of (k, s)) \<longleftrightarrow> (if down then fst else snd) (Directions p (tk_inIf k) (tk_outIf k))
      \<and> (isOther (agg_of (k, s)) \<or> local_kept p pl (FlowBlobIP (if down then tk_dst k else tk_src k)))"
    unfolding counted_def agg_of_simps if_distrib [of FlowBlobIP] ..
  ultimately show ?thesis unfolding Directions_crosses by (simp only: simp_thms)
qed

text \<open>
  C39: The sums of a point per bucket, for queries that cover the point's interfaces. For both directions, \<open>SumByBucket\<close> of
  the rows of the full query is in every bucket the total of what \<open>Select\<close> keeps in that bucket, and it is the number of
  bytes (modulo the width of \<open>int64\<close>) of exactly those stored rows of the exporter that lie in the window and in this step,
  cross the point's interfaces in this direction (by the incoming interface or by the outgoing one, as the point faces) and
  whose local endpoint the point does not leave out. The cheaper byte query gives the same sums: with endpoints for every
  point, without endpoints for a point that filters nothing.
\<close>

theorem bucket_sums_exact:
  assumes "AggregateFlows t e ifs fr to step db = Inr rows" and "AggregateFlowBytes shuf t e ifs fr to step w db = Inr brows" and "\<And>l. mset (shuf l) = mset l"
    and "w \<or> \<not> fp_LocalInternal (pt_FlowPoint p) \<and> (\<forall>a. gm_get (pt_ExcludeIPs p) a \<noteq> Some True)"
    and "set (fp_IfIndexes (pt_FlowPoint p)) \<subseteq> set ifs"
  shows "bucket_at (dir_map down (SumByBucket rows p pl)) b = Totals (filter (\<lambda>x. unix (dr_Bucket x) = b) (Select_rows rows p (dir_name down) pl))
    \<and> bucket_at (dir_map down (SumByBucket brows p pl)) b = bucket_at (dir_map down (SumByBucket rows p pl)) b
    \<and> bucket_at (dir_map down (SumByBucket rows p pl)) b = wrap64 (point_bytes t e fr to step p pl down b db)"
proof -
  let ?C = "\<lambda>r. unix (fa_Bucket r) = b \<and> counted p down pl r"
  let ?D = "\<lambda>k. tk_bucket k = b \<and> crosses p down k \<and> wanted p pl down k"
  have C: "?C (agg_of (k, s)) = ?D k" for k s by (simp add: counted_spec)
  have B: "?D (bytes_key grp w k) = ?D (step_key grp k)" for grp k
  proof (cases w)
    case True
    then show ?thesis by (simp add: bytes_key_def step_key_def crosses_def wanted_def)
  next
    case False
    then have "wanted p pl down k" for k using assms(4) by (simp add: wanted_def Let_def)
    then show ?thesis by (simp add: bytes_key_def step_key_def crosses_def)
  qed
  have "flowAggSQL t e ifs fr to step \<noteq> Inl er" for er using assms(1) by (auto simp: AggregateFlows_def)
  then have W: "window_sum t e ifs fr to step ?D db = point_bytes t e fr to step p pl down b db"
    by (intro window_sum_point [where D = ?D, OF _ assms(5)] allI refl)
  have "(\<Sum>r\<leftarrow>rows. if ?C r then fa_Bytes r else 0) = window_sum t e ifs fr to step ?D db" by (rule aggregate_sum [where C = ?C and D = ?D, OF assms(1) C])
  moreover have "(\<Sum>r\<leftarrow>brows. if ?C r then fa_Bytes r else 0) = window_sum t e ifs fr to step ?D db" by (rule aggregate_bytes_sum [where C = ?C and D = ?D and E = ?D, OF assms(2,3) C B])
  ultimately show ?thesis unfolding SumByBucket_at Totals_eq select_sum [where P = "\<lambda>t. unix t = b"] W by (simp only: simp_thms)
qed

lemma demo_agg_sql: "flowAggSQL Flows1m 7 [1] (time_Unix 7200 0) (time_Unix 7320 0) 0 =
  Inr (Some (\<lambda>b. 7200, \<lambda>k. tk_exporter k = 7 \<and> 7200 \<le> tk_bucket k \<and> tk_bucket k < 7320 \<and> (tk_inIf k = 1 \<or> tk_outIf k = 1)))"
  by (simp add: flowAggSQL_def canonicalIfIndexes_def MaxFlowIfs_def go_quot_def time_Unix_def [of _ "0 :: int"] seconds_def unix_def)

lemma demo_agg_rows: "filter (\<lambda>r. tk_exporter (fst r) = 7 \<and> 7200 \<le> tk_bucket (fst r) \<and> tk_bucket (fst r) < 7320 \<and> (tk_inIf (fst r) = 1 \<or> tk_outIf (fst r) = 1)) (flow_data Flows1m demo_flow_db)
  = fd_1m demo_flow_db"
  by (simp add: flow_data_def demo_flow_db_def demo_flow_key_def)

definition demo_view_point :: Point where
  "demo_view_point = \<lparr>pt_FlowPoint = demo_point\<lparr>fp_IfIndexes := [1]\<rparr>, pt_ExcludeIPs = []\<rparr>"

theorem bucket_sums_exact_witness:
  "\<exists>rows brows. AggregateFlows Flows1m 7 [1] (time_Unix 7200 0) (time_Unix 7320 0) 0 demo_flow_db = Inr rows
    \<and> AggregateFlowBytes rev Flows1m 7 [1] (time_Unix 7200 0) (time_Unix 7320 0) 0 False demo_flow_db = Inr brows
    \<and> bucket_at (fst (SumByBucket brows demo_view_point None)) 7200 = 220"
proof -
  have sums: "group_sum key sel (fd_1m demo_flow_db) g \<in> {0..220}" if "sel \<in> {fs_bytes, fs_packets, fs_flows}" for key sel g
    using that by (auto simp: group_sum_def demo_flow_db_def)
  have i: "int64 (group_sum key sel (fd_1m demo_flow_db) g)" if "sel \<in> {fs_bytes, fs_packets, fs_flows}" for key sel g
    using sums [OF that, of key g] by (simp add: int64_def)
  obtain rows where r: "AggregateFlows Flows1m 7 [1] (time_Unix 7200 0) (time_Unix 7320 0) 0 demo_flow_db = Inr rows"
    by (simp add: AggregateFlows_def demo_agg_sql Let_def demo_agg_rows list_all_iff i)
  obtain brows where b: "AggregateFlowBytes rev Flows1m 7 [1] (time_Unix 7200 0) (time_Unix 7320 0) 0 False demo_flow_db = Inr brows"
    by (simp add: AggregateFlowBytes_def demo_agg_sql Let_def demo_agg_rows list_all_iff i)
  have "point_bytes Flows1m 7 (time_Unix 7200 0) (time_Unix 7320 0) 0 demo_view_point None True 7200 demo_flow_db = 220"
    by (simp add: point_bytes_def in_step_def flow_data_def demo_flow_db_def demo_flow_key_def crosses_def wanted_def demo_view_point_def demo_point_def gm_get_def Let_def)
  then have "bucket_at (dir_map True (SumByBucket brows demo_view_point None)) 7200 = 220"
    using bucket_sums_exact [OF r b, of demo_view_point True None 7200] by (simp add: demo_view_point_def demo_point_def gm_get_def wrap64_def)
  then show ?thesis using r b by (simp add: dir_map_def)
qed

subsection \<open>Groups\<close>

text \<open>The three counters of a group and of the rows it sums.\<close>

definition counters :: "((GroupRow \<Rightarrow> int) \<times> (DirRow \<Rightarrow> int)) set" where
  "counters = {(gr_Bytes, dr_Bytes), (gr_Packets, dr_Packets), (gr_Flows, dr_Flows)}"

definition row_group :: "string \<Rightarrow> DirRow \<Rightarrow> string" where
  "row_group g r = gr_Key (groupKey r g)"

definition group_of :: "string \<Rightarrow> string \<Rightarrow> (DirRow \<Rightarrow> int) \<Rightarrow> DirRow list \<Rightarrow> int" where
  "group_of g k sel rows = (\<Sum>r\<leftarrow>rows. if \<not> dr_Other r \<and> row_group g r = k then sel r else 0)"

lemma groupKey_zero: "gr_Bytes (groupKey r g) = 0" "gr_Packets (groupKey r g) = 0" "gr_Flows (groupKey r g) = 0"
  unfolding groupKey_def by (simp_all only: no_group_def GroupRow.simps if_distrib [of gr_Bytes] if_distrib [of gr_Packets] if_distrib [of gr_Flows] if_cancel)

lemma gr_add_counter:
  "(f, sel) \<in> counters \<Longrightarrow> f (gr_add (dr_Bytes r) (dr_Packets r) (dr_Flows r) x) = wrap64 (f x + sel r)"
  "(f, sel) \<in> counters \<Longrightarrow> f (gr_add (gr_Bytes y) (gr_Packets y) (gr_Flows y) x) = wrap64 (f x + f y)"
  "(f, sel) \<in> counters \<Longrightarrow> f (groupKey r g) = 0" "(f, sel) \<in> counters \<Longrightarrow> f no_group = 0"
  unfolding counters_def by (elim insertE emptyE; simp add: gr_add_def groupKey_zero no_group_def)+

lemma gr_add_Key [simp]: "gr_Key (gr_add b n f x) = gr_Key x"
  by (simp add: gr_add_def)

definition groups_ok :: "string \<Rightarrow> DirRow list \<Rightarrow> (string, GroupRow) gomap \<times> GroupRow \<times> int \<Rightarrow> bool" where
  "groups_ok g rows st \<longleftrightarrow> keyed gr_Key (fst st) \<and> fst ` set (fst st) = row_group g ` set (filter (\<lambda>r. \<not> dr_Other r) rows)
     \<and> (\<forall>f sel. (f, sel) \<in> counters \<longrightarrow> (\<forall>k x. gm_get (fst st) k = Some x \<longrightarrow> f x = wrap64 (group_of g k sel rows))
          \<and> f (fst (snd st)) = wrap64 (\<Sum>r\<leftarrow>rows. if dr_Other r then sel r else 0)
          \<and> wrap64 (gm_sum f (fst st) + f (fst (snd st))) = wrap64 (sum_list (map sel rows)))
     \<and> snd (snd st) = wrap64 (sum_list (map dr_Bytes rows))"

lemma groups_ok_step:
  assumes "groups_ok g rows st" shows "groups_ok g (rows @ [r]) (group_step g r st)"
proof -
  obtain m other tot where st: "st = (m, other, tot)" by (cases st)
  have k: "keyed gr_Key m" and ks: "fst ` set m = row_group g ` set (filter (\<lambda>r. \<not> dr_Other r) rows)" and t: "tot = wrap64 (sum_list (map dr_Bytes rows))"
    and c: "\<And>f sel k x. (f, sel) \<in> counters \<Longrightarrow> gm_get m k = Some x \<Longrightarrow> f x = wrap64 (group_of g k sel rows)"
    and o: "\<And>f sel. (f, sel) \<in> counters \<Longrightarrow> f other = wrap64 (\<Sum>r\<leftarrow>rows. if dr_Other r then sel r else 0)"
    and s: "\<And>f sel. (f, sel) \<in> counters \<Longrightarrow> wrap64 (gm_sum f m + f other) = wrap64 (sum_list (map sel rows))"
    using assms by (auto simp: groups_ok_def st)
  have s': "wrap64 (gm_sum f m + (f other + sel r)) = wrap64 (sum_list (map sel rows) + sel r)" if "(f, sel) \<in> counters" for f sel
    using arg_cong [OF s [OF that], of "\<lambda>x. wrap64 (x + sel r)"] by (simp add: add.assoc)
  show ?thesis
  proof (cases "dr_Other r")
    case True
    then have e: "group_step g r st = (m, gr_add (dr_Bytes r) (dr_Packets r) (dr_Flows r) other, wrap64 (tot + dr_Bytes r))" by (simp add: group_step_def st Let_def)
    let ?other = "gr_add (dr_Bytes r) (dr_Packets r) (dr_Flows r) other"
    have "f x = wrap64 (group_of g k sel (rows @ [r]))" if "(f, sel) \<in> counters" "gm_get m k = Some x" for f sel k x
      using c [OF that] True by (simp add: group_of_def)
    moreover have "f ?other = wrap64 (\<Sum>r\<leftarrow>rows @ [r]. if dr_Other r then sel r else 0)" if "(f, sel) \<in> counters" for f sel
      using o [OF that] True by (simp add: gr_add_counter(1) [OF that])
    moreover have "wrap64 (gm_sum f m + f ?other) = wrap64 (sum_list (map sel (rows @ [r])))" if "(f, sel) \<in> counters" for f sel
      using s' [OF that] by (simp add: gr_add_counter(1) [OF that])
    moreover have "fst ` set m = row_group g ` set (filter (\<lambda>r. \<not> dr_Other r) (rows @ [r]))" using ks True by simp
    moreover have "wrap64 (tot + dr_Bytes r) = wrap64 (sum_list (map dr_Bytes (rows @ [r])))" using t by simp
    ultimately show ?thesis unfolding groups_ok_def e fst_conv snd_conv using k by blast
  next
    case False
    define n where "n = groupKey r g"
    define old where "old = (case gm_get m (gr_Key n) of None \<Rightarrow> n | Some x \<Rightarrow> x)"
    define new where "new = gr_add (dr_Bytes r) (dr_Packets r) (dr_Flows r) old"
    have e: "group_step g r st = (gm_put (gr_Key n) new m, other, wrap64 (tot + dr_Bytes r))"
      using False unfolding new_def old_def n_def by (simp add: group_step_def st Let_def)
    have ok: "gr_Key old = gr_Key n" using k keyed_get [OF k] by (auto simp: old_def split: option.split)
    have nk: "gr_Key n = row_group g r" by (simp add: n_def row_group_def)
    have go: "group_of g k sel (rows @ [r]) = group_of g k sel rows + (if k = row_group g r then sel r else 0)" for k sel
      using False by (simp add: group_of_def)
    have fo: "f old = wrap64 (group_of g (gr_Key n) sel rows)" if "(f, sel) \<in> counters" for f sel
    proof (cases "gm_get m (gr_Key n)")
      case None
      then have "gr_Key n \<notin> fst ` set m" by (simp add: gm_get_def map_of_eq_None_iff)
      then have d: "row_group g r' \<noteq> gr_Key n" if "r' \<in> set rows" "\<not> dr_Other r'" for r' using that unfolding ks by force
      have "group_of g (gr_Key n) sel rows = 0" unfolding group_of_def by (intro sum_list_0_if) (use d in auto)
      then show ?thesis using None that by (simp add: old_def gr_add_counter(3) n_def wrap64_def)
    qed (use c [OF that] in \<open>simp add: old_def\<close>)
    have nw: "f new = wrap64 (f old + sel r)" if "(f, sel) \<in> counters" for f sel using that by (simp add: new_def gr_add_counter(1))
    have old0: "gm_sum f (gm_put (gr_Key n) new m) = gm_sum f m - f old + f new" if "(f, sel) \<in> counters" for f sel
      using gr_add_counter(3) [OF that] by (auto simp: gm_sum_put old_def n_def split: option.split)
    have sm: "wrap64 (gm_sum f (gm_put (gr_Key n) new m) + f other) = wrap64 (sum_list (map sel (rows @ [r])))" if "(f, sel) \<in> counters" for f sel
    proof -
      have "wrap64 (gm_sum f (gm_put (gr_Key n) new m) + f other) = wrap64 ((gm_sum f m - f old + f other) + wrap64 (f old + sel r))"
        unfolding old0 [OF that] nw [OF that] by (simp add: algebra_simps)
      also have "\<dots> = wrap64 (gm_sum f m + (f other + sel r))" unfolding wrap64_add(2) by (simp add: algebra_simps)
      finally show ?thesis using s' [OF that] by simp
    qed
    have "keyed gr_Key (gm_put (gr_Key n) new m)" using k ok by (intro keyed_put) (simp_all add: new_def)
    moreover have "fst ` set (gm_put (gr_Key n) new m) = row_group g ` set (filter (\<lambda>r. \<not> dr_Other r) (rows @ [r]))" using False ks by (simp add: keys_put nk)
    moreover have "f x = wrap64 (group_of g k sel (rows @ [r]))" if "(f, sel) \<in> counters" "gm_get (gm_put (gr_Key n) new m) k = Some x" for f sel k x
    proof (cases "k = row_group g r")
      case True
      then have "x = new" using that(2) by (simp add: nk)
      then show ?thesis using True nw [OF that(1)] fo [OF that(1)] by (simp add: go nk)
    next
      case False
      then show ?thesis using c [OF that(1), of k x] that(2) by (simp add: go nk)
    qed
    moreover have "f other = wrap64 (\<Sum>r\<leftarrow>rows @ [r]. if dr_Other r then sel r else 0)" if "(f, sel) \<in> counters" for f sel using o [OF that] False by simp
    ultimately show ?thesis unfolding groups_ok_def e using sm t by simp
  qed
qed

lemma groups_ok_fold: "groups_ok g rows (fold (group_step g) rows ([], no_group, 0))"
proof (induction rows rule: rev_induct)
  case Nil
  show ?case by (auto simp: groups_ok_def keyed_def gm_wf_def gr_add_counter(4) wrap64_def gm_sum_def)
qed (simp add: groups_ok_step)

lemma by_name_then: "byBytesThenName = cmp_then (\<lambda>a b. go_compare (gr_Bytes b) (gr_Bytes a)) (\<lambda>a b. go_compare (str_key (gr_Key a)) (str_key (gr_Key b)))"
  by (simp add: fun_eq_iff byBytesThenName_def cmp_then_def Let_def)

interpretation group_cmp: comparator byBytesThenName "\<lambda>x. (gr_Bytes x, str_key (gr_Key x))"
  unfolding by_name_then by (rule comparator_then [OF comparator_flip [OF comparator_on [OF ord_cmp.comparator_axioms]] comparator_on [OF ord_cmp.comparator_axioms]])

lemma by_name_le: "byBytesThenName x y \<le> 0 \<Longrightarrow> gr_Bytes y \<le> gr_Bytes x"
  by (auto simp: byBytesThenName_def go_compare_def Let_def split: if_splits)

lemma fold_gr_add:
  "(f, sel) \<in> counters \<Longrightarrow> wrap64 (f (fold (\<lambda>x. gr_add (gr_Bytes x) (gr_Packets x) (gr_Flows x)) xs y)) = wrap64 (f y + sum_list (map f xs))"
proof (induction xs arbitrary: y)
  case (Cons x xs)
  then show ?case by (simp add: gr_add_counter(2) [OF Cons.prems] add.assoc)
qed simp

text \<open>
  C40: The top groups of a point. Whatever the grouping: the total is that of all rows; each returned group has a key of
  its own and exactly the bytes, packets and flows of the rows with this key; the groups come largest first, at most \<open>limit\<close>
  of them when there is a limit, and no group left out has more bytes than one that is returned; nothing is lost, the groups and
  the remainder add up to all rows in every counter (sums modulo the width of \<open>int64\<close>).
\<close>

theorem group_spec:
  assumes "Group rows g limit = (tops, other, tot)"
  shows "tot = Totals rows
    \<and> (\<forall>f sel. (f, sel) \<in> counters \<longrightarrow> wrap64 (sum_list (map f tops) + f other) = wrap64 (sum_list (map sel rows))
        \<and> (\<forall>x \<in> set tops. f x = wrap64 (group_of g (gr_Key x) sel rows)))
    \<and> distinct (map gr_Key tops) \<and> gr_Key ` set tops \<subseteq> row_group g ` set (filter (\<lambda>r. \<not> dr_Other r) rows)
    \<and> sorted_wrt (\<lambda>x y. byBytesThenName x y \<le> 0) tops
    \<and> (0 < limit \<longrightarrow> int (length tops) \<le> limit)
    \<and> (\<forall>r \<in> set rows. dr_Other r \<or> row_group g r \<in> gr_Key ` set tops
        \<or> 0 < limit \<and> int (length tops) = limit \<and> (\<forall>x \<in> set tops. wrap64 (group_of g (row_group g r) dr_Bytes rows) \<le> gr_Bytes x))"
proof -
  obtain m o1 t1 where fo: "fold (group_step g) rows ([], no_group, 0) = (m, o1, t1)" by (metis prod.exhaust)
  note ok = groups_ok_fold [of g rows, unfolded fo groups_ok_def fst_conv snd_conv]
  let ?l = "sort_cmp byBytesThenName (map snd m)"
  have k: "keyed gr_Key m" using ok by blast
  have ms: "mset ?l = mset (map snd m)" by simp
  have kk: "map gr_Key (map snd m) = map fst m" using k by (auto simp: keyed_def)
  have "mset (map gr_Key ?l) = mset (map fst m)" unfolding kk [symmetric] by (simp add: multiset.map_comp)
  then have d: "distinct (map gr_Key ?l)" using k by (metis gm_wf_def keyed_def mset_eq_imp_distinct_iff)
  have keys: "gr_Key ` set ?l = row_group g ` set (filter (\<lambda>r. \<not> dr_Other r) rows)"
  proof -
    have "set ?l = snd ` set m" using mset_eq_setD [OF ms] by simp
    moreover have "gr_Key ` snd ` set m = fst ` set m" using arg_cong [OF kk, of set] unfolding list.set_map .
    ultimately show ?thesis using ok by presburger
  qed
  have val: "f x = wrap64 (group_of g (gr_Key x) sel rows)" if "(f, sel) \<in> counters" "x \<in> set ?l" for f sel x
  proof -
    have "x \<in> snd ` set m" using that(2) mset_eq_setD [OF ms] by simp
    then have "gm_get m (gr_Key x) = Some x" using k gm_get_iff_in_set [of m] by (auto simp: keyed_def)
    then show ?thesis using ok that(1) by blast
  qed
  have srt: "sorted_wrt (\<lambda>x y. byBytesThenName x y \<le> 0) ?l" by (rule group_cmp.sorted_sort_cmp)
  have sm: "wrap64 (sum_list (map f ?l) + f o1) = wrap64 (sum_list (map sel rows))" if "(f, sel) \<in> counters" for f sel
  proof -
    have "mset (map f ?l) = mset (map f (map snd m))" by (simp add: multiset.map_comp)
    then have "sum_list (map f ?l) = sum_list (map f (map snd m))" by (metis sum_mset_sum_list)
    also have "\<dots> = gm_sum f m" by (simp add: gm_sum_def comp_def case_prod_unfold)
    finally have e: "sum_list (map f ?l) = gm_sum f m" .
    show ?thesis unfolding e using ok that by blast
  qed
  have tt: "t1 = Totals rows" using ok by (simp add: Totals_eq)
  show ?thesis
  proof (cases "limit > 0 \<and> int (length ?l) > limit")
    case False
    then have e: "tops = ?l" "other = o1" "tot = t1" using assms fo False by (auto simp: Group_def Let_def)
    have "row_group g r \<in> gr_Key ` set tops" if "r \<in> set rows" "\<not> dr_Other r" for r using that unfolding e keys by auto
    moreover have "0 < limit \<longrightarrow> int (length tops) \<le> limit" using False unfolding e by linarith
    ultimately show ?thesis using sm val d keys srt tt unfolding e by blast
  next
    case True
    define n where "n = nat limit"
    have e: "tops = take n ?l" "other = fold (\<lambda>x. gr_add (gr_Bytes x) (gr_Packets x) (gr_Flows x)) (drop n ?l) o1" "tot = t1"
      using assms fo True by (auto simp: Group_def n_def Let_def)
    have len: "int (length tops) = limit" using True by (auto simp: e n_def min_def)
    have sub: "set tops \<subseteq> set ?l" unfolding e by (rule set_take_subset)
    have "wrap64 (sum_list (map f tops) + f other) = wrap64 (sum_list (map sel rows))" if c: "(f, sel) \<in> counters" for f sel
    proof -
      have "wrap64 (sum_list (map f tops) + f other) = wrap64 (sum_list (map f tops) + wrap64 (f other))" by simp
      also have "\<dots> = wrap64 (sum_list (map f tops) + (f o1 + sum_list (map f (drop n ?l))))" unfolding e(2) fold_gr_add [OF c] by simp
      also have "\<dots> = wrap64 (sum_list (map f (take n ?l @ drop n ?l)) + f o1)" unfolding e(1) map_append sum_list_append by (simp add: algebra_simps)
      finally show ?thesis using sm [OF c] by simp
    qed
    moreover have "distinct (map gr_Key tops)" using d unfolding e(1) by (metis distinct_take take_map)
    moreover have "sorted_wrt (\<lambda>x y. byBytesThenName x y \<le> 0) tops" using srt unfolding e(1) by (rule sorted_wrt_take)
    moreover have "wrap64 (group_of g (row_group g r) dr_Bytes rows) \<le> gr_Bytes x"
      if r: "r \<in> set rows" "\<not> dr_Other r" "row_group g r \<notin> gr_Key ` set tops" and x: "x \<in> set tops" for r x
    proof -
      have "row_group g r \<in> gr_Key ` set ?l" using r(1,2) unfolding keys by auto
      then obtain y where y: "y \<in> set ?l" "gr_Key y = row_group g r" by (metis imageE)
      then have "y \<in> set (drop n ?l)" using r(3) unfolding e(1) by (metis Un_iff append_take_drop_id image_eqI set_append)
      then have "byBytesThenName x y \<le> 0" using srt x unfolding e(1) by (metis append_take_drop_id sorted_wrt_append)
      then have "gr_Bytes y \<le> gr_Bytes x" by (rule by_name_le)
      then show ?thesis using val [of gr_Bytes dr_Bytes y] y by (simp add: counters_def)
    qed
    moreover have "gr_Key ` set tops \<subseteq> row_group g ` set (filter (\<lambda>r. \<not> dr_Other r) rows)" using sub unfolding keys [symmetric] by blast
    moreover have "f x = wrap64 (group_of g (gr_Key x) sel rows)" if "(f, sel) \<in> counters" "x \<in> set tops" for f sel x using val [OF that(1)] sub that(2) by blast
    moreover have "0 < limit" "int (length tops) \<le> limit" using True len by simp_all
    ultimately show ?thesis using len tt unfolding e(3) by blast
  qed
qed

definition demo_dir_row :: "u8 \<Rightarrow> int \<Rightarrow> DirRow" where
  "demo_dir_row i n = \<lparr>dr_Bucket = 0, dr_Src = Addr4 [10, 0, 0, i], dr_Dst = Addr4 [192, 0, 2, 1], dr_Local = Addr4 [10, 0, 0, i], dr_Remote = Addr4 [192, 0, 2, 1],
     dr_Proto = 6, dr_Port = 443, dr_Bytes = n, dr_Packets = 1, dr_Flows = 1, dr_Other = False\<rparr>"

theorem group_spec_witness:
  "\<exists>tops other. Group [demo_dir_row 1 70, demo_dir_row 2 50, demo_dir_row 3 20] ''src'' 1 = (tops, other, 140) \<and> length tops = 1 \<and> wrap64 (sum_list (map gr_Bytes tops) + gr_Bytes other) = 140"
proof -
  let ?rows = "[demo_dir_row 1 70, demo_dir_row 2 50, demo_dir_row 3 20]"
  obtain tops other tot where g: "Group ?rows ''src'' 1 = (tops, other, tot)" by (metis prod.exhaust)
  have t: "Totals ?rows = 140" by (simp add: Totals_eq demo_dir_row_def wrap64_def)
  have b: "(gr_Bytes, dr_Bytes) \<in> counters" by (simp add: counters_def)
  note S = group_spec [OF g]
  have tot: "tot = 140" using S t by metis
  have "wrap64 (sum_list (map gr_Bytes tops) + gr_Bytes other) = 140" using S b by (simp add: demo_dir_row_def wrap64_def)
  moreover have "length tops = 1"
  proof (rule ccontr)
    assume l: "length tops \<noteq> 1"
    then have "tops = []" using S by (cases tops) auto
    moreover have "row_group ''src'' (demo_dir_row 1 70) \<in> gr_Key ` set tops" using S l by (auto simp: demo_dir_row_def)
    ultimately show False by simp
  qed
  ultimately show ?thesis using g tot by blast
qed

end
