(* ===== verification/Spec2Isabelle.thy ===== *)
theory Spec2Isabelle
  imports Exporter_Props Aggregate_Flush Normalize Flow_Settings Collector_Run Flow_Retention Flow_View
begin

text \<open>
  Verification of the flow collector of MikroTik NMS: everything between a NetFlow, IPFIX or sFlow datagram on a UDP
  socket and the rows of the tables \<open>flow_1m\<close> and \<open>flow_1h\<close> (\<open>src/backend/internal/flow\<close>, \<open>flow/decode\<close>,
  \<open>flow/svcport\<close> and the flow queries of \<open>src/backend/internal/database/queries/flows.go\<close>), the maintenance of what the rows
  mean (exporters, observation points, address plan, retention) and their classification for the views.

  \<^bold>\<open>The program.\<close> One reader per socket calls \<open>handlePacket\<close>: allow-list, rate limits, a queue of 1024 datagrams.
  One worker takes datagrams from the queue and owns all other state: per exporter a decoder (\<open>decode.Exporter\<close>), a
  duplicate filter, a hint tracker and the open minutes of its aggregation. Timers make it flush due minutes,
  reconcile with the database and persist status counters. It hands batches, templates and counters to one
  writer through a channel of 8 operations and never blocks on it, except for at most five seconds while shutting down.
  The writer applies each operation to SQLite, creates the observation points of new interfaces and rolls minutes up into hours. A
  maintenance loop rebuilds the address plan and recomputes the points; the retention loop sweeps old rows. The views classify addresses by the plan.

  \<^bold>\<open>Theories, in the order of the data.\<close>
  \<^item> \<open>NMS_Prelude\<close>: the Go run time (bounds-checked reads, maps, time, \<open>int64\<close>, sorting by a comparison function),
    with the locales \<open>go_map\<close> and \<open>comparator\<close> for what the components rely on.
  \<^item> \<open>Flow_Types\<close>, \<open>Netip\<close>, \<open>Float64\<close>: addresses and protocol kinds (\<open>decode/flow.go\<close>), prefixes of
    \<open>net/netip\<close>, and \<open>float64\<close> as rationals with every operation rounded to 53 bits. \<open>Netip_Text\<close>: parsing and printing
    of addresses and prefixes, with the round trip of the address lists in the database.
  \<^item> \<open>Frame_Header\<close> (\<open>decode/header.go\<close>), \<open>Flow_Record\<close> (\<open>decode/flow.go\<close>): from bytes and decoded records to
    flows; the uptime arithmetic and the parsers' safety.
  \<^item> \<open>Template_Store\<close>, \<open>Prechecks\<close> (\<open>decode/guard.go\<close>), \<open>Template_Blob\<close> (\<open>decode/templates.go\<close>): the guarded
    template store with its refinement of a finite map, the size prechecks against templates and records read off the
    bytes, the persisted form of templates (which loses bit 15 of a NetFlow v9 field type, \<open>v9_type_bit_lost\<close>).
  \<^item> \<open>Exporter\<close> (\<open>decode/decode.go\<close>), with \<open>Exporter_Inv\<close> (a locale of the elementary updates, so that an invariant
    is proved once per update), \<open>Exporter_Domains\<close> and \<open>Exporter_Props\<close>: \<open>Decode\<close> with panic recovery, reboots,
    buffering and replay; memory, domain, time and counter guarantees over every run.
  \<^item> \<open>Aggregate\<close>, \<open>Aggregate_Flush\<close> (\<open>flow/aggregate.go\<close>): splitting flows over minutes and flushing a minute,
    with exact conservation of bytes, packets and flows and the choice of the largest conversations.
  \<^item> \<open>Svcport\<close> (\<open>svcport/svcport.go\<close>), \<open>Normalize\<close> (\<open>flow/normalize.go\<close>), \<open>Flow_Settings\<close> (\<open>flow/settings.go\<close>,
    \<open>flow/logthrottle.go\<close>): service ports, self-export and duplicate drops, the inside view of translated addresses (both
    directions of a conversation get mirrored keys), interface hints, settings.
  \<^item> \<open>Listener\<close> (\<open>flow/listener.go\<close>): the reader side. \<open>Worker_State\<close>, \<open>Worker\<close> (\<open>flow/worker.go\<close>, \<open>submit\<close> of
    \<open>flow/writer.go\<close>): the worker's state and every operation of it; \<open>Worker_Flush\<close>, \<open>Worker_Props\<close> and
    \<open>Worker_Handover\<close> show that no minute is left behind, that the invariant of the whole state survives any
    datagram, that every decoded flow is accounted for, and what is handed to the writer.
  \<^item> \<open>Collector\<close> (\<open>flow/collector.go\<close>, \<open>flow/api.go\<close>): \<open>New\<close> and the status. \<open>Collector_Run\<close>: the step relation
    \<open>crun\<close> of readers, worker and writer, its invariant, and the shutdown.
  \<^item> \<open>Flow_Store\<close>, \<open>Flow_Store_Props\<close> (\<open>database/queries/flows.go\<close>): the tables and the statements run on them;
    \<open>Writer\<close> (\<open>flow/writer.go\<close>): every write operation under any pattern of failing queries, up to the
    statement that a minute's totals in the worker are what the minute table grows by. The scan of a rollup may end early
    without the code noticing (\<open>RollCut\<close>, \<open>cut_rollup_counts_as_done\<close>).
  \<^item> \<open>Flow_Points\<close> (the point table of \<open>queries/flows.go\<close>), \<open>Native_Points\<close> (\<open>flow/points.go\<close>, \<open>queries/uplinks.go\<close>): uniqueness
    and references of points under any statements, the points of flushed interfaces, and what a recomputation may change.
  \<^item> \<open>Flow_Plan\<close> (\<open>flow/plan.go\<close>), \<open>View_Plan\<close> (\<open>flowview/plan.go\<close>): the plan built from reported addresses with the classes its
    comment documents (\<open>documented\<close>), its refresh, and the classifier as a longest-prefix lookup.
  \<^item> \<open>Flow_Query\<close> (the aggregation and meta queries of \<open>queries/flows.go\<close>), \<open>Flow_View\<close> (\<open>flowview/flowview.go\<close>): which rows count for a
    point in which direction; that sums per bucket, by either query, are the bytes of the stored rows that cross the point (\<open>point_bytes\<close>); the top groups.
  \<^item> \<open>Flow_Retention\<close> (\<open>flow/sweep.go\<close>, the chunked deletes): what a sweep removes, and when a rollup
    reads no swept hour: always for the regular rollup, on days of at least 23 hours; for the start-up catch-up only with
    days of 24 hours (\<open>short_day_thins_catchup\<close> shows the failure on a day of 23). A listing of exporters that ends early
    unnoticed (\<open>ListCut\<close>) makes a sweep delete rows of existing exporters (\<open>partial_listing_deletes_live\<close>).

  \<^bold>\<open>Conventions.\<close>
  \<^item> A computation that may panic is an \<open>option\<close>; the properties show that the byte parsers, aggregation and normalisation never do.
    Errors are values (\<open>derror\<close>, \<open>dec_out\<close>, \<open>query_error\<close>); which statements of an operation fail is an argument
    (\<open>outcomes\<close>, \<open>point_reads\<close>, \<open>plan_reads\<close>, \<open>sweep_ok\<close>).
  \<^item> Code outside the repository is a parameter. goflow2's template system and decoders are the records
    \<open>template_system\<close> and \<open>decoders\<close>; the hypotheses on them (\<open>template_system_ok\<close> and the documented behaviour
    in \<open>Exporter_Domains\<close>) state what its documentation says, and each is met by a concrete instance in the witnesses.
    The database as the worker reads it is part of \<open>env\<close>; what it answers is arbitrary.
    The RouterOS address query of a device is an argument of \<open>refreshPlan\<close>, calendar arithmetic in the local zone one of \<open>Sweep\<close>. An IPv6 zone is parsed but
    not part of an address.
  \<^item> A map is an association list with distinct keys. Where the iteration order could matter the properties show that it does not
    (\<open>flush_order_irrelevant\<close>) or hold for any order.
  \<^item> Event counters that only grow by small steps are unbounded integers; sums that can overflow saturate or wrap as in the
    code. SQL tables are finite maps from the primary key; a failed or rolled-back statement leaves them unchanged. The counters
    stored in a row are unbounded in the upsert: SQLite turns a sum of \<open>2^63\<close> or more into a \<open>REAL\<close>, so the statements about
    tables are about values below that (a row grows by at most \<open>2^48\<close> per flow).
  \<^item> A write operation, a rollup of an hour and a whole sweep are atomic: no other writer acts between their statements. In the
    code the retention loop and the writer run beside each other, and a sweep deletes in chunks.
  \<^item> The worker's steps are atomic in \<open>crun\<close>: the code runs them on one goroutine, and the readers share only
    the queue, the allow-list and counters with it. Stamps of queued datagrams are in queue order: with several sockets two readers may in the code
    enqueue against the order of their stamps, and a wall clock that steps back is covered for ticks only.
  \<^item> Loops are recursion with a termination proof (\<open>drainQueue\<close>, \<open>share_loop\<close>, \<open>pt_loop\<close>, the record walks) or
    a fold over what the loop visits; no definition has fuel except the loops that count in the code (VLAN tags, IPv6
    extension headers), where the fuel is the bound of the code.

  \<^bold>\<open>Not modelled.\<close> Sockets, goroutine start-up, log output and buffer pooling (no state the properties speak of);
  the interface sync (\<open>flow/ifsync.go\<close>), which polls devices; the JSON form of a point's
  excluded ports (the list itself is in the model); the Sankey layout and the view suggestions (\<open>flowview/sankey.go\<close>, \<open>flowview/suggest.go\<close>). Outside the flow collector: pollers, topology, HTTP API, authentication, deployment.
\<close>

end
